(* ===== verification/Ntsc_Prelude.thy ===== *)
theory Ntsc_Prelude
  imports Main "HOL-Library.Word"
begin

text \<open>
  Shared vocabulary of the development: the machine integers of the Rust sources, their
  wrap-around and saturation, the view of a Rust string as its UTF-8 bytes, and the list,
  option and map facts that the component theories use.

  \<^item> \<open>u8\<close>, \<open>u32\<close> and \<open>u64\<close> are words, so \<open>+\<close> is the wrapping addition of the sources.
  \<^item> \<open>i64\<close> is an \<open>int\<close>; wherever the sources can leave the 64-bit range the model applies
    \<open>wrap_i64\<close>, and \<open>in_i64\<close> says that a value is in range.
  \<^item> \<open>usize\<close> is a \<open>nat\<close>: it is used for lengths and offsets of objects that exist in memory.
  \<^item> a Rust \<open>String\<close> is the list of its UTF-8 bytes (\<open>string\<close>), so that \<open>len\<close> and every byte
    offset is \<open>length\<close> and \<open>take\<close>/\<open>drop\<close>; \<open>chars\<close> recovers the iteration over code points.
\<close>

unbundle bit_operations_syntax

type_synonym u8 = "8 word"
type_synonym u32 = "32 word"
type_synonym u64 = "64 word"
type_synonym i64 = int
type_synonym usize = nat

named_theorems reg_defs \<open>definitions of the registry operations\<close>
named_theorems reg_simps \<open>field-wise effect of the registry operations\<close>
named_theorems reg_inv \<open>operations that keep the registry invariant\<close>
named_theorems ring_simps \<open>arithmetic of ring indices\<close>

section \<open>Signed 64-bit integers\<close>

definition in_i64 :: "int \<Rightarrow> bool" where
  "in_i64 z \<longleftrightarrow> - (2 ^ 63) \<le> z \<and> z < 2 ^ 63"

definition wrap_i64 :: "int \<Rightarrow> i64" where
  "wrap_i64 z = (z + 2 ^ 63) mod 2 ^ 64 - 2 ^ 63"

definition i64_max :: i64 where
  "i64_max = 2 ^ 63 - 1"

definition i64_min :: i64 where
  "i64_min = - (2 ^ 63)"

definition saturating_add_i64 :: "i64 \<Rightarrow> i64 \<Rightarrow> i64" where
  "saturating_add_i64 a b = max i64_min (min i64_max (a + b))"

lemma in_i64_wrap: "in_i64 (wrap_i64 z)"
  by (simp add: in_i64_def wrap_i64_def)

lemma wrap_i64_id: "in_i64 z \<Longrightarrow> wrap_i64 z = z"
  by (simp add: in_i64_def wrap_i64_def)

lemma wrap_i64_mod: "wrap_i64 z mod 2 ^ 64 = z mod 2 ^ 64"
  by (simp add: wrap_i64_def mod_diff_left_eq)

lemma saturating_add_i64_bounds: "in_i64 (saturating_add_i64 a b)"
  by (simp add: saturating_add_i64_def in_i64_def i64_max_def i64_min_def)

text \<open>The null handle, and the null goroutine id of the run queue.\<close>

definition NULL :: i64 where
  "NULL = 0"

section \<open>Saturating and checked unsigned arithmetic\<close>

definition saturating_sub_u64 :: "u64 \<Rightarrow> u64 \<Rightarrow> u64" where
  "saturating_sub_u64 a b = (if b \<le> a then a - b else 0)"

definition saturating_add_u64 :: "u64 \<Rightarrow> u64 \<Rightarrow> u64" where
  "saturating_add_u64 a b = (if unat a + unat b < 2 ^ 64 then a + b else - 1)"

lemma saturating_sub_u64_one: "unat (saturating_sub_u64 a 1) = unat a - 1"
proof (cases "1 \<le> a")
  case True
  then show ?thesis by (simp add: saturating_sub_u64_def unat_sub)
next
  case False
  then have "a = 0" by (simp add: word_le_nat_alt not_le unat_eq_0)
  then show ?thesis by (simp add: saturating_sub_u64_def)
qed

lemma saturating_sub_u64_pos: "0 < saturating_sub_u64 a 1 \<longleftrightarrow> 1 < unat a"
  by (simp add: word_less_nat_alt saturating_sub_u64_one)

section \<open>Strings as UTF-8 bytes\<close>

text \<open>A continuation byte of UTF-8 has the form \<open>10xxxxxx\<close>.\<close>

definition is_cont :: "char \<Rightarrow> bool" where
  "is_cont c \<longleftrightarrow> 128 \<le> (of_char c :: nat) \<and> (of_char c :: nat) < 192"

text \<open>\<open>chars s\<close> is the iteration \<open>s.chars()\<close>: each leading byte with the continuation bytes
  that follow it, in order.\<close>

fun chars :: "string \<Rightarrow> string list" where
  "chars [] = []"
| "chars (c # cs) =
     (case chars cs of
        [] \<Rightarrow> [[c]]
      | d # ds \<Rightarrow> if d \<noteq> [] \<and> is_cont (hd d) then (c # d) # ds else [c] # d # ds)"

lemma concat_chars [simp]: "concat (chars s) = s"
  by (induction s) (auto split: list.splits)

lemma chars_nonempty: "ch \<in> set (chars s) \<Longrightarrow> ch \<noteq> []"
  by (induction s arbitrary: ch) (auto split: list.splits if_splits)

lemma chars_Nil_iff [simp]: "chars s = [] \<longleftrightarrow> s = []"
  by (cases s) (auto split: list.splits)

lemma length_chars_le: "length (chars s) \<le> length s"
  by (induction s) (auto split: list.splits)

lemma chars_ascii: "\<forall>c \<in> set s. \<not> is_cont c \<Longrightarrow> chars s = map (\<lambda>c. [c]) s"
  by (induction s) (auto split: list.splits)

section \<open>Ring indices\<close>

lemma unat_and_255 [ring_simps]: "unat ((w :: u32) AND 255) = unat w mod 256"
proof -
  have "w AND 255 = take_bit 8 w"
    by (simp add: take_bit_eq_mask mask_eq_exp_minus_1)
  then have "unat (w AND 255) = take_bit 8 (unat w)"
    by (simp only: unsigned_take_bit_eq)
  then show ?thesis
    by (simp add: take_bit_eq_mod)
qed

lemma unat_add_mod_256 [ring_simps]:
  "unat ((w :: u32) + of_nat k) mod 256 = (unat w + k) mod 256"
proof -
  have "unat (w + of_nat k) = (unat w + k) mod 2 ^ 32"
    by (simp add: unat_word_ariths unat_of_nat mod_add_right_eq)
  then show ?thesis
    by (simp add: mod_mod_cancel)
qed

lemma mod_256_inj: "(a + i) mod 256 = (a + j) mod (256 :: nat) \<Longrightarrow> i < 256 \<Longrightarrow> j < 256 \<Longrightarrow> i = j"
proof (induction i j rule: linorder_wlog)
  case (le i j)
  then have "256 dvd (a + j) - (a + i)"
    by (metis add_left_mono mod_eq_dvd_iff_nat)
  moreover have "j - i < 256"
    using le by simp
  ultimately show ?case
    using le(1) by (auto dest: dvd_imp_le)
qed (auto dest: sym)

section \<open>Lists and options\<close>

lemma map_nth_upt_shift: "map (\<lambda>k. f (Suc k)) [0..<n] = map f [1..<Suc n]"
  by (simp add: map_Suc_upt [symmetric] comp_def del: upt_Suc)

lemma option_bind_eq_Some_conv:
  "(case x of None \<Rightarrow> None | Some y \<Rightarrow> f y) = Some z \<longleftrightarrow> (\<exists>y. x = Some y \<and> f y = Some z)"
  by (cases x) auto

section \<open>Numbers from strings\<close>

text \<open>\<open>str::parse::<usize>\<close>: an optional plus sign, then digits; out of range is an error.\<close>

definition parse_usize :: "string \<Rightarrow> usize option" where
  "parse_usize s =
     (let ds = (case s of c # cs \<Rightarrow> if c = CHR ''+'' then cs else s | [] \<Rightarrow> [])
      in if ds \<noteq> [] \<and> list_all (\<lambda>c. 48 \<le> (of_char c :: nat) \<and> (of_char c :: nat) \<le> 57) ds
         then (let n = foldl (\<lambda>n c. n * 10 + (of_char c - 48)) 0 ds in if n < 2 ^ 64 then Some n else None)
         else None)"

end
