(* ===== verification/Run_Queue.thy ===== *)
theory Run_Queue
  imports Ntsc_Prelude "HOL-Library.Multiset"
begin

text \<open>
  The per-worker run queue of the task scheduler
  (\<open>crates/ntsc-runtime/src/ntask/runqueue.rs\<close>): a ring of 256 goroutine ids indexed by
  two wrapping 32-bit counters, plus a one-element LIFO cell.

  This theory gives each method as the state change of a run in which no other thread
  interleaves (so the compare-exchange of a value that has just been loaded succeeds), and
  shows that the ring refines a bounded FIFO list.
\<close>

section \<open>State\<close>

definition CAPACITY :: nat where
  "CAPACITY = 256"

definition MASK :: u32 where
  "MASK = of_nat CAPACITY - 1"

record run_queue =
  rq_head :: u32
  rq_tail :: u32
  rq_ring :: "i64 list"
  rq_next :: i64

definition rq_new :: run_queue where
  "rq_new = \<lparr>rq_head = 0, rq_tail = 0, rq_ring = replicate CAPACITY NULL, rq_next = NULL\<rparr>"

definition rq_slot :: "run_queue \<Rightarrow> u32 \<Rightarrow> i64" where
  "rq_slot q i = rq_ring q ! unat (i AND MASK)"

section \<open>Operations\<close>

definition ring_len :: "run_queue \<Rightarrow> u32" where
  "ring_len q = min (rq_tail q - rq_head q) (of_nat CAPACITY)"

definition rq_is_empty :: "run_queue \<Rightarrow> bool" where
  "rq_is_empty q \<longleftrightarrow> rq_next q = NULL \<and> ring_len q = 0"

definition push_next :: "run_queue \<Rightarrow> i64 \<Rightarrow> run_queue \<times> i64 option" where
  "push_next q gid =
     (let previous = rq_next q
      in (q\<lparr>rq_next := gid\<rparr>, if previous \<noteq> NULL then Some previous else None))"

definition push :: "run_queue \<Rightarrow> i64 \<Rightarrow> run_queue \<times> bool" where
  "push q gid =
     (let tail = rq_tail q; head = rq_head q
      in if of_nat CAPACITY \<le> tail - head then (q, False)
         else (q\<lparr>rq_ring := (rq_ring q)[unat (tail AND MASK) := gid], rq_tail := tail + 1\<rparr>, True))"

definition pop :: "run_queue \<Rightarrow> run_queue \<times> i64 option" where
  "pop q =
     (let nxt = rq_next q
      in if nxt \<noteq> NULL then (q\<lparr>rq_next := NULL\<rparr>, Some nxt)
         else (let head = rq_head q; tail = rq_tail q
               in if head = tail then (q, None)
                  else (q\<lparr>rq_head := head + 1\<rparr>, Some (rq_slot q head))))"

text \<open>The loop that moves a stolen batch: an id the thief's ring refuses goes to the shared
  queue. The result is the thief's queue and the ids handed to \<open>core::push_ready\<close>.\<close>

fun push_batch :: "run_queue \<Rightarrow> i64 list \<Rightarrow> run_queue \<times> i64 list" where
  "push_batch dst [] = (dst, [])"
| "push_batch dst (gid # gids) =
     (let (dst1, ok) = push dst gid;
          (dst2, shared) = push_batch dst1 gids
      in (dst2, if ok then shared else gid # shared))"

text \<open>\<open>steal_into\<close> returns \<open>None\<close> for a run that never leaves its retry loop: the snapshot of
  the indices stays torn as long as no other thread moves them. Otherwise the result is the
  victim, the thief, the ids sent to the shared queue and the id to run.\<close>

definition steal_into ::
    "run_queue \<Rightarrow> run_queue \<Rightarrow> (run_queue \<times> run_queue \<times> i64 list \<times> i64 option) option" where
  "steal_into q dst =
     (let head = rq_head q; tail = rq_tail q; available = tail - head
      in if available = 0 then Some (q, dst, [], None)
         else if of_nat CAPACITY < available then None
         else (let take_n = available - available div 2;
                   batch = map (\<lambda>offset. rq_slot q (head + of_nat offset)) [0..<unat take_n];
                   (dst', shared) = push_batch dst (take (unat take_n - 1) batch)
               in Some (q\<lparr>rq_head := head + take_n\<rparr>, dst', shared,
                        Some (batch ! (unat take_n - 1)))))"

definition take_half :: "run_queue \<Rightarrow> run_queue \<times> i64 list" where
  "take_half q =
     (let head = rq_head q; tail = rq_tail q; available = tail - head
      in if available = 0 \<or> of_nat CAPACITY < available then (q, [])
         else (let take_n = available - available div 2
               in (q\<lparr>rq_head := head + take_n\<rparr>,
                   map (\<lambda>offset. rq_slot q (head + of_nat offset)) [0..<unat take_n])))"

definition rq_count :: "run_queue \<Rightarrow> nat" where
  "rq_count q = unat (rq_tail q - rq_head q) + (if rq_next q \<noteq> NULL then 1 else 0)"

lemma pop_Some_count: "pop q = (q', Some g) \<Longrightarrow> rq_count q' < rq_count q"
proof (cases "rq_next q = NULL")
  case True
  assume p: "pop q = (q', Some g)"
  with True have ne: "rq_tail q - rq_head q \<noteq> 0" and q': "q' = q\<lparr>rq_head := rq_head q + 1\<rparr>"
    by (auto simp: pop_def Let_def split: if_splits)
  have "rq_tail q - (rq_head q + 1) = (rq_tail q - rq_head q) - 1"
    by simp
  with ne have "unat (rq_tail q - (rq_head q + 1)) < unat (rq_tail q - rq_head q)"
    by (metis unat_minus_one diff_less unat_gt_0 zero_less_one)
  with True show ?thesis by (simp add: rq_count_def q')
next
  case False
  assume "pop q = (q', Some g)"
  with False show ?thesis by (auto simp: pop_def Let_def rq_count_def)
qed

function drain_loop :: "run_queue \<Rightarrow> i64 list \<Rightarrow> run_queue \<times> i64 list" where
  "drain_loop q ids =
     (case pop q of
        (q', None) \<Rightarrow> (q', ids)
      | (q', Some gid) \<Rightarrow> drain_loop q' (ids @ [gid]))"
  by pat_completeness auto
termination
  by (relation "measure (\<lambda>(q, ids). rq_count q)") (auto dest: sym intro: pop_Some_count)

declare drain_loop.simps [simp del]

definition drain :: "run_queue \<Rightarrow> run_queue \<times> i64 list" where
  "drain q =
     (let nxt = rq_next q; q1 = q\<lparr>rq_next := NULL\<rparr>
      in drain_loop q1 (if nxt \<noteq> NULL then [nxt] else []))"

section \<open>The ring as a list\<close>

definition rq_items :: "run_queue \<Rightarrow> i64 list" where
  "rq_items q = map (\<lambda>k. rq_slot q (rq_head q + of_nat k)) [0..<unat (rq_tail q - rq_head q)]"

definition rq_all :: "run_queue \<Rightarrow> i64 list" where
  "rq_all q = (if rq_next q \<noteq> NULL then [rq_next q] else []) @ rq_items q"

definition rq_inv :: "run_queue \<Rightarrow> bool" where
  "rq_inv q \<longleftrightarrow> length (rq_ring q) = CAPACITY \<and> unat (rq_tail q - rq_head q) \<le> CAPACITY"

lemma MASK_255: "MASK = 255"
  by (simp add: MASK_def CAPACITY_def)

lemma rq_slot_mod [ring_simps]: "rq_slot q i = rq_ring q ! (unat i mod 256)"
  by (simp add: rq_slot_def MASK_255 unat_and_255)

lemma length_rq_items [simp]: "length (rq_items q) = unat (rq_tail q - rq_head q)"
  by (simp add: rq_items_def)

lemma rq_items_nth:
  "k < unat (rq_tail q - rq_head q) \<Longrightarrow>
   rq_items q ! k = rq_ring q ! ((unat (rq_head q) + k) mod 256)"
  by (simp add: rq_items_def ring_simps)

lemma rq_inv_length: "rq_inv q \<Longrightarrow> length (rq_items q) \<le> 256"
  by (simp add: rq_inv_def CAPACITY_def)

lemma rq_inv_new: "rq_inv rq_new"
  by (simp add: rq_inv_def rq_new_def)

lemma rq_items_new [simp]: "rq_items rq_new = []"
  by (simp add: rq_items_def rq_new_def)

lemma unat_capacity [simp]: "unat (of_nat CAPACITY :: u32) = 256"
  by (simp add: CAPACITY_def)

lemma capacity_le_iff: "of_nat CAPACITY \<le> (w :: u32) \<longleftrightarrow> 256 \<le> unat w"
  by (simp add: word_le_nat_alt)

lemma capacity_less_iff: "of_nat CAPACITY < (w :: u32) \<longleftrightarrow> 256 < unat w"
  by (simp add: word_less_nat_alt)


section \<open>Moving the indices\<close>

lemma unat_advance_head:
  assumes "n \<le> unat (t - h)"
  shows "unat (t - (h + of_nat n)) = unat ((t :: u32) - h) - n"
proof -
  have n: "unat (of_nat n :: u32) = n"
    using assms unsigned_less [where ?'a = nat, of "t - h"] by (simp add: unat_of_nat)
  then have "of_nat n \<le> t - h"
    using assms by (simp add: word_le_nat_alt)
  then have "unat (t - h - of_nat n) = unat (t - h) - n"
    by (simp add: unat_sub n)
  then show ?thesis by (simp add: diff_diff_eq)
qed

lemma rq_items_advance:
  assumes "n \<le> length (rq_items q)"
  shows "rq_items (q\<lparr>rq_head := rq_head q + of_nat n\<rparr>) = drop n (rq_items q)"
proof (rule nth_equalityI)
  show "length (rq_items (q\<lparr>rq_head := rq_head q + of_nat n\<rparr>)) = length (drop n (rq_items q))"
    using assms by (simp add: unat_advance_head)
next
  fix k assume "k < length (rq_items (q\<lparr>rq_head := rq_head q + of_nat n\<rparr>))"
  with assms have k: "n + k < unat (rq_tail q - rq_head q)"
    by (simp add: unat_advance_head)
  have "(unat (rq_head q + of_nat n) + k) mod 256 = (unat (rq_head q) + (n + k)) mod 256"
    using unat_add_mod_256 [of "rq_head q" n]
    by (metis (no_types, lifting) add.assoc mod_add_left_eq)
  with k assms show "rq_items (q\<lparr>rq_head := rq_head q + of_nat n\<rparr>) ! k = drop n (rq_items q) ! k"
    by (simp add: rq_items_nth unat_advance_head)
qed

lemma rq_inv_advance:
  "rq_inv q \<Longrightarrow> n \<le> length (rq_items q) \<Longrightarrow> rq_inv (q\<lparr>rq_head := rq_head q + of_nat n\<rparr>)"
  by (auto simp: rq_inv_def unat_advance_head)

lemma rq_items_next [simp]: "rq_items (q\<lparr>rq_next := x\<rparr>) = rq_items q"
  by (simp add: rq_items_def rq_slot_def)

lemma rq_inv_next [simp]: "rq_inv (q\<lparr>rq_next := x\<rparr>) = rq_inv q"
  by (simp add: rq_inv_def)

lemma rq_batch_take:
  "n \<le> length (rq_items q) \<Longrightarrow>
   map (\<lambda>offset. rq_slot q (rq_head q + of_nat offset)) [0..<n] = take n (rq_items q)"
  by (rule nth_equalityI) (simp_all add: rq_items_def)

lemma unat_half:
  "unat (w - w div 2) = unat w - unat w div 2" for w :: u32
proof -
  have "w div 2 \<le> w" by (simp add: word_le_nat_alt unat_div)
  then show ?thesis by (simp add: unat_sub unat_div)
qed

lemma of_nat_unat_half: "(of_nat (unat w - unat w div 2) :: u32) = w - w div 2"
  by (simp add: unat_half [symmetric])

section \<open>Refinement of the bounded list\<close>

lemma push_full: "256 \<le> length (rq_items q) \<Longrightarrow> push q g = (q, False)"
  by (simp add: push_def Let_def capacity_le_iff)

lemma push_room:
  assumes inv: "rq_inv q" and room: "length (rq_items q) < 256"
  obtains q' where "push q g = (q', True)" "rq_items q' = rq_items q @ [g]"
    "rq_next q' = rq_next q" "rq_inv q'"
proof -
  let ?n = "unat (rq_tail q - rq_head q)"
  let ?r = "(rq_ring q)[unat (rq_tail q) mod 256 := g]"
  let ?q' = "q\<lparr>rq_ring := ?r, rq_tail := rq_tail q + 1\<rparr>"
  have n: "?n < 256" and len: "length (rq_ring q) = 256"
    using inv room by (simp_all add: rq_inv_def CAPACITY_def)
  have push: "push q g = (?q', True)"
    using n by (simp add: push_def Let_def capacity_le_iff MASK_255 unat_and_255)
  have suc: "unat (rq_tail q + 1 - rq_head q) = Suc ?n"
  proof -
    have "unat ((rq_tail q - rq_head q) + 1) = Suc ?n"
      using n by (simp only: unat_word_ariths) simp
    then show ?thesis by (simp only: diff_add_eq)
  qed
  have tail: "unat (rq_tail q) mod 256 = (unat (rq_head q) + ?n) mod 256"
    using unat_add_mod_256 [of "rq_head q" ?n] by simp
  have "rq_items ?q' = rq_items q @ [g]"
  proof (rule nth_equalityI)
    show "length (rq_items ?q') = length (rq_items q @ [g])" by (simp add: suc)
  next
    fix k assume "k < length (rq_items ?q')"
    then have k: "k \<le> ?n" by (simp add: suc)
    have other: "k < ?n \<Longrightarrow> (unat (rq_head q) + k) mod 256 \<noteq> unat (rq_tail q) mod 256"
      using n tail mod_256_inj [of "unat (rq_head q)" k ?n] by auto
    show "rq_items ?q' ! k = (rq_items q @ [g]) ! k"
    proof (cases "k = ?n")
      case True
      then show ?thesis using suc len tail by (simp add: rq_items_nth nth_append)
    next
      case False
      with k other suc show ?thesis by (simp add: rq_items_nth nth_append)
    qed
  qed
  moreover have "rq_inv ?q'" using inv n by (simp add: rq_inv_def suc CAPACITY_def)
  ultimately show ?thesis using that [OF push] by simp
qed

lemma pop_slot: "rq_next q \<noteq> NULL \<Longrightarrow> pop q = (q\<lparr>rq_next := NULL\<rparr>, Some (rq_next q))"
  by (simp add: pop_def Let_def)

lemma rq_items_empty_iff: "rq_items q = [] \<longleftrightarrow> rq_head q = rq_tail q"
proof -
  have "rq_items q = [] \<longleftrightarrow> unat (rq_tail q - rq_head q) = 0"
    by (metis length_0_conv length_rq_items)
  also have "\<dots> \<longleftrightarrow> rq_head q = rq_tail q"
    by (auto simp: unat_eq_0)
  finally show ?thesis .
qed

lemma pop_empty: "rq_next q = NULL \<Longrightarrow> rq_items q = [] \<Longrightarrow> pop q = (q, None)"
  by (simp add: pop_def Let_def rq_items_empty_iff)

lemma pop_ring:
  assumes "rq_next q = NULL" and items: "rq_items q = g # gs"
  shows "pop q = (q\<lparr>rq_head := rq_head q + 1\<rparr>, Some g)"
    and "rq_items (q\<lparr>rq_head := rq_head q + 1\<rparr>) = gs"
proof -
  have ne: "rq_head q \<noteq> rq_tail q"
    using items by (metis list.discI rq_items_empty_iff)
  have "0 < unat (rq_tail q - rq_head q)"
    using items by (metis length_rq_items length_Cons zero_less_Suc)
  then have "rq_slot q (rq_head q) = rq_items q ! 0"
    by (simp add: rq_items_def)
  with items ne assms(1) show "pop q = (q\<lparr>rq_head := rq_head q + 1\<rparr>, Some g)"
    by (simp add: pop_def Let_def)
  show "rq_items (q\<lparr>rq_head := rq_head q + 1\<rparr>) = gs"
    using rq_items_advance [of 1 q] items by simp
qed

lemma pop_all:
  assumes "rq_inv q"
  shows "rq_all q = [] \<Longrightarrow> pop q = (q, None)"
    and "rq_all q = g # gs \<Longrightarrow> \<exists>q'. pop q = (q', Some g) \<and> rq_all q' = gs \<and> rq_inv q'"
proof -
  show "rq_all q = [] \<Longrightarrow> pop q = (q, None)"
    by (auto simp: rq_all_def split: if_splits intro: pop_empty)
  assume all: "rq_all q = g # gs"
  show "\<exists>q'. pop q = (q', Some g) \<and> rq_all q' = gs \<and> rq_inv q'"
  proof (cases "rq_next q = NULL")
    case True
    with all have "rq_items q = g # gs" by (simp add: rq_all_def)
    with True pop_ring [OF True this] rq_inv_advance [OF assms, of 1] show ?thesis
      by (auto simp: rq_all_def)
  next
    case False
    with all assms show ?thesis by (auto simp: rq_all_def pop_slot)
  qed
qed


section \<open>The queue a worker relies on\<close>

text \<open>
  What the scheduler relies on from a queue: an invariant, the ids it holds in the order in
  which \<open>deq\<close> hands them out, and an \<open>enq\<close> that appends or refuses and then changes nothing.
\<close>

datatype 'a queue_op = Enq 'a | Deq

locale bounded_queue =
  fixes inv :: "'q \<Rightarrow> bool"
    and items :: "'q \<Rightarrow> 'a list"
    and enq :: "'q \<Rightarrow> 'a \<Rightarrow> 'q \<times> bool"
    and deq :: "'q \<Rightarrow> 'q \<times> 'a option"
  assumes enq_cases: "inv q \<Longrightarrow>
      enq q x = (q, False) \<or> (\<exists>q'. enq q x = (q', True) \<and> inv q' \<and> items q' = items q @ [x])"
    and deq_empty: "inv q \<Longrightarrow> items q = [] \<Longrightarrow> deq q = (q, None)"
    and deq_head: "inv q \<Longrightarrow> items q = x # xs \<Longrightarrow> \<exists>q'. deq q = (q', Some x) \<and> inv q' \<and> items q' = xs"
begin

primrec run :: "'q \<Rightarrow> 'a queue_op list \<Rightarrow> 'q \<times> 'a list \<times> 'a list" where
  "run q [] = (q, [], [])"
| "run q (c # cs) =
     (case c of
        Enq x \<Rightarrow> (let (q1, ok) = enq q x; (q2, acc, out) = run q1 cs
                  in (q2, if ok then x # acc else acc, out))
      | Deq \<Rightarrow> (let (q1, r) = deq q; (q2, acc, out) = run q1 cs
                in (q2, acc, (case r of None \<Rightarrow> out | Some x \<Rightarrow> x # out))))"

lemma run_fifo:
  "inv q \<Longrightarrow> run q cs = (q', acc, out) \<Longrightarrow> out @ items q' = items q @ acc \<and> inv q'"
proof (induction cs arbitrary: q q' acc out)
  case Nil
  then show ?case by simp
next
  case (Cons c cs)
  show ?case
  proof (cases c)
    case (Enq x)
    obtain q1 ok where e: "enq q x = (q1, ok)" by fastforce
    obtain q2 acc1 out1 where r: "run q1 cs = (q2, acc1, out1)" by (metis surj_pair)
    have eqs: "q' = q2" "out = out1" "acc = (if ok then x # acc1 else acc1)"
      using Cons.prems(2) Enq e r by auto
    show ?thesis
    proof (cases ok)
      case True
      then have "inv q1" "items q1 = items q @ [x]"
        using enq_cases [OF Cons.prems(1), of x] e by auto
      then show ?thesis using Cons.IH [OF _ r] eqs True by simp
    next
      case False
      then have "q1 = q" using enq_cases [OF Cons.prems(1), of x] e by auto
      then show ?thesis using Cons.IH [OF _ r] Cons.prems(1) eqs False by simp
    qed
  next
    case Deq
    obtain q1 r1 where d: "deq q = (q1, r1)" by fastforce
    obtain q2 acc1 out1 where r: "run q1 cs = (q2, acc1, out1)" by (metis surj_pair)
    have eqs: "q' = q2" "acc = acc1" "out = (case r1 of None \<Rightarrow> out1 | Some x \<Rightarrow> x # out1)"
      using Cons.prems(2) Deq d r by auto
    show ?thesis
    proof (cases "items q")
      case Nil
      then show ?thesis
        using deq_empty [OF Cons.prems(1)] d Cons.IH [OF _ r] Cons.prems(1) eqs by auto
    next
      case (Cons x xs)
      then show ?thesis
        using deq_head [OF Cons.prems(1) Cons] d Cons.IH [OF _ r] eqs by auto
    qed
  qed
qed

end

lemma push_cases:
  assumes "rq_inv q"
  shows "push q g = (q, False) \<or>
    (\<exists>q'. push q g = (q', True) \<and> rq_inv q' \<and> rq_all q' = rq_all q @ [g])"
proof (cases "length (rq_items q) < 256")
  case True
  from push_room [OF assms True, of g] obtain q' where "push q g = (q', True)"
      "rq_items q' = rq_items q @ [g]" "rq_next q' = rq_next q" "rq_inv q'" .
  then show ?thesis by (auto simp: rq_all_def)
next
  case False
  then show ?thesis using push_full [of q g] by auto
qed

interpretation rq: bounded_queue rq_inv rq_all push pop
  by unfold_locales (use push_cases pop_all in \<open>blast+\<close>)

section \<open>Batches\<close>

lemma push_batch_room:
  "rq_inv q \<Longrightarrow> length (rq_items q) + length gs \<le> 256 \<Longrightarrow>
   \<exists>q'. push_batch q gs = (q', []) \<and> rq_inv q' \<and> rq_items q' = rq_items q @ gs \<and> rq_next q' = rq_next q"
proof (induction gs arbitrary: q)
  case Nil
  then show ?case by simp
next
  case (Cons g gs)
  then have "length (rq_items q) < 256" by simp
  from push_room [OF Cons.prems(1) this, of g] obtain q1 where q1: "push q g = (q1, True)"
      "rq_items q1 = rq_items q @ [g]" "rq_next q1 = rq_next q" "rq_inv q1" .
  moreover have "length (rq_items q1) + length gs \<le> 256"
    using Cons.prems(2) q1(2) by simp
  ultimately show ?case using Cons.IH [of q1] by auto
qed

lemma push_batch_conserves:
  "rq_inv q \<Longrightarrow> push_batch q gs = (q', shared) \<Longrightarrow>
   rq_inv q' \<and> mset (rq_all q') + mset shared = mset (rq_all q) + mset gs"
proof (induction gs arbitrary: q q' shared)
  case Nil
  then show ?case by simp
next
  case (Cons g gs)
  obtain q1 ok where p: "push q g = (q1, ok)" by fastforce
  obtain q2 sh where b: "push_batch q1 gs = (q2, sh)" by fastforce
  have eqs: "q' = q2" "shared = (if ok then sh else g # sh)"
    using Cons.prems(2) p b by auto
  show ?case
  proof (cases ok)
    case True
    then have "rq_inv q1" "rq_all q1 = rq_all q @ [g]"
      using push_cases [OF Cons.prems(1), of g] p by auto
    then show ?thesis using Cons.IH [OF _ b] eqs True by simp
  next
    case False
    then have "q1 = q" using push_cases [OF Cons.prems(1), of g] p by auto
    then show ?thesis using Cons.IH [OF _ b] Cons.prems(1) eqs False by simp
  qed
qed


lemma rq_avail_nonzero: "rq_items q \<noteq> [] \<longleftrightarrow> rq_tail q - rq_head q \<noteq> 0"
  using rq_items_empty_iff [of q] by auto

lemma rq_claim_half:
  assumes inv: "rq_inv q"
  defines "k \<equiv> length (rq_items q) - length (rq_items q) div 2"
  shows "map (\<lambda>offset. rq_slot q (rq_head q + of_nat offset))
           [0..<unat (rq_tail q - rq_head q - (rq_tail q - rq_head q) div 2)] = take k (rq_items q)"
    and "rq_items (q\<lparr>rq_head := rq_head q + (rq_tail q - rq_head q - (rq_tail q - rq_head q) div 2)\<rparr>)
           = drop k (rq_items q)"
    and "rq_inv (q\<lparr>rq_head := rq_head q + (rq_tail q - rq_head q - (rq_tail q - rq_head q) div 2)\<rparr>)"
    and "\<not> of_nat CAPACITY < rq_tail q - rq_head q"
proof -
  let ?w = "rq_tail q - rq_head q"
  have k: "unat (?w - ?w div 2) = k" "?w - ?w div 2 = of_nat k"
    unfolding k_def length_rq_items by (simp_all only: unat_half of_nat_unat_half)
  have le: "k \<le> length (rq_items q)" by (simp add: k_def)
  show "map (\<lambda>offset. rq_slot q (rq_head q + of_nat offset)) [0..<unat (?w - ?w div 2)]
      = take k (rq_items q)"
    unfolding k(1) by (rule rq_batch_take [OF le])
  show "rq_items (q\<lparr>rq_head := rq_head q + (?w - ?w div 2)\<rparr>) = drop k (rq_items q)"
    unfolding k(2) by (rule rq_items_advance [OF le])
  show "rq_inv (q\<lparr>rq_head := rq_head q + (?w - ?w div 2)\<rparr>)"
    unfolding k(2) by (rule rq_inv_advance [OF inv le])
  show "\<not> of_nat CAPACITY < ?w"
    unfolding capacity_less_iff using inv by (simp add: rq_inv_def CAPACITY_def)
qed

lemma steal_into_empty: "rq_items q = [] \<Longrightarrow> steal_into q dst = Some (q, dst, [], None)"
  by (simp add: steal_into_def Let_def rq_items_empty_iff)

lemma steal_into_unfold:
  assumes "rq_inv q" and ne: "rq_items q \<noteq> []"
  defines "k \<equiv> length (rq_items q) - length (rq_items q) div 2"
  obtains q' where "rq_items q' = drop k (rq_items q)" "rq_inv q'" "rq_next q' = rq_next q"
    "steal_into q dst =
       (let (dst', shared) = push_batch dst (take (k - 1) (rq_items q))
        in Some (q', dst', shared, Some (rq_items q ! (k - 1))))"
proof -
  note half = rq_claim_half [OF assms(1), folded k_def]
  let ?w = "rq_tail q - rq_head q"
  let ?q' = "q\<lparr>rq_head := rq_head q + (?w - ?w div 2)\<rparr>"
  have k: "unat (?w - ?w div 2) = k"
    unfolding k_def length_rq_items by (simp only: unat_half)
  have "0 < length (rq_items q)" 
    by (rule length_greater_0_conv [THEN iffD2]) (rule ne)
  then have "0 < k" unfolding k_def by linarith
  then have "take k (rq_items q) ! (k - 1) = rq_items q ! (k - 1)" by simp
  moreover have "take (k - 1) (take k (rq_items q)) = take (k - 1) (rq_items q)"
    by (simp add: min_def)
  moreover have "?w \<noteq> 0" using ne by (simp add: rq_avail_nonzero)
  ultimately have "steal_into q dst =
       (let (dst', shared) = push_batch dst (take (k - 1) (rq_items q))
        in Some (?q', dst', shared, Some (rq_items q ! (k - 1))))"
    unfolding steal_into_def Let_def k half(1) [unfolded k] using half(4) by simp
  then show ?thesis using that [of ?q'] half by simp
qed

lemma take_half_unfold:
  assumes "rq_inv q"
  defines "k \<equiv> length (rq_items q) - length (rq_items q) div 2"
  shows "snd (take_half q) = take k (rq_items q)"
    and "rq_items (fst (take_half q)) = drop k (rq_items q)"
    and "rq_inv (fst (take_half q))"
    and "rq_next (fst (take_half q)) = rq_next q"
proof -
  note half = rq_claim_half [OF assms(1), folded k_def]
  consider (empty) "rq_tail q - rq_head q = 0" "rq_items q = []" | (some) "rq_tail q - rq_head q \<noteq> 0"
    using rq_avail_nonzero [of q] by blast
  then show "snd (take_half q) = take k (rq_items q)"
    and "rq_items (fst (take_half q)) = drop k (rq_items q)"
    and "rq_inv (fst (take_half q))" and "rq_next (fst (take_half q)) = rq_next q"
    by (cases; use half assms(1) in \<open>simp add: take_half_def Let_def\<close>)+
qed

lemma drain_loop_all:
  "rq_inv q \<Longrightarrow> \<exists>q'. drain_loop q ids = (q', ids @ rq_all q) \<and> rq_all q' = [] \<and> rq_inv q'"
proof (induction "rq_all q" arbitrary: q ids)
  case Nil
  have e: "rq_all q = []" by (rule Nil.hyps [symmetric])
  have "drain_loop q ids = (q, ids)"
    by (subst drain_loop.simps) (simp add: pop_all(1) [OF Nil.prems e])
  then show ?case using e Nil.prems by simp
next
  case (Cons g gs)
  from pop_all(2) [OF Cons.prems Cons.hyps(2) [symmetric]]
  obtain q1 where q1: "pop q = (q1, Some g)" "rq_all q1 = gs" "rq_inv q1" by blast
  from Cons.hyps(1) [OF q1(2) [symmetric] q1(3), of "ids @ [g]"] obtain q' where
      "drain_loop q1 (ids @ [g]) = (q', (ids @ [g]) @ rq_all q1)" "rq_all q' = []" "rq_inv q'"
    by blast
  moreover have "drain_loop q ids = drain_loop q1 (ids @ [g])"
    by (subst drain_loop.simps) (simp add: q1)
  moreover have "rq_all q = g # rq_all q1"
    using Cons.hyps(2) q1(2) by simp
  ultimately show ?case by simp
qed

section \<open>Properties\<close>

text \<open>C6: Every history of owner pushes and pops on a run queue is first-in first-out:
  what the pops returned followed by what the queue still holds is what the queue held at the
  start followed by the accepted pushes, in order, and the ring invariant is kept. The u32
  indices may wrap any number of times on the way.\<close>

theorem run_queue_fifo:
  assumes "rq_inv q" and "rq.run q cs = (q', accepted, delivered)"
  shows "delivered @ rq_all q' = rq_all q @ accepted \<and> rq_inv q'"
  using assms by (rule rq.run_fifo)

theorem run_queue_fifo_witness:
  "\<exists>q' acc out. rq_inv rq_new \<and> rq.run rq_new [Enq 5, Enq 6, Deq, Enq 7] = (q', acc, out) \<and>
     out @ rq_all q' = rq_all rq_new @ acc"
  using run_queue_fifo [OF rq_inv_new] rq_inv_new by (metis surj_pair)

text \<open>A push onto a queue in good state fails exactly when the ring already holds 256 ids,
  and then changes nothing; otherwise it appends the id at the tail of the ring and leaves the
  LIFO cell alone.\<close>

theorem push_spec:
  assumes "rq_inv q"
  shows "if length (rq_items q) < CAPACITY
         then \<exists>q'. push q g = (q', True) \<and> rq_items q' = rq_items q @ [g] \<and> rq_next q' = rq_next q \<and> rq_inv q'
         else push q g = (q, False)"
proof (cases "length (rq_items q) < 256")
  case True
  with push_room [OF assms True, of g] show ?thesis by (auto simp: CAPACITY_def)
next
  case False
  then show ?thesis using push_full [of q g] by (auto simp: CAPACITY_def)
qed

theorem push_spec_witness:
  "\<exists>q'. rq_inv rq_new \<and> push rq_new 9 = (q', True) \<and> rq_items q' = [9] \<and> rq_inv q'"
  using push_spec [OF rq_inv_new, of 9] rq_inv_new by (auto simp: CAPACITY_def)

text \<open>Stealing from a queue takes the older half, rounded up: the newest id of that half is
  returned to run, the others land on the thief's ring in order, and the victim keeps the rest.
  As long as the thief's ring has at most 129 ids no id overflows to the shared queue, so the
  fallback in the code cannot happen for a thief whose ring is empty. The retry loop is left.\<close>

theorem steal_into_spec:
  assumes inv: "rq_inv q" "rq_inv dst" and room: "length (rq_items dst) \<le> 129"
    and ne: "rq_items q \<noteq> []"
  defines "k \<equiv> length (rq_items q) - length (rq_items q) div 2"
  shows "\<exists>q' dst'. steal_into q dst = Some (q', dst', [], Some (rq_items q ! (k - 1))) \<and>
           rq_items q' = drop k (rq_items q) \<and> rq_items dst' = rq_items dst @ take (k - 1) (rq_items q) \<and>
           rq_inv q' \<and> rq_inv dst'"
proof -
  obtain q' where q': "rq_items q' = drop k (rq_items q)" "rq_inv q'"
      "steal_into q dst = (let (dst', shared) = push_batch dst (take (k - 1) (rq_items q))
        in Some (q', dst', shared, Some (rq_items q ! (k - 1))))"
    using steal_into_unfold [OF inv(1) ne, folded k_def] by metis
  have "k \<le> 128" using rq_inv_length [OF inv(1)] unfolding k_def by linarith
  with room have "length (rq_items dst) + length (take (k - 1) (rq_items q)) \<le> 256" by simp
  from push_batch_room [OF inv(2) this] q' show ?thesis by auto
qed

theorem steal_into_spec_witness:
  "\<exists>q q' dst'. rq_inv q \<and> rq_items q = [5, 6, 7] \<and>
     steal_into q rq_new = Some (q', dst', [], Some 6) \<and> rq_items q' = [7] \<and> rq_items dst' = [5]"
proof -
  obtain q where q: "rq_inv q" "rq_items q = [5, 6, 7]"
    using push_batch_room [OF rq_inv_new, of "[5, 6, 7]"] by auto
  have "length (rq_items rq_new) \<le> 129" "rq_items q \<noteq> []" by (simp_all add: q)
  from steal_into_spec [OF q(1) rq_inv_new this] q show ?thesis by auto
qed

lemma steal_into_mset:
  assumes inv: "rq_inv q" "rq_inv dst"
  obtains q' dst' shared r where "steal_into q dst = Some (q', dst', shared, r)"
    "mset (rq_all q) + mset (rq_all dst) =
       mset (rq_all q') + mset (rq_all dst') + mset shared + (case r of None \<Rightarrow> {#} | Some g \<Rightarrow> {#g#})"
    "rq_inv q'" "rq_inv dst'"
proof (cases "rq_items q = []")
  case True
  then show ?thesis using that inv by (simp add: steal_into_empty)
next
  case False
  define k where "k = length (rq_items q) - length (rq_items q) div 2"
  obtain q' where q': "rq_items q' = drop k (rq_items q)" "rq_next q' = rq_next q"
      "steal_into q dst = (let (dst', shared) = push_batch dst (take (k - 1) (rq_items q))
        in Some (q', dst', shared, Some (rq_items q ! (k - 1))))" "rq_inv q'"
    using steal_into_unfold [OF inv(1) False, folded k_def] by metis
  obtain dst' shared where b: "push_batch dst (take (k - 1) (rq_items q)) = (dst', shared)"
    by fastforce
  have k: "0 < k" "k \<le> length (rq_items q)" using False by (cases "rq_items q"; simp add: k_def)+
  then have split: "rq_items q = take (k - 1) (rq_items q) @ rq_items q ! (k - 1) # drop k (rq_items q)"
    using id_take_nth_drop [of "k - 1" "rq_items q"] by simp
  have "mset (rq_items q) = mset (take (k - 1) (rq_items q)) + {#rq_items q ! (k - 1)#}
          + mset (drop k (rq_items q))"
    by (subst split) simp
  with q'(1,2) have "mset (rq_all q) = mset (rq_all q') + mset (take (k - 1) (rq_items q))
      + {#rq_items q ! (k - 1)#}"
    by (simp add: rq_all_def)
  with push_batch_conserves [OF inv(2) b] q'(3,4) b that show ?thesis by simp
qed

text \<open>Stealing never drops or duplicates a goroutine: the ids of victim and thief before
  are those of victim, thief, shared queue and returned id afterwards, whatever the thief's
  ring holds.\<close>

theorem steal_into_conserves:
  assumes inv: "rq_inv q" "rq_inv dst"
  shows "\<exists>q' dst' shared r. steal_into q dst = Some (q', dst', shared, r) \<and>
           mset (rq_all q) + mset (rq_all dst) =
           mset (rq_all q') + mset (rq_all dst') + mset shared + (case r of None \<Rightarrow> {#} | Some g \<Rightarrow> {#g#})"
  using steal_into_mset [OF inv] by metis

theorem steal_into_conserves_witness:
  "\<exists>q' dst' shared r. rq_inv rq_new \<and> steal_into rq_new rq_new = Some (q', dst', shared, r)"
  using steal_into_conserves [OF rq_inv_new rq_inv_new] rq_inv_new by blast

text \<open>Draining at shutdown terminates, returns every id the queue held (the LIFO cell first,
  then the ring in order) and leaves the queue empty; overflowing a full ring with \<open>take_half\<close>
  claims the older half in order and keeps the other half.\<close>

theorem drain_take_half_spec:
  assumes "rq_inv q"
  defines "k \<equiv> length (rq_items q) - length (rq_items q) div 2"
  shows "snd (drain q) = rq_all q \<and> rq_is_empty (fst (drain q)) \<and>
         snd (take_half q) = take k (rq_items q) \<and> rq_items (fst (take_half q)) = drop k (rq_items q)"
proof -
  have "rq_inv (q\<lparr>rq_next := NULL\<rparr>)" using assms by simp
  from drain_loop_all [OF this, of "if rq_next q \<noteq> NULL then [rq_next q] else []"]
  obtain q' where d: "drain q = (q', rq_all q)" and e: "rq_all q' = []"
    by (auto simp: drain_def Let_def rq_all_def)
  from e have "rq_next q' = NULL" "rq_items q' = []"
    by (auto simp: rq_all_def split: if_splits)
  then have "rq_is_empty q'"
    by (simp add: rq_is_empty_def ring_len_def rq_items_empty_iff)
  then show ?thesis using d take_half_unfold [OF assms(1), folded k_def] by simp
qed

theorem drain_take_half_spec_witness:
  "rq_inv rq_new \<and> snd (drain rq_new) = [] \<and> rq_is_empty (fst (drain rq_new))"
  using drain_take_half_spec [OF rq_inv_new] rq_inv_new by (simp add: rq_all_def rq_new_def rq_items_def NULL_def)

end
