(* ===== verification/Registry_Table.thy ===== *)
theory Registry_Table
  imports Ntsc_Prelude "HOL-Library.AList" "HOL-Library.Multiset"
begin

text \<open>
  The handle registry of the runtime (\<open>crates/ntsc-runtime/src/registry.rs\<close>): the sharded
  table of handles, the id counter, the leak counters, and the primitive operations that
  register, borrow and remove entries. The theories \<open>Registry_Strings\<close>, \<open>Registry_Arrays\<close>,
  \<open>Registry_Slices\<close>, \<open>Registry_Memory\<close> and \<open>Registry_Boxes\<close> hold the operations on each kind of
  handle, \<open>Registry_System\<close> the invariant over all of them.

  State. The process-wide statics are the fields of one record. A shard is an association
  list (a hash map whose iteration order the sources never rely on: the only iteration sorts
  its result by id). An \<open>Arc<Mutex<Vec<u8>>>\<close> is the address of a region in \<open>regions\<close>, so that
  several capabilities can alias one allocation. The per-thread capability cache is that of
  the running thread. A value of type \<open>dyn Any\<close> is a value of the type parameter \<open>'o\<close>. A boxed
  closure is identified by a token.

  Every operation takes its shard lock, acts and releases it, so one call is one step. The
  counter \<open>NEXT_ID\<close> is an \<open>i64\<close> that grows by one per registration and \<open>REGISTRY_GEN\<close> a \<open>u64\<close>
  that grows by one per removal; neither can reach its 63rd bit in the life of a process, and
  the model lets them grow without bound.
\<close>

section \<open>Handles\<close>

record array_data =
  elem_size :: usize
  string_elements :: bool
  elements :: "i64 list"

datatype 'o handle =
    HString string
  | HArray array_data
  | HShared (shared_inner_of: i64) (shared_count: u64)
  | HAsyncSleep int i64 i64
  | HGoroutine i64
  | HChan i64 u64
  | HReactorReg i64
  | HAsyncIo i64
  | HAsyncOp int "nat option" i64 i64
  | HOpaque 'o
  | HMemory nat usize
  | HSlice i64 usize usize

record cached_region =
  cr_id :: i64
  cr_generation :: nat
  cr_bytes :: nat
  cr_offset :: usize

record 'o registry =
  shards :: "nat \<Rightarrow> (i64 \<times> 'o handle) list"
  next_id_ctr :: i64
  live :: i64
  permanent :: i64
  permanent_ids :: "i64 set"
  leak_sites :: "i64 \<rightharpoonup> i64 \<times> i64"
  registry_gen :: nat
  memory_cache :: "cached_region option"
  regions :: "nat \<Rightarrow> u8 list"
  next_region :: nat

definition PTR_SIZE :: usize where
  "PTR_SIZE = 8"

definition REGISTRY_SHARDS :: usize where
  "REGISTRY_SHARDS = 64"

definition reg_init :: "'o registry" where
  "reg_init = \<lparr>shards = (\<lambda>_. []), next_id_ctr = 1, live = 0, permanent = 0,
     permanent_ids = {}, leak_sites = Map.empty, registry_gen = 0, memory_cache = None,
     regions = (\<lambda>_. []), next_region = 0\<rparr>"

section \<open>The sharded table\<close>

definition shard_index :: "i64 \<Rightarrow> nat" where
  "shard_index hid = nat \<bar>hid\<bar> AND (REGISTRY_SHARDS - 1)"

definition reg_get :: "'o registry \<Rightarrow> i64 \<Rightarrow> 'o handle option" where
  "reg_get r hid = map_of (shards r (shard_index hid)) hid"

definition reg_put :: "i64 \<Rightarrow> 'o handle \<Rightarrow> 'o registry \<Rightarrow> 'o registry" where
  "reg_put hid h r =
     r\<lparr>shards := (shards r)(shard_index hid := AList.update hid h (shards r (shard_index hid)))\<rparr>"

definition reg_del :: "i64 \<Rightarrow> 'o registry \<Rightarrow> 'o registry" where
  "reg_del hid r =
     r\<lparr>shards := (shards r)(shard_index hid := AList.delete hid (shards r (shard_index hid)))\<rparr>"

definition all_entries :: "'o registry \<Rightarrow> (i64 \<times> 'o handle) list" where
  "all_entries r = concat (map (shards r) [0..<REGISTRY_SHARDS])"

section \<open>Primitive operations\<close>

definition next_id :: "'o registry \<Rightarrow> 'o registry \<times> i64" where
  "next_id r = (r\<lparr>next_id_ctr := next_id_ctr r + 1\<rparr>, next_id_ctr r)"

definition insert_locked :: "i64 \<Rightarrow> 'o handle \<Rightarrow> 'o registry \<Rightarrow> 'o registry \<times> i64" where
  "insert_locked hid h r = (let r1 = reg_put hid h r in (r1\<lparr>live := live r1 + 1\<rparr>, hid))"

definition insert_handle :: "'o handle \<Rightarrow> 'o registry \<Rightarrow> 'o registry \<times> i64" where
  "insert_handle h r = (let (r1, hid) = next_id r in insert_locked hid h r1)"

definition reserve_id :: "'o registry \<Rightarrow> 'o registry \<times> i64" where
  "reserve_id r = next_id r"

definition insert_reserved :: "i64 \<Rightarrow> 'o handle \<Rightarrow> 'o registry \<Rightarrow> 'o registry" where
  "insert_reserved hid h r =
     (let old = reg_get r hid; r1 = reg_put hid h r
      in if old = None then r1\<lparr>live := live r1 + 1\<rparr> else r1)"

definition insert_permanent :: "'o handle \<Rightarrow> 'o registry \<Rightarrow> 'o registry \<times> i64" where
  "insert_permanent h r =
     (let (r1, hid) = next_id r; r2 = reg_put hid h r1
      in (r2\<lparr>permanent := permanent r2 + 1, permanent_ids := insert hid (permanent_ids r2)\<rparr>, hid))"

definition remove_handle :: "i64 \<Rightarrow> 'o registry \<Rightarrow> 'o registry \<times> 'o handle option" where
  "remove_handle hid r =
     (if hid = NULL then (r, None)
      else (case reg_get r hid of
              None \<Rightarrow> (r, None)
            | Some h \<Rightarrow>
                (let r1 = reg_del hid r
                 in (r1\<lparr>live := live r1 - 1, registry_gen := registry_gen r1 + 1\<rparr>, Some h))))"

definition borrow :: "i64 \<Rightarrow> ('o handle \<Rightarrow> 'r) \<Rightarrow> 'o registry \<Rightarrow> 'r option" where
  "borrow hid f r = (if hid = NULL then None else map_option f (reg_get r hid))"

definition borrow_mut ::
    "i64 \<Rightarrow> ('o handle \<Rightarrow> 'o handle \<times> 'r) \<Rightarrow> 'o registry \<Rightarrow> 'o registry \<times> 'r option" where
  "borrow_mut hid f r =
     (if hid = NULL then (r, None)
      else (case reg_get r hid of
              None \<Rightarrow> (r, None)
            | Some h \<Rightarrow> (let (h', x) = f h in (reg_put hid h' r, Some x))))"

definition remove_kind :: "i64 \<Rightarrow> ('o handle \<Rightarrow> bool) \<Rightarrow> 'o registry \<Rightarrow> 'o registry \<times> 'o handle option" where
  "remove_kind hid predicate r =
     (if hid = NULL then (r, None)
      else if borrow hid predicate r = Some True then remove_handle hid r else (r, None))"

definition live_count :: "'o registry \<Rightarrow> i64" where
  "live_count r = live r"

definition mark_leak_site :: "i64 \<Rightarrow> i64 \<Rightarrow> i64 \<Rightarrow> 'o registry \<Rightarrow> 'o registry" where
  "mark_leak_site hid line column r =
     (if hid = NULL \<or> reg_get r hid = None then r
      else r\<lparr>leak_sites := (leak_sites r)(hid \<mapsto> (line, column))\<rparr>)"

section \<open>The leak report\<close>

record leak_entry =
  le_id :: i64
  le_kind :: string
  le_detail :: "string option"
  le_site :: "(i64 \<times> i64) option"

fun handle_kind :: "'o handle \<Rightarrow> string" where
  "handle_kind (HString _) = ''string''"
| "handle_kind (HArray _) = ''array''"
| "handle_kind (HShared _ _) = ''shared''"
| "handle_kind (HAsyncSleep _ _ _) = ''async future''"
| "handle_kind (HGoroutine _) = ''goroutine''"
| "handle_kind (HChan _ _) = ''channel''"
| "handle_kind (HReactorReg _) = ''reactor registration''"
| "handle_kind (HAsyncIo _) = ''async io future''"
| "handle_kind (HAsyncOp _ _ _ _) = ''offloaded future''"
| "handle_kind (HOpaque _) = ''opaque''"
| "handle_kind (HMemory _ _) = ''pointer capability''"
| "handle_kind (HSlice _ _ _) = ''slice''"

text \<open>\<open>escape_debug\<close> is the standard library's character escaping, which consults the Unicode
  tables: it maps a string to the characters of its escaped form.\<close>

fun handle_detail :: "(string \<Rightarrow> string list) \<Rightarrow> 'o handle \<Rightarrow> string option" where
  "handle_detail escape_debug (HString value) =
     (let esc = escape_debug value; preview = concat (take 80 esc)
      in Some (if 80 < length esc then preview @ ''...'' else preview))"
| "handle_detail escape_debug _ = None"

definition leak_entry_of :: "(string \<Rightarrow> string list) \<Rightarrow> 'o registry \<Rightarrow> i64 \<times> 'o handle \<Rightarrow> leak_entry" where
  "leak_entry_of escape_debug r e =
     \<lparr>le_id = fst e, le_kind = handle_kind (snd e),
      le_detail = handle_detail escape_debug (snd e), le_site = leak_sites r (fst e)\<rparr>"

definition live_entries :: "(string \<Rightarrow> string list) \<Rightarrow> 'o registry \<Rightarrow> leak_entry list" where
  "live_entries escape_debug r =
     sort_key le_id (map (leak_entry_of escape_debug r)
       (filter (\<lambda>e. fst e \<notin> permanent_ids r) (all_entries r)))"


section \<open>The shards as one table\<close>

definition table_inv :: "'o registry \<Rightarrow> bool" where
  "table_inv r \<longleftrightarrow>
     (\<forall>k. distinct (map fst (shards r k)) \<and> fst ` set (shards r k) \<subseteq> {i. shard_index i = k})"

definition reg_size :: "'o registry \<Rightarrow> nat" where
  "reg_size r = length (all_entries r)"

lemma shard_index_less: "shard_index hid < REGISTRY_SHARDS"
proof -
  have "nat \<bar>hid\<bar> AND 63 = nat \<bar>hid\<bar> mod 64"
    using take_bit_eq_mask [of 6 "nat \<bar>hid\<bar>"]
    by (simp add: take_bit_eq_mod mask_eq_exp_minus_1)
  then show ?thesis by (simp add: shard_index_def REGISTRY_SHARDS_def)
qed

lemma reg_get_put [simp]: "reg_get (reg_put i h r) j = (if j = i then Some h else reg_get r j)"
  by (simp add: reg_get_def reg_put_def update_conv')

lemma reg_get_del [simp]: "reg_get (reg_del i r) j = (if j = i then None else reg_get r j)"
  by (simp add: reg_get_def reg_del_def delete_conv')

lemma update_same: "map_of al k = Some v \<Longrightarrow> AList.update k v al = al"
  by (induction al) auto

lemma reg_put_same: "reg_get r i = Some h \<Longrightarrow> reg_put i h r = r"
  by (simp add: reg_get_def reg_put_def update_same)

lemma table_inv_init [simp]: "table_inv reg_init"
  by (simp add: table_inv_def reg_init_def)

lemma reg_get_init [simp]: "reg_get reg_init i = None"
  by (simp add: reg_get_def reg_init_def)

lemma table_inv_put: "table_inv r \<Longrightarrow> table_inv (reg_put i h r)"
  unfolding table_inv_def reg_put_def
  by (simp add: distinct_update dom_update)

lemma table_inv_del: "table_inv r \<Longrightarrow> table_inv (reg_del i r)"
  unfolding table_inv_def reg_del_def
  by (simp add: distinct_delete order_trans [OF dom_delete_subset])

lemma reg_get_iff:
  "table_inv r \<Longrightarrow> reg_get r i = Some h \<longleftrightarrow> (i, h) \<in> set (all_entries r)"
proof -
  assume inv: "table_inv r"
  have "(i, h) \<in> set (all_entries r) \<longleftrightarrow> (i, h) \<in> set (shards r (shard_index i))"
    using inv shard_index_less [of i] unfolding all_entries_def table_inv_def by fastforce
  also have "\<dots> \<longleftrightarrow> reg_get r i = Some h"
    using inv unfolding table_inv_def reg_get_def by (metis map_of_eq_Some_iff)
  finally show ?thesis by simp
qed

lemma dom_reg_get: "table_inv r \<Longrightarrow> dom (reg_get r) = fst ` set (all_entries r)"
  by (force simp: reg_get_iff dom_def)

lemma distinct_shards:
  assumes "table_inv r"
  shows "distinct (map fst (concat (map (shards r) [0..<n])))"
proof (induction n)
  case 0
  then show ?case by simp
next
  case (Suc n)
  have key: "i \<in> fst ` set (shards r k) \<Longrightarrow> shard_index i = k" for i k
    using assms unfolding table_inv_def by blast
  have "fst ` set (concat (map (shards r) [0..<n])) \<inter> fst ` set (shards r n) = {}"
  proof (rule equals0I)
    fix i assume i: "i \<in> fst ` set (concat (map (shards r) [0..<n])) \<inter> fst ` set (shards r n)"
    then obtain k where "k < n" "i \<in> fst ` set (shards r k)" by force
    with i key show False by blast
  qed
  then show ?case using Suc assms by (simp add: table_inv_def)
qed

lemma distinct_entries: "table_inv r \<Longrightarrow> distinct (map fst (all_entries r))"
  unfolding all_entries_def by (rule distinct_shards)

lemma reg_size_card: "table_inv r \<Longrightarrow> reg_size r = card (dom (reg_get r))"
  by (metis distinct_card distinct_entries dom_reg_get length_map list.set_map reg_size_def)

lemma finite_dom_reg_get: "table_inv r \<Longrightarrow> finite (dom (reg_get r))"
  by (simp add: dom_reg_get)

text \<open>What the operations of the registry rely on from the table: lookups after an update or a
  deletion, and the number of entries.\<close>

locale handle_table =
  fixes inv :: "'t \<Rightarrow> bool"
    and get :: "'t \<Rightarrow> 'k \<Rightarrow> 'v option"
    and put :: "'k \<Rightarrow> 'v \<Rightarrow> 't \<Rightarrow> 't"
    and del :: "'k \<Rightarrow> 't \<Rightarrow> 't"
    and size :: "'t \<Rightarrow> nat"
  assumes get_put: "inv t \<Longrightarrow> get (put k v t) j = (if j = k then Some v else get t j)"
    and get_del: "inv t \<Longrightarrow> get (del k t) j = (if j = k then None else get t j)"
    and inv_put: "inv t \<Longrightarrow> inv (put k v t)"
    and inv_del: "inv t \<Longrightarrow> inv (del k t)"
    and size_dom: "inv t \<Longrightarrow> size t = card (dom (get t))"
    and finite_dom: "inv t \<Longrightarrow> finite (dom (get t))"
begin

lemma size_put_new:
  assumes "inv t" "get t k = None"
  shows "size (put k v t) = Suc (size t)"
proof -
  have "dom (get (put k v t)) = insert k (dom (get t))"
    using assms by (auto simp: get_put)
  moreover have "k \<notin> dom (get t)" using assms(2) by auto
  ultimately show ?thesis using assms(1) by (simp add: size_dom inv_put finite_dom)
qed

lemma size_put_old:
  assumes "inv t" "get t k = Some w"
  shows "size (put k v t) = size t"
proof -
  have "dom (get (put k v t)) = dom (get t)"
    using assms by (auto simp: get_put split: if_splits)
  then show ?thesis using assms(1) by (simp add: size_dom inv_put)
qed

lemma size_del_old:
  assumes "inv t" "get t k = Some w"
  shows "Suc (size (del k t)) = size t"
proof -
  have "dom (get (del k t)) = dom (get t) - {k}"
    using assms by (auto simp: get_del split: if_splits)
  moreover have "k \<in> dom (get t)" using assms(2) by auto
  ultimately show ?thesis
    using assms(1) by (simp add: size_dom inv_del finite_dom card_Suc_Diff1 del: card_Diff_insert)
qed

lemma del_put_new:
  assumes "inv t" "get t k = None"
  shows "get (del k (put k v t)) = get t"
  using assms by (auto simp: get_del get_put inv_put)

end

interpretation tbl: handle_table table_inv reg_get reg_put reg_del reg_size
  by unfold_locales
    (simp_all add: table_inv_put table_inv_del reg_size_card finite_dom_reg_get)

section \<open>Operations on the other fields\<close>

text \<open>The table does not see the counters, and the table operations do not touch them.\<close>

lemma reg_get_fields [simp]:
  "reg_get (r\<lparr>next_id_ctr := a\<rparr>) = reg_get r"
  "reg_get (r\<lparr>live := b\<rparr>) = reg_get r"
  "reg_get (r\<lparr>permanent := b\<rparr>) = reg_get r"
  "reg_get (r\<lparr>permanent_ids := c\<rparr>) = reg_get r"
  "reg_get (r\<lparr>leak_sites := d\<rparr>) = reg_get r"
  "reg_get (r\<lparr>registry_gen := e\<rparr>) = reg_get r"
  "reg_get (r\<lparr>memory_cache := f\<rparr>) = reg_get r"
  "reg_get (r\<lparr>regions := g\<rparr>) = reg_get r"
  "reg_get (r\<lparr>next_region := m\<rparr>) = reg_get r"
  by (simp_all add: fun_eq_iff reg_get_def)

lemma table_inv_fields [simp]:
  "table_inv (r\<lparr>next_id_ctr := a\<rparr>) = table_inv r"
  "table_inv (r\<lparr>live := b\<rparr>) = table_inv r"
  "table_inv (r\<lparr>permanent := b\<rparr>) = table_inv r"
  "table_inv (r\<lparr>permanent_ids := c\<rparr>) = table_inv r"
  "table_inv (r\<lparr>leak_sites := d\<rparr>) = table_inv r"
  "table_inv (r\<lparr>registry_gen := e\<rparr>) = table_inv r"
  "table_inv (r\<lparr>memory_cache := f\<rparr>) = table_inv r"
  "table_inv (r\<lparr>regions := g\<rparr>) = table_inv r"
  "table_inv (r\<lparr>next_region := m\<rparr>) = table_inv r"
  by (simp_all add: table_inv_def)

lemma reg_size_fields [simp]:
  "reg_size (r\<lparr>next_id_ctr := a\<rparr>) = reg_size r"
  "reg_size (r\<lparr>live := b\<rparr>) = reg_size r"
  "reg_size (r\<lparr>permanent := b\<rparr>) = reg_size r"
  "reg_size (r\<lparr>permanent_ids := c\<rparr>) = reg_size r"
  "reg_size (r\<lparr>leak_sites := d\<rparr>) = reg_size r"
  "reg_size (r\<lparr>registry_gen := e\<rparr>) = reg_size r"
  "reg_size (r\<lparr>memory_cache := f\<rparr>) = reg_size r"
  "reg_size (r\<lparr>regions := g\<rparr>) = reg_size r"
  "reg_size (r\<lparr>next_region := m\<rparr>) = reg_size r"
  by (simp_all add: reg_size_def all_entries_def)

lemma reg_put_fields [simp]:
  "next_id_ctr (reg_put i h r) = next_id_ctr r"
  "live (reg_put i h r) = live r"
  "permanent (reg_put i h r) = permanent r"
  "permanent_ids (reg_put i h r) = permanent_ids r"
  "leak_sites (reg_put i h r) = leak_sites r"
  "registry_gen (reg_put i h r) = registry_gen r"
  "memory_cache (reg_put i h r) = memory_cache r"
  "regions (reg_put i h r) = regions r"
  "next_region (reg_put i h r) = next_region r"
  by (simp_all add: reg_put_def)

lemma reg_del_fields [simp]:
  "next_id_ctr (reg_del i r) = next_id_ctr r"
  "live (reg_del i r) = live r"
  "permanent (reg_del i r) = permanent r"
  "permanent_ids (reg_del i r) = permanent_ids r"
  "leak_sites (reg_del i r) = leak_sites r"
  "registry_gen (reg_del i r) = registry_gen r"
  "memory_cache (reg_del i r) = memory_cache r"
  "regions (reg_del i r) = regions r"
  "next_region (reg_del i r) = next_region r"
  by (simp_all add: reg_del_def)


section \<open>The registry invariant\<close>

text \<open>
  \<^item> \<open>ids_inv\<close>: every registered handle is an id that has been handed out, so it is positive and
    below the counter; the same holds for the ids recorded as permanent.
  \<^item> \<open>count_inv\<close>: the counters agree with the table.
  \<^item> \<open>memory_inv\<close>: a capability points into an allocated region, at most one past its end.
  \<^item> \<open>cache_inv\<close>: a cached capability of the current generation is the registered one.
\<close>

definition ids_inv :: "'o registry \<Rightarrow> bool" where
  "ids_inv r \<longleftrightarrow> 1 \<le> next_id_ctr r \<and> dom (reg_get r) \<subseteq> {1..<next_id_ctr r} \<and>
     permanent_ids r \<subseteq> {1..<next_id_ctr r}"

definition count_inv :: "'o registry \<Rightarrow> bool" where
  "count_inv r \<longleftrightarrow> live r + permanent r = int (reg_size r) \<and>
     permanent r = int (card (permanent_ids r))"

definition handle_ok :: "'o registry \<Rightarrow> 'o handle \<Rightarrow> bool" where
  "handle_ok r h \<longleftrightarrow>
     (case h of HMemory reg off \<Rightarrow> reg < next_region r \<and> off \<le> length (regions r reg) | _ \<Rightarrow> True)"

definition memory_inv :: "'o registry \<Rightarrow> bool" where
  "memory_inv r \<longleftrightarrow> (\<forall>i h. reg_get r i = Some h \<longrightarrow> handle_ok r h)"

definition cache_inv :: "'o registry \<Rightarrow> bool" where
  "cache_inv r \<longleftrightarrow>
     (\<forall>c. memory_cache r = Some c \<longrightarrow>
        cr_generation c \<le> registry_gen r \<and>
        (cr_generation c = registry_gen r \<longrightarrow>
           reg_get r (cr_id c) = Some (HMemory (cr_bytes c) (cr_offset c))))"

definition reg_inv :: "'o registry \<Rightarrow> bool" where
  "reg_inv r \<longleftrightarrow> table_inv r \<and> ids_inv r \<and> count_inv r \<and> memory_inv r \<and> cache_inv r"

fun is_memory :: "'o handle \<Rightarrow> bool" where
  "is_memory (HMemory _ _) = True"
| "is_memory _ = False"

lemma reg_invD:
  assumes "reg_inv r"
  shows "table_inv r" "ids_inv r" "count_inv r" "memory_inv r" "cache_inv r"
  using assms by (simp_all add: reg_inv_def)

lemma handle_ok_nonmem [simp]: "\<not> is_memory h \<Longrightarrow> handle_ok r h"
  by (cases h) (auto simp: handle_ok_def)

lemma handle_ok_fields [simp]:
  "handle_ok (r\<lparr>next_id_ctr := a\<rparr>) = handle_ok r"
  "handle_ok (r\<lparr>live := b\<rparr>) = handle_ok r"
  "handle_ok (r\<lparr>permanent := b\<rparr>) = handle_ok r"
  "handle_ok (r\<lparr>permanent_ids := c\<rparr>) = handle_ok r"
  "handle_ok (r\<lparr>leak_sites := d\<rparr>) = handle_ok r"
  "handle_ok (r\<lparr>registry_gen := e\<rparr>) = handle_ok r"
  "handle_ok (r\<lparr>memory_cache := f\<rparr>) = handle_ok r"
  "handle_ok (reg_put i h r) = handle_ok r"
  "handle_ok (reg_del i r) = handle_ok r"
  by (auto simp: handle_ok_def fun_eq_iff split: handle.splits)

lemma reg_inv_init: "reg_inv reg_init"
  by (simp add: reg_inv_def ids_inv_def count_inv_def memory_inv_def cache_inv_def
      reg_size_def all_entries_def dom_def)
    (simp add: reg_init_def)

lemma reg_inv_get_null: "reg_inv r \<Longrightarrow> reg_get r NULL = None"
  using reg_invD(2) [of r] by (force simp: ids_inv_def NULL_def dom_def)

lemma fresh_id: "ids_inv r \<Longrightarrow> next_id_ctr r \<le> i \<Longrightarrow> reg_get r i = None"
  by (force simp: ids_inv_def dom_def)

lemma fresh_permanent: "ids_inv r \<Longrightarrow> next_id_ctr r \<notin> permanent_ids r"
  by (auto simp: ids_inv_def)

lemma finite_permanent: "ids_inv r \<Longrightarrow> finite (permanent_ids r)"
  by (auto simp: ids_inv_def intro: finite_subset)

text \<open>The three ways the operations change the table: a new entry under a fresh id, a new value
  for an entry that is not a capability, and the removal of an entry.\<close>

lemma reg_inv_fresh:
  assumes inv: "reg_inv r" and ok: "handle_ok r h"
  shows "reg_inv ((reg_put (next_id_ctr r) h (r\<lparr>next_id_ctr := next_id_ctr r + 1\<rparr>))\<lparr>live := live r + 1\<rparr>)"
    (is "reg_inv ?r'")
proof -
  note i = reg_invD [OF inv]
  have fresh: "reg_get r (next_id_ctr r) = None" using i(2) by (simp add: fresh_id)
  have get: "reg_get ?r' = (reg_get r)(next_id_ctr r \<mapsto> h)" by (simp add: fun_eq_iff)
  have "table_inv ?r'" using i(1) by (simp add: table_inv_put)
  moreover have "ids_inv ?r'" using i(2) unfolding ids_inv_def get by auto
  moreover have "count_inv ?r'"
    using i(1,3) fresh by (simp add: count_inv_def tbl.size_put_new)
  moreover have "memory_inv ?r'"
    using i(4) ok by (auto simp: memory_inv_def)
  moreover have "cache_inv ?r'"
    using i(5) fresh by (auto simp: cache_inv_def)
  ultimately show ?thesis by (simp add: reg_inv_def)
qed

lemma reg_inv_replace:
  assumes inv: "reg_inv r" and old: "reg_get r i = Some h0" "\<not> is_memory h0" and new: "\<not> is_memory h"
  shows "reg_inv (reg_put i h r)"
proof -
  note iv = reg_invD [OF inv]
  have "table_inv (reg_put i h r)" using iv(1) by (simp add: table_inv_put)
  moreover have "ids_inv (reg_put i h r)"
    using iv(2) old(1) by (auto simp: ids_inv_def dom_def split: if_splits)
  moreover have "count_inv (reg_put i h r)"
    using iv(1,3) old(1) by (simp add: count_inv_def tbl.size_put_old)
  moreover have "memory_inv (reg_put i h r)"
    using iv(4) new by (auto simp: memory_inv_def)
  moreover have "cache_inv (reg_put i h r)"
    using iv(5) old by (auto simp: cache_inv_def)
  ultimately show ?thesis by (simp add: reg_inv_def)
qed

lemma reg_inv_take:
  assumes inv: "reg_inv r" and old: "reg_get r i = Some h0" and g: "g = registry_gen r \<and> \<not> is_memory h0 \<or> g = registry_gen r + 1"
  shows "reg_inv ((reg_del i r)\<lparr>live := live r - 1, registry_gen := g\<rparr>)" (is "reg_inv ?r'")
proof -
  note iv = reg_invD [OF inv]
  have "table_inv ?r'" using iv(1) by (simp add: table_inv_del)
  moreover have "ids_inv ?r'"
    using iv(2) by (auto simp: ids_inv_def dom_def split: if_splits)
  moreover have "count_inv ?r'"
    using iv(1,3) tbl.size_del_old [OF iv(1) old] by (simp add: count_inv_def)
  moreover have "memory_inv ?r'"
    using iv(4) by (auto simp: memory_inv_def split: if_splits)
  moreover have "cache_inv ?r'"
    using iv(5) old g by (auto simp: cache_inv_def)
  ultimately show ?thesis by (simp add: reg_inv_def)
qed

lemma registry_gen_same: "registry_gen r = g \<Longrightarrow> r\<lparr>registry_gen := g\<rparr> = r"
  by (cases r) simp

lemma reg_inv_take_same:
  "reg_inv r \<Longrightarrow> reg_get r i = Some h0 \<Longrightarrow> \<not> is_memory h0 \<Longrightarrow> reg_inv ((reg_del i r)\<lparr>live := live r - 1\<rparr>)"
  using reg_inv_take [of r i h0 "registry_gen r"] by (simp add: registry_gen_same)


section \<open>Effect of the primitive operations\<close>

lemma insert_handle_eq:
  "insert_handle h r =
     ((reg_put (next_id_ctr r) h (r\<lparr>next_id_ctr := next_id_ctr r + 1\<rparr>))\<lparr>live := live r + 1\<rparr>, next_id_ctr r)"
  by (simp add: insert_handle_def insert_locked_def next_id_def Let_def)

lemma snd_insert_handle [simp]: "snd (insert_handle h r) = next_id_ctr r"
  by (simp add: insert_handle_eq)

lemma insert_handle_get [simp]: "reg_get (fst (insert_handle h r)) = (reg_get r)(next_id_ctr r \<mapsto> h)"
  by (simp add: insert_handle_eq fun_eq_iff)

lemma insert_handle_fields [simp]:
  "next_id_ctr (fst (insert_handle h r)) = next_id_ctr r + 1"
  "live (fst (insert_handle h r)) = live r + 1"
  "permanent (fst (insert_handle h r)) = permanent r"
  "permanent_ids (fst (insert_handle h r)) = permanent_ids r"
  "leak_sites (fst (insert_handle h r)) = leak_sites r"
  "registry_gen (fst (insert_handle h r)) = registry_gen r"
  "memory_cache (fst (insert_handle h r)) = memory_cache r"
  "regions (fst (insert_handle h r)) = regions r"
  "next_region (fst (insert_handle h r)) = next_region r"
  by (simp_all add: insert_handle_eq)

lemma insert_handle_inv [reg_inv]:
  "reg_inv r \<Longrightarrow> handle_ok r h \<Longrightarrow> reg_inv (fst (insert_handle h r))"
  by (simp add: insert_handle_eq reg_inv_fresh)

lemma insert_permanent_inv [reg_inv]:
  assumes inv: "reg_inv r" and ok: "handle_ok r h"
  shows "reg_inv (fst (insert_permanent h r))" (is "reg_inv ?r'")
proof -
  note i = reg_invD [OF inv]
  have fresh: "reg_get r (next_id_ctr r) = None" using i(2) by (simp add: fresh_id)
  have r': "?r' = (reg_put (next_id_ctr r) h (r\<lparr>next_id_ctr := next_id_ctr r + 1\<rparr>))
      \<lparr>permanent := permanent r + 1, permanent_ids := insert (next_id_ctr r) (permanent_ids r)\<rparr>"
    by (simp add: insert_permanent_def next_id_def Let_def)
  have get: "reg_get ?r' = (reg_get r)(next_id_ctr r \<mapsto> h)" by (simp add: r' fun_eq_iff)
  have "table_inv ?r'" using i(1) by (simp add: r' table_inv_put)
  moreover have "ids_inv ?r'" using i(2) unfolding ids_inv_def get by (auto simp: r')
  moreover have "count_inv ?r'"
    using i(1,2,3) fresh
    by (simp add: r' count_inv_def tbl.size_put_new fresh_permanent finite_permanent)
  moreover have "memory_inv ?r'"
    using i(4) ok by (auto simp: memory_inv_def get r' split: if_splits)
  moreover have "cache_inv ?r'"
    using i(5) fresh by (auto simp: r' cache_inv_def)
  ultimately show ?thesis by (simp add: reg_inv_def)
qed

lemma reserve_id_inv [reg_inv]: "reg_inv r \<Longrightarrow> reg_inv (fst (reserve_id r))"
  by (auto simp: reserve_id_def next_id_def reg_inv_def ids_inv_def count_inv_def memory_inv_def
      cache_inv_def handle_ok_def split: handle.splits)

lemma insert_reserved_inv [reg_inv]:
  assumes inv: "reg_inv r" and res: "1 \<le> i" "i < next_id_ctr r" "reg_get r i = None" and ok: "handle_ok r h"
  shows "reg_inv (insert_reserved i h r)" (is "reg_inv ?r'")
proof -
  note iv = reg_invD [OF inv]
  have r': "?r' = (reg_put i h r)\<lparr>live := live r + 1\<rparr>"
    using res by (simp add: insert_reserved_def Let_def)
  have "table_inv ?r'" using iv(1) by (simp add: r' table_inv_put)
  moreover have "ids_inv ?r'"
    using iv(2) res by (auto simp: r' ids_inv_def dom_def split: if_splits)
  moreover have "count_inv ?r'"
    using iv(1,3) res by (simp add: r' count_inv_def tbl.size_put_new)
  moreover have "memory_inv ?r'"
    using iv(4) ok by (auto simp: memory_inv_def r' split: if_splits)
  moreover have "cache_inv ?r'"
    using iv(5) res by (auto simp: r' cache_inv_def)
  ultimately show ?thesis by (simp add: reg_inv_def)
qed

lemma remove_handle_inv [reg_inv]: "reg_inv r \<Longrightarrow> reg_inv (fst (remove_handle i r))"
  by (auto simp: remove_handle_def Let_def reg_inv_take split: option.splits)

lemma remove_kind_inv [reg_inv]: "reg_inv r \<Longrightarrow> reg_inv (fst (remove_kind i p r))"
  by (simp add: remove_kind_def remove_handle_inv)

lemma mark_leak_site_inv [reg_inv]: "reg_inv r \<Longrightarrow> reg_inv (mark_leak_site i l c r)"
  by (auto simp: mark_leak_site_def reg_inv_def ids_inv_def count_inv_def memory_inv_def
      cache_inv_def handle_ok_def split: handle.splits)

lemma remove_kind_cases:
  "remove_kind i p r = (r, None) \<or>
   (\<exists>h. i \<noteq> NULL \<and> reg_get r i = Some h \<and> p h \<and>
        remove_kind i p r = ((reg_del i r)\<lparr>live := live r - 1, registry_gen := registry_gen r + 1\<rparr>, Some h))"
  by (auto simp: remove_kind_def borrow_def remove_handle_def Let_def split: option.splits)

lemma remove_kind_wrong:
  "(\<And>h. reg_get r i = Some h \<Longrightarrow> \<not> p h) \<Longrightarrow> remove_kind i p r = (r, None)"
  using remove_kind_cases [of i p r] by blast

text \<open>Growth of the registry: an operation that only adds entries keeps every handle that was
  registered before, and hands out ids from the counter.\<close>

definition reg_grows :: "'o registry \<Rightarrow> 'o registry \<Rightarrow> bool" where
  "reg_grows r r' \<longleftrightarrow>
     next_id_ctr r \<le> next_id_ctr r' \<and>
     (\<forall>i. i < next_id_ctr r \<longrightarrow> reg_get r' i = reg_get r i) \<and>
     live r' - live r = int (reg_size r') - int (reg_size r) \<and>
     permanent_ids r' = permanent_ids r \<and> regions r' = regions r \<and> next_region r' = next_region r"

lemma reg_grows_refl [simp]: "reg_grows r r"
  by (simp add: reg_grows_def)

lemma reg_grows_trans [trans]: "reg_grows r r1 \<Longrightarrow> reg_grows r1 r2 \<Longrightarrow> reg_grows r r2"
  by (auto simp: reg_grows_def)

lemma reg_grows_insert: "reg_inv r \<Longrightarrow> reg_grows r (fst (insert_handle h r))"
  using reg_invD [of r]
  by (auto simp: reg_grows_def insert_handle_eq tbl.size_put_new fresh_id)

lemma reg_grows_get: "reg_grows r r' \<Longrightarrow> reg_inv r \<Longrightarrow> reg_get r i = Some h \<Longrightarrow> reg_get r' i = Some h"
  using reg_invD(2) [of r] by (force simp: reg_grows_def ids_inv_def dom_def)

section \<open>Properties\<close>

text \<open>The leak report lists each registered handle that is not permanent exactly once, in
  strictly increasing order of ids; and as long as no permanent handle has been removed the
  live counter printed in its headline is the number of its lines.\<close>

theorem live_entries_spec:
  assumes inv: "reg_inv r"
  shows "sorted_wrt (<) (map le_id (live_entries esc r)) \<and>
         set (map le_id (live_entries esc r)) = dom (reg_get r) - permanent_ids r \<and>
         (permanent_ids r \<subseteq> dom (reg_get r) \<longrightarrow> int (length (live_entries esc r)) = live_count r)"
proof -
  note i = reg_invD [OF inv]
  define es where "es = filter (\<lambda>e. fst e \<notin> permanent_ids r) (all_entries r)"
  have ids: "map le_id (map (leak_entry_of esc r) es) = map fst es"
    by (simp add: leak_entry_of_def)
  have m: "mset (map le_id (live_entries esc r)) = mset (map fst es)"
    unfolding live_entries_def es_def [symmetric] ids [symmetric] mset_map mset_sort ..
  have d: "distinct (map fst es)"
    unfolding es_def using distinct_entries [OF i(1)] by (simp add: distinct_map_filter)
  have s: "set (map fst es) = dom (reg_get r) - permanent_ids r"
    unfolding es_def by (auto simp: dom_reg_get [OF i(1)])
  have "sorted (map le_id (live_entries esc r))" unfolding live_entries_def by simp
  moreover have "distinct (map le_id (live_entries esc r))"
    using m d by (metis mset_eq_imp_distinct_iff)
  ultimately have "sorted_wrt (<) (map le_id (live_entries esc r))"
    by (simp add: strict_sorted_iff)
  moreover have set: "set (map le_id (live_entries esc r)) = dom (reg_get r) - permanent_ids r"
    using m s by (metis mset_eq_setD)
  moreover have "int (length (live_entries esc r)) = live_count r"
    if sub: "permanent_ids r \<subseteq> dom (reg_get r)"
  proof -
    have "length (live_entries esc r) = card (dom (reg_get r) - permanent_ids r)"
      using m d s by (metis distinct_card length_map mset_eq_length)
    moreover have "card (permanent_ids r) \<le> card (dom (reg_get r))"
      using sub finite_dom_reg_get [OF i(1)] by (rule card_mono [rotated])
    ultimately show ?thesis
      using i(1,3) sub finite_permanent [OF i(2)]
      by (simp add: live_count_def count_inv_def reg_size_card card_Diff_subset)
  qed
  ultimately show ?thesis by blast
qed

theorem live_entries_spec_witness:
  "(\<exists>r :: nat registry. reg_inv r \<and> permanent_ids r \<subseteq> dom (reg_get r) \<and> live_count r = 1 \<and>
      int (length (live_entries (\<lambda>s. [s]) r)) = 1)"
proof -
  let ?r = "fst (insert_handle (HString ''a'') (reg_init :: nat registry))"
  have inv: "reg_inv ?r" by (rule insert_handle_inv [OF reg_inv_init]) simp
  have sub: "permanent_ids ?r \<subseteq> dom (reg_get ?r)" by (simp add: reg_init_def)
  have "live_count ?r = 1" by (simp add: live_count_def) (simp add: reg_init_def)
  with live_entries_spec [OF inv, of "\<lambda>s. [s]"] inv sub show ?thesis
    by (intro exI [of _ ?r]) simp
qed

end
