(* ===== verification/Registry_Strings.thy ===== *)
theory Registry_Strings
  imports Registry_Table
begin

text \<open>
  The string operations of the handle registry: registration, destructive take, borrowed reads,
  copies, concatenation and comparison. \<open>string_at\<close> is the match on \<open>Some(Handle::String(s))\<close>
  that these functions share.
\<close>

section \<open>Operations\<close>

definition string_at :: "'o registry \<Rightarrow> i64 \<Rightarrow> string option" where
  "string_at r hid = (case reg_get r hid of Some (HString s) \<Rightarrow> Some s | _ \<Rightarrow> None)"

definition put_string :: "string \<Rightarrow> 'o registry \<Rightarrow> 'o registry \<times> i64" where
  "put_string s r = insert_handle (HString s) r"

definition put_string_permanent :: "string \<Rightarrow> 'o registry \<Rightarrow> 'o registry \<times> i64" where
  "put_string_permanent s r = insert_permanent (HString s) r"

definition take_string :: "i64 \<Rightarrow> 'o registry \<Rightarrow> 'o registry \<times> string option" where
  "take_string hid r =
     (if hid = NULL then (r, None)
      else (case string_at r hid of
              None \<Rightarrow> (r, None)
            | Some s \<Rightarrow> (let r1 = reg_del hid r in (r1\<lparr>live := live r1 - 1\<rparr>, Some s))))"

definition clone_string :: "i64 \<Rightarrow> 'o registry \<Rightarrow> 'o registry \<times> i64 option" where
  "clone_string hid r =
     (if hid = NULL then (r, None)
      else (case string_at r hid of
              None \<Rightarrow> (r, None)
            | Some text \<Rightarrow> (let (r1, i) = put_string text r in (r1, Some i))))"

definition get_string :: "i64 \<Rightarrow> 'o registry \<Rightarrow> string option" where
  "get_string hid r = (if hid = NULL then None else string_at r hid)"

definition with_string :: "i64 \<Rightarrow> (string \<Rightarrow> 'r) \<Rightarrow> 'o registry \<Rightarrow> 'r option" where
  "with_string hid f r = (if hid = NULL then None else map_option f (string_at r hid))"

definition string_concat :: "i64 \<Rightarrow> i64 \<Rightarrow> 'o registry \<Rightarrow> 'o registry \<times> i64 option" where
  "string_concat a b r =
     (let sa = (case string_at r a of Some s \<Rightarrow> s | None \<Rightarrow> []);
          sb = (case string_at r b of Some s \<Rightarrow> s | None \<Rightarrow> []);
          (r1, i) = put_string (sa @ sb) r
      in (r1, Some i))"

definition string_equals :: "i64 \<Rightarrow> i64 \<Rightarrow> 'o registry \<Rightarrow> bool" where
  "string_equals a b r =
     (if a = NULL \<or> b = NULL then False
      else (case string_at r a of
              None \<Rightarrow> False
            | Some sa \<Rightarrow> (case string_at r b of None \<Rightarrow> False | Some sb \<Rightarrow> sa = sb)))"

section \<open>Lemmas\<close>

lemma string_at_iff: "string_at r i = Some s \<longleftrightarrow> reg_get r i = Some (HString s)"
  by (auto simp: string_at_def split: option.splits handle.splits)

lemma string_at_None: "string_at r i = None \<longleftrightarrow> (\<forall>s. reg_get r i \<noteq> Some (HString s))"
  by (auto simp: string_at_def split: option.splits handle.splits)

lemma string_at_fields [simp]:
  "string_at (r\<lparr>live := b\<rparr>) = string_at r"
  "string_at (r\<lparr>next_id_ctr := a\<rparr>) = string_at r"
  by (simp_all add: fun_eq_iff string_at_def)

lemma string_at_put [simp]:
  "string_at (reg_put i h r) j = (if j = i then (case h of HString s \<Rightarrow> Some s | _ \<Rightarrow> None) else string_at r j)"
  by (simp add: string_at_def split: handle.splits)

lemma string_at_del [simp]: "string_at (reg_del i r) j = (if j = i then None else string_at r j)"
  by (simp add: string_at_def)

lemma string_at_insert [simp]:
  "string_at (fst (insert_handle h r)) j =
     (if j = next_id_ctr r then (case h of HString s \<Rightarrow> Some s | _ \<Rightarrow> None) else string_at r j)"
  by (simp add: insert_handle_eq)

lemma string_at_grows: "reg_grows r r' \<Longrightarrow> reg_inv r \<Longrightarrow> string_at r i = Some s \<Longrightarrow> string_at r' i = Some s"
  by (simp add: string_at_iff reg_grows_get)

lemma string_at_null: "reg_inv r \<Longrightarrow> string_at r NULL = None"
  by (simp add: string_at_def reg_inv_get_null)

lemma take_string_wrong: "string_at r i = None \<Longrightarrow> take_string i r = (r, None)"
  by (simp add: take_string_def)

lemma take_string_ok:
  "i \<noteq> NULL \<Longrightarrow> string_at r i = Some s \<Longrightarrow> take_string i r = ((reg_del i r)\<lparr>live := live r - 1\<rparr>, Some s)"
  by (simp add: take_string_def Let_def)

lemma take_string_inv [reg_inv]: "reg_inv r \<Longrightarrow> reg_inv (fst (take_string i r))"
  by (auto simp: take_string_def Let_def string_at_iff reg_inv_take_same split: option.splits)

lemma reg_get_take_string:
  "reg_get (fst (take_string i r)) j = (if j = i \<and> i \<noteq> NULL \<and> string_at r i \<noteq> None then None else reg_get r j)"
  by (auto simp: take_string_def Let_def split: option.splits)

lemma string_at_take_string [simp]:
  "string_at (fst (take_string i r)) j = (if j = i \<and> i \<noteq> NULL then None else string_at r j)"
  by (auto simp: take_string_def Let_def split: option.splits)

lemma live_take_string:
  "live (fst (take_string i r)) = (if i \<noteq> NULL \<and> string_at r i \<noteq> None then live r - 1 else live r)"
  by (auto simp: take_string_def Let_def split: option.splits)

lemma take_string_fields [simp]:
  "next_id_ctr (fst (take_string i r)) = next_id_ctr r"
  "permanent_ids (fst (take_string i r)) = permanent_ids r"
  "registry_gen (fst (take_string i r)) = registry_gen r"
  "regions (fst (take_string i r)) = regions r"
  by (auto simp: take_string_def Let_def split: option.splits)

lemma put_string_inv [reg_inv]: "reg_inv r \<Longrightarrow> reg_inv (fst (put_string s r))"
  by (simp add: put_string_def insert_handle_inv)

lemma put_string_permanent_inv [reg_inv]: "reg_inv r \<Longrightarrow> reg_inv (fst (put_string_permanent s r))"
  by (simp add: put_string_permanent_def insert_permanent_inv)

lemma clone_string_cases:
  "clone_string i r = (r, None) \<and> (i = NULL \<or> string_at r i = None) \<or>
   (\<exists>s. string_at r i = Some s \<and> i \<noteq> NULL \<and>
     clone_string i r = (fst (insert_handle (HString s) r), Some (next_id_ctr r)))"
  by (auto simp: clone_string_def put_string_def insert_handle_eq split: option.splits)

lemma clone_string_inv [reg_inv]: "reg_inv r \<Longrightarrow> reg_inv (fst (clone_string i r))"
  using clone_string_cases [of i r] by (auto simp: insert_handle_inv)

lemma clone_string_grows: "reg_inv r \<Longrightarrow> reg_grows r (fst (clone_string i r))"
  using clone_string_cases [of i r] by (auto simp: reg_grows_insert)

lemma string_concat_eq:
  "string_concat a b r =
     (fst (insert_handle (HString (the_default (string_at r a) @ the_default (string_at r b))) r), Some (next_id_ctr r))"
  if "the_default = (\<lambda>x. case x of Some s \<Rightarrow> s | None \<Rightarrow> [])"
  by (simp add: string_concat_def put_string_def insert_handle_eq that Let_def)

lemma string_concat_inv [reg_inv]: "reg_inv r \<Longrightarrow> reg_inv (fst (string_concat a b r))"
  by (simp add: string_concat_eq [OF refl] insert_handle_inv)

section \<open>Properties\<close>

text \<open>Registering a string and taking it back returns the same bytes and restores the table
  and the live counter; while it is registered, a copy made of it is a different, fresh handle
  with the same bytes, equal to it under \<open>string_equals\<close>, and taking the copy leaves the
  original in place.\<close>

theorem string_roundtrip:
  fixes r :: "'o registry" and s :: string
  assumes inv: "reg_inv r"
  defines "r1 \<equiv> fst (put_string s r)" and "i \<equiv> snd (put_string s r)"
  shows "get_string i r1 = Some s \<and> reg_get r i = None \<and>
         snd (take_string i r1) = Some s \<and> reg_get (fst (take_string i r1)) = reg_get r \<and>
         live (fst (take_string i r1)) = live r \<and>
         (\<exists>r2 j. clone_string i r1 = (r2, Some j) \<and> j \<noteq> i \<and> string_equals i j r2 \<and>
            snd (take_string j r2) = Some s \<and> get_string i (fst (take_string j r2)) = Some s)"
proof -
  have i: "i = next_id_ctr r" by (simp add: i_def put_string_def)
  have r1: "r1 = fst (insert_handle (HString s) r)" by (simp add: r1_def put_string_def)
  have pos: "1 \<le> next_id_ctr r" using reg_invD(2) [OF inv] by (simp add: ids_inv_def)
  have fresh: "reg_get r i = None" using reg_invD(2) [OF inv] by (simp add: i fresh_id)
  have sat: "string_at r1 i = Some s" by (simp add: r1 i)
  have nn: "i \<noteq> NULL" "next_id_ctr r1 \<noteq> NULL" "next_id_ctr r1 \<noteq> i"
    using pos by (simp_all add: i r1 NULL_def)
  have take: "take_string i r1 = ((reg_del i r1)\<lparr>live := live r1 - 1\<rparr>, Some s)"
    by (rule take_string_ok [OF nn(1) sat])
  have bk: "reg_get (reg_del i r1) = reg_get r" using fresh by (auto simp: fun_eq_iff r1 i)
  have cl: "clone_string i r1 = (fst (insert_handle (HString s) r1), Some (next_id_ctr r1))"
    using clone_string_cases [of i r1] nn sat by auto
  let ?r2 = "fst (insert_handle (HString s) r1)"
  have "string_at ?r2 (next_id_ctr r1) = Some s" "string_at ?r2 i = Some s"
    using sat by (simp_all add: nn(3))
  then have "string_equals i (next_id_ctr r1) ?r2" "take_string (next_id_ctr r1) ?r2 =
      ((reg_del (next_id_ctr r1) ?r2)\<lparr>live := live ?r2 - 1\<rparr>, Some s)"
      "get_string i (fst (take_string (next_id_ctr r1) ?r2)) = Some s"
    using nn by (simp_all add: string_equals_def take_string_ok get_string_def)
  then show ?thesis using fresh take bk cl nn sat
    by (simp add: get_string_def) (simp add: r1)
qed

theorem string_roundtrip_witness:
  "reg_inv (reg_init :: nat registry) \<and>
   snd (take_string 1 (fst (put_string ''hi'' (reg_init :: nat registry)))) = Some ''hi''"
  using string_roundtrip [where ?'o = nat, OF reg_inv_init, of "''hi''"] reg_inv_init
  by (simp add: put_string_def) (simp add: reg_init_def)

text \<open>A string registered as permanent is not protected from a destructive take: dropping it
  removes the entry and decrements the live counter, which never counted it, so that the
  counter of a registry without any leak becomes negative.\<close>

theorem take_permanent_underflows:
  fixes r :: "'o registry" and s :: string
  assumes inv: "reg_inv r"
  defines "r1 \<equiv> fst (put_string_permanent s r)" and "i \<equiv> snd (put_string_permanent s r)"
  shows "snd (take_string i r1) = Some s \<and> live_count r1 = live_count r \<and>
         live_count (fst (take_string i r1)) = live_count r - 1 \<and>
         dom (reg_get (fst (take_string i r1))) = dom (reg_get r)"
proof -
  have i: "i = next_id_ctr r"
    by (simp add: i_def put_string_permanent_def insert_permanent_def next_id_def Let_def)
  have r1: "r1 = (reg_put i (HString s) (r\<lparr>next_id_ctr := next_id_ctr r + 1\<rparr>))
      \<lparr>permanent := permanent r + 1, permanent_ids := insert i (permanent_ids r)\<rparr>"
    by (simp add: r1_def i put_string_permanent_def insert_permanent_def next_id_def Let_def)
  have fresh: "reg_get r i = None" using reg_invD(2) [OF inv] by (simp add: i fresh_id)
  have sat: "string_at r1 i = Some s" by (simp add: r1 string_at_def)
  have "i \<noteq> NULL" using reg_invD(2) [OF inv] by (simp add: i ids_inv_def NULL_def)
  from take_string_ok [OF this sat] fresh show ?thesis
    by (auto simp: live_count_def r1 dom_def split: if_splits)
qed

theorem take_permanent_underflows_witness:
  "reg_inv (reg_init :: nat registry) \<and>
   live_count (fst (take_string 1 (fst (put_string_permanent ''lit'' (reg_init :: nat registry))))) = - 1"
  using take_permanent_underflows [where ?'o = nat, OF reg_inv_init, of "''lit''"] reg_inv_init
  by (simp add: put_string_permanent_def insert_permanent_def next_id_def Let_def live_count_def)
    (simp add: reg_init_def)

end
