(* ===== verification/Registry_Arrays.thy ===== *)
theory Registry_Arrays
  imports Registry_Strings
begin

text \<open>
  The dynamic arrays of the handle registry. An array holds raw 64-bit elements or, when its
  string flag is set, the handles of strings it owns. The operations that return a new array
  copy the elements of the old one one by one; the loop is \<open>copy_with\<close>, and a string element is
  copied by \<open>copy_string\<close> (\<open>clone_string(elem).unwrap_or(NULL)\<close>).

  Theory \<open>Registry_Array_Spec\<close> says what each operation does to the contents of an array.

  The capacity of a vector is not observable, so \<open>array_data_new\<close> ignores it; the clamp of the
  requested capacity is \<open>initial_capacity\<close>. The bytes read from the operating system for a
  shuffle are a parameter.
\<close>

section \<open>Element access\<close>

definition array_at :: "'o registry \<Rightarrow> i64 \<Rightarrow> array_data option" where
  "array_at r hid = (case reg_get r hid of Some (HArray a) \<Rightarrow> Some a | _ \<Rightarrow> None)"

definition array_data_new :: "usize \<Rightarrow> usize \<Rightarrow> bool \<Rightarrow> array_data" where
  "array_data_new esize capacity strs = \<lparr>elem_size = esize, string_elements = strs, elements = []\<rparr>"

definition array_data_get :: "array_data \<Rightarrow> usize \<Rightarrow> i64 option" where
  "array_data_get a index = (if index < length (elements a) then Some (elements a ! index) else None)"

definition MAX_INITIAL_CAPACITY :: usize where
  "MAX_INITIAL_CAPACITY = 2 ^ 20"

definition initial_capacity :: "i64 \<Rightarrow> usize" where
  "initial_capacity requested =
     (let cap = (if requested \<le> 0 then 8 else requested)
      in max 8 (min MAX_INITIAL_CAPACITY (nat cap)))"

definition array_new :: "i64 \<Rightarrow> i64 \<Rightarrow> int \<Rightarrow> 'o registry \<Rightarrow> 'o registry \<times> i64" where
  "array_new esize requested strs r =
     (if esize \<le> 0 then (r, NULL)
      else insert_handle (HArray (array_data_new (nat esize) (initial_capacity requested) (strs \<noteq> 0))) r)"

definition with_array :: "i64 \<Rightarrow> (array_data \<Rightarrow> 'r) \<Rightarrow> 'o registry \<Rightarrow> 'r option" where
  "with_array hid f r = (if hid = NULL then None else map_option f (array_at r hid))"

definition array_set_string_elements :: "i64 \<Rightarrow> int \<Rightarrow> 'o registry \<Rightarrow> 'o registry" where
  "array_set_string_elements hid strs r =
     fst (borrow_mut hid (\<lambda>h. case h of
            HArray arr \<Rightarrow> (HArray (arr\<lparr>string_elements := (strs \<noteq> 0)\<rparr>), ())
          | _ \<Rightarrow> (h, ())) r)"

definition array_len :: "i64 \<Rightarrow> 'o registry \<Rightarrow> i64" where
  "array_len hid r = (case with_array hid (\<lambda>a. int (length (elements a))) r of Some n \<Rightarrow> n | None \<Rightarrow> 0)"

definition array_get :: "i64 \<Rightarrow> i64 \<Rightarrow> 'o registry \<Rightarrow> i64 option" where
  "array_get hid index r =
     (if index < 0 then None
      else Option.bind (with_array hid (\<lambda>a. array_data_get a (nat index)) r) (\<lambda>x. x))"

definition array_to_vec :: "i64 \<Rightarrow> 'o registry \<Rightarrow> i64 list" where
  "array_to_vec hid r = (case with_array hid elements r of Some xs \<Rightarrow> xs | None \<Rightarrow> [])"

definition is_array :: "i64 \<Rightarrow> 'o registry \<Rightarrow> bool" where
  "is_array hid r = (case with_array hid (\<lambda>_. True) r of Some b \<Rightarrow> b | None \<Rightarrow> False)"

definition put_array :: "array_data \<Rightarrow> 'o registry \<Rightarrow> 'o registry \<times> i64" where
  "put_array data r = insert_handle (HArray data) r"

definition array_write_elements :: "i64 \<Rightarrow> i64 list \<Rightarrow> 'o registry \<Rightarrow> 'o registry \<times> bool" where
  "array_write_elements hid es r =
     (let (r1, x) = borrow_mut hid (\<lambda>h. case h of
            HArray a \<Rightarrow> (HArray (a\<lparr>elements := es\<rparr>), True)
          | _ \<Rightarrow> (h, False)) r
      in (r1, case x of Some b \<Rightarrow> b | None \<Rightarrow> False))"

section \<open>Updates in place\<close>

text \<open>The value stored for an element: a fresh copy of the string for a string array (\<open>None\<close> when
  the element is not a string), the bits themselves otherwise.\<close>

definition stored_element :: "bool \<Rightarrow> i64 \<Rightarrow> 'o registry \<Rightarrow> 'o registry \<times> i64 option" where
  "stored_element strs elem r =
     (if strs
      then (case string_at r elem of
              Some text \<Rightarrow> (let (r1, i) = insert_handle (HString text) r in (r1, Some i))
            | None \<Rightarrow> (r, None))
      else (r, Some elem))"

definition array_push :: "i64 \<Rightarrow> i64 \<Rightarrow> 'o registry \<Rightarrow> 'o registry \<times> bool" where
  "array_push hid elem r =
     (case array_at r hid of
        None \<Rightarrow> (r, False)
      | Some arr \<Rightarrow>
          (case stored_element (string_elements arr) elem r of
             (r1, None) \<Rightarrow> (r1, False)
           | (r1, Some value) \<Rightarrow>
               (case array_at r1 hid of
                  None \<Rightarrow> (r1, False)
                | Some arr1 \<Rightarrow> (reg_put hid (HArray (arr1\<lparr>elements := elements arr1 @ [value]\<rparr>)) r1, True))))"

definition array_set :: "i64 \<Rightarrow> i64 \<Rightarrow> i64 \<Rightarrow> 'o registry \<Rightarrow> 'o registry \<times> bool" where
  "array_set hid index elem r =
     (if hid = NULL \<or> index < 0 then (r, False)
      else (case array_at r hid of
        None \<Rightarrow> (r, False)
      | Some arr \<Rightarrow>
          (case stored_element (string_elements arr) elem r of
             (r1, None) \<Rightarrow> (r1, False)
           | (r1, Some value) \<Rightarrow>
               (case array_at r1 hid of
                  None \<Rightarrow> (r1, False)
                | Some arr1 \<Rightarrow>
                    if length (elements arr1) \<le> nat index then (r1, False)
                    else (let old = elements arr1 ! nat index;
                              r2 = reg_put hid (HArray (arr1\<lparr>elements := (elements arr1)[nat index := value]\<rparr>)) r1
                          in if string_elements arr then (fst (take_string old r2), True) else (r2, True))))))"

fun take_strings :: "i64 list \<Rightarrow> 'o registry \<Rightarrow> 'o registry" where
  "take_strings [] r = r"
| "take_strings (h # hs) r = take_strings hs (fst (take_string h r))"

definition array_drop :: "i64 \<Rightarrow> 'o registry \<Rightarrow> 'o registry" where
  "array_drop hid r =
     (if hid = NULL then r
      else if array_at r hid = None then r
      else (case remove_handle hid r of
              (r1, Some (HArray data)) \<Rightarrow> if string_elements data then take_strings (elements data) r1 else r1
            | (r1, _) \<Rightarrow> r1))"

definition array_pop :: "i64 \<Rightarrow> 'o registry \<Rightarrow> 'o registry \<times> i64 option" where
  "array_pop hid r =
     (if hid = NULL then (r, None)
      else (case array_at r hid of
              None \<Rightarrow> (r, None)
            | Some arr \<Rightarrow>
                if elements arr = [] then (r, None)
                else (reg_put hid (HArray (arr\<lparr>elements := butlast (elements arr)\<rparr>)) r,
                      Some (last (elements arr)))))"

section \<open>New arrays\<close>

fun copy_with ::
    "(i64 \<Rightarrow> 'o registry \<Rightarrow> 'o registry \<times> i64) \<Rightarrow> i64 list \<Rightarrow> 'o registry \<Rightarrow> 'o registry \<times> i64 list" where
  "copy_with f [] r = (r, [])"
| "copy_with f (e # es) r =
     (let (r1, c) = f e r; (r2, cs) = copy_with f es r1 in (r2, c # cs))"

definition copy_string :: "i64 \<Rightarrow> 'o registry \<Rightarrow> 'o registry \<times> i64" where
  "copy_string elem r =
     (let (r1, x) = clone_string elem r in (r1, case x of Some i \<Rightarrow> i | None \<Rightarrow> NULL))"

definition copy_element :: "bool \<Rightarrow> i64 \<Rightarrow> 'o registry \<Rightarrow> 'o registry \<times> i64" where
  "copy_element strs elem r = (if strs then copy_string elem r else (r, elem))"

text \<open>The body shared by the copying operations: copy the given elements into a fresh array of
  the same representation.\<close>

definition build_array ::
    "(i64 \<Rightarrow> 'o registry \<Rightarrow> 'o registry \<times> i64) \<Rightarrow> usize \<Rightarrow> bool \<Rightarrow> i64 list \<Rightarrow> 'o registry \<Rightarrow> 'o registry \<times> i64" where
  "build_array f esize strs es r =
     (let (r1, cs) = copy_with f es r
      in put_array \<lparr>elem_size = esize, string_elements = strs, elements = cs\<rparr> r1)"

text \<open>Deep copy, recursing into nested arrays up to the given number of levels.\<close>

primrec array_clone_levels :: "nat \<Rightarrow> i64 \<Rightarrow> 'o registry \<Rightarrow> 'o registry \<times> i64" where
  "array_clone_levels 0 hid r =
     (if hid = NULL then (r, NULL)
      else (case array_at r hid of
              None \<Rightarrow> (r, NULL)
            | Some src \<Rightarrow>
                build_array (copy_element (string_elements src)) (elem_size src) (string_elements src) (elements src) r))"
| "array_clone_levels (Suc n) hid r =
     (if hid = NULL then (r, NULL)
      else (case array_at r hid of
              None \<Rightarrow> (r, NULL)
            | Some src \<Rightarrow>
                build_array
                  (\<lambda>elem r. if string_elements src then copy_string elem r
                            else if elem_size src = PTR_SIZE
                            then if is_array elem r then array_clone_levels n elem r else (r, elem)
                            else (r, elem))
                  (elem_size src) (string_elements src) (elements src) r))"

definition array_clone :: "i64 \<Rightarrow> i64 \<Rightarrow> 'o registry \<Rightarrow> 'o registry \<times> i64" where
  "array_clone hid levels r = array_clone_levels (nat levels) hid r"

definition array_fill :: "i64 \<Rightarrow> i64 \<Rightarrow> i64 \<Rightarrow> int \<Rightarrow> 'o registry \<Rightarrow> 'o registry \<times> i64" where
  "array_fill val cnt esize strs r =
     (if cnt < 0 \<or> esize \<le> 0 then (r, NULL)
      else build_array (copy_element (strs \<noteq> 0)) (nat esize) (strs \<noteq> 0) (replicate (nat cnt) val) r)"

definition array_range :: "i64 \<Rightarrow> i64 \<Rightarrow> 'o registry \<Rightarrow> 'o registry \<times> i64" where
  "array_range start stop r =
     put_array \<lparr>elem_size = PTR_SIZE, string_elements = False, elements = [start..stop - 1]\<rparr> r"

definition array_slice :: "i64 \<Rightarrow> i64 \<Rightarrow> i64 \<Rightarrow> 'o registry \<Rightarrow> 'o registry \<times> i64" where
  "array_slice hid start stop r =
     (if hid = NULL then (r, NULL)
      else (case array_at r hid of
              None \<Rightarrow> (r, NULL)
            | Some arr \<Rightarrow>
                (let len = length (elements arr);
                     s = nat (min (max start 0) (int len));
                     e = (if stop < 0 then len else nat (max (min stop (int len)) 0));
                     range_start = min s e
                 in build_array (copy_element (string_elements arr)) (elem_size arr) (string_elements arr)
                      (take (e - range_start) (drop range_start (elements arr))) r)))"

definition array_reverse :: "i64 \<Rightarrow> 'o registry \<Rightarrow> 'o registry \<times> i64" where
  "array_reverse hid r =
     (if hid = NULL then (r, NULL)
      else (case array_at r hid of
              None \<Rightarrow> (r, NULL)
            | Some arr \<Rightarrow>
                build_array (copy_element (string_elements arr)) (elem_size arr) (string_elements arr)
                  (rev (elements arr)) r))"

definition array_clear :: "i64 \<Rightarrow> 'o registry \<Rightarrow> 'o registry \<times> i64" where
  "array_clear hid r =
     (if hid = NULL then (r, NULL)
      else (case array_at r hid of
              None \<Rightarrow> (r, NULL)
            | Some arr \<Rightarrow> put_array (array_data_new (elem_size arr) 1 (string_elements arr)) r))"

text \<open>The loop of \<open>array_remove_at\<close> copies every element but the one at the given index.\<close>

definition elements_except :: "int \<Rightarrow> i64 list \<Rightarrow> i64 list" where
  "elements_except idx es = map snd (filter (\<lambda>p. int (fst p) \<noteq> idx) (enumerate 0 es))"

definition array_remove_at :: "i64 \<Rightarrow> i64 \<Rightarrow> 'o registry \<Rightarrow> 'o registry \<times> i64" where
  "array_remove_at hid index r =
     (if hid = NULL then (r, NULL)
      else (case array_at r hid of
              None \<Rightarrow> (r, NULL)
            | Some arr \<Rightarrow>
                (let len = int (length (elements arr));
                     idx = (if index < 0 then len + index else index)
                 in build_array (copy_element (string_elements arr)) (elem_size arr) (string_elements arr)
                      (elements_except idx (elements arr)) r)))"


section \<open>Shuffling and sorting\<close>

definition swap_elements :: "nat \<Rightarrow> nat \<Rightarrow> 'a list \<Rightarrow> 'a list" where
  "swap_elements i j xs = xs[i := xs ! j, j := xs ! i]"

fun shuffle_loop :: "u8 list \<Rightarrow> nat \<Rightarrow> i64 list \<Rightarrow> i64 list" where
  "shuffle_loop random_bytes 0 es = es"
| "shuffle_loop random_bytes (Suc k) es =
     (let i = Suc k;
          j = (if i * 4 < length random_bytes then unat (random_bytes ! (i * 4)) mod (i + 1) else i div 2)
      in shuffle_loop random_bytes k (if i \<noteq> j then swap_elements i j es else es))"

definition array_shuffle :: "u8 list \<Rightarrow> i64 \<Rightarrow> 'o registry \<Rightarrow> 'o registry \<times> i64" where
  "array_shuffle random_bytes hid r =
     (let (r1, cloned) = array_clone hid 0 r
      in if cloned = NULL then (r1, NULL)
         else (case array_at r1 cloned of
                 None \<Rightarrow> (r1, NULL)
               | Some arr \<Rightarrow>
                   if length (elements arr) \<le> 1 then (r1, cloned)
                   else (reg_put cloned
                           (HArray (arr\<lparr>elements := shuffle_loop random_bytes (length (elements arr) - 1) (elements arr)\<rparr>)) r1,
                         cloned)))"

text \<open>Comparison of \<open>f64\<close> values given by their bits: false when either is a NaN, otherwise the
  order of the sign and magnitude, with both zeros equal.\<close>

definition f64_bits :: "i64 \<Rightarrow> int" where
  "f64_bits a = a mod 2 ^ 64"

definition f64_is_nan :: "i64 \<Rightarrow> bool" where
  "f64_is_nan a \<longleftrightarrow> 2047 * 2 ^ 52 < f64_bits a mod 2 ^ 63"

definition f64_key :: "i64 \<Rightarrow> int" where
  "f64_key a = (if 2 ^ 63 \<le> f64_bits a then - (f64_bits a mod 2 ^ 63) else f64_bits a mod 2 ^ 63)"

definition f64_gt :: "i64 \<Rightarrow> i64 \<Rightarrow> bool" where
  "f64_gt a b \<longleftrightarrow> \<not> f64_is_nan a \<and> \<not> f64_is_nan b \<and> f64_key b < f64_key a"

text \<open>The order of \<open>str\<close>: lexicographic on bytes.\<close>

fun str_less :: "string \<Rightarrow> string \<Rightarrow> bool" where
  "str_less _ [] = False"
| "str_less [] (_ # _) = True"
| "str_less (x # xs) (y # ys) =
     ((of_char x :: nat) < of_char y \<or> x = y \<and> str_less xs ys)"

text \<open>The test of the inner loop, comparing positions \<open>j - 1\<close> and \<open>j\<close>. The texts were read before
  the sort began and are indexed by position.\<close>

definition sort_less :: "int \<Rightarrow> string option list option \<Rightarrow> i64 list \<Rightarrow> nat \<Rightarrow> bool" where
  "sort_less mode strings es j =
     (let a = es ! (j - 1); b = es ! j
      in if mode = 1 then f64_gt a b
         else if mode = 2
         then (case strings of
                 Some ts \<Rightarrow>
                   str_less (case ts ! j of Some t \<Rightarrow> t | None \<Rightarrow> [])
                            (case ts ! (j - 1) of Some t \<Rightarrow> t | None \<Rightarrow> [])
               | None \<Rightarrow> b < a)
         else b < a)"

fun sift_down :: "(i64 list \<Rightarrow> nat \<Rightarrow> bool) \<Rightarrow> nat \<Rightarrow> i64 list \<Rightarrow> i64 list" where
  "sift_down gt 0 es = es"
| "sift_down gt (Suc j) es =
     (if gt es (Suc j) then sift_down gt j (swap_elements j (Suc j) es) else es)"

definition sort_loop :: "(i64 list \<Rightarrow> nat \<Rightarrow> bool) \<Rightarrow> i64 list \<Rightarrow> i64 list" where
  "sort_loop gt es = fold (sift_down gt) [1..<length es] es"

definition array_sort :: "i64 \<Rightarrow> int \<Rightarrow> 'o registry \<Rightarrow> 'o registry \<times> i64" where
  "array_sort hid mode r =
     (let (r1, cloned) = array_clone hid 0 r
      in if cloned = NULL then (r1, NULL)
         else (case array_at r1 cloned of
                 None \<Rightarrow> (r1, NULL)
               | Some arr \<Rightarrow>
                   (let strings = (if string_elements arr then Some (map (string_at r1) (elements arr)) else None)
                    in (reg_put cloned (HArray (arr\<lparr>elements := sort_loop (sort_less mode strings) (elements arr)\<rparr>)) r1,
                        cloned))))"

section \<open>Lookup of arrays\<close>

lemma array_at_iff: "array_at r i = Some a \<longleftrightarrow> reg_get r i = Some (HArray a)"
  by (auto simp: array_at_def split: option.splits handle.splits)

lemma array_at_put [simp]:
  "array_at (reg_put i h r) j = (if j = i then (case h of HArray a \<Rightarrow> Some a | _ \<Rightarrow> None) else array_at r j)"
  by (simp add: array_at_def split: handle.splits)

lemma array_at_del [simp]: "array_at (reg_del i r) j = (if j = i then None else array_at r j)"
  by (simp add: array_at_def)

lemma array_at_fields [simp]:
  "array_at (r\<lparr>live := b\<rparr>) = array_at r"
  "array_at (r\<lparr>next_id_ctr := a\<rparr>) = array_at r"
  "array_at (r\<lparr>registry_gen := g\<rparr>) = array_at r"
  by (simp_all add: fun_eq_iff array_at_def)

lemma array_at_insert [simp]:
  "array_at (fst (insert_handle h r)) j =
     (if j = next_id_ctr r then (case h of HArray a \<Rightarrow> Some a | _ \<Rightarrow> None) else array_at r j)"
  by (simp add: insert_handle_eq)

lemma array_at_grows: "reg_grows r r' \<Longrightarrow> reg_inv r \<Longrightarrow> array_at r i = Some a \<Longrightarrow> array_at r' i = Some a"
  by (simp add: array_at_iff reg_grows_get)

lemma array_at_not_null: "reg_inv r \<Longrightarrow> array_at r i = Some a \<Longrightarrow> i \<noteq> NULL"
  using reg_inv_get_null [of r] by (auto simp: array_at_iff)

lemma array_at_range: "reg_inv r \<Longrightarrow> array_at r i = Some a \<Longrightarrow> 1 \<le> i \<and> i < next_id_ctr r"
  using reg_invD(2) [of r] by (force simp: array_at_iff ids_inv_def dom_def)

lemma string_not_array: "string_at r i = Some s \<Longrightarrow> array_at r i = None"
  by (simp add: string_at_iff array_at_def)

section \<open>The copying loop\<close>

text \<open>A copier adds entries at most: it keeps the invariant and the entries registered before.\<close>

definition copier :: "(i64 \<Rightarrow> 'o registry \<Rightarrow> 'o registry \<times> i64) \<Rightarrow> bool" where
  "copier f \<longleftrightarrow> (\<forall>e r. reg_inv r \<longrightarrow> reg_inv (fst (f e r)) \<and> reg_grows r (fst (f e r)))"

lemma copy_with_grows:
  "copier f \<Longrightarrow> reg_inv r \<Longrightarrow> reg_inv (fst (copy_with f es r)) \<and> reg_grows r (fst (copy_with f es r))"
proof (induction es arbitrary: r)
  case Nil
  then show ?case by simp
next
  case (Cons e es)
  let ?r1 = "fst (f e r)"
  have r1: "reg_inv ?r1" "reg_grows r ?r1" using Cons.prems by (simp_all add: copier_def)
  from Cons.IH [OF Cons.prems(1) r1(1)] have "reg_inv (fst (copy_with f es ?r1))"
      "reg_grows ?r1 (fst (copy_with f es ?r1))" by simp_all
  with r1(2) reg_grows_trans show ?case
    by (auto simp: split_beta Let_def)
qed

lemma build_array_grows:
  assumes "copier f" "reg_inv r"
  shows "reg_inv (fst (build_array f esize strs es r)) \<and> reg_grows r (fst (build_array f esize strs es r))"
proof -
  note g = copy_with_grows [OF assms, of es]
  then have "reg_grows r (fst (insert_handle (HArray a) (fst (copy_with f es r))))" for a
    using reg_grows_trans reg_grows_insert by blast
  with g show ?thesis
    by (simp add: build_array_def put_array_def split_beta Let_def insert_handle_inv)
qed

lemma copy_string_eq:
  "copy_string e r =
     (if e \<noteq> NULL \<and> string_at r e \<noteq> None
      then (fst (insert_handle (HString (the (string_at r e))) r), next_id_ctr r) else (r, NULL))"
  using clone_string_cases [of e r] by (auto simp: copy_string_def)

lemma copy_string_grows [simp]:
  "reg_inv r \<Longrightarrow> reg_inv (fst (copy_string e r))"
  "reg_inv r \<Longrightarrow> reg_grows r (fst (copy_string e r))"
  by (simp_all add: copy_string_eq insert_handle_inv reg_grows_insert)

lemma copier_element: "copier (copy_element strs)"
  by (simp add: copier_def copy_element_def)

lemma array_clone_levels_grows: "copier (array_clone_levels n :: i64 \<Rightarrow> 'o registry \<Rightarrow> 'o registry \<times> i64)"
proof (induction n)
  case 0
  show ?case
    unfolding copier_def by (auto simp: build_array_grows [OF copier_element] split: option.splits)
next
  case (Suc n)
  have "copier (\<lambda>elem (r :: 'o registry). if strs then copy_string elem r
      else if p then if is_array elem r then array_clone_levels n elem r else (r, elem) else (r, elem))"
    for strs p
    using Suc by (auto simp: copier_def)
  from build_array_grows [OF this] show ?case
    unfolding copier_def by (auto split: option.splits)
qed


section \<open>Insertion sort by adjacent swaps\<close>

lemma length_swap [simp]: "length (swap_elements i j xs) = length xs"
  by (simp add: swap_elements_def)

lemma mset_swap_elements: "i < length xs \<Longrightarrow> j < length xs \<Longrightarrow> mset (swap_elements i j xs) = mset xs"
  by (simp add: swap_elements_def mset_swap)

lemma swap_adjacent: "swap_elements (length xs) (Suc (length xs)) (xs @ a # b # ys) = xs @ b # a # ys"
  by (simp add: swap_elements_def nth_append list_update_append)

lemma mset_sift_down: "j < length es \<Longrightarrow> mset (sift_down gt j es) = mset es"
  by (induction gt j es rule: sift_down.induct) (simp_all add: mset_swap_elements)

lemma length_sift_down [simp]: "length (sift_down gt j es) = length es"
  by (induction gt j es rule: sift_down.induct) simp_all

lemma length_fold_sift [simp]: "length (fold (sift_down gt) js es) = length es"
  by (induction js arbitrary: es) simp_all

lemma mset_fold_sift: "\<forall>j \<in> set js. j < length es \<Longrightarrow> mset (fold (sift_down gt) js es) = mset es"
  by (induction js arbitrary: es) (simp_all add: mset_sift_down)

lemma mset_sort_loop: "mset (sort_loop gt es) = mset es"
  by (simp add: sort_loop_def mset_fold_sift)

lemma length_sort_loop [simp]: "length (sort_loop gt es) = length es"
  by (simp add: sort_loop_def)

text \<open>Insertion into a list that is sorted downwards: the front of the array read backwards.\<close>

fun insert_down :: "('a \<Rightarrow> 'b :: linorder) \<Rightarrow> 'a \<Rightarrow> 'a list \<Rightarrow> 'a list" where
  "insert_down k x [] = [x]"
| "insert_down k x (z # zs) = (if k x < k z then z # insert_down k x zs else x # z # zs)"

lemma set_insert_down: "set (insert_down k x zs) = insert x (set zs)"
  by (induction zs) auto

lemma sorted_insert_down:
  "sorted_wrt (\<lambda>a b. k b \<le> k a) zs \<Longrightarrow> sorted_wrt (\<lambda>a b. k b \<le> k a) (insert_down k x zs)"
  by (induction zs) (auto simp: set_insert_down)

lemma sift_down_insert:
  assumes gt: "\<And>es j. gt es j \<longleftrightarrow> k (es ! j) < k (es ! (j - 1))"
  shows "sift_down gt (length xs) (xs @ x # ys) = rev (insert_down k x (rev xs)) @ ys"
proof (induction xs arbitrary: ys rule: rev_induct)
  case Nil
  then show ?case by simp
next
  case (snoc z zs)
  have "sift_down gt (Suc (length zs)) (zs @ z # x # ys) =
      (if k x < k z then sift_down gt (length zs) (zs @ x # z # ys) else zs @ z # x # ys)"
    by (simp add: gt swap_adjacent nth_append)
  then show ?case using snoc [of "z # ys"] by simp
qed

lemma sorted_wrt_rev_key: "sorted_wrt (\<lambda>a b. k b \<le> k a) (rev xs) \<longleftrightarrow> sorted (map k xs)"
  by (simp add: sorted_wrt_rev sorted_map)

lemma sorted_fold_sift:
  assumes gt: "\<And>es j. gt es j \<longleftrightarrow> k (es ! j) < k (es ! (j - 1))"
  shows "n \<le> length es \<Longrightarrow> sorted (map k (take n (fold (sift_down gt) [1..<n] es)))"
proof (induction n)
  case 0
  then show ?case by simp
next
  case (Suc n)
  define fs where "fs = fold (sift_down gt) [1..<n] es"
  have len: "length fs = length es" using Suc.prems by (simp add: fs_def)
  have s: "sorted (map k (take n fs))" using Suc by (simp add: fs_def)
  have split: "fs = take n fs @ fs ! n # drop (Suc n) fs"
    using Suc.prems len by (simp add: id_take_nth_drop)
  have "sift_down gt n fs = rev (insert_down k (fs ! n) (rev (take n fs))) @ drop (Suc n) fs"
    using sift_down_insert [OF gt, of "take n fs" "fs ! n" "drop (Suc n) fs"] Suc.prems len split
    by (simp add: min_def)
  moreover have "length (insert_down k x zs) = Suc (length zs)" for x zs
    by (induction zs) auto
  ultimately have "take (Suc n) (sift_down gt n fs) = rev (insert_down k (fs ! n) (rev (take n fs)))"
    using Suc.prems len by simp
  moreover have "sorted (map k (rev (insert_down k (fs ! n) (rev (take n fs)))))"
    using sorted_insert_down [of k "rev (take n fs)" "fs ! n"] s
    by (metis rev_rev_ident sorted_wrt_rev_key)
  moreover have "fold (sift_down gt) [1..<Suc n] es = (if n = 0 then es else sift_down gt n fs)"
    by (simp add: fs_def)
  ultimately show ?case by (cases "n = 0"; cases es) auto
qed

lemma sorted_sort_loop:
  assumes "\<And>es j. gt es j \<longleftrightarrow> k (es ! j) < k (es ! (j - 1))"
  shows "sorted (map k (sort_loop gt es))"
  using sorted_fold_sift [OF assms, of "length es" es]
  by (simp add: sort_loop_def)

lemma length_shuffle_loop [simp]: "length (shuffle_loop rb k es) = length es"
  by (induction rb k es rule: shuffle_loop.induct) (simp_all add: Let_def)

lemma mset_shuffle_loop: "k < length es \<Longrightarrow> mset (shuffle_loop rb k es) = mset es"
proof (induction rb k es rule: shuffle_loop.induct)
  case (1 rb es)
  then show ?case by simp
next
  case (2 rb k es)
  have "(if Suc k * 4 < length rb then unat (rb ! (Suc k * 4)) mod (Suc k + 1) else Suc k div 2) < length es"
    using "2.prems" by (auto intro: le_less_trans [OF mod_less_divisor [THEN less_Suc_eq_le [THEN iffD1]]])
  with 2 show ?case by (simp add: Let_def mset_swap_elements del: mult_Suc)
qed

section \<open>The operations keep the registry invariant\<close>

lemma array_replace_inv: "reg_inv r \<Longrightarrow> array_at r i = Some a \<Longrightarrow> reg_inv (reg_put i (HArray b) r)"
  by (rule reg_inv_replace) (auto simp: array_at_iff)

lemma stored_element_inv: "stored_element strs e r = (r1, x) \<Longrightarrow> reg_inv r \<Longrightarrow> reg_inv r1"
  by (auto simp: stored_element_def split_beta insert_handle_inv split: option.splits if_splits)

lemma array_new_inv [reg_inv]: "reg_inv r \<Longrightarrow> reg_inv (fst (array_new es c st r))"
  by (simp add: array_new_def insert_handle_inv)

lemma array_set_string_elements_inv [reg_inv]:
  "reg_inv r \<Longrightarrow> reg_inv (array_set_string_elements i st r)"
  by (auto simp: array_set_string_elements_def borrow_mut_def reg_put_same array_at_iff
      intro: array_replace_inv split: option.splits handle.splits)

lemma array_write_elements_inv [reg_inv]: "reg_inv r \<Longrightarrow> reg_inv (fst (array_write_elements i es r))"
  by (auto simp: array_write_elements_def borrow_mut_def reg_put_same array_at_iff split_beta
      intro: array_replace_inv split: option.splits handle.splits)

lemma array_push_inv [reg_inv]: "reg_inv r \<Longrightarrow> reg_inv (fst (array_push i e r))"
  by (auto simp: array_push_def dest: stored_element_inv intro: array_replace_inv split: option.splits prod.splits)

lemma array_set_inv [reg_inv]: "reg_inv r \<Longrightarrow> reg_inv (fst (array_set i k e r))"
  by (auto simp: array_set_def Let_def dest: stored_element_inv intro!: take_string_inv array_replace_inv
      split: option.splits prod.splits)

lemma take_strings_inv [reg_inv]: "reg_inv r \<Longrightarrow> reg_inv (take_strings hs r)"
  by (induction hs arbitrary: r) (simp_all add: take_string_inv)

lemma array_drop_inv [reg_inv]: "reg_inv r \<Longrightarrow> reg_inv (array_drop i r)"
  using remove_handle_inv [of r i]
  by (auto simp: array_drop_def take_strings_inv split: prod.splits option.splits handle.splits)

lemma array_pop_inv [reg_inv]: "reg_inv r \<Longrightarrow> reg_inv (fst (array_pop i r))"
  by (auto simp: array_pop_def intro: array_replace_inv split: option.splits)

lemma array_clone_inv [reg_inv]: "reg_inv r \<Longrightarrow> reg_inv (fst (array_clone i levels (r :: 'o registry)))"
  using array_clone_levels_grows [of "nat levels", where ?'o = 'o] by (simp add: array_clone_def copier_def)

lemma build_array_inv: "reg_inv r \<Longrightarrow> reg_inv (fst (build_array (copy_element strs) esize strs es r))"
  using build_array_grows [OF copier_element] by blast

lemma array_build_inv [reg_inv]:
  assumes "reg_inv r"
  shows "reg_inv (fst (array_fill v n esize st r))" "reg_inv (fst (array_range a b r))"
    "reg_inv (fst (array_slice i a b r))" "reg_inv (fst (array_reverse i r))"
    "reg_inv (fst (array_clear i r))" "reg_inv (fst (array_remove_at i a r))"
  using assms
  by (simp_all add: array_fill_def array_range_def array_slice_def array_reverse_def array_clear_def
      array_remove_at_def put_array_def Let_def insert_handle_inv build_array_inv split: option.split)

lemma array_permute_inv [reg_inv]:
  assumes "reg_inv r"
  shows "reg_inv (fst (array_sort i mode r))" "reg_inv (fst (array_shuffle rb i r))"
  using array_clone_inv [OF assms, of i 0]
  by (auto simp: array_sort_def array_shuffle_def split_beta Let_def intro: array_replace_inv split: option.split)

end
