(* ===== verification/Registry_Array_Spec.thy ===== *)
theory Registry_Array_Spec
  imports Registry_Arrays
begin

text \<open>
  What the array operations of the registry promise. \<open>array_view\<close> abstracts from handles: the
  elements of an array as raw values or as the texts of the strings it owns. Each operation is
  shown to act on that view like a list operation, to hand out a fresh handle when it builds a
  new array, and to leave its source as it was.
\<close>

section \<open>The view of an array\<close>

datatype element_view = Raw i64 | Text "string option"

definition elem_view :: "'o registry \<Rightarrow> bool \<Rightarrow> i64 \<Rightarrow> element_view" where
  "elem_view r strs e = (if strs then Text (string_at r e) else Raw e)"

definition array_view :: "'o registry \<Rightarrow> i64 \<Rightarrow> (usize \<times> bool \<times> element_view list) option" where
  "array_view r hid =
     map_option (\<lambda>a. (elem_size a, string_elements a, map (elem_view r (string_elements a)) (elements a)))
       (array_at r hid)"

text \<open>The elements of a string array are ids that have been handed out.\<close>

definition elements_ok :: "'o registry \<Rightarrow> i64 \<Rightarrow> bool" where
  "elements_ok r hid \<longleftrightarrow>
     (\<forall>a. array_at r hid = Some a \<longrightarrow> string_elements a \<longrightarrow> (\<forall>e \<in> set (elements a). e < next_id_ctr r))"

lemma elem_view_raw [simp]: "elem_view r False = Raw"
  by (simp add: fun_eq_iff elem_view_def)

lemma elem_view_grows:
  "reg_grows r r' \<Longrightarrow> (strs \<Longrightarrow> e < next_id_ctr r) \<Longrightarrow> elem_view r' strs e = elem_view r strs e"
  by (auto simp: elem_view_def reg_grows_def string_at_def)

lemma elem_view_grows_id:
  "reg_grows r r' \<Longrightarrow> reg_inv r \<Longrightarrow> (strs \<Longrightarrow> 0 \<le> e \<and> e < next_id_ctr r) \<Longrightarrow> elem_view r' strs e = elem_view r strs e"
  by (rule elem_view_grows) auto

lemma array_view_grows:
  assumes "reg_grows r r'" "reg_inv r" "elements_ok r i" "array_at r i = Some a"
  shows "array_view r' i = array_view r i"
proof -
  have "array_at r' i = Some a" using assms by (simp add: array_at_grows)
  moreover have "elem_view r' (string_elements a) e = elem_view r (string_elements a) e"
    if "e \<in> set (elements a)" for e
    using assms that by (intro elem_view_grows) (auto simp: elements_ok_def)
  ultimately show ?thesis using assms(4) by (simp add: array_view_def)
qed

lemma copy_element_view:
  assumes inv: "reg_inv r" and c: "copy_element strs e r = (r1, c)"
  shows "elem_view r1 strs c = elem_view r strs e" and "strs \<Longrightarrow> c < next_id_ctr r1"
proof -
  have "1 \<le> next_id_ctr r" using reg_invD(2) [OF inv] by (simp add: ids_inv_def)
  moreover have "string_at r e = None" if "e = NULL" using string_at_null [OF inv] that by simp
  ultimately show "elem_view r1 strs c = elem_view r strs e" and "strs \<Longrightarrow> c < next_id_ctr r1"
    using c string_at_null [OF inv]
    by (auto simp: copy_element_def copy_string_eq elem_view_def NULL_def split: if_splits)
qed

lemma copy_with_view:
  "reg_inv r \<Longrightarrow> (strs \<Longrightarrow> \<forall>e \<in> set es. e < next_id_ctr r) \<Longrightarrow>
   copy_with (copy_element strs) es r = (r', cs) \<Longrightarrow>
   map (elem_view r' strs) cs = map (elem_view r strs) es \<and> (strs \<longrightarrow> (\<forall>c \<in> set cs. c < next_id_ctr r'))"
proof (induction es arbitrary: r r' cs)
  case Nil
  then show ?case by simp
next
  case (Cons e es)
  obtain r1 c where c: "copy_element strs e r = (r1, c)" by fastforce
  obtain r2 ds where d: "copy_with (copy_element strs) es r1 = (r2, ds)" by fastforce
  have eqs: "r' = r2" "cs = c # ds" using Cons.prems(3) c d by auto
  have g1: "reg_inv r1" "reg_grows r r1"
    using copier_element [of strs] Cons.prems(1) c unfolding copier_def by (metis fst_conv)+
  have g2: "reg_grows r1 r2"
    using copy_with_grows [OF copier_element [of strs] g1(1), of es] d by simp
  have le: "next_id_ctr r \<le> next_id_ctr r1" "next_id_ctr r1 \<le> next_id_ctr r2"
    using g1(2) g2 by (simp_all add: reg_grows_def)
  have IH: "map (elem_view r2 strs) ds = map (elem_view r1 strs) es"
      "strs \<longrightarrow> (\<forall>c \<in> set ds. c < next_id_ctr r2)"
    using Cons.IH [OF g1(1) _ d] Cons.prems(2) le(1) by fastforce+
  have "elem_view r1 strs x = elem_view r strs x" if "x \<in> set es" for x
    using that Cons.prems(2) g1(2) by (intro elem_view_grows) auto
  moreover have "elem_view r2 strs c = elem_view r strs e" "strs \<Longrightarrow> c < next_id_ctr r2"
    using copy_element_view [OF Cons.prems(1) c] elem_view_grows [OF g2, of strs c] le(2) by auto
  ultimately show ?case using IH eqs by simp
qed

lemma build_array_view:
  assumes inv: "reg_inv r" and ok: "strs \<Longrightarrow> \<forall>e \<in> set es. e < next_id_ctr r"
  obtains r' j where "build_array (copy_element strs) esize strs es r = (r', j)"
    "reg_inv r'" "reg_grows r r'" "next_id_ctr r \<le> j" "j \<noteq> NULL"
    "array_view r' j = Some (esize, strs, map (elem_view r strs) es)" "elements_ok r' j"
proof -
  obtain r1 cs where c: "copy_with (copy_element strs) es r = (r1, cs)" by fastforce
  let ?r' = "fst (insert_handle (HArray \<lparr>elem_size = esize, string_elements = strs, elements = cs\<rparr>) r1)"
  have b: "build_array (copy_element strs) esize strs es r = (?r', next_id_ctr r1)"
    by (simp add: build_array_def put_array_def c prod_eq_iff)
  have g: "reg_inv r1" "reg_grows r r1"
    using copy_with_grows [OF copier_element [of strs] inv, of es] c by simp_all
  have v: "map (elem_view r1 strs) cs = map (elem_view r strs) es" "strs \<longrightarrow> (\<forall>c \<in> set cs. c < next_id_ctr r1)"
    using copy_with_view [OF inv ok c] by simp_all
  have g2: "reg_grows r1 ?r'" by (rule reg_grows_insert [OF g(1)])
  have "map (elem_view ?r' strs) cs = map (elem_view r1 strs) cs"
    using v(2) g2 by (auto intro: elem_view_grows)
  then have view: "array_view ?r' (next_id_ctr r1) = Some (esize, strs, map (elem_view r strs) es)"
    by (simp add: array_view_def v(1))
  have pos: "1 \<le> next_id_ctr r" using reg_invD(2) [OF inv] by (simp add: ids_inv_def)
  have le: "next_id_ctr r \<le> next_id_ctr r1" using g(2) by (simp add: reg_grows_def)
  have ok': "elements_ok ?r' (next_id_ctr r1)" using v(2) by (auto simp: elements_ok_def)
  show ?thesis
    using that [OF b _ _ le _ view ok'] build_array_grows [OF copier_element [of strs] inv, of esize strs es] b pos le
    by (simp add: NULL_def)
qed

section \<open>Operations that build a new array\<close>

text \<open>
  The contract shared by the copying operations: from a registered array they build a fresh one
  whose view is a list function of the old view, and keep the old one.
\<close>

definition builds :: "(i64 \<Rightarrow> 'o registry \<Rightarrow> 'o registry \<times> i64) \<Rightarrow>
    (element_view list \<Rightarrow> element_view list) \<Rightarrow> i64 \<Rightarrow> 'o registry \<Rightarrow> bool" where
  "builds f g hid r \<longleftrightarrow>
     (\<exists>r' j esize strs vs. f hid r = (r', j) \<and> reg_inv r' \<and> reg_grows r r' \<and> reg_get r j = None \<and> j \<noteq> NULL \<and>
        array_view r hid = Some (esize, strs, vs) \<and> array_view r' hid = Some (esize, strs, vs) \<and>
        array_view r' j = Some (esize, strs, g vs) \<and> elements_ok r' j)"

lemma buildsI:
  assumes inv: "reg_inv r" and ok: "elements_ok r hid" and a: "array_at r hid = Some a"
    and f: "f hid r = build_array (copy_element (string_elements a)) (elem_size a) (string_elements a) (h (elements a)) r"
    and sub: "set (h (elements a)) \<subseteq> set (elements a)"
    and map: "map (elem_view r (string_elements a)) (h (elements a)) = g (map (elem_view r (string_elements a)) (elements a))"
  shows "builds f g hid r"
proof -
  have es: "string_elements a \<Longrightarrow> \<forall>e \<in> set (h (elements a)). e < next_id_ctr r"
    using ok a sub by (auto simp: elements_ok_def)
  obtain r' j where b: "build_array (copy_element (string_elements a)) (elem_size a) (string_elements a) (h (elements a)) r = (r', j)"
      "reg_inv r'" "reg_grows r r'" "next_id_ctr r \<le> j" "j \<noteq> NULL"
      "array_view r' j = Some (elem_size a, string_elements a, map (elem_view r (string_elements a)) (h (elements a)))"
      "elements_ok r' j"
    using build_array_view [OF inv es] by blast
  have "array_view r' hid = array_view r hid" by (rule array_view_grows [OF b(3) inv ok a])
  moreover have "reg_get r j = None" using reg_invD(2) [OF inv] b(4) by (rule fresh_id)
  ultimately show ?thesis
    unfolding builds_def using f b a map by (simp add: array_view_def)
qed

locale copying_operation =
  fixes f :: "i64 \<Rightarrow> 'o registry \<Rightarrow> 'o registry \<times> i64"
    and g :: "element_view list \<Rightarrow> element_view list"
  assumes copies: "reg_inv r \<Longrightarrow> elements_ok r hid \<Longrightarrow> array_at r hid = Some a \<Longrightarrow> builds f g hid r"
begin

lemma twice:
  assumes "reg_inv r" "elements_ok r hid" "array_at r hid = Some a"
  obtains r1 i r2 j where "f hid r = (r1, i)" "f i r1 = (r2, j)" "i \<noteq> j"
    "map_option (\<lambda>(s, b, vs). (s, b, g (g vs))) (array_view r hid) = array_view r2 j"
proof -
  from copies [OF assms] obtain r1 i s b vs where 1: "f hid r = (r1, i)" "reg_inv r1"
      "array_view r hid = Some (s, b, vs)" "array_view r1 i = Some (s, b, g vs)" "elements_ok r1 i"
    unfolding builds_def by blast
  then obtain a1 where a1: "array_at r1 i = Some a1" by (auto simp: array_view_def)
  from copies [OF 1(2) 1(5) a1] 1(4) obtain r2 j where "f i r1 = (r2, j)" "reg_get r1 j = None"
      "array_view r2 j = Some (s, b, g (g vs))"
    unfolding builds_def by auto
  moreover from this a1 have "i \<noteq> j" by (auto simp: array_at_iff)
  ultimately show ?thesis using that 1 by simp
qed

end

interpretation reverse: copying_operation array_reverse rev
proof
  fix r :: "'o registry" and hid a
  assume *: "reg_inv r" "elements_ok r hid" "array_at r hid = Some a"
  then show "builds array_reverse rev hid r"
    by (intro buildsI [where h = rev]) (auto simp: array_reverse_def array_at_not_null rev_map)
qed

lemma elements_except_eq:
  "elements_except idx es =
     (if 0 \<le> idx \<and> idx < int (length es) then take (nat idx) es @ drop (Suc (nat idx)) es else es)"
proof (induction es rule: rev_induct)
  case Nil
  then show ?case by (simp add: elements_except_def)
next
  case (snoc e es)
  have "elements_except idx (es @ [e]) = elements_except idx es @ (if int (length es) = idx then [] else [e])"
    by (simp add: elements_except_def enumerate_append_eq)
  then show ?case using snoc by (auto simp: nat_less_iff)
qed

interpretation clear: copying_operation array_clear "\<lambda>_. []"
proof
  fix r :: "'o registry" and hid a
  assume *: "reg_inv r" "elements_ok r hid" "array_at r hid = Some a"
  then show "builds array_clear (\<lambda>_. []) hid r"
    by (intro buildsI [where h = "\<lambda>_. []"])
      (auto simp: array_clear_def array_at_not_null build_array_def array_data_new_def)
qed

interpretation clone: copying_operation "\<lambda>hid. array_clone hid 0" "\<lambda>vs. vs"
proof
  fix r :: "'o registry" and hid a
  assume *: "reg_inv r" "elements_ok r hid" "array_at r hid = Some a"
  then show "builds (\<lambda>hid. array_clone hid 0) (\<lambda>vs. vs) hid r"
    by (intro buildsI [where h = "\<lambda>es. es"]) (auto simp: array_clone_def array_at_not_null)
qed

definition view_slice :: "i64 \<Rightarrow> i64 \<Rightarrow> 'a list \<Rightarrow> 'a list" where
  "view_slice start stop vs =
     (let s = nat start; e = (if stop < 0 then length vs else nat stop) in take (e - s) (drop s vs))"

definition view_remove_at :: "i64 \<Rightarrow> 'a list \<Rightarrow> 'a list" where
  "view_remove_at index vs =
     (let idx = (if index < 0 then int (length vs) + index else index)
      in if 0 \<le> idx \<and> idx < int (length vs) then take (nat idx) vs @ drop (Suc (nat idx)) vs else vs)"

lemma view_slice_eq:
  fixes es :: "'a list" and start stop :: i64
  defines "len \<equiv> length es"
  defines "s \<equiv> nat (min (max start 0) (int len))"
  defines "e \<equiv> (if stop < 0 then len else nat (max (min stop (int len)) 0))"
  shows "take (e - min s e) (drop (min s e) es) = view_slice start stop es"
proof -
  consider "s \<le> e" | "e < s" by linarith
  then show ?thesis
  proof cases
    case 1
    then show ?thesis
      unfolding view_slice_def Let_def e_def s_def len_def
      by (auto simp: min_def max_def nat_le_iff split: if_splits intro!: arg_cong2 [where f = take])
  next
    case 2
    then show ?thesis
      unfolding view_slice_def Let_def e_def s_def len_def
      by (auto simp: min_def max_def nat_le_iff split: if_splits)
  qed
qed


interpretation slice: copying_operation "\<lambda>hid. array_slice hid start stop" "view_slice start stop" for start stop
proof
  fix r :: "'o registry" and hid a
  assume *: "reg_inv r" "elements_ok r hid" "array_at r hid = Some a"
  show "builds (\<lambda>hid. array_slice hid start stop) (view_slice start stop) hid r"
  proof (rule buildsI [OF *, where h = "view_slice start stop"])
    show "array_slice hid start stop r = build_array (copy_element (string_elements a)) (elem_size a)
        (string_elements a) (view_slice start stop (elements a)) r"
      using * by (simp add: array_slice_def array_at_not_null view_slice_eq [symmetric] Let_def)
    show "set (view_slice start stop (elements a)) \<subseteq> set (elements a)"
      by (auto simp: view_slice_def Let_def dest!: in_set_takeD in_set_dropD)
    show "map (elem_view r (string_elements a)) (view_slice start stop (elements a)) =
        view_slice start stop (map (elem_view r (string_elements a)) (elements a))"
      by (simp add: view_slice_def Let_def take_map drop_map)
  qed
qed

interpretation remove_at: copying_operation "\<lambda>hid. array_remove_at hid index" "view_remove_at index" for index
proof
  fix r :: "'o registry" and hid a
  assume *: "reg_inv r" "elements_ok r hid" "array_at r hid = Some a"
  show "builds (\<lambda>hid. array_remove_at hid index) (view_remove_at index) hid r"
  proof (rule buildsI [OF *, where h = "view_remove_at index"])
    show "array_remove_at hid index r = build_array (copy_element (string_elements a)) (elem_size a)
        (string_elements a) (view_remove_at index (elements a)) r"
      using * by (simp add: array_remove_at_def array_at_not_null elements_except_eq view_remove_at_def Let_def)
    show "set (view_remove_at index (elements a)) \<subseteq> set (elements a)"
      by (auto simp: view_remove_at_def Let_def dest!: in_set_takeD in_set_dropD split: if_splits)
    show "map (elem_view r (string_elements a)) (view_remove_at index (elements a)) =
        view_remove_at index (map (elem_view r (string_elements a)) (elements a))"
      by (simp add: view_remove_at_def Let_def take_map drop_map)
  qed
qed

text \<open>A string array used by the witnesses: two strings pushed onto a fresh array.\<close>

definition demo_registry :: "nat registry" where
  "demo_registry =
     fst (insert_handle (HArray \<lparr>elem_size = 8, string_elements = True, elements = [1, 2]\<rparr>)
       (fst (insert_handle (HString ''b'') (fst (insert_handle (HString ''a'') reg_init)))))"

lemma demo_registry_inv: "reg_inv demo_registry"
  unfolding demo_registry_def by (intro insert_handle_inv reg_inv_init) simp_all

lemma next_id_ctr_init [simp]: "next_id_ctr reg_init = 1"
  by (simp add: reg_init_def)

lemma demo_registry_facts:
  "array_at demo_registry 3 = Some \<lparr>elem_size = 8, string_elements = True, elements = [1, 2]\<rparr>"
  "string_at demo_registry 1 = Some ''a''" "string_at demo_registry 2 = Some ''b''"
  "next_id_ctr demo_registry = 4" "live demo_registry = 3"
  by (simp_all add: demo_registry_def) (simp add: reg_init_def)

lemma demo_registry_ok: "elements_ok demo_registry 3"
  by (simp add: elements_ok_def demo_registry_facts)

section \<open>Properties\<close>




text \<open>Appending to an array either refuses and changes nothing, exactly when the array holds
  strings and the element is not a string handle, or appends the element (for a string array a
  fresh copy of its text) and leaves every other registered handle as it was.\<close>

theorem array_push_spec:
  assumes inv: "reg_inv r" and ok: "elements_ok r hid" and view: "array_view r hid = Some (esize, strs, vs)"
  shows "if strs \<and> string_at r e = None then array_push hid e r = (r, False)
         else \<exists>r'. array_push hid e r = (r', True) \<and> reg_inv r' \<and>
                array_view r' hid = Some (esize, strs, vs @ [elem_view r strs e]) \<and> elements_ok r' hid \<and>
                (\<forall>i. i \<noteq> hid \<longrightarrow> i < next_id_ctr r \<longrightarrow> reg_get r' i = reg_get r i) \<and>
                live r' = live r + (if strs then 1 else 0)"
proof -
  from view obtain a where a: "array_at r hid = Some a" "elem_size a = esize" "string_elements a = strs"
      "map (elem_view r strs) (elements a) = vs" by (auto simp: array_view_def)
  have range: "hid < next_id_ctr r" using array_at_range [OF inv a(1)] by simp
  show ?thesis
  proof (cases strs)
    case False
    let ?r' = "reg_put hid (HArray (a\<lparr>elements := elements a @ [e]\<rparr>)) r"
    have "array_push hid e r = (?r', True)"
      using a False by (simp add: array_push_def stored_element_def)
    moreover have "reg_inv ?r'"
      by (rule reg_inv_replace [OF inv a(1) [unfolded array_at_iff]]) simp_all
    ultimately show ?thesis
      using a False by (auto simp: array_view_def elem_view_def elements_ok_def)
  next
    case True
    show ?thesis
    proof (cases "string_at r e")
      case None
      then show ?thesis using a True by (simp add: array_push_def stored_element_def)
    next
      case (Some t)
      let ?r1 = "fst (insert_handle (HString t) r)"
      let ?n = "next_id_ctr r"
      let ?r' = "reg_put hid (HArray (a\<lparr>elements := elements a @ [?n]\<rparr>)) ?r1"
      have a1: "array_at ?r1 hid = Some a" using a(1) range by simp
      have "array_push hid e r = (?r', True)"
        using a a1 True Some by (simp add: array_push_def stored_element_def split_beta)
      moreover have "reg_inv ?r'"
        by (rule reg_inv_replace [OF insert_handle_inv [OF inv] a1 [unfolded array_at_iff]]) simp_all
      moreover have "map (elem_view ?r' True) (elements a) = map (elem_view r True) (elements a)"
      proof (intro map_cong refl)
        fix x assume "x \<in> set (elements a)"
        then have "x < ?n" using ok a True by (auto simp: elements_ok_def)
        then show "elem_view ?r' True x = elem_view r True x"
          using a(1) by (auto simp: elem_view_def string_at_def array_at_iff)
      qed
      ultimately show ?thesis
        using a ok True Some range
        by (auto simp: array_view_def elem_view_def elements_ok_def less_imp_le)
    qed
  qed
qed

theorem array_push_spec_witness:
  "\<exists>r'. array_push 3 1 demo_registry = (r', True) \<and>
     array_view r' 3 = Some (8, True, [Text (Some ''a''), Text (Some ''b''), Text (Some ''a'')])"
  using array_push_spec [OF demo_registry_inv demo_registry_ok, of 8 True "[Text (Some ''a''), Text (Some ''b'')]" 1]
  by (auto simp: array_view_def elem_view_def demo_registry_facts)


lemma array_at_take_string [simp]: "array_at (fst (take_string i r)) j = array_at r j"
  by (auto simp: take_string_def Let_def string_not_array split: option.splits)

lemma array_set_raw:
  assumes "reg_inv r" "array_at r hid = Some a" "\<not> string_elements a" "0 \<le> index" "nat index < length (elements a)"
  shows "array_set hid index e r = (reg_put hid (HArray (a\<lparr>elements := (elements a)[nat index := e]\<rparr>)) r, True)"
  using assms array_at_not_null [of r hid a] by (simp add: array_set_def stored_element_def)

lemma array_set_string:
  assumes inv: "reg_inv r" and a: "array_at r hid = Some a" "string_elements a" and t: "string_at r e = Some t"
    and ix: "0 \<le> index"
  defines "r1 \<equiv> fst (insert_handle (HString t) r)"
  shows "array_set hid index e r =
    (if nat index < length (elements a)
     then (fst (take_string (elements a ! nat index)
             (reg_put hid (HArray (a\<lparr>elements := (elements a)[nat index := next_id_ctr r]\<rparr>)) r1)), True)
     else (r1, False))"
proof -
  have "hid \<noteq> NULL" "array_at r1 hid = Some a"
    using array_at_range [OF inv a(1)] a(1) by (simp_all add: r1_def NULL_def)
  then show ?thesis
    using a t ix by (simp add: array_set_def stored_element_def split_beta Let_def r1_def)
qed

text \<open>Replacing an element in range stores the new element (for a string array a fresh copy of
  its text), reclaims the string it replaces so that the live counter is unchanged, and keeps
  every other element, provided the array does not hold one string twice.\<close>

theorem array_set_spec:
  assumes inv: "reg_inv r" and ok: "elements_ok r hid" and a: "array_at r hid = Some a"
    and ix: "0 \<le> index" "nat index < length (elements a)"
    and dist: "distinct (elements a)" and str: "string_elements a \<Longrightarrow> string_at r e \<noteq> None"
  shows "\<exists>r' vs. array_set hid index e r = (r', True) \<and> reg_inv r' \<and>
           array_view r hid = Some (elem_size a, string_elements a, vs) \<and>
           array_view r' hid = Some (elem_size a, string_elements a, vs[nat index := elem_view r (string_elements a) e]) \<and>
           (string_elements a \<longrightarrow> elements a ! nat index \<noteq> NULL \<longrightarrow> string_at r (elements a ! nat index) \<noteq> None \<longrightarrow> live r' = live r)"
proof (cases "string_elements a")
  case False
  have "reg_inv (reg_put hid (HArray (a\<lparr>elements := (elements a)[nat index := e]\<rparr>)) r)"
    by (rule reg_inv_replace [OF inv a [unfolded array_at_iff]]) simp_all
  with array_set_raw [OF inv a False ix] False a show ?thesis
    by (simp add: array_view_def map_update)
next
  case True
  then obtain t where t: "string_at r e = Some t" using str by auto
  define n where "n = next_id_ctr r"
  define old where "old = elements a ! nat index"
  define es where "es = (elements a)[nat index := n]"
  define r2 where "r2 = reg_put hid (HArray (a\<lparr>elements := es\<rparr>)) (fst (insert_handle (HString t) r))"
  have set: "array_set hid index e r = (fst (take_string old r2), True)"
    using array_set_string [OF inv a True t ix(1)] ix(2) by (simp add: r2_def old_def n_def es_def)
  have hid: "hid < n" using array_at_range [OF inv a] by (simp add: n_def)
  have lt: "x \<in> set (elements a) \<Longrightarrow> x < n" for x
    using ok a True by (simp add: elements_ok_def n_def)
  have strs: "string_at r2 x = (if x = n then Some t else string_at r x)" for x
    using hid string_not_array [of r x] a by (auto simp: r2_def n_def string_at_def array_at_iff)
  have "array_at (fst (insert_handle (HString t) r)) hid = Some a" using a hid by (simp add: n_def)
  from reg_inv_replace [OF insert_handle_inv [OF inv] this [unfolded array_at_iff]] have "reg_inv r2"
    by (simp add: r2_def)
  then have inv': "reg_inv (fst (take_string old r2))" by (rule take_string_inv)
  have "map (elem_view (fst (take_string old r2)) True) es =
      (map (elem_view r True) (elements a))[nat index := elem_view r True e]"
  proof (rule nth_equalityI)
    fix k assume "k < length (map (elem_view (fst (take_string old r2)) True) es)"
    then have k: "k < length (elements a)" by (simp add: es_def)
    have "k \<noteq> nat index \<Longrightarrow> elements a ! k \<noteq> old \<and> elements a ! k \<noteq> n" "old \<noteq> n"
      using k ix(2) dist lt [OF nth_mem [OF k]] lt [OF nth_mem [OF ix(2)]]
      by (auto simp: old_def nth_eq_iff_index_eq)
    then show "map (elem_view (fst (take_string old r2)) True) es ! k =
        (map (elem_view r True) (elements a))[nat index := elem_view r True e] ! k"
      using k ix(2) t by (auto simp: es_def elem_view_def strs nth_list_update)
  qed (simp add: es_def)
  moreover have "array_at (fst (take_string old r2)) hid = Some (a\<lparr>elements := es\<rparr>)"
    by (simp add: r2_def)
  moreover have "live (fst (take_string old r2)) = live r" if "old \<noteq> NULL" "string_at r old \<noteq> None"
    using that lt [OF nth_mem [OF ix(2)]] strs [of old]
    by (simp add: live_take_string) (simp add: r2_def old_def)
  ultimately show ?thesis
    using set inv' a True by (auto simp: array_view_def old_def)
qed

theorem array_set_spec_witness:
  "\<exists>r'. array_set 3 0 2 demo_registry = (r', True) \<and> live r' = live demo_registry \<and>
     array_view r' 3 = Some (8, True, [Text (Some ''b''), Text (Some ''b'')])"
  using array_set_spec [OF demo_registry_inv demo_registry_ok demo_registry_facts(1), of 0 2]
  by (auto simp: array_view_def elem_view_def demo_registry_facts NULL_def)

text \<open>Storing a string out of range into a string array is refused, but the copy made for it
  stays registered without an owner: the live counter grows by one and the array is unchanged.
  The function is documented as a no-op for an out-of-range index.\<close>

theorem array_set_out_of_range_leaks:
  assumes inv: "reg_inv r" and a: "array_at r hid = Some a" "string_elements a"
    and t: "string_at r e = Some t" and ix: "int (length (elements a)) \<le> index"
  shows "\<exists>r'. array_set hid index e r = (r', False) \<and> live r' = live r + 1 \<and> array_at r' hid = Some a \<and>
           string_at r' (next_id_ctr r) = Some t \<and> reg_get r (next_id_ctr r) = None"
proof -
  have "0 \<le> index" "\<not> nat index < length (elements a)" using ix by simp_all
  moreover have "hid \<noteq> next_id_ctr r" using array_at_range [OF inv a(1)] by simp
  moreover have "reg_get r (next_id_ctr r) = None" using reg_invD(2) [OF inv] by (simp add: fresh_id)
  ultimately show ?thesis using array_set_string [OF inv a t, of index] a by simp
qed

theorem array_set_out_of_range_leaks_witness:
  "\<exists>r'. array_set 3 7 1 demo_registry = (r', False) \<and> live demo_registry = 3 \<and> live r' = 4"
  using array_set_out_of_range_leaks [OF demo_registry_inv demo_registry_facts(1) _ demo_registry_facts(2), of 7]
  by (auto simp: demo_registry_facts)


lemma take_strings_get:
  assumes "distinct hs" "\<forall>h \<in> set hs. h \<noteq> NULL \<and> string_at r h \<noteq> None"
  shows "reg_get (take_strings hs r) j = (if j \<in> set hs then None else reg_get r j)"
    and "live (take_strings hs r) = live r - int (length hs)"
proof -
  have "reg_get (take_strings hs r) j = (if j \<in> set hs then None else reg_get r j) \<and>
      live (take_strings hs r) = live r - int (length hs)"
    using assms
  proof (induction hs arbitrary: r)
    case Nil
    then show ?case by simp
  next
    case (Cons h hs)
    then have "\<forall>x \<in> set hs. x \<noteq> NULL \<and> string_at (fst (take_string h r)) x \<noteq> None" by auto
    with Cons show ?case by (auto simp: reg_get_take_string live_take_string)
  qed
  then show "reg_get (take_strings hs r) j = (if j \<in> set hs then None else reg_get r j)"
    and "live (take_strings hs r) = live r - int (length hs)" by simp_all
qed

text \<open>Dropping an array reclaims the array and, for a string array, every string it owns:
  exactly these entries disappear and the live counter falls by their number. Any other handle
  (null, stale, or of another kind) is left alone.\<close>

theorem array_drop_spec:
  assumes inv: "reg_inv r"
    and own: "\<And>a. array_at r hid = Some a \<Longrightarrow> string_elements a \<Longrightarrow>
        distinct (elements a) \<and> (\<forall>e \<in> set (elements a). string_at r e \<noteq> None)"
  shows "case array_at r hid of
      None \<Rightarrow> array_drop hid r = r
    | Some a \<Rightarrow>
        (let owned = (if string_elements a then elements a else [])
         in live (array_drop hid r) = live r - 1 - int (length owned) \<and>
            (\<forall>j. reg_get (array_drop hid r) j = (if j = hid \<or> j \<in> set owned then None else reg_get r j)))"
proof (cases "array_at r hid")
  case None
  then show ?thesis by (simp add: array_drop_def)
next
  case (Some a)
  define r1 where "r1 = (reg_del hid r)\<lparr>live := live r - 1, registry_gen := registry_gen r + 1\<rparr>"
  have "hid \<noteq> NULL" by (rule array_at_not_null [OF inv Some])
  then have drop: "array_drop hid r = (if string_elements a then take_strings (elements a) r1 else r1)"
    using Some Some [unfolded array_at_iff] by (simp add: array_drop_def remove_handle_def Let_def r1_def)
  show ?thesis
  proof (cases "string_elements a")
    case False
    then show ?thesis using drop Some by (simp add: r1_def)
  next
    case True
    have "x \<noteq> NULL \<and> string_at r1 x \<noteq> None" if "x \<in> set (elements a)" for x
      using own [OF Some True] that string_at_null [OF inv] string_not_array [of r x] Some
      by (auto simp: r1_def string_at_def array_at_def split: if_splits)
    then have "\<forall>h \<in> set (elements a). h \<noteq> NULL \<and> string_at r1 h \<noteq> None" by blast
    with own [OF Some True] take_strings_get [of "elements a" r1] drop Some True show ?thesis
      by (auto simp: r1_def Let_def)
  qed
qed

theorem array_drop_spec_witness:
  "live (array_drop 3 demo_registry) = 0 \<and> reg_get (array_drop 3 demo_registry) 1 = None \<and>
   reg_get (array_drop 3 demo_registry) 2 = None \<and> reg_get (array_drop 3 demo_registry) 3 = None"
  using array_drop_spec [OF demo_registry_inv, of 3]
  by (auto simp: demo_registry_facts Let_def)


section \<open>Permuting a copy\<close>

text \<open>Sorting and shuffling copy the array and permute the elements of the copy.\<close>

lemma clone_permuted:
  assumes inv: "reg_inv r" and ok: "elements_ok r hid" and a: "array_at r hid = Some a"
    and c: "array_clone hid 0 r = (r1, j)" and b: "array_at r1 j = Some b" and p: "mset xs = mset (elements b)"
  defines "r' \<equiv> reg_put j (HArray (b\<lparr>elements := xs\<rparr>)) r1"
  shows "reg_inv r'" "reg_get r j = None" "array_view r' hid = array_view r hid"
    "elem_size b = elem_size a" "string_elements b = string_elements a"
    "mset (map (elem_view r' (string_elements a)) xs) = mset (map (elem_view r (string_elements a)) (elements a))"
    "\<not> string_elements a \<Longrightarrow> elements b = elements a"
    "array_view r' j = Some (elem_size a, string_elements a, map (elem_view r' (string_elements a)) xs)"
proof -
  from clone.copies [OF inv ok a] c a have v: "reg_inv r1" "reg_grows r r1" "reg_get r j = None"
      "array_view r1 hid = array_view r hid" "array_view r1 j = array_view r hid"
    by (auto simp: builds_def)
  show "reg_inv r'"
    unfolding r'_def by (rule reg_inv_replace [OF v(1) b [unfolded array_at_iff]]) simp_all
  show "reg_get r j = None" by (rule v(3))
  have neq: "hid \<noteq> j" using a v(3) by (auto simp: array_at_iff)
  have strs: "string_at r' = string_at r1"
    using string_not_array [of r1 j] b by (auto simp: fun_eq_iff r'_def string_at_def array_at_iff)
  then have ev: "elem_view r' = elem_view r1" by (simp add: fun_eq_iff elem_view_def)
  then show "array_view r' hid = array_view r hid"
    using v(4) neq by (simp add: array_view_def) (simp add: r'_def)
  from v(5) a b show e: "elem_size b = elem_size a" "string_elements b = string_elements a"
    by (simp_all add: array_view_def)
  from v(5) a b e have m: "map (elem_view r1 (string_elements a)) (elements b) =
      map (elem_view r (string_elements a)) (elements a)"
    by (auto simp: array_view_def)
  show "mset (map (elem_view r' (string_elements a)) xs) = mset (map (elem_view r (string_elements a)) (elements a))"
    unfolding m [symmetric] ev mset_map p ..
  show "array_view r' j = Some (elem_size a, string_elements a, map (elem_view r' (string_elements a)) xs)"
    using e by (simp add: array_view_def r'_def)
  assume "\<not> string_elements a"
  with m show "elements b = elements a" by (simp add: inj_map_eq_map inj_on_def)
qed

lemma clone_exists:
  assumes "reg_inv r" "elements_ok r hid" "array_at r hid = Some a"
  obtains r1 j b where "array_clone hid 0 r = (r1, j)" "j \<noteq> NULL" "array_at r1 j = Some b"
proof -
  from clone.copies [OF assms] obtain r1 j esize strs vs where "array_clone hid 0 r = (r1, j)" "j \<noteq> NULL"
      "array_view r1 j = Some (esize, strs, vs)" by (auto simp: builds_def)
  then show ?thesis using that by (auto simp: array_view_def)
qed

lemma sift_down_cong:
  assumes "\<And>es' i. mset es' = mset es \<Longrightarrow> 0 < i \<Longrightarrow> i < length es \<Longrightarrow> gt es' i = gt' es' i" and "j < length es"
  shows "sift_down gt j es = sift_down gt' j es"
  using assms
proof (induction gt j es rule: sift_down.induct)
  case (1 gt es)
  then show ?case by simp
next
  case (2 gt j es)
  have sw: "mset (swap_elements j (Suc j) es) = mset es" using "2.prems"(2) by (simp add: mset_swap_elements)
  have gt: "gt es (Suc j) = gt' es (Suc j)" using "2.prems" by blast
  show ?case
  proof (cases "gt es (Suc j)")
    case True
    have "sift_down gt j (swap_elements j (Suc j) es) = sift_down gt' j (swap_elements j (Suc j) es)"
      using "2.IH" [OF True] "2.prems" sw by simp
    then show ?thesis using True gt by simp
  next
    case False
    then show ?thesis using gt by simp
  qed
qed

lemma sort_loop_cong:
  assumes "\<And>es' i. mset es' = mset es \<Longrightarrow> 0 < i \<Longrightarrow> i < length es \<Longrightarrow> gt es' i = gt' es' i"
  shows "sort_loop gt es = sort_loop gt' es"
proof -
  have "\<forall>j \<in> set js. j < length es \<Longrightarrow> fold (sift_down gt) js es = fold (sift_down gt') js es" for js
  proof (induction js rule: rev_induct)
    case Nil
    then show ?case by simp
  next
    case (snoc j js)
    have m: "mset (fold (sift_down gt') js es) = mset es" using snoc.prems by (simp add: mset_fold_sift)
    have "sift_down gt j (fold (sift_down gt') js es) = sift_down gt' j (fold (sift_down gt') js es)"
      by (rule sift_down_cong) (use m snoc.prems assms in simp_all)
    then show ?case using snoc by simp
  qed
  then show ?thesis by (simp add: sort_loop_def)
qed

lemma array_sort_eq:
  assumes "array_clone hid 0 r = (r1, j)" "j \<noteq> NULL" "array_at r1 j = Some b"
  shows "array_sort hid mode r =
    (reg_put j (HArray (b\<lparr>elements := sort_loop (sort_less mode
        (if string_elements b then Some (map (string_at r1) (elements b)) else None)) (elements b)\<rparr>)) r1, j)"
  using assms by (simp add: array_sort_def Let_def)

text \<open>Sorting builds a fresh array that is a permutation of the source, texts included, and
  leaves the source alone; the result is in increasing order for integers, and for floats as
  long as none of them is a NaN.\<close>

theorem array_sort_spec:
  assumes inv: "reg_inv r" and ok: "elements_ok r hid" and a: "array_at r hid = Some a"
  shows "\<exists>r' j b vs. array_sort hid mode r = (r', j) \<and> reg_inv r' \<and> reg_get r j = None \<and>
           array_view r' hid = array_view r hid \<and> array_at r' j = Some b \<and>
           array_view r' j = Some (elem_size a, string_elements a, vs) \<and>
           mset vs = mset (map (elem_view r (string_elements a)) (elements a)) \<and>
           (\<not> string_elements a \<longrightarrow> mode \<noteq> 1 \<longrightarrow> sorted (elements b)) \<and>
           (\<not> string_elements a \<longrightarrow> mode = 1 \<longrightarrow> (\<forall>e \<in> set (elements a). \<not> f64_is_nan e) \<longrightarrow>
              sorted (map f64_key (elements b)))"
proof -
  obtain r1 j b where c: "array_clone hid 0 r = (r1, j)" "j \<noteq> NULL" "array_at r1 j = Some b"
    using clone_exists [OF inv ok a] .
  define gt where "gt = sort_less mode (if string_elements b then Some (map (string_at r1) (elements b)) else None)"
  note perm = clone_permuted [OF inv ok a c(1,3) mset_sort_loop [of gt "elements b"]]
  have sort: "array_sort hid mode r = (reg_put j (HArray (b\<lparr>elements := sort_loop gt (elements b)\<rparr>)) r1, j)"
    unfolding gt_def by (rule array_sort_eq [OF c])
  have int: "sorted (sort_loop gt (elements b))" if "\<not> string_elements a" "mode \<noteq> 1"
    using sorted_sort_loop [of gt "\<lambda>x. x" "elements b"] that perm(5)
    by (simp add: gt_def sort_less_def Let_def)
  have float: "sorted (map f64_key (sort_loop gt (elements b)))"
    if raw: "\<not> string_elements a" "mode = 1" and nan: "\<forall>e \<in> set (elements a). \<not> f64_is_nan e"
  proof -
    let ?gt = "\<lambda>es i. f64_key (es ! i) < f64_key (es ! (i - 1))"
    have "sort_loop gt (elements b) = sort_loop ?gt (elements b)"
    proof (rule sort_loop_cong)
      fix es' i assume m: "mset es' = mset (elements b)" and i: "0 < i" "i < length (elements b)"
      have "\<forall>e \<in> set es'. \<not> f64_is_nan e" using m nan perm(7) [OF raw(1)] by (metis set_mset_mset)
      moreover have "es' ! i \<in> set es'" "es' ! (i - 1) \<in> set es'"
        using m i by (metis less_imp_diff_less nth_mem size_mset)+
      ultimately show "gt es' i = ?gt es' i"
        by (simp add: gt_def sort_less_def Let_def raw f64_gt_def)
    qed
    then show ?thesis by (simp add: sorted_sort_loop)
  qed
  show ?thesis
    unfolding sort using perm int float by fastforce
qed


theorem array_sort_spec_witness:
  "\<exists>r' j. array_sort 1 0 (fst (insert_handle (HArray \<lparr>elem_size = 8, string_elements = False, elements = [5, 3, 4]\<rparr>)
      (reg_init :: nat registry))) = (r', j) \<and>
     (\<exists>b. array_at r' j = Some b \<and> sorted (elements b))"
proof -
  define a where "a = \<lparr>elem_size = 8, string_elements = False, elements = [5, 3, 4 :: i64]\<rparr>"
  let ?r = "fst (insert_handle (HArray a) (reg_init :: nat registry))"
  have inv: "reg_inv ?r" by (rule insert_handle_inv [OF reg_inv_init]) simp
  have at: "array_at ?r 1 = Some a" by (simp add: array_at_def reg_init_def)
  then have "elements_ok ?r 1" by (simp add: elements_ok_def a_def)
  from array_sort_spec [OF inv this at, of 0] show ?thesis
    unfolding a_def by (metis array_data.select_convs(2) zero_neq_one)
qed

text \<open>The comparison of string elements looks at texts read before the sort began, by position,
  and the loop swaps the handles only. Three elements are enough to leave them out of order.\<close>

definition three_strings :: "nat registry" where
  "three_strings =
     fst (insert_handle (HArray \<lparr>elem_size = 8, string_elements = True, elements = [1, 2, 3]\<rparr>)
       (fst (insert_handle (HString ''a'') (fst (insert_handle (HString ''c'')
         (fst (insert_handle (HString ''b'') reg_init)))))))"

text \<open>Sorting the string array [b, c, a] by text yields [b, a, c], which is not in order.\<close>

theorem array_sort_strings_unsorted:
  "(case array_sort 4 2 three_strings of (r', j) \<Rightarrow> array_view r' j) =
     Some (8, True, [Text (Some ''b''), Text (Some ''a''), Text (Some ''c'')])"
  by code_simp

text \<open>Shuffling builds a fresh array holding a permutation of the elements of the source,
  texts included, whatever bytes the operating system supplies, and leaves the source alone.\<close>

theorem array_shuffle_spec:
  assumes inv: "reg_inv r" and ok: "elements_ok r hid" and a: "array_at r hid = Some a"
  shows "\<exists>r' j vs. array_shuffle random_bytes hid r = (r', j) \<and> reg_inv r' \<and> reg_get r j = None \<and>
           array_view r' hid = array_view r hid \<and>
           array_view r' j = Some (elem_size a, string_elements a, vs) \<and>
           mset vs = mset (map (elem_view r (string_elements a)) (elements a))"
proof -
  obtain r1 j b where c: "array_clone hid 0 r = (r1, j)" "j \<noteq> NULL" "array_at r1 j = Some b"
    using clone_exists [OF inv ok a] .
  show ?thesis
  proof (cases "length (elements b) \<le> 1")
    case True
    have "array_shuffle random_bytes hid r = (r1, j)"
      using c True by (simp add: array_shuffle_def)
    then show ?thesis
      using clone.copies [OF inv ok a] c(1) a by (auto simp: builds_def array_view_def)
  next
    case False
    let ?xs = "shuffle_loop random_bytes (length (elements b) - 1) (elements b)"
    have eq: "array_shuffle random_bytes hid r = (reg_put j (HArray (b\<lparr>elements := ?xs\<rparr>)) r1, j)"
      using c False by (simp add: array_shuffle_def Let_def)
    have "mset ?xs = mset (elements b)" using False by (intro mset_shuffle_loop) simp
    from clone_permuted [OF inv ok a c(1,3) this] show ?thesis
      unfolding eq by blast
  qed
qed

theorem array_shuffle_spec_witness:
  "\<exists>r' j vs. array_shuffle [] 3 demo_registry = (r', j) \<and> array_view r' j = Some (8, True, vs) \<and>
     mset vs = {#Text (Some ''a''), Text (Some ''b'')#}"
proof -
  from array_shuffle_spec [OF demo_registry_inv demo_registry_ok demo_registry_facts(1), of "[]"]
  obtain r' j vs where "array_shuffle [] 3 demo_registry = (r', j)" "array_view r' j = Some (8, True, vs)"
      "mset vs = mset (map (elem_view demo_registry True) [1, 2])" by auto
  then show ?thesis by (auto simp: elem_view_def demo_registry_facts)
qed

end
