(* ===== verification/Registry_Slices.thy ===== *)
theory Registry_Slices
  imports Registry_Array_Spec
begin

text \<open>
  Slices: bounds-checked windows over a registered array. A slice stores the handle of the array
  and a window, never a pointer, so each access looks the array up again. The theorems say that
  a window never reaches outside the range it was created with, that a subslice reads exactly
  the part of its parent it names, and what copying a window out yields.
\<close>

section \<open>Operations\<close>

definition slice_window :: "i64 \<Rightarrow> 'o registry \<Rightarrow> (i64 \<times> usize \<times> usize) option" where
  "slice_window hid r =
     (case borrow hid (\<lambda>h. case h of HSlice array start len \<Rightarrow> Some (array, start, len) | _ \<Rightarrow> None) r of
        Some w \<Rightarrow> w
      | None \<Rightarrow> None)"

definition slice_of :: "i64 \<Rightarrow> i64 \<Rightarrow> i64 \<Rightarrow> 'o registry \<Rightarrow> 'o registry \<times> i64 option" where
  "slice_of array start stop r =
     (if start < 0 \<or> stop < start then (r, None)
      else (case with_array array (\<lambda>a. length (elements a)) r of
              None \<Rightarrow> (r, None)
            | Some len \<Rightarrow>
                if len < nat stop then (r, None)
                else (let (r1, i) = insert_handle (HSlice array (nat start) (nat stop - nat start)) r
                      in (r1, Some i))))"

definition slice_sub :: "i64 \<Rightarrow> i64 \<Rightarrow> i64 \<Rightarrow> 'o registry \<Rightarrow> 'o registry \<times> i64 option" where
  "slice_sub hid start stop r =
     (if start < 0 \<or> stop < start then (r, None)
      else (case slice_window hid r of
              None \<Rightarrow> (r, None)
            | Some (array, base, len) \<Rightarrow>
                if len < nat stop then (r, None)
                else (let (r1, i) = insert_handle (HSlice array (base + nat start) (nat stop - nat start)) r
                      in (r1, Some i))))"

definition slice_len :: "i64 \<Rightarrow> 'o registry \<Rightarrow> i64 option" where
  "slice_len hid r = map_option (\<lambda>(_, _, len). int len) (slice_window hid r)"

definition slice_get :: "i64 \<Rightarrow> i64 \<Rightarrow> 'o registry \<Rightarrow> i64 option" where
  "slice_get hid index r =
     (if index < 0 then None
      else (case slice_window hid r of
              None \<Rightarrow> None
            | Some (array, start, len) \<Rightarrow>
                if len \<le> nat index then None else array_get array (int (start + nat index)) r))"

definition slice_set :: "i64 \<Rightarrow> i64 \<Rightarrow> i64 \<Rightarrow> 'o registry \<Rightarrow> 'o registry \<times> bool" where
  "slice_set hid index val r =
     (if index < 0 then (r, False)
      else (case slice_window hid r of
              None \<Rightarrow> (r, False)
            | Some (array, start, len) \<Rightarrow>
                if len \<le> nat index then (r, False) else array_set array (int (start + nat index)) val r))"

text \<open>The loop of \<open>slice_to_array\<close> over the remaining offsets; \<open>None\<close> is its early return.\<close>

fun slice_push_loop :: "i64 \<Rightarrow> usize \<Rightarrow> i64 \<Rightarrow> nat list \<Rightarrow> 'o registry \<Rightarrow> 'o registry \<times> i64 option" where
  "slice_push_loop array start out [] r = (r, Some out)"
| "slice_push_loop array start out (offset # offs) r =
     (case array_get array (int (start + offset)) r of
        None \<Rightarrow> (r, None)
      | Some element \<Rightarrow>
          (let (r1, ok) = array_push out element r
           in if ok then slice_push_loop array start out offs r1 else (r1, None)))"

definition slice_to_array :: "i64 \<Rightarrow> 'o registry \<Rightarrow> 'o registry \<times> i64 option" where
  "slice_to_array hid r =
     (case slice_window hid r of
        None \<Rightarrow> (r, None)
      | Some (array, start, len) \<Rightarrow>
          (case with_array array (\<lambda>a. (elem_size a, string_elements a)) r of
             None \<Rightarrow> (r, None)
           | Some (esize, strs) \<Rightarrow>
               (let (r1, out) = array_new (int esize) (int len) (if strs then 1 else 0) r
                in slice_push_loop array start out [0..<len] r1)))"

text \<open>\<open>Iterator::all\<close> stops at the first element that fails.\<close>

fun slice_fill_loop :: "i64 \<Rightarrow> usize \<Rightarrow> i64 \<Rightarrow> nat list \<Rightarrow> 'o registry \<Rightarrow> 'o registry \<times> bool" where
  "slice_fill_loop array start val [] r = (r, True)"
| "slice_fill_loop array start val (offset # offs) r =
     (let (r1, ok) = array_set array (int (start + offset)) val r
      in if ok then slice_fill_loop array start val offs r1 else (r1, False))"

definition slice_fill :: "i64 \<Rightarrow> i64 \<Rightarrow> 'o registry \<Rightarrow> 'o registry \<times> bool" where
  "slice_fill hid val r =
     (case slice_window hid r of
        None \<Rightarrow> (r, False)
      | Some (array, start, len) \<Rightarrow> slice_fill_loop array start val [0..<len] r)"

fun slice_copy_loop ::
    "i64 \<Rightarrow> usize \<Rightarrow> i64 \<Rightarrow> usize \<Rightarrow> nat list \<Rightarrow> 'o registry \<Rightarrow> 'o registry \<times> bool" where
  "slice_copy_loop dst_array dst_start src_array src_start [] r = (r, True)"
| "slice_copy_loop dst_array dst_start src_array src_start (offset # offs) r =
     (case array_get src_array (int (src_start + offset)) r of
        None \<Rightarrow> (r, False)
      | Some element \<Rightarrow>
          (let (r1, ok) = array_set dst_array (int (dst_start + offset)) element r
           in if ok then slice_copy_loop dst_array dst_start src_array src_start offs r1 else (r1, False)))"

definition slice_copy_from :: "i64 \<Rightarrow> i64 \<Rightarrow> 'o registry \<Rightarrow> 'o registry \<times> bool" where
  "slice_copy_from dst src r =
     (case (slice_window dst r, slice_window src r) of
        (Some (dst_array, dst_start, dst_len), Some (src_array, src_start, src_len)) \<Rightarrow>
          if dst_len \<noteq> src_len then (r, False)
          else slice_copy_loop dst_array dst_start src_array src_start [0..<dst_len] r
      | _ \<Rightarrow> (r, False))"

fun slice_equal_loop :: "i64 \<Rightarrow> usize \<Rightarrow> i64 \<Rightarrow> usize \<Rightarrow> nat list \<Rightarrow> 'o registry \<Rightarrow> bool option" where
  "slice_equal_loop a_array a_start b_array b_start [] r = Some True"
| "slice_equal_loop a_array a_start b_array b_start (offset # offs) r =
     (case array_get a_array (int (a_start + offset)) r of
        None \<Rightarrow> None
      | Some left \<Rightarrow>
          (case array_get b_array (int (b_start + offset)) r of
             None \<Rightarrow> None
           | Some right \<Rightarrow>
               if left \<noteq> right then Some False
               else slice_equal_loop a_array a_start b_array b_start offs r))"

definition slice_equal :: "i64 \<Rightarrow> i64 \<Rightarrow> 'o registry \<Rightarrow> bool option" where
  "slice_equal a b r =
     (case slice_window a r of
        None \<Rightarrow> None
      | Some (a_array, a_start, a_len) \<Rightarrow>
          (case slice_window b r of
             None \<Rightarrow> None
           | Some (b_array, b_start, b_len) \<Rightarrow>
               if a_len \<noteq> b_len then Some False
               else slice_equal_loop a_array a_start b_array b_start [0..<a_len] r))"

definition slice_drop :: "i64 \<Rightarrow> 'o registry \<Rightarrow> 'o registry" where
  "slice_drop hid r =
     (if hid = NULL then r
      else (case reg_get r hid of
              Some (HSlice _ _ _) \<Rightarrow>
                (let r1 = reg_del hid r
                 in r1\<lparr>live := live r1 - 1, registry_gen := registry_gen r1 + 1\<rparr>)
            | _ \<Rightarrow> r))"

section \<open>Lemmas\<close>

lemma slice_window_iff:
  "reg_inv r \<Longrightarrow> slice_window i r = Some (arr, start, len) \<longleftrightarrow> reg_get r i = Some (HSlice arr start len)"
  using reg_inv_get_null [of r]
  by (auto simp: slice_window_def borrow_def split: option.splits handle.splits)

lemma slice_window_insert:
  assumes "reg_inv r"
  shows "slice_window j (fst (insert_handle (HSlice arr start len) r)) =
    (if j = next_id_ctr r then Some (arr, start, len) else slice_window j r)"
  using reg_invD(2) [OF assms] by (auto simp: slice_window_def borrow_def ids_inv_def NULL_def)

lemma array_get_at:
  "reg_inv r \<Longrightarrow> array_at r hid = Some a \<Longrightarrow>
   array_get hid index r = (if 0 \<le> index \<and> nat index < length (elements a) then Some (elements a ! nat index) else None)"
  using array_at_not_null [of r hid a]
  by (simp add: array_get_def with_array_def array_data_get_def)

lemma array_get_not_array: "array_at r hid = None \<Longrightarrow> array_get hid index r = None"
  by (simp add: array_get_def with_array_def)

lemma array_get_insert_slice [simp]:
  assumes "reg_inv r"
  shows "array_get arr k (fst (insert_handle (HSlice b s l) r)) = array_get arr k r"
proof -
  have "array_at r (next_id_ctr r) = None"
    using fresh_id [OF reg_invD(2) [OF assms]] by (simp add: array_at_def)
  then show ?thesis by (auto simp: array_get_def with_array_def)
qed

lemma insert_slice_inv: "reg_inv r \<Longrightarrow> reg_inv (fst (insert_handle (HSlice b s l) r))"
  by (simp add: insert_handle_inv)

lemma slice_of_inv [reg_inv]: "reg_inv r \<Longrightarrow> reg_inv (fst (slice_of arr s e r))"
  by (auto simp: slice_of_def split_beta Let_def insert_slice_inv split: option.splits)

lemma slice_sub_inv [reg_inv]: "reg_inv r \<Longrightarrow> reg_inv (fst (slice_sub i s e r))"
  by (auto simp: slice_sub_def split_beta Let_def insert_slice_inv split: option.splits)

lemma slice_drop_inv [reg_inv]: "reg_inv r \<Longrightarrow> reg_inv (slice_drop i r)"
  by (auto simp: slice_drop_def Let_def intro: reg_inv_take split: option.splits handle.splits)

lemma slice_push_loop_inv: "reg_inv r \<Longrightarrow> reg_inv (fst (slice_push_loop arr s out offs r))"
  by (induction offs arbitrary: r) (auto simp: split_beta array_push_inv split: option.split)

lemma slice_fill_loop_inv: "reg_inv r \<Longrightarrow> reg_inv (fst (slice_fill_loop arr s v offs r))"
  by (induction offs arbitrary: r) (auto simp: split_beta array_set_inv)

lemma slice_copy_loop_inv: "reg_inv r \<Longrightarrow> reg_inv (fst (slice_copy_loop da ds sa ss offs r))"
  by (induction offs arbitrary: r) (auto simp: split_beta array_set_inv split: option.split)

lemma slice_updates_inv [reg_inv]:
  assumes "reg_inv r"
  shows "reg_inv (fst (slice_set i k v r))" "reg_inv (fst (slice_to_array i r))"
    "reg_inv (fst (slice_fill i v r))" "reg_inv (fst (slice_copy_from i j r))"
  using assms
  by (simp_all add: slice_set_def slice_to_array_def slice_fill_def slice_copy_from_def split_beta Let_def
      array_set_inv array_new_inv slice_push_loop_inv slice_fill_loop_inv slice_copy_loop_inv split: option.split)

text \<open>The elements a window shows, as a list, when the array still covers it.\<close>

lemma slice_get_elements:
  assumes inv: "reg_inv r" and w: "slice_window hid r = Some (arr, start, len)" and a: "array_at r arr = Some a"
    and cov: "start + len \<le> length (elements a)"
  shows "slice_get hid (int k) r =
    (if k < len then Some (take len (drop start (elements a)) ! k) else None)"
  using w cov by (simp add: slice_get_def array_get_at [OF inv a] nat_add_distrib)

lemma array_push_next_id: "next_id_ctr r \<le> next_id_ctr (fst (array_push hid e r))"
  by (auto simp: array_push_def stored_element_def split_beta split: option.splits)

lemma elem_view_kept:
  assumes "\<forall>i. i \<noteq> out \<longrightarrow> i < n \<longrightarrow> reg_get r1 i = reg_get r i" "array_at r out = Some b" "array_at r1 out = Some b1"
    and "strs \<Longrightarrow> e < n"
  shows "elem_view r1 strs e = elem_view r strs e"
  using assms by (cases "e = out") (auto simp: elem_view_def string_at_def array_at_iff)

text \<open>Pushing the elements of a covered window one after the other appends their views.\<close>

lemma slice_push_loop_view:
  assumes "reg_inv r" "array_at r arr = Some a" "elements_ok r arr" "arr \<noteq> out"
    "array_view r out = Some (esize, strs, ws)" "elements_ok r out" "string_elements a = strs"
    "\<forall>k \<in> set offs. start + k < length (elements a)"
    "\<forall>k \<in> set offs. strs \<longrightarrow> string_at r (elements a ! (start + k)) \<noteq> None"
  shows "\<exists>r'. slice_push_loop arr start out offs r = (r', Some out) \<and> reg_inv r' \<and>
    (\<forall>i. i \<noteq> out \<longrightarrow> i < next_id_ctr r \<longrightarrow> reg_get r' i = reg_get r i) \<and>
    array_view r' out = Some (esize, strs, ws @ map (\<lambda>k. elem_view r strs (elements a ! (start + k))) offs) \<and>
    live r' = live r + (if strs then int (length offs) else 0)"
  using assms
proof (induction offs arbitrary: r ws)
  case Nil
  then show ?case by simp
next
  case (Cons k offs)
  let ?e = "elements a ! (start + k)"
  have get: "array_get arr (int (start + k)) r = Some ?e"
    using Cons.prems by (simp add: array_get_at nat_add_distrib)
  from Cons.prems(9) have "\<not> (strs \<and> string_at r ?e = None)" by simp
  with array_push_spec [OF Cons.prems(1,6,5), of ?e] obtain r1 where
    push: "array_push out ?e r = (r1, True)" and r1: "reg_inv r1" "elements_ok r1 out"
      "array_view r1 out = Some (esize, strs, ws @ [elem_view r strs ?e])"
    and old: "\<forall>i. i \<noteq> out \<longrightarrow> i < next_id_ctr r \<longrightarrow> reg_get r1 i = reg_get r i"
    and live1: "live r1 = live r + (if strs then 1 else 0)"
    by (auto split: if_splits)
  have le: "next_id_ctr r \<le> next_id_ctr r1" using array_push_next_id [of r out ?e] push by simp
  have arr: "array_at r1 arr = Some a"
    using array_at_range [OF Cons.prems(1,2)] old Cons.prems(2,4) by (simp add: array_at_iff)
  obtain b b1 where b: "array_at r out = Some b" "array_at r1 out = Some b1"
    using Cons.prems(5) r1(3) by (auto simp: array_view_def)
  have lt: "strs \<Longrightarrow> m \<in> set (k # offs) \<Longrightarrow> elements a ! (start + m) < next_id_ctr r" for m
    using Cons.prems(2,3,7,8) by (auto simp: elements_ok_def)
  have view: "elem_view r1 strs (elements a ! (start + m)) = elem_view r strs (elements a ! (start + m))"
    if "m \<in> set (k # offs)" for m
    by (rule elem_view_kept [OF old b]) (use lt that in blast)
  have "elements_ok r1 arr" using Cons.prems(2,3) arr le by (force simp: elements_ok_def)
  moreover have "\<forall>m \<in> set offs. strs \<longrightarrow> string_at r1 (elements a ! (start + m)) \<noteq> None"
    using view Cons.prems(9) by (force simp: elem_view_def)
  ultimately have "\<exists>r'. slice_push_loop arr start out offs r1 = (r', Some out) \<and> reg_inv r' \<and>
    (\<forall>i. i \<noteq> out \<longrightarrow> i < next_id_ctr r1 \<longrightarrow> reg_get r' i = reg_get r1 i) \<and>
    array_view r' out = Some (esize, strs, (ws @ [elem_view r strs ?e]) @
      map (\<lambda>k. elem_view r1 strs (elements a ! (start + k))) offs) \<and>
    live r' = live r1 + (if strs then int (length offs) else 0)"
    using Cons.prems(4,7,8) r1 arr by (intro Cons.IH) simp_all
  moreover have "map (\<lambda>k. elem_view r1 strs (elements a ! (start + k))) offs =
      map (\<lambda>k. elem_view r strs (elements a ! (start + k))) offs"
    using view by simp
  ultimately show ?case
    using get push old le live1 by (auto simp del: of_nat_add)
qed

section \<open>Properties\<close>

text \<open>C34: Windows never widen. A subslice exists exactly for bounds inside its parent's window,
  denotes a range of the same array inside the parent's range, and reading it is reading the
  parent at the shifted index; outside its own bounds every read fails.\<close>

theorem slice_sub_narrows:
  assumes inv: "reg_inv r" and w: "slice_window hid r = Some (arr, base, len)"
  shows "(0 \<le> start \<and> start \<le> stop \<and> stop \<le> int len) = (snd (slice_sub hid start stop r) \<noteq> None) \<and>
    (\<forall>r' j. slice_sub hid start stop r = (r', Some j) \<longrightarrow>
       reg_inv r' \<and> reg_get r j = None \<and>
       (\<exists>base' len'. slice_window j r' = Some (arr, base', len') \<and> base \<le> base' \<and> base' + len' \<le> base + len) \<and>
       (\<forall>k. slice_get j k r' = (if 0 \<le> k \<and> k < stop - start then slice_get hid (start + k) r else None)))"
proof (cases "0 \<le> start \<and> start \<le> stop \<and> stop \<le> int len")
  case True
  let ?r' = "fst (insert_handle (HSlice arr (base + nat start) (nat stop - nat start)) r)"
  have s: "slice_sub hid start stop r = (?r', Some (next_id_ctr r))"
    using True w by (auto simp: slice_sub_def split_beta Let_def)
  have win: "slice_window (next_id_ctr r) ?r' = Some (arr, base + nat start, nat stop - nat start)"
    using inv by (simp add: slice_window_insert)
  have "slice_get (next_id_ctr r) k ?r' = (if 0 \<le> k \<and> k < stop - start then slice_get hid (start + k) r else None)" for k
    using True w inv by (auto simp: slice_get_def win nat_add_distrib add.assoc)
  then show ?thesis
    using True s win fresh_id [OF reg_invD(2) [OF inv]] insert_slice_inv [OF inv]
    by (auto simp: nat_diff_distrib)
next
  case False
  then have "slice_sub hid start stop r = (r, None)"
    using w by (auto simp: slice_sub_def)
  then show ?thesis using False by simp
qed

lemma demo_slice_facts:
  defines "r \<equiv> fst (slice_of 3 0 2 demo_registry)"
  shows "reg_inv r" "slice_window 4 r = Some (3, 0, 2)" "array_at r 3 = Some \<lparr>elem_size = 8, string_elements = True, elements = [1, 2]\<rparr>"
    "string_at r 1 = Some ''a''" "string_at r 2 = Some ''b''" "next_id_ctr r = 5"
proof -
  have "with_array 3 (\<lambda>a. length (elements a)) demo_registry = Some 2"
    by (simp add: with_array_def demo_registry_facts NULL_def)
  then have r: "r = fst (insert_handle (HSlice 3 0 2) demo_registry)"
    by (simp add: r_def slice_of_def split_beta)
  show "reg_inv r" unfolding r by (rule insert_slice_inv [OF demo_registry_inv])
  show "slice_window 4 r = Some (3, 0, 2)"
    by (simp add: r slice_window_insert [OF demo_registry_inv] demo_registry_facts)
  show "array_at r 3 = Some \<lparr>elem_size = 8, string_elements = True, elements = [1, 2]\<rparr>"
      "string_at r 1 = Some ''a''" "string_at r 2 = Some ''b''" "next_id_ctr r = 5"
    by (simp_all add: r demo_registry_facts)
qed

theorem slice_sub_narrows_witness:
  "snd (slice_sub 4 1 2 (fst (slice_of 3 0 2 demo_registry))) \<noteq> None \<and>
   snd (slice_sub 4 1 3 (fst (slice_of 3 0 2 demo_registry))) = None"
  using slice_sub_narrows [OF demo_slice_facts(1,2), of 1 2] slice_sub_narrows [OF demo_slice_facts(1,2), of 1 3]
  by auto

text \<open>Copying a window out builds a fresh array of the same representation that holds the
  window of the source array, with fresh copies of its strings, and changes no handle that was
  registered before.\<close>

theorem slice_to_array_spec:
  assumes inv: "reg_inv r" and w: "slice_window hid r = Some (arr, start, len)" and a: "array_at r arr = Some a"
    and ok: "elements_ok r arr" and size: "0 < elem_size a" and cov: "start + len \<le> length (elements a)"
    and strs: "\<forall>e \<in> set (elements a). string_elements a \<longrightarrow> string_at r e \<noteq> None"
  shows "\<exists>r' j vs. slice_to_array hid r = (r', Some j) \<and> reg_inv r' \<and> reg_get r j = None \<and>
    array_view r arr = Some (elem_size a, string_elements a, vs) \<and>
    array_view r' j = Some (elem_size a, string_elements a, take len (drop start vs)) \<and>
    (\<forall>i. i < next_id_ctr r \<longrightarrow> reg_get r' i = reg_get r i) \<and>
    live r' = live r + 1 + (if string_elements a then int len else 0)"
proof -
  let ?b = "\<lparr>elem_size = elem_size a, string_elements = string_elements a, elements = []\<rparr>"
  let ?r1 = "fst (insert_handle (HArray ?b) r)"
  let ?n = "next_id_ctr r"
  have new: "array_new (int (elem_size a)) (int len) (if string_elements a then 1 else 0) r = (?r1, ?n)"
    using size by (simp add: array_new_def array_data_new_def prod_eq_iff)
  have wa: "with_array arr (\<lambda>a. (elem_size a, string_elements a)) r = Some (elem_size a, string_elements a)"
    using a array_at_not_null [OF inv a] by (simp add: with_array_def)
  have inv1: "reg_inv ?r1" by (simp add: insert_handle_inv inv)
  have lt: "arr < ?n" using array_at_range [OF inv a] by simp
  have a1: "array_at ?r1 arr = Some a" using a lt by simp
  have view: "elem_view ?r1 (string_elements a) (elements a ! (start + k)) =
      elem_view r (string_elements a) (elements a ! (start + k))" if "k < len" for k
    using that cov ok a by (auto intro!: elem_view_grows reg_grows_insert inv simp: elements_ok_def)
  have "\<exists>r'. slice_push_loop arr start ?n [0..<len] ?r1 = (r', Some ?n) \<and> reg_inv r' \<and>
    (\<forall>i. i \<noteq> ?n \<longrightarrow> i < next_id_ctr ?r1 \<longrightarrow> reg_get r' i = reg_get ?r1 i) \<and>
    array_view r' ?n = Some (elem_size a, string_elements a, [] @
      map (\<lambda>k. elem_view ?r1 (string_elements a) (elements a ! (start + k))) [0..<len]) \<and>
    live r' = live ?r1 + (if string_elements a then int (length [0..<len]) else 0)"
  proof (rule slice_push_loop_view [OF inv1 a1])
    show "elements_ok ?r1 arr" using ok a a1 by (force simp: elements_ok_def)
    show "\<forall>k \<in> set [0..<len]. string_elements a \<longrightarrow> string_at ?r1 (elements a ! (start + k)) \<noteq> None"
      using view strs cov by (force simp: elem_view_def)
  qed (use lt cov in \<open>auto simp: array_view_def elements_ok_def\<close>)
  moreover have "map (\<lambda>k. elem_view ?r1 (string_elements a) (elements a ! (start + k))) [0..<len] =
      take len (drop start (map (elem_view r (string_elements a)) (elements a)))"
    using view cov by (intro nth_equalityI) simp_all
  ultimately show ?thesis
    using new wa w a fresh_id [OF reg_invD(2) [OF inv]]
    by (auto simp: slice_to_array_def array_view_def)
qed

theorem slice_to_array_spec_witness:
  "\<exists>r' j. slice_to_array 4 (fst (slice_of 3 0 2 demo_registry)) = (r', Some j) \<and>
     array_view r' j = Some (8, True, [Text (Some ''a''), Text (Some ''b'')])"
proof -
  have "elements_ok (fst (slice_of 3 0 2 demo_registry)) 3"
    by (simp add: elements_ok_def demo_slice_facts)
  from slice_to_array_spec [OF demo_slice_facts(1-3) this] show ?thesis
    by (auto simp: demo_slice_facts array_view_def elem_view_def)
qed

end
