(* ===== verification/Registry_Memory.thy ===== *)
theory Registry_Memory
  imports Registry_Table
begin

text \<open>
  Pointer capabilities: handles into shared byte allocations, with bounds-checked loads and
  stores of little-endian integers and a per-thread cache of the last capability resolved.
  Several capabilities may alias one allocation; it is the address of the region that they
  share. A slice index out of range inside the runtime is a panic, the outcome \<open>Panicked\<close>.
\<close>

section \<open>Little-endian integers\<close>

fun le_bytes :: "nat \<Rightarrow> int \<Rightarrow> u8 list" where
  "le_bytes 0 z = []"
| "le_bytes (Suc n) z = word_of_int z # le_bytes n (z div 256)"

fun le_value :: "u8 list \<Rightarrow> int" where
  "le_value [] = 0"
| "le_value (b # bs) = uint b + 256 * le_value bs"

definition to_le_bytes :: "i64 \<Rightarrow> u8 list" where
  "to_le_bytes val = le_bytes 8 val"

definition from_le_bytes :: "u8 list \<Rightarrow> i64" where
  "from_le_bytes raw = wrap_i64 (le_value raw)"

definition checked_add_usize :: "usize \<Rightarrow> usize \<Rightarrow> usize option" where
  "checked_add_usize a b = (if a + b < 2 ^ 64 then Some (a + b) else None)"

definition checked_sub_usize :: "usize \<Rightarrow> usize \<Rightarrow> usize option" where
  "checked_sub_usize a b = (if b \<le> a then Some (a - b) else None)"

section \<open>Operations\<close>

datatype 'a outcome = Returned 'a | Panicked

text \<open>The match of a handle against \<open>Handle::Memory\<close>.\<close>

fun memory_data :: "'o handle \<Rightarrow> (nat \<times> usize) option" where
  "memory_data (HMemory bytes offset) = Some (bytes, offset)"
| "memory_data _ = None"

definition borrow_memory :: "i64 \<Rightarrow> 'o registry \<Rightarrow> (nat \<times> usize) option" where
  "borrow_memory hid r = (case borrow hid memory_data r of Some m \<Rightarrow> m | None \<Rightarrow> None)"

definition memory_region :: "i64 \<Rightarrow> 'o registry \<Rightarrow> 'o registry \<times> (nat \<times> usize) option" where
  "memory_region hid r =
     (let generation = registry_gen r;
          cached = Option.bind (memory_cache r)
            (\<lambda>entry. if cr_id entry = hid \<and> cr_generation entry = generation
                     then Some (cr_bytes entry, cr_offset entry) else None)
      in case cached of
           Some region \<Rightarrow> (r, Some region)
         | None \<Rightarrow>
             (case borrow_memory hid r of
                None \<Rightarrow> (r, None)
              | Some region \<Rightarrow>
                  (r\<lparr>memory_cache := Some \<lparr>cr_id = hid, cr_generation = generation,
                       cr_bytes = fst region, cr_offset = snd region\<rparr>\<rparr>, Some region)))"

definition memory_alloc :: "usize \<Rightarrow> 'o registry \<Rightarrow> 'o registry \<times> i64" where
  "memory_alloc sz r =
     (let b = next_region r
      in insert_handle (HMemory b 0) (r\<lparr>regions := (regions r)(b := replicate sz 0), next_region := b + 1\<rparr>))"

definition memory_offset :: "i64 \<Rightarrow> i64 \<Rightarrow> 'o registry \<Rightarrow> 'o registry \<times> i64 option" where
  "memory_offset hid delta r =
     (case borrow_memory hid r of
        None \<Rightarrow> (r, None)
      | Some (bytes, offset) \<Rightarrow>
          (case (if 0 \<le> delta then checked_add_usize offset (nat delta)
                 else checked_sub_usize offset (nat \<bar>delta\<bar>)) of
             None \<Rightarrow> (r, None)
           | Some new_offset \<Rightarrow>
               if new_offset \<le> length (regions r bytes)
               then (let (r1, i) = insert_handle (HMemory bytes new_offset) r in (r1, Some i))
               else (r, None)))"

definition memory_clone :: "i64 \<Rightarrow> 'o registry \<Rightarrow> 'o registry \<times> i64 option" where
  "memory_clone hid r =
     (case borrow_memory hid r of
        None \<Rightarrow> (r, None)
      | Some (bytes, offset) \<Rightarrow>
          (let (r1, i) = insert_handle (HMemory bytes offset) r in (r1, Some i)))"

definition memory_drop :: "i64 \<Rightarrow> 'o registry \<Rightarrow> 'o registry" where
  "memory_drop hid r =
     (if hid = NULL then r
      else (case reg_get r hid of
              Some (HMemory _ _) \<Rightarrow>
                (let r1 = reg_del hid r
                 in r1\<lparr>live := live r1 - 1, registry_gen := registry_gen r1 + 1\<rparr>)
            | _ \<Rightarrow> r))"

definition memory_load :: "i64 \<Rightarrow> usize \<Rightarrow> 'o registry \<Rightarrow> 'o registry \<times> i64 option outcome" where
  "memory_load hid width r =
     (case memory_region hid r of
        (r1, None) \<Rightarrow> (r1, Returned None)
      | (r1, Some (b, offset)) \<Rightarrow>
          (let bytes = regions r1 b
           in case checked_add_usize offset width of
                None \<Rightarrow> (r1, Returned None)
              | Some stop \<Rightarrow>
                  if length bytes < stop then (r1, Returned None)
                  else if 8 < width then (r1, Panicked)
                  else (r1, Returned (Some (from_le_bytes (take width (drop offset bytes) @ replicate (8 - width) 0))))))"

definition memory_store :: "i64 \<Rightarrow> usize \<Rightarrow> i64 \<Rightarrow> 'o registry \<Rightarrow> 'o registry \<times> bool outcome" where
  "memory_store hid width val r =
     (case memory_region hid r of
        (r1, None) \<Rightarrow> (r1, Returned False)
      | (r1, Some (b, offset)) \<Rightarrow>
          (let bytes = regions r1 b
           in case checked_add_usize offset width of
                None \<Rightarrow> (r1, Returned False)
              | Some stop \<Rightarrow>
                  if length bytes < stop then (r1, Returned False)
                  else if 8 < width then (r1, Panicked)
                  else (r1\<lparr>regions := (regions r1)
                          (b := take offset bytes @ take width (to_le_bytes val) @ drop stop bytes)\<rparr>,
                        Returned True)))"

section \<open>Byte encodings\<close>

lemma length_le_bytes [simp]: "length (le_bytes n z) = n"
  by (induction n arbitrary: z) simp_all

lemma take_le_bytes: "w \<le> n \<Longrightarrow> take w (le_bytes n z) = le_bytes w z"
proof (induction n arbitrary: w z)
  case 0
  then show ?case by simp
next
  case (Suc n)
  then show ?case by (cases w) simp_all
qed

lemma le_value_le_bytes: "le_value (le_bytes n z) = z mod 256 ^ n"
proof (induction n arbitrary: z)
  case 0
  then show ?case by simp
next
  case (Suc n)
  have "z mod (256 * 256 ^ n) = 256 * (z div 256 mod 256 ^ n) + z mod 256"
    by (rule zmod_zmult2_eq) simp
  then show ?case by (simp add: Suc uint_word_of_int)
qed

lemma le_value_zeros [simp]: "le_value (replicate k 0) = 0"
  by (induction k) simp_all

lemma le_value_append_zeros [simp]: "le_value (bs @ replicate k 0) = le_value bs"
  by (induction bs) simp_all

text \<open>What a load of the given width reads back of a stored value: the value itself at full
  width, its low bytes otherwise.\<close>

definition truncate_to :: "usize \<Rightarrow> i64 \<Rightarrow> i64" where
  "truncate_to width val = (if width < 8 then val mod 256 ^ width else val)"

lemma from_to_le_bytes:
  assumes "w \<le> 8" "in_i64 z"
  shows "from_le_bytes (take w (to_le_bytes z) @ replicate (8 - w) 0) = truncate_to w z"
proof (cases "w < 8")
  case True
  then have "(256 :: int) ^ w \<le> 256 ^ 7" by (intro power_increasing) auto
  moreover have "0 \<le> z mod 256 ^ w" "z mod 256 ^ w < 256 ^ w" by simp_all
  ultimately have "0 \<le> z mod 256 ^ w" "z mod 256 ^ w < 256 ^ 7" by linarith+
  moreover have "in_i64 m" if "0 \<le> m" "m < 256 ^ 7" for m using that by (simp add: in_i64_def)
  ultimately have "in_i64 (z mod 256 ^ w)" by blast
  with True show ?thesis
    by (simp add: from_le_bytes_def to_le_bytes_def take_le_bytes le_value_le_bytes wrap_i64_id truncate_to_def)
next
  case False
  then have "w = 8" using assms by simp
  moreover have "wrap_i64 (z mod 256 ^ 8) = z"
    using assms(2) by (simp add: wrap_i64_def in_i64_def mod_add_left_eq) 
  ultimately show ?thesis
    by (simp add: from_le_bytes_def to_le_bytes_def le_value_le_bytes truncate_to_def)
qed

section \<open>Lemmas\<close>

lemma memory_data_iff: "memory_data h = Some (b, off) \<longleftrightarrow> h = HMemory b off"
  by (cases h) auto

lemma borrow_memory_iff:
  "reg_inv r \<Longrightarrow> borrow_memory hid r = Some (b, off) \<longleftrightarrow> reg_get r hid = Some (HMemory b off)"
  using reg_inv_get_null [of r] by (auto simp: borrow_memory_def borrow_def memory_data_iff split: option.splits)

lemma reg_inv_cache:
  assumes inv: "reg_inv r" and c: "cr_generation c = registry_gen r"
    "reg_get r (cr_id c) = Some (HMemory (cr_bytes c) (cr_offset c))"
  shows "reg_inv (r\<lparr>memory_cache := Some c\<rparr>)"
  using reg_invD [OF inv] c
  by (simp add: reg_inv_def ids_inv_def count_inv_def memory_inv_def cache_inv_def)

lemma reg_inv_regions:
  assumes inv: "reg_inv r" and len: "\<And>k. k < next_region r \<Longrightarrow> length (f k) = length (regions r k)"
    and m: "next_region r \<le> m"
  shows "reg_inv (r\<lparr>regions := f, next_region := m\<rparr>)"
proof -
  have "handle_ok (r\<lparr>regions := f, next_region := m\<rparr>) h" if "handle_ok r h" for h
    using that len m by (auto simp: handle_ok_def split: handle.splits)
  then show ?thesis
    using reg_invD [OF inv] by (simp add: reg_inv_def ids_inv_def count_inv_def memory_inv_def cache_inv_def)
qed

lemma next_region_same: "next_region r = m \<Longrightarrow> r\<lparr>regions := f, next_region := m\<rparr> = r\<lparr>regions := f\<rparr>"
  by (cases r) simp

lemma memory_region_result:
  assumes "reg_inv r"
  shows "snd (memory_region hid r) = borrow_memory hid r"
proof (cases "snd (memory_region hid r)")
  case None
  then show ?thesis by (auto simp: memory_region_def Let_def split: option.splits)
next
  case (Some w)
  then obtain b off where w: "snd (memory_region hid r) = Some (b, off)" by (cases w) auto
  have "borrow_memory hid r = Some (b, off)" if c: "memory_cache r = Some c" "cr_id c = hid"
      "cr_generation c = registry_gen r" "cr_bytes c = b" "cr_offset c = off" for c
    using reg_invD(5) [OF assms] c by (auto simp: cache_inv_def borrow_memory_iff [OF assms])
  with w show ?thesis
    by (auto simp: memory_region_def Let_def bind_eq_Some_conv split: option.splits if_splits)
qed

lemma memory_region_state:
  "fst (memory_region hid r) = r \<or>
   (\<exists>b off. borrow_memory hid r = Some (b, off) \<and>
      fst (memory_region hid r) = r\<lparr>memory_cache := Some \<lparr>cr_id = hid, cr_generation = registry_gen r,
                                    cr_bytes = b, cr_offset = off\<rparr>\<rparr>)"
  by (auto simp: memory_region_def Let_def split: option.splits)

lemma memory_region_inv: "reg_inv r \<Longrightarrow> reg_inv (fst (memory_region hid r))"
  using memory_region_state [of hid r]
  by (auto simp: borrow_memory_iff intro!: reg_inv_cache)

lemma memory_region_fields [simp]:
  "reg_get (fst (memory_region hid r)) = reg_get r"
  "regions (fst (memory_region hid r)) = regions r"
  "next_region (fst (memory_region hid r)) = next_region r"
  "registry_gen (fst (memory_region hid r)) = registry_gen r"
  "live (fst (memory_region hid r)) = live r"
  using memory_region_state [of hid r] by (auto simp: fun_eq_iff)

lemma memory_alloc_inv [reg_inv]: "reg_inv r \<Longrightarrow> reg_inv (fst (memory_alloc n r))"
  unfolding memory_alloc_def Let_def
  by (intro insert_handle_inv reg_inv_regions) (simp_all add: handle_ok_def)

lemma borrow_memory_ok:
  "reg_inv r \<Longrightarrow> borrow_memory hid r = Some (b, off) \<Longrightarrow> b < next_region r \<and> off \<le> length (regions r b)"
  using reg_invD(4) [of r] by (fastforce simp: borrow_memory_iff memory_inv_def handle_ok_def)

lemma memory_offset_inv [reg_inv]: "reg_inv r \<Longrightarrow> reg_inv (fst (memory_offset hid d r))"
  by (auto simp: memory_offset_def split_beta handle_ok_def intro!: insert_handle_inv dest: borrow_memory_ok
      split: option.splits)

lemma memory_clone_inv [reg_inv]: "reg_inv r \<Longrightarrow> reg_inv (fst (memory_clone hid r))"
  by (auto simp: memory_clone_def split_beta handle_ok_def intro!: insert_handle_inv dest: borrow_memory_ok
      split: option.splits)

lemma memory_drop_inv [reg_inv]: "reg_inv r \<Longrightarrow> reg_inv (memory_drop i r)"
  by (auto simp: memory_drop_def Let_def intro: reg_inv_take split: option.splits handle.splits)

lemma memory_load_state: "fst (memory_load hid w r) = fst (memory_region hid r)"
  by (auto simp: memory_load_def Let_def split: prod.splits option.splits)

lemma memory_load_inv [reg_inv]: "reg_inv r \<Longrightarrow> reg_inv (fst (memory_load hid w r))"
  by (simp add: memory_load_state memory_region_inv)

lemma memory_load_eq:
  assumes "reg_inv r"
  shows "snd (memory_load hid w r) =
    (case borrow_memory hid r of
       None \<Rightarrow> Returned None
     | Some (b, off) \<Rightarrow>
         if 2 ^ 64 \<le> off + w \<or> length (regions r b) < off + w then Returned None
         else if 8 < w then Panicked
         else Returned (Some (from_le_bytes (take w (drop off (regions r b)) @ replicate (8 - w) 0))))"
proof -
  obtain r1 x where m: "memory_region hid r = (r1, x)" by fastforce
  then have "regions r1 = regions r" "x = borrow_memory hid r"
    using memory_region_fields(2) [of hid r] memory_region_result [OF assms, of hid] by simp_all
  with m show ?thesis
    by (simp add: memory_load_def checked_add_usize_def split: option.split)
qed

lemma memory_store_eq:
  assumes "reg_inv r"
  shows "memory_store hid w val r =
    (let r1 = fst (memory_region hid r)
     in case borrow_memory hid r of
       None \<Rightarrow> (r1, Returned False)
     | Some (b, off) \<Rightarrow>
         if 2 ^ 64 \<le> off + w \<or> length (regions r b) < off + w then (r1, Returned False)
         else if 8 < w then (r1, Panicked)
         else (r1\<lparr>regions := (regions r)
                 (b := take off (regions r b) @ take w (to_le_bytes val) @ drop (off + w) (regions r b))\<rparr>,
               Returned True))"
proof -
  obtain r1 x where m: "memory_region hid r = (r1, x)" by fastforce
  then have "regions r1 = regions r" "x = borrow_memory hid r"
    using memory_region_fields(2) [of hid r] memory_region_result [OF assms, of hid] by simp_all
  with m show ?thesis
    by (simp add: memory_store_def checked_add_usize_def Let_def split: option.split)
qed

lemma memory_store_inv [reg_inv]:
  assumes inv: "reg_inv r"
  shows "reg_inv (fst (memory_store hid w val r))"
proof -
  let ?r1 = "fst (memory_region hid r)"
  have inv1: "reg_inv ?r1" by (rule memory_region_inv [OF inv])
  have "reg_inv (?r1\<lparr>regions := (regions r)(b := bs)\<rparr>)" if "length bs = length (regions r b)" for b bs
    using reg_inv_regions [OF inv1, of "(regions r)(b := bs)" "next_region ?r1"] that
    by (simp add: next_region_same)
  with inv1 show ?thesis
    by (auto simp: memory_store_eq [OF inv] Let_def to_le_bytes_def split: option.split)
qed

lemma memory_drop_get: "reg_inv r \<Longrightarrow> borrow_memory hid (memory_drop hid r) = None"
  by (auto simp: memory_drop_def borrow_memory_def borrow_def Let_def split: option.splits handle.splits)

lemma update_bytes_self:
  "off + w \<le> length bs \<Longrightarrow> length v = w \<Longrightarrow> take w (drop off (take off bs @ v @ drop (off + w) bs)) = v"
  by simp

lemma update_bytes_nth:
  "off + w \<le> length bs \<Longrightarrow> length v = w \<Longrightarrow> k < off \<or> off + w \<le> k \<Longrightarrow>
   (take off bs @ v @ drop (off + w) bs) ! k = bs ! k"
  by (auto simp: nth_append)

section \<open>Properties\<close>

text \<open>The per-thread capability cache is transparent: resolving a handle yields exactly the
  region and offset registered for it, whether or not the cache answers, and the table is left
  unchanged. In particular a capability that has been dropped is never served again.\<close>

theorem memory_region_coherent:
  assumes "reg_inv r"
  shows "reg_inv (fst (memory_region hid r)) \<and> reg_get (fst (memory_region hid r)) = reg_get r \<and>
    (\<forall>b off. snd (memory_region hid r) = Some (b, off) \<longleftrightarrow> reg_get r hid = Some (HMemory b off)) \<and>
    snd (memory_region hid (memory_drop hid r)) = None"
  using assms
  by (simp add: memory_region_inv memory_region_result memory_drop_inv memory_drop_get borrow_memory_iff)

lemma alloc_facts:
  defines "r \<equiv> fst (memory_alloc 4 (reg_init :: nat registry))"
  shows "reg_inv r" "reg_get r 1 = Some (HMemory 0 0)" "regions r 0 = [0, 0, 0, 0]"
proof -
  show "reg_inv r" unfolding r_def by (rule memory_alloc_inv [OF reg_inv_init])
  have "next_id_ctr (reg_init :: nat registry) = 1" "next_region (reg_init :: nat registry) = 0"
    by (simp_all add: reg_init_def)
  then show "reg_get r 1 = Some (HMemory 0 0)" "regions r 0 = [0, 0, 0, 0]"
    by (simp_all add: r_def memory_alloc_def numeral_eq_Suc)
qed

theorem memory_region_coherent_witness:
  "snd (memory_region 1 (fst (memory_region 1 (fst (memory_alloc 4 (reg_init :: nat registry)))))) = Some (0, 0)"
proof -
  have "reg_inv (fst (memory_region 1 (fst (memory_alloc 4 (reg_init :: nat registry)))))"
    using memory_region_coherent [OF alloc_facts(1), of 1] by simp
  from memory_region_coherent [OF this, of 1] alloc_facts(2) show ?thesis by simp
qed

text \<open>C11: A store of at most eight bytes through a capability succeeds exactly when it lies inside
  the allocation. It then changes those bytes only, and a load of the same width through any
  capability for the same place reads the value back, truncated to the width. A store that does
  not fit changes no byte.\<close>

theorem memory_store_load:
  assumes inv: "reg_inv r" and m: "reg_get r hid = Some (HMemory b off)" "reg_get r hid2 = Some (HMemory b off)"
    and w: "w \<le> 8" and z: "in_i64 z" and cap: "length (regions r b) < 2 ^ 64"
  shows "\<exists>r' ok. memory_store hid w z r = (r', Returned ok) \<and> reg_inv r' \<and> reg_get r' = reg_get r \<and>
    (ok \<longleftrightarrow> off + w \<le> length (regions r b)) \<and>
    length (regions r' b) = length (regions r b) \<and>
    (\<forall>c k. c \<noteq> b \<or> \<not> ok \<or> k < off \<or> off + w \<le> k \<longrightarrow> regions r' c ! k = regions r c ! k) \<and>
    snd (memory_load hid2 w r') = Returned (if ok then Some (truncate_to w z) else None)"
proof -
  let ?r1 = "fst (memory_region hid r)"
  have mem: "borrow_memory hid r = Some (b, off)" using m inv by (simp add: borrow_memory_iff)
  show ?thesis
  proof (cases "off + w \<le> length (regions r b)")
    case True
    define v where "v = take w (to_le_bytes z)"
    have v: "length v = w" using w by (simp add: v_def to_le_bytes_def)
    define r' where "r' = ?r1\<lparr>regions := (regions r)(b := take off (regions r b) @ v @ drop (off + w) (regions r b))\<rparr>"
    have st: "memory_store hid w z r = (r', Returned True)"
      using True w cap mem by (simp add: memory_store_eq [OF inv] r'_def v_def)
    then have inv': "reg_inv r'" using memory_store_inv [OF inv, of hid w z] by simp
    have get: "reg_get r' = reg_get r" by (simp add: r'_def)
    then have "borrow_memory hid2 r' = Some (b, off)" using m(2) inv' by (simp add: borrow_memory_iff)
    moreover have "regions r' b = take off (regions r b) @ v @ drop (off + w) (regions r b)" by (simp add: r'_def)
    ultimately have "snd (memory_load hid2 w r') = Returned (Some (truncate_to w z))"
      using True w cap v from_to_le_bytes [OF w z] by (simp add: memory_load_eq [OF inv'] v_def [symmetric])
    then show ?thesis
      using st inv' get True v update_bytes_nth [OF True v] by (auto simp: r'_def)
  next
    case False
    then have st: "memory_store hid w z r = (?r1, Returned False)"
      using mem by (simp add: memory_store_eq [OF inv])
    have inv1: "reg_inv ?r1" by (rule memory_region_inv [OF inv])
    then have "borrow_memory hid2 ?r1 = Some (b, off)" using m(2) by (simp add: borrow_memory_iff)
    then have "snd (memory_load hid2 w ?r1) = Returned None"
      using False by (simp add: memory_load_eq [OF inv1])
    then show ?thesis using st inv1 False by auto
  qed
qed

theorem memory_store_load_witness:
  "\<exists>r'. memory_store 1 2 65537 (fst (memory_alloc 4 (reg_init :: nat registry))) = (r', Returned True) \<and>
     snd (memory_load 1 2 r') = Returned (Some 1)"
  using memory_store_load [OF alloc_facts(1,2,2), of 2 65537] alloc_facts(3)
  by (auto simp: in_i64_def truncate_to_def)

text \<open>Pointer arithmetic never leaves the allocation: moving a capability succeeds exactly when
  the new offset is between zero and the length of the allocation, and yields a fresh capability
  for the same allocation.\<close>

theorem memory_offset_bounds:
  assumes inv: "reg_inv r" and m: "reg_get r hid = Some (HMemory b off)" and cap: "length (regions r b) < 2 ^ 64"
  shows "if 0 \<le> int off + delta \<and> int off + delta \<le> int (length (regions r b))
         then \<exists>r' j. memory_offset hid delta r = (r', Some j) \<and> reg_inv r' \<and> reg_get r j = None \<and>
                reg_get r' j = Some (HMemory b (nat (int off + delta)))
         else memory_offset hid delta r = (r, None)"
proof -
  have mem: "borrow_memory hid r = Some (b, off)" using m inv by (simp add: borrow_memory_iff)
  have off: "(if 0 \<le> delta then checked_add_usize off (nat delta) else checked_sub_usize off (nat \<bar>delta\<bar>)) =
      (if 0 \<le> int off + delta \<and> int off + delta < 2 ^ 64 then Some (nat (int off + delta)) else None)"
    using borrow_memory_ok [OF inv mem] cap
    by (auto simp: checked_add_usize_def checked_sub_usize_def nat_add_distrib nat_less_iff nat_le_iff)
  show ?thesis
  proof (cases "0 \<le> int off + delta \<and> int off + delta \<le> int (length (regions r b))")
    case True
    moreover have "int (length (regions r b)) < 2 ^ 64" using cap by simp
    ultimately have le: "nat (int off + delta) \<le> length (regions r b)" "int off + delta < 2 ^ 64"
      by linarith+
    let ?j = "next_id_ctr r"
    let ?r' = "fst (insert_handle (HMemory b (nat (int off + delta))) r)"
    have "memory_offset hid delta r = (?r', Some ?j)"
      using True mem off le by (simp add: memory_offset_def split_beta)
    moreover have "reg_inv ?r'"
      using le(1) borrow_memory_ok [OF inv mem] by (intro insert_handle_inv [OF inv]) (simp add: handle_ok_def)
    ultimately show ?thesis
      using True fresh_id [OF reg_invD(2) [OF inv]] by simp
  next
    case False
    then show ?thesis using mem off by (auto simp: memory_offset_def nat_le_iff)
  qed
qed

theorem memory_offset_bounds_witness:
  "memory_offset 1 5 (fst (memory_alloc 4 (reg_init :: nat registry))) = (fst (memory_alloc 4 reg_init), None) \<and>
   snd (memory_offset 1 4 (fst (memory_alloc 4 (reg_init :: nat registry)))) \<noteq> None"
  using memory_offset_bounds [OF alloc_facts(1,2), of 5] memory_offset_bounds [OF alloc_facts(1,2), of 4]
  by (auto simp: alloc_facts(3))

end
