(* ===== verification/Registry_Boxes.thy ===== *)
theory Registry_Boxes
  imports Registry_Table
begin

text \<open>
  The remaining kinds of handles: reference-counted shared boxes and channels, sleep futures,
  offloaded futures, goroutine and reactor handles, and the opaque values of the library modules.

  A call that one of these operations makes into the task scheduler after it has released the
  registry lock is a value of \<open>task_call\<close> in its result, in the order of the calls. The clock
  reading of \<open>async_sleep_poll\<close> is an argument. A downcast to the type \<open>T\<close> is a pair of functions:
  \<open>down\<close> is \<open>downcast\<close> (\<open>None\<close> when the value has another type) and \<open>up\<close> boxes a \<open>T\<close>.

  \<open>async_op_poll\<close>, which interleaves with the scheduler's table of operations, is not modelled.
\<close>

section \<open>Shared boxes\<close>

definition shared_new :: "i64 \<Rightarrow> 'o registry \<Rightarrow> 'o registry \<times> i64" where
  "shared_new inner r = insert_handle (HShared inner 1) r"

text \<open>The closure gets the fields of the box and returns the new ones with its result.\<close>

definition with_shared_mut ::
    "i64 \<Rightarrow> (i64 \<Rightarrow> u64 \<Rightarrow> (i64 \<times> u64) \<times> 'r) \<Rightarrow> 'o registry \<Rightarrow> 'o registry \<times> 'r option" where
  "with_shared_mut hid f r =
     (let (r1, x) = borrow_mut hid (\<lambda>h. case h of
            HShared inner cnt \<Rightarrow> (let ((inner', cnt'), y) = f inner cnt in (HShared inner' cnt', Some y))
          | _ \<Rightarrow> (h, None)) r
      in (r1, Option.bind x (\<lambda>y. y)))"

definition shared_retain :: "i64 \<Rightarrow> 'o registry \<Rightarrow> 'o registry \<times> i64" where
  "shared_retain hid r = (fst (with_shared_mut hid (\<lambda>inner cnt. ((inner, cnt + 1), ())) r), hid)"

definition shared_release :: "i64 \<Rightarrow> 'o registry \<Rightarrow> 'o registry \<times> i64" where
  "shared_release hid r =
     (if hid = NULL then (r, NULL)
      else (case reg_get r hid of
              Some (HShared inner cnt) \<Rightarrow>
                (let cnt' = saturating_sub_u64 cnt 1; r1 = reg_put hid (HShared inner cnt') r
                 in if 0 < cnt' then (r1, NULL)
                    else (let r2 = reg_del hid r1 in (r2\<lparr>live := live r2 - 1\<rparr>, inner)))
            | _ \<Rightarrow> (r, NULL)))"

definition shared_inner :: "i64 \<Rightarrow> 'o registry \<Rightarrow> 'o registry \<times> i64" where
  "shared_inner hid r =
     (let (r1, x) = with_shared_mut hid (\<lambda>inner cnt. ((inner, cnt), inner)) r
      in (r1, case x of Some i \<Rightarrow> i | None \<Rightarrow> NULL))"

section \<open>Calls into the scheduler\<close>

datatype task_call =
    ParkTimer i64
  | DropOp i64
  | DropGoroutine i64
  | DropChan i64
  | DetachFd i64
  | DropIo i64

section \<open>Sleep futures\<close>

definition async_sleep_new :: "i64 \<Rightarrow> 'o registry \<Rightarrow> 'o registry \<times> i64" where
  "async_sleep_new ms r = insert_handle (HAsyncSleep 0 ms 0) r"

definition async_sleep_poll :: "i64 \<Rightarrow> i64 \<Rightarrow> 'o registry \<Rightarrow> 'o registry \<times> int \<times> task_call list" where
  "async_sleep_poll now_ms hid r =
     (case reg_get r hid of
        Some (HAsyncSleep state ms deadline) \<Rightarrow>
          if state = 0
          then (let deadline' = saturating_add_i64 now_ms ms
                in (reg_put hid (HAsyncSleep 1 ms deadline') r, 0, [ParkTimer deadline']))
          else if state = 1
          then if deadline \<le> now_ms then (reg_put hid (HAsyncSleep 2 ms deadline) r, 1, [])
               else (r, 0, [ParkTimer deadline])
          else (r, 1, [])
      | _ \<Rightarrow> (r, 0, []))"

definition async_sleep_drop :: "i64 \<Rightarrow> 'o registry \<Rightarrow> 'o registry" where
  "async_sleep_drop hid r =
     (if hid = NULL then r
      else (case reg_get r hid of
              Some (HAsyncSleep _ _ _) \<Rightarrow> (let r1 = reg_del hid r in r1\<lparr>live := live r1 - 1\<rparr>)
            | _ \<Rightarrow> r))"

section \<open>Offloaded futures\<close>

definition async_op_new :: "nat \<Rightarrow> 'o registry \<Rightarrow> 'o registry \<times> i64" where
  "async_op_new work r = insert_handle (HAsyncOp 0 (Some work) 0 NULL) r"

definition async_op_result :: "i64 \<Rightarrow> 'o registry \<Rightarrow> i64" where
  "async_op_result hid r =
     (if hid = NULL then NULL
      else (case reg_get r hid of
              Some (HAsyncOp state _ _ res) \<Rightarrow> if state = 2 then res else NULL
            | _ \<Rightarrow> NULL))"

fun is_async_op :: "'o handle \<Rightarrow> bool" where
  "is_async_op (HAsyncOp _ _ _ _) = True"
| "is_async_op _ = False"

definition async_op_drop :: "i64 \<Rightarrow> 'o registry \<Rightarrow> 'o registry \<times> task_call list" where
  "async_op_drop hid r =
     (if hid = NULL then (r, [])
      else (let pending = (case reg_get r hid of
                  Some (HAsyncOp state _ op _) \<Rightarrow> if state = 1 \<and> op \<noteq> 0 then [DropOp op] else []
                | _ \<Rightarrow> [])
            in (fst (remove_kind hid is_async_op r), pending)))"

section \<open>Goroutines, channels and reactor handles\<close>

definition remove_goroutine_handle :: "i64 \<Rightarrow> 'o registry \<Rightarrow> 'o registry" where
  "remove_goroutine_handle hid r =
     (if hid = NULL then r
      else (case reg_get r hid of
              Some (HGoroutine _) \<Rightarrow> (let r1 = reg_del hid r in r1\<lparr>live := live r1 - 1\<rparr>)
            | _ \<Rightarrow> r))"

fun is_goroutine :: "'o handle \<Rightarrow> bool" where
  "is_goroutine (HGoroutine _) = True"
| "is_goroutine _ = False"

definition goroutine_drop :: "i64 \<Rightarrow> 'o registry \<Rightarrow> 'o registry \<times> task_call list" where
  "goroutine_drop hid r =
     (case remove_kind hid is_goroutine r of
        (r1, Some (HGoroutine core)) \<Rightarrow> (r1, [DropGoroutine core])
      | (r1, _) \<Rightarrow> (r1, []))"

definition with_chan_mut ::
    "i64 \<Rightarrow> ('o handle \<Rightarrow> 'o handle \<times> 'r) \<Rightarrow> 'o registry \<Rightarrow> 'o registry \<times> 'r option" where
  "with_chan_mut hid f r =
     (let (r1, x) = borrow_mut hid (\<lambda>h. case h of
            HChan _ _ \<Rightarrow> (let (h', y) = f h in (h', Some y))
          | _ \<Rightarrow> (h, None)) r
      in (r1, Option.bind x (\<lambda>y. y)))"

definition chan_retain :: "i64 \<Rightarrow> 'o registry \<Rightarrow> 'o registry \<times> i64" where
  "chan_retain hid r =
     (fst (with_chan_mut hid (\<lambda>h. case h of
          HChan core cnt \<Rightarrow> (HChan core (saturating_add_u64 cnt 1), ())
        | _ \<Rightarrow> (h, ())) r), hid)"

definition chan_drop :: "i64 \<Rightarrow> 'o registry \<Rightarrow> 'o registry \<times> task_call list" where
  "chan_drop hid r =
     (if hid = NULL then (r, [])
      else (case reg_get r hid of
              Some (HChan core cnt) \<Rightarrow>
                (let cnt' = saturating_sub_u64 cnt 1; r1 = reg_put hid (HChan core cnt') r
                 in if 0 < cnt' then (r1, [])
                    else (let r2 = reg_del hid r1 in (r2\<lparr>live := live r2 - 1\<rparr>, [DropChan core])))
            | _ \<Rightarrow> (r, [])))"

fun is_reactor_reg :: "'o handle \<Rightarrow> bool" where
  "is_reactor_reg (HReactorReg _) = True"
| "is_reactor_reg _ = False"

definition reactor_reg_drop :: "i64 \<Rightarrow> 'o registry \<Rightarrow> 'o registry \<times> task_call list" where
  "reactor_reg_drop hid r =
     (case remove_kind hid is_reactor_reg r of
        (r1, Some (HReactorReg core)) \<Rightarrow> (r1, [DetachFd core, DropIo core])
      | (r1, _) \<Rightarrow> (r1, []))"

fun is_async_io :: "'o handle \<Rightarrow> bool" where
  "is_async_io (HAsyncIo _) = True"
| "is_async_io _ = False"

definition async_io_drop :: "i64 \<Rightarrow> 'o registry \<Rightarrow> 'o registry \<times> task_call list" where
  "async_io_drop hid r =
     (case remove_kind hid is_async_io r of
        (r1, Some (HAsyncIo core)) \<Rightarrow> (r1, [DetachFd core, DropIo core])
      | (r1, _) \<Rightarrow> (r1, []))"

definition task_core :: "i64 \<Rightarrow> 'o registry \<Rightarrow> i64 option" where
  "task_core hid r =
     (case borrow hid (\<lambda>h. case h of
          HGoroutine core \<Rightarrow> Some core
        | HChan core _ \<Rightarrow> Some core
        | HReactorReg core \<Rightarrow> Some core
        | HAsyncIo core \<Rightarrow> Some core
        | _ \<Rightarrow> None) r of
        Some x \<Rightarrow> x
      | None \<Rightarrow> None)"

section \<open>Opaque values\<close>

definition put_opaque :: "('t \<Rightarrow> 'o) \<Rightarrow> 't \<Rightarrow> 'o registry \<Rightarrow> 'o registry \<times> i64" where
  "put_opaque up val r = insert_handle (HOpaque (up val)) r"

definition with_opaque :: "('o \<Rightarrow> 't option) \<Rightarrow> i64 \<Rightarrow> ('t \<Rightarrow> 'r) \<Rightarrow> 'o registry \<Rightarrow> 'r option" where
  "with_opaque down hid f r =
     Option.bind (borrow hid (\<lambda>h. case h of HOpaque v \<Rightarrow> map_option f (down v) | _ \<Rightarrow> None) r) (\<lambda>x. x)"

definition with_opaque_mut ::
    "('t \<Rightarrow> 'o) \<Rightarrow> ('o \<Rightarrow> 't option) \<Rightarrow> i64 \<Rightarrow> ('t \<Rightarrow> 't \<times> 'r) \<Rightarrow> 'o registry \<Rightarrow> 'o registry \<times> 'r option" where
  "with_opaque_mut up down hid f r =
     (let (r1, x) = borrow_mut hid (\<lambda>h. case h of
            HOpaque v \<Rightarrow>
              (case down v of
                 Some t \<Rightarrow> (let (t', y) = f t in (HOpaque (up t'), Some y))
               | None \<Rightarrow> (h, None))
          | _ \<Rightarrow> (h, None)) r
      in (r1, Option.bind x (\<lambda>y. y)))"

definition take_opaque :: "('o \<Rightarrow> 't option) \<Rightarrow> i64 \<Rightarrow> 'o registry \<Rightarrow> 'o registry \<times> 't option" where
  "take_opaque down hid r =
     (if hid = NULL then (r, None)
      else (case reg_get r hid of
              Some (HOpaque v) \<Rightarrow>
                (case down v of
                   Some t \<Rightarrow> (let r1 = reg_del hid r in (r1\<lparr>live := live r1 - 1\<rparr>, Some t))
                 | None \<Rightarrow> (r, None))
            | _ \<Rightarrow> (r, None)))"

text \<open>The value is out of the table while the closure runs without the lock: \<open>opaque_io_take\<close> is
  the first critical section, \<open>opaque_io_put\<close> the second.\<close>

definition opaque_io_take :: "('o \<Rightarrow> 't option) \<Rightarrow> i64 \<Rightarrow> 'o registry \<Rightarrow> ('o registry \<times> 't) option" where
  "opaque_io_take down hid r =
     (if hid = NULL then None
      else (case reg_get r hid of
              Some (HOpaque v) \<Rightarrow> (case down v of Some t \<Rightarrow> Some (reg_del hid r, t) | None \<Rightarrow> None)
            | _ \<Rightarrow> None))"

definition opaque_io_put :: "('t \<Rightarrow> 'o) \<Rightarrow> i64 \<Rightarrow> 't \<Rightarrow> 'o registry \<Rightarrow> 'o registry" where
  "opaque_io_put up hid t r = reg_put hid (HOpaque (up t)) r"

definition with_opaque_io ::
    "('t \<Rightarrow> 'o) \<Rightarrow> ('o \<Rightarrow> 't option) \<Rightarrow> i64 \<Rightarrow> ('t \<Rightarrow> 't \<times> 'r) \<Rightarrow> 'o registry \<Rightarrow> 'o registry \<times> 'r option" where
  "with_opaque_io up down hid f r =
     (case opaque_io_take down hid r of
        None \<Rightarrow> (r, None)
      | Some (r1, t) \<Rightarrow> (let (t', y) = f t in (opaque_io_put up hid t' r1, Some y)))"

section \<open>The operations keep the registry invariant\<close>

lemma shared_new_inv [reg_inv]: "reg_inv r \<Longrightarrow> reg_inv (fst (shared_new inner r))"
  by (simp add: shared_new_def insert_handle_inv)

lemma with_shared_mut_inv [reg_inv]: "reg_inv r \<Longrightarrow> reg_inv (fst (with_shared_mut hid f r))"
  by (auto simp: with_shared_mut_def borrow_mut_def Let_def reg_put_same split_beta
      intro: reg_inv_replace split: option.split handle.split)

lemma release_inv:
  assumes inv: "reg_inv r" and h: "reg_get r hid = Some h" "\<not> is_memory h" "\<not> is_memory h'"
  shows "reg_inv ((reg_del hid (reg_put hid h' r))\<lparr>live := live r - 1\<rparr>)"
  using reg_inv_take_same [OF reg_inv_replace [OF inv h], of hid h'] h by simp

lemma shared_release_inv [reg_inv]: "reg_inv r \<Longrightarrow> reg_inv (fst (shared_release hid r))"
  by (auto simp: shared_release_def Let_def intro: release_inv reg_inv_replace split: option.split handle.split)

lemma chan_drop_inv [reg_inv]: "reg_inv r \<Longrightarrow> reg_inv (fst (chan_drop hid r))"
  by (auto simp: chan_drop_def Let_def intro: release_inv reg_inv_replace split: option.split handle.split)

lemma box_inv [reg_inv]:
  assumes "reg_inv r"
  shows "reg_inv (fst (shared_retain hid r))" "reg_inv (fst (shared_inner hid r))"
    "reg_inv (fst (async_sleep_new ms r))" "reg_inv (fst (async_op_new work r))"
    "reg_inv (fst (put_opaque up v r))"
  using assms
  by (simp_all add: shared_retain_def shared_inner_def split_beta Let_def with_shared_mut_inv async_sleep_new_def
      async_op_new_def put_opaque_def insert_handle_inv)

lemma chan_retain_inv [reg_inv]: "reg_inv r \<Longrightarrow> reg_inv (fst (chan_retain hid r))"
  by (auto simp: chan_retain_def with_chan_mut_def borrow_mut_def Let_def reg_put_same split_beta
      intro: reg_inv_replace split: option.split handle.split)

lemma async_sleep_poll_inv [reg_inv]: "reg_inv r \<Longrightarrow> reg_inv (fst (async_sleep_poll now hid r))"
  by (auto simp: async_sleep_poll_def Let_def intro: reg_inv_replace split: option.split handle.split)

lemma take_inv [reg_inv]:
  assumes "reg_inv r"
  shows "reg_inv (async_sleep_drop hid r)" "reg_inv (remove_goroutine_handle hid r)"
    "reg_inv (fst (take_opaque down hid r))"
  using assms
  by (auto simp: async_sleep_drop_def remove_goroutine_handle_def take_opaque_def Let_def
      intro: reg_inv_take_same split: option.split handle.split)

lemma fst_drop:
  "fst (async_op_drop hid r) = fst (remove_kind hid is_async_op r)"
  "fst (goroutine_drop hid r) = fst (remove_kind hid is_goroutine r)"
  "fst (reactor_reg_drop hid r) = fst (remove_kind hid is_reactor_reg r)"
  "fst (async_io_drop hid r) = fst (remove_kind hid is_async_io r)"
  by (auto simp: async_op_drop_def goroutine_drop_def reactor_reg_drop_def async_io_drop_def remove_kind_def
      split: prod.split option.split handle.split)

lemma kind_drop_inv [reg_inv]:
  assumes "reg_inv r"
  shows "reg_inv (fst (async_op_drop hid r))" "reg_inv (fst (goroutine_drop hid r))"
    "reg_inv (fst (reactor_reg_drop hid r))" "reg_inv (fst (async_io_drop hid r))"
  using assms by (simp_all add: fst_drop remove_kind_inv)

lemma with_opaque_mut_inv [reg_inv]: "reg_inv r \<Longrightarrow> reg_inv (fst (with_opaque_mut up down hid f r))"
  by (auto simp: with_opaque_mut_def borrow_mut_def Let_def reg_put_same split_beta
      intro: reg_inv_replace split: option.split handle.split)

lemma reg_inv_put_back:
  assumes inv: "reg_inv r" and old: "reg_get r i = Some h" "\<not> is_memory h" and new: "\<not> is_memory h'"
  shows "reg_inv (reg_put i h' (reg_del i r))" (is "reg_inv ?r'")
proof -
  note iv = reg_invD [OF reg_inv_replace [OF inv old new]]
  have get: "reg_get ?r' = reg_get (reg_put i h' r)" by (simp add: fun_eq_iff)
  have t: "table_inv ?r'" using reg_invD(1) [OF inv] by (simp add: table_inv_put table_inv_del)
  then have "reg_size ?r' = reg_size (reg_put i h' r)" using iv(1) by (simp add: reg_size_card get)
  then show ?thesis
    using iv t by (simp add: reg_inv_def ids_inv_def count_inv_def memory_inv_def cache_inv_def get)
qed

lemma with_opaque_io_inv [reg_inv]: "reg_inv r \<Longrightarrow> reg_inv (fst (with_opaque_io up down hid f r))"
  by (auto simp: with_opaque_io_def opaque_io_take_def opaque_io_put_def split_beta
      intro: reg_inv_put_back split: option.split handle.split)

section \<open>Reference counts\<close>

text \<open>Releasing a handle a number of times, with the results in order.\<close>

fun releases :: "('s \<Rightarrow> 's \<times> 'e) \<Rightarrow> nat \<Rightarrow> 's \<Rightarrow> 's \<times> 'e list" where
  "releases release 0 s = (s, [])"
| "releases release (Suc k) s = (let (s1, e) = release s; (s2, es) = releases release k s1 in (s2, e # es))"

text \<open>The contract of a counted handle, for one handle: \<open>cnt\<close> is the number of copies, \<open>none\<close> what
  releasing a copy yields while others remain, \<open>final\<close> what releasing the last one yields.\<close>

locale refcounted =
  fixes inv :: "'s \<Rightarrow> bool"
    and cnt :: "'s \<Rightarrow> nat option"
    and retain :: "'s \<Rightarrow> 's"
    and release :: "'s \<Rightarrow> 's \<times> 'e"
    and none :: 'e
    and final :: 'e
    and limit :: nat
  assumes retain: "inv s \<Longrightarrow> cnt s = Some n \<Longrightarrow> n < limit \<Longrightarrow> inv (retain s) \<and> cnt (retain s) = Some (Suc n)"
    and release_some: "inv s \<Longrightarrow> cnt s = Some n \<Longrightarrow> 1 < n \<Longrightarrow>
      inv (fst (release s)) \<and> cnt (fst (release s)) = Some (n - 1) \<and> snd (release s) = none"
    and release_last: "inv s \<Longrightarrow> cnt s = Some 1 \<Longrightarrow>
      inv (fst (release s)) \<and> cnt (fst (release s)) = None \<and> snd (release s) = final"
begin

lemma retain_many: "inv s \<Longrightarrow> cnt s = Some n \<Longrightarrow> n + k \<le> limit \<Longrightarrow>
  inv ((retain ^^ k) s) \<and> cnt ((retain ^^ k) s) = Some (n + k)"
  by (induction k) (simp_all add: retain)

lemma release_all: "inv s \<Longrightarrow> cnt s = Some (Suc k) \<Longrightarrow>
  \<exists>s'. releases release (Suc k) s = (s', replicate k none @ [final]) \<and> inv s' \<and> cnt s' = None"
proof (induction k arbitrary: s)
  case 0
  then show ?case using release_last [of s] by (auto simp: split_beta prod_eq_iff)
next
  case (Suc k)
  obtain s1 e where s1: "release s = (s1, e)" by fastforce
  then have "inv s1" "cnt s1 = Some (Suc k)" "e = none" using release_some [OF Suc.prems] by simp_all
  with Suc.IH [of s1] s1 show ?case by (auto simp: split_beta)
qed

lemma lifecycle: "inv s \<Longrightarrow> cnt s = Some 1 \<Longrightarrow> k < limit \<Longrightarrow>
  \<exists>s'. releases release (Suc k) ((retain ^^ k) s) = (s', replicate k none @ [final]) \<and> inv s' \<and> cnt s' = None"
  using retain_many [of s 1 k] by (intro release_all) simp_all

end

text \<open>What holds of the registry while copies of one box come and go: the other entries are
  fixed, and the live counter counts the box as long as it is registered.\<close>

definition box_frame :: "(i64 \<rightharpoonup> 'o handle) \<Rightarrow> i64 \<Rightarrow> (u64 \<Rightarrow> 'o handle) \<Rightarrow> i64 \<Rightarrow> 'o registry \<Rightarrow> bool" where
  "box_frame others l mk hid s \<longleftrightarrow> reg_inv s \<and> (\<forall>i. i \<noteq> hid \<longrightarrow> reg_get s i = others i) \<and>
     (case reg_get s hid of None \<Rightarrow> live s = l | Some h \<Rightarrow> live s = l + 1 \<and> (\<exists>c. h = mk c))"

definition shared_copies :: "i64 \<Rightarrow> 'o registry \<Rightarrow> nat option" where
  "shared_copies hid s = (case reg_get s hid of Some (HShared _ c) \<Rightarrow> Some (unat c) | _ \<Rightarrow> None)"

definition chan_copies :: "i64 \<Rightarrow> 'o registry \<Rightarrow> nat option" where
  "chan_copies hid s = (case reg_get s hid of Some (HChan _ c) \<Rightarrow> Some (unat c) | _ \<Rightarrow> None)"

lemma shared_copies_iff: "shared_copies hid s = Some n \<longleftrightarrow> (\<exists>i c. reg_get s hid = Some (HShared i c) \<and> n = unat c)"
  by (auto simp: shared_copies_def split: option.splits handle.splits)

lemma chan_copies_iff: "chan_copies hid s = Some n \<longleftrightarrow> (\<exists>i c. reg_get s hid = Some (HChan i c) \<and> n = unat c)"
  by (auto simp: chan_copies_def split: option.splits handle.splits)

lemma unat_inc_u64: "unat c < 2 ^ 64 - 1 \<Longrightarrow> unat (c + 1 :: u64) = Suc (unat c)"
  by (simp add: unat_plus_if_size size_word_def word_size)

lemma saturating_add_u64_one: "unat c < 2 ^ 64 - 1 \<Longrightarrow> unat (saturating_add_u64 c 1) = Suc (unat c)"
  by (simp add: saturating_add_u64_def unat_inc_u64)

lemma shared_retain_eq:
  "hid \<noteq> NULL \<Longrightarrow> reg_get s hid = Some (HShared i c) \<Longrightarrow>
   fst (shared_retain hid s) = reg_put hid (HShared i (c + 1)) s"
  by (simp add: shared_retain_def with_shared_mut_def borrow_mut_def)

lemma chan_retain_eq:
  "hid \<noteq> NULL \<Longrightarrow> reg_get s hid = Some (HChan i c) \<Longrightarrow>
   fst (chan_retain hid s) = reg_put hid (HChan i (saturating_add_u64 c 1)) s"
  by (simp add: chan_retain_def with_chan_mut_def borrow_mut_def)

lemma box_frame_null: "box_frame others l mk hid s \<Longrightarrow> reg_get s hid \<noteq> None \<Longrightarrow> hid \<noteq> NULL"
  using reg_inv_get_null [of s] by (auto simp: box_frame_def)

lemma box_frame_gone:
  assumes "box_frame (reg_get r) l mk hid r'" "reg_get r' hid = None" "reg_get r hid = None"
  shows "reg_get r' = reg_get r \<and> live r' = l \<and> reg_inv r'"
proof -
  have "reg_get r' i = reg_get r i" for i
    using assms by (cases "i = hid") (simp_all add: box_frame_def)
  with assms show ?thesis by (auto simp: box_frame_def)
qed

interpretation shared: refcounted "box_frame others l (HShared inner) hid" "shared_copies hid"
    "\<lambda>s. fst (shared_retain hid s)" "shared_release hid" NULL inner "2 ^ 64 - 1"
  for others l inner hid
proof
  fix s :: "'a registry" and n
  assume f: "box_frame others l (HShared inner) hid s" and c: "shared_copies hid s = Some n"
  then obtain c where c: "reg_get s hid = Some (HShared inner c)" "n = unat c"
    by (auto simp: box_frame_def shared_copies_iff)
  have "hid \<noteq> NULL" using box_frame_null [OF f] c by simp
  have inv: "reg_inv s" using f by (simp add: box_frame_def)
  show "n < 2 ^ 64 - 1 \<Longrightarrow> box_frame others l (HShared inner) hid (fst (shared_retain hid s)) \<and>
      shared_copies hid (fst (shared_retain hid s)) = Some (Suc n)"
    using f c \<open>hid \<noteq> NULL\<close> box_inv(1) [OF inv, of hid]
    by (simp add: box_frame_def shared_copies_def shared_retain_eq unat_inc_u64)
  show "1 < n \<Longrightarrow> box_frame others l (HShared inner) hid (fst (shared_release hid s)) \<and>
      shared_copies hid (fst (shared_release hid s)) = Some (n - 1) \<and> snd (shared_release hid s) = NULL"
    using f c \<open>hid \<noteq> NULL\<close> shared_release_inv [OF inv, of hid]
    by (auto simp: box_frame_def shared_copies_def shared_release_def saturating_sub_u64_pos saturating_sub_u64_one)
next
  fix s :: "'a registry"
  assume f: "box_frame others l (HShared inner) hid s" and c: "shared_copies hid s = Some 1"
  then obtain c where c: "reg_get s hid = Some (HShared inner c)" "unat c = 1"
    by (auto simp: box_frame_def shared_copies_iff)
  have "hid \<noteq> NULL" using box_frame_null [OF f] c by simp
  have inv: "reg_inv s" using f by (simp add: box_frame_def)
  show "box_frame others l (HShared inner) hid (fst (shared_release hid s)) \<and>
      shared_copies hid (fst (shared_release hid s)) = None \<and> snd (shared_release hid s) = inner"
    using f c \<open>hid \<noteq> NULL\<close> shared_release_inv [OF inv, of hid]
    by (auto simp: box_frame_def shared_copies_def shared_release_def saturating_sub_u64_pos Let_def)
qed

interpretation chan: refcounted "box_frame others l (HChan core) hid" "chan_copies hid"
    "\<lambda>s. fst (chan_retain hid s)" "chan_drop hid" "[]" "[DropChan core]" "2 ^ 64 - 1"
  for others l core hid
proof
  fix s :: "'a registry" and n
  assume f: "box_frame others l (HChan core) hid s" and c: "chan_copies hid s = Some n"
  then obtain c where c: "reg_get s hid = Some (HChan core c)" "n = unat c"
    by (auto simp: box_frame_def chan_copies_iff)
  have "hid \<noteq> NULL" using box_frame_null [OF f] c by simp
  have inv: "reg_inv s" using f by (simp add: box_frame_def)
  show "n < 2 ^ 64 - 1 \<Longrightarrow> box_frame others l (HChan core) hid (fst (chan_retain hid s)) \<and>
      chan_copies hid (fst (chan_retain hid s)) = Some (Suc n)"
    using f c \<open>hid \<noteq> NULL\<close> chan_retain_inv [OF inv, of hid]
    by (simp add: box_frame_def chan_copies_def chan_retain_eq saturating_add_u64_one)
  show "1 < n \<Longrightarrow> box_frame others l (HChan core) hid (fst (chan_drop hid s)) \<and>
      chan_copies hid (fst (chan_drop hid s)) = Some (n - 1) \<and> snd (chan_drop hid s) = []"
    using f c \<open>hid \<noteq> NULL\<close> chan_drop_inv [OF inv, of hid]
    by (auto simp: box_frame_def chan_copies_def chan_drop_def saturating_sub_u64_pos saturating_sub_u64_one)
next
  fix s :: "'a registry"
  assume f: "box_frame others l (HChan core) hid s" and c: "chan_copies hid s = Some 1"
  then obtain c where c: "reg_get s hid = Some (HChan core c)" "unat c = 1"
    by (auto simp: box_frame_def chan_copies_iff)
  have "hid \<noteq> NULL" using box_frame_null [OF f] c by simp
  have inv: "reg_inv s" using f by (simp add: box_frame_def)
  show "box_frame others l (HChan core) hid (fst (chan_drop hid s)) \<and>
      chan_copies hid (fst (chan_drop hid s)) = None \<and> snd (chan_drop hid s) = [DropChan core]"
    using f c \<open>hid \<noteq> NULL\<close> chan_drop_inv [OF inv, of hid]
    by (auto simp: box_frame_def chan_copies_def chan_drop_def saturating_sub_u64_pos Let_def)
qed

section \<open>Properties\<close>

text \<open>A shared box gives its value back exactly once. After any number of retains (short of the
  64-bit counter's range) the same number of releases yield the null handle and keep the box, and
  the next release yields the wrapped handle and removes the box, which leaves every other entry
  and the live counter as they were before the box was made.\<close>

theorem shared_lifecycle:
  assumes inv: "reg_inv r" and new: "shared_new inner r = (r0, hid)" and k: "k < 2 ^ 64 - 1"
  shows "\<exists>r'. releases (shared_release hid) (Suc k) (((\<lambda>s. fst (shared_retain hid s)) ^^ k) r0) =
           (r', replicate k NULL @ [inner]) \<and> reg_inv r' \<and> reg_get r' = reg_get r \<and> live r' = live r"
proof -
  have r0: "r0 = fst (insert_handle (HShared inner 1) r)" "hid = next_id_ctr r"
    using new by (simp_all add: shared_new_def prod_eq_iff)
  have fresh: "reg_get r hid = None" using fresh_id [OF reg_invD(2) [OF inv]] r0 by simp
  have "box_frame (reg_get r) (live r) (HShared inner) hid r0"
    using insert_handle_inv [OF inv, of "HShared inner 1"] by (auto simp: box_frame_def r0)
  from shared.lifecycle [OF this _ k] obtain r' where
    r': "releases (shared_release hid) (Suc k) (((\<lambda>s. fst (shared_retain hid s)) ^^ k) r0) = (r', replicate k NULL @ [inner])"
      "box_frame (reg_get r) (live r) (HShared inner) hid r'" "shared_copies hid r' = None"
    by (auto simp: shared_copies_def r0)
  then have "reg_get r' hid = None"
    by (auto simp: box_frame_def shared_copies_def split: option.splits)
  with box_frame_gone [OF r'(2) this fresh] have "reg_get r' = reg_get r" "live r' = live r" "reg_inv r'"
    by simp_all
  with r'(1) show ?thesis by blast
qed

theorem shared_lifecycle_witness:
  "\<exists>r'. releases (shared_release 1) 3 (((\<lambda>s. fst (shared_retain 1 s)) ^^ 2)
       (fst (shared_new 7 (reg_init :: nat registry)))) = (r', [NULL, NULL, 7]) \<and> live r' = 0"
proof -
  have new: "shared_new 7 (reg_init :: nat registry) = (fst (shared_new 7 reg_init), 1)"
    by (simp add: shared_new_def insert_handle_eq reg_init_def)
  have "(2 :: nat) < 2 ^ 64 - 1" "Suc 2 = 3" by simp_all
  moreover have "replicate 2 NULL @ [7] = [NULL, NULL, 7]" by (simp add: numeral_2_eq_2)
  moreover have "live (reg_init :: nat registry) = 0" by (simp add: reg_init_def)
  ultimately show ?thesis
    using shared_lifecycle [OF reg_inv_init new, of 2] by auto
qed

text \<open>A channel is released to the scheduler exactly once, when the last copy of its handle is
  dropped: the drops before it make no call and keep the channel, whatever the number of copies.\<close>

theorem chan_lifecycle:
  assumes inv: "reg_inv r" and new: "insert_handle (HChan core 1) r = (r0, hid)" and k: "k < 2 ^ 64 - 1"
  shows "\<exists>r'. releases (chan_drop hid) (Suc k) (((\<lambda>s. fst (chan_retain hid s)) ^^ k) r0) =
           (r', replicate k [] @ [[DropChan core]]) \<and> reg_inv r' \<and> reg_get r' = reg_get r \<and> live r' = live r"
proof -
  have r0: "r0 = fst (insert_handle (HChan core 1) r)" "hid = next_id_ctr r"
    using new by (simp_all add: prod_eq_iff)
  have fresh: "reg_get r hid = None" using fresh_id [OF reg_invD(2) [OF inv]] r0 by simp
  have "box_frame (reg_get r) (live r) (HChan core) hid r0"
    using insert_handle_inv [OF inv, of "HChan core 1"] by (auto simp: box_frame_def r0)
  from chan.lifecycle [OF this _ k] obtain r' where
    r': "releases (chan_drop hid) (Suc k) (((\<lambda>s. fst (chan_retain hid s)) ^^ k) r0) = (r', replicate k [] @ [[DropChan core]])"
      "box_frame (reg_get r) (live r) (HChan core) hid r'" "chan_copies hid r' = None"
    by (auto simp: chan_copies_def r0)
  then have "reg_get r' hid = None"
    by (auto simp: box_frame_def chan_copies_def split: option.splits)
  with box_frame_gone [OF r'(2) this fresh] have "reg_get r' = reg_get r" "live r' = live r" "reg_inv r'"
    by simp_all
  with r'(1) show ?thesis by blast
qed

theorem chan_lifecycle_witness:
  "\<exists>r'. releases (chan_drop 1) 2 (((\<lambda>s. fst (chan_retain 1 s)) ^^ 1)
       (fst (insert_handle (HChan 5 1) (reg_init :: nat registry)))) = (r', [[], [DropChan 5]])"
proof -
  have new: "insert_handle (HChan 5 1) (reg_init :: nat registry) = (fst (insert_handle (HChan 5 1) reg_init), 1)"
    by (simp add: insert_handle_eq reg_init_def)
  have "(1 :: nat) < 2 ^ 64 - 1" "Suc 1 = 2" "replicate 1 [] @ [[DropChan 5]] = [[], [DropChan 5]]" by simp_all
  then show ?thesis
    using chan_lifecycle [OF reg_inv_init new, of 1] by metis
qed

text \<open>Polling a sleep future once for each clock reading.\<close>

fun sleep_polls :: "i64 list \<Rightarrow> i64 \<Rightarrow> 'o registry \<Rightarrow> (int \<times> task_call list) list" where
  "sleep_polls [] hid r = []"
| "sleep_polls (now # nows) hid r =
     (case async_sleep_poll now hid r of (r1, x) \<Rightarrow> x # sleep_polls nows hid r1)"

lemma sleep_polls_done:
  "reg_get r hid = Some (HAsyncSleep 2 ms d) \<Longrightarrow> sleep_polls nows hid r = replicate (length nows) (1, [])"
  by (induction nows) (simp_all add: async_sleep_poll_def)

lemma sleep_polls_armed:
  "reg_get r hid = Some (HAsyncSleep 1 ms d) \<Longrightarrow>
   sleep_polls nows hid r =
     replicate (length (takeWhile (\<lambda>t. t < d) nows)) (0, [ParkTimer d]) @
     replicate (length (dropWhile (\<lambda>t. t < d) nows)) (1, [])"
  by (induction nows) (auto simp: async_sleep_poll_def sleep_polls_done)

text \<open>A sleep future is armed by its first poll, at the clock reading plus the requested time
  (saturating), and stays pending, parking until that deadline at each poll, as long as the
  clock has not reached it; from the first poll at or after the deadline on it is ready for good.\<close>

theorem sleep_future_spec:
  assumes new: "async_sleep_new ms r = (r0, hid)"
  shows "let d = saturating_add_i64 now ms in
    in_i64 d \<and>
    sleep_polls (now # nows) hid r0 =
      (0, [ParkTimer d]) #
      replicate (length (takeWhile (\<lambda>t. t < d) nows)) (0, [ParkTimer d]) @
      replicate (length (dropWhile (\<lambda>t. t < d) nows)) (1, [])"
proof -
  have "reg_get r0 hid = Some (HAsyncSleep 0 ms 0)"
    using new by (auto simp: async_sleep_new_def insert_handle_eq)
  then show ?thesis
    by (simp add: async_sleep_poll_def Let_def saturating_add_i64_bounds sleep_polls_armed)
qed

theorem sleep_future_spec_witness:
  "sleep_polls [100, 104, 110, 111] 1 (fst (async_sleep_new 10 (reg_init :: nat registry))) =
     [(0, [ParkTimer 110]), (0, [ParkTimer 110]), (1, []), (1, [])]"
  using sleep_future_spec [of 10 "reg_init :: nat registry" "fst (async_sleep_new 10 reg_init)" 1 100 "[104, 110, 111]"]
  by (simp add: async_sleep_new_def insert_handle_eq reg_init_def saturating_add_i64_def i64_max_def i64_min_def
      numeral_eq_Suc)

text \<open>A blocking operation on an opaque value runs on the value registered under the handle
  and puts the result back under the same handle, with every other entry and the counters
  unchanged; taking the value afterwards returns it and removes the entry. On a handle of another
  kind or of another type the operation and the take do nothing.\<close>

theorem opaque_io_roundtrip:
  assumes inv: "reg_inv r" and up: "\<forall>t. down (up t) = Some t"
  shows "(\<forall>v t. reg_get r hid = Some (HOpaque v) \<longrightarrow> down v = Some t \<longrightarrow>
      (\<exists>r'. with_opaque_io up down hid f r = (r', Some (snd (f t))) \<and> reg_inv r' \<and>
         reg_get r' = (reg_get r)(hid \<mapsto> HOpaque (up (fst (f t)))) \<and> live r' = live r \<and>
         snd (take_opaque down hid r') = Some (fst (f t)) \<and>
         reg_get (fst (take_opaque down hid r')) = (reg_get r)(hid := None))) \<and>
    ((\<nexists>v t. reg_get r hid = Some (HOpaque v) \<and> down v = Some t) \<longrightarrow>
      with_opaque_io up down hid f r = (r, None) \<and> take_opaque down hid r = (r, None))"
proof (intro conjI allI impI)
  fix v t assume h: "reg_get r hid = Some (HOpaque v)" "down v = Some t"
  have "hid \<noteq> NULL" using reg_inv_get_null [OF inv] h by auto
  let ?r' = "reg_put hid (HOpaque (up (fst (f t)))) (reg_del hid r)"
  have "with_opaque_io up down hid f r = (?r', Some (snd (f t)))"
    using h \<open>hid \<noteq> NULL\<close> by (simp add: with_opaque_io_def opaque_io_take_def opaque_io_put_def split_beta)
  moreover have "reg_inv ?r'" using with_opaque_io_inv [OF inv, of up down hid f] calculation by simp
  moreover have "reg_get ?r' = (reg_get r)(hid \<mapsto> HOpaque (up (fst (f t))))" by (simp add: fun_eq_iff)
  moreover have "snd (take_opaque down hid ?r') = Some (fst (f t))"
      "reg_get (fst (take_opaque down hid ?r')) = (reg_get r)(hid := None)"
    using up \<open>hid \<noteq> NULL\<close> by (simp_all add: take_opaque_def fun_eq_iff)
  ultimately show "\<exists>r'. with_opaque_io up down hid f r = (r', Some (snd (f t))) \<and> reg_inv r' \<and>
         reg_get r' = (reg_get r)(hid \<mapsto> HOpaque (up (fst (f t)))) \<and> live r' = live r \<and>
         snd (take_opaque down hid r') = Some (fst (f t)) \<and>
         reg_get (fst (take_opaque down hid r')) = (reg_get r)(hid := None)"
    by (intro exI [of _ ?r']) simp
qed (auto simp: with_opaque_io_def opaque_io_take_def take_opaque_def split: option.splits handle.splits)

theorem opaque_io_roundtrip_witness:
  "\<exists>r'. with_opaque_io (\<lambda>t. t) (\<lambda>v. Some v) 1 (\<lambda>t. (t + 1, t * 2)) (fst (put_opaque (\<lambda>t. t) (5 :: nat) reg_init)) =
     (r', Some 10) \<and> snd (take_opaque (\<lambda>v. Some v) 1 r') = Some 6"
proof -
  let ?r = "fst (put_opaque (\<lambda>t. t) (5 :: nat) reg_init)"
  have inv: "reg_inv ?r" by (rule box_inv(5) [OF reg_inv_init])
  have "reg_get ?r 1 = Some (HOpaque 5)" by (simp add: put_opaque_def reg_init_def)
  with opaque_io_roundtrip [OF inv, of "\<lambda>v. Some v" "\<lambda>t. t" 1 "\<lambda>t. (t + 1, t * 2)"] show ?thesis by auto
qed

end
