(* ===== verification/Registry_System.thy ===== *)
theory Registry_System
  imports Registry_Slices Registry_Memory Registry_Boxes
begin

text \<open>
  The registry as a whole: a step is one call of any operation of the preceding theories, with
  arbitrary arguments. The properties hold of every state that calls can reach from the empty
  registry, whatever the calls and their order.
\<close>

section \<open>Handles that are gone stay gone\<close>

text \<open>An operation may register entries under new ids, change and remove entries; it never
  registers anything under an id handed out earlier.\<close>

definition evolves :: "'o registry \<Rightarrow> 'o registry \<Rightarrow> bool" where
  "evolves r r' \<longleftrightarrow> next_id_ctr r \<le> next_id_ctr r' \<and>
     (\<forall>i. i < next_id_ctr r \<longrightarrow> reg_get r i = None \<longrightarrow> reg_get r' i = None)"

named_theorems evolving \<open>operations that register nothing under an old id\<close>

lemma evolves_refl [evolving, simp]: "evolves r r"
  by (simp add: evolves_def)

lemma evolves_trans [trans]: "evolves r r1 \<Longrightarrow> evolves r1 r2 \<Longrightarrow> evolves r r2"
  by (auto simp: evolves_def)

lemma evolves_fields [simp]:
  "evolves r (r'\<lparr>live := l\<rparr>) = evolves r r'"
  "evolves r (r'\<lparr>permanent := l\<rparr>) = evolves r r'"
  "evolves r (r'\<lparr>permanent_ids := p\<rparr>) = evolves r r'"
  "evolves r (r'\<lparr>leak_sites := s\<rparr>) = evolves r r'"
  "evolves r (r'\<lparr>registry_gen := g\<rparr>) = evolves r r'"
  "evolves r (r'\<lparr>memory_cache := c\<rparr>) = evolves r r'"
  "evolves r (r'\<lparr>regions := rs\<rparr>) = evolves r r'"
  "evolves r (r'\<lparr>next_region := m\<rparr>) = evolves r r'"
  by (simp_all add: evolves_def)

lemma evolves_del [simp]: "evolves r r' \<Longrightarrow> evolves r (reg_del i r')"
  by (auto simp: evolves_def)

lemma evolves_put: "evolves r r' \<Longrightarrow> reg_get r i \<noteq> None \<or> next_id_ctr r \<le> i \<Longrightarrow> evolves r (reg_put i h r')"
  by (auto simp: evolves_def)

lemma evolves_put_some [simp]: "reg_get r i = Some h0 \<Longrightarrow> evolves r (reg_put i h r)"
  by (simp add: evolves_put)

lemma evolves_insert [evolving]: "evolves r (fst (insert_handle h r))"
  by (auto simp: evolves_def)

lemma evolves_insert_permanent [evolving]: "evolves r (fst (insert_permanent h r))"
  by (auto simp: evolves_def insert_permanent_def next_id_def Let_def)

lemma evolves_grows: "reg_grows r r' \<Longrightarrow> evolves r r'"
  by (simp add: evolves_def reg_grows_def)

lemma evolves_remove [evolving]:
  "evolves r (fst (remove_handle i r))" "evolves r (fst (remove_kind i p r))" "evolves r (mark_leak_site i a b r)"
  by (simp_all add: remove_handle_def remove_kind_def mark_leak_site_def Let_def split: option.split)

lemma evolves_strings [evolving]:
  "evolves r (fst (put_string s r))" "evolves r (fst (put_string_permanent s r))"
  "evolves r (fst (take_string i r))" "evolves r (fst (clone_string i r))" "evolves r (fst (string_concat i j r))"
  by (simp_all add: put_string_def put_string_permanent_def take_string_def clone_string_def string_concat_def
      split_beta Let_def evolving split: option.split)

lemma evolves_array_put [simp]: "evolves r r' \<Longrightarrow> array_at r i = Some a \<Longrightarrow> evolves r (reg_put i h r')"
  by (rule evolves_put) (auto simp: array_at_iff)

lemma evolves_array_put_trans: "evolves r r' \<Longrightarrow> array_at r' i = Some a \<Longrightarrow> evolves r (reg_put i h r')"
  by (rule evolves_trans [of r r']) simp_all

lemma evolves_take_string_trans: "evolves r r' \<Longrightarrow> evolves r (fst (take_string i r'))"
  using evolves_trans evolves_strings(3) by blast

lemma evolves_stored: "stored_element strs e r = (r1, x) \<Longrightarrow> evolves r r1"
  by (auto simp: stored_element_def split_beta evolving split: option.splits if_splits)

lemma evolves_array_updates [evolving]:
  "evolves r (fst (array_new es c st r))" "evolves r (array_set_string_elements i st r)"
  "evolves r (fst (array_write_elements i vs r))" "evolves r (fst (array_pop i r))"
  by (auto simp: array_new_def array_set_string_elements_def array_write_elements_def array_pop_def borrow_mut_def
      split_beta evolving split: option.split handle.split)

lemma evolves_array_push [evolving]: "evolves r (fst (array_push i e r))"
  by (auto simp: array_push_def dest: evolves_stored intro: evolves_array_put_trans split: option.splits prod.splits)

lemma evolves_array_set [evolving]: "evolves r (fst (array_set i k e r))"
  by (auto simp: array_set_def Let_def dest: evolves_stored
      intro!: evolves_take_string_trans evolves_array_put_trans split: option.splits prod.splits)

lemma evolves_take_strings: "evolves r (take_strings hs r)"
proof (induction hs arbitrary: r)
  case (Cons h hs)
  then show ?case using evolves_trans [OF evolves_strings(3)] by (metis take_strings.simps(2))
qed simp

lemma evolves_array_drop [evolving]: "evolves r (array_drop i r)"
  using evolves_remove(1) [of r i] evolves_trans [OF _ evolves_take_strings]
  by (fastforce simp: array_drop_def split: prod.splits option.splits handle.splits)

lemma evolves_build: "reg_inv r \<Longrightarrow> evolves r (fst (build_array (copy_element strs) esize strs es r))"
  using build_array_grows [OF copier_element] by (blast intro: evolves_grows)

lemma evolves_array_clone [evolving]: "reg_inv r \<Longrightarrow> evolves r (fst (array_clone i levels (r :: 'o registry)))"
  using array_clone_levels_grows [of "nat levels", where ?'o = 'o]
  by (simp add: array_clone_def copier_def evolves_grows)

lemma evolves_array_build [evolving]:
  assumes "reg_inv r"
  shows "evolves r (fst (array_fill v n esize st r))" "evolves r (fst (array_range a b r))"
    "evolves r (fst (array_slice i a b r))" "evolves r (fst (array_reverse i r))"
    "evolves r (fst (array_clear i r))" "evolves r (fst (array_remove_at i a r))"
  using assms
  by (simp_all add: array_fill_def array_range_def array_slice_def array_reverse_def array_clear_def
      array_remove_at_def put_array_def Let_def evolves_insert evolves_build split: option.split)

lemma evolves_array_permute [evolving]:
  assumes "reg_inv r"
  shows "evolves r (fst (array_sort i mode r))" "evolves r (fst (array_shuffle rb i r))"
  using evolves_array_clone [OF assms, of i 0]
  by (auto simp: array_sort_def array_shuffle_def split_beta Let_def intro: evolves_array_put_trans split: option.split)

lemma evolves_push_loop: "evolves r (fst (slice_push_loop arr s out offs r))"
proof (induction offs arbitrary: r)
  case (Cons k offs)
  show ?case
    by (auto simp: split_beta evolving intro: evolves_trans [OF evolves_array_push Cons] split: option.split)
qed simp

lemma evolves_fill_loop: "evolves r (fst (slice_fill_loop arr s v offs r))"
proof (induction offs arbitrary: r)
  case (Cons k offs)
  show ?case
    by (auto simp: split_beta evolving intro: evolves_trans [OF evolves_array_set Cons])
qed simp

lemma evolves_copy_loop: "evolves r (fst (slice_copy_loop da ds sa ss offs r))"
proof (induction offs arbitrary: r)
  case (Cons k offs)
  show ?case
    by (auto simp: split_beta evolving intro: evolves_trans [OF evolves_array_set Cons] split: option.split)
qed simp

lemma evolves_slices [evolving]:
  "evolves r (fst (slice_of a s e r))" "evolves r (fst (slice_sub i s e r))" "evolves r (fst (slice_set i k v r))"
  "evolves r (fst (slice_fill i v r))" "evolves r (fst (slice_copy_from i j r))" "evolves r (slice_drop i r)"
  by (simp_all add: slice_of_def slice_sub_def slice_set_def slice_fill_def slice_copy_from_def slice_drop_def
      split_beta Let_def evolving evolves_fill_loop evolves_copy_loop split: option.split handle.split)

lemma evolves_slice_to_array [evolving]: "evolves r (fst (slice_to_array i r))"
  using evolves_trans [OF evolves_array_updates(1) evolves_push_loop]
  by (auto simp: slice_to_array_def split_beta split: option.split)

lemma evolves_memory [evolving]:
  "evolves r (fst (memory_alloc n r))" "evolves r (fst (memory_offset i d r))" "evolves r (fst (memory_clone i r))"
  "evolves r (memory_drop i r)" "evolves r (fst (memory_load i w r))" "evolves r (fst (memory_store i w v r))"
  by (auto simp: memory_alloc_def memory_offset_def memory_clone_def memory_drop_def memory_load_def memory_store_def
      memory_region_def split_beta Let_def evolving evolves_def split: option.split handle.split)

lemma evolves_boxes [evolving]:
  "evolves r (fst (shared_new v r))" "evolves r (fst (shared_retain i r))" "evolves r (fst (shared_release i r))"
  "evolves r (fst (shared_inner i r))" "evolves r (fst (chan_retain i r))" "evolves r (fst (chan_drop i r))"
  "evolves r (fst (async_sleep_new ms r))" "evolves r (fst (async_sleep_poll t i r))" "evolves r (async_sleep_drop i r)"
  "evolves r (fst (async_op_new w r))" "evolves r (remove_goroutine_handle i r)"
  by (auto simp: shared_new_def shared_retain_def shared_release_def shared_inner_def chan_retain_def chan_drop_def
      async_sleep_new_def async_sleep_poll_def async_sleep_drop_def async_op_new_def remove_goroutine_handle_def
      with_shared_mut_def with_chan_mut_def borrow_mut_def split_beta Let_def evolving split: option.split handle.split)

lemma evolves_kind_drops [evolving]:
  "evolves r (fst (async_op_drop i r))" "evolves r (fst (goroutine_drop i r))"
  "evolves r (fst (reactor_reg_drop i r))" "evolves r (fst (async_io_drop i r))"
  by (simp_all add: fst_drop evolving)

lemma evolves_opaque [evolving]:
  "evolves r (fst (put_opaque up v r))" "evolves r (fst (with_opaque_mut up down i f r))"
  "evolves r (fst (take_opaque down i r))" "evolves r (fst (with_opaque_io up down i f r))"
  by (auto simp: put_opaque_def with_opaque_mut_def take_opaque_def with_opaque_io_def opaque_io_take_def
      opaque_io_put_def borrow_mut_def split_beta Let_def evolving intro: evolves_put split: option.split handle.split)

section \<open>Steps\<close>

text \<open>One call of an operation that can change the registry. \<open>insert\<close> is called by the task core
  for goroutines, channels and reactor handles; capabilities are only made by \<open>memory_alloc\<close>,
  \<open>memory_offset\<close> and \<open>memory_clone\<close>. The type an opaque value is used at is a part of the type of
  all opaque values, and the result of a closure run on it does not matter to the registry.\<close>

inductive registry_call :: "'o registry \<Rightarrow> 'o registry \<Rightarrow> bool" where
  call_insert: "\<not> is_memory h \<Longrightarrow> registry_call r (fst (insert_handle h r))"
| call_remove: "registry_call r (fst (remove_handle i r))"
| call_mark_leak_site: "registry_call r (mark_leak_site i line column r)"
| call_put_string: "registry_call r (fst (put_string s r))"
| call_put_string_permanent: "registry_call r (fst (put_string_permanent s r))"
| call_take_string: "registry_call r (fst (take_string i r))"
| call_clone_string: "registry_call r (fst (clone_string i r))"
| call_string_concat: "registry_call r (fst (string_concat i j r))"
| call_array_new: "registry_call r (fst (array_new esize cap strs r))"
| call_array_set_string_elements: "registry_call r (array_set_string_elements i strs r)"
| call_array_write_elements: "registry_call r (fst (array_write_elements i es r))"
| call_array_push: "registry_call r (fst (array_push i e r))"
| call_array_set: "registry_call r (fst (array_set i k e r))"
| call_array_drop: "registry_call r (array_drop i r)"
| call_array_pop: "registry_call r (fst (array_pop i r))"
| call_array_clone: "registry_call r (fst (array_clone i levels r))"
| call_array_fill: "registry_call r (fst (array_fill v n esize strs r))"
| call_array_range: "registry_call r (fst (array_range a b r))"
| call_array_slice: "registry_call r (fst (array_slice i a b r))"
| call_array_reverse: "registry_call r (fst (array_reverse i r))"
| call_array_clear: "registry_call r (fst (array_clear i r))"
| call_array_remove_at: "registry_call r (fst (array_remove_at i k r))"
| call_array_shuffle: "registry_call r (fst (array_shuffle rb i r))"
| call_array_sort: "registry_call r (fst (array_sort i mode r))"
| call_slice_of: "registry_call r (fst (slice_of i a b r))"
| call_slice_sub: "registry_call r (fst (slice_sub i a b r))"
| call_slice_set: "registry_call r (fst (slice_set i k v r))"
| call_slice_to_array: "registry_call r (fst (slice_to_array i r))"
| call_slice_fill: "registry_call r (fst (slice_fill i v r))"
| call_slice_copy_from: "registry_call r (fst (slice_copy_from i j r))"
| call_slice_drop: "registry_call r (slice_drop i r)"
| call_memory_alloc: "registry_call r (fst (memory_alloc n r))"
| call_memory_offset: "registry_call r (fst (memory_offset i d r))"
| call_memory_clone: "registry_call r (fst (memory_clone i r))"
| call_memory_drop: "registry_call r (memory_drop i r)"
| call_memory_load: "registry_call r (fst (memory_load i w r))"
| call_memory_store: "registry_call r (fst (memory_store i w v r))"
| call_shared_new: "registry_call r (fst (shared_new v r))"
| call_shared_retain: "registry_call r (fst (shared_retain i r))"
| call_shared_release: "registry_call r (fst (shared_release i r))"
| call_shared_inner: "registry_call r (fst (shared_inner i r))"
| call_async_sleep_new: "registry_call r (fst (async_sleep_new ms r))"
| call_async_sleep_poll: "registry_call r (fst (async_sleep_poll t i r))"
| call_async_sleep_drop: "registry_call r (async_sleep_drop i r)"
| call_async_op_new: "registry_call r (fst (async_op_new w r))"
| call_async_op_drop: "registry_call r (fst (async_op_drop i r))"
| call_remove_goroutine_handle: "registry_call r (remove_goroutine_handle i r)"
| call_goroutine_drop: "registry_call r (fst (goroutine_drop i r))"
| call_chan_retain: "registry_call r (fst (chan_retain i r))"
| call_chan_drop: "registry_call r (fst (chan_drop i r))"
| call_reactor_reg_drop: "registry_call r (fst (reactor_reg_drop i r))"
| call_async_io_drop: "registry_call r (fst (async_io_drop i r))"
| call_take_opaque: "registry_call r (fst (take_opaque (down :: 'o \<Rightarrow> 'o option) i r))"
| call_with_opaque_mut: "registry_call r (fst (with_opaque_mut (up :: 'o \<Rightarrow> 'o) down i (f :: 'o \<Rightarrow> 'o \<times> unit) r))"
| call_with_opaque_io: "registry_call r (fst (with_opaque_io (up :: 'o \<Rightarrow> 'o) down i (f :: 'o \<Rightarrow> 'o \<times> unit) r))"

text \<open>A goroutine reserves the id of its handle before it registers the handle: the second
  component of the state is the set of ids reserved and not yet registered.\<close>

inductive registry_step :: "'o registry \<times> i64 set \<Rightarrow> 'o registry \<times> i64 set \<Rightarrow> bool" where
  step_call: "registry_call r r' \<Longrightarrow> registry_step (r, res) (r', res)"
| step_reserve: "reserve_id r = (r', i) \<Longrightarrow> registry_step (r, res) (r', insert i res)"
| step_insert_reserved:
    "i \<in> res \<Longrightarrow> \<not> is_memory h \<Longrightarrow> registry_step (r, res) (insert_reserved i h r, res - {i})"

lemma registry_call_inv: "registry_call r r' \<Longrightarrow> reg_inv r \<Longrightarrow> reg_inv r'"
  by (induction rule: registry_call.induct) (simp_all add: reg_inv)

lemma registry_call_evolves: "registry_call r r' \<Longrightarrow> reg_inv r \<Longrightarrow> evolves r r'"
  by (induction rule: registry_call.induct) (simp_all add: evolving)

definition system_inv :: "'o registry \<times> i64 set \<Rightarrow> bool" where
  "system_inv s \<longleftrightarrow> reg_inv (fst s) \<and>
     (\<forall>i \<in> snd s. 1 \<le> i \<and> i < next_id_ctr (fst s) \<and> reg_get (fst s) i = None)"

lemma system_inv_init: "system_inv (reg_init, {})"
  by (simp add: system_inv_def reg_inv_init)

lemma reserve_evolves: "evolves r (fst (reserve_id r))"
  by (simp add: reserve_id_def next_id_def evolves_def)

lemma reserve_id_facts:
  assumes "reserve_id r = (r', i)"
  shows "r' = fst (reserve_id r)" "i = next_id_ctr r" "next_id_ctr r' = i + 1" "reg_get r' = reg_get r"
  using assms by (auto simp: reserve_id_def next_id_def)

lemma registry_step_inv: "registry_step s s' \<Longrightarrow> system_inv s \<Longrightarrow> system_inv s'"
proof (induction rule: registry_step.induct)
  case (step_call r r' res)
  then show ?case
    using registry_call_inv registry_call_evolves unfolding system_inv_def evolves_def
    by (metis fst_conv order_less_le_trans snd_conv)
next
  case (step_reserve r r' i res)
  note f = reserve_id_facts [OF step_reserve(1)]
  have inv: "reg_inv r" using step_reserve(2) by (simp add: system_inv_def)
  then have "reg_inv r'" unfolding f(1) by (rule reserve_id_inv)
  then show ?case
    using step_reserve(2) f reg_invD(2) [OF inv] fresh_id [of r "next_id_ctr r"]
    by (auto simp: system_inv_def ids_inv_def)
next
  case (step_insert_reserved i res h r)
  then have inv: "reg_inv (insert_reserved i h r)"
    by (intro insert_reserved_inv) (auto simp: system_inv_def)
  moreover have "insert_reserved i h r = (reg_put i h r)\<lparr>live := live r + 1\<rparr>"
    using step_insert_reserved by (simp add: system_inv_def insert_reserved_def Let_def)
  ultimately show ?case using step_insert_reserved by (auto simp: system_inv_def)
qed

lemma registry_steps_inv: "registry_step\<^sup>*\<^sup>* s s' \<Longrightarrow> system_inv s \<Longrightarrow> system_inv s'"
  by (induction rule: rtranclp_induct) (simp_all add: registry_step_inv)

text \<open>An id that has been handed out, is not reserved and names nothing.\<close>

definition stale :: "i64 \<Rightarrow> 'o registry \<times> i64 set \<Rightarrow> bool" where
  "stale i s \<longleftrightarrow> i < next_id_ctr (fst s) \<and> i \<notin> snd s \<and> reg_get (fst s) i = None"

lemma registry_step_stale: "registry_step s s' \<Longrightarrow> system_inv s \<Longrightarrow> stale i s \<Longrightarrow> stale i s'"
proof (induction rule: registry_step.induct)
  case (step_call r r' res)
  then show ?case
    using registry_call_evolves [OF step_call(1)] by (auto simp: system_inv_def stale_def evolves_def)
next
  case (step_reserve r r' j res)
  note f = reserve_id_facts [OF step_reserve(1)]
  then show ?case using step_reserve(3) by (simp add: stale_def)
next
  case (step_insert_reserved j res h r)
  then show ?case by (auto simp: stale_def insert_reserved_def Let_def)
qed

lemma stale_forever:
  assumes "registry_step\<^sup>*\<^sup>* s s'" "system_inv s" "stale i s"
  shows "stale i s'"
  using assms
proof (induction rule: rtranclp_induct)
  case base
  then show ?case by simp
next
  case (step s1 s2)
  then show ?case using registry_step_stale [OF step(2)] registry_steps_inv [OF step(1)] by blast
qed

lemma drop_wrong_kind:
  shows "(\<And>s. reg_get r i \<noteq> Some (HString s)) \<Longrightarrow> take_string i r = (r, None)"
    "(\<And>a. reg_get r i \<noteq> Some (HArray a)) \<Longrightarrow> array_drop i r = r"
    "(\<And>a b c. reg_get r i \<noteq> Some (HSlice a b c)) \<Longrightarrow> slice_drop i r = r"
    "(\<And>b off. reg_get r i \<noteq> Some (HMemory b off)) \<Longrightarrow> memory_drop i r = r"
    "(\<And>v c. reg_get r i \<noteq> Some (HShared v c)) \<Longrightarrow> shared_release i r = (r, NULL)"
    "(\<And>a b c. reg_get r i \<noteq> Some (HAsyncSleep a b c)) \<Longrightarrow> async_sleep_drop i r = r"
    "(\<And>a b c d. reg_get r i \<noteq> Some (HAsyncOp a b c d)) \<Longrightarrow> async_op_drop i r = (r, [])"
    "(\<And>core. reg_get r i \<noteq> Some (HGoroutine core)) \<Longrightarrow> goroutine_drop i r = (r, []) \<and> remove_goroutine_handle i r = r"
    "(\<And>core c. reg_get r i \<noteq> Some (HChan core c)) \<Longrightarrow> chan_drop i r = (r, [])"
    "(\<And>core. reg_get r i \<noteq> Some (HReactorReg core)) \<Longrightarrow> reactor_reg_drop i r = (r, [])"
    "(\<And>core. reg_get r i \<noteq> Some (HAsyncIo core)) \<Longrightarrow> async_io_drop i r = (r, [])"
    "(\<And>v. reg_get r i \<noteq> Some (HOpaque v)) \<Longrightarrow> take_opaque down i r = (r, None)"
proof -
  show "(\<And>s. reg_get r i \<noteq> Some (HString s)) \<Longrightarrow> take_string i r = (r, None)"
    by (rule take_string_wrong) (simp add: string_at_None)
  show "(\<And>a. reg_get r i \<noteq> Some (HArray a)) \<Longrightarrow> array_drop i r = r"
    using array_at_iff [of r i] by (cases "array_at r i") (auto simp: array_drop_def)
qed (auto simp: slice_drop_def memory_drop_def shared_release_def async_sleep_drop_def async_op_drop_def goroutine_drop_def
    remove_goroutine_handle_def chan_drop_def reactor_reg_drop_def async_io_drop_def take_opaque_def remove_kind_def
    borrow_def elim!: is_goroutine.elims is_reactor_reg.elims is_async_io.elims split: option.split handle.split)

section \<open>Properties\<close>


lemma two_calls:
  "registry_step\<^sup>*\<^sup>* (reg_init, {}) (fst (take_string 1 (fst (put_string ''a'' (reg_init :: nat registry)))), {})"
  (is "registry_step\<^sup>*\<^sup>* ?s0 (fst (take_string 1 ?r1), {})")
proof -
  have "registry_step ?s0 (?r1, {})" by (rule step_call [OF call_put_string])
  moreover have "registry_step (?r1, {}) (fst (take_string 1 ?r1), {})" by (rule step_call [OF call_take_string])
  ultimately show ?thesis by simp
qed




text \<open>Destructive operations are kind-checked. Dropping or taking a handle that is stale or
  names a value of another kind changes nothing and makes no call into the scheduler.\<close>

theorem drops_kind_checked:
  "((\<forall>s. reg_get r i \<noteq> Some (HString s)) \<longrightarrow> take_string i r = (r, None)) \<and>
   ((\<forall>a. reg_get r i \<noteq> Some (HArray a)) \<longrightarrow> array_drop i r = r) \<and>
   ((\<forall>a b c. reg_get r i \<noteq> Some (HSlice a b c)) \<longrightarrow> slice_drop i r = r) \<and>
   ((\<forall>b off. reg_get r i \<noteq> Some (HMemory b off)) \<longrightarrow> memory_drop i r = r) \<and>
   ((\<forall>v c. reg_get r i \<noteq> Some (HShared v c)) \<longrightarrow> shared_release i r = (r, NULL)) \<and>
   ((\<forall>a b c. reg_get r i \<noteq> Some (HAsyncSleep a b c)) \<longrightarrow> async_sleep_drop i r = r) \<and>
   ((\<forall>a b c d. reg_get r i \<noteq> Some (HAsyncOp a b c d)) \<longrightarrow> async_op_drop i r = (r, [])) \<and>
   ((\<forall>core. reg_get r i \<noteq> Some (HGoroutine core)) \<longrightarrow> goroutine_drop i r = (r, []) \<and> remove_goroutine_handle i r = r) \<and>
   ((\<forall>core c. reg_get r i \<noteq> Some (HChan core c)) \<longrightarrow> chan_drop i r = (r, [])) \<and>
   ((\<forall>core. reg_get r i \<noteq> Some (HReactorReg core)) \<longrightarrow> reactor_reg_drop i r = (r, [])) \<and>
   ((\<forall>core. reg_get r i \<noteq> Some (HAsyncIo core)) \<longrightarrow> async_io_drop i r = (r, [])) \<and>
   ((\<forall>v. reg_get r i \<noteq> Some (HOpaque v)) \<longrightarrow> take_opaque down i r = (r, None))"
  by (simp add: drop_wrong_kind)

theorem drops_kind_checked_witness:
  "array_drop 1 (fst (put_string ''a'' (reg_init :: nat registry))) = fst (put_string ''a'' reg_init) \<and>
   chan_drop 9 (fst (put_string ''a'' (reg_init :: nat registry))) = (fst (put_string ''a'' reg_init), [])"
proof -
  let ?r = "fst (put_string ''a'' (reg_init :: nat registry))"
  have "reg_get ?r 1 = Some (HString ''a'')" "reg_get ?r 9 = None"
    by (simp_all add: put_string_def reg_init_def [THEN arg_cong, of next_id_ctr])
  then show ?thesis
    using drops_kind_checked [of ?r 1 "\<lambda>v. Some v"] drops_kind_checked [of ?r 9 "\<lambda>v. Some v"] by auto
qed

end
