(* ===== verification/Id_Map.thy ===== *)
theory Id_Map
  imports Ntsc_Prelude "HOL-Library.Word"
begin

text \<open>
  The hasher of the tables keyed by runtime ids (\<open>crates/ntsc-runtime/src/idmap.rs\<close>), on 64-bit
  machine words: the finalizer \<open>mix\<close>, the hasher's state, and its write operations. The hash map
  itself is the standard library's.
\<close>

unbundle bit_operations_syntax

section \<open>Model\<close>

type_synonym u64 = "64 word"

definition xor_shift :: "u64 \<Rightarrow> u64" where
  "xor_shift h = h XOR drop_bit 33 h"

definition mix :: "u64 \<Rightarrow> u64" where
  "mix v = (let hash = v;
                hash = hash XOR drop_bit 33 hash;
                hash = hash * 0xff51afd7ed558ccd;
                hash = hash XOR drop_bit 33 hash
            in hash)"

type_synonym id_hasher = u64

definition id_hasher_default :: id_hasher where
  "id_hasher_default = 0"

definition finish :: "id_hasher \<Rightarrow> u64" where
  "finish h = h"

text \<open>\<open>value as u64\<close> keeps the two's complement bits.\<close>

definition write_i64 :: "id_hasher \<Rightarrow> i64 \<Rightarrow> id_hasher" where
  "write_i64 h v = mix (word_of_int v)"

definition write_u64 :: "id_hasher \<Rightarrow> u64 \<Rightarrow> id_hasher" where
  "write_u64 h v = mix v"

definition write_usize :: "id_hasher \<Rightarrow> u64 \<Rightarrow> id_hasher" where
  "write_usize h v = mix v"

primrec write_bytes :: "id_hasher \<Rightarrow> 8 word list \<Rightarrow> id_hasher" where
  "write_bytes h [] = h"
| "write_bytes h (b # bs) = write_bytes (mix (h XOR ucast b)) bs"

section \<open>Distinct ids have distinct hashes\<close>

lemma xor_shift_involution [simp]: "xor_shift (xor_shift h) = h"
  by (rule bit_word_eqI) (auto simp: xor_shift_def bit_xor_iff bit_drop_bit_eq dest: bit_imp_le_length)

lemma mix_factor: "mix v = xor_shift (xor_shift v * 0xff51afd7ed558ccd)"
  by (simp add: mix_def xor_shift_def Let_def)

text \<open>The multiplier is odd, so it has an inverse modulo \<open>2 ^ 64\<close>.\<close>

definition unmix :: "u64 \<Rightarrow> u64" where
  "unmix h = xor_shift (xor_shift h * 5725274745694666757)"

lemma multiplier_inverse [simp]: "h * 0xff51afd7ed558ccd * 5725274745694666757 = (h :: u64)"
proof -
  have inverse: "(0xff51afd7ed558ccd :: u64) * 5725274745694666757 = 1" by simp
  show ?thesis unfolding mult.assoc inverse by simp
qed

lemma unmix_mix [simp]: "unmix (mix v) = v"
  by (simp add: unmix_def mix_factor)

lemma mix_inj: "mix a = mix b \<longleftrightarrow> a = b"
  by (metis unmix_mix)

lemma in_i64_signed: "in_i64 a \<Longrightarrow> sint (word_of_int a :: u64) = a"
  by (simp add: in_i64_def int_word_sint)

lemma word_of_i64_inj: "in_i64 a \<Longrightarrow> in_i64 b \<Longrightarrow> (word_of_int a :: u64) = word_of_int b \<longleftrightarrow> a = b"
  by (metis in_i64_signed)

text \<open>
  The hasher never collides on ids: two \<open>i64\<close> ids have the same hash only if they are the same id,
  whatever the hashers held before.
\<close>

theorem id_hash_injective:
  assumes "in_i64 a" "in_i64 b" "finish (write_i64 h a) = finish (write_i64 h' b)"
  shows "a = b"
  using assms by (simp add: finish_def write_i64_def mix_inj word_of_i64_inj)

theorem id_hash_injective_witness: "finish (write_i64 0 1) \<noteq> finish (write_i64 0 2)"
  using id_hash_injective [of 1 2 0 0] by (auto simp: in_i64_def)

end
