(* ===== verification/Type_Relation.thy ===== *)
theory Type_Relation
  imports Ntsc_Prelude
begin

text \<open>
  The resolved types of the checker and the assignability relation between them
  (\<open>crates/ntsc-typeck/src/ty.rs\<close>). A constructor of \<open>Ty\<close> has the prefix \<open>Ty\<close>. The arms of the
  match in \<open>is_assignable_from\<close> are tried in order, and an arm whose guard fails falls through to the
  later ones; what every arm can fall through to is the last but one, which reads through a view.
\<close>

section \<open>Types\<close>

datatype ty =
    TyInt
  | TyFloat
  | TyString
  | TyBool
  | TyVoid
  | TyNil
  | TyArray ty
  | TyOption ty
  | TyResult ty ty
  | TyObject
  | TyFunction "ty list" ty
  | TyClass string
  | TyView ty bool
  | TyShared ty
  | TyAny
  | TyPointer
  | TySlice ty
  | TyOwn ty
  | TyRef ty bool
  | TyRawPointer ty bool
  | TyDyn string
  | TyTuple "ty list"
  | TyChan ty

fun join :: "string \<Rightarrow> string list \<Rightarrow> string" where
  "join sep [] = []"
| "join sep [x] = x"
| "join sep (x # y # ys) = x @ sep @ join sep (y # ys)"

fun label :: "ty \<Rightarrow> string" where
  "label TyInt = ''int''"
| "label TyFloat = ''float''"
| "label TyString = ''string''"
| "label TyBool = ''bool''"
| "label TyVoid = ''void''"
| "label TyNil = ''nil''"
| "label (TyArray inner) = ''array<'' @ label inner @ ''>''"
| "label (TyOption inner) = ''option<'' @ label inner @ ''>''"
| "label (TyResult ok err) = ''result<'' @ label ok @ '', '' @ label err @ ''>''"
| "label TyObject = ''object''"
| "label (TyFunction params return_type) =
     ''fun('' @ join '', '' (map label params) @ '') -> '' @ label return_type"
| "label (TyClass name) = name"
| "label (TyView inner mutable) = (if mutable then ''view mut '' else ''view '') @ label inner"
| "label (TyShared inner) = ''shared '' @ label inner"
| "label TyAny = ''any''"
| "label TyPointer = ''pointer''"
| "label (TySlice inner) = ''slice['' @ label inner @ '']''"
| "label (TyOwn inner) = ''own '' @ label inner"
| "label (TyRef inner mutable) = (if mutable then ''&mut '' else ''&'') @ label inner"
| "label (TyRawPointer inner mutable) = (if mutable then ''*mut '' else ''*const '') @ label inner"
| "label (TyDyn trait_name) = ''dyn '' @ trait_name"
| "label (TyTuple elems) = ''('' @ join '', '' (map label elems) @ '')''"
| "label (TyChan inner) = ''chan['' @ label inner @ '']''"

fun viewable :: "ty \<Rightarrow> bool" where
  "viewable TyInt = False"
| "viewable TyFloat = False"
| "viewable TyBool = False"
| "viewable TyVoid = False"
| "viewable TyNil = False"
| "viewable (TyView _ _) = False"
| "viewable (TyTuple elems) = list_ex viewable elems"
| "viewable _ = True"

section \<open>Assignability\<close>

fun shared_of :: "ty \<Rightarrow> ty option" where
  "shared_of (TyShared t) = Some t"
| "shared_of _ = None"

fun view_of :: "ty \<Rightarrow> ty option" where
  "view_of (TyView t _) = Some t"
| "view_of _ = None"

fun is_dyn :: "ty \<Rightarrow> bool" where
  "is_dyn (TyDyn _) = True"
| "is_dyn _ = False"

lemma shared_of_iff: "shared_of t = Some s \<longleftrightarrow> t = TyShared s"
  by (cases t) auto

lemma view_of_iff: "view_of t = Some s \<longleftrightarrow> (\<exists>m. t = TyView s m)"
  by (cases t) auto

lemma size_zip:
  "(a, b) \<in> set (zip xs ys) \<Longrightarrow> size a + size b < size_list size xs + size_list size ys"
  by (induction xs ys rule: list_induct2') auto

function is_assignable_from :: "ty \<Rightarrow> ty \<Rightarrow> bool" where
  "is_assignable_from self other =
     (let through_view = (case view_of other of Some t2 \<Rightarrow> is_assignable_from self t2 | None \<Rightarrow> False)
      in case shared_of other of
        Some b \<Rightarrow>
          (case self of
             TyShared a \<Rightarrow> is_assignable_from a b
           | TyView t1 _ \<Rightarrow> is_assignable_from t1 b
           | _ \<Rightarrow> False)
      | None \<Rightarrow>
      if (case shared_of self of Some a \<Rightarrow> viewable other | None \<Rightarrow> False)
      then (case shared_of self of Some a \<Rightarrow> is_assignable_from a other | None \<Rightarrow> False)
      else if is_dyn self \<or> is_dyn other then False
      else if self = TyAny \<or> other = TyAny then True
      else
      (case self of
         TyInt \<Rightarrow> (case other of TyInt \<Rightarrow> True | _ \<Rightarrow> through_view)
       | TyPointer \<Rightarrow> (case other of TyPointer \<Rightarrow> True | _ \<Rightarrow> through_view)
       | TySlice a \<Rightarrow> (case other of TySlice b \<Rightarrow> is_assignable_from a b \<or> b = TyAny | _ \<Rightarrow> through_view)
       | TyOwn a \<Rightarrow> (case other of TyOwn b \<Rightarrow> is_assignable_from a b | _ \<Rightarrow> through_view)
       | TyRef a am \<Rightarrow>
           (case other of TyRef b bm \<Rightarrow> (\<not> am \<or> bm) \<and> is_assignable_from a b | _ \<Rightarrow> through_view)
       | TyRawPointer a am \<Rightarrow>
           (case other of TyRawPointer b bm \<Rightarrow> (\<not> am \<or> bm) \<and> is_assignable_from a b | _ \<Rightarrow> through_view)
       | TyFloat \<Rightarrow> (case other of TyInt \<Rightarrow> True | TyFloat \<Rightarrow> True | _ \<Rightarrow> through_view)
       | TyString \<Rightarrow> (case other of TyString \<Rightarrow> True | TyObject \<Rightarrow> True | _ \<Rightarrow> through_view)
       | TyBool \<Rightarrow> (case other of TyBool \<Rightarrow> True | _ \<Rightarrow> through_view)
       | TyNil \<Rightarrow> (case other of TyNil \<Rightarrow> True | _ \<Rightarrow> through_view)
       | TyVoid \<Rightarrow> (case other of TyVoid \<Rightarrow> True | _ \<Rightarrow> through_view)
       | TyArray a \<Rightarrow> (case other of TyArray b \<Rightarrow> is_assignable_from a b | _ \<Rightarrow> through_view)
       | TyOption a \<Rightarrow>
           (case other of
              TyOption b \<Rightarrow> is_assignable_from a b
            | TyNil \<Rightarrow> True
            | _ \<Rightarrow> if is_assignable_from a other then True else through_view)
       | TyResult a_ok a_err \<Rightarrow>
           (case other of
              TyResult b_ok b_err \<Rightarrow> is_assignable_from a_ok b_ok \<and> is_assignable_from a_err b_err
            | _ \<Rightarrow> through_view)
       | TyObject \<Rightarrow> (case other of TyObject \<Rightarrow> True | _ \<Rightarrow> through_view)
       | TyFunction p1 r1 \<Rightarrow>
           (case other of
              TyFunction p2 r2 \<Rightarrow>
                length p1 = length p2 \<and> list_all (\<lambda>p. is_assignable_from (fst p) (snd p)) (zip p1 p2) \<and>
                is_assignable_from r1 r2
            | _ \<Rightarrow> through_view)
       | TyClass a \<Rightarrow> (case other of TyClass b \<Rightarrow> a = b | _ \<Rightarrow> through_view)
       | TyTuple a \<Rightarrow>
           (case other of
              TyTuple b \<Rightarrow> length a = length b \<and> list_all (\<lambda>p. is_assignable_from (fst p) (snd p)) (zip a b)
            | _ \<Rightarrow> through_view)
       | TyChan a \<Rightarrow> (case other of TyChan b \<Rightarrow> is_assignable_from a b | _ \<Rightarrow> through_view)
       | TyView t1 mut1 \<Rightarrow>
           (case other of
              TyView t2 mut2 \<Rightarrow> (\<not> mut1 \<or> mut2) \<and> is_assignable_from t1 t2
            | _ \<Rightarrow> is_assignable_from t1 other)
       | _ \<Rightarrow> through_view))"
  by pat_completeness auto

termination
  by (relation "measure (\<lambda>(a, b). size a + size b)") (auto simp: shared_of_iff view_of_iff dest: size_zip)

declare is_assignable_from.simps [simp del]

section \<open>Lemmas\<close>

fun mentions_dyn :: "ty \<Rightarrow> bool" where
  "mentions_dyn (TyDyn _) = True"
| "mentions_dyn (TyArray t) = mentions_dyn t"
| "mentions_dyn (TyOption t) = mentions_dyn t"
| "mentions_dyn (TyResult t u) = (mentions_dyn t \<or> mentions_dyn u)"
| "mentions_dyn (TyFunction ps t) = (list_ex mentions_dyn ps \<or> mentions_dyn t)"
| "mentions_dyn (TyView t _) = mentions_dyn t"
| "mentions_dyn (TyShared t) = mentions_dyn t"
| "mentions_dyn (TySlice t) = mentions_dyn t"
| "mentions_dyn (TyOwn t) = mentions_dyn t"
| "mentions_dyn (TyRef t _) = mentions_dyn t"
| "mentions_dyn (TyRawPointer t _) = mentions_dyn t"
| "mentions_dyn (TyTuple ts) = list_ex mentions_dyn ts"
| "mentions_dyn (TyChan t) = mentions_dyn t"
| "mentions_dyn _ = False"

lemma list_all_zip_same: "list_all (\<lambda>p. P (fst p) (snd p)) (zip xs xs) = list_all (\<lambda>x. P x x) xs"
  by (induction xs) simp_all

lemma assignable_same [simp]:
  "is_assignable_from TyInt TyInt"
  "is_assignable_from TyFloat TyFloat"
  "is_assignable_from TyString TyString"
  "is_assignable_from TyBool TyBool"
  "is_assignable_from TyVoid TyVoid"
  "is_assignable_from TyNil TyNil"
  "is_assignable_from (TyArray a) (TyArray a) = is_assignable_from a a"
  "is_assignable_from (TyOption a) (TyOption a) = is_assignable_from a a"
  "is_assignable_from (TyResult a b) (TyResult a b) = (is_assignable_from a a \<and> is_assignable_from b b)"
  "is_assignable_from TyObject TyObject"
  "is_assignable_from (TyFunction ps a) (TyFunction ps a) = (list_all (\<lambda>x. is_assignable_from x x) ps \<and> is_assignable_from a a)"
  "is_assignable_from (TyClass n) (TyClass n)"
  "is_assignable_from (TyView a m) (TyView a m) = is_assignable_from a a"
  "is_assignable_from (TyShared a) (TyShared a) = is_assignable_from a a"
  "is_assignable_from TyAny TyAny"
  "is_assignable_from TyPointer TyPointer"
  "is_assignable_from (TySlice a) (TySlice a) = (is_assignable_from a a \<or> a = TyAny)"
  "is_assignable_from (TyOwn a) (TyOwn a) = is_assignable_from a a"
  "is_assignable_from (TyRef a m) (TyRef a m) = is_assignable_from a a"
  "is_assignable_from (TyRawPointer a m) (TyRawPointer a m) = is_assignable_from a a"
  "is_assignable_from (TyTuple ps) (TyTuple ps) = list_all (\<lambda>x. is_assignable_from x x) ps"
  "is_assignable_from (TyChan a) (TyChan a) = is_assignable_from a a"
  by (simp_all add: list_all_zip_same
      is_assignable_from.simps [of "TyInt" "TyInt"]
      is_assignable_from.simps [of "TyFloat" "TyFloat"]
      is_assignable_from.simps [of "TyString" "TyString"]
      is_assignable_from.simps [of "TyBool" "TyBool"]
      is_assignable_from.simps [of "TyVoid" "TyVoid"]
      is_assignable_from.simps [of "TyNil" "TyNil"]
      is_assignable_from.simps [of "TyArray a" "TyArray a"]
      is_assignable_from.simps [of "TyOption a" "TyOption a"]
      is_assignable_from.simps [of "TyResult a b" "TyResult a b"]
      is_assignable_from.simps [of "TyObject" "TyObject"]
      is_assignable_from.simps [of "TyFunction ps a" "TyFunction ps a"]
      is_assignable_from.simps [of "TyClass n" "TyClass n"]
      is_assignable_from.simps [of "TyView a m" "TyView a m"]
      is_assignable_from.simps [of "TyShared a" "TyShared a"]
      is_assignable_from.simps [of "TyAny" "TyAny"]
      is_assignable_from.simps [of "TyPointer" "TyPointer"]
      is_assignable_from.simps [of "TySlice a" "TySlice a"]
      is_assignable_from.simps [of "TyOwn a" "TyOwn a"]
      is_assignable_from.simps [of "TyRef a m" "TyRef a m"]
      is_assignable_from.simps [of "TyRawPointer a m" "TyRawPointer a m"]
      is_assignable_from.simps [of "TyTuple ps" "TyTuple ps"]
      is_assignable_from.simps [of "TyChan a" "TyChan a"])

lemma assignable_refl_dyn_free: "\<not> mentions_dyn t \<Longrightarrow> is_assignable_from t t"
  by (induction t) (simp_all add: list_all_iff list_ex_iff)

lemma assignable_from_shared:
  "is_assignable_from t (TyShared s) \<longleftrightarrow>
     (\<exists>a. t = TyShared a \<and> is_assignable_from a s) \<or> (\<exists>a m. t = TyView a m \<and> is_assignable_from a s)"
  by (subst is_assignable_from.simps) (simp split: ty.split)

lemma assignable_view_view:
  "is_assignable_from (TyView a m) (TyView b n) \<longleftrightarrow> (m \<longrightarrow> n) \<and> is_assignable_from a b"
  by (subst is_assignable_from.simps) auto

lemma assignable_ref_ref:
  "is_assignable_from (TyRef a m) (TyRef b n) \<longleftrightarrow> (m \<longrightarrow> n) \<and> is_assignable_from a b"
  "is_assignable_from (TyRawPointer a m) (TyRawPointer b n) \<longleftrightarrow> (m \<longrightarrow> n) \<and> is_assignable_from a b"
  by (auto simp: is_assignable_from.simps [of "TyRef a m" "TyRef b n"]
      is_assignable_from.simps [of "TyRawPointer a m" "TyRawPointer b n"])

section \<open>Properties\<close>

text \<open>Every type that does not mention a trait object accepts a value of the same type. A trait
  object accepts nothing here, not even itself: that case is decided against the impl table.\<close>

theorem assignable_refl:
  "(\<not> mentions_dyn t \<longrightarrow> is_assignable_from t t) \<and> \<not> is_assignable_from (TyDyn p) u"
proof
  show "\<not> mentions_dyn t \<longrightarrow> is_assignable_from t t" using assignable_refl_dyn_free by blast
  show "\<not> is_assignable_from (TyDyn p) u"
    by (subst is_assignable_from.simps) (auto split: option.split)
qed

theorem assignable_refl_witness:
  "is_assignable_from (TyOption (TyArray (TyClass ''C''))) (TyOption (TyArray (TyClass ''C'')))"
  using assignable_refl [of "TyOption (TyArray (TyClass ''C''))"] by simp



text \<open>Function types are compared parameter by parameter in the same direction as their results:
  a function that takes an integer is accepted where a function that takes a float is expected,
  although an integer target does not accept a float.\<close>

theorem function_params_covariant:
  "is_assignable_from (TyFunction [TyFloat] TyVoid) (TyFunction [TyInt] TyVoid) \<and> \<not> is_assignable_from TyInt TyFloat"
  by (simp add: is_assignable_from.simps)

end
