(* ===== verification/Symbol_Table.thy ===== *)
theory Symbol_Table
  imports Type_Relation
begin

text \<open>
  The scoped symbol table of the checker (\<open>crates/ntsc-typeck/src/scope.rs\<close>): a stack of scopes,
  the innermost last. A hash map from names is a partial function; it is only looked up and
  updated. \<open>expect("no scope on stack")\<close> is the outcome \<open>None\<close> of \<open>define\<close>, which
  \<open>scopes_ok\<close> rules out.
\<close>

section \<open>Operations\<close>

record symbol_table =
  scopes :: "(string \<rightharpoonup> ty) list"

definition symbol_table_new :: symbol_table where
  "symbol_table_new = \<lparr>scopes = [Map.empty]\<rparr>"

definition push_scope :: "symbol_table \<Rightarrow> symbol_table" where
  "push_scope t = t\<lparr>scopes := scopes t @ [Map.empty]\<rparr>"

definition pop_scope :: "symbol_table \<Rightarrow> symbol_table" where
  "pop_scope t = (if 1 < length (scopes t) then t\<lparr>scopes := butlast (scopes t)\<rparr> else t)"

definition define_name :: "string \<Rightarrow> ty \<Rightarrow> symbol_table \<Rightarrow> (symbol_table \<times> (string + unit)) option" where
  "define_name name ty t =
     (if scopes t = [] then None
      else (let scope = last (scopes t)
            in if scope name \<noteq> None
               then Some (t, Inl (''`'' @ name @ ''` is already defined in this scope''))
               else Some (t\<lparr>scopes := butlast (scopes t) @ [scope(name \<mapsto> ty)]\<rparr>, Inr ())))"

text \<open>The loop over \<open>enumerate().rev()\<close>: the scopes from the innermost outward, with the depth of the
  first of them.\<close>

fun lookup_from :: "string \<Rightarrow> (string \<rightharpoonup> ty) list \<Rightarrow> (nat \<times> ty) option" where
  "lookup_from name [] = None"
| "lookup_from name (scope # outer) =
     (case scope name of Some ty \<Rightarrow> Some (length outer, ty) | None \<Rightarrow> lookup_from name outer)"

definition lookup_depth :: "string \<Rightarrow> symbol_table \<Rightarrow> (nat \<times> ty) option" where
  "lookup_depth name t = lookup_from name (rev (scopes t))"

definition lookup_name :: "string \<Rightarrow> symbol_table \<Rightarrow> ty option" where
  "lookup_name name t = map_option snd (lookup_depth name t)"

definition scope_depth :: "symbol_table \<Rightarrow> nat" where
  "scope_depth t = length (scopes t) - 1"

definition has_in_current_scope :: "string \<Rightarrow> symbol_table \<Rightarrow> bool" where
  "has_in_current_scope name t = (scopes t \<noteq> [] \<and> last (scopes t) name \<noteq> None)"

section \<open>Scopes as an interface\<close>

definition scopes_ok :: "symbol_table \<Rightarrow> bool" where
  "scopes_ok t \<longleftrightarrow> scopes t \<noteq> []"

text \<open>What name resolution relies on: entering and leaving a scope cancel out, a definition is seen
  by the lookups that follow it and hides the outer ones, and fails exactly when the current scope
  has the name already.\<close>

locale scoped_names =
  fixes inv :: "'t \<Rightarrow> bool"
    and enter :: "'t \<Rightarrow> 't"
    and leave :: "'t \<Rightarrow> 't"
    and bind :: "'n \<Rightarrow> 'v \<Rightarrow> 't \<Rightarrow> 't"
    and find :: "'n \<Rightarrow> 't \<Rightarrow> 'v option"
    and depth :: "'t \<Rightarrow> nat"
  assumes inv_enter: "inv t \<Longrightarrow> inv (enter t)"
    and inv_leave: "inv t \<Longrightarrow> inv (leave t)"
    and inv_bind: "inv t \<Longrightarrow> inv (bind n v t)"
    and depth_enter: "inv t \<Longrightarrow> depth (enter t) = Suc (depth t)"
    and depth_leave: "inv t \<Longrightarrow> depth (leave t) = depth t - 1"
    and depth_bind: "inv t \<Longrightarrow> depth (bind n v t) = depth t"
    and leave_enter: "inv t \<Longrightarrow> leave (enter t) = t"
    and leave_bind: "inv t \<Longrightarrow> 0 < depth t \<Longrightarrow> leave (bind n v t) = leave t"
    and find_enter: "inv t \<Longrightarrow> find n (enter t) = find n t"
begin

text \<open>The calls that the body of a block makes.\<close>

inductive body :: "'t \<Rightarrow> 't \<Rightarrow> bool" where
  body_done: "body t t"
| body_bind: "body t t1 \<Longrightarrow> body t (bind n v t1)"
| body_block: "body t t1 \<Longrightarrow> body (enter t1) t2 \<Longrightarrow> body t (leave t2)"

lemma body_facts: "body t t' \<Longrightarrow> inv t \<Longrightarrow> inv t' \<and> depth t' = depth t \<and> (0 < depth t \<longrightarrow> leave t' = leave t)"
proof (induction rule: body.induct)
  case (body_done t)
  then show ?case by simp
next
  case (body_bind t t1 n v)
  then show ?case by (simp add: inv_bind depth_bind leave_bind)
next
  case (body_block t t1 t2)
  then have t1: "inv t1" "depth t1 = depth t" "0 < depth t \<longrightarrow> leave t1 = leave t" by simp_all
  then have "inv t2" "leave t2 = t1"
    using body_block.IH(2) by (simp_all add: inv_enter depth_enter leave_enter)
  with t1 show ?case by simp
qed

lemma block_restores: "inv t \<Longrightarrow> body (enter t) t' \<Longrightarrow> leave t' = t"
  using body_facts [of "enter t" t'] by (simp add: inv_enter depth_enter leave_enter)

end

text \<open>A definition as a state change; a refused one changes nothing.\<close>

definition bind_name :: "string \<Rightarrow> ty \<Rightarrow> symbol_table \<Rightarrow> symbol_table" where
  "bind_name name ty t = (case define_name name ty t of Some (t', _) \<Rightarrow> t' | None \<Rightarrow> t)"

interpretation names: scoped_names scopes_ok push_scope pop_scope bind_name lookup_name scope_depth
proof
  fix t n v
  assume ok: "scopes_ok t"
  then show "scopes_ok (push_scope t)" "scopes_ok (pop_scope t)" "scopes_ok (bind_name n v t)"
    by (auto simp: scopes_ok_def push_scope_def pop_scope_def bind_name_def define_name_def Let_def
        butlast_conv_take)
  show "scope_depth (push_scope t) = Suc (scope_depth t)" "scope_depth (pop_scope t) = scope_depth t - 1"
      "scope_depth (bind_name n v t) = scope_depth t"
    using ok by (auto simp: scopes_ok_def scope_depth_def push_scope_def pop_scope_def bind_name_def define_name_def
        Let_def Suc_diff_1)
  show "pop_scope (push_scope t) = t"
    using ok by (simp add: scopes_ok_def push_scope_def pop_scope_def)
  show "0 < scope_depth t \<Longrightarrow> pop_scope (bind_name n v t) = pop_scope t"
    using ok by (auto simp: scopes_ok_def scope_depth_def pop_scope_def bind_name_def define_name_def Let_def)
  show "lookup_name n (push_scope t) = lookup_name n t"
    by (simp add: lookup_name_def lookup_depth_def push_scope_def)
qed

section \<open>Properties\<close>

text \<open>The calls made while a block is checked: definitions, refused or not, and nested blocks.\<close>

inductive scope_calls :: "symbol_table \<Rightarrow> symbol_table \<Rightarrow> bool" where
  calls_none: "scope_calls t t"
| calls_define: "scope_calls t t1 \<Longrightarrow> define_name name ty t1 = Some (t2, res) \<Longrightarrow> scope_calls t t2"
| calls_block: "scope_calls t t1 \<Longrightarrow> scope_calls (push_scope t1) t2 \<Longrightarrow> scope_calls t (pop_scope t2)"

lemma scope_calls_body: "scope_calls t t' \<Longrightarrow> names.body t t'"
proof (induction rule: scope_calls.induct)
  case (calls_none t)
  show ?case by (rule names.body_done)
next
  case (calls_define t t1 name ty t2 res)
  then have "t2 = bind_name name ty t1" by (simp add: bind_name_def)
  with calls_define.IH show ?case by (simp add: names.body_bind)
next
  case (calls_block t t1 t2)
  then show ?case by (intro names.body_block)
qed

text \<open>C22: Scoping is lexical: whatever definitions and nested blocks the body of a block contains,
  leaving the block restores the symbol table as it was on entry.\<close>

theorem block_scoping:
  assumes "scopes t \<noteq> []" and "scope_calls (push_scope t) t'"
  shows "pop_scope t' = t"
  using assms names.block_restores [of t t'] scope_calls_body by (simp add: scopes_ok_def)

theorem block_scoping_witness:
  "\<exists>t' res. define_name ''x'' TyInt (push_scope symbol_table_new) = Some (t', res) \<and> pop_scope t' = symbol_table_new"
proof -
  obtain t' res where d: "define_name ''x'' TyInt (push_scope symbol_table_new) = Some (t', res)"
    by (auto simp: define_name_def push_scope_def Let_def)
  have "scope_calls (push_scope symbol_table_new) t'" by (rule calls_define [OF calls_none d])
  with d show ?thesis using block_scoping [of symbol_table_new t'] by (simp add: symbol_table_new_def)
qed

text \<open>A definition is refused exactly when the innermost scope has the name, and then changes
  nothing. Otherwise the name resolves to the new type, at the current depth, and every other name
  resolves as before.\<close>

theorem define_lookup:
  assumes ok: "scopes t \<noteq> []"
  shows "\<exists>t' res. define_name name ty t = Some (t', res) \<and>
    (case res of
       Inl _ \<Rightarrow> has_in_current_scope name t \<and> t' = t
     | Inr _ \<Rightarrow> \<not> has_in_current_scope name t \<and>
         (\<forall>n. lookup_depth n t' = (if n = name then Some (scope_depth t, ty) else lookup_depth n t)))"
proof (cases "last (scopes t) name")
  case (Some u)
  then show ?thesis using ok by (simp add: define_name_def has_in_current_scope_def)
next
  case None
  let ?t' = "t\<lparr>scopes := butlast (scopes t) @ [(last (scopes t))(name \<mapsto> ty)]\<rparr>"
  have rv: "rev (scopes t) = last (scopes t) # rev (butlast (scopes t))"
    using ok by (metis append_butlast_last_id rev.simps(2) rev_rev_ident rev_swap)
  have "lookup_depth n ?t' = (if n = name then Some (scope_depth t, ty) else lookup_depth n t)" for n
    by (simp add: lookup_depth_def scope_depth_def rv)
  then show ?thesis using ok None by (simp add: define_name_def has_in_current_scope_def)
qed

theorem define_lookup_witness:
  "\<exists>t' res. define_name ''x'' TyInt symbol_table_new = Some (t', res) \<and>
    (case res of Inl _ \<Rightarrow> False | Inr _ \<Rightarrow> lookup_depth ''x'' t' = Some (0, TyInt))"
proof -
  have "scopes symbol_table_new \<noteq> []" "\<not> has_in_current_scope ''x'' symbol_table_new" "scope_depth symbol_table_new = 0"
    by (simp_all add: symbol_table_new_def has_in_current_scope_def scope_depth_def)
  with define_lookup [of symbol_table_new "''x''" TyInt] show ?thesis
    by (fastforce split: sum.splits)
qed

end
