(* ===== verification/Ast_Token.thy ===== *)
theory Ast_Token
  imports Ntsc_Prelude
begin

text \<open>
  Source locations and tokens (\<open>crates/ntsc-ast/src/span.rs\<close>, \<open>token.rs\<close>). A constructor of
  \<open>TokenKind\<close> has the prefix \<open>Tk\<close>; the end of a span is \<open>span_stop\<close>.
\<close>

section \<open>Spans\<close>

record span =
  span_start :: usize
  span_stop :: usize
  span_line :: u32
  span_column :: u32

definition span_new :: "usize \<Rightarrow> usize \<Rightarrow> u32 \<Rightarrow> u32 \<Rightarrow> span" where
  "span_new start stop line column =
     \<lparr>span_start = start, span_stop = stop, span_line = line, span_column = column\<rparr>"

definition span_dummy :: span where
  "span_dummy = \<lparr>span_start = 0, span_stop = 0, span_line = 1, span_column = 1\<rparr>"

definition span_to :: "span \<Rightarrow> span \<Rightarrow> span" where
  "span_to s other =
     \<lparr>span_start = span_start s, span_stop = span_stop other, span_line = span_line s, span_column = span_column s\<rparr>"

lemma span_to_assoc: "span_to (span_to a b) c = span_to a (span_to b c)"
  by (simp add: span_to_def)

lemma span_to_self [simp]: "span_to a a = a"
  by (simp add: span_to_def)

section \<open>Tokens\<close>

datatype (plugins only: size) token_kind =
    TkLeftParen | TkRightParen | TkLeftBrace | TkRightBrace | TkLeftBracket | TkRightBracket
  | TkComma | TkDot | TkMinus | TkPlus | TkSemicolon | TkSlash | TkStar | TkColon | TkPercent
  | TkAmpersand | TkPipe | TkCaret | TkTilde | TkQuestion | TkBang | TkBangEqual | TkEqual
  | TkEqualEqual | TkGreater | TkGreaterEqual | TkGreaterGreater | TkLess | TkLessEqual | TkLessLess
  | TkPlusPlus | TkMinusMinus | TkPipeGreater | TkLessPipe | TkAndSym | TkOrSym | TkArrow
  | TkReturnArrow | TkDotDotDot | TkDotDot | TkQuestionDot | TkIdentifier string
  | TkStringLiteral string | TkStringSegment string | TkNumberLiteral string | TkNewline | TkAnd
  | TkClass | TkElse | TkElif | TkFalse | TkFun | TkFor | TkIf | TkNil | TkOr | TkSay | TkReturn
  | TkStatic | TkSuper | TkThis | TkTrue | TkVar | TkWhile | TkDo | TkBreak | TkContinue | TkMatch
  | TkCase | TkDefault | TkTry | TkCatch | TkFinally | TkThrow | TkRetry | TkUnsafe | TkQuiet
  | TkEnum | TkType | TkTrait | TkImpl | TkIn | TkUse | TkFrom | TkAs | TkTest | TkAsync | TkAwait
  | TkView | TkMut | TkShared | TkCopy | TkOwn | TkGo | TkChan | TkClose | TkTypeInt | TkTypeFloat
  | TkTypeString | TkTypeBool | TkTypeArray | TkTypeObject | TkTypeOption | TkTypeResult | TkTypeAny
  | TkTypePointer | TkTypeSlice | TkEof

definition is_type_keyword :: "token_kind \<Rightarrow> bool" where
  "is_type_keyword k =
     (case k of
     TkTypeInt \<Rightarrow> True | TkTypeFloat \<Rightarrow> True | TkTypeString \<Rightarrow> True
      | TkTypeBool \<Rightarrow> True | TkTypeArray \<Rightarrow> True
      | TkTypeObject \<Rightarrow> True | TkTypeOption \<Rightarrow> True
      | TkTypeResult \<Rightarrow> True | TkTypeAny \<Rightarrow> True
      | TkTypePointer \<Rightarrow> True | TkTypeSlice \<Rightarrow> True | _ \<Rightarrow> False)"

definition keyword_lexeme :: "token_kind \<Rightarrow> string option" where
  "keyword_lexeme k =
     (case k of
     TkAnd \<Rightarrow> Some ''and'' | TkClass \<Rightarrow> Some ''class''
      | TkElse \<Rightarrow> Some ''else'' | TkElif \<Rightarrow> Some ''elif''
      | TkFalse \<Rightarrow> Some ''false'' | TkFun \<Rightarrow> Some ''fun''
      | TkFor \<Rightarrow> Some ''for'' | TkIf \<Rightarrow> Some ''if''
      | TkNil \<Rightarrow> Some ''nil'' | TkOr \<Rightarrow> Some ''or''
      | TkSay \<Rightarrow> Some ''say'' | TkReturn \<Rightarrow> Some ''return''
      | TkStatic \<Rightarrow> Some ''static'' | TkSuper \<Rightarrow> Some ''super''
      | TkThis \<Rightarrow> Some ''this'' | TkTrue \<Rightarrow> Some ''true''
      | TkVar \<Rightarrow> Some ''var'' | TkWhile \<Rightarrow> Some ''while''
      | TkDo \<Rightarrow> Some ''do'' | TkBreak \<Rightarrow> Some ''break''
      | TkContinue \<Rightarrow> Some ''continue'' | TkMatch \<Rightarrow> Some ''match''
      | TkCase \<Rightarrow> Some ''case'' | TkDefault \<Rightarrow> Some ''default''
      | TkTry \<Rightarrow> Some ''try'' | TkCatch \<Rightarrow> Some ''catch''
      | TkFinally \<Rightarrow> Some ''finally'' | TkThrow \<Rightarrow> Some ''throw''
      | TkRetry \<Rightarrow> Some ''retry'' | TkUnsafe \<Rightarrow> Some ''unsafe''
      | TkQuiet \<Rightarrow> Some ''quiet'' | TkEnum \<Rightarrow> Some ''enum''
      | TkType \<Rightarrow> Some ''type'' | TkTrait \<Rightarrow> Some ''trait''
      | TkImpl \<Rightarrow> Some ''impl'' | TkIn \<Rightarrow> Some ''in''
      | TkUse \<Rightarrow> Some ''use'' | TkFrom \<Rightarrow> Some ''from''
      | TkAs \<Rightarrow> Some ''as'' | TkTest \<Rightarrow> Some ''test''
      | TkAsync \<Rightarrow> Some ''async'' | TkAwait \<Rightarrow> Some ''await''
      | TkView \<Rightarrow> Some ''view'' | TkMut \<Rightarrow> Some ''mut''
      | TkShared \<Rightarrow> Some ''shared'' | TkCopy \<Rightarrow> Some ''copy''
      | TkOwn \<Rightarrow> Some ''own'' | TkGo \<Rightarrow> Some ''go''
      | TkChan \<Rightarrow> Some ''chan'' | TkClose \<Rightarrow> Some ''close''
      | TkTypeInt \<Rightarrow> Some ''int'' | TkTypeFloat \<Rightarrow> Some ''float''
      | TkTypeString \<Rightarrow> Some ''string'' | TkTypeBool \<Rightarrow> Some ''bool''
      | TkTypeArray \<Rightarrow> Some ''array'' | TkTypeObject \<Rightarrow> Some ''object''
      | TkTypeOption \<Rightarrow> Some ''option'' | TkTypeResult \<Rightarrow> Some ''result''
      | TkTypeAny \<Rightarrow> Some ''any'' | TkTypePointer \<Rightarrow> Some ''pointer''
      | TkTypeSlice \<Rightarrow> Some ''slice'' | _ \<Rightarrow> None)"

record token =
  kind :: token_kind
  tspan :: span

definition token_new :: "token_kind \<Rightarrow> span \<Rightarrow> token" where
  "token_new k s = \<lparr>kind = k, tspan = s\<rparr>"

definition lexeme :: "token \<Rightarrow> string" where
  "lexeme t =
     (case kind t of
        TkIdentifier s \<Rightarrow> s | TkStringLiteral s \<Rightarrow> s | TkStringSegment s \<Rightarrow> s | TkNumberLiteral s \<Rightarrow> s | _ \<Rightarrow> [])"

lemma token_new_simps [simp]: "kind (token_new k s) = k" "tspan (token_new k s) = s"
  by (simp_all add: token_new_def)

end
