(* ===== verification/Ast.thy ===== *)
theory Ast
  imports Ast_Token
begin

text \<open>
  The abstract syntax of the language (\<open>crates/ntsc-ast/src\<close>: \<open>expr.rs\<close>, \<open>stmt.rs\<close>,
  \<open>types.rs\<close>, \<open>pattern.rs\<close>). The constructors of \<open>Expr\<close>, \<open>Stmt\<close>, \<open>TypeAnnotation\<close>, \<open>LiteralValue\<close> and
  \<open>Pattern\<close> have the prefixes \<open>E\<close>, \<open>S\<close>, \<open>TA\<close>, \<open>L\<close> and \<open>P\<close>, with the fields in the order of the
  source. A struct that contains expressions or statements is a datatype with one constructor,
  the others are records.
\<close>

section \<open>Literals and type annotations\<close>

datatype literal_value =
    LNil
  | LBool bool
  | LNumber string
  | LString string

datatype (plugins only: size) type_annotation =
    TAInt | TAFloat | TAString | TABool | TAArray "type_annotation option" | TAObject
  | TAOption type_annotation | TAResult type_annotation type_annotation | TAView type_annotation bool
  | TAShared type_annotation | TAAny | TAPointer | TASlice "type_annotation option" | TAOwn type_annotation
  | TARef type_annotation bool | TARawPointer type_annotation bool | TANamed token | TAImplTrait token
  | TADyn token | TATuple "type_annotation list" | TAChan type_annotation

section \<open>Expressions and statements\<close>

record return_type =
  rt_ty :: type_annotation
  rt_arrow_span :: span

record function_param =
  fp_name :: token
  fp_type :: "type_annotation option"

datatype view_mutability = ReadOnly | Mutable

record match_pattern =
  mp_variant :: token
  mp_binding :: "token option"

record generic_param =
  gp_name :: token
  gp_bounds :: "token list"

datatype (plugins only: size) expr =
    ELiteral literal_value span
  | EVariable token
  | EBinary expr token expr
  | EUnary token expr
  | EPostfixUnary token expr
  | EGrouping expr span span
  | EMember expr token
  | EOptionalMember expr token
  | ECall expr span "expr list"
  | EAssign token expr
  | EIndexGet expr expr
  | EIndexSet expr expr expr
  | EMemberSet expr token expr
  | EThis token
  | ELambda "function_param list" "return_type option" "stmt list" span
  | ETernary expr expr expr
  | ESpread expr span
  | EObjectLiteral "object_property list" span
  | EArrayLiteral "expr list" span
  | EAwait expr "expr list" span
  | EAsyncBlock "stmt list" "return_type option" span
  | EView expr bool span
  | ECopy expr span
  | EBorrow expr bool span
  | ERawDeref expr span
  | ERawDerefSet expr expr span
  | EStructLiteral token "object_property list" "expr option" span
  | EPropagate expr span
  | ETupleLiteral "expr list" span
  | ETupleIndex expr nat span
  | EChanSend expr expr span
  | EChanRecv token expr span
  | EClose expr span
and object_property = ObjectProperty string expr span
and stmt =
    SExpression expr
  | SSay expr span
  | SVar token "type_annotation option" "expr option" bool bool "view_mutability option"
  | SBlock "stmt list" span span
  | SIf expr stmt "elif_branch list" "stmt option"
  | SWhile expr stmt
  | SDoWhile stmt expr
  | SFor "stmt option" "expr option" "expr option" stmt
  | SForIn token expr stmt
  | SForAwait token expr stmt
  | SChanRecvFor token expr stmt
  | SGo expr "stmt list option" span
  | SFunction token "generic_param list" "function_param list" "return_type option" "stmt list"
  | SAsyncFunction token "function_param list" "return_type option" "stmt list"
  | SReturn "expr option"
  | SClass token "generic_param list" "token option" "stmt list"
  | SBreak span
  | SContinue span
  | SMatch expr "match_case list" "stmt option"
  | STry stmt "token option" "stmt option" "stmt option"
  | SThrow expr
  | SRetry expr stmt "token option" "stmt option"
  | SUnsafe stmt
  | SQuiet "string list" stmt
  | SDestructure bool bool "token list" "string list" expr
  | SUse token bool "token list" "token option"
  | SEnum token "generic_param list" "enum_member list"
  | STypeAlias token "generic_param list" type_annotation
  | STrait token "token list" "token list" "stmt list"
  | SImpl token token "stmt list"
  | STest token "stmt list"
and elif_branch = ElifBranch expr stmt span
and match_case = MatchCase expr "match_pattern option" "expr option" stmt span
and enum_member = EnumMember token "expr option" "type_annotation list"

record program =
  statements :: "stmt list"

record object_pattern_field =
  opf_key :: string
  opf_alias :: "token option"
  opf_key_span :: span

datatype pattern =
    PLiteral literal_value span
  | PWildcard span
  | PVariable token
  | PArray "pattern list" "pattern option" span
  | PObject "object_pattern_field list" span

section \<open>Operations\<close>

definition from_token :: "token \<Rightarrow> type_annotation option" where
  "from_token t =
     (case kind t of
        TkTypeInt \<Rightarrow> Some TAInt
      | TkTypeFloat \<Rightarrow> Some TAFloat
      | TkTypeString \<Rightarrow> Some TAString
      | TkTypeBool \<Rightarrow> Some TABool
      | TkTypeArray \<Rightarrow> Some (TAArray None)
      | TkTypeObject \<Rightarrow> Some TAObject
      | TkTypeOption \<Rightarrow> None
      | TkTypeResult \<Rightarrow> None
      | TkTypeAny \<Rightarrow> Some TAAny
      | TkTypePointer \<Rightarrow> Some TAPointer
      | TkTypeSlice \<Rightarrow> Some (TASlice None)
      | TkIdentifier _ \<Rightarrow> Some (TANamed t)
      | _ \<Rightarrow> None)"

definition annotation_label :: "type_annotation \<Rightarrow> string" where
  "annotation_label a =
     (case a of
        TAInt \<Rightarrow> ''int''
      | TAFloat \<Rightarrow> ''float''
      | TAString \<Rightarrow> ''string''
      | TABool \<Rightarrow> ''bool''
      | TAArray _ \<Rightarrow> ''array''
      | TAObject \<Rightarrow> ''object''
      | TAOption _ \<Rightarrow> ''option''
      | TAResult _ _ \<Rightarrow> ''result''
      | TAView _ _ \<Rightarrow> ''view''
      | TAShared _ \<Rightarrow> ''shared''
      | TAAny \<Rightarrow> ''any''
      | TAPointer \<Rightarrow> ''pointer''
      | TASlice _ \<Rightarrow> ''slice''
      | TAOwn _ \<Rightarrow> ''own''
      | TARef _ mutable \<Rightarrow> if mutable then ''&mut'' else ''&''
      | TARawPointer _ mutable \<Rightarrow> if mutable then ''*mut'' else ''*const''
      | TANamed _ \<Rightarrow> ''named type''
      | TAImplTrait _ \<Rightarrow> ''impl trait''
      | TADyn _ \<Rightarrow> ''dyn trait''
      | TATuple _ \<Rightarrow> ''tuple''
      | TAChan _ \<Rightarrow> ''chan'')"

primrec expr_span :: "expr \<Rightarrow> span" where
  "expr_span (ELiteral val sp) = sp"
| "expr_span (EVariable name) = tspan name"
| "expr_span (EBinary left op right) = span_to (expr_span left) (expr_span right)"
| "expr_span (EUnary op right) = span_to (tspan op) (expr_span right)"
| "expr_span (EPostfixUnary op left) = span_to (expr_span left) (tspan op)"
| "expr_span (EGrouping expression open_span close_span) = span_to open_span close_span"
| "expr_span (EMember object property) = span_to (expr_span object) (tspan property)"
| "expr_span (EOptionalMember object property) = span_to (expr_span object) (tspan property)"
| "expr_span (ECall callee paren arguments) =
     (let spans = map expr_span arguments
      in span_to (expr_span callee) (if spans = [] then expr_span callee else last spans))"
| "expr_span (EAssign name val) = span_to (tspan name) (expr_span val)"
| "expr_span (EIndexGet object index) = span_to (expr_span object) (expr_span index)"
| "expr_span (EIndexSet object index val) = span_to (expr_span object) (expr_span index)"
| "expr_span (EMemberSet object property val) = span_to (expr_span object) (tspan property)"
| "expr_span (EThis keyword) = tspan keyword"
| "expr_span (ELambda params return_type body sp) = sp"
| "expr_span (ETernary condition then_branch else_branch) = span_to (expr_span condition) (expr_span else_branch)"
| "expr_span (ESpread val op_span) = span_to op_span (expr_span val)"
| "expr_span (EObjectLiteral properties sp) = sp"
| "expr_span (EArrayLiteral elements sp) = sp"
| "expr_span (EAwait callee arguments sp) = sp"
| "expr_span (EAsyncBlock body return_type sp) = sp"
| "expr_span (EView target mutable keyword) = span_to keyword (expr_span target)"
| "expr_span (ECopy expression keyword) = span_to keyword (expr_span expression)"
| "expr_span (EBorrow target mutable keyword) = span_to keyword (expr_span target)"
| "expr_span (ERawDeref target star) = span_to star (expr_span target)"
| "expr_span (ERawDerefSet target val star) = span_to (span_to star (expr_span val)) (expr_span target)"
| "expr_span (EStructLiteral class_name flds update sp) = sp"
| "expr_span (EPropagate val question_span) = span_to (expr_span val) question_span"
| "expr_span (ETupleLiteral elements sp) = sp"
| "expr_span (ETupleIndex object index dot_span) = span_to (expr_span object) dot_span"
| "expr_span (EChanSend channel val op_span) = span_to (span_to (expr_span channel) (expr_span val)) op_span"
| "expr_span (EChanRecv receiver channel op_span) = span_to (span_to (tspan receiver) (expr_span channel)) op_span"
| "expr_span (EClose channel keyword) = span_to keyword (expr_span channel)"

definition pattern_span :: "pattern \<Rightarrow> span" where
  "pattern_span p =
     (case p of
        PLiteral _ sp \<Rightarrow> sp
      | PWildcard sp \<Rightarrow> sp
      | PVariable name \<Rightarrow> tspan name
      | PArray _ _ sp \<Rightarrow> sp
      | PObject _ sp \<Rightarrow> sp)"

end
