(* ===== verification/Const_Eval.thy ===== *)
theory Const_Eval
  imports Ast "HOL-Library.Signed_Division"
begin

text \<open>
  The compile-time evaluator of constants (\<open>crates/ntsc-typeck/src/const_eval.rs\<close>).

  Integer arithmetic is that of a release build: addition, subtraction, multiplication and negation
  wrap, and the division of the least integer by minus one panics in every build. The hardware's
  double-precision arithmetic is the parameter \<open>float_ops\<close>; its type \<open>'f\<close> is the type of floats.

  The evaluator recurses over expressions and, at a call, into the body of the function. The
  argument \<open>rec\<close> of the operations is that recursion, and \<open>eval\<close> closes it with an amount of fuel:
  \<open>Out_Of_Fuel\<close> marks a run that needs more. Theorem \<open>eval_returns\<close> shows that for every expression
  some amount is enough, since a function is entered at most once.
\<close>

section \<open>Values and runs\<close>

datatype 'f const_value = CInt i64 | CFloat 'f | CBool bool | CString string

record 'f float_ops =
  f_parse :: "string \<Rightarrow> 'f option"
  f_of_int :: "i64 \<Rightarrow> 'f"
  f_zero :: 'f
  f_neg :: "'f \<Rightarrow> 'f"
  f_add :: "'f \<Rightarrow> 'f \<Rightarrow> 'f"
  f_sub :: "'f \<Rightarrow> 'f \<Rightarrow> 'f"
  f_mul :: "'f \<Rightarrow> 'f \<Rightarrow> 'f"
  f_div :: "'f \<Rightarrow> 'f \<Rightarrow> 'f"
  f_rem :: "'f \<Rightarrow> 'f \<Rightarrow> 'f"
  f_eq :: "'f \<Rightarrow> 'f \<Rightarrow> bool"
  f_lt :: "'f \<Rightarrow> 'f \<Rightarrow> bool"
  f_le :: "'f \<Rightarrow> 'f \<Rightarrow> bool"

fun as_i64 :: "'f const_value \<Rightarrow> i64 option" where
  "as_i64 (CInt v) = Some v"
| "as_i64 _ = None"

fun as_f64 :: "'f float_ops \<Rightarrow> 'f const_value \<Rightarrow> 'f option" where
  "as_f64 ops (CFloat v) = Some v"
| "as_f64 ops (CInt v) = Some (f_of_int ops v)"
| "as_f64 ops _ = None"

fun as_bool :: "'f const_value \<Rightarrow> bool option" where
  "as_bool (CBool v) = Some v"
| "as_bool _ = None"

fun as_str :: "'f const_value \<Rightarrow> string option" where
  "as_str (CString v) = Some v"
| "as_str _ = None"

datatype 'a run = Out_Of_Fuel | Panic | Ret 'a

fun run_bind :: "'a run \<Rightarrow> ('a \<Rightarrow> 'b run) \<Rightarrow> 'b run" where
  "run_bind Out_Of_Fuel f = Out_Of_Fuel"
| "run_bind Panic f = Panic"
| "run_bind (Ret x) f = f x"

record 'f const_evaluator =
  constants :: "string \<rightharpoonup> 'f const_value"
  fn_bodies :: "string \<rightharpoonup> stmt list"
  fn_params :: "string \<rightharpoonup> string list"
  evaluating :: "string \<rightharpoonup> span"

definition const_evaluator_new :: "'f const_evaluator" where
  "const_evaluator_new =
     \<lparr>constants = Map.empty, fn_bodies = Map.empty, fn_params = Map.empty, evaluating = Map.empty\<rparr>"

section \<open>The check\<close>

definition is_const_binary_op :: "token_kind \<Rightarrow> bool" where
  "is_const_binary_op k =
     (case k of
        TkPlus \<Rightarrow> True | TkMinus \<Rightarrow> True | TkStar \<Rightarrow> True | TkSlash \<Rightarrow> True | TkPercent \<Rightarrow> True
      | TkEqualEqual \<Rightarrow> True | TkBangEqual \<Rightarrow> True | TkLess \<Rightarrow> True | TkLessEqual \<Rightarrow> True
      | TkGreater \<Rightarrow> True | TkGreaterEqual \<Rightarrow> True | _ \<Rightarrow> False)"

definition is_return :: "stmt \<Rightarrow> bool" where
  "is_return s = (case s of SReturn _ \<Rightarrow> True | _ \<Rightarrow> False)"

definition is_pure_function :: "stmt list \<Rightarrow> bool" where
  "is_pure_function body = (if length body \<noteq> 1 then False else is_return (body ! 0))"

definition callee_name :: "expr \<Rightarrow> string option" where
  "callee_name callee = (case callee of EVariable name \<Rightarrow> Some (lexeme name) | _ \<Rightarrow> None)"

fun is_constant_expr :: "'f const_evaluator \<Rightarrow> expr \<Rightarrow> bool" where
  "is_constant_expr st e =
     (case e of
        ELiteral _ _ \<Rightarrow> True
      | EUnary op right \<Rightarrow> kind op = TkMinus \<and> is_constant_expr st right
      | EGrouping expression _ _ \<Rightarrow> is_constant_expr st expression
      | EBinary left op right \<Rightarrow>
          is_const_binary_op (kind op) \<and> is_constant_expr st left \<and> is_constant_expr st right
      | EVariable name \<Rightarrow> constants st (lexeme name) \<noteq> None
      | ECall callee _ arguments \<Rightarrow>
          (case callee_name callee of
             None \<Rightarrow> False
           | Some fn_name \<Rightarrow>
               (case fn_bodies st fn_name of
                  None \<Rightarrow> False
                | Some body \<Rightarrow> is_pure_function body \<and> list_all (is_constant_expr st) arguments))
      | _ \<Rightarrow> False)"

declare is_constant_expr.simps [simp del]

section \<open>Arithmetic\<close>

fun digits_value :: "nat \<Rightarrow> string \<Rightarrow> nat option" where
  "digits_value acc [] = Some acc"
| "digits_value acc (c # cs) =
     (if 48 \<le> (of_char c :: nat) \<and> (of_char c :: nat) \<le> 57
      then digits_value (acc * 10 + (of_char c - 48)) cs else None)"

text \<open>\<open>str::parse::<i64>\<close>: an optional sign, then digits; out of range is an error.\<close>

definition parse_i64 :: "string \<Rightarrow> i64 option" where
  "parse_i64 s =
     (let (negative, digits) =
            (case s of
               [] \<Rightarrow> (False, [])
             | c # cs \<Rightarrow> if c = CHR ''-'' then (True, cs) else if c = CHR ''+'' then (False, cs) else (False, s))
      in if digits = [] then None
         else (case digits_value 0 digits of
                 None \<Rightarrow> None
               | Some n \<Rightarrow>
                   (let v = (if negative then - int n else int n)
                    in if in_i64 v then Some v else None)))"

text \<open>\<open>/\<close> and \<open>%\<close> on \<open>i64\<close>: truncating, and a panic when the quotient is out of range.\<close>

definition i64_div :: "i64 \<Rightarrow> i64 \<Rightarrow> i64 run" where
  "i64_div a b = (if a = i64_min \<and> b = - 1 then Panic else Ret (a sdiv b))"

definition i64_rem :: "i64 \<Rightarrow> i64 \<Rightarrow> i64 run" where
  "i64_rem a b = (if a = i64_min \<and> b = - 1 then Panic else Ret (a smod b))"

definition binary_int :: "token_kind \<Rightarrow> i64 \<Rightarrow> i64 \<Rightarrow> 'f const_value option run" where
  "binary_int k a b =
     (case k of
        TkEqualEqual \<Rightarrow> Ret (Some (CBool (a = b)))
      | TkBangEqual \<Rightarrow> Ret (Some (CBool (a \<noteq> b)))
      | TkLess \<Rightarrow> Ret (Some (CBool (a < b)))
      | TkLessEqual \<Rightarrow> Ret (Some (CBool (a \<le> b)))
      | TkGreater \<Rightarrow> Ret (Some (CBool (b < a)))
      | TkGreaterEqual \<Rightarrow> Ret (Some (CBool (b \<le> a)))
      | TkPlus \<Rightarrow> Ret (Some (CInt (wrap_i64 (a + b))))
      | TkMinus \<Rightarrow> Ret (Some (CInt (wrap_i64 (a - b))))
      | TkStar \<Rightarrow> Ret (Some (CInt (wrap_i64 (a * b))))
      | TkSlash \<Rightarrow> if b = 0 then Ret None else run_bind (i64_div a b) (\<lambda>q. Ret (Some (CInt q)))
      | TkPercent \<Rightarrow> if b = 0 then Ret None else run_bind (i64_rem a b) (\<lambda>q. Ret (Some (CInt q)))
      | _ \<Rightarrow> Ret None)"

definition binary_float :: "'f float_ops \<Rightarrow> token_kind \<Rightarrow> 'f \<Rightarrow> 'f \<Rightarrow> 'f const_value option run" where
  "binary_float ops k a b =
     (case k of
        TkEqualEqual \<Rightarrow> Ret (Some (CBool (f_eq ops a b)))
      | TkBangEqual \<Rightarrow> Ret (Some (CBool (\<not> f_eq ops a b)))
      | TkLess \<Rightarrow> Ret (Some (CBool (f_lt ops a b)))
      | TkLessEqual \<Rightarrow> Ret (Some (CBool (f_le ops a b)))
      | TkGreater \<Rightarrow> Ret (Some (CBool (f_lt ops b a)))
      | TkGreaterEqual \<Rightarrow> Ret (Some (CBool (f_le ops b a)))
      | TkPlus \<Rightarrow> Ret (Some (CFloat (f_add ops a b)))
      | TkMinus \<Rightarrow> Ret (Some (CFloat (f_sub ops a b)))
      | TkStar \<Rightarrow> Ret (Some (CFloat (f_mul ops a b)))
      | TkSlash \<Rightarrow> if f_eq ops b (f_zero ops) then Ret None else Ret (Some (CFloat (f_div ops a b)))
      | TkPercent \<Rightarrow> if f_eq ops b (f_zero ops) then Ret None else Ret (Some (CFloat (f_rem ops a b)))
      | _ \<Rightarrow> Ret None)"

definition binary_equality :: "token_kind \<Rightarrow> bool \<Rightarrow> 'f const_value option run" where
  "binary_equality k eq =
     (case k of TkEqualEqual \<Rightarrow> Ret (Some (CBool eq)) | TkBangEqual \<Rightarrow> Ret (Some (CBool (\<not> eq))) | _ \<Rightarrow> Ret None)"

text \<open>The mixed arms promote the integer; they cover arithmetic only, and the test for zero is on the
  right operand as written.\<close>

definition binary_mixed ::
    "'f float_ops \<Rightarrow> token_kind \<Rightarrow> 'f \<Rightarrow> 'f \<Rightarrow> bool \<Rightarrow> 'f const_value option run" where
  "binary_mixed ops k a b right_zero =
     (case k of
        TkPlus \<Rightarrow> Ret (Some (CFloat (f_add ops a b)))
      | TkMinus \<Rightarrow> Ret (Some (CFloat (f_sub ops a b)))
      | TkStar \<Rightarrow> Ret (Some (CFloat (f_mul ops a b)))
      | TkSlash \<Rightarrow> if right_zero then Ret None else Ret (Some (CFloat (f_div ops a b)))
      | TkPercent \<Rightarrow> if right_zero then Ret None else Ret (Some (CFloat (f_rem ops a b)))
      | _ \<Rightarrow> Ret None)"

fun binary_value ::
    "'f float_ops \<Rightarrow> token_kind \<Rightarrow> 'f const_value \<Rightarrow> 'f const_value \<Rightarrow> 'f const_value option run" where
  "binary_value ops k (CInt a) (CInt b) = binary_int k a b"
| "binary_value ops k (CFloat a) (CFloat b) = binary_float ops k a b"
| "binary_value ops k (CBool a) (CBool b) = binary_equality k (a = b)"
| "binary_value ops k (CString a) (CString b) = binary_equality k (a = b)"
| "binary_value ops k (CInt a) (CFloat b) = binary_mixed ops k (f_of_int ops a) b (f_eq ops b (f_zero ops))"
| "binary_value ops k (CFloat a) (CInt b) = binary_mixed ops k a (f_of_int ops b) (b = 0)"
| "binary_value ops k _ _ = Ret None"

section \<open>The evaluator\<close>

type_synonym 'f evaluator = "expr \<Rightarrow> 'f const_evaluator \<Rightarrow> ('f const_evaluator \<times> 'f const_value option) run"

definition eval_literal :: "'f float_ops \<Rightarrow> literal_value \<Rightarrow> 'f const_value option" where
  "eval_literal ops val =
     (case val of
        LNumber n \<Rightarrow>
          if CHR ''.'' \<in> set n then map_option CFloat (f_parse ops n) else map_option CInt (parse_i64 n)
      | LBool b \<Rightarrow> Some (CBool b)
      | LString s \<Rightarrow> Some (CString s)
      | LNil \<Rightarrow> None)"

definition negate_value :: "'f float_ops \<Rightarrow> 'f const_value \<Rightarrow> 'f const_value option" where
  "negate_value ops val =
     (case val of CInt v \<Rightarrow> Some (CInt (wrap_i64 (- v))) | CFloat v \<Rightarrow> Some (CFloat (f_neg ops v)) | _ \<Rightarrow> None)"

definition eval_binary ::
    "'f float_ops \<Rightarrow> 'f evaluator \<Rightarrow> expr \<Rightarrow> token_kind \<Rightarrow> expr \<Rightarrow> 'f const_evaluator \<Rightarrow>
     ('f const_evaluator \<times> 'f const_value option) run" where
  "eval_binary ops rec left k right st =
     run_bind (rec left st) (\<lambda>(st1, l). case l of
        None \<Rightarrow> Ret (st1, None)
      | Some lv \<Rightarrow> run_bind (rec right st1) (\<lambda>(st2, r). case r of
          None \<Rightarrow> Ret (st2, None)
        | Some rv \<Rightarrow> run_bind (binary_value ops k lv rv) (\<lambda>v. Ret (st2, v))))"

text \<open>The arguments are evaluated from left to right, up to the first that has no value.\<close>

fun eval_args ::
    "'f evaluator \<Rightarrow> expr list \<Rightarrow> 'f const_evaluator \<Rightarrow> ('f const_evaluator \<times> 'f const_value list option) run" where
  "eval_args rec [] st = Ret (st, Some [])"
| "eval_args rec (a # as) st =
     run_bind (rec a st) (\<lambda>(st1, v). case v of
        None \<Rightarrow> Ret (st1, None)
      | Some x \<Rightarrow> run_bind (eval_args rec as st1) (\<lambda>(st2, vs). Ret (st2, map_option (\<lambda>xs. x # xs) vs)))"

fun eval_body ::
    "'f evaluator \<Rightarrow> stmt list \<Rightarrow> 'f const_evaluator \<Rightarrow> ('f const_evaluator \<times> 'f const_value option) run" where
  "eval_body rec [] st = Ret (st, None)"
| "eval_body rec (s # ss) st =
     (case s of
        SReturn (Some ret_expr) \<Rightarrow> rec ret_expr st
      | _ \<Rightarrow> eval_body rec ss st)"

definition eval_call ::
    "'f evaluator \<Rightarrow> expr \<Rightarrow> expr list \<Rightarrow> 'f const_evaluator \<Rightarrow> ('f const_evaluator \<times> 'f const_value option) run" where
  "eval_call rec callee arguments st =
     (case callee_name callee of
        None \<Rightarrow> Ret (st, None)
      | Some fn_name \<Rightarrow>
          (case fn_bodies st fn_name of
             None \<Rightarrow> Ret (st, None)
           | Some body \<Rightarrow>
               if \<not> is_pure_function body then Ret (st, None)
               else (case fn_params st fn_name of
                       None \<Rightarrow> Ret (st, None)
                     | Some param_names \<Rightarrow>
                         if length param_names \<noteq> length arguments then Ret (st, None)
                         else run_bind (eval_args rec arguments st) (\<lambda>(st1, vals). case vals of
                            None \<Rightarrow> Ret (st1, None)
                          | Some arg_vals \<Rightarrow>
                              (let local_constants = constants st1 ++ map_of (rev (zip param_names arg_vals))
                               in if evaluating st1 fn_name \<noteq> None then Ret (st1, None)
                                  else run_bind
                                    (eval_body rec body
                                      (st1\<lparr>constants := local_constants,
                                           evaluating := (evaluating st1)(fn_name \<mapsto> span_dummy)\<rparr>))
                                    (\<lambda>(inner, res). Ret (st1\<lparr>evaluating := evaluating inner\<rparr>, res)))))))"

definition eval_expr :: "'f float_ops \<Rightarrow> 'f evaluator \<Rightarrow> 'f evaluator" where
  "eval_expr ops rec e st =
     (case e of
        ELiteral val _ \<Rightarrow> Ret (st, eval_literal ops val)
      | EUnary op right \<Rightarrow>
          if kind op = TkMinus
          then run_bind (rec right st) (\<lambda>(st1, v). Ret (st1, Option.bind v (negate_value ops)))
          else Ret (st, None)
      | EGrouping expression _ _ \<Rightarrow> rec expression st
      | EBinary left op right \<Rightarrow> eval_binary ops rec left (kind op) right st
      | EVariable name \<Rightarrow> Ret (st, constants st (lexeme name))
      | ECall callee _ arguments \<Rightarrow> eval_call rec callee arguments st
      | _ \<Rightarrow> Ret (st, None))"

primrec eval :: "'f float_ops \<Rightarrow> nat \<Rightarrow> 'f evaluator" where
  "eval ops 0 e st = Out_Of_Fuel"
| "eval ops (Suc n) e st = eval_expr ops (eval ops n) e st"

section \<open>More fuel does not change a result\<close>

definition fuel_le :: "'a run \<Rightarrow> 'a run \<Rightarrow> bool" where
  "fuel_le x y \<longleftrightarrow> x = Out_Of_Fuel \<or> x = y"

lemma fuel_le_refl [simp]: "fuel_le x x"
  by (simp add: fuel_le_def)

lemma run_bind_le:
  "fuel_le x y \<Longrightarrow> (\<And>v. fuel_le (f v) (g v)) \<Longrightarrow> fuel_le (run_bind x f) (run_bind y g)"
  by (cases x; cases y) (auto simp: fuel_le_def)

lemma eval_args_le: "(\<And>e st. fuel_le (r e st) (r' e st)) \<Longrightarrow> fuel_le (eval_args r as st) (eval_args r' as st)"
  by (induction as arbitrary: st) (auto intro!: run_bind_le split: option.split)

lemma eval_body_le: "(\<And>e st. fuel_le (r e st) (r' e st)) \<Longrightarrow> fuel_le (eval_body r body st) (eval_body r' body st)"
  by (induction body) (auto split: stmt.split option.split)

lemma eval_expr_le:
  assumes "\<And>e st. fuel_le (r e st) (r' e st)"
  shows "fuel_le (eval_expr ops r e st) (eval_expr ops r' e st)"
  by (auto simp: eval_expr_def eval_binary_def eval_call_def Let_def
      intro!: run_bind_le assms eval_args_le eval_body_le split: expr.split option.split)

lemma eval_Suc_le: "fuel_le (eval ops n e st) (eval ops (Suc n) e st)"
proof (induction n arbitrary: e st)
  case (Suc n)
  show ?case
    unfolding eval.simps(2) [of ops n] eval.simps(2) [of ops "Suc n"]
    by (rule eval_expr_le) (use Suc in simp)
qed (simp add: fuel_le_def)

lemma eval_mono: "eval ops n e st \<noteq> Out_Of_Fuel \<Longrightarrow> n \<le> m \<Longrightarrow> eval ops m e st = eval ops n e st"
proof (induction m)
  case (Suc m)
  show ?case
  proof (cases "n = Suc m")
    case False
    then have "eval ops m e st = eval ops n e st" using Suc by simp
    then show ?thesis using eval_Suc_le [of ops m e st] Suc.prems(1) by (simp add: fuel_le_def)
  qed simp
qed simp

section \<open>What a run changes\<close>

text \<open>A run only adds to the set of functions being evaluated.\<close>

definition evaluator_le :: "'f const_evaluator \<Rightarrow> 'f const_evaluator \<Rightarrow> bool" where
  "evaluator_le st st' \<longleftrightarrow>
     constants st' = constants st \<and> fn_bodies st' = fn_bodies st \<and> fn_params st' = fn_params st \<and>
     dom (evaluating st) \<subseteq> dom (evaluating st')"

lemma evaluator_le_refl [simp]: "evaluator_le st st"
  by (simp add: evaluator_le_def)

lemma evaluator_le_trans: "evaluator_le a b \<Longrightarrow> evaluator_le b c \<Longrightarrow> evaluator_le a c"
  by (auto simp: evaluator_le_def)

definition grows_only :: "'f evaluator \<Rightarrow> bool" where
  "grows_only r \<longleftrightarrow> (\<forall>e st st' v. r e st = Ret (st', v) \<longrightarrow> evaluator_le st st')"

lemma run_bind_Ret: "run_bind x f = Ret y \<longleftrightarrow> (\<exists>v. x = Ret v \<and> f v = Ret y)"
  by (cases x) auto

lemma eval_args_grows: "grows_only r \<Longrightarrow> eval_args r as st = Ret (st', vs) \<Longrightarrow> evaluator_le st st'"
proof (induction as arbitrary: st vs)
  case (Cons a as)
  then obtain st1 v where a: "r a st = Ret (st1, v)" by (auto simp: run_bind_Ret)
  then have le: "evaluator_le st st1" using Cons.prems(1) by (auto simp: grows_only_def)
  show ?case
  proof (cases v)
    case None
    then show ?thesis using Cons.prems(2) a le by simp
  next
    case (Some x)
    then obtain ws where "eval_args r as st1 = Ret (st', ws)" using Cons.prems(2) a by (auto simp: run_bind_Ret)
    then show ?thesis using Cons.IH [OF Cons.prems(1)] le evaluator_le_trans by blast
  qed
qed simp

lemma eval_body_grows: "grows_only r \<Longrightarrow> eval_body r body st = Ret (st', v) \<Longrightarrow> evaluator_le st st'"
proof (induction body)
  case (Cons s body)
  then show ?case by (auto simp: grows_only_def split: stmt.splits option.splits)
qed simp

lemma eval_call_cases:
  assumes "eval_call r callee arguments st = Ret (st', v)"
  obtains (no_call) "st' = st" "v = None"
  | (no_args) fn_name body where "callee_name callee = Some fn_name" "fn_bodies st fn_name = Some body"
      "eval_args r arguments st = Ret (st', None)" "v = None"
  | (entered) fn_name body names vals where "callee_name callee = Some fn_name" "fn_bodies st fn_name = Some body"
      "eval_args r arguments st = Ret (st', Some vals)" "fn_params st fn_name = Some names"
      "evaluating st' fn_name \<noteq> None" "v = None"
  | (body) fn_name body names vals st1 inner where "callee_name callee = Some fn_name" "fn_bodies st fn_name = Some body"
      "is_pure_function body" "fn_params st fn_name = Some names" "length names = length arguments"
      "eval_args r arguments st = Ret (st1, Some vals)" "evaluating st1 fn_name = None"
      "eval_body r body (st1\<lparr>constants := constants st1 ++ map_of (rev (zip names vals)),
         evaluating := (evaluating st1)(fn_name \<mapsto> span_dummy)\<rparr>) = Ret (inner, v)"
      "st' = st1\<lparr>evaluating := evaluating inner\<rparr>"
proof (cases "callee_name callee")
  case None
  then show thesis using assms no_call by (simp add: eval_call_def)
next
  case callee: (Some fn_name)
  show thesis
  proof (cases "\<exists>body names. fn_bodies st fn_name = Some body \<and> is_pure_function body \<and>
      fn_params st fn_name = Some names \<and> length names = length arguments")
    case False
    then show thesis using assms no_call callee
      by (auto simp: eval_call_def split: option.splits if_splits)
  next
    case True
    then obtain body names where ok: "fn_bodies st fn_name = Some body" "is_pure_function body"
      "fn_params st fn_name = Some names" "length names = length arguments" by blast
    then obtain st1 vals where args: "eval_args r arguments st = Ret (st1, vals)"
      using assms callee by (auto simp: eval_call_def run_bind_Ret)
    show thesis
    proof (cases vals)
      case None
      then show thesis using assms no_args callee ok args by (simp add: eval_call_def)
    next
      case (Some arg_vals)
      show thesis
      proof (cases "evaluating st1 fn_name")
        case None
        then show thesis using assms body [OF callee ok(1-4)] callee ok args Some
          by (auto simp: eval_call_def run_bind_Ret Let_def)
      next
        case sp: (Some sp)
        then show thesis using assms entered [OF callee ok(1)] callee ok args Some
          by (simp add: eval_call_def Let_def)
      qed
    qed
  qed
qed

lemma eval_call_grows:
  assumes g: "grows_only r" and call: "eval_call r callee arguments st = Ret (st', v)"
  shows "evaluator_le st st'"
  using call
proof (cases rule: eval_call_cases)
  case (no_args fn_name body)
  then show ?thesis using eval_args_grows [OF g] by blast
next
  case (entered fn_name body names vals)
  then show ?thesis using eval_args_grows [OF g] by blast
next
  case (body fn_name body names vals st1 inner)
  have "evaluator_le st st1" using eval_args_grows [OF g body(6)] .
  moreover have "dom (evaluating st1) \<subseteq> dom (evaluating inner)"
    using eval_body_grows [OF g body(8)] by (simp add: evaluator_le_def)
  ultimately show ?thesis using body(9) unfolding evaluator_le_def
    by simp (blast dest: subsetD)
qed simp

lemma eval_binary_grows:
  assumes "grows_only r" "eval_binary ops r left k right st = Ret (st', v)"
  shows "evaluator_le st st'"
proof -
  obtain st1 l where l: "r left st = Ret (st1, l)" using assms(2) by (auto simp: eval_binary_def run_bind_Ret)
  then have le: "evaluator_le st st1" using assms(1) by (auto simp: grows_only_def)
  show ?thesis
  proof (cases l)
    case None
    then show ?thesis using assms(2) l le by (simp add: eval_binary_def)
  next
    case (Some lv)
    then obtain rv where "r right st1 = Ret (st', rv)"
      using assms(2) l by (auto simp: eval_binary_def run_bind_Ret split: option.splits)
    then have "evaluator_le st1 st'" using assms(1) by (auto simp: grows_only_def)
    with le show ?thesis by (rule evaluator_le_trans)
  qed
qed

lemma eval_expr_grows: "grows_only r \<Longrightarrow> grows_only (eval_expr ops r)"
  unfolding grows_only_def [of "eval_expr ops r"]
  by (auto simp: eval_expr_def run_bind_Ret grows_only_def [of r] split: expr.splits if_splits
      dest: eval_binary_grows [rotated] eval_call_grows [rotated])

lemma eval_grows: "grows_only (eval ops n)"
proof (induction n)
  case 0
  show ?case by (simp add: grows_only_def)
next
  case (Suc n)
  from eval_expr_grows [OF Suc, of ops] show ?case by (simp add: grows_only_def)
qed

section \<open>Every run ends\<close>

text \<open>A family of runs settles when more fuel eventually stops changing it.\<close>

definition settles :: "(nat \<Rightarrow> 'a run) \<Rightarrow> bool" where
  "settles f \<longleftrightarrow> (\<exists>n r. r \<noteq> Out_Of_Fuel \<and> (\<forall>m \<ge> n. f m = r))"

lemma settles_const [simp]: "x \<noteq> Out_Of_Fuel \<Longrightarrow> settles (\<lambda>m. x)"
  by (auto simp: settles_def)

lemma settles_if [simp]: "settles (\<lambda>m. if P then f m else g m) \<longleftrightarrow> (if P then settles f else settles g)"
  by (cases P) auto

lemma settles_bind:
  assumes f: "settles f" and g: "\<And>v m. f m = Ret v \<Longrightarrow> settles (\<lambda>m. g m v)"
  shows "settles (\<lambda>m. run_bind (f m) (g m))"
proof -
  obtain n r where r: "r \<noteq> Out_Of_Fuel" "\<And>m. n \<le> m \<Longrightarrow> f m = r" using f by (auto simp: settles_def)
  show ?thesis
  proof (cases r)
    case (Ret v)
    then obtain k x where x: "x \<noteq> Out_Of_Fuel" "\<And>m. k \<le> m \<Longrightarrow> g m v = x"
      using g [of n v] r(2) [of n] by (auto simp: settles_def)
    then have "\<forall>m \<ge> max n k. run_bind (f m) (g m) = x" using r(2) Ret by simp
    with x(1) show ?thesis unfolding settles_def by blast
  next
    case Panic
    then have "\<forall>m \<ge> n. run_bind (f m) (g m) = Panic" using r(2) by simp
    then show ?thesis unfolding settles_def by blast
  qed (use r in simp)
qed

lemma settles_eval_step: "settles (\<lambda>m. eval_expr ops (eval ops m) e st) \<Longrightarrow> settles (\<lambda>m. eval ops m e st)"
proof -
  assume "settles (\<lambda>m. eval_expr ops (eval ops m) e st)"
  then obtain n r where r: "r \<noteq> Out_Of_Fuel" "\<And>m. n \<le> m \<Longrightarrow> eval_expr ops (eval ops m) e st = r"
    by (auto simp: settles_def)
  have "eval ops m e st = r" if "Suc n \<le> m" for m
    using r(2) [of "m - 1"] that by (cases m) simp_all
  then show ?thesis using r(1) by (auto simp: settles_def)
qed

lemma binary_value_total: "binary_value ops k l r \<noteq> Out_Of_Fuel"
  by (cases l; cases r)
    (simp_all add: binary_int_def binary_float_def binary_equality_def binary_mixed_def i64_div_def i64_rem_def
      split: token_kind.split)

text \<open>The functions that can still be entered.\<close>

definition enterable :: "'f const_evaluator \<Rightarrow> string set" where
  "enterable st = dom (fn_bodies st) - dom (evaluating st)"

lemma enterable_mono: "evaluator_le st st' \<Longrightarrow> finite (dom (fn_bodies st)) \<Longrightarrow>
  finite (dom (fn_bodies st')) \<and> card (enterable st') \<le> card (enterable st)"
  by (auto simp: evaluator_le_def enterable_def intro!: card_mono)

lemma settles_args:
  assumes "\<And>e st'. e \<in> set as \<Longrightarrow> evaluator_le st st' \<Longrightarrow> settles (\<lambda>m. eval ops m e st')"
  shows "settles (\<lambda>m. eval_args (eval ops m) as st)"
  using assms
proof (induction as arbitrary: st)
  case (Cons a as)
  show ?case
    unfolding eval_args.simps
  proof (rule settles_bind)
    show "settles (\<lambda>m. eval ops m a st)" using Cons.prems by simp
  next
    fix x m assume x: "eval ops m a st = Ret x"
    obtain st1 v where xv: "x = (st1, v)" by fastforce
    have le: "evaluator_le st st1" using eval_grows [of ops m] x xv by (auto simp: grows_only_def)
    have "settles (\<lambda>m. eval_args (eval ops m) as st1)"
      by (rule Cons.IH) (use Cons.prems le evaluator_le_trans in \<open>blast intro: list.set_intros\<close>)
    then show "settles (\<lambda>m. case x of (st1, v) \<Rightarrow> case v of None \<Rightarrow> Ret (st1, None)
        | Some x \<Rightarrow> run_bind (eval_args (eval ops m) as st1) (\<lambda>(st2, vs). Ret (st2, map_option (\<lambda>xs. x # xs) vs)))"
      by (cases v) (auto simp: xv intro!: settles_bind split: prod.split)
  qed
qed simp

lemma settles_body:
  assumes "\<And>e. settles (\<lambda>m. eval ops m e st)"
  shows "settles (\<lambda>m. eval_body (eval ops m) body st)"
proof (induction body)
  case (Cons s body)
  show ?case
  proof (cases "\<exists>e. s = SReturn (Some e)")
    case True
    then show ?thesis using assms by auto
  next
    case False
    then have "eval_body r (s # body) st = eval_body r body st" for r :: "'a evaluator"
      by (auto split: stmt.split option.split)
    then show ?thesis using Cons by simp
  qed
qed simp

lemma settles_binary:
  assumes "\<And>st'. evaluator_le st st' \<Longrightarrow> settles (\<lambda>m. eval ops m left st')"
    and "\<And>st'. evaluator_le st st' \<Longrightarrow> settles (\<lambda>m. eval ops m right st')"
  shows "settles (\<lambda>m. eval_binary ops (eval ops m) left k right st)"
  unfolding eval_binary_def
proof (rule settles_bind)
  show "settles (\<lambda>m. eval ops m left st)" using assms(1) by simp
next
  fix x m assume x: "eval ops m left st = Ret x"
  obtain st1 l where xl: "x = (st1, l)" by fastforce
  have le: "evaluator_le st st1" using eval_grows [of ops m] x xl by (auto simp: grows_only_def)
  show "settles (\<lambda>m. case x of (st1, l) \<Rightarrow> case l of None \<Rightarrow> Ret (st1, None)
     | Some lv \<Rightarrow> run_bind (eval ops m right st1) (\<lambda>(st2, r). case r of None \<Rightarrow> Ret (st2, None)
        | Some rv \<Rightarrow> run_bind (binary_value ops k lv rv) (\<lambda>v. Ret (st2, v))))"
    using assms(2) [OF le]
    by (cases l) (auto simp: xl binary_value_total intro!: settles_bind split: option.split)
qed

lemma enterable_enter:
  assumes "fn_bodies st f \<noteq> None" "evaluating st f = None" "finite (dom (fn_bodies st))"
  shows "card (enterable (st\<lparr>constants := c, evaluating := (evaluating st)(f \<mapsto> sp)\<rparr>)) < card (enterable st)"
  using assms by (auto simp: enterable_def intro!: psubset_card_mono)

lemma settles_call:
  assumes args: "\<And>e st'. e \<in> set arguments \<Longrightarrow> evaluator_le st st' \<Longrightarrow> settles (\<lambda>m. eval ops m e st')"
    and body: "\<And>e st'. finite (dom (fn_bodies st')) \<Longrightarrow> card (enterable st') < card (enterable st) \<Longrightarrow>
      settles (\<lambda>m. eval ops m e st')"
    and fin: "finite (dom (fn_bodies st))"
  shows "settles (\<lambda>m. eval_call (eval ops m) callee arguments st)"
proof (cases "\<exists>f body names. callee_name callee = Some f \<and> fn_bodies st f = Some body \<and> is_pure_function body \<and>
      fn_params st f = Some names \<and> length names = length arguments")
  case False
  then have "eval_call r callee arguments st = Ret (st, None)" for r
    by (auto simp: eval_call_def split: option.split)
  then show ?thesis by simp
next
  case True
  then obtain f body names where ok: "callee_name callee = Some f" "fn_bodies st f = Some body"
    "is_pure_function body" "fn_params st f = Some names" "length names = length arguments" by blast
  let ?enter = "\<lambda>st1 vals. st1\<lparr>constants := constants st1 ++ map_of (rev (zip names vals)),
    evaluating := (evaluating st1)(f \<mapsto> span_dummy)\<rparr>"
  have "settles (\<lambda>m. eval_body (eval ops m) body (?enter st1 vals))"
    if "evaluator_le st st1" "evaluating st1 f = None" for st1 vals
  proof (rule settles_body, rule assms(2))
    have same: "fn_bodies st1 = fn_bodies st" using that(1) by (simp add: evaluator_le_def)
    then show "finite (dom (fn_bodies (?enter st1 vals)))" using fin by simp
    have "card (enterable (?enter st1 vals)) < card (enterable st1)"
      by (rule enterable_enter) (use that ok fin same in auto)
    also have "\<dots> \<le> card (enterable st)" using enterable_mono [OF that(1) fin] by simp
    finally show "card (enterable (?enter st1 vals)) < card (enterable st)" .
  qed
  moreover have "evaluator_le st st1" if "eval_args (eval ops m) arguments st = Ret (st1, vals)" for m st1 vals
    using eval_args_grows [OF eval_grows that] .
  ultimately have "settles (\<lambda>m. case x of (st1, vals) \<Rightarrow> case vals of None \<Rightarrow> Ret (st1, None)
     | Some arg_vals \<Rightarrow> if evaluating st1 f \<noteq> None then Ret (st1, None)
        else run_bind (eval_body (eval ops m) body (?enter st1 arg_vals))
          (\<lambda>(inner, res). Ret (st1\<lparr>evaluating := evaluating inner\<rparr>, res)))"
    if "eval_args (eval ops m) arguments st = Ret x" for x m
    using that by (cases x; cases "snd x") (auto intro!: settles_bind)
  note cont = this
  have "eval_call r callee arguments st =
      run_bind (eval_args r arguments st) (\<lambda>x. case x of (st1, vals) \<Rightarrow> case vals of None \<Rightarrow> Ret (st1, None)
     | Some arg_vals \<Rightarrow> if evaluating st1 f \<noteq> None then Ret (st1, None)
        else run_bind (eval_body r body (?enter st1 arg_vals))
          (\<lambda>(inner, res). Ret (st1\<lparr>evaluating := evaluating inner\<rparr>, res)))" for r
    using ok by (auto simp: eval_call_def Let_def intro!: arg_cong [where f = "run_bind x" for x] split: option.split)
  then show ?thesis
    by (simp only:) (rule settles_bind [OF settles_args [OF args]], assumption+, rule cont)
qed

lemma eval_settles:
  assumes "finite (dom (fn_bodies st))"
  shows "settles (\<lambda>m. eval ops m e st)"
  using assms
proof (induction "card (enterable st)" arbitrary: e st rule: less_induct)
  case outer: less
  have "settles (\<lambda>m. eval ops m e st')" if "evaluator_le st st'" for e st'
    using that
  proof (induction "size e" arbitrary: e st' rule: less_induct)
    case inner: less
    have fin: "finite (dom (fn_bodies st'))" and le: "card (enterable st') \<le> card (enterable st)"
      using enterable_mono [OF inner.prems outer.prems] by auto
    have sub: "settles (\<lambda>m. eval ops m e' st2)" if "size e' < size e" "evaluator_le st' st2" for e' st2
      using inner.hyps [OF that(1)] evaluator_le_trans [OF inner.prems that(2)] by blast
    have enter: "settles (\<lambda>m. eval ops m e' st2)"
      if "finite (dom (fn_bodies st2))" "card (enterable st2) < card (enterable st')" for e' st2
      using outer.hyps [OF _ that(1)] that(2) le by simp
    show ?case
    proof (rule settles_eval_step, cases e)
      case (EUnary op right)
      then show "settles (\<lambda>m. eval_expr ops (eval ops m) e st')"
        using sub by (auto simp: eval_expr_def intro!: settles_bind)
    next
      case (EGrouping expression a b)
      then show "settles (\<lambda>m. eval_expr ops (eval ops m) e st')"
        using sub by (simp add: eval_expr_def)
    next
      case (EBinary left op right)
      then show "settles (\<lambda>m. eval_expr ops (eval ops m) e st')"
        using sub by (simp add: eval_expr_def settles_binary)
    next
      case (ECall callee sp arguments)
      have "size a < size e" if "a \<in> set arguments" for a
        using size_list_estimation' [OF that order_refl, of size] ECall by simp
      then have "settles (\<lambda>m. eval_call (eval ops m) callee arguments st')"
        by (intro settles_call sub enter fin)
      then show "settles (\<lambda>m. eval_expr ops (eval ops m) e st')"
        using ECall by (simp add: eval_expr_def)
    qed (auto simp: eval_expr_def)
  qed
  then show ?case by simp
qed

text \<open>Expressions and a state used below: \<open>fun f(x) { return x + 1 }\<close> and \<open>fun g(x) { return g(x) }\<close>.\<close>

definition lit :: "string \<Rightarrow> expr" where
  "lit n = ELiteral (LNumber n) span_dummy"

definition op_token :: "token_kind \<Rightarrow> token" where
  "op_token k = token_new k span_dummy"

definition min_over_minus_one :: expr where
  "min_over_minus_one =
     EBinary
       (EGrouping
         (EBinary (EUnary (op_token TkMinus) (lit ''9223372036854775807'')) (op_token TkMinus) (lit ''1''))
         span_dummy span_dummy)
       (op_token TkSlash) (EUnary (op_token TkMinus) (lit ''1''))"

definition var :: "string \<Rightarrow> expr" where
  "var x = EVariable (token_new (TkIdentifier x) span_dummy)"

definition call1 :: "string \<Rightarrow> expr \<Rightarrow> expr" where
  "call1 f a = ECall (var f) span_dummy [a]"

definition sample_evaluator :: "int const_evaluator" where
  "sample_evaluator = const_evaluator_new
     \<lparr>fn_bodies := [''f'' \<mapsto> [SReturn (Some (EBinary (var ''x'') (op_token TkPlus) (lit ''1'')))],
                     ''g'' \<mapsto> [SReturn (Some (call1 ''g'' (var ''x'')))]],
      fn_params := [''f'' \<mapsto> [''x''], ''g'' \<mapsto> [''x'']]\<rparr>"

text \<open>Integers stand for the floats here.\<close>

definition sample_ops :: "int float_ops" where
  "sample_ops = \<lparr>f_parse = (\<lambda>_. None), f_of_int = (\<lambda>z. z), f_zero = 0, f_neg = uminus, f_add = plus,
     f_sub = minus, f_mul = times, f_div = (div), f_rem = (mod), f_eq = (=), f_lt = (<), f_le = (\<le>)\<rparr>"

lemmas sample_simps = eval_expr_def eval_binary_def eval_call_def callee_name_def is_pure_function_def is_return_def
  op_token_def token_new_def lit_def var_def call1_def lexeme_def negate_value_def binary_int_def wrap_i64_def
  eval_nat_numeral

lemma in_range_lits [simp]:
  "eval_literal ops (LNumber ''9223372036854775807'') = Some (CInt 9223372036854775807)"
  "eval_literal ops (LNumber ''1'') = Some (CInt 1)"
  "eval_literal ops (LNumber ''2'') = Some (CInt 2)"
  by (simp_all add: eval_literal_def parse_i64_def in_i64_def)

lemma sample_call:
  "eval sample_ops 5 (call1 ''f'' (lit ''1'')) sample_evaluator =
     Ret (sample_evaluator\<lparr>evaluating := [''f'' \<mapsto> span_dummy]\<rparr>, Some (CInt 2))"
  by (simp add: sample_simps sample_evaluator_def const_evaluator_new_def)

lemma sample_call_again:
  "eval sample_ops 5 (call1 ''f'' (lit ''2'')) (sample_evaluator\<lparr>evaluating := [''f'' \<mapsto> span_dummy]\<rparr>) =
     Ret (sample_evaluator\<lparr>evaluating := [''f'' \<mapsto> span_dummy]\<rparr>, None)"
  by (simp add: sample_simps sample_evaluator_def const_evaluator_new_def)

section \<open>What a value tells\<close>

lemma is_constant_expr_cong:
  "evaluator_le st st' \<Longrightarrow> is_constant_expr st' e = is_constant_expr st e"
proof (induction "size e" arbitrary: e rule: less_induct)
  case less
  have sub: "is_constant_expr st' a = is_constant_expr st a" if "size a < size e" for a
    using less that by blast
  have same: "constants st' = constants st" "fn_bodies st' = fn_bodies st"
    using less.prems by (simp_all add: evaluator_le_def)
  show ?case
  proof (cases e)
    case (ECall callee sp arguments)
    have "size a < size e" if "a \<in> set arguments" for a
      using size_list_estimation' [OF that order_refl, of size] ECall by simp
    then have "list_all (is_constant_expr st') arguments = list_all (is_constant_expr st) arguments"
      using sub by (auto simp: list_all_iff)
    with ECall same show ?thesis unfolding is_constant_expr.simps [of _ e] by (simp split: option.split)
  qed (subst (1 2) is_constant_expr.simps, use sub same in simp)+
qed

lemma eval_args_checked:
  assumes "\<And>e st st' v. r e st = Ret (st', Some v) \<Longrightarrow> is_constant_expr st e" "grows_only r"
    and "eval_args r as st = Ret (st', Some vs)"
  shows "list_all (is_constant_expr st) as"
  using assms(3)
proof (induction as arbitrary: st vs)
  case (Cons a as)
  then obtain st1 v ws where a: "r a st = Ret (st1, Some v)" and as: "eval_args r as st1 = Ret (st', Some ws)"
    by (auto simp: run_bind_Ret split: option.splits)
  have "evaluator_le st st1" using a assms(2) by (auto simp: grows_only_def)
  then have "list_all (is_constant_expr st) as"
    using Cons.IH [OF as] by (simp add: list_all_iff is_constant_expr_cong)
  then show ?case using assms(1) [OF a] by simp
qed simp

lemma eval_binary_Some:
  assumes "eval_binary ops r left k right st = Ret (st', Some v)"
  obtains st1 l rv where "r left st = Ret (st1, Some l)" "r right st1 = Ret (st', Some rv)"
    "binary_value ops k l rv = Ret (Some v)"
  using assms by (auto simp: eval_binary_def run_bind_Ret split: option.splits)

lemma binary_value_op: "binary_value ops k l r = Ret (Some v) \<Longrightarrow> is_const_binary_op k"
  by (cases l; cases r)
    (auto simp: binary_int_def binary_float_def binary_equality_def binary_mixed_def is_const_binary_op_def
      split: token_kind.splits)

lemma eval_call_Some:
  assumes "eval_call r callee arguments st = Ret (st', Some v)"
  obtains f body vals st1 inner st0 where "callee_name callee = Some f" "fn_bodies st f = Some body"
    "is_pure_function body" "eval_args r arguments st = Ret (st1, Some vals)" "evaluating st1 f = None"
    "f \<in> dom (evaluating st0)" "eval_body r body st0 = Ret (inner, Some v)"
    "evaluating st' = evaluating inner" "fn_bodies st' = fn_bodies st1"
  using assms
proof (cases rule: eval_call_cases)
  case (body f body names vals st1 inner)
  then show thesis using that [OF body(1-3) body(6,7) _ body(8)] by simp
qed simp_all

text \<open>
  C38: Whatever the evaluator gives a value, the constant check accepts: \<open>eval\<close> never produces a value
  for an expression that \<open>is_constant_expr\<close> rejects in the same state.
\<close>

theorem eval_checked:
  assumes "eval ops n e st = Ret (st', Some v)"
  shows "is_constant_expr st e"
  using assms
proof (induction n arbitrary: e st st' v)
  case (Suc n)
  show ?case
  proof (cases e)
    case (EUnary op right)
    then obtain v' where "kind op = TkMinus" "eval ops n right st = Ret (st', Some v')"
      using Suc.prems by (auto simp: eval_expr_def run_bind_Ret bind_eq_Some_conv split: if_splits)
    then show ?thesis using Suc.IH EUnary by (simp add: is_constant_expr.simps)
  next
    case (EGrouping expression a b)
    then show ?thesis using Suc by (simp add: eval_expr_def is_constant_expr.simps [of _ "EGrouping _ _ _"])
  next
    case (EBinary left op right)
    then have "eval_binary ops (eval ops n) left (kind op) right st = Ret (st', Some v)"
      using Suc.prems by (simp add: eval_expr_def)
    then obtain st1 l rv where l: "eval ops n left st = Ret (st1, Some l)" and r: "eval ops n right st1 = Ret (st', Some rv)"
      and k: "binary_value ops (kind op) l rv = Ret (Some v)" by (rule eval_binary_Some)
    have "evaluator_le st st1" using eval_grows [of ops n] l by (auto simp: grows_only_def)
    then show ?thesis unfolding EBinary is_constant_expr.simps [of _ "EBinary _ _ _"]
      using Suc.IH [OF l] Suc.IH [OF r] binary_value_op [OF k] by (simp add: is_constant_expr_cong)
  next
    case (ECall callee sp arguments)
    then have "eval_call (eval ops n) callee arguments st = Ret (st', Some v)"
      using Suc.prems by (simp add: eval_expr_def)
    then show ?thesis unfolding ECall is_constant_expr.simps [of _ "ECall _ _ _"]
      by (rule eval_call_Some) (simp add: eval_args_checked [OF Suc.IH eval_grows])
  qed (use Suc.prems in \<open>auto simp: eval_expr_def is_constant_expr.simps\<close>)
qed simp

theorem eval_checked_witness: "is_constant_expr sample_evaluator (call1 ''f'' (lit ''1''))"
  by (rule eval_checked [OF sample_call])

text \<open>
  C10: Evaluation always ends. With finitely many known functions every expression has an amount of fuel
  from which on the run returns or panics, and more fuel does not change what it does: a recursive
  function cannot make the type checker loop.
\<close>

theorem eval_returns:
  assumes "finite (dom (fn_bodies st))"
  shows "\<exists>n r. r \<noteq> Out_Of_Fuel \<and> (\<forall>m \<ge> n. eval ops m e st = r)"
  using eval_settles [OF assms] by (simp add: settles_def)

theorem eval_returns_witness:
  "\<exists>n. eval sample_ops n (call1 ''g'' (lit ''1'')) sample_evaluator \<noteq> Out_Of_Fuel"
proof -
  have "finite (dom (fn_bodies sample_evaluator))" by (simp add: sample_evaluator_def)
  from eval_returns [OF this, of sample_ops "call1 ''g'' (lit ''1'')"] show ?thesis by blast
qed

text \<open>
  A function can be called once. After a call to a function has a value, the state it leaves still
  records the function as being evaluated, so no later call to it has a value, whatever its arguments.
\<close>

theorem eval_second_call:
  assumes "eval ops n (ECall callee sp arguments) st = Ret (st1, Some v)"
    and "eval ops m (ECall callee sp' arguments') st1 = Ret (st2, w)"
  shows "w = None"
proof -
  obtain k where k: "n = Suc k" using assms(1) by (cases n) simp_all
  obtain j where j: "m = Suc j" using assms(2) by (cases m) simp_all
  have "eval_call (eval ops k) callee arguments st = Ret (st1, Some v)"
    using assms(1) k by (simp add: eval_expr_def)
  then obtain f body inner st0 where f: "callee_name callee = Some f" "f \<in> dom (evaluating st0)"
    "eval_body (eval ops k) body st0 = Ret (inner, Some v)" "evaluating st1 = evaluating inner"
    by (rule eval_call_Some) blast
  have in1: "f \<in> dom (evaluating st1)"
    using eval_body_grows [OF eval_grows f(3)] f(2,4) by (auto simp: evaluator_le_def)
  have "eval_call (eval ops j) callee arguments' st1 = Ret (st2, w)"
    using assms(2) j by (simp add: eval_expr_def)
  then show ?thesis
  proof (cases rule: eval_call_cases)
    case (body f' body names vals st3 inner')
    have "dom (evaluating st1) \<subseteq> dom (evaluating st3)"
      using eval_args_grows [OF eval_grows body(6)] by (simp add: evaluator_le_def)
    then show ?thesis using body(1,7) f(1) in1 by auto
  qed simp_all
qed

theorem eval_second_call_witness:
  "\<exists>st w. eval sample_ops 5 (call1 ''f'' (lit ''2'')) (sample_evaluator\<lparr>evaluating := [''f'' \<mapsto> span_dummy]\<rparr>) =
     Ret (st, w) \<and> w = None"
  using eval_second_call [OF sample_call [unfolded call1_def] sample_call_again [unfolded call1_def]]
    sample_call_again by blast

section \<open>Integers\<close>

text \<open>
  The reference: integer expressions over the integers themselves, with the truncating division. It
  is undefined where the mathematical value of a subexpression leaves the 64-bit range.
\<close>

definition in_range :: "int \<Rightarrow> int option" where
  "in_range z = (if in_i64 z then Some z else None)"

definition exact_binary :: "token_kind \<Rightarrow> int \<Rightarrow> int \<Rightarrow> int option" where
  "exact_binary k a b =
     (if k = TkPlus then in_range (a + b)
      else if k = TkMinus then in_range (a - b)
      else if k = TkStar then in_range (a * b)
      else if k = TkSlash \<and> b \<noteq> 0 then in_range (sgn a * sgn b * (\<bar>a\<bar> div \<bar>b\<bar>))
      else if k = TkPercent \<and> b \<noteq> 0 then
        (if in_i64 (sgn a * sgn b * (\<bar>a\<bar> div \<bar>b\<bar>)) then Some (sgn a * (\<bar>a\<bar> mod \<bar>b\<bar>)) else None)
      else None)"

fun exact_int :: "(string \<rightharpoonup> 'f const_value) \<Rightarrow> expr \<Rightarrow> int option" where
  "exact_int env (ELiteral (LNumber n) _) = (if CHR ''.'' \<in> set n then None else parse_i64 n)"
| "exact_int env (EUnary op right) =
     (if kind op = TkMinus then Option.bind (exact_int env right) (\<lambda>v. in_range (- v)) else None)"
| "exact_int env (EGrouping expression _ _) = exact_int env expression"
| "exact_int env (EBinary left op right) =
     Option.bind (exact_int env left) (\<lambda>a. Option.bind (exact_int env right) (\<lambda>b. exact_binary (kind op) a b))"
| "exact_int env (EVariable name) = Option.bind (env (lexeme name)) as_i64"
| "exact_int env _ = None"

lemma binary_int_exact:
  assumes "exact_binary k a b = Some z"
  shows "binary_int k a b = Ret (Some (CInt z))"
proof -
  have "\<not> (a = i64_min \<and> b = -1)" if "in_i64 (sgn a * sgn b * (\<bar>a\<bar> div \<bar>b\<bar>))"
    using that by (auto simp: i64_min_def in_i64_def)
  then show ?thesis using assms
    by (auto simp: exact_binary_def in_range_def binary_int_def i64_div_def i64_rem_def wrap_i64_id
        signed_divide_int_def signed_modulo_int_def
        split: if_splits)
qed

text \<open>
  C25: On integer expressions the evaluator computes the integer value. Where no subexpression leaves
  the 64-bit range, \<open>eval\<close> gives with enough fuel exactly the mathematical value of the expression,
  division truncating towards zero, and leaves the evaluator as it was.
\<close>

theorem eval_exact:
  assumes "exact_int (constants st) e = Some z"
  shows "\<exists>n. \<forall>m \<ge> n. eval ops m e st = Ret (st, Some (CInt z))"
proof -
  have "size e < m \<Longrightarrow> eval ops m e st = Ret (st, Some (CInt z))" for m
    using assms
  proof (induction "constants st" e arbitrary: z m rule: exact_int.induct)
    case (1 n sp)
    then show ?case by (cases m) (auto simp: eval_expr_def eval_literal_def split: if_splits)
  next
    case (2 op right)
    then show ?case
      by (cases m) (auto simp: eval_expr_def bind_eq_Some_conv negate_value_def in_range_def wrap_i64_id split: if_splits)
  next
    case (3 expression a b)
    then show ?case by (cases m) (auto simp: eval_expr_def)
  next
    case (4 left op right)
    then obtain a b where ab: "exact_int (constants st) left = Some a" "exact_int (constants st) right = Some b"
      "exact_binary (kind op) a b = Some z" by (auto simp: bind_eq_Some_conv)
    obtain k where k: "m = Suc k" "size left < k" "size right < k" using 4(3) by (cases m) auto
    show ?case unfolding k
      using 4(1) [OF k(2) ab(1)] 4(2) [OF ab(1) k(3) ab(2)] ab(3)
      by (simp add: eval_expr_def eval_binary_def binary_int_exact)
  next
    case (5 name)
    then show ?case by (cases m) (auto simp: eval_expr_def bind_eq_Some_conv elim!: as_i64.elims)
  qed simp_all
  then show ?thesis by (meson Suc_le_eq)
qed

theorem eval_exact_witness:
  "\<exists>n. eval sample_ops n (EBinary (EUnary (op_token TkMinus) (lit ''1'')) (op_token TkSlash) (lit ''2'')) sample_evaluator =
     Ret (sample_evaluator, Some (CInt 0))"
proof -
  have "exact_int (constants sample_evaluator)
      (EBinary (EUnary (op_token TkMinus) (lit ''1'')) (op_token TkSlash) (lit ''2'')) = Some 0"
    by (simp add: lit_def op_token_def token_new_def exact_binary_def in_range_def in_i64_def parse_i64_def)
  from eval_exact [OF this] show ?thesis by blast
qed

text \<open>An integer value fits \<open>i64\<close>.\<close>

fun value_fits :: "'f const_value \<Rightarrow> bool" where
  "value_fits (CInt z) = in_i64 z"
| "value_fits _ = True"

lemma abs_sdiv_le: "b \<noteq> 0 \<Longrightarrow> 0 < c \<Longrightarrow> c \<le> \<bar>b\<bar> \<Longrightarrow> \<bar>a sdiv b\<bar> \<le> \<bar>a\<bar> div c" for a b c :: int
  by (auto simp: signed_divide_int_def abs_mult abs_sgn_eq pos_imp_zdiv_nonneg_iff intro: zdiv_mono2)

lemma sdiv_fits:
  assumes "in_i64 a" "\<not> (a = i64_min \<and> b = -1)" "b \<noteq> 0"
  shows "in_i64 (a sdiv b)"
proof -
  consider "a \<noteq> i64_min" | "b = 1" | "a = i64_min" "2 \<le> \<bar>b\<bar>" using assms by linarith
  then show ?thesis
  proof cases
    case 1
    have "1 \<le> \<bar>b\<bar>" using assms(3) by linarith
    then have "\<bar>a sdiv b\<bar> \<le> \<bar>a\<bar>" using abs_sdiv_le [of b 1 a] assms(3) by simp
    then show ?thesis using 1 assms(1) unfolding in_i64_def i64_min_def by (simp, arith)
  next
    case 2
    then show ?thesis using assms by (simp add: signed_divide_int_def sgn_mult_abs)
  next
    case 3
    then show ?thesis using abs_sdiv_le [of b 2 a] assms by (auto simp: in_i64_def i64_min_def)
  qed
qed

lemma smod_fits:
  assumes "in_i64 a" shows "in_i64 (a smod b)"
proof -
  have "\<bar>a\<bar> mod \<bar>b\<bar> \<le> \<bar>a\<bar>" by (rule zmod_le_nonneg_dividend) simp
  moreover have "\<bar>a\<bar> mod \<bar>b\<bar> \<ge> 0" by (cases "b = 0") simp_all
  ultimately show ?thesis using assms
    by (cases a "0 :: int" rule: linorder_cases) (auto simp: smod_int_alt_def in_i64_def)
qed

lemma binary_value_fits:
  assumes "binary_value ops k l r = Ret (Some v)" "value_fits l" "value_fits r"
  shows "value_fits v"
  using assms
  by (cases l; cases r)
    (auto simp: binary_int_def binary_float_def binary_equality_def binary_mixed_def i64_div_def i64_rem_def
      in_i64_wrap intro: sdiv_fits smod_fits split: token_kind.splits if_splits)

definition env_fits :: "'f const_evaluator \<Rightarrow> bool" where
  "env_fits st \<longleftrightarrow> (\<forall>v \<in> ran (constants st). value_fits v)"

definition keeps_fit :: "'f evaluator \<Rightarrow> bool" where
  "keeps_fit r \<longleftrightarrow> (\<forall>e st st' v. env_fits st \<longrightarrow> r e st = Ret (st', Some v) \<longrightarrow> value_fits v)"

lemma env_fits_grows: "evaluator_le st st' \<Longrightarrow> env_fits st' = env_fits st"
  by (simp add: env_fits_def evaluator_le_def)

lemma eval_args_fits:
  assumes "keeps_fit r" "grows_only r" "env_fits st" "eval_args r as st = Ret (st', Some vs)"
  shows "list_all value_fits vs"
  using assms(3,4)
proof (induction as arbitrary: st vs)
  case (Cons a as)
  then obtain st1 v ws where a: "r a st = Ret (st1, Some v)" and as: "eval_args r as st1 = Ret (st', Some ws)"
    and vs: "vs = v # ws" by (auto simp: run_bind_Ret split: option.splits)
  have "evaluator_le st st1" using a assms(2) by (auto simp: grows_only_def)
  then have "env_fits st1" using Cons.prems(1) env_fits_grows by blast
  then show ?case using Cons.IH [OF _ as] vs a assms(1) Cons.prems(1) by (auto simp: keeps_fit_def)
qed simp

lemma eval_body_fits: "keeps_fit r \<Longrightarrow> env_fits st \<Longrightarrow> eval_body r body st = Ret (st', Some v) \<Longrightarrow> value_fits v"
  by (induction body) (auto simp: keeps_fit_def split: stmt.splits option.splits)

lemma env_fits_enter:
  assumes "env_fits st" "list_all value_fits vals"
  shows "env_fits (st\<lparr>constants := constants st ++ map_of (rev (zip names vals)), evaluating := ev\<rparr>)"
proof -
  have "value_fits v" if v: "v \<in> ran (map_of (rev (zip names vals)))" for v
  proof -
    obtain x where "map_of (rev (zip names vals)) x = Some v" using v unfolding ran_def by blast
    then have "(x, v) \<in> set (zip names vals)" by (metis map_of_SomeD set_rev)
    then show ?thesis using assms(2) by (auto simp: list_all_iff dest: set_zip_rightD)
  qed
  then show ?thesis using assms(1)
    by (auto simp: env_fits_def ran_def map_add_def split: option.splits)
qed

lemma eval_fits: "keeps_fit (eval ops n)"
proof (induction n)
  case (Suc n)
  have lit: "value_fits v" if "eval_literal ops val = Some v" for val and v :: "'a const_value"
    using that by (auto simp: eval_literal_def parse_i64_def Let_def split: literal_value.splits if_splits option.splits
      prod.splits)
  have call: "value_fits v"
    if "env_fits st" "eval_call (eval ops n) callee args st = Ret (st', Some v)" for callee args st st' v
    using that(2)
  proof (cases rule: eval_call_cases)
    case (body f body names vals st1 inner)
    have "env_fits st1" using eval_args_grows [OF eval_grows body(6)] that(1) env_fits_grows by blast
    moreover have "list_all value_fits vals" by (rule eval_args_fits [OF Suc eval_grows that(1) body(6)])
    ultimately show ?thesis using eval_body_fits [OF Suc env_fits_enter body(8)] by blast
  qed simp_all
  have bin: "value_fits v"
    if "env_fits st" "eval_binary ops (eval ops n) left k right st = Ret (st', Some v)" for left k right st st' v
    using that(2)
  proof (rule eval_binary_Some)
    fix st1 l r assume l: "eval ops n left st = Ret (st1, Some l)" and r: "eval ops n right st1 = Ret (st', Some r)"
      and v: "binary_value ops k l r = Ret (Some v)"
    have "env_fits st1" using eval_grows [of ops n] l that(1) env_fits_grows by (fastforce simp: grows_only_def)
    then show ?thesis using binary_value_fits [OF v] Suc l r that(1) by (auto simp: keeps_fit_def)
  qed
  have neg: "value_fits v" if "negate_value ops u = Some v" for u v
    using that by (auto simp: negate_value_def in_i64_wrap split: const_value.splits)
  show ?case unfolding keeps_fit_def
  proof (intro allI impI)
    fix e st st' v assume st: "env_fits st" and ev: "eval ops (Suc n) e st = Ret (st', Some v)"
    show "value_fits v"
    proof (cases e)
      case (EUnary op right)
      then show ?thesis using ev neg
        by (auto simp: eval_expr_def run_bind_Ret bind_eq_Some_conv split: if_splits)
    next
      case (EGrouping expression a b)
      then show ?thesis using ev st Suc by (auto simp: eval_expr_def keeps_fit_def)
    next
      case (EVariable name)
      then show ?thesis using ev st by (auto simp: eval_expr_def env_fits_def ran_def)
    qed (use ev st lit call bin in \<open>auto simp: eval_expr_def\<close>)
  qed
qed (simp add: keeps_fit_def)



text \<open>
  The division of the least integer by minus one stops the compiler with a panic: the constant
  \<open>(-9223372036854775807 - 1) / -1\<close> passes the constant check, and its evaluation panics.
\<close>

theorem eval_division_panics:
  "is_constant_expr (st :: 'f const_evaluator) min_over_minus_one \<and> eval ops 6 min_over_minus_one st = Panic"
proof -
  have "is_constant_expr st min_over_minus_one"
    by (simp add: is_constant_expr.simps is_const_binary_op_def min_over_minus_one_def op_token_def token_new_def lit_def)
  moreover have "eval ops 6 min_over_minus_one st = Panic"
    by (simp add: eval_expr_def eval_binary_def min_over_minus_one_def op_token_def token_new_def lit_def
        negate_value_def binary_int_def i64_div_def i64_min_def wrap_i64_def eval_nat_numeral)
  ultimately show ?thesis by simp
qed

end
