(* ===== verification/Task_Core.thy ===== *)
theory Task_Core
  imports Registry_Table
begin

text \<open>
  The state of the task scheduler that lives under one mutex
  (\<open>crates/ntsc-runtime/src/ntask/core.rs\<close>): goroutines, channels, reactor interests, offloaded
  jobs, timers and the shared ready queue, with the two counters mirrored outside the lock
  (\<open>READY_LEN\<close> and \<open>TIMER_PENDING\<close>).

  Every operation holds the mutex from its first to its last access, so it is one step on the record
  \<open>global\<close>. Operations that release values held by a task also take the handle registry. Poll and
  cleanup functions are addresses of generated code; an operation that ends by calling a cleanup
  function returns the call it makes.
\<close>

section \<open>Model\<close>

type_synonym code_ptr = nat

datatype chan_op = Send | Recv

datatype park =
    ParkNone
  | ParkChan i64 chan_op
  | ParkTimer i64
  | ParkFd i64 bool
  | ParkJoin i64
  | ParkJob i64

record goroutine =
  gr_tasks :: "(code_ptr \<times> i64) list"
  gr_handle :: i64
  gr_cleanup :: "(code_ptr \<times> i64) option"
  gr_pending_send :: i64
  gr_pending_send_owned :: bool
  gr_recv_result :: i64
  gr_recv_result_owned :: bool
  gr_recv_ok :: bool
  gr_done :: bool
  gr_result :: i64
  gr_pending_exception :: i64
  gr_joiners :: "i64 list"

record chan =
  ch_buf :: "i64 list"
  ch_cap :: usize
  ch_owns_elements :: bool
  ch_closed :: bool
  ch_senders :: "i64 list"
  ch_receivers :: "i64 list"

definition chan_new :: "usize \<Rightarrow> bool \<Rightarrow> chan" where
  "chan_new capacity owns =
     \<lparr>ch_buf = [], ch_cap = capacity, ch_owns_elements = owns, ch_closed = False,
      ch_senders = [], ch_receivers = []\<rparr>"

record async_io =
  io_fd :: i64
  io_is_ready :: bool
  io_parked :: bool
  io_waiters :: "i64 list"

record async_op =
  op_waiter :: "i64 option"
  op_value :: i64
  op_is_done :: bool

text \<open>The ordered map of timers is the list of its entries in the order of their deadlines.\<close>

record global =
  next_core :: i64
  ready :: "i64 list"
  goroutines :: "i64 \<rightharpoonup> goroutine"
  chans :: "i64 \<rightharpoonup> chan"
  ios :: "i64 \<rightharpoonup> async_io"
  job_ops :: "i64 \<rightharpoonup> async_op"
  timers :: "(i64 \<times> i64 list) list"
  timer_pending :: i64
  ready_len :: usize

definition global_init :: global where
  "global_init =
     \<lparr>next_core = 1, ready = [], goroutines = Map.empty, chans = Map.empty, ios = Map.empty,
      job_ops = Map.empty, timers = [], timer_pending = 0, ready_len = 0\<rparr>"

subsection \<open>Timers\<close>

definition timers_pending_offset :: "i64 \<Rightarrow> global \<Rightarrow> global" where
  "timers_pending_offset delta g = g\<lparr>timer_pending := wrap_i64 (timer_pending g + delta)\<rparr>"

definition has_pending_timers :: "global \<Rightarrow> bool" where
  "has_pending_timers g \<longleftrightarrow> 0 < timer_pending g"

definition timers_reset :: "global \<Rightarrow> global" where
  "timers_reset g = g\<lparr>timer_pending := 0\<rparr>"

text \<open>\<open>timers.entry(at).or_default().push(gid)\<close>\<close>

fun timer_push :: "i64 \<Rightarrow> i64 \<Rightarrow> (i64 \<times> i64 list) list \<Rightarrow> (i64 \<times> i64 list) list" where
  "timer_push deadline gid [] = [(deadline, [gid])]"
| "timer_push deadline gid ((k, gids) # rest) =
     (if deadline < k then (deadline, [gid]) # (k, gids) # rest
      else if deadline = k then (k, gids @ [gid]) # rest
      else (k, gids) # timer_push deadline gid rest)"

subsection \<open>The shared ready queue\<close>

definition sync_ready_len :: "global \<Rightarrow> global" where
  "sync_ready_len g = g\<lparr>ready_len := length (ready g)\<rparr>"

definition has_ready :: "global \<Rightarrow> bool" where
  "has_ready g \<longleftrightarrow> 0 < ready_len g"

definition ready_back :: "i64 list \<Rightarrow> global \<Rightarrow> global" where
  "ready_back gids g = g\<lparr>ready := ready g @ gids\<rparr>"

definition push_ready :: "i64 \<Rightarrow> global \<Rightarrow> global" where
  "push_ready gid g = sync_ready_len (ready_back [gid] g)"

definition push_ready_batch :: "i64 list \<Rightarrow> global \<Rightarrow> global" where
  "push_ready_batch gids g = (if gids = [] then g else sync_ready_len (ready_back gids g))"

definition core_pop_ready :: "global \<Rightarrow> global \<times> i64 option" where
  "core_pop_ready g =
     (if \<not> has_ready g then (g, None)
      else (case ready g of
              [] \<Rightarrow> (sync_ready_len g, None)
            | gid # rest \<Rightarrow> (sync_ready_len (g\<lparr>ready := rest\<rparr>), Some gid)))"

definition READY_BATCH_CAP :: usize where
  "READY_BATCH_CAP = 128"

definition pop_ready_batch :: "usize \<Rightarrow> global \<Rightarrow> global \<times> i64 list" where
  "pop_ready_batch workers g =
     (if \<not> has_ready g then (g, [])
      else (let share = length (ready g) div max workers 1 + 1;
                n = min (min share (length (ready g))) READY_BATCH_CAP
            in (sync_ready_len (g\<lparr>ready := drop n (ready g)\<rparr>), take n (ready g))))"

definition clear_ready :: "global \<Rightarrow> global" where
  "clear_ready g = g\<lparr>ready := [], ready_len := 0\<rparr>"

subsection \<open>Registration\<close>

text \<open>Core ids are shared by goroutines, channels, interests and jobs.\<close>

definition take_core :: "global \<Rightarrow> global \<times> i64" where
  "take_core g = (g\<lparr>next_core := saturating_add_i64 (next_core g) 1\<rparr>, next_core g)"

definition register_goroutine :: "goroutine \<Rightarrow> global \<Rightarrow> global \<times> i64" where
  "register_goroutine gr g =
     (let (g1, core) = take_core g in (g1\<lparr>goroutines := (goroutines g1)(core \<mapsto> gr)\<rparr>, core))"

definition register_goroutine_runnable :: "goroutine \<Rightarrow> global \<Rightarrow> global \<times> i64" where
  "register_goroutine_runnable gr g =
     (let (g1, core) = take_core g;
          g2 = g1\<lparr>goroutines := (goroutines g1)(core \<mapsto> gr)\<rparr>
      in (sync_ready_len (ready_back [core] g2), core))"

definition reserve_core_ids :: "usize \<Rightarrow> global \<Rightarrow> global \<times> i64" where
  "reserve_core_ids n g =
     (g\<lparr>next_core := saturating_add_i64 (next_core g) (int (max n 1))\<rparr>, next_core g)"

definition register_chan :: "usize \<Rightarrow> bool \<Rightarrow> global \<Rightarrow> global \<times> i64" where
  "register_chan capacity owns g =
     (let (g1, core) = take_core g in (g1\<lparr>chans := (chans g1)(core \<mapsto> chan_new capacity owns)\<rparr>, core))"

definition register_io :: "global \<Rightarrow> global \<times> i64" where
  "register_io g =
     (let (g1, core) = take_core g
      in (g1\<lparr>ios := (ios g1)(core \<mapsto> \<lparr>io_fd = 0, io_is_ready = False, io_parked = False, io_waiters = []\<rparr>)\<rparr>,
          core))"

definition register_op :: "global \<Rightarrow> global \<times> i64" where
  "register_op g =
     (let (g1, core) = take_core g
      in (g1\<lparr>job_ops := (job_ops g1)(core \<mapsto> \<lparr>op_waiter = None, op_value = NULL, op_is_done = False\<rparr>)\<rparr>, core))"

subsection \<open>Dropping\<close>

definition update_all :: "('a \<Rightarrow> 'a) \<Rightarrow> (i64 \<rightharpoonup> 'a) \<Rightarrow> (i64 \<rightharpoonup> 'a)" where
  "update_all f m = (\<lambda>k. map_option f (m k))"

definition forget_timers :: "i64 \<Rightarrow> (i64 \<times> i64 list) list \<Rightarrow> (i64 \<times> i64 list) list" where
  "forget_timers core ts =
     filter (\<lambda>(k, gids). gids \<noteq> []) (map (\<lambda>(k, gids). (k, filter (\<lambda>gid. gid \<noteq> core) gids)) ts)"

definition forget_chan :: "i64 \<Rightarrow> chan \<Rightarrow> chan" where
  "forget_chan core c =
     c\<lparr>ch_senders := filter (\<lambda>gid. gid \<noteq> core) (ch_senders c),
       ch_receivers := filter (\<lambda>gid. gid \<noteq> core) (ch_receivers c)\<rparr>"

definition forget_io :: "i64 \<Rightarrow> async_io \<Rightarrow> async_io" where
  "forget_io core io =
     (let waiters = filter (\<lambda>gid. gid \<noteq> core) (io_waiters io)
      in io\<lparr>io_waiters := waiters, io_parked := (if waiters = [] then False else io_parked io)\<rparr>)"

definition forget_op :: "i64 \<Rightarrow> async_op \<Rightarrow> async_op" where
  "forget_op core op = (if op_waiter op = Some core then op\<lparr>op_waiter := None\<rparr> else op)"

definition timer_count :: "(i64 \<times> i64 list) list \<Rightarrow> nat" where
  "timer_count ts = (\<Sum>(k, gids) \<leftarrow> ts. length gids)"

definition abandoned_values :: "goroutine \<Rightarrow> i64 list" where
  "abandoned_values gr =
     (if gr_pending_send_owned gr \<and> gr_pending_send gr \<noteq> NULL then [gr_pending_send gr] else []) @
     (if gr_recv_result_owned gr \<and> gr_recv_result gr \<noteq> NULL then [gr_recv_result gr] else []) @
     (if gr_pending_exception gr \<noteq> NULL then [gr_pending_exception gr] else []) @
     (if gr_done gr \<and> gr_result gr \<noteq> NULL then [gr_result gr] else [])"

primrec remove_all_handles :: "i64 list \<Rightarrow> 'o registry \<Rightarrow> 'o registry" where
  "remove_all_handles [] r = r"
| "remove_all_handles (v # vs) r = remove_all_handles vs (fst (remove_handle v r))"

definition drop_goroutine ::
    "i64 \<Rightarrow> global \<Rightarrow> 'o registry \<Rightarrow> global \<times> 'o registry \<times> (code_ptr \<times> i64) option" where
  "drop_goroutine core g r =
     (case goroutines g core of
        None \<Rightarrow> (g, r, None)
      | Some removed \<Rightarrow>
          (let ts = forget_timers core (timers g);
               removed_timers = int (timer_count (timers g)) - int (timer_count ts);
               g1 = g\<lparr>goroutines := (goroutines g)(core := None), timers := ts\<rparr>;
               g2 = (if 0 < removed_timers then timers_pending_offset (- removed_timers) g1 else g1);
               g3 = g2\<lparr>chans := update_all (forget_chan core) (chans g2),
                       ios := update_all (forget_io core) (ios g2),
                       job_ops := update_all (forget_op core) (job_ops g2)\<rparr>
           in (g3, remove_all_handles (abandoned_values removed) r,
               if gr_done removed then None else gr_cleanup removed)))"

definition drop_chan :: "i64 \<Rightarrow> global \<Rightarrow> 'o registry \<Rightarrow> global \<times> 'o registry" where
  "drop_chan core g r =
     (case chans g core of
        None \<Rightarrow> (g, r)
      | Some c \<Rightarrow>
          (g\<lparr>chans := (chans g)(core := None)\<rparr>,
           if ch_owns_elements c then remove_all_handles (ch_buf c) r else r))"

definition drop_io :: "i64 \<Rightarrow> global \<Rightarrow> global" where
  "drop_io core g = g\<lparr>ios := (ios g)(core := None)\<rparr>"

definition io_ready :: "i64 \<Rightarrow> global \<Rightarrow> global \<times> bool" where
  "io_ready core g =
     (case ios g core of
        None \<Rightarrow> (g, False)
      | Some io \<Rightarrow> (g\<lparr>ios := (ios g)(core \<mapsto> io\<lparr>io_is_ready := False\<rparr>)\<rparr>, io_is_ready io))"

subsection \<open>Offloaded jobs\<close>

text \<open>The second component tells whether the sleeping workers are notified.\<close>

definition complete_op :: "i64 \<Rightarrow> i64 \<Rightarrow> global \<Rightarrow> global \<times> bool" where
  "complete_op core res g =
     (case job_ops g core of
        None \<Rightarrow> (g, False)
      | Some op \<Rightarrow>
          (let waiter = op_waiter op;
               g1 = g\<lparr>job_ops := (job_ops g)(core \<mapsto> op\<lparr>op_value := res, op_is_done := True, op_waiter := None\<rparr>)\<rparr>
           in case waiter of
                None \<Rightarrow> (g1, False)
              | Some gid \<Rightarrow> (sync_ready_len (ready_back [gid] g1), True)))"

definition op_result :: "i64 \<Rightarrow> global \<Rightarrow> global \<times> i64" where
  "op_result core g =
     (case job_ops g core of
        None \<Rightarrow> (g, NULL)
      | Some op \<Rightarrow> (g\<lparr>job_ops := (job_ops g)(core := None)\<rparr>, op_value op))"

definition op_done :: "i64 \<Rightarrow> global \<Rightarrow> bool" where
  "op_done core g = (case job_ops g core of None \<Rightarrow> False | Some op \<Rightarrow> op_is_done op)"

definition drop_op :: "i64 \<Rightarrow> global \<Rightarrow> 'o registry \<Rightarrow> global \<times> 'o registry" where
  "drop_op core g r =
     (case job_ops g core of
        None \<Rightarrow> (g, r)
      | Some op \<Rightarrow>
          (g\<lparr>job_ops := (job_ops g)(core := None)\<rparr>,
           if op_is_done op \<and> op_value op \<noteq> NULL then fst (remove_handle (op_value op) r) else r))"

end
