(* ===== verification/Channels.thy ===== *)
theory Channels
  imports Task_Core
begin

text \<open>
  Channel operations of the scheduler (\<open>crates/ntsc-runtime/src/ntask/scheduler.rs\<close>,
  \<open>chan_send\<close>, \<open>chan_recv\<close> and \<open>chan_close\<close>): what happens to the buffer, to the goroutines
  parked on the channel and to the ready queue when a goroutine sends, receives or closes.

  The detailed operations refine a bounded queue of values: its contents are the buffer followed by
  the values that parked senders hold. The theorems show that values come out in the order they went
  in, that none is lost or duplicated, and which ones a close discards.
\<close>

section \<open>Model\<close>

definition gr_update :: "i64 \<Rightarrow> (goroutine \<Rightarrow> goroutine) \<Rightarrow> global \<Rightarrow> global" where
  "gr_update gid f g =
     (case goroutines g gid of
        None \<Rightarrow> g
      | Some gr \<Rightarrow> g\<lparr>goroutines := (goroutines g)(gid \<mapsto> f gr)\<rparr>)"

definition put_chan :: "i64 \<Rightarrow> chan \<Rightarrow> global \<Rightarrow> global" where
  "put_chan core c g = g\<lparr>chans := (chans g)(core \<mapsto> c)\<rparr>"

definition clear_send :: "goroutine \<Rightarrow> goroutine" where
  "clear_send gr = gr\<lparr>gr_pending_send := NULL, gr_pending_send_owned := False\<rparr>"

definition got_value :: "i64 \<Rightarrow> bool \<Rightarrow> goroutine \<Rightarrow> goroutine" where
  "got_value v owns gr = gr\<lparr>gr_recv_result := v, gr_recv_result_owned := owns, gr_recv_ok := True\<rparr>"

definition got_nothing :: "goroutine \<Rightarrow> goroutine" where
  "got_nothing gr = gr\<lparr>gr_recv_result := NULL, gr_recv_result_owned := False, gr_recv_ok := False\<rparr>"

text \<open>The value a goroutine is sending.\<close>

definition sending :: "global \<Rightarrow> i64 \<Rightarrow> i64" where
  "sending g gid = (case goroutines g gid of None \<Rightarrow> NULL | Some gr \<Rightarrow> gr_pending_send gr)"

definition chan_send :: "i64 \<Rightarrow> i64 \<Rightarrow> global \<Rightarrow> 'o registry \<Rightarrow> global \<times> 'o registry \<times> bool" where
  "chan_send gid core g r =
     (let val = sending g gid
      in case chans g core of
           None \<Rightarrow> (ready_back [gid] (gr_update gid clear_send g), r, False)
         | Some c \<Rightarrow>
             if ch_closed c
             then (ready_back [gid] (gr_update gid clear_send g),
                   if ch_owns_elements c then fst (remove_handle val r) else r, False)
             else (case ch_receivers c of
                     receiver # others \<Rightarrow>
                       (let g1 = put_chan core (c\<lparr>ch_receivers := others\<rparr>) g;
                            g2 = gr_update receiver (got_value val (ch_owns_elements c)) g1;
                            g3 = gr_update gid clear_send g2
                        in (ready_back [gid] (ready_back [receiver] g3), r, True))
                   | [] \<Rightarrow>
                       if 0 < ch_cap c \<and> length (ch_buf c) < ch_cap c
                       then (ready_back [gid] (gr_update gid clear_send
                               (put_chan core (c\<lparr>ch_buf := ch_buf c @ [val]\<rparr>) g)), r, False)
                       else (put_chan core (c\<lparr>ch_senders := ch_senders c @ [gid]\<rparr>)
                               (gr_update gid (\<lambda>gr. gr\<lparr>gr_pending_send_owned := ch_owns_elements c\<rparr>) g), r, False)))"

definition chan_recv :: "i64 \<Rightarrow> i64 \<Rightarrow> global \<Rightarrow> global \<times> bool" where
  "chan_recv gid core g =
     (case chans g core of
        None \<Rightarrow> (ready_back [gid] (gr_update gid got_nothing g), False)
      | Some c \<Rightarrow>
          (case ch_buf c of
             v # vs \<Rightarrow>
               (let c1 = c\<lparr>ch_buf := vs\<rparr>;
                    g1 = gr_update gid (got_value v (ch_owns_elements c)) (put_chan core c1 g)
                in case ch_senders c of
                     s # others \<Rightarrow>
                       (let sv = sending g1 s;
                            g2 = gr_update s clear_send g1;
                            g3 = put_chan core (c1\<lparr>ch_senders := others, ch_buf := ch_buf c1 @ [sv]\<rparr>) g2
                        in (ready_back [gid] (ready_back [s] g3), True))
                   | [] \<Rightarrow> (ready_back [gid] g1, False))
           | [] \<Rightarrow>
               (case ch_senders c of
                  s # others \<Rightarrow>
                    (let sv = sending g s;
                         g1 = gr_update s clear_send (put_chan core (c\<lparr>ch_senders := others\<rparr>) g);
                         g2 = gr_update gid (got_value sv (ch_owns_elements c)) g1
                     in (ready_back [gid] (ready_back [s] g2), True))
                | [] \<Rightarrow>
                    if ch_closed c then (ready_back [gid] (gr_update gid got_nothing g), False)
                    else (put_chan core (c\<lparr>ch_receivers := ch_receivers c @ [gid]\<rparr>) g, False))))"

definition chan_op :: "i64 \<Rightarrow> i64 \<Rightarrow> chan_op \<Rightarrow> global \<Rightarrow> 'o registry \<Rightarrow> global \<times> 'o registry \<times> bool" where
  "chan_op gid core op g r =
     (case op of
        Send \<Rightarrow> chan_send gid core g r
      | Recv \<Rightarrow> (let (g1, woke) = chan_recv gid core g in (g1, r, woke)))"

text \<open>The receivers of a closing channel drain the buffer, one value each.\<close>

fun drain_pairs :: "i64 list \<Rightarrow> i64 list \<Rightarrow> (i64 \<times> i64 option) list \<times> i64 list" where
  "drain_pairs [] b = ([], b)"
| "drain_pairs (rcv # rs) b =
     (case b of
        [] \<Rightarrow> (let (ps, b') = drain_pairs rs [] in ((rcv, None) # ps, b'))
      | v # vs \<Rightarrow> (let (ps, b') = drain_pairs rs vs in ((rcv, Some v) # ps, b')))"

fun close_receivers :: "bool \<Rightarrow> (i64 \<times> i64 option) list \<Rightarrow> global \<Rightarrow> global \<times> i64 list" where
  "close_receivers owns [] g = (g, [])"
| "close_receivers owns ((rcv, got) # ps) g =
     (let present = goroutines g rcv \<noteq> None;
          g1 = (case got of
                  Some v \<Rightarrow> gr_update rcv (got_value v owns) g
                | None \<Rightarrow> gr_update rcv got_nothing g);
          left_over = (case got of Some v \<Rightarrow> if \<not> present \<and> owns then [v] else [] | None \<Rightarrow> []);
          (g2, abandoned) = close_receivers owns ps (ready_back [rcv] g1)
      in (g2, left_over @ abandoned))"

fun close_senders :: "i64 list \<Rightarrow> global \<Rightarrow> global \<times> i64 list" where
  "close_senders [] g = (g, [])"
| "close_senders (s # ss) g =
     (let left_over = (if goroutines g s \<noteq> None \<and> sending g s \<noteq> NULL then [sending g s] else []);
          (g2, abandoned) = close_senders ss (ready_back [s] (gr_update s clear_send g))
      in (g2, left_over @ abandoned))"

definition chan_close :: "i64 \<Rightarrow> global \<Rightarrow> 'o registry \<Rightarrow> global \<times> 'o registry" where
  "chan_close core g r =
     (case chans g core of
        None \<Rightarrow> (g, r)
      | Some c \<Rightarrow>
          if ch_closed c then (g, r)
          else (let (drained, rest) = drain_pairs (ch_receivers c) (ch_buf c);
                    g1 = put_chan core (c\<lparr>ch_closed := True, ch_receivers := [], ch_senders := [], ch_buf := rest\<rparr>) g;
                    (g2, abandoned1) = close_receivers (ch_owns_elements c) drained g1;
                    (g3, abandoned2) = close_senders (ch_senders c) g2
                in (sync_ready_len g3,
                    if ch_owns_elements c then remove_all_handles (abandoned1 @ abandoned2) r else r)))"

section \<open>Elementary facts\<close>

lemma goroutines_gr_update:
  "goroutines (gr_update gid f g) = (goroutines g)(gid := map_option f (goroutines g gid))"
  by (auto simp: gr_update_def split: option.split)

lemma gr_update_fields [simp]:
  "chans (gr_update gid f g) = chans g" "ready (gr_update gid f g) = ready g"
  "timers (gr_update gid f g) = timers g" "ios (gr_update gid f g) = ios g"
  "job_ops (gr_update gid f g) = job_ops g" "next_core (gr_update gid f g) = next_core g"
  "timer_pending (gr_update gid f g) = timer_pending g" "ready_len (gr_update gid f g) = ready_len g"
  by (simp_all add: gr_update_def split: option.split)

lemma put_chan_fields [simp]:
  "chans (put_chan core c g) = (chans g)(core \<mapsto> c)" "goroutines (put_chan core c g) = goroutines g"
  "ready (put_chan core c g) = ready g" "timers (put_chan core c g) = timers g"
  "ios (put_chan core c g) = ios g" "job_ops (put_chan core c g) = job_ops g"
  "next_core (put_chan core c g) = next_core g" "timer_pending (put_chan core c g) = timer_pending g"
  "ready_len (put_chan core c g) = ready_len g"
  by (simp_all add: put_chan_def)

lemma ready_back_fields [simp]:
  "chans (ready_back gs g) = chans g" "goroutines (ready_back gs g) = goroutines g"
  "ready (ready_back gs g) = ready g @ gs" "timers (ready_back gs g) = timers g"
  "ios (ready_back gs g) = ios g" "job_ops (ready_back gs g) = job_ops g"
  "next_core (ready_back gs g) = next_core g" "timer_pending (ready_back gs g) = timer_pending g"
  "ready_len (ready_back gs g) = ready_len g"
  by (simp_all add: ready_back_def)

lemma sync_ready_len_fields [simp]:
  "chans (sync_ready_len g) = chans g" "goroutines (sync_ready_len g) = goroutines g"
  "ready (sync_ready_len g) = ready g" "timers (sync_ready_len g) = timers g"
  "ios (sync_ready_len g) = ios g" "job_ops (sync_ready_len g) = job_ops g"
  "next_core (sync_ready_len g) = next_core g" "timer_pending (sync_ready_len g) = timer_pending g"
  "ready_len (sync_ready_len g) = length (ready g)"
  by (simp_all add: sync_ready_len_def)

lemma dom_gr_update [simp]: "dom (goroutines (gr_update gid f g)) = dom (goroutines g)"
  by (auto simp: goroutines_gr_update)

lemma sending_frame [simp]:
  "sending (put_chan core c g) = sending g" "sending (ready_back gs g) = sending g"
  "sending (sync_ready_len g) = sending g"
  by (simp_all add: sending_def fun_eq_iff)

lemma sending_gr_update:
  "sending (gr_update gid f g) s =
     (if s = gid \<and> goroutines g gid \<noteq> None then gr_pending_send (f (the (goroutines g gid))) else sending g s)"
  by (auto simp: sending_def goroutines_gr_update split: option.split)

lemma sending_got [simp]:
  "sending (gr_update gid (got_value v owns) g) = sending g" "sending (gr_update gid got_nothing g) = sending g"
  "sending (gr_update gid (\<lambda>gr. gr\<lparr>gr_pending_send_owned := b\<rparr>) g) = sending g"
  by (auto simp: fun_eq_iff goroutines_gr_update got_value_def got_nothing_def sending_def split: option.split)

lemma sending_clear: "sending (gr_update gid clear_send g) s = (if s = gid then NULL else sending g s)"
  by (auto simp: goroutines_gr_update clear_send_def sending_def split: option.split)

section \<open>The invariant\<close>

definition chan_waiting :: "chan \<Rightarrow> i64 list" where
  "chan_waiting c = ch_senders c @ ch_receivers c"

definition chan_ok :: "chan \<Rightarrow> bool" where
  "chan_ok c \<longleftrightarrow>
     length (ch_buf c) \<le> ch_cap c \<and>
     (ch_receivers c \<noteq> [] \<longrightarrow> ch_buf c = [] \<and> ch_senders c = []) \<and>
     (ch_senders c \<noteq> [] \<longrightarrow> length (ch_buf c) = ch_cap c) \<and>
     (ch_closed c \<longrightarrow> chan_waiting c = []) \<and>
     distinct (chan_waiting c)"

definition chans_inv :: "global \<Rightarrow> bool" where
  "chans_inv g \<longleftrightarrow>
     (\<forall>core c. chans g core = Some c \<longrightarrow> chan_ok c \<and> set (chan_waiting c) \<subseteq> dom (goroutines g)) \<and>
     (\<forall>core c core' c'. chans g core = Some c \<longrightarrow> chans g core' = Some c' \<longrightarrow> core \<noteq> core' \<longrightarrow>
        set (chan_waiting c) \<inter> set (chan_waiting c') = {})"

definition chan_parked :: "global \<Rightarrow> i64 \<Rightarrow> bool" where
  "chan_parked g gid \<longleftrightarrow> (\<exists>core c. chans g core = Some c \<and> gid \<in> set (chan_waiting c))"

lemma not_parked:
  "\<not> chan_parked g gid \<Longrightarrow> chans g core = Some c \<Longrightarrow> gid \<notin> set (ch_senders c) \<and> gid \<notin> set (ch_receivers c)"
  by (auto simp: chan_parked_def chan_waiting_def)

lemma chan_new_ok: "chan_ok (chan_new capacity owns)"
  by (simp add: chan_ok_def chan_new_def chan_waiting_def)

lemma chans_inv_init: "chans_inv global_init"
  by (simp add: chans_inv_def global_init_def)

lemma chans_invD: "chans_inv g \<Longrightarrow> chans g core = Some c \<Longrightarrow> chan_ok c \<and> set (chan_waiting c) \<subseteq> dom (goroutines g)"
  by (auto simp: chans_inv_def)

lemma chans_inv_put:
  assumes inv: "chans_inv g" and c: "chans g core = Some c" and ok: "chan_ok c'"
    and sub: "set (chan_waiting c') \<subseteq> set (chan_waiting c) \<union> new"
    and new: "new \<subseteq> dom (goroutines g)" "\<And>gid. gid \<in> new \<Longrightarrow> \<not> chan_parked g gid"
    and g': "chans g' = (chans g)(core \<mapsto> c')" "dom (goroutines g') = dom (goroutines g)"
  shows "chans_inv g'"
proof -
  have old: "set (chan_waiting c) \<inter> set (chan_waiting d) = {}" if "chans g core' = Some d" "core' \<noteq> core" for core' d
    using inv c that by (auto simp: chans_inv_def)
  have "set (chan_waiting c') \<inter> set (chan_waiting d) = {}" if "chans g core' = Some d" "core' \<noteq> core" for core' d
    using old [OF that] sub new(2) that by (fastforce simp: chan_parked_def)
  moreover have "set (chan_waiting c') \<subseteq> dom (goroutines g)" using sub new(1) chans_invD [OF inv c] by blast
  ultimately show ?thesis using inv ok g' unfolding chans_inv_def
    by (simp add: Int_commute)
qed

lemma chans_inv_same: "chans_inv g \<Longrightarrow> chans g' = chans g \<Longrightarrow> dom (goroutines g) \<subseteq> dom (goroutines g') \<Longrightarrow> chans_inv g'"
  unfolding chans_inv_def by (simp, blast)

section \<open>The abstract channel\<close>

text \<open>
  A channel promises this: a queue of values and the goroutines waiting for one. An operation changes
  the queue and delivers values, or the news that there will be none, to goroutines.
\<close>

record abs_chan =
  a_items :: "i64 list"
  a_cap :: nat
  a_closed :: bool
  a_waiting :: "i64 list"

definition a_send :: "i64 \<Rightarrow> abs_chan \<Rightarrow> abs_chan \<times> (i64 \<times> i64 option) list" where
  "a_send v a =
     (if a_closed a then (a, [])
      else (case a_waiting a of
              rcv # rs \<Rightarrow> (a\<lparr>a_waiting := rs\<rparr>, [(rcv, Some v)])
            | [] \<Rightarrow> (a\<lparr>a_items := a_items a @ [v]\<rparr>, [])))"

definition a_recv :: "i64 \<Rightarrow> abs_chan \<Rightarrow> abs_chan \<times> (i64 \<times> i64 option) list" where
  "a_recv gid a =
     (case a_items a of
        v # vs \<Rightarrow> (a\<lparr>a_items := vs\<rparr>, [(gid, Some v)])
      | [] \<Rightarrow> if a_closed a then (a, [(gid, None)]) else (a\<lparr>a_waiting := a_waiting a @ [gid]\<rparr>, []))"

definition a_close :: "abs_chan \<Rightarrow> abs_chan \<times> (i64 \<times> i64 option) list" where
  "a_close a =
     (if a_closed a then (a, [])
      else (a\<lparr>a_closed := True, a_items := take (a_cap a) (a_items a), a_waiting := []\<rparr>,
            map (\<lambda>rcv. (rcv, None)) (a_waiting a)))"

definition chan_abs :: "global \<Rightarrow> chan \<Rightarrow> abs_chan" where
  "chan_abs g c =
     \<lparr>a_items = ch_buf c @ map (sending g) (ch_senders c), a_cap = ch_cap c, a_closed = ch_closed c,
      a_waiting = ch_receivers c\<rparr>"

definition delivered :: "global \<Rightarrow> i64 \<times> i64 option \<Rightarrow> bool" where
  "delivered g d =
     (case goroutines g (fst d) of
        None \<Rightarrow> False
      | Some gr \<Rightarrow>
          (case snd d of
             Some v \<Rightarrow> gr_recv_result gr = v \<and> gr_recv_ok gr
           | None \<Rightarrow> gr_recv_result gr = NULL \<and> \<not> gr_recv_ok gr))"

text \<open>The parked senders are those whose values do not fit the buffer.\<close>

lemma blocked_senders: "chan_ok c \<Longrightarrow> length (ch_senders c) = length (a_items (chan_abs g c)) - a_cap (chan_abs g c)"
  by (cases "ch_senders c = []") (auto simp: chan_ok_def chan_abs_def)

lemma delivered_got_value: "goroutines g gid \<noteq> None \<Longrightarrow> delivered (gr_update gid (got_value v owns) g) (gid, Some v)"
  by (auto simp: delivered_def goroutines_gr_update got_value_def)

lemma delivered_got_nothing: "goroutines g gid \<noteq> None \<Longrightarrow> delivered (gr_update gid got_nothing g) (gid, None)"
  by (auto simp: delivered_def goroutines_gr_update got_nothing_def)

lemma delivered_frame [simp]:
  "delivered (ready_back gs g) = delivered g" "delivered (put_chan core c g) = delivered g"
  "delivered (sync_ready_len g) = delivered g"
  by (simp_all add: delivered_def fun_eq_iff)

lemma delivered_clear [simp]: "delivered (gr_update gid clear_send g) d = delivered g d"
  by (auto simp: delivered_def goroutines_gr_update clear_send_def split: option.split)

lemma map_sending_cong: "(\<And>s. s \<in> set ss \<Longrightarrow> sending g s = sending g' s) \<Longrightarrow> map (sending g) ss = map (sending g') ss"
  by simp

definition chan_refines :: "global \<Rightarrow> i64 \<Rightarrow> global \<Rightarrow> abs_chan \<times> (i64 \<times> i64 option) list \<Rightarrow> bool" where
  "chan_refines g core g' spec \<longleftrightarrow>
     chans_inv g' \<and>
     (\<exists>c'. chans g' core = Some c' \<and> chan_abs g' c' = fst spec) \<and>
     list_all (delivered g') (snd spec) \<and>
     (\<forall>core' c. core' \<noteq> core \<longrightarrow> chans g core' = Some c \<longrightarrow>
        chans g' core' = Some c \<and> chan_abs g' c = chan_abs g c)"

text \<open>Parked senders of any channel keep the value they are sending.\<close>

lemma chan_abs_frame:
  assumes "\<And>s. chan_parked g s \<Longrightarrow> sending g' s = sending g s" "chans g core = Some c"
  shows "chan_abs g' c = chan_abs g c"
  using assms by (auto simp: chan_abs_def chan_parked_def chan_waiting_def)

lemma refinesI:
  assumes inv: "chans_inv g" and c: "chans g core = Some c" and ok: "chan_ok c'"
    and sub: "set (chan_waiting c') \<subseteq> set (chan_waiting c) \<union> new"
    and new: "new \<subseteq> dom (goroutines g)" "\<And>gid. gid \<in> new \<Longrightarrow> \<not> chan_parked g gid"
    and g': "chans g' = (chans g)(core \<mapsto> c')" "dom (goroutines g') = dom (goroutines g)"
    and kept: "\<And>s. chan_parked g s \<Longrightarrow> s \<notin> set (chan_waiting c) \<Longrightarrow> sending g' s = sending g s"
    and abs: "chan_abs g' c' = fst spec" "list_all (delivered g') (snd spec)"
  shows "chan_refines g core g' spec"
proof -
  have "chan_abs g' d = chan_abs g d" if d: "chans g core' = Some d" "core' \<noteq> core" for core' d
  proof -
    have "set (chan_waiting c) \<inter> set (chan_waiting d) = {}" using inv c d by (auto simp: chans_inv_def)
    then have "sending g' x = sending g x" if "x \<in> set (ch_senders d)" for x
      using kept [of x] d(1) that by (auto simp: chan_parked_def chan_waiting_def)
    then show ?thesis by (simp add: chan_abs_def)
  qed
  then show ?thesis
    using chans_inv_put [OF inv c ok sub new g'] g' abs by (simp add: chan_refines_def)
qed

lemma refines_closed:
  assumes inv: "chans_inv g" and c: "chans g core = Some c"
    and g': "chans g' = chans g" "dom (goroutines g') = dom (goroutines g)"
    and kept: "\<And>s. chan_parked g s \<Longrightarrow> sending g' s = sending g s"
    and spec: "fst spec = chan_abs g c" "list_all (delivered g') (snd spec)"
  shows "chan_refines g core g' spec"
  using chans_inv_same [OF inv, of g'] chan_abs_frame [of g g'] c g' kept spec
  by (simp add: chan_refines_def)

lemma chan_send_refines:
  assumes inv: "chans_inv g" and c: "chans g core = Some c"
    and gid: "goroutines g gid \<noteq> None" "\<not> chan_parked g gid"
    and send: "chan_send gid core g r = (g', r', woke)"
  shows "chan_refines g core g' (a_send (sending g gid) (chan_abs g c))"
proof -
  note ok = chans_invD [OF inv c, THEN conjunct1]
  have other: "s \<noteq> gid" if "chan_parked g s" for s using that gid(2) by blast
  have notin: "gid \<notin> set (chan_waiting c)" using gid(2) c by (auto simp: chan_parked_def)
  consider (closed) "ch_closed c"
    | (hand) rcv rs where "\<not> ch_closed c" "ch_receivers c = rcv # rs"
    | (room) "\<not> ch_closed c" "ch_receivers c = []" "length (ch_buf c) < ch_cap c"
    | (full) "\<not> ch_closed c" "ch_receivers c = []" "\<not> length (ch_buf c) < ch_cap c"
    by (cases "ch_receivers c") auto
  then show ?thesis
  proof cases
    case closed
    then have g': "g' = ready_back [gid] (gr_update gid clear_send g)"
      using send c by (simp add: chan_send_def)
    show ?thesis
      by (rule refines_closed [OF inv c])
        (use closed other in \<open>auto simp: g' sending_clear a_send_def chan_abs_def\<close>)
  next
    case (hand rcv rs)
    define c' where "c' = c\<lparr>ch_receivers := rs\<rparr>"
    have g': "g' = ready_back [gid] (ready_back [rcv] (gr_update gid clear_send
        (gr_update rcv (got_value (sending g gid) (ch_owns_elements c)) (put_chan core c' g))))"
      using send c hand by (simp add: chan_send_def Let_def c'_def)
    have rcv: "goroutines g rcv \<noteq> None" using chans_invD [OF inv c] hand by (auto simp: chan_waiting_def)
    show ?thesis
    proof (rule refinesI [OF inv c, where c' = c' and new = "{}"])
      show "chan_ok c'" using ok hand by (auto simp: chan_ok_def c'_def chan_waiting_def)
      show "set (chan_waiting c') \<subseteq> set (chan_waiting c) \<union> {}" using hand by (auto simp: c'_def chan_waiting_def)
      show "chan_abs g' c' = fst (a_send (sending g gid) (chan_abs g c))"
        using ok hand by (simp add: a_send_def chan_abs_def c'_def chan_ok_def)
      show "list_all (delivered g') (snd (a_send (sending g gid) (chan_abs g c)))"
        using hand rcv by (simp add: a_send_def chan_abs_def g' delivered_got_value)
    qed (use other in \<open>simp_all add: g' sending_clear\<close>)
  next
    case room
    define c' where "c' = c\<lparr>ch_buf := ch_buf c @ [sending g gid]\<rparr>"
    have g': "g' = ready_back [gid] (gr_update gid clear_send (put_chan core c' g))"
      using send c room by (simp add: chan_send_def Let_def c'_def)
    have none: "ch_senders c = []" using ok room by (auto simp: chan_ok_def)
    show ?thesis
    proof (rule refinesI [OF inv c, where c' = c' and new = "{}"])
      show "chan_ok c'" using ok room none by (auto simp: chan_ok_def c'_def chan_waiting_def)
      show "chan_abs g' c' = fst (a_send (sending g gid) (chan_abs g c))"
        using room none by (simp add: a_send_def chan_abs_def c'_def)
    qed (use other room in \<open>simp_all add: g' sending_clear c'_def chan_waiting_def a_send_def chan_abs_def\<close>)
  next
    case full
    define c' where "c' = c\<lparr>ch_senders := ch_senders c @ [gid]\<rparr>"
    have g': "g' = put_chan core c' (gr_update gid (\<lambda>gr. gr\<lparr>gr_pending_send_owned := ch_owns_elements c\<rparr>) g)"
      using send c full by (simp add: chan_send_def Let_def c'_def)
    show ?thesis
    proof (rule refinesI [OF inv c, where c' = c' and new = "{gid}"])
      show "chan_ok c'" using ok full notin by (auto simp: chan_ok_def c'_def chan_waiting_def)
      show "set (chan_waiting c') \<subseteq> set (chan_waiting c) \<union> {gid}" by (auto simp: c'_def chan_waiting_def)
      show "{gid} \<subseteq> dom (goroutines g)" using gid by auto
      show "chan_abs g' c' = fst (a_send (sending g gid) (chan_abs g c))"
        using full by (simp add: a_send_def chan_abs_def c'_def g')
    qed (use gid full in \<open>simp_all add: g' c'_def a_send_def chan_abs_def\<close>)
  qed
qed

lemma chan_recv_refines:
  assumes inv: "chans_inv g" and c: "chans g core = Some c"
    and gid: "goroutines g gid \<noteq> None" "\<not> chan_parked g gid"
    and recv: "chan_recv gid core g = (g', woke)"
  shows "chan_refines g core g' (a_recv gid (chan_abs g c))"
proof -
  note ok = chans_invD [OF inv c, THEN conjunct1]
  have notin: "gid \<notin> set (chan_waiting c)" using gid(2) c by (auto simp: chan_parked_def)
  have dist: "distinct (ch_senders c)" using ok by (auto simp: chan_ok_def chan_waiting_def)
  consider (buffered) v vs where "ch_buf c = v # vs" "ch_senders c = []"
    | (refill) v vs s ss where "ch_buf c = v # vs" "ch_senders c = s # ss"
    | (direct) s ss where "ch_buf c = []" "ch_senders c = s # ss"
    | (closed) "ch_buf c = []" "ch_senders c = []" "ch_closed c"
    | (wait) "ch_buf c = []" "ch_senders c = []" "\<not> ch_closed c"
    by (cases "ch_buf c"; cases "ch_senders c") auto
  then show ?thesis
  proof cases
    case (buffered v vs)
    define c' where "c' = c\<lparr>ch_buf := vs\<rparr>"
    have g': "g' = ready_back [gid] (gr_update gid (got_value v (ch_owns_elements c)) (put_chan core c' g))"
      using recv c buffered by (simp add: chan_recv_def Let_def c'_def)
    show ?thesis
    proof (rule refinesI [OF inv c, where c' = c' and new = "{}"])
      show "chan_ok c'" using ok buffered by (auto simp: chan_ok_def c'_def chan_waiting_def)
      show "list_all (delivered g') (snd (a_recv gid (chan_abs g c)))"
        using buffered gid by (simp add: a_recv_def chan_abs_def g' delivered_got_value)
    qed (use buffered in \<open>simp_all add: g' c'_def chan_waiting_def a_recv_def chan_abs_def\<close>)
  next
    case (refill v vs s ss)
    define c' where "c' = c\<lparr>ch_senders := ss, ch_buf := vs @ [sending g s]\<rparr>"
    have g': "g' = ready_back [gid] (ready_back [s] (put_chan core c' (gr_update s clear_send
        (gr_update gid (got_value v (ch_owns_elements c)) (put_chan core (c\<lparr>ch_buf := vs\<rparr>) g)))))"
      using recv c refill by (simp add: chan_recv_def Let_def c'_def)
    have "s \<notin> set ss" using dist refill by simp
    then have ss: "map (sending g') ss = map (sending g) ss" by (auto simp: g' sending_clear)
    show ?thesis
    proof (rule refinesI [OF inv c, where c' = c' and new = "{}"])
      show "chan_ok c'" using ok refill by (auto simp: chan_ok_def c'_def chan_waiting_def)
      show "chan_abs g' c' = fst (a_recv gid (chan_abs g c))"
        using refill ss by (simp add: a_recv_def chan_abs_def c'_def)
      show "list_all (delivered g') (snd (a_recv gid (chan_abs g c)))"
        using refill gid by (simp add: a_recv_def chan_abs_def g' delivered_got_value)
      show "sending g' x = sending g x" if "x \<notin> set (chan_waiting c)" for x
        using that refill by (auto simp: g' sending_clear chan_waiting_def)
    qed (use refill in \<open>auto simp: g' c'_def chan_waiting_def\<close>)
  next
    case (direct s ss)
    define c' where "c' = c\<lparr>ch_senders := ss\<rparr>"
    have g': "g' = ready_back [gid] (ready_back [s] (gr_update gid (got_value (sending g s) (ch_owns_elements c))
        (gr_update s clear_send (put_chan core c' g))))"
      using recv c direct by (simp add: chan_recv_def Let_def c'_def)
    have "s \<notin> set ss" using dist direct by simp
    then have ss: "map (sending g') ss = map (sending g) ss" by (auto simp: g' sending_clear)
    show ?thesis
    proof (rule refinesI [OF inv c, where c' = c' and new = "{}"])
      show "chan_ok c'" using ok direct by (auto simp: chan_ok_def c'_def chan_waiting_def)
      show "chan_abs g' c' = fst (a_recv gid (chan_abs g c))"
        using direct ss by (simp add: a_recv_def chan_abs_def c'_def)
      have "goroutines (gr_update s clear_send (put_chan core c' g)) gid \<noteq> None"
        using gid by (auto simp: goroutines_gr_update)
      then show "list_all (delivered g') (snd (a_recv gid (chan_abs g c)))"
        using direct by (simp add: a_recv_def chan_abs_def g' delivered_got_value)
      show "sending g' x = sending g x" if "x \<notin> set (chan_waiting c)" for x
        using that direct by (auto simp: g' sending_clear chan_waiting_def)
    qed (use direct in \<open>auto simp: g' c'_def chan_waiting_def\<close>)
  next
    case closed
    then have g': "g' = ready_back [gid] (gr_update gid got_nothing g)"
      using recv c by (simp add: chan_recv_def)
    show ?thesis
      by (rule refines_closed [OF inv c])
        (use closed gid in \<open>auto simp: g' a_recv_def chan_abs_def delivered_got_nothing\<close>)
  next
    case wait
    define c' where "c' = c\<lparr>ch_receivers := ch_receivers c @ [gid]\<rparr>"
    have g': "g' = put_chan core c' g" using recv c wait by (simp add: chan_recv_def c'_def)
    show ?thesis
    proof (rule refinesI [OF inv c, where c' = c' and new = "{gid}"])
      show "chan_ok c'" using ok wait notin by (auto simp: chan_ok_def c'_def chan_waiting_def)
      show "set (chan_waiting c') \<subseteq> set (chan_waiting c) \<union> {gid}" by (auto simp: c'_def chan_waiting_def)
      show "{gid} \<subseteq> dom (goroutines g)" using gid by auto
    qed (use gid wait in \<open>simp_all add: g' c'_def a_recv_def chan_abs_def\<close>)
  qed
qed

lemma drain_pairs_empty: "drain_pairs rs [] = (map (\<lambda>rcv. (rcv, None)) rs, [])"
  by (induction rs) simp_all

lemma close_receivers_facts:
  assumes "close_receivers owns (map (\<lambda>rcv. (rcv, None)) rs) g = (g', ab)"
  shows "chans g' = chans g" "sending g' = sending g" "dom (goroutines g') = dom (goroutines g)" "ab = []"
    "delivered g (x, None) \<Longrightarrow> delivered g' (x, None)"
    "set rs \<subseteq> dom (goroutines g) \<Longrightarrow> list_all (delivered g') (map (\<lambda>rcv. (rcv, None)) rs)"
proof -
  have "chans g' = chans g \<and> sending g' = sending g \<and> dom (goroutines g') = dom (goroutines g) \<and> ab = [] \<and>
      (delivered g (x, None) \<longrightarrow> delivered g' (x, None)) \<and>
      (set rs \<subseteq> dom (goroutines g) \<longrightarrow> list_all (delivered g') (map (\<lambda>rcv. (rcv, None)) rs))" for x
    using assms
  proof (induction rs arbitrary: g ab x)
    case (Cons rcv rs)
    let ?g1 = "ready_back [rcv] (gr_update rcv got_nothing g)"
    from Cons.prems have run: "close_receivers owns (map (\<lambda>rcv. (rcv, None)) rs) ?g1 = (g', ab)"
      by (auto simp: Let_def split: prod.splits)
    have "delivered g (x, None) \<Longrightarrow> delivered ?g1 (x, None)"
      by (auto simp: delivered_def goroutines_gr_update got_nothing_def split: option.split)
    moreover have "goroutines g rcv \<noteq> None \<Longrightarrow> delivered ?g1 (rcv, None)"
      by (simp add: delivered_got_nothing)
    moreover have "sending ?g1 = sending g" "dom (goroutines ?g1) = dom (goroutines g)" by auto
    ultimately show ?case using Cons.IH [OF run, of x] Cons.IH [OF run, of rcv] by auto
  qed simp
  then show "chans g' = chans g" "sending g' = sending g" "dom (goroutines g') = dom (goroutines g)" "ab = []"
    "delivered g (x, None) \<Longrightarrow> delivered g' (x, None)"
    "set rs \<subseteq> dom (goroutines g) \<Longrightarrow> list_all (delivered g') (map (\<lambda>rcv. (rcv, None)) rs)" by blast+
qed

lemma close_senders_facts:
  assumes "close_senders ss g = (g', ab)"
  shows "chans g' = chans g" "dom (goroutines g') = dom (goroutines g)" "delivered g' = delivered g"
    "sending g' x = (if x \<in> set ss then NULL else sending g x)"
proof -
  have "chans g' = chans g \<and> dom (goroutines g') = dom (goroutines g) \<and> delivered g' = delivered g \<and>
      (\<forall>x. sending g' x = (if x \<in> set ss then NULL else sending g x))"
    using assms
  proof (induction ss arbitrary: g ab)
    case (Cons s ss)
    from Cons.prems obtain ab' where "close_senders ss (ready_back [s] (gr_update s clear_send g)) = (g', ab')"
      by (auto simp: Let_def split: prod.splits)
    from Cons.IH [OF this] show ?case by (auto simp: sending_clear fun_eq_iff)
  qed simp
  then show "chans g' = chans g" "dom (goroutines g') = dom (goroutines g)" "delivered g' = delivered g"
    "sending g' x = (if x \<in> set ss then NULL else sending g x)" by blast+
qed

lemma chan_close_refines:
  assumes inv: "chans_inv g" and c: "chans g core = Some c" and close: "chan_close core g r = (g', r')"
  shows "chan_refines g core g' (a_close (chan_abs g c))"
proof (cases "ch_closed c")
  case True
  then have "g' = g" using close c by (simp add: chan_close_def)
  then show ?thesis
    by (intro refines_closed [OF inv c]) (use True in \<open>simp_all add: a_close_def chan_abs_def\<close>)
next
  case False
  note ok = chans_invD [OF inv c]
  have drain: "drain_pairs (ch_receivers c) (ch_buf c) = (map (\<lambda>rcv. (rcv, None)) (ch_receivers c), ch_buf c)"
    using ok by (cases "ch_receivers c = []") (auto simp: chan_ok_def drain_pairs_empty)
  define c' where "c' = c\<lparr>ch_closed := True, ch_receivers := [], ch_senders := []\<rparr>"
  have c'_buf: "c' = c\<lparr>ch_closed := True, ch_receivers := [], ch_senders := [], ch_buf := ch_buf c\<rparr>"
    by (simp add: c'_def)
  obtain g2 ab1 where r2: "close_receivers (ch_owns_elements c) (map (\<lambda>rcv. (rcv, None)) (ch_receivers c)) (put_chan core c' g) = (g2, ab1)"
    by fastforce
  obtain g3 ab2 where r3: "close_senders (ch_senders c) g2 = (g3, ab2)" by fastforce
  have g': "g' = sync_ready_len g3"
    using close c False drain r2 r3 by (simp add: chan_close_def c'_buf)
  note f2 = close_receivers_facts [OF r2]
  note f3 = close_senders_facts [OF r3]
  have buf: "take (ch_cap c) (ch_buf c @ map (sending g) (ch_senders c)) = ch_buf c"
    using ok by (cases "ch_senders c = []") (auto simp: chan_ok_def)
  show ?thesis
  proof (rule refinesI [OF inv c, where c' = c' and new = "{}"])
    show "chan_ok c'" using ok by (auto simp: chan_ok_def c'_def chan_waiting_def)
    show "chans g' = (chans g)(core \<mapsto> c')" by (simp add: g' f3(1) f2(1))
    show "dom (goroutines g') = dom (goroutines g)" by (simp add: g' f3(2) f2(3))
    show "sending g' x = sending g x" if "x \<notin> set (chan_waiting c)" for x
      using that by (simp add: g' f3(4) f2(2) chan_waiting_def)
    show "chan_abs g' c' = fst (a_close (chan_abs g c))"
      using False by (simp add: a_close_def chan_abs_def c'_def buf del: take_append)
    show "list_all (delivered g') (snd (a_close (chan_abs g c)))"
      using False f2(6) ok by (simp add: g' f3(3) a_close_def chan_abs_def chan_waiting_def)
  qed (simp_all add: c'_def chan_waiting_def)
qed

section \<open>First in, first out\<close>

text \<open>
  The contract of a queue that can be closed: a step takes values in, gives values out and loses
  values. Closing is final: a closed queue takes nothing in, and only the step that closes it loses
  anything.
\<close>

locale closable_queue =
  fixes contents :: "'s \<Rightarrow> 'v list" and is_closed :: "'s \<Rightarrow> bool" and good :: "'s \<Rightarrow> bool"
    and move :: "'s \<Rightarrow> 'v list \<Rightarrow> 'v list \<Rightarrow> 'v list \<Rightarrow> 's \<Rightarrow> bool"
  assumes move_good: "good s \<Longrightarrow> move s ins outs lost s' \<Longrightarrow> good s'"
    and move_contents: "good s \<Longrightarrow> move s ins outs lost s' \<Longrightarrow> contents s @ ins = outs @ contents s' @ lost"
    and move_closed: "good s \<Longrightarrow> move s ins outs lost s' \<Longrightarrow> is_closed s \<Longrightarrow> is_closed s' \<and> ins = [] \<and> lost = []"
    and move_lost: "good s \<Longrightarrow> move s ins outs lost s' \<Longrightarrow> lost \<noteq> [] \<Longrightarrow> is_closed s'"
begin

inductive moves :: "'s \<Rightarrow> 'v list \<Rightarrow> 'v list \<Rightarrow> 'v list \<Rightarrow> 's \<Rightarrow> bool" where
  moves_none: "moves s [] [] [] s"
| moves_one: "moves s ins outs lost s1 \<Longrightarrow> move s1 ins' outs' lost' s2 \<Longrightarrow>
    moves s (ins @ ins') (outs @ outs') (lost @ lost') s2"

lemma moves_fifo:
  "moves s ins outs lost s' \<Longrightarrow> good s \<Longrightarrow>
    good s' \<and> contents s @ ins = outs @ contents s' @ lost \<and> (lost \<noteq> [] \<longrightarrow> is_closed s')"
proof (induction rule: moves.induct)
  case (moves_one s ins outs lost s1 ins' outs' lost' s2)
  then have s1: "good s1" "contents s @ ins = outs @ contents s1 @ lost" "lost \<noteq> [] \<longrightarrow> is_closed s1" by blast+
  note m = move_good [OF s1(1) moves_one(2)] move_contents [OF s1(1) moves_one(2)]
    move_closed [OF s1(1) moves_one(2)] move_lost [OF s1(1) moves_one(2)]
  show ?case
  proof (cases "is_closed s1")
    case True
    then show ?thesis using m s1(2) by auto
  next
    case False
    then have "lost = []" using s1(3) by blast
    then show ?thesis using m s1(2) by (metis append.assoc append_Nil append_Nil2)
  qed
qed simp

end

definition channel_items :: "i64 \<Rightarrow> global \<Rightarrow> i64 list" where
  "channel_items core g = (case chans g core of None \<Rightarrow> [] | Some c \<Rightarrow> a_items (chan_abs g c))"

definition channel_closed :: "i64 \<Rightarrow> global \<Rightarrow> bool" where
  "channel_closed core g = (case chans g core of None \<Rightarrow> True | Some c \<Rightarrow> ch_closed c)"

definition channel_good :: "i64 \<Rightarrow> global \<Rightarrow> bool" where
  "channel_good core g \<longleftrightarrow> chans_inv g \<and> chans g core \<noteq> None"

text \<open>The values that the listed goroutines find when they resume.\<close>

definition found :: "global \<Rightarrow> i64 \<Rightarrow> i64 list" where
  "found g gid =
     (case goroutines g gid of None \<Rightarrow> [] | Some gr \<Rightarrow> if gr_recv_ok gr then [gr_recv_result gr] else [])"

definition start_send :: "i64 \<Rightarrow> i64 \<Rightarrow> global \<Rightarrow> global" where
  "start_send gid v g = gr_update gid (\<lambda>gr. gr\<lparr>gr_pending_send := v, gr_pending_send_owned := False\<rparr>) g"

definition woken :: "global \<Rightarrow> global \<Rightarrow> i64 list" where
  "woken g g' = drop (length (ready g)) (ready g')"

text \<open>
  What can happen to one channel: a goroutine that is not parked on a channel sends or receives,
  the channel is closed, or something else happens that leaves the channel and the values of its
  parked senders alone. A send takes its value in unless the channel is closed; the values that come
  out are those that the goroutines made ready by the step find.
\<close>

inductive channel_step ::
    "i64 \<Rightarrow> global \<times> 'o registry \<Rightarrow> i64 list \<Rightarrow> i64 list \<Rightarrow> i64 list \<Rightarrow> global \<times> 'o registry \<Rightarrow> bool"
  for core where
  step_send: "goroutines g gid \<noteq> None \<Longrightarrow> \<not> chan_parked g gid \<Longrightarrow>
    chan_send gid core (start_send gid v g) r = (g', r', woke) \<Longrightarrow>
    channel_step core (g, r) (if channel_closed core g then [] else [v])
      (concat (map (found g') (filter (\<lambda>x. x \<noteq> gid) (woken g g')))) [] (g', r')"
| step_recv: "goroutines g gid \<noteq> None \<Longrightarrow> \<not> chan_parked g gid \<Longrightarrow>
    chan_recv gid core g = (g', woke) \<Longrightarrow>
    channel_step core (g, r) [] (concat (map (found g') (filter (\<lambda>x. x = gid) (woken g g')))) [] (g', r)"
| step_close: "chans g core = Some c \<Longrightarrow> chan_close core g r = (g', r') \<Longrightarrow>
    channel_step core (g, r) [] [] (if ch_closed c then [] else map (sending g) (ch_senders c)) (g', r')"
| step_other: "chans g' core = chans g core \<Longrightarrow> chans_inv g' \<Longrightarrow>
    (\<And>c s. chans g core = Some c \<Longrightarrow> s \<in> set (ch_senders c) \<Longrightarrow> sending g' s = sending g s) \<Longrightarrow>
    channel_step core (g, r) [] [] [] (g', r')"

inductive_cases channel_stepE: "channel_step core s ins outs lost s'"

subsection \<open>The values that come out of a step\<close>

lemma start_send_fields [simp]:
  "chans (start_send gid v g) = chans g" "ready (start_send gid v g) = ready g"
  "dom (goroutines (start_send gid v g)) = dom (goroutines g)"
  by (simp_all add: start_send_def)

lemma sending_start: "goroutines g gid \<noteq> None \<Longrightarrow> sending (start_send gid v g) x = (if x = gid then v else sending g x)"
  by (auto simp: start_send_def sending_gr_update)

lemma found_frame [simp]:
  "found (ready_back gs g) = found g" "found (put_chan core c g) = found g" "found (gr_update x clear_send g) = found g"
  by (auto simp: found_def fun_eq_iff goroutines_gr_update clear_send_def split: option.split)

lemma found_got_value: "goroutines g gid \<noteq> None \<Longrightarrow> found (gr_update gid (got_value v owns) g) gid = [v]"
  by (auto simp: found_def goroutines_gr_update got_value_def)

lemma found_got_nothing: "found (gr_update gid got_nothing g) gid = []"
  by (simp add: found_def goroutines_gr_update got_nothing_def split: option.split)

definition values_of :: "(i64 \<times> i64 option) list \<Rightarrow> i64 list" where
  "values_of ds = concat (map (\<lambda>d. case snd d of None \<Rightarrow> [] | Some v \<Rightarrow> [v]) ds)"

lemma chan_send_out:
  assumes inv: "chans_inv g" and c: "chans g core = Some c"
    and gid: "goroutines g gid \<noteq> None" "\<not> chan_parked g gid"
    and send: "chan_send gid core g r = (g', r', woke)"
  shows "concat (map (found g') (filter (\<lambda>x. x \<noteq> gid) (woken g g'))) =
    values_of (snd (a_send (sending g gid) (chan_abs g c)))"
proof (cases "ch_closed c")
  case False
  show ?thesis
  proof (cases "ch_receivers c")
    case (Cons rcv rs)
    have "rcv \<noteq> gid" "goroutines g rcv \<noteq> None"
      using not_parked [OF gid(2) c] chans_invD [OF inv c] Cons by (auto simp: chan_waiting_def)
    then show ?thesis using send c False Cons
      by (auto simp: chan_send_def Let_def woken_def a_send_def chan_abs_def values_of_def found_got_value)
  qed (use send c False in \<open>auto simp: chan_send_def Let_def woken_def a_send_def chan_abs_def values_of_def
      split: if_splits\<close>)
qed (use send c in \<open>auto simp: chan_send_def woken_def a_send_def chan_abs_def values_of_def\<close>)

lemma chan_recv_out:
  assumes inv: "chans_inv g" and c: "chans g core = Some c"
    and gid: "goroutines g gid \<noteq> None" "\<not> chan_parked g gid"
    and recv: "chan_recv gid core g = (g', woke)"
  shows "concat (map (found g') (filter (\<lambda>x. x = gid) (woken g g'))) =
    values_of (snd (a_recv gid (chan_abs g c)))"
proof -
  have ne: "s \<noteq> gid" if "ch_senders c = s # ss" for s ss
    using not_parked [OF gid(2) c] that by auto
  have there: "goroutines (gr_update s f g1) gid \<noteq> None" if "goroutines g1 gid \<noteq> None" for s f g1
    using that by (auto simp: goroutines_gr_update)
  show ?thesis
  proof (cases "ch_buf c")
    case (Cons v vs)
    then show ?thesis using recv c gid(1) ne
      by (cases "ch_senders c") (auto simp: chan_recv_def Let_def woken_def a_recv_def chan_abs_def values_of_def found_got_value)
  next
    case Nil
    then show ?thesis using recv c gid(1) ne there
      by (cases "ch_senders c") (auto simp: chan_recv_def Let_def woken_def a_recv_def chan_abs_def values_of_def
          found_got_value found_got_nothing split: if_splits)
  qed
qed

lemma a_send_contents:
  "a_closed a \<or> a_waiting a = [] \<or> a_items a = [] \<Longrightarrow>
    a_items a @ (if a_closed a then [] else [v]) = values_of (snd (a_send v a)) @ a_items (fst (a_send v a)) \<and>
    a_closed (fst (a_send v a)) = a_closed a"
  by (auto simp: a_send_def values_of_def split: list.split)

lemma a_recv_contents:
  "a_items a = values_of (snd (a_recv gid a)) @ a_items (fst (a_recv gid a)) \<and>
    a_closed (fst (a_recv gid a)) = a_closed a"
  by (auto simp: a_recv_def values_of_def split: list.split)

lemma chan_refines_items:
  assumes "chan_refines g core g' spec"
  shows "channel_good core g' \<and> channel_items core g' = a_items (fst spec) \<and> channel_closed core g' = a_closed (fst spec)"
proof -
  obtain c' where c': "chans g' core = Some c'" "fst spec = chan_abs g' c'"
    using assms by (auto simp: chan_refines_def)
  then show ?thesis using assms
    by (simp add: chan_refines_def channel_good_def channel_items_def channel_closed_def) (simp add: chan_abs_def)
qed

lemma channel_step_laws:
  assumes "channel_step core s ins outs lost s'" "channel_good core (fst s)"
  shows "channel_good core (fst s') \<and>
    channel_items core (fst s) @ ins = outs @ channel_items core (fst s') @ lost \<and>
    (channel_closed core (fst s) \<longrightarrow> channel_closed core (fst s') \<and> ins = [] \<and> lost = []) \<and>
    (lost \<noteq> [] \<longrightarrow> channel_closed core (fst s'))"
  using assms(1)
proof (cases rule: channel_step.cases)
  case (step_send g gid v r g' r' woke)
  obtain c where c: "chans g core = Some c" and inv: "chans_inv g"
    using assms(2) step_send(1) by (auto simp: channel_good_def)
  let ?g = "start_send gid v g"
  have pre: "chans_inv ?g" "chans ?g core = Some c" "goroutines ?g gid \<noteq> None" "\<not> chan_parked ?g gid" "sending ?g gid = v"
    using chans_inv_same [OF inv, of ?g] c step_send(6,7)
    by (auto simp: chan_parked_def sending_start) (auto simp: start_send_def goroutines_gr_update)
  have abs: "chan_abs ?g c = chan_abs g c"
    using not_parked [OF step_send(7) c] step_send(6) by (auto simp: chan_abs_def sending_start)
  note ref = chan_send_refines [OF pre(1-4) step_send(8), unfolded pre(5) abs]
  note out = chan_send_out [OF pre(1-4) step_send(8), unfolded pre(5) abs]
  have "a_closed (chan_abs g c) \<or> a_waiting (chan_abs g c) = [] \<or> a_items (chan_abs g c) = []"
    using chans_invD [OF inv c] by (auto simp: chan_ok_def chan_abs_def)
  from a_send_contents [OF this, of v] show ?thesis
    using chan_refines_items [OF ref] out step_send(1-5) c
    by (auto simp: channel_items_def channel_closed_def chan_abs_def woken_def)
next
  case (step_recv g gid g' woke r)
  obtain c where c: "chans g core = Some c" and inv: "chans_inv g"
    using assms(2) step_recv(1) by (auto simp: channel_good_def)
  note ref = chan_recv_refines [OF inv c step_recv(6-8)]
  note out = chan_recv_out [OF inv c step_recv(6-8)]
  from a_recv_contents [of "chan_abs g c" gid] show ?thesis
    using chan_refines_items [OF ref] out step_recv(1-5) c
    by (auto simp: channel_items_def channel_closed_def chan_abs_def)
next
  case (step_close g c r g' r')
  have inv: "chans_inv g" using assms(2) step_close(1) by (simp add: channel_good_def)
  note ok = chans_invD [OF inv step_close(6), THEN conjunct1]
  have "take (ch_cap c) (ch_buf c @ map (sending g) (ch_senders c)) = ch_buf c"
    using ok by (cases "ch_senders c = []") (auto simp: chan_ok_def)
  then show ?thesis
    using chan_refines_items [OF chan_close_refines [OF inv step_close(6,7)]] step_close(1-6)
    by (auto simp: channel_items_def channel_closed_def chan_abs_def a_close_def simp del: take_append)
next
  case (step_other g' g r r')
  then have "channel_items core g' = channel_items core g"
    by (auto simp: channel_items_def chan_abs_def split: option.split)
  then show ?thesis using step_other assms(2) by (auto simp: channel_good_def channel_closed_def)
qed

interpretation chan_fifo: closable_queue "\<lambda>s. channel_items core (fst s)" "\<lambda>s. channel_closed core (fst s)"
    "\<lambda>s. channel_good core (fst s)" "channel_step core" for core
  by unfold_locales (use channel_step_laws in blast)+

lemma register_chan_inv:
  assumes "chans_inv g0" "register_chan capacity owns g0 = (g, core)"
  shows "channel_good core g \<and> channel_items core g = [] \<and> \<not> channel_closed core g"
proof -
  have g: "chans g = (chans g0)(core \<mapsto> chan_new capacity owns)" "goroutines g = goroutines g0"
    using assms(2) by (auto simp: register_chan_def take_core_def)
  have "chan_waiting (chan_new capacity owns) = []" by (simp add: chan_waiting_def chan_new_def)
  then have "chans_inv g" using assms(1) chan_new_ok g unfolding chans_inv_def by (auto split: if_splits)
  then show ?thesis using g by (simp add: channel_good_def channel_items_def channel_closed_def chan_abs_def chan_new_def)
qed

section \<open>Properties\<close>

text \<open>
  C7: Channels refine a queue of values. In every state with well-formed channels, a send, a receive
  and a close by a registered goroutine that is not parked on a channel change the channel as the
  queue specification says, put the specified value (or the absence of one) where the specified
  goroutines find it, keep all channels well-formed and leave every other channel as it was.
\<close>

theorem channel_refines_queue:
  assumes "chans_inv g" "chans g core = Some c" "goroutines g gid \<noteq> None" "\<not> chan_parked g gid"
  shows "chan_refines g core (fst (chan_send gid core g r)) (a_send (sending g gid) (chan_abs g c)) \<and>
    chan_refines g core (fst (chan_recv gid core g)) (a_recv gid (chan_abs g c)) \<and>
    chan_refines g core (fst (chan_close core g r)) (a_close (chan_abs g c))"
  using chan_send_refines [OF assms, of r] chan_recv_refines [OF assms] chan_close_refines [OF assms(1,2), of r]
  by (metis prod.collapse)

text \<open>
  C3: Channels are first in, first out and lose nothing but what a close discards. From the creation of
  a channel on, whatever goroutines send, receive and close in whatever order, the values accepted
  are those that receivers found, in the order they found them, followed by those still in the
  channel, followed by those that a close took from parked senders; and there are such only once the
  channel is closed.
\<close>

theorem channel_fifo:
  assumes "chans_inv g0" "register_chan capacity owns g0 = (g, core)"
    and "chan_fifo.moves core (g, r) ins outs lost (g', r')"
  shows "ins = outs @ channel_items core g' @ lost \<and> (lost \<noteq> [] \<longrightarrow> channel_closed core g') \<and> chans_inv g'"
  using chan_fifo.moves_fifo [OF assms(3)] register_chan_inv [OF assms(1,2)]
  by (auto simp: channel_good_def)

definition sample_goroutine :: goroutine where
  "sample_goroutine =
     \<lparr>gr_tasks = [], gr_handle = NULL, gr_cleanup = None, gr_pending_send = NULL, gr_pending_send_owned = False,
      gr_recv_result = NULL, gr_recv_result_owned = False, gr_recv_ok = False, gr_done = False,
      gr_result = NULL, gr_pending_exception = NULL, gr_joiners = []\<rparr>"

text \<open>A goroutine with id 1 and a channel of capacity 1 with id 2.\<close>

definition sample_global :: global where
  "sample_global = fst (register_chan 1 False (fst (register_goroutine sample_goroutine global_init)))"

lemma sample_facts:
  "chans_inv (fst (register_goroutine sample_goroutine global_init))"
  "register_chan 1 False (fst (register_goroutine sample_goroutine global_init)) = (sample_global, 2)"
  "chans_inv sample_global" "chans sample_global = [2 \<mapsto> chan_new 1 False]"
  "goroutines sample_global = [1 \<mapsto> sample_goroutine]" "ready sample_global = []"
proof -
  show init: "chans_inv (fst (register_goroutine sample_goroutine global_init))"
    by (rule chans_inv_same [OF chans_inv_init]) (auto simp: register_goroutine_def take_core_def global_init_def)
  show reg: "register_chan 1 False (fst (register_goroutine sample_goroutine global_init)) = (sample_global, 2)"
    by (simp add: sample_global_def register_chan_def take_core_def register_goroutine_def global_init_def
        saturating_add_i64_def i64_min_def i64_max_def)
  show "chans_inv sample_global" using register_chan_inv [OF init reg] by (simp add: channel_good_def)
  show "chans sample_global = [2 \<mapsto> chan_new 1 False]" "goroutines sample_global = [1 \<mapsto> sample_goroutine]"
    "ready sample_global = []"
    by (simp_all add: sample_global_def register_chan_def take_core_def register_goroutine_def global_init_def
        saturating_add_i64_def i64_min_def i64_max_def)
qed

theorem channel_refines_queue_witness:
  "chan_refines sample_global 2 (fst (chan_recv 1 2 sample_global)) (a_recv 1 (chan_abs sample_global (chan_new 1 False)))"
proof -
  have "\<not> chan_parked sample_global 1" by (auto simp: chan_parked_def sample_facts chan_new_def chan_waiting_def)
  then show ?thesis
    using channel_refines_queue [OF sample_facts(3), of 2 "chan_new 1 False" 1 "undefined :: unit registry"]
    by (simp add: sample_facts)
qed

text \<open>The goroutine sends 7 and then receives.\<close>

lemma sample_run:
  "\<exists>g'. chan_fifo.moves 2 (sample_global, r) [7] [7] [] (g', r)"
proof -
  obtain g1 where send: "chan_send 1 2 (start_send 1 7 sample_global) r = (g1, r, False)"
    and g1: "chans g1 = [2 \<mapsto> (chan_new 1 False)\<lparr>ch_buf := [7]\<rparr>]" "goroutines g1 1 \<noteq> None" "ready g1 = [1]"
    by (simp add: chan_send_def sample_facts chan_new_def start_send_def goroutines_gr_update sending_gr_update)
  obtain g2 where recv: "chan_recv 1 2 g1 = (g2, False)" and g2: "found g2 1 = [7]" "ready g2 = [1, 1]"
    using g1 by (auto simp: chan_recv_def chan_new_def found_got_value)
  have none: "\<not> chan_parked sample_global 1" "\<not> chan_parked g1 1"
    by (auto simp: chan_parked_def sample_facts g1 chan_new_def chan_waiting_def split: if_splits)
  have s1: "channel_step 2 (sample_global, r) [7] [] [] (g1, r)"
    using step_send [OF _ none(1) send] by (simp add: sample_facts channel_closed_def chan_new_def woken_def g1)
  have s2: "channel_step 2 (g1, r) [] [7] [] (g2, r)"
    using step_recv [OF g1(2) none(2) recv, of r] by (simp add: woken_def g1 g2)
  have "chan_fifo.moves 2 (sample_global, r) ([] @ [7]) ([] @ []) ([] @ []) (g1, r)"
    by (rule chan_fifo.moves_one [OF chan_fifo.moves_none s1])
  from chan_fifo.moves_one [OF this s2] show ?thesis by auto
qed

theorem channel_fifo_witness:
  "\<exists>g'. chan_fifo.moves 2 (sample_global, undefined :: unit registry) [7] [7] [] (g', undefined) \<and>
     [7] = [7] @ channel_items 2 g' @ []"
proof -
  obtain g' where "chan_fifo.moves 2 (sample_global, undefined :: unit registry) [7] [7] [] (g', undefined)"
    using sample_run by blast
  moreover from channel_fifo [OF sample_facts(1,2) this] have "[7] = [7] @ channel_items 2 g' @ []" by blast
  ultimately show ?thesis by blast
qed

end
