(* ===== verification/Scheduler.thy ===== *)
theory Scheduler
  imports Run_Queue Registry_Boxes Channels
begin

text \<open>
  The task scheduler (\<open>crates/ntsc-runtime/src/ntask/scheduler.rs\<close>) and the part of the reactor
  that wakes goroutines (\<open>reactor.rs\<close>): the workers with their run queues and their thread-local
  state, spawning, picking the next goroutine, the two halves of \<open>drive\<close> around a poll, joining, and
  the timer and descriptor events.

  A poll runs generated code, which calls back into the runtime; it is everything that happens
  between \<open>drive_begin\<close> and \<open>drive_finish\<close>. Waking sleeping threads has no effect on this state and is
  left out, as are statistics and the start and join of threads.
\<close>

section \<open>State\<close>

record task_state =
  ts_park :: park
  ts_pending_send :: i64
  ts_pending_send_owned :: bool
  ts_recv_result :: i64
  ts_recv_result_owned :: bool
  ts_recv_ok :: bool

definition TASK_IDLE :: task_state where
  "TASK_IDLE =
     \<lparr>ts_park = ParkNone, ts_pending_send = NULL, ts_pending_send_owned = False,
      ts_recv_result = NULL, ts_recv_result_owned = False, ts_recv_ok = False\<rparr>"

text \<open>
  A worker thread: its run queue, the id it has popped and not yet looked up, and its thread-local
  state: the goroutine being polled, that goroutine's task stack and suspension state, and the
  detached goroutines it has spawned but not yet published, with the ids reserved for them.
\<close>

record worker =
  w_queue :: run_queue
  w_popped :: "i64 option"
  w_gid :: "i64 option"
  w_tasks :: "(code_ptr \<times> i64) list"
  w_state :: task_state
  w_batch :: "(i64 \<times> goroutine) list"
  w_range :: "i64 \<times> nat"

definition worker_new :: worker where
  "worker_new =
     \<lparr>w_queue = rq_new, w_popped = None, w_gid = None, w_tasks = [], w_state = TASK_IDLE,
      w_batch = [], w_range = (0, 0)\<rparr>"

record 'o sched =
  glob :: global
  workers :: "worker list"
  regs :: "'o registry"
  fd_interests :: "i64 \<rightharpoonup> i64 \<times> bool"

definition sched_start :: "nat \<Rightarrow> 'o sched" where
  "sched_start n =
     \<lparr>glob = global_init, workers = replicate n worker_new, regs = reg_init, fd_interests = Map.empty\<rparr>"

definition on_glob :: "(global \<Rightarrow> global) \<Rightarrow> 'o sched \<Rightarrow> 'o sched" where
  "on_glob f s = s\<lparr>glob := f (glob s)\<rparr>"

definition on_worker :: "nat \<Rightarrow> (worker \<Rightarrow> worker) \<Rightarrow> 'o sched \<Rightarrow> 'o sched" where
  "on_worker w f s = s\<lparr>workers := (workers s)[w := f (workers s ! w)]\<rparr>"

definition queue_of :: "'o sched \<Rightarrow> nat \<Rightarrow> run_queue" where
  "queue_of s w = w_queue (workers s ! w)"

definition put_queue :: "nat \<Rightarrow> run_queue \<Rightarrow> 'o sched \<Rightarrow> 'o sched" where
  "put_queue w q s = on_worker w (\<lambda>wk. wk\<lparr>w_queue := q\<rparr>) s"

section \<open>Making goroutines runnable\<close>

text \<open>The calling thread is a worker, given by its index, or a thread outside the pool.\<close>

definition local_queue :: "nat option \<Rightarrow> 'o sched \<Rightarrow> nat option" where
  "local_queue caller s =
     (case caller of None \<Rightarrow> None | Some w \<Rightarrow> if w < length (workers s) then Some w else None)"

definition overflow_to_shared :: "nat \<Rightarrow> i64 \<Rightarrow> 'o sched \<Rightarrow> 'o sched" where
  "overflow_to_shared w gid s =
     (let (q, batch) = take_half (queue_of s w)
      in on_glob (push_ready_batch (batch @ [gid])) (put_queue w q s))"

definition push_local :: "nat \<Rightarrow> i64 \<Rightarrow> 'o sched \<Rightarrow> 'o sched" where
  "push_local w gid s =
     (let (q1, displaced) = push_next (queue_of s w) gid
      in case displaced of
           None \<Rightarrow> put_queue w q1 s
         | Some d \<Rightarrow>
             (let (q2, ok) = push q1 d; s2 = put_queue w q2 s
              in if ok then s2 else overflow_to_shared w d s2))"

definition make_runnable :: "nat option \<Rightarrow> i64 \<Rightarrow> 'o sched \<Rightarrow> 'o sched" where
  "make_runnable caller gid s =
     (case local_queue caller s of
        Some w \<Rightarrow> push_local w gid s
      | None \<Rightarrow> on_glob (push_ready gid) s)"

section \<open>Spawning\<close>

definition new_goroutine :: "code_ptr \<Rightarrow> i64 \<Rightarrow> code_ptr option \<Rightarrow> i64 \<Rightarrow> goroutine" where
  "new_goroutine poll future cleanup hid =
     \<lparr>gr_tasks = [(poll, future)], gr_handle = hid, gr_cleanup = map_option (\<lambda>f. (f, future)) cleanup,
      gr_pending_send = NULL, gr_pending_send_owned = False, gr_recv_result = NULL,
      gr_recv_result_owned = False, gr_recv_ok = False, gr_done = False, gr_result = NULL,
      gr_pending_exception = NULL, gr_joiners = []\<rparr>"

definition DETACHED_BATCH_CAP :: nat where
  "DETACHED_BATCH_CAP = 64"

fun insert_all :: "(i64 \<times> goroutine) list \<Rightarrow> global \<Rightarrow> global" where
  "insert_all [] g = g"
| "insert_all ((gid, gr) # rest) g = insert_all rest (g\<lparr>goroutines := (goroutines g)(gid \<mapsto> gr)\<rparr>)"

fun push_local_all :: "nat \<Rightarrow> i64 list \<Rightarrow> 'o sched \<Rightarrow> 'o sched" where
  "push_local_all w [] s = s"
| "push_local_all w (gid # gids) s = push_local_all w gids (push_local w gid s)"

definition flush_detached_batch :: "nat \<Rightarrow> 'o sched \<Rightarrow> 'o sched" where
  "flush_detached_batch w s =
     (let pending = w_batch (workers s ! w); s1 = on_worker w (\<lambda>wk. wk\<lparr>w_batch := []\<rparr>) s
      in if pending = [] then s1
         else (let gids = map fst pending; s2 = on_glob (insert_all pending) s1
               in case local_queue (Some w) s2 of
                    Some v \<Rightarrow> push_local_all v gids s2
                  | None \<Rightarrow> on_glob (push_ready_batch gids) s2))"

definition reserve_detached :: "nat \<Rightarrow> 'o sched \<Rightarrow> 'o sched \<times> i64" where
  "reserve_detached w s =
     (let (nxt, remaining) = w_range (workers s ! w)
      in if 0 < remaining then (on_worker w (\<lambda>wk. wk\<lparr>w_range := (nxt + 1, remaining - 1)\<rparr>) s, nxt)
         else (let (g, start) = reserve_core_ids DETACHED_BATCH_CAP (glob s)
               in (on_worker w (\<lambda>wk. wk\<lparr>w_range := (start + 1, DETACHED_BATCH_CAP - 1)\<rparr>) (s\<lparr>glob := g\<rparr>), start)))"

definition spawn_detached_batched :: "nat \<Rightarrow> goroutine \<Rightarrow> 'o sched \<Rightarrow> 'o sched \<times> i64" where
  "spawn_detached_batched w gr s =
     (let (s1, gid) = reserve_detached w s;
          s2 = on_worker w (\<lambda>wk. wk\<lparr>w_batch := w_batch wk @ [(gid, gr)]\<rparr>) s1;
          should_flush = DETACHED_BATCH_CAP \<le> length (w_batch (workers s2 ! w))
      in (if should_flush then flush_detached_batch w s2 else s2, gid))"

definition spawn_runnable ::
    "nat option \<Rightarrow> code_ptr \<Rightarrow> i64 \<Rightarrow> code_ptr option \<Rightarrow> i64 \<Rightarrow> 'o sched \<Rightarrow> 'o sched \<times> i64" where
  "spawn_runnable caller poll future cleanup hid s =
     (let gr = new_goroutine poll future cleanup hid
      in case caller of
           Some w \<Rightarrow>
             if hid = NULL then spawn_detached_batched w gr s
             else (let (g, gid) = register_goroutine gr (glob s)
                   in (make_runnable caller gid (s\<lparr>glob := g\<rparr>), gid))
         | None \<Rightarrow>
             (let (g, gid) = register_goroutine_runnable gr (glob s) in (s\<lparr>glob := g\<rparr>, gid)))"

text \<open>\<open>spawn_goroutine\<close> of the ABI layer: a goroutine with a registry wrapper.\<close>

definition spawn_goroutine ::
    "nat option \<Rightarrow> code_ptr \<Rightarrow> i64 \<Rightarrow> code_ptr option \<Rightarrow> 'o sched \<Rightarrow> 'o sched \<times> i64" where
  "spawn_goroutine caller poll future cleanup s =
     (let (r1, hid) = reserve_id (regs s);
          (g, core) = register_goroutine (new_goroutine poll future cleanup hid) (glob s);
          r2 = insert_reserved hid (HGoroutine core) r1
      in (make_runnable caller core (s\<lparr>glob := g, regs := r2\<rparr>), hid))"

section \<open>Picking a goroutine\<close>

definition GLOBAL_CHECK_INTERVAL :: nat where
  "GLOBAL_CHECK_INTERVAL = 61"

definition shared_pop :: "'o sched \<Rightarrow> 'o sched \<times> i64 option" where
  "shared_pop s = (let (g, x) = core_pop_ready (glob s) in (s\<lparr>glob := g\<rparr>, x))"

fun refill_push :: "nat \<Rightarrow> i64 list \<Rightarrow> 'o sched \<Rightarrow> 'o sched" where
  "refill_push w [] s = s"
| "refill_push w (gid # gids) s =
     (let (q, ok) = push (queue_of s w) gid; s1 = put_queue w q s
      in refill_push w gids (if ok then s1 else on_glob (push_ready gid) s1))"

definition refill_from_shared :: "nat \<Rightarrow> 'o sched \<Rightarrow> 'o sched \<times> i64 option" where
  "refill_from_shared w s =
     (let (g, batch) = pop_ready_batch (length (workers s)) (glob s); s1 = s\<lparr>glob := g\<rparr>
      in if batch = [] then (s1, None) else (refill_push w (butlast batch) s1, Some (last batch)))"

text \<open>
  A thief pushes what does not fit its own ring onto the shared queue. (Where a queue's indices are
  more than a ring apart the original reads them again; a consistent queue never shows that.)
\<close>

fun steal_scan :: "nat \<Rightarrow> nat list \<Rightarrow> 'o sched \<Rightarrow> 'o sched \<times> i64 option" where
  "steal_scan w [] s = (s, None)"
| "steal_scan w (offset # offsets) s =
     (let victim = (w + offset) mod length (workers s)
      in case steal_into (queue_of s victim) (queue_of s w) of
           None \<Rightarrow> steal_scan w offsets s
         | Some (vq, q, shared, got) \<Rightarrow>
             (let s1 = on_glob (fold push_ready shared) (put_queue w q (put_queue victim vq s))
              in case got of Some gid \<Rightarrow> (s1, Some gid) | None \<Rightarrow> steal_scan w offsets s1))"

definition steal_from_peers :: "nat \<Rightarrow> 'o sched \<Rightarrow> 'o sched \<times> i64 option" where
  "steal_from_peers w s = steal_scan w [1..<length (workers s)] s"

definition pop_ready :: "nat \<Rightarrow> nat \<Rightarrow> 'o sched \<Rightarrow> 'o sched \<times> i64 option" where
  "pop_ready index tick s =
     (if length (workers s) \<le> index then shared_pop s
      else (case (if tick mod GLOBAL_CHECK_INTERVAL = 0 then shared_pop s else (s, None)) of
              (s1, Some gid) \<Rightarrow> (s1, Some gid)
            | (s1, None) \<Rightarrow>
                (case pop (queue_of s1 index) of
                   (q, Some gid) \<Rightarrow> (put_queue index q s1, Some gid)
                 | (q, None) \<Rightarrow>
                     (case refill_from_shared index (put_queue index q s1) of
                        (s2, Some gid) \<Rightarrow> (s2, Some gid)
                      | (s2, None) \<Rightarrow> steal_from_peers index s2))))"

definition worker_turn :: "nat \<Rightarrow> nat \<Rightarrow> 'o sched \<Rightarrow> 'o sched" where
  "worker_turn w tick s = (let (s1, got) = pop_ready w tick s in on_worker w (\<lambda>wk. wk\<lparr>w_popped := got\<rparr>) s1)"

section \<open>Driving a goroutine\<close>

definition load_state :: "goroutine \<Rightarrow> task_state" where
  "load_state gr =
     \<lparr>ts_park = ParkNone, ts_pending_send = gr_pending_send gr, ts_pending_send_owned = gr_pending_send_owned gr,
      ts_recv_result = gr_recv_result gr, ts_recv_result_owned = gr_recv_result_owned gr,
      ts_recv_ok = gr_recv_ok gr\<rparr>"

definition flush_state :: "(code_ptr \<times> i64) list \<Rightarrow> task_state \<Rightarrow> goroutine \<Rightarrow> goroutine" where
  "flush_state tasks st gr =
     gr\<lparr>gr_tasks := tasks, gr_pending_send := ts_pending_send st,
        gr_pending_send_owned := ts_pending_send_owned st, gr_recv_result := ts_recv_result st,
        gr_recv_result_owned := ts_recv_result_owned st, gr_recv_ok := ts_recv_ok st\<rparr>"

text \<open>The first half of \<open>drive\<close>: a goroutine that is gone is skipped.\<close>

definition drive_begin :: "nat \<Rightarrow> 'o sched \<Rightarrow> 'o sched" where
  "drive_begin w s =
     (case w_popped (workers s ! w) of
        None \<Rightarrow> s
      | Some gid \<Rightarrow>
          (let s1 = on_worker w (\<lambda>wk. wk\<lparr>w_popped := None\<rparr>) s
           in case goroutines (glob s) gid of
                None \<Rightarrow> s1
              | Some gr \<Rightarrow>
                  on_worker w (\<lambda>wk. wk\<lparr>w_state := load_state gr, w_gid := Some gid, w_tasks := gr_tasks gr\<rparr>)
                    (on_glob (gr_update gid (\<lambda>gr. gr\<lparr>gr_tasks := []\<rparr>)) s1)))"

text \<open>What a poll can do to its own suspension state.\<close>

definition park_self :: "nat \<Rightarrow> park \<Rightarrow> 'o sched \<Rightarrow> 'o sched" where
  "park_self w p s =
     (if w_gid (workers s ! w) = None then s
      else on_worker w (\<lambda>wk. wk\<lparr>w_state := (w_state wk)\<lparr>ts_park := p\<rparr>\<rparr>) s)"

definition park_op :: "nat \<Rightarrow> i64 \<Rightarrow> 'o sched \<Rightarrow> 'o sched" where
  "park_op w core s = park_self w (ParkJob core) s"

definition park_timer :: "nat \<Rightarrow> i64 \<Rightarrow> 'o sched \<Rightarrow> 'o sched" where
  "park_timer w deadline s = park_self w (ParkTimer deadline) s"

definition park_fd :: "nat \<Rightarrow> i64 \<Rightarrow> bool \<Rightarrow> 'o sched \<Rightarrow> 'o sched" where
  "park_fd w io rd s = park_self w (ParkFd io rd) s"

definition park_join :: "nat \<Rightarrow> i64 \<Rightarrow> 'o sched \<Rightarrow> 'o sched" where
  "park_join w target s = park_self w (ParkJoin target) s"

definition park_chan_send :: "nat \<Rightarrow> i64 \<Rightarrow> i64 \<Rightarrow> 'o sched \<Rightarrow> 'o sched" where
  "park_chan_send w core val s =
     (if w_gid (workers s ! w) = None then s
      else on_worker w (\<lambda>wk. wk\<lparr>w_state := (w_state wk)\<lparr>ts_pending_send := val, ts_pending_send_owned := False,
        ts_park := ParkChan core Send\<rparr>\<rparr>) s)"

definition park_chan_recv :: "nat \<Rightarrow> i64 \<Rightarrow> 'o sched \<Rightarrow> 'o sched" where
  "park_chan_recv w core s =
     (if w_gid (workers s ! w) = None then s
      else on_worker w (\<lambda>wk. wk\<lparr>w_state := (w_state wk)\<lparr>ts_recv_result := NULL, ts_recv_result_owned := False,
        ts_recv_ok := False, ts_park := ParkChan core Recv\<rparr>\<rparr>) s)"

definition recv_result :: "nat \<Rightarrow> 'o sched \<Rightarrow> 'o sched \<times> i64" where
  "recv_result w s =
     (if w_gid (workers s ! w) = None then (s, NULL)
      else (on_worker w (\<lambda>wk. wk\<lparr>w_state := (w_state wk)\<lparr>ts_recv_result := NULL, ts_recv_result_owned := False\<rparr>\<rparr>) s,
            ts_recv_result (w_state (workers s ! w))))"

definition recv_ok :: "nat \<Rightarrow> 'o sched \<Rightarrow> bool" where
  "recv_ok w s = (if w_gid (workers s ! w) = None then False else ts_recv_ok (w_state (workers s ! w)))"

section \<open>The end of a poll\<close>

definition join_park :: "i64 \<Rightarrow> i64 \<Rightarrow> global \<Rightarrow> global \<times> bool" where
  "join_park gid target g =
     (case goroutines g target of
        None \<Rightarrow> (ready_back [gid] g, True)
      | Some tg \<Rightarrow>
          if gr_done tg
          then (ready_back [gid] (gr_update gid (\<lambda>gr. gr\<lparr>gr_result := gr_result tg\<rparr>) g), True)
          else (gr_update target (\<lambda>gr. gr\<lparr>gr_joiners := gr_joiners gr @ [gid]\<rparr>) g, False))"

definition register_fd :: "i64 \<Rightarrow> i64 \<Rightarrow> bool \<Rightarrow> 'o sched \<Rightarrow> 'o sched" where
  "register_fd io fd rd s =
     (if fd \<le> 0 then s
      else if fd_interests s io = Some (fd, rd) then s
      else s\<lparr>fd_interests := (fd_interests s)(io \<mapsto> (fd, rd))\<rparr>)"

definition park_on_fd :: "i64 \<Rightarrow> i64 \<Rightarrow> bool \<Rightarrow> 'o sched \<Rightarrow> 'o sched" where
  "park_on_fd gid io rd s =
     (case ios (glob s) io of
        None \<Rightarrow> register_fd io 0 rd s
      | Some slot \<Rightarrow>
          register_fd io (io_fd slot) rd
            (on_glob (\<lambda>g. g\<lparr>ios := (ios g)(io \<mapsto> slot\<lparr>io_parked := True, io_waiters := io_waiters slot @ [gid]\<rparr>)\<rparr>) s))"

text \<open>The goroutine finished. \<open>thrown\<close> is the message of an exception that its poll left pending.\<close>

definition finish_done :: "i64 \<Rightarrow> (code_ptr \<times> i64) list \<Rightarrow> i64 \<Rightarrow> goroutine \<Rightarrow> 'o sched \<Rightarrow> 'o sched" where
  "finish_done gid tasks thrown gr s =
     (let gr1 = gr\<lparr>gr_tasks := tasks, gr_done := True, gr_cleanup := None\<rparr>;
          gr2 = (if thrown \<noteq> NULL then gr1\<lparr>gr_pending_exception := thrown\<rparr> else gr1);
          joins = gr_joiners gr2;
          gr3 = gr2\<lparr>gr_joiners := []\<rparr>;
          reclaim = (gr_handle gr3 = NULL \<and> gr_pending_exception gr3 = NULL \<and> joins = []);
          g1 = (glob s)\<lparr>goroutines := (goroutines (glob s))(gid \<mapsto> gr3)\<rparr>;
          g2 = sync_ready_len (ready_back joins g1)
      in if reclaim
         then s\<lparr>glob := g2\<lparr>goroutines := (goroutines g2)(gid := None)\<rparr>,
                regs := remove_goroutine_handle (gr_handle gr3) (regs s)\<rparr>
         else s\<lparr>glob := g2\<rparr>)"

definition finish_park :: "nat \<Rightarrow> i64 \<Rightarrow> park \<Rightarrow> 'o sched \<Rightarrow> 'o sched" where
  "finish_park w gid p s =
     (case p of
        ParkNone \<Rightarrow> make_runnable (Some w) gid (on_glob sync_ready_len s)
      | ParkChan core op \<Rightarrow>
          (let (g, r, woke) = chan_op gid core op (glob s) (regs s) in s\<lparr>glob := sync_ready_len g, regs := r\<rparr>)
      | ParkTimer deadline \<Rightarrow>
          on_glob (\<lambda>g. timers_pending_offset 1 (g\<lparr>timers := timer_push deadline gid (timers g)\<rparr>)) s
      | ParkFd io rd \<Rightarrow> park_on_fd gid io rd s
      | ParkJoin target \<Rightarrow> on_glob (\<lambda>g. sync_ready_len (fst (join_park gid target g))) s
      | ParkJob core \<Rightarrow>
          (case job_ops (glob s) core of
             None \<Rightarrow> make_runnable (Some w) gid (on_glob sync_ready_len s)
           | Some op \<Rightarrow>
               if op_is_done op then make_runnable (Some w) gid (on_glob sync_ready_len s)
               else on_glob (\<lambda>g. sync_ready_len (g\<lparr>job_ops := (job_ops g)(core \<mapsto> op\<lparr>op_waiter := Some gid\<rparr>)\<rparr>)) s))"

text \<open>The second half of \<open>drive\<close>, after the poll.\<close>

definition drive_finish :: "nat \<Rightarrow> i64 \<Rightarrow> 'o sched \<Rightarrow> 'o sched" where
  "drive_finish w thrown s =
     (case w_gid (workers s ! w) of
        None \<Rightarrow> s
      | Some gid \<Rightarrow>
          (let s1 = flush_detached_batch w s;
               tasks = w_tasks (workers s1 ! w);
               st = w_state (workers s1 ! w);
               s2 = on_worker w (\<lambda>wk. wk\<lparr>w_tasks := [], w_gid := None, w_state := TASK_IDLE\<rparr>) s1
           in case goroutines (glob s2) gid of
                None \<Rightarrow> s2
              | Some gr \<Rightarrow>
                  if tasks = [] then finish_done gid tasks thrown gr s2
                  else (let s3 = on_glob (gr_update gid (flush_state tasks st)) s2
                        in if ts_park st = ParkNone then make_runnable (Some w) gid s3
                           else finish_park w gid (ts_park st) s3)))"

section \<open>The reactor\<close>

definition due_timers :: "i64 \<Rightarrow> (i64 \<times> i64 list) list \<Rightarrow> i64 list" where
  "due_timers now ts = concat (map snd (filter (\<lambda>(k, gids). k \<le> now) ts))"

definition fire_timers_and_next :: "i64 \<Rightarrow> 'o sched \<Rightarrow> 'o sched \<times> i64" where
  "fire_timers_and_next now s =
     (if \<not> has_pending_timers (glob s) then (s, -1)
      else (let g = glob s;
                due = due_timers now (timers g);
                rest = filter (\<lambda>(k, gids). now < k) (timers g);
                g1 = timers_pending_offset (- int (length due)) (g\<lparr>timers := rest\<rparr>)
            in (fold (make_runnable None) due (s\<lparr>glob := g1\<rparr>),
                case rest of [] \<Rightarrow> -1 | (deadline, _) # _ \<Rightarrow> max (deadline - now) 1)))"

fun wake_ready_ios :: "i64 list \<Rightarrow> global \<Rightarrow> global" where
  "wake_ready_ios [] g = g"
| "wake_ready_ios (io # rest) g =
     wake_ready_ios rest
       (case ios g io of
          None \<Rightarrow> g
        | Some slot \<Rightarrow>
            (let g1 = ready_back (io_waiters slot)
                   (g\<lparr>ios := (ios g)(io \<mapsto> slot\<lparr>io_is_ready := True, io_parked := False, io_waiters := []\<rparr>)\<rparr>)
             in if io_waiters slot = [] then g1 else sync_ready_len g1))"

definition attach_fd :: "i64 \<Rightarrow> i64 \<Rightarrow> bool \<Rightarrow> 'o sched \<Rightarrow> 'o sched" where
  "attach_fd io fd rd s =
     (let s1 = (case ios (glob s) io of
                  None \<Rightarrow> s
                | Some slot \<Rightarrow> on_glob (\<lambda>g. g\<lparr>ios := (ios g)(io \<mapsto> slot\<lparr>io_fd := fd\<rparr>)\<rparr>) s)
      in s1\<lparr>fd_interests := (if fd \<le> 0 then (fd_interests s1)(io := None)
                              else (fd_interests s1)(io \<mapsto> (fd, rd)))\<rparr>)"

definition detach_fd :: "i64 \<Rightarrow> 'o sched \<Rightarrow> 'o sched" where
  "detach_fd io s = s\<lparr>fd_interests := (fd_interests s)(io := None)\<rparr>"

section \<open>Joining from outside the pool\<close>

datatype join_outcome = Join_Done i64 i64 | Join_Pending | Join_Gone

text \<open>One round of \<open>join_blocking\<close>: the result, and the exception whose ownership passes to the caller.\<close>

definition join_round :: "i64 \<Rightarrow> global \<Rightarrow> global \<times> join_outcome" where
  "join_round gid g =
     (case goroutines g gid of
        None \<Rightarrow> (g, Join_Gone)
      | Some gr \<Rightarrow>
          if gr_done gr
          then (gr_update gid (\<lambda>gr. gr\<lparr>gr_pending_exception := NULL\<rparr>) g, Join_Done (gr_result gr) (gr_pending_exception gr))
          else (g, Join_Pending))"

end
