(* ===== verification/Scheduler_Once.thy ===== *)
theory Scheduler_Once
  imports Scheduler
begin

text \<open>
  A goroutine is in one place at a time. The places are the queues, the workers' hands, and all the
  lists of waiters. Every operation of the scheduler moves ids between places, so an id is never
  queued twice, no two workers ever poll the same goroutine, and nobody wakes a goroutine that is
  not waiting.
\<close>

section \<open>Tokens and places\<close>

definition once :: "('p \<Rightarrow> 'a multiset) \<Rightarrow> bool" where
  "once f \<longleftrightarrow> (\<forall>p x. count (f p) x \<le> 1) \<and> (\<forall>p q x. x \<in># f p \<longrightarrow> x \<in># f q \<longrightarrow> p = q)"

lemma once_sum:
  assumes "once f" "finite A"
  shows "count (\<Sum>p\<in>A. f p) x \<le> 1"
proof (cases "\<exists>p \<in> A. x \<in># f p")
  case True
  then obtain p where p: "p \<in> A" "x \<in># f p" by blast
  have "x \<notin># f q" if "q \<in> A - {p}" for q using assms(1) p(2) that unfolding once_def by blast
  then have "count (f q) x = 0" if "q \<in> A - {p}" for q using that by (simp add: not_in_iff)
  then have "(\<Sum>q\<in>A - {p}. count (f q) x) = 0" by simp
  then have "count (\<Sum>p\<in>A. f p) x = count (f p) x"
    using assms(2) p(1) by (simp add: count_sum sum.remove)
  then show ?thesis using assms(1) by (simp add: once_def)
next
  case False
  then have "(\<Sum>q\<in>A. count (f q) x) = 0" by (simp add: not_in_iff)
  then show ?thesis by (simp add: count_sum)
qed

text \<open>
  Moving tokens around within finitely many places, losing some, and adding fresh ones keeps the
  property.
\<close>

lemma once_redistribute:
  assumes f: "once f" and A: "finite A" and inside: "(\<Sum>p\<in>A. f' p) \<subseteq># (\<Sum>p\<in>A. f p) + N"
    and outside: "\<And>p. p \<notin> A \<Longrightarrow> f' p \<subseteq># f p"
    and fresh: "\<And>x. count N x \<le> 1" "\<And>x p. x \<in># N \<Longrightarrow> x \<notin># f p"
  shows "once f'"
proof -
  have total: "count ((\<Sum>p\<in>A. f p) + N) x \<le> 1" for x
  proof (cases "x \<in># N")
    case True
    then have "count (\<Sum>p\<in>A. f p) x = 0" using fresh(2) A by (simp add: count_sum not_in_iff)
    then show ?thesis using fresh(1) by simp
  next
    case False
    then show ?thesis using once_sum [OF f A] by (simp add: not_in_iff)
  qed
  then have sum': "count (\<Sum>p\<in>A. f' p) x \<le> 1" for x
    using mset_subset_eq_count [OF inside, of x] by (meson order_trans)
  have in_sum: "count (f' p) x \<le> count (\<Sum>p\<in>A. f' p) x" if "p \<in> A" for p x
    using member_le_sum [of p A "\<lambda>a. count (f' a) x"] A that by (simp add: count_sum)
  have source: "x \<in># N \<or> (\<exists>p \<in> A. x \<in># f p)" if "x \<in># f' p" "p \<in> A" for p x
  proof -
    have "x \<in># (\<Sum>p\<in>A. f' p)" using in_sum [OF that(2), of x] that(1) by (metis count_greater_eq_one_iff le_trans)
    then have "x \<in># (\<Sum>p\<in>A. f p) + N" using inside by (meson mset_subset_eqD)
    then show ?thesis using A by (auto simp: set_mset_sum)
  qed
  have "p = q" if x: "x \<in># f' p" "x \<in># f' q" for p q x
  proof (rule ccontr)
    assume ne: "p \<noteq> q"
    consider "p \<notin> A" "q \<notin> A" | "p \<in> A" "q \<in> A" | "p \<in> A" "q \<notin> A" | "p \<notin> A" "q \<in> A" by blast
    then show False
    proof cases
      case 1
      then show False using x outside f ne by (meson mset_subset_eqD once_def)
    next
      case 2
      have "count (f' p) x + count (f' q) x \<le> count (\<Sum>p\<in>A. f' p) x"
        using sum_mono2 [of A "{p, q}" "\<lambda>p. count (f' p) x"] A 2 ne by (simp add: count_sum)
      moreover have "1 \<le> count (f' p) x" "1 \<le> count (f' q) x" using x by simp_all
      ultimately show False using sum' [of x] by linarith
    next
      case 3
      then show False using source [OF x(1)] outside [OF 3(2)] x(2) fresh(2) f ne
        by (metis mset_subset_eqD once_def)
    next
      case 4
      then show False using source [OF x(2)] outside [OF 4(1)] x(1) fresh(2) f ne
        by (metis mset_subset_eqD once_def)
    qed
  qed
  moreover have "count (f' p) x \<le> 1" for p x
  proof (cases "p \<in> A")
    case True
    then show ?thesis using in_sum [of p x] sum' [of x] by linarith
  next
    case False
    then show ?thesis using mset_subset_eq_count [OF outside [OF False], of x] f
      by (meson once_def order_trans)
  qed
  ultimately show ?thesis by (auto simp: once_def)
qed

definition tidy :: "int \<Rightarrow> ('p \<Rightarrow> int multiset) \<Rightarrow> bool" where
  "tidy n f \<longleftrightarrow> once f \<and> (\<forall>p x. x \<in># f p \<longrightarrow> 0 < x \<and> x < n)"

lemma tidy_redistribute:
  assumes f: "tidy n f" and A: "finite A" and inside: "(\<Sum>p\<in>A. f' p) \<subseteq># (\<Sum>p\<in>A. f p)"
    and outside: "\<And>p. p \<notin> A \<Longrightarrow> f' p \<subseteq># f p"
  shows "tidy n f'"
proof -
  have "once f'" using once_redistribute [OF _ A, of f f' "{#}"] f inside outside by (simp add: tidy_def)
  moreover have "\<exists>q. x \<in># f q" if "x \<in># f' p" for p x
  proof (cases "p \<in> A")
    case True
    then have "x \<in># (\<Sum>p\<in>A. f' p)" using A that by (auto simp: set_mset_sum)
    then have "x \<in># (\<Sum>p\<in>A. f p)" using inside by (meson mset_subset_eqD)
    then show ?thesis using A by (auto simp: set_mset_sum)
  next
    case False
    then show ?thesis using outside that by (meson mset_subset_eqD)
  qed
  ultimately show ?thesis using f unfolding tidy_def by blast
qed

lemma tidy_fresh:
  assumes f: "tidy n f" and n: "0 < n" "n \<le> n'" and N: "\<And>x. x \<in># N \<Longrightarrow> n \<le> x \<and> x < n'" "\<And>x. count N x \<le> 1"
    and f': "f' p = f p + N" "\<And>q. q \<noteq> p \<Longrightarrow> f' q \<subseteq># f q"
  shows "tidy n' f'"
proof -
  have "once f'"
  proof (rule once_redistribute [where A = "{p}" and N = N and f = f])
    show "x \<notin># f q" if "x \<in># N" for x q using f N(1) [OF that] unfolding tidy_def by (metis leD)
  qed (use f f' N(2) in \<open>auto simp: tidy_def\<close>)
  moreover have "0 < x \<and> x < n'" if "x \<in># f' q" for q x
  proof (cases "x \<in># N")
    case False
    then have "x \<in># f q" using that f' by (cases "q = p") (auto dest: mset_subset_eqD)
    then show ?thesis using f n unfolding tidy_def by (meson less_le_trans)
  qed (use N n in force)
  ultimately show ?thesis by (simp add: tidy_def)
qed

section \<open>The places of the scheduler\<close>

text \<open>
  \<open>PLimbo\<close> holds the ids an operation has taken from one place and not yet put into another.
\<close>

datatype place =
    PLimbo | PReady | PTimers
  | PQueue nat | PPopped nat | PRun nat | PBatch nat | PReserved nat
  | PIo i64 | PJob i64 | PChan i64 | PJoin i64

definition opt_mset :: "'a option \<Rightarrow> 'a multiset" where
  "opt_mset x = (case x of None \<Rightarrow> {#} | Some y \<Rightarrow> {#y#})"

lemma opt_mset_simps [simp]: "opt_mset None = {#}" "opt_mset (Some x) = {#x#}"
  by (simp_all add: opt_mset_def)

fun worker_place :: "worker list \<Rightarrow> place \<Rightarrow> i64 multiset" where
  "worker_place ws (PQueue w) = (if w < length ws then mset (rq_all (w_queue (ws ! w))) else {#})"
| "worker_place ws (PPopped w) = (if w < length ws then opt_mset (w_popped (ws ! w)) else {#})"
| "worker_place ws (PRun w) = (if w < length ws then opt_mset (w_gid (ws ! w)) else {#})"
| "worker_place ws (PBatch w) = (if w < length ws then mset (map fst (w_batch (ws ! w))) else {#})"
| "worker_place ws (PReserved w) =
     (if w < length ws then mset (map (\<lambda>k. fst (w_range (ws ! w)) + int k) [0..<snd (w_range (ws ! w))]) else {#})"
| "worker_place ws _ = {#}"

fun global_place :: "global \<Rightarrow> place \<Rightarrow> i64 multiset" where
  "global_place g PReady = mset (ready g)"
| "global_place g PTimers = mset (concat (map snd (timers g)))"
| "global_place g (PIo io) = (case ios g io of None \<Rightarrow> {#} | Some slot \<Rightarrow> mset (io_waiters slot))"
| "global_place g (PJob core) = (case job_ops g core of None \<Rightarrow> {#} | Some op \<Rightarrow> opt_mset (op_waiter op))"
| "global_place g (PChan core) = (case chans g core of None \<Rightarrow> {#} | Some c \<Rightarrow> mset (chan_waiting c))"
| "global_place g (PJoin target) = (case goroutines g target of None \<Rightarrow> {#} | Some gr \<Rightarrow> mset (gr_joiners gr))"
| "global_place g _ = {#}"

definition at_place :: "i64 multiset \<Rightarrow> global \<Rightarrow> worker list \<Rightarrow> place \<Rightarrow> i64 multiset" where
  "at_place M g ws p = (if p = PLimbo then M else worker_place ws p + global_place g p)"

definition workers_ok :: "worker list \<Rightarrow> bool" where
  "workers_ok ws \<longleftrightarrow>
     (\<forall>wk \<in> set ws. rq_inv (w_queue wk) \<and> (\<forall>(gid, gr) \<in> set (w_batch wk). gr_joiners gr = []))"

definition sched_ok :: "i64 multiset \<Rightarrow> global \<Rightarrow> worker list \<Rightarrow> bool" where
  "sched_ok M g ws \<longleftrightarrow> tidy (next_core g) (at_place M g ws) \<and> workers_ok ws \<and> 0 < next_core g \<and> next_core g \<le> i64_max"

lemma sched_ok_workers: "sched_ok M g ws \<Longrightarrow> workers_ok ws"
  by (simp add: sched_ok_def)

lemma sched_okI:
  assumes "sched_ok M g ws" "next_core g' = next_core g" "workers_ok ws'" "finite A"
    and "(\<Sum>p\<in>A. at_place M' g' ws' p) \<subseteq># (\<Sum>p\<in>A. at_place M g ws p)"
    and "\<And>p. p \<notin> A \<Longrightarrow> at_place M' g' ws' p \<subseteq># at_place M g ws p"
  shows "sched_ok M' g' ws'"
  using assms tidy_redistribute [of "next_core g" "at_place M g ws" A "at_place M' g' ws'"]
  by (simp add: sched_ok_def)

text \<open>Changes of one place: \<open>A\<close> is that place and the limbo.\<close>

lemma sched_ok_move:
  assumes "sched_ok M g ws" "next_core g' = next_core g" "workers_ok ws'" "q \<noteq> PLimbo"
    and "M' + at_place M' g' ws' q \<subseteq># M + at_place M g ws q"
    and "\<And>p. p \<noteq> q \<Longrightarrow> p \<noteq> PLimbo \<Longrightarrow> worker_place ws' p + global_place g' p \<subseteq># worker_place ws p + global_place g p"
  shows "sched_ok M' g' ws'"
  by (rule sched_okI [OF assms(1-3), where A = "{PLimbo, q}"])
    (use assms(4-6) in \<open>auto simp: at_place_def\<close>)

lemma sched_ok_frame:
  assumes "sched_ok M g ws" "next_core g' = next_core g" "workers_ok ws'" "M' \<subseteq># M"
    and "\<And>p. worker_place ws' p + global_place g' p \<subseteq># worker_place ws p + global_place g p"
  shows "sched_ok M' g' ws'"
  by (rule sched_okI [OF assms(1-3), where A = "{}"]) (use assms(4,5) in \<open>auto simp: at_place_def\<close>)

lemma sched_ok_move_glob:
  assumes "sched_ok M g ws" "next_core g' = next_core g" "q \<noteq> PLimbo"
    and "M' + global_place g' q \<subseteq># M + global_place g q"
    and "\<And>p. p \<noteq> q \<Longrightarrow> global_place g' p \<subseteq># global_place g p"
  shows "sched_ok M' g' ws"
  by (rule sched_ok_move [OF assms(1,2) sched_ok_workers [OF assms(1)] assms(3)])
    (use assms(3-5) in \<open>auto simp: at_place_def union_lcomm\<close>)

lemma sched_ok_frame_glob:
  assumes "sched_ok M g ws" "next_core g' = next_core g" "M' \<subseteq># M"
    and "\<And>p. global_place g' p \<subseteq># global_place g p"
  shows "sched_ok M' g' ws"
  by (rule sched_ok_frame [OF assms(1,2) sched_ok_workers [OF assms(1)] assms(3)]) (use assms(4) in auto)

lemma global_place_ready_back: "global_place (ready_back gs g) p = (if p = PReady then mset gs else {#}) + global_place g p"
  by (cases p) simp_all

lemma global_place_sync [simp]: "global_place (sync_ready_len g) p = global_place g p"
  by (cases p) simp_all

lemma global_place_put_chan:
  "global_place (put_chan core c g) p = (if p = PChan core then mset (chan_waiting c) else global_place g p)"
  by (cases p) simp_all

lemma global_place_gr_update:
  assumes "\<And>gr. gr_joiners (f gr) = gr_joiners gr"
  shows "global_place (gr_update gid f g) p = global_place g p"
  using assms by (cases p) (auto simp: goroutines_gr_update split: option.split)

lemma ready_back_ok: "sched_ok (M + mset gs) g ws \<Longrightarrow> sched_ok M (ready_back gs g) ws"
  by (erule sched_ok_move_glob [where q = PReady]) (auto simp: global_place_ready_back)

lemma sync_ok: "sched_ok M g ws \<Longrightarrow> sched_ok M (sync_ready_len g) ws"
  by (erule sched_ok_frame_glob) auto

lemma gr_update_ok:
  "sched_ok M g ws \<Longrightarrow> (\<And>gr. gr_joiners (f gr) = gr_joiners gr) \<Longrightarrow> sched_ok M (gr_update gid f g) ws"
  by (erule sched_ok_frame_glob) (auto simp: global_place_gr_update)

lemma put_chan_ok:
  assumes "sched_ok M g ws" "M' + mset (chan_waiting c') \<subseteq># M + global_place g (PChan core)"
  shows "sched_ok M' (put_chan core c' g) ws"
  by (rule sched_ok_move_glob [OF assms(1), where q = "PChan core"])
    (use assms(2) in \<open>auto simp: global_place_put_chan\<close>)

section \<open>Channels\<close>

lemma joiners_kept [simp]:
  "gr_joiners (clear_send gr) = gr_joiners gr" "gr_joiners (got_value v owns gr) = gr_joiners gr"
  "gr_joiners (got_nothing gr) = gr_joiners gr"
  by (simp_all add: clear_send_def got_value_def got_nothing_def)

lemma chan_send_ok:
  assumes ok: "sched_ok (add_mset gid M) g ws" and send: "chan_send gid core g r = (g', r', woke)"
  shows "sched_ok M g' ws"
proof -
  have bk: "sched_ok M (ready_back [gid] (gr_update gid clear_send g1)) ws" if "sched_ok (add_mset gid M) g1 ws" for g1
    by (rule ready_back_ok) (use that in \<open>simp add: gr_update_ok\<close>)
  show ?thesis
  proof (cases "chans g core")
    case None
    then show ?thesis using send ok bk by (auto simp: chan_send_def)
  next
    case (Some c)
    show ?thesis
    proof (cases "ch_closed c")
      case True
      then show ?thesis using send ok bk Some by (auto simp: chan_send_def)
    next
      case False
      show ?thesis
      proof (cases "ch_receivers c")
        case (Cons rcv rs)
        have "sched_ok (add_mset rcv (add_mset gid M)) (put_chan core (c\<lparr>ch_receivers := rs\<rparr>) g) ws"
          by (rule put_chan_ok [OF ok]) (simp add: Some chan_waiting_def Cons)
        then have "sched_ok (M + mset [gid] + mset [rcv]) (gr_update gid clear_send
            (gr_update rcv (got_value (sending g gid) (ch_owns_elements c)) (put_chan core (c\<lparr>ch_receivers := rs\<rparr>) g))) ws"
          by (auto intro!: gr_update_ok simp: add_mset_commute)
        from ready_back_ok [OF ready_back_ok [OF this]] show ?thesis
          using send Some False Cons by (auto simp: chan_send_def Let_def)
      next
        case Nil
        show ?thesis
        proof (cases "0 < ch_cap c \<and> length (ch_buf c) < ch_cap c")
          case True
          have "sched_ok (add_mset gid M) (put_chan core (c\<lparr>ch_buf := ch_buf c @ [sending g gid]\<rparr>) g) ws"
            by (rule put_chan_ok [OF ok]) (simp add: Some chan_waiting_def)
          from bk [OF this] show ?thesis using send Some False Nil True by (auto simp: chan_send_def Let_def)
        next
          case full: False
          let ?g = "gr_update gid (\<lambda>gr. gr\<lparr>gr_pending_send_owned := ch_owns_elements c\<rparr>) g"
          have "sched_ok (add_mset gid M) ?g ws" using ok by (rule gr_update_ok) simp
          then have "sched_ok M (put_chan core (c\<lparr>ch_senders := ch_senders c @ [gid]\<rparr>) ?g) ws"
            by (rule put_chan_ok) (simp add: Some chan_waiting_def)
          then show ?thesis using send Some False Nil full by (auto simp: chan_send_def Let_def)
        qed
      qed
    qed
  qed
qed

lemma chan_recv_ok:
  assumes ok: "sched_ok (add_mset gid M) g ws" and recv: "chan_recv gid core g = (g', woke)"
  shows "sched_ok M g' ws"
proof -
  have bk: "sched_ok M (ready_back [gid] g1) ws" if "sched_ok (add_mset gid M) g1 ws" for g1
    by (rule ready_back_ok) (use that in simp)
  have bk2: "sched_ok M (ready_back [gid] (ready_back [s] g1)) ws" if "sched_ok (add_mset s (add_mset gid M)) g1 ws" for s g1
    by (rule ready_back_ok, rule ready_back_ok) (use that in \<open>simp add: add_mset_commute\<close>)
  show ?thesis
  proof (cases "chans g core")
    case None
    then show ?thesis using recv ok by (auto simp: chan_recv_def intro!: bk gr_update_ok)
  next
    case (Some c)
    show ?thesis
    proof (cases "ch_buf c")
      case (Cons v vs)
      show ?thesis
      proof (cases "ch_senders c")
        case Nil
        have "sched_ok (add_mset gid M) (put_chan core (c\<lparr>ch_buf := vs\<rparr>) g) ws"
          by (rule put_chan_ok [OF ok]) (simp add: Some chan_waiting_def)
        then show ?thesis using recv Some Cons Nil by (auto simp: chan_recv_def Let_def intro!: bk gr_update_ok)
      next
        case (Cons s ss)
        let ?g = "gr_update s clear_send (gr_update gid (got_value v (ch_owns_elements c)) (put_chan core (c\<lparr>ch_buf := vs\<rparr>) g))"
        have "sched_ok (add_mset gid M) (put_chan core (c\<lparr>ch_buf := vs\<rparr>) g) ws"
          by (rule put_chan_ok [OF ok]) (simp add: Some chan_waiting_def)
        then have "sched_ok (add_mset gid M) ?g ws" by (auto intro!: gr_update_ok)
        then have "sched_ok (add_mset s (add_mset gid M))
            (put_chan core (c\<lparr>ch_senders := ss, ch_buf := vs @ [sending g s]\<rparr>) ?g) ws"
          by (rule put_chan_ok) (simp add: chan_waiting_def global_place_gr_update global_place_put_chan Cons)
        from bk2 [OF this] show ?thesis
          using recv Some \<open>ch_buf c = v # vs\<close> Cons by (auto simp: chan_recv_def Let_def)
      qed
    next
      case Nil
      show ?thesis
      proof (cases "ch_senders c")
        case (Cons s ss)
        have "sched_ok (add_mset s (add_mset gid M)) (put_chan core (c\<lparr>ch_senders := ss\<rparr>) g) ws"
          by (rule put_chan_ok [OF ok]) (simp add: Some chan_waiting_def Cons)
        then show ?thesis using recv Some Nil Cons
          by (auto simp: chan_recv_def Let_def intro!: bk2 gr_update_ok)
      next
        case none: Nil
        have "sched_ok M (put_chan core (c\<lparr>ch_receivers := ch_receivers c @ [gid]\<rparr>) g) ws"
          by (rule put_chan_ok [OF ok]) (simp add: Some chan_waiting_def)
        then show ?thesis using recv Some Nil none ok
          by (auto simp: chan_recv_def intro!: bk gr_update_ok split: if_splits)
      qed
    qed
  qed
qed

lemma close_receivers_ok:
  "sched_ok (mset (map fst ps) + M) g ws \<Longrightarrow> close_receivers owns ps g = (g', ab) \<Longrightarrow> sched_ok M g' ws"
proof (induction ps arbitrary: g ab)
  case (Cons p ps)
  obtain rcv got where p: "p = (rcv, got)" by fastforce
  define g1 where "g1 = (case got of Some v \<Rightarrow> gr_update rcv (got_value v owns) g | None \<Rightarrow> gr_update rcv got_nothing g)"
  have "sched_ok (mset (map fst ps) + M + mset [rcv]) g1 ws"
    using Cons.prems(1) by (auto simp: g1_def p intro!: gr_update_ok split: option.split)
  then have "sched_ok (mset (map fst ps) + M) (ready_back [rcv] g1) ws" by (rule ready_back_ok)
  moreover obtain ab' where "close_receivers owns ps (ready_back [rcv] g1) = (g', ab')"
    using Cons.prems(2) by (auto simp: p g1_def Let_def split: prod.splits)
  ultimately show ?case using Cons.IH by blast
qed simp

lemma close_senders_ok:
  "sched_ok (mset ss + M) g ws \<Longrightarrow> close_senders ss g = (g', ab) \<Longrightarrow> sched_ok M g' ws"
proof (induction ss arbitrary: g ab)
  case (Cons s ss)
  have "sched_ok (mset ss + M + mset [s]) (gr_update s clear_send g) ws"
    using Cons.prems(1) by (auto intro!: gr_update_ok)
  then have "sched_ok (mset ss + M) (ready_back [s] (gr_update s clear_send g)) ws" by (rule ready_back_ok)
  moreover obtain ab' where "close_senders ss (ready_back [s] (gr_update s clear_send g)) = (g', ab')"
    using Cons.prems(2) by (auto simp: Let_def split: prod.splits)
  ultimately show ?case using Cons.IH by blast
qed simp

lemma drain_pairs_fst: "drain_pairs rs b = (ps, b') \<Longrightarrow> map fst ps = rs"
  by (induction rs arbitrary: b ps b') (auto split: list.splits prod.splits)

lemma chan_close_ok:
  assumes ok: "sched_ok M g ws" and close: "chan_close core g r = (g', r')"
  shows "sched_ok M g' ws"
proof (cases "\<exists>c. chans g core = Some c \<and> \<not> ch_closed c")
  case True
  then obtain c where c: "chans g core = Some c" "\<not> ch_closed c" by blast
  obtain drained rest where d: "drain_pairs (ch_receivers c) (ch_buf c) = (drained, rest)" by fastforce
  let ?g1 = "put_chan core (c\<lparr>ch_closed := True, ch_receivers := [], ch_senders := [], ch_buf := rest\<rparr>) g"
  obtain g2 ab1 where r2: "close_receivers (ch_owns_elements c) drained ?g1 = (g2, ab1)" by fastforce
  obtain g3 ab2 where r3: "close_senders (ch_senders c) g2 = (g3, ab2)" by fastforce
  have "sched_ok (mset (map fst drained) + (mset (ch_senders c) + M)) ?g1 ws"
    by (rule put_chan_ok [OF ok]) (simp add: c chan_waiting_def drain_pairs_fst [OF d])
  from close_senders_ok [OF close_receivers_ok [OF this r2] r3] have "sched_ok M (sync_ready_len g3) ws" by (rule sync_ok)
  then show ?thesis using close c d r2 r3 by (auto simp: chan_close_def Let_def)
next
  case False
  then have "g' = g" using close by (auto simp: chan_close_def split: option.splits)
  then show ?thesis using ok by simp
qed

section \<open>Joins, jobs, timers and descriptors\<close>

lemma global_place_joiners:
  assumes "\<And>p. p \<noteq> PJoin target \<Longrightarrow> global_place g' p = global_place g p"
    and "sched_ok M g ws" "next_core g' = next_core g"
    and "M' + global_place g' (PJoin target) \<subseteq># M + global_place g (PJoin target)"
  shows "sched_ok M' g' ws"
  by (rule sched_ok_move_glob [OF assms(2,3), where q = "PJoin target"]) (use assms in auto)

lemma join_park_ok:
  assumes ok: "sched_ok (add_mset gid M) g ws"
  shows "sched_ok M (fst (join_park gid target g)) ws"
proof (cases "goroutines g target")
  case None
  then show ?thesis using ok by (simp add: join_park_def ready_back_ok)
next
  case (Some tg)
  show ?thesis
  proof (cases "gr_done tg")
    case True
    then show ?thesis using ok Some by (auto simp: join_park_def intro!: ready_back_ok gr_update_ok)
  next
    case False
    let ?g = "gr_update target (\<lambda>gr. gr\<lparr>gr_joiners := gr_joiners gr @ [gid]\<rparr>) g"
    have "sched_ok M ?g ws"
    proof (rule global_place_joiners [OF _ ok, where target = target])
      show "global_place ?g p = global_place g p" if "p \<noteq> PJoin target" for p
        using that by (cases p) (auto simp: goroutines_gr_update)
      show "M + global_place ?g (PJoin target) \<subseteq># add_mset gid M + global_place g (PJoin target)"
        using Some by (simp add: goroutines_gr_update)
    qed simp
    then show ?thesis using Some False by (simp add: join_park_def)
  qed
qed

lemma job_wait_ok:
  assumes ok: "sched_ok (add_mset gid M) g ws" and op: "job_ops g core = Some op"
  shows "sched_ok M (g\<lparr>job_ops := (job_ops g)(core \<mapsto> op\<lparr>op_waiter := Some gid\<rparr>)\<rparr>) ws"
proof (rule sched_ok_move_glob [OF ok, where q = "PJob core"])
  show "global_place (g\<lparr>job_ops := (job_ops g)(core \<mapsto> op\<lparr>op_waiter := Some gid\<rparr>)\<rparr>) p \<subseteq># global_place g p"
    if "p \<noteq> PJob core" for p using that by (cases p) auto
qed simp_all

lemma complete_op_ok:
  assumes ok: "sched_ok M g ws"
  shows "sched_ok M (fst (complete_op core res g)) ws"
proof (cases "job_ops g core")
  case (Some op)
  let ?g = "g\<lparr>job_ops := (job_ops g)(core \<mapsto> op\<lparr>op_value := res, op_is_done := True, op_waiter := None\<rparr>)\<rparr>"
  have "sched_ok (M + opt_mset (op_waiter op)) ?g ws"
  proof (rule sched_ok_move_glob [OF ok, where q = "PJob core"])
    show "global_place ?g p \<subseteq># global_place g p" if "p \<noteq> PJob core" for p using that by (cases p) auto
  qed (simp_all add: Some)
  then show ?thesis using Some
    by (cases "op_waiter op") (auto simp: complete_op_def Let_def intro!: sync_ok ready_back_ok)
qed (use ok in \<open>simp add: complete_op_def\<close>)

lemma mset_timer_push: "mset (concat (map snd (timer_push d gid ts))) = add_mset gid (mset (concat (map snd ts)))"
  by (induction d gid ts rule: timer_push.induct) auto

lemma timer_park_ok:
  assumes "sched_ok (add_mset gid M) g ws"
  shows "sched_ok M (timers_pending_offset d (g\<lparr>timers := timer_push deadline gid (timers g)\<rparr>)) ws"
proof (rule sched_ok_move_glob [OF assms, where q = PTimers])
  show "global_place (timers_pending_offset d (g\<lparr>timers := timer_push deadline gid (timers g)\<rparr>)) p \<subseteq># global_place g p"
    if "p \<noteq> PTimers" for p using that by (cases p) (auto simp: timers_pending_offset_def)
qed (simp_all add: timers_pending_offset_def mset_timer_push)

lemma mset_due_timers:
  "mset (due_timers now ts) + mset (concat (map snd (filter (\<lambda>(k, gids). now < k) ts))) = mset (concat (map snd ts))"
  by (induction ts) (auto simp: due_timers_def)

lemma timers_taken_ok:
  assumes "sched_ok M g ws"
  shows "sched_ok (M + mset (due_timers now (timers g)))
    (timers_pending_offset d (g\<lparr>timers := filter (\<lambda>(k, gids). now < k) (timers g)\<rparr>)) ws"
proof (rule sched_ok_move_glob [OF assms, where q = PTimers])
  show "global_place (timers_pending_offset d (g\<lparr>timers := filter (\<lambda>(k, gids). now < k) (timers g)\<rparr>)) p \<subseteq># global_place g p"
    if "p \<noteq> PTimers" for p using that by (cases p) (auto simp: timers_pending_offset_def)
qed (simp_all add: timers_pending_offset_def flip: mset_due_timers [of now "timers g"])

lemma io_slot_ok:
  assumes "sched_ok M g ws" "M' + mset (io_waiters slot') \<subseteq># M + global_place g (PIo io)"
  shows "sched_ok M' (g\<lparr>ios := (ios g)(io \<mapsto> slot')\<rparr>) ws"
proof (rule sched_ok_move_glob [OF assms(1), where q = "PIo io"])
  show "global_place (g\<lparr>ios := (ios g)(io \<mapsto> slot')\<rparr>) p \<subseteq># global_place g p" if "p \<noteq> PIo io" for p
    using that by (cases p) auto
qed (use assms(2) in simp_all)

lemma wake_ready_ios_ok: "sched_ok M g ws \<Longrightarrow> sched_ok M (wake_ready_ios xs g) ws"
proof (induction xs arbitrary: g)
  case (Cons io xs)
  show ?case
  proof (cases "ios g io")
    case (Some slot)
    let ?g = "g\<lparr>ios := (ios g)(io \<mapsto> slot\<lparr>io_is_ready := True, io_parked := False, io_waiters := []\<rparr>)\<rparr>"
    have "sched_ok (M + mset (io_waiters slot)) ?g ws" by (rule io_slot_ok [OF Cons.prems]) (simp add: Some)
    then have "sched_ok M (ready_back (io_waiters slot) ?g) ws" by (rule ready_back_ok)
    then show ?thesis using Some Cons.IH sync_ok by (cases "io_waiters slot = []") (simp_all add: Let_def)
  qed (use Cons in simp)
qed simp

section \<open>Dropping\<close>

lemma concat_forget_timers:
  "concat (map snd (forget_timers core ts)) = filter (\<lambda>gid. gid \<noteq> core) (concat (map snd ts))"
  by (induction ts) (auto simp: forget_timers_def)

lemma mset_forget_timers: "mset (concat (map snd (forget_timers core ts))) \<subseteq># mset (concat (map snd ts))"
  by (simp add: concat_forget_timers)

lemma drop_goroutine_ok:
  assumes ok: "sched_ok M g ws"
  shows "sched_ok M (fst (drop_goroutine core g r)) ws"
proof (rule sched_ok_frame_glob [OF ok])
  show "global_place (fst (drop_goroutine core g r)) p \<subseteq># global_place g p" for p
  proof (cases p)
    case PTimers
    then show ?thesis using mset_forget_timers [of core "timers g"]
      by (simp add: drop_goroutine_def Let_def timers_pending_offset_def split: option.split)
  next
    case (PIo io)
    then show ?thesis
      by (auto simp: drop_goroutine_def Let_def timers_pending_offset_def update_all_def forget_io_def split: option.split)
  next
    case (PJob j)
    then show ?thesis
      by (auto simp: drop_goroutine_def Let_def timers_pending_offset_def update_all_def forget_op_def split: option.split)
  next
    case (PChan c)
    then show ?thesis
      by (auto simp: drop_goroutine_def Let_def timers_pending_offset_def update_all_def forget_chan_def chan_waiting_def
          intro: subset_mset.add_mono split: option.split)
  qed (auto simp: drop_goroutine_def Let_def timers_pending_offset_def split: option.split)
qed (auto simp: drop_goroutine_def Let_def timers_pending_offset_def split: option.split)

lemma drop_tables_ok:
  assumes ok: "sched_ok M g ws"
  shows "sched_ok M (fst (drop_chan core g r)) ws" "sched_ok M (drop_io core g) ws"
    "sched_ok M (fst (drop_op core g r)) ws" "sched_ok M (fst (op_result core g)) ws"
    "sched_ok M (fst (io_ready core g)) ws"
proof -
  have chan: "global_place (fst (drop_chan core g r)) p \<subseteq># global_place g p" for p
    by (cases p) (auto simp: drop_chan_def split: option.split)
  have io: "global_place (drop_io core g) p \<subseteq># global_place g p" for p
    by (cases p) (auto simp: drop_io_def split: option.split)
  have op: "global_place (fst (drop_op core g r)) p \<subseteq># global_place g p" for p
    by (cases p) (auto simp: drop_op_def split: option.split)
  have res: "global_place (fst (op_result core g)) p \<subseteq># global_place g p" for p
    by (cases p) (auto simp: op_result_def split: option.split)
  have rdy: "global_place (fst (io_ready core g)) p \<subseteq># global_place g p" for p
    by (cases p) (auto simp: io_ready_def split: option.split)
  note fr = sched_ok_frame_glob [OF ok _ subset_mset.order_refl]
  show "sched_ok M (fst (drop_chan core g r)) ws" by (rule fr [OF _ chan]) (simp add: drop_chan_def split: option.split)
  show "sched_ok M (drop_io core g) ws" by (rule fr [OF _ io]) (simp add: drop_io_def)
  show "sched_ok M (fst (drop_op core g r)) ws" by (rule fr [OF _ op]) (simp add: drop_op_def split: option.split)
  show "sched_ok M (fst (op_result core g)) ws" by (rule fr [OF _ res]) (simp add: op_result_def split: option.split)
  show "sched_ok M (fst (io_ready core g)) ws" by (rule fr [OF _ rdy]) (simp add: io_ready_def split: option.split)
qed

section \<open>Registration\<close>

text \<open>Ids are fresh as long as the counter has not reached its maximum.\<close>

lemma take_core_ok:
  assumes ok: "sched_ok M g ws" and room: "next_core g < i64_max" and take: "take_core g = (g', core)"
  shows "sched_ok (add_mset core M) g' ws" "core = next_core g" "next_core g' = next_core g + 1"
proof -
  have n: "0 < next_core g" using ok by (simp add: sched_ok_def)
  show c: "core = next_core g" and n': "next_core g' = next_core g + 1"
    using take room n by (auto simp: take_core_def saturating_add_i64_def i64_max_def i64_min_def)
  have same: "global_place g' p = global_place g p" for p using take by (cases p) (auto simp: take_core_def)
  have "tidy (next_core g') (at_place (add_mset core M) g' ws)"
    by (rule tidy_fresh [where n = "next_core g" and f = "at_place M g ws" and N = "{#core#}" and p = PLimbo])
      (use ok n c n' in \<open>auto simp: sched_ok_def at_place_def same\<close>)
  then show "sched_ok (add_mset core M) g' ws" using ok n n' room by (simp add: sched_ok_def)
qed

lemma add_goroutine_ok:
  assumes ok: "sched_ok M g ws" and j: "gr_joiners gr = []"
  shows "sched_ok M (g\<lparr>goroutines := (goroutines g)(core \<mapsto> gr)\<rparr>) ws"
proof (rule sched_ok_frame_glob [OF ok])
  show "global_place (g\<lparr>goroutines := (goroutines g)(core \<mapsto> gr)\<rparr>) p \<subseteq># global_place g p" for p
    using j by (cases p) auto
qed simp_all

lemma register_goroutine_ok:
  assumes "sched_ok M g ws" "next_core g < i64_max" "gr_joiners gr = []" "register_goroutine gr g = (g', core)"
  shows "sched_ok (add_mset core M) g' ws"
  using assms(4) take_core_ok(1) [OF assms(1,2)] add_goroutine_ok [OF _ assms(3)]
  by (auto simp: register_goroutine_def split: prod.splits)

lemma register_goroutine_runnable_ok:
  assumes "sched_ok M g ws" "next_core g < i64_max" "gr_joiners gr = []"
  shows "sched_ok M (fst (register_goroutine_runnable gr g)) ws"
  using take_core_ok(1) [OF assms(1,2)] add_goroutine_ok [OF _ assms(3)]
  by (auto simp: register_goroutine_runnable_def intro!: sync_ok ready_back_ok split: prod.splits)

lemma register_tables_ok:
  assumes ok: "sched_ok M g ws" and room: "next_core g < i64_max"
  shows "sched_ok M (fst (register_chan capacity owns g)) ws" "sched_ok M (fst (register_io g)) ws"
    "sched_ok M (fst (register_op g)) ws"
proof -
  obtain g1 core where t: "take_core g = (g1, core)" by fastforce
  have ok1: "sched_ok M g1 ws"
    by (rule sched_ok_frame_glob [OF take_core_ok(1) [OF ok room t]]) auto
  have chan: "sched_ok M (g1\<lparr>chans := (chans g1)(core \<mapsto> chan_new capacity owns)\<rparr>) ws"
    using put_chan_ok [OF ok1, of M "chan_new capacity owns" core] by (simp add: put_chan_def chan_waiting_def chan_new_def)
  then show "sched_ok M (fst (register_chan capacity owns g)) ws" using t by (simp add: register_chan_def)
  show "sched_ok M (fst (register_io g)) ws" using io_slot_ok [OF ok1] t by (simp add: register_io_def)
  let ?g = "g1\<lparr>job_ops := (job_ops g1)(core \<mapsto> \<lparr>op_waiter = None, op_value = NULL, op_is_done = False\<rparr>)\<rparr>"
  have "sched_ok M ?g ws"
  proof (rule sched_ok_frame_glob [OF ok1])
    show "global_place ?g p \<subseteq># global_place g1 p" for p by (cases p) auto
  qed simp_all
  then show "sched_ok M (fst (register_op g)) ws" using t by (simp add: register_op_def)
qed

section \<open>Workers\<close>

definition ok :: "i64 multiset \<Rightarrow> 'o sched \<Rightarrow> bool" where
  "ok M s \<longleftrightarrow> sched_ok M (glob s) (workers s)"

lemma ok_glob: "sched_ok M (f (glob s)) (workers s) \<Longrightarrow> ok M (on_glob f s)"
  by (simp add: ok_def on_glob_def)

lemma ok_regs [simp]: "ok M (s\<lparr>regs := r\<rparr>) = ok M s" "ok M (s\<lparr>fd_interests := i\<rparr>) = ok M s"
  by (simp_all add: ok_def)

lemma length_on_worker [simp]:
  "length (workers (on_worker w f s)) = length (workers s)" "glob (on_worker w f s) = glob s"
  by (simp_all add: on_worker_def)

lemma workers_ok_update:
  "workers_ok ws \<Longrightarrow> rq_inv (w_queue wk) \<Longrightarrow> (\<forall>(gid, gr) \<in> set (w_batch wk). gr_joiners gr = []) \<Longrightarrow>
    workers_ok (ws[w := wk])"
  unfolding workers_ok_def by (auto dest!: set_update_subset_insert [THEN subsetD])

lemma workers_okD:
  "workers_ok ws \<Longrightarrow> w < length ws \<Longrightarrow>
    rq_inv (w_queue (ws ! w)) \<and> (\<forall>(gid, gr) \<in> set (w_batch (ws ! w)). gr_joiners gr = [])"
  unfolding workers_ok_def by (meson nth_mem)

lemma ok_workerD: "ok M s \<Longrightarrow> w < length (workers s) \<Longrightarrow> rq_inv (queue_of s w)"
  using workers_okD by (auto simp: ok_def sched_ok_def queue_of_def)

text \<open>A change of one worker that moves ids between one of its places and the limbo.\<close>

lemma on_worker_ok:
  assumes s: "ok M s" and w: "w < length (workers s)" and q: "q \<noteq> PLimbo"
    and inv: "rq_inv (w_queue (f (workers s ! w)))" "\<forall>(gid, gr) \<in> set (w_batch (f (workers s ! w))). gr_joiners gr = []"
    and moved: "M' + worker_place ((workers s)[w := f (workers s ! w)]) q \<subseteq># M + worker_place (workers s) q"
    and same: "\<And>p. p \<noteq> q \<Longrightarrow> worker_place ((workers s)[w := f (workers s ! w)]) p \<subseteq># worker_place (workers s) p"
  shows "ok M' (on_worker w f s)"
proof -
  have "sched_ok M' (glob s) ((workers s)[w := f (workers s ! w)])"
  proof (rule sched_ok_move [where q = q and M = M and ws = "workers s"])
    show "sched_ok M (glob s) (workers s)" using s by (simp add: ok_def)
    show "workers_ok ((workers s)[w := f (workers s ! w)])"
      using s inv by (simp add: ok_def sched_ok_def workers_ok_update)
    show "M' + at_place M' (glob s) ((workers s)[w := f (workers s ! w)]) q \<subseteq># M + at_place M (glob s) (workers s) q"
      using q moved by (simp add: at_place_def flip: add.assoc)
    show "worker_place ((workers s)[w := f (workers s ! w)]) p + global_place (glob s) p \<subseteq>#
        worker_place (workers s) p + global_place (glob s) p" if "p \<noteq> q" for p
      using same [OF that] by simp
  qed (use q in auto)
  then show ?thesis by (simp add: ok_def on_worker_def)
qed

lemma put_queue_ok:
  assumes "ok M s" "w < length (workers s)" "rq_inv q" "M' + mset (rq_all q) \<subseteq># M + mset (rq_all (queue_of s w))"
  shows "ok M' (put_queue w q s)"
  unfolding put_queue_def
proof (rule on_worker_ok [OF assms(1,2), where q = "PQueue w"])
  show "\<forall>(gid, gr) \<in> set (w_batch ((workers s ! w)\<lparr>w_queue := q\<rparr>)). gr_joiners gr = []"
    using workers_okD assms(1,2) by (fastforce simp: ok_def sched_ok_def)
  show "worker_place ((workers s)[w := (workers s ! w)\<lparr>w_queue := q\<rparr>]) p \<subseteq># worker_place (workers s) p"
    if "p \<noteq> PQueue w" for p
    using that assms(2) by (cases p) (auto simp: nth_list_update)
qed (use assms in \<open>auto simp: queue_of_def\<close>)

lemma put_queue_simps [simp]:
  "length (workers (put_queue w q s)) = length (workers s)" "glob (put_queue w q s) = glob s"
  "w < length (workers s) \<Longrightarrow> queue_of (put_queue w q s) w = q"
  "v \<noteq> w \<Longrightarrow> queue_of (put_queue w q s) v = queue_of s v"
  by (simp_all add: put_queue_def queue_of_def on_worker_def)

lemma on_glob_simps [simp]:
  "workers (on_glob f s) = workers s" "queue_of (on_glob f s) = queue_of s" "glob (on_glob f s) = f (glob s)"
  by (simp_all add: on_glob_def queue_of_def fun_eq_iff)

lemma push_ready_batch_ok: "ok (M + mset gs) s \<Longrightarrow> ok M (on_glob (push_ready_batch gs) s)"
  by (rule ok_glob) (auto simp: push_ready_batch_def ok_def intro!: sync_ok ready_back_ok)

lemma push_ready_ok: "ok (add_mset gid M) s \<Longrightarrow> ok M (on_glob (push_ready gid) s)"
  by (rule ok_glob) (auto simp: push_ready_def ok_def intro!: sync_ok ready_back_ok)

subsection \<open>Making goroutines runnable\<close>

lemma rq_all_push_next:
  "gid \<noteq> NULL \<Longrightarrow> push_next q gid = (q1, displaced) \<Longrightarrow>
    mset (rq_all q1) + opt_mset displaced = add_mset gid (mset (rq_all q)) \<and> rq_inv q1 = rq_inv q"
  by (auto simp: push_next_def Let_def rq_all_def split: if_splits)

lemma rq_all_push:
  assumes "rq_inv q" "push q gid = (q', sent)"
  shows "rq_inv q' \<and> mset (rq_all q') + (if sent then {#} else {#gid#}) = add_mset gid (mset (rq_all q))"
  using push_cases [OF assms(1), of gid] assms by auto

lemma rq_all_take_half:
  assumes "rq_inv q" "take_half q = (q', batch)"
  shows "rq_inv q' \<and> mset (rq_all q') + mset batch = mset (rq_all q)"
proof -
  define k where "k = length (rq_items q) - length (rq_items q) div 2"
  have "mset (take k (rq_items q)) + mset (drop k (rq_items q)) = mset (rq_items q)"
    by (metis append_take_drop_id mset_append)
  then show ?thesis using take_half_unfold [OF assms(1), folded k_def] assms(2)
    by (auto simp: rq_all_def ac_simps)
qed

lemma overflow_ok:
  assumes s: "ok (add_mset gid M) s" and w: "w < length (workers s)"
  shows "ok M (overflow_to_shared w gid s)"
proof -
  obtain q batch where t: "take_half (queue_of s w) = (q, batch)" by fastforce
  note q = rq_all_take_half [OF ok_workerD [OF s w] t]
  have "ok (M + mset (batch @ [gid])) (put_queue w q s)"
    by (rule put_queue_ok [OF s w]) (use q in \<open>auto simp: ac_simps\<close>)
  from push_ready_batch_ok [OF this] show ?thesis using t by (simp add: overflow_to_shared_def)
qed

lemma push_local_ok:
  assumes s: "ok (add_mset gid M) s" and w: "w < length (workers s)" and gid: "gid \<noteq> NULL"
  shows "ok M (push_local w gid s)"
proof -
  obtain q1 displaced where p: "push_next (queue_of s w) gid = (q1, displaced)" by fastforce
  note q1 = rq_all_push_next [OF gid p]
  have inv: "rq_inv q1" using q1 ok_workerD [OF s w] by simp
  show ?thesis
  proof (cases displaced)
    case None
    have "ok M (put_queue w q1 s)" by (rule put_queue_ok [OF s w inv]) (use q1 None in simp)
    then show ?thesis using p None by (simp add: push_local_def)
  next
    case (Some d)
    obtain q2 sent where p2: "push q1 d = (q2, sent)" by fastforce
    note q2 = rq_all_push [OF inv p2]
    have "M + (if sent then {#} else {#d#}) + mset (rq_all q2) = add_mset gid M + mset (rq_all (queue_of s w))"
      using q1 q2 Some by (auto simp: ac_simps split: if_splits)
    then have "ok (M + (if sent then {#} else {#d#})) (put_queue w q2 s)"
      by (intro put_queue_ok [OF s w]) (use q2 in auto)
    then show ?thesis using p Some p2 w by (auto simp: push_local_def Let_def intro: overflow_ok split: if_splits)
  qed
qed

lemma ok_positive:
  assumes "ok M s" "x \<in># M"
  shows "x \<noteq> NULL"
proof -
  have "x \<in># at_place M (glob s) (workers s) PLimbo" using assms(2) by (simp add: at_place_def)
  then have "0 < x" using assms(1) unfolding ok_def sched_ok_def tidy_def by blast
  then show ?thesis by (simp add: NULL_def)
qed

lemma make_runnable_ok:
  assumes "ok (add_mset gid M) s"
  shows "ok M (make_runnable caller gid s)"
  using assms push_local_ok [OF assms] push_ready_ok [OF assms] ok_positive [OF assms, of gid]
  by (auto simp: make_runnable_def local_queue_def split: option.split)

lemma make_runnable_all_ok: "ok (M + mset gs) s \<Longrightarrow> ok M (fold (make_runnable caller) gs s)"
proof (induction gs arbitrary: s)
  case (Cons gid gs)
  then have "ok (M + mset gs) (make_runnable caller gid s)" by (intro make_runnable_ok) simp
  then show ?case using Cons.IH by simp
qed simp

lemma push_local_workers [simp]: "length (workers (push_local w gid s)) = length (workers s)"
  by (auto simp: push_local_def overflow_to_shared_def Let_def split: prod.split option.split)

lemma push_local_all_ok: "ok (M + mset gs) s \<Longrightarrow> w < length (workers s) \<Longrightarrow> ok M (push_local_all w gs s)"
proof (induction gs arbitrary: s)
  case (Cons gid gs)
  have "ok (M + mset gs) (push_local w gid s)"
    by (rule push_local_ok) (use Cons.prems ok_positive [OF Cons.prems(1), of gid] in auto)
  then show ?case using Cons by simp
qed simp

subsection \<open>Picking a goroutine\<close>

lemma core_pop_ready_ok:
  assumes "sched_ok M g ws" "core_pop_ready g = (g', got)"
  shows "sched_ok (M + opt_mset got) g' ws"
proof (cases "ready g")
  case Nil
  then show ?thesis using assms by (auto simp: core_pop_ready_def intro: sync_ok split: if_splits)
next
  case (Cons x xs)
  have "sched_ok (add_mset x M) (g\<lparr>ready := xs\<rparr>) ws"
  proof (rule sched_ok_move_glob [OF assms(1), where q = PReady])
    show "global_place (g\<lparr>ready := xs\<rparr>) p \<subseteq># global_place g p" if "p \<noteq> PReady" for p
      using that by (cases p) auto
  qed (use Cons in simp_all)
  then show ?thesis using assms Cons by (auto simp: core_pop_ready_def intro!: sync_ok split: if_splits)
qed

lemma shared_pop_ok: "ok M s \<Longrightarrow> shared_pop s = (s', got) \<Longrightarrow> ok (M + opt_mset got) s'"
  using core_pop_ready_ok by (auto simp: shared_pop_def ok_def split: prod.splits)

lemma shared_pop_workers: "shared_pop s = (s', got) \<Longrightarrow> workers s' = workers s"
  by (auto simp: shared_pop_def split: prod.splits)

lemma pop_ready_batch_ok:
  assumes "sched_ok M g ws" "pop_ready_batch n g = (g', batch)"
  shows "sched_ok (M + mset batch) g' ws"
proof (cases "has_ready g")
  case True
  then obtain k where k: "batch = take k (ready g)" "g' = sync_ready_len (g\<lparr>ready := drop k (ready g)\<rparr>)"
    using assms(2) by (auto simp: pop_ready_batch_def Let_def)
  have "mset (take k (ready g)) + mset (drop k (ready g)) = mset (ready g)" by (metis append_take_drop_id mset_append)
  moreover have "global_place (g\<lparr>ready := drop k (ready g)\<rparr>) p \<subseteq># global_place g p" if "p \<noteq> PReady" for p
    using that by (cases p) auto
  ultimately have "sched_ok (M + mset batch) (g\<lparr>ready := drop k (ready g)\<rparr>) ws"
    by (intro sched_ok_move_glob [OF assms(1), where q = PReady]) (auto simp: k ac_simps)
  then show ?thesis using k by (simp add: sync_ok)
qed (use assms in \<open>simp add: pop_ready_batch_def\<close>)

lemma refill_push_ok:
  "ok (M + mset gs) s \<Longrightarrow> w < length (workers s) \<Longrightarrow> ok M (refill_push w gs s)"
proof (induction gs arbitrary: s)
  case (Cons gid gs)
  obtain q sent where p: "push (queue_of s w) gid = (q, sent)" by fastforce
  note q = rq_all_push [OF ok_workerD [OF Cons.prems] p]
  have "M + mset gs + (if sent then {#} else {#gid#}) + mset (rq_all q) = M + mset (gid # gs) + mset (rq_all (queue_of s w))"
    using q by (auto simp: ac_simps)
  then have put: "ok (M + mset gs + (if sent then {#} else {#gid#})) (put_queue w q s)"
    by (intro put_queue_ok [OF Cons.prems]) (use q in auto)
  show ?case
  proof (cases sent)
    case True
    then show ?thesis using Cons.IH [of "put_queue w q s"] Cons.prems(2) put p by simp
  next
    case False
    then have "ok (M + mset gs) (on_glob (push_ready gid) (put_queue w q s))" using put by (intro push_ready_ok) simp
    from Cons.IH [OF this] show ?thesis using Cons.prems(2) False p by simp
  qed
qed simp

lemma refill_from_shared_ok:
  assumes s: "ok M s" and w: "w < length (workers s)" and refill: "refill_from_shared w s = (s', got)"
  shows "ok (M + opt_mset got) s'"
proof -
  obtain g batch where b: "pop_ready_batch (length (workers s)) (glob s) = (g, batch)" by fastforce
  have ok1: "ok (M + mset batch) (s\<lparr>glob := g\<rparr>)" using pop_ready_batch_ok [OF _ b] s by (simp add: ok_def)
  show ?thesis
  proof (cases "batch = []")
    case True
    then show ?thesis using ok1 refill b by (auto simp: refill_from_shared_def)
  next
    case False
    then have "mset batch = add_mset (last batch) (mset (butlast batch))"
      by (metis append_butlast_last_id mset_append mset_single_iff_right union_mset_add_mset_right add_mset_add_single)
    then have "ok (M + {#last batch#} + mset (butlast batch)) (s\<lparr>glob := g\<rparr>)" using ok1 by simp
    from refill_push_ok [OF this, of w] show ?thesis using refill b False w by (auto simp: refill_from_shared_def)
  qed
qed

lemma refill_push_workers [simp]: "length (workers (refill_push w gs s)) = length (workers s)"
  by (induction gs arbitrary: s) (auto simp: Let_def split: prod.split)

lemma refill_workers: "refill_from_shared w s = (s', got) \<Longrightarrow> length (workers s') = length (workers s)"
  by (auto simp: refill_from_shared_def Let_def split: prod.splits if_splits)

lemma fold_push_ready_ok: "ok (M + mset gs) s \<Longrightarrow> ok M (on_glob (fold push_ready gs) s)"
proof (induction gs arbitrary: s)
  case Nil
  then show ?case by (simp add: on_glob_def)
next
  case (Cons gid gs)
  then have "ok (M + mset gs) (on_glob (push_ready gid) s)" by (intro push_ready_ok) simp
  from Cons.IH [OF this] show ?case by (simp add: on_glob_def)
qed

lemma peer_differs:
  fixes w k n :: nat
  assumes "w < n" "0 < k" "k < n"
  shows "(w + k) mod n < n \<and> (w + k) mod n \<noteq> w"
proof (cases "w + k < n")
  case False
  then have "(w + k) mod n = w + k - n" using assms by (simp add: le_mod_geq)
  then show ?thesis using assms False by linarith
qed (use assms in simp)

lemma put_queue_twice: "v \<noteq> w \<Longrightarrow> v < length (workers s) \<Longrightarrow> w < length (workers s) \<Longrightarrow>
  put_queue w q (put_queue v vq (put_queue v a (put_queue w b s))) = put_queue w q (put_queue v vq s)"
  by (simp add: put_queue_def on_worker_def list_update_swap [of w v])

lemma rq_all_new [simp]: "rq_all rq_new = []"
  by (simp add: rq_all_def rq_new_def rq_items_def)

lemma put_two_queues_ok:
  assumes s: "ok M s" and w: "w < length (workers s)" and v: "v < length (workers s)" "v \<noteq> w"
    and inv: "rq_inv q" "rq_inv vq"
    and m: "M' + mset (rq_all vq) + mset (rq_all q) = M + mset (rq_all (queue_of s v)) + mset (rq_all (queue_of s w))"
  shows "ok M' (put_queue w q (put_queue v vq s))"
proof -
  have 1: "ok (M + mset (rq_all (queue_of s w))) (put_queue w rq_new s)"
    by (rule put_queue_ok [OF s w rq_inv_new]) simp
  have 2: "ok (M' + mset (rq_all vq) + mset (rq_all q)) (put_queue v rq_new (put_queue w rq_new s))"
    by (rule put_queue_ok [OF 1 _ rq_inv_new]) (use v m in \<open>simp_all add: ac_simps\<close>)
  have 3: "ok (M' + mset (rq_all q)) (put_queue v vq (put_queue v rq_new (put_queue w rq_new s)))"
    by (rule put_queue_ok [OF 2 _ inv(2)]) (use v in \<open>simp_all add: ac_simps\<close>)
  have "ok M' (put_queue w q (put_queue v vq (put_queue v rq_new (put_queue w rq_new s))))"
    by (rule put_queue_ok [OF 3 _ inv(1)]) (use w v in simp_all)
  then show ?thesis using put_queue_twice [OF v(2,1) w] by simp
qed

lemma steal_scan_ok:
  "ok M s \<Longrightarrow> w < length (workers s) \<Longrightarrow> \<forall>k \<in> set offsets. 0 < k \<and> k < length (workers s) \<Longrightarrow>
    steal_scan w offsets s = (s', got) \<Longrightarrow> ok (M + opt_mset got) s'"
proof (induction offsets arbitrary: s)
  case (Cons k offsets)
  define v where "v = (w + k) mod length (workers s)"
  have v: "v < length (workers s)" "v \<noteq> w"
    using peer_differs [of w "length (workers s)" k] Cons.prems(2,3) by (auto simp: v_def)
  obtain vq q shared r where st: "steal_into (queue_of s v) (queue_of s w) = Some (vq, q, shared, r)"
    and m: "mset (rq_all (queue_of s v)) + mset (rq_all (queue_of s w)) =
       mset (rq_all vq) + mset (rq_all q) + mset shared + (case r of None \<Rightarrow> {#} | Some g \<Rightarrow> {#g#})"
    and inv: "rq_inv vq" "rq_inv q"
    using steal_into_mset [OF ok_workerD [OF Cons.prems(1) v(1)] ok_workerD [OF Cons.prems(1,2)]] by metis
  define s1 where "s1 = on_glob (fold push_ready shared) (put_queue w q (put_queue v vq s))"
  have "ok (M + opt_mset r + mset shared) (put_queue w q (put_queue v vq s))"
    by (rule put_two_queues_ok [OF Cons.prems(1,2) v inv(2,1)])
      (use m in \<open>simp add: opt_mset_def ac_simps split: option.splits\<close>)
  then have s1: "ok (M + opt_mset r) s1" unfolding s1_def by (rule fold_push_ready_ok)
  have len: "length (workers s1) = length (workers s)" by (simp add: s1_def)
  show ?case
  proof (cases r)
    case None
    have "steal_scan w offsets s1 = (s', got)" using Cons.prems(4) st None by (simp add: v_def [symmetric] s1_def Let_def)
    from Cons.IH [OF _ _ _ this] show ?thesis using s1 None len Cons.prems(2,3) by simp
  next
    case (Some gid)
    then show ?thesis using Cons.prems(4) st s1 by (auto simp: v_def [symmetric] s1_def Let_def)
  qed
qed simp

lemma pop_ready_ok:
  assumes s: "ok M s" and pop: "pop_ready w tick s = (s', got)"
  shows "ok (M + opt_mset got) s'"
proof (cases "w < length (workers s)")
  case False
  then show ?thesis using assms shared_pop_ok by (auto simp: pop_ready_def)
next
  case w: True
  obtain s1 x where x: "(if tick mod GLOBAL_CHECK_INTERVAL = 0 then shared_pop s else (s, None)) = (s1, x)" by fastforce
  have s1: "ok (M + opt_mset x) s1" and w1: "w < length (workers s1)"
    using x s w shared_pop_ok shared_pop_workers by (fastforce split: if_splits)+
  show ?thesis
  proof (cases x)
    case (Some gid)
    then show ?thesis using pop w x s1 by (simp add: pop_ready_def)
  next
    case None
    obtain q y where y: "pop (queue_of s1 w) = (q, y)" by fastforce
    have q: "rq_inv q \<and> mset (rq_all q) + opt_mset y = mset (rq_all (queue_of s1 w))"
      using pop_all [OF ok_workerD [OF s1 w1]] y ok_workerD [OF s1 w1] by (cases "rq_all (queue_of s1 w)") auto
    have s2: "ok (M + opt_mset y) (put_queue w q s1)"
      by (rule put_queue_ok [OF s1 w1]) (use q None in \<open>auto simp: ac_simps\<close>)
    show ?thesis
    proof (cases y)
      case (Some gid)
      then show ?thesis using pop w x None y s2 by (simp add: pop_ready_def)
    next
      case y0: None
      obtain s3 z where z: "refill_from_shared w (put_queue w q s1) = (s3, z)" by fastforce
      have s3: "ok (M + opt_mset z) s3" using refill_from_shared_ok [OF s2 _ z] w1 y0 by simp
      have len: "length (workers s3) = length (workers s1)" using refill_workers [OF z] by simp
      show ?thesis
      proof (cases z)
        case (Some gid)
        then show ?thesis using pop w x None y y0 z s3 by (simp add: pop_ready_def)
      next
        case z0: None
        then have "steal_from_peers w s3 = (s', got)" using pop w x None y y0 z by (simp add: pop_ready_def)
        then show ?thesis using steal_scan_ok [of M s3 w "[1..<length (workers s3)]" s' got] s3 z0 w1 len
          by (auto simp: steal_from_peers_def)
      qed
    qed
  qed
qed

subsection \<open>The hands of a worker\<close>

text \<open>A change that leaves the queue, the batch and the reserved ids of a worker alone.\<close>

lemma hands_ok:
  assumes s: "ok M s" and w: "w < length (workers s)"
    and f: "w_queue (f (workers s ! w)) = queue_of s w" "w_batch (f (workers s ! w)) = w_batch (workers s ! w)"
      "w_range (f (workers s ! w)) = w_range (workers s ! w)"
    and hands: "M' + opt_mset (w_popped (f (workers s ! w))) + opt_mset (w_gid (f (workers s ! w))) \<subseteq>#
      M + opt_mset (w_popped (workers s ! w)) + opt_mset (w_gid (workers s ! w))"
  shows "ok M' (on_worker w f s)"
proof -
  let ?ws = "(workers s)[w := f (workers s ! w)]"
  have "sched_ok M' (glob s) ?ws"
  proof (rule sched_okI [where A = "{PLimbo, PPopped w, PRun w}" and M = M and g = "glob s" and ws = "workers s"])
    show "sched_ok M (glob s) (workers s)" using s by (simp add: ok_def)
    show "workers_ok ?ws"
      using s f workers_okD [of "workers s" w] w by (intro workers_ok_update) (auto simp: ok_def sched_ok_def queue_of_def)
    show "(\<Sum>p\<in>{PLimbo, PPopped w, PRun w}. at_place M' (glob s) ?ws p) \<subseteq>#
        (\<Sum>p\<in>{PLimbo, PPopped w, PRun w}. at_place M (glob s) (workers s) p)"
      using hands w by (simp add: at_place_def ac_simps)
    show "at_place M' (glob s) ?ws p \<subseteq># at_place M (glob s) (workers s) p" if "p \<notin> {PLimbo, PPopped w, PRun w}" for p
      using that w f by (cases p) (auto simp: at_place_def nth_list_update queue_of_def)
  qed simp_all
  then show ?thesis by (simp add: ok_def on_worker_def)
qed

lemma worker_turn_ok:
  assumes s: "ok M s" and w: "w < length (workers s)"
  shows "ok M (worker_turn w tick s)"
proof -
  obtain s1 got where p: "pop_ready w tick s = (s1, got)" by fastforce
  have s1: "ok (M + opt_mset got) s1" by (rule pop_ready_ok [OF s p])
  show ?thesis
  proof (cases "w < length (workers s1)")
    case True
    then show ?thesis using p by (auto simp: worker_turn_def queue_of_def intro!: hands_ok [OF s1])
  next
    case False
    then have "on_worker w (\<lambda>wk. wk\<lparr>w_popped := got\<rparr>) s1 = s1" by (simp add: on_worker_def list_update_beyond)
    moreover have "ok M s1" using s1 sched_ok_frame_glob [of _ "glob s1"] by (auto simp: ok_def)
    ultimately show ?thesis using p by (simp add: worker_turn_def)
  qed
qed

lemma ok_less: "ok (M + N) s \<Longrightarrow> ok M s"
  unfolding ok_def by (erule sched_ok_frame_glob) auto

lemma drive_begin_ok:
  assumes s: "ok M s" and w: "w < length (workers s)" and idle: "w_gid (workers s ! w) = None"
  shows "ok M (drive_begin w s)"
proof (cases "w_popped (workers s ! w)")
  case (Some gid)
  let ?s1 = "on_worker w (\<lambda>wk. wk\<lparr>w_popped := None\<rparr>) s"
  have s1: "ok (M + {#gid#}) ?s1" by (rule hands_ok [OF s w]) (use Some in \<open>simp_all add: queue_of_def\<close>)
  show ?thesis
  proof (cases "goroutines (glob s) gid")
    case None
    then show ?thesis using Some ok_less [OF s1] by (simp add: drive_begin_def)
  next
    case gr: (Some gr)
    let ?s2 = "on_glob (gr_update gid (\<lambda>gr. gr\<lparr>gr_tasks := []\<rparr>)) ?s1"
    have s2: "ok (M + {#gid#}) ?s2" by (rule ok_glob) (use s1 in \<open>auto simp: ok_def intro!: gr_update_ok\<close>)
    have "ok M (on_worker w (\<lambda>wk. wk\<lparr>w_state := load_state gr, w_gid := Some gid, w_tasks := gr_tasks gr\<rparr>) ?s2)"
      by (rule hands_ok [OF s2]) (use w idle in \<open>simp_all add: queue_of_def on_worker_def on_glob_def\<close>)
    then show ?thesis using Some gr by (simp add: drive_begin_def)
  qed
qed (use s in \<open>simp add: drive_begin_def\<close>)

subsection \<open>Detached goroutines\<close>

lemma batch_range_ok:
  assumes s: "ok M s" and w: "w < length (workers s)"
    and f: "w_queue (f (workers s ! w)) = queue_of s w" "w_popped (f (workers s ! w)) = w_popped (workers s ! w)"
      "w_gid (f (workers s ! w)) = w_gid (workers s ! w)"
    and joins: "\<forall>(gid, gr) \<in> set (w_batch (f (workers s ! w))). gr_joiners gr = []"
    and moved: "M' + mset (map fst (w_batch (f (workers s ! w)))) +
        mset (map (\<lambda>k. fst (w_range (f (workers s ! w))) + int k) [0..<snd (w_range (f (workers s ! w)))]) \<subseteq>#
      M + mset (map fst (w_batch (workers s ! w))) +
        mset (map (\<lambda>k. fst (w_range (workers s ! w)) + int k) [0..<snd (w_range (workers s ! w))])"
  shows "ok M' (on_worker w f s)"
proof -
  let ?ws = "(workers s)[w := f (workers s ! w)]"
  have "sched_ok M' (glob s) ?ws"
  proof (rule sched_okI [where A = "{PLimbo, PBatch w, PReserved w}" and M = M and g = "glob s" and ws = "workers s"])
    show "sched_ok M (glob s) (workers s)" using s by (simp add: ok_def)
    show "workers_ok ?ws"
      using s f joins workers_okD [of "workers s" w] w by (intro workers_ok_update) (auto simp: ok_def sched_ok_def queue_of_def)
    show "(\<Sum>p\<in>{PLimbo, PBatch w, PReserved w}. at_place M' (glob s) ?ws p) \<subseteq>#
        (\<Sum>p\<in>{PLimbo, PBatch w, PReserved w}. at_place M (glob s) (workers s) p)"
      using moved w by (simp add: at_place_def ac_simps)
    show "at_place M' (glob s) ?ws p \<subseteq># at_place M (glob s) (workers s) p" if "p \<notin> {PLimbo, PBatch w, PReserved w}" for p
      using that w f by (cases p) (auto simp: at_place_def nth_list_update queue_of_def)
  qed simp_all
  then show ?thesis by (simp add: ok_def on_worker_def)
qed

lemma insert_all_ok:
  "sched_ok M g ws \<Longrightarrow> \<forall>(gid, gr) \<in> set ps. gr_joiners gr = [] \<Longrightarrow> sched_ok M (insert_all ps g) ws"
  by (induction ps g rule: insert_all.induct) (auto simp: add_goroutine_ok)

lemma flush_ok:
  assumes s: "ok M s" and w: "w < length (workers s)"
  shows "ok M (flush_detached_batch w s)"
proof -
  let ?pending = "w_batch (workers s ! w)" and ?s1 = "on_worker w (\<lambda>wk. wk\<lparr>w_batch := []\<rparr>) s"
  have joins: "\<forall>(gid, gr) \<in> set ?pending. gr_joiners gr = []"
    using workers_okD [OF _ w] s by (simp add: ok_def sched_ok_def)
  have s1: "ok (M + mset (map fst ?pending)) ?s1"
    by (rule batch_range_ok [OF s w]) (simp_all add: queue_of_def)
  let ?s2 = "on_glob (insert_all ?pending) ?s1"
  have "ok (M + mset (map fst ?pending)) ?s2"
    by (rule ok_glob) (use s1 joins in \<open>simp add: ok_def insert_all_ok\<close>)
  then have "ok M (push_local_all w (map fst ?pending) ?s2)" by (rule push_local_all_ok) (use w in simp)
  then show ?thesis using w s1 by (auto simp: flush_detached_batch_def Let_def local_queue_def)
qed

lemma upt_range_front:
  assumes "0 < n"
  shows "mset (map (\<lambda>k. a + int k) [0..<n]) = add_mset a (mset (map (\<lambda>k. a + 1 + int k) [0..<n - 1]))"
proof -
  have "map (\<lambda>k. a + int k) [0..<n] = a # map (\<lambda>k. a + 1 + int k) [0..<n - 1]"
    using assms by (intro nth_equalityI) (auto simp: nth_Cons split: nat.split)
  then show ?thesis by (metis mset.simps(2))
qed

lemma count_range: "count (mset (map (\<lambda>k. a + int k) [0..<n])) x \<le> 1"
proof -
  have "distinct (map (\<lambda>k. a + int k) [0..<n])" by (simp add: distinct_map inj_on_def)
  then have "count (mset (map (\<lambda>k. a + int k) [0..<n])) x = (if x \<in> set (map (\<lambda>k. a + int k) [0..<n]) then 1 else 0)"
    by (meson distinct_count_atmost_1)
  then show ?thesis by (simp only: split: if_split) simp
qed

lemma reserve_core_ids_ok:
  assumes ok: "sched_ok M g ws" and room: "next_core g + int (max n 1) \<le> i64_max"
    and res: "reserve_core_ids n g = (g', start)"
  shows "sched_ok (M + mset (map (\<lambda>k. start + int k) [0..<max n 1])) g' ws"
proof -
  have n: "0 < next_core g" using ok by (simp add: sched_ok_def)
  have st: "start = next_core g" and n': "next_core g' = next_core g + int (max n 1)"
    using res room n by (auto simp: reserve_core_ids_def saturating_add_i64_def i64_max_def i64_min_def)
  have same: "global_place g' p = global_place g p" for p using res by (cases p) (auto simp: reserve_core_ids_def)
  have "tidy (next_core g') (at_place (M + mset (map (\<lambda>k. start + int k) [0..<max n 1])) g' ws)"
  proof (rule tidy_fresh [where n = "next_core g" and f = "at_place M g ws" and p = PLimbo
        and N = "mset (map (\<lambda>k. start + int k) [0..<max n 1])"])
    show "next_core g \<le> x \<and> x < next_core g'" if "x \<in># mset (map (\<lambda>k. start + int k) [0..<max n 1])" for x
      using that n' st by auto
    show "count (mset (map (\<lambda>k. start + int k) [0..<max n 1])) x \<le> 1" for x by (rule count_range)
  qed (use ok n n' in \<open>auto simp: sched_ok_def at_place_def same\<close>)
  then show ?thesis using ok n n' room by (simp add: sched_ok_def)
qed

lemma reserve_detached_ok:
  assumes s: "ok M s" and w: "w < length (workers s)"
    and room: "next_core (glob s) + int DETACHED_BATCH_CAP \<le> i64_max"
    and res: "reserve_detached w s = (s', gid)"
  shows "ok (add_mset gid M) s' \<and> length (workers s') = length (workers s) \<and>
    w_batch (workers s' ! w) = w_batch (workers s ! w)"
proof -
  obtain nxt n where rng: "w_range (workers s ! w) = (nxt, n)" by fastforce
  have joins: "\<forall>(gid, gr) \<in> set (w_batch (workers s ! w)). gr_joiners gr = []"
    using workers_okD [OF _ w] s by (simp add: ok_def sched_ok_def)
  show ?thesis
  proof (cases "0 < n")
    case True
    then have s': "s' = on_worker w (\<lambda>wk. wk\<lparr>w_range := (nxt + 1, n - 1)\<rparr>) s" "gid = nxt"
      using res rng by (auto simp: reserve_detached_def)
    have "ok (add_mset gid M) s'" unfolding s'
      by (rule batch_range_ok [OF s w]) (use joins upt_range_front [OF True, of nxt] rng in \<open>simp_all add: queue_of_def\<close>)
    then show ?thesis using s' w by (simp add: on_worker_def)
  next
    case False
    obtain g start where r: "reserve_core_ids DETACHED_BATCH_CAP (glob s) = (g, start)" by fastforce
    have s': "s' = on_worker w (\<lambda>wk. wk\<lparr>w_range := (start + 1, DETACHED_BATCH_CAP - 1)\<rparr>) (s\<lparr>glob := g\<rparr>)" "gid = start"
      using res rng False r by (auto simp: reserve_detached_def)
    have "sched_ok (M + mset (map (\<lambda>k. start + int k) [0..<DETACHED_BATCH_CAP])) g (workers s)"
      using reserve_core_ids_ok [OF _ _ r, of M "workers s"] s room by (simp add: ok_def DETACHED_BATCH_CAP_def)
    then have ok1: "ok (add_mset start (M + mset (map (\<lambda>k. start + 1 + int k) [0..<DETACHED_BATCH_CAP - 1]))) (s\<lparr>glob := g\<rparr>)"
      using upt_range_front [of DETACHED_BATCH_CAP start] by (simp add: ok_def DETACHED_BATCH_CAP_def)
    have "ok (add_mset gid M) s'" unfolding s'
      by (rule batch_range_ok [OF ok1]) (use joins w in \<open>simp_all add: queue_of_def\<close>)
    then show ?thesis using s' w by (simp add: on_worker_def)
  qed
qed

lemma spawn_detached_ok:
  assumes s: "ok M s" and w: "w < length (workers s)" and j: "gr_joiners gr = []"
    and room: "next_core (glob s) + int DETACHED_BATCH_CAP \<le> i64_max"
  shows "ok M (fst (spawn_detached_batched w gr s))"
proof -
  obtain s1 gid where r: "reserve_detached w s = (s1, gid)" by fastforce
  note s1 = reserve_detached_ok [OF s w room r]
  have w1: "w < length (workers s1)" using s1 w by simp
  have joins: "\<forall>(gid, gr) \<in> set (w_batch (workers s1 ! w)). gr_joiners gr = []"
    using workers_okD [OF _ w1] s1 by (simp add: ok_def sched_ok_def)
  have "ok M (on_worker w (\<lambda>wk. wk\<lparr>w_batch := w_batch wk @ [(gid, gr)]\<rparr>) s1)"
    by (rule batch_range_ok [of "add_mset gid M"]) (use s1 w1 joins j in \<open>auto simp: queue_of_def\<close>)
  then show ?thesis using r w1 by (auto simp: spawn_detached_batched_def Let_def intro: flush_ok)
qed

lemma new_goroutine_joiners [simp]: "gr_joiners (new_goroutine poll future cleanup hid) = []"
  by (simp add: new_goroutine_def)

lemma spawn_runnable_ok:
  assumes s: "ok M s" and caller: "\<forall>w. caller = Some w \<longrightarrow> w < length (workers s)"
    and room: "next_core (glob s) + int DETACHED_BATCH_CAP \<le> i64_max"
  shows "ok M (fst (spawn_runnable caller poll future cleanup hid s))"
proof -
  have room1: "next_core (glob s) < i64_max" using room by (simp add: DETACHED_BATCH_CAP_def)
  let ?gr = "new_goroutine poll future cleanup hid"
  obtain g gid where r: "register_goroutine ?gr (glob s) = (g, gid)" by fastforce
  have "ok (add_mset gid M) (s\<lparr>glob := g\<rparr>)"
    using register_goroutine_ok [OF _ room1 _ r] s by (simp add: ok_def)
  then have local: "ok M (make_runnable caller gid (s\<lparr>glob := g\<rparr>))" by (rule make_runnable_ok)
  have outside: "ok M (s\<lparr>glob := fst (register_goroutine_runnable ?gr (glob s))\<rparr>)"
    using register_goroutine_runnable_ok [OF _ room1] s by (simp add: ok_def)
  show ?thesis
  proof (cases caller)
    case None
    then show ?thesis using outside
      by (cases "register_goroutine_runnable ?gr (glob s)") (simp add: spawn_runnable_def)
  next
    case (Some w)
    then show ?thesis using local spawn_detached_ok [OF s _ _ room, of w ?gr] caller r
      by (auto simp: spawn_runnable_def Let_def)
  qed
qed

lemma spawn_goroutine_ok:
  assumes s: "ok M s" and room: "next_core (glob s) < i64_max"
  shows "ok M (fst (spawn_goroutine caller poll future cleanup s))"
proof -
  obtain r1 hid where h: "reserve_id (regs s) = (r1, hid)" by fastforce
  obtain g core where r: "register_goroutine (new_goroutine poll future cleanup hid) (glob s) = (g, core)" by fastforce
  have "ok (add_mset core M) (s\<lparr>glob := g\<rparr>)" using register_goroutine_ok [OF _ room _ r] s by (simp add: ok_def)
  then have "ok (add_mset core M) (s\<lparr>glob := g, regs := insert_reserved hid (HGoroutine core) r1\<rparr>)" by (simp add: ok_def)
  from make_runnable_ok [OF this] show ?thesis using h r by (simp add: spawn_goroutine_def)
qed

section \<open>The end of a poll\<close>

lemma park_on_fd_ok:
  assumes s: "ok (add_mset gid M) s"
  shows "ok M (park_on_fd gid io rd s)"
proof (cases "ios (glob s) io")
  case None
  then show ?thesis using ok_less [of M "{#gid#}" s] s by (simp add: park_on_fd_def register_fd_def)
next
  case (Some slot)
  have "sched_ok M ((glob s)\<lparr>ios := (ios (glob s))(io \<mapsto> slot\<lparr>io_parked := True, io_waiters := io_waiters slot @ [gid]\<rparr>)\<rparr>) (workers s)"
    by (rule io_slot_ok [where M = "add_mset gid M"]) (use s Some in \<open>simp_all add: ok_def\<close>)
  then show ?thesis using Some by (simp add: park_on_fd_def register_fd_def ok_def on_glob_def)
qed

lemma finish_done_ok:
  assumes s: "ok M s" and gr: "goroutines (glob s) gid = Some gr"
  shows "ok M (finish_done gid tasks thrown gr s)"
proof -
  define gr3 where "gr3 = (let gr1 = gr\<lparr>gr_tasks := tasks, gr_done := True, gr_cleanup := None\<rparr>
    in (if thrown \<noteq> NULL then gr1\<lparr>gr_pending_exception := thrown\<rparr> else gr1)\<lparr>gr_joiners := []\<rparr>)"
  let ?g1 = "(glob s)\<lparr>goroutines := (goroutines (glob s))(gid \<mapsto> gr3)\<rparr>"
  have j: "gr_joiners gr3 = []" by (simp add: gr3_def Let_def)
  have "sched_ok (M + mset (gr_joiners gr)) ?g1 (workers s)"
  proof (rule global_place_joiners [where target = gid and M = M and g = "glob s"])
    show "global_place ?g1 p = global_place (glob s) p" if "p \<noteq> PJoin gid" for p using that by (cases p) auto
  qed (use s gr j in \<open>simp_all add: ok_def\<close>)
  then have ok2: "sched_ok M (sync_ready_len (ready_back (gr_joiners gr) ?g1)) (workers s)"
    by (intro sync_ok ready_back_ok)
  let ?g2 = "sync_ready_len (ready_back (gr_joiners gr) ?g1)"
  let ?g3 = "?g2\<lparr>goroutines := (goroutines ?g2)(gid := None)\<rparr>"
  have ok3: "sched_ok M ?g3 (workers s)"
  proof (rule sched_ok_frame_glob [OF ok2])
    show "global_place (?g2\<lparr>goroutines := (goroutines ?g2)(gid := None)\<rparr>) p \<subseteq># global_place ?g2 p" for p
      by (cases p) auto
  qed simp_all
  have "finish_done gid tasks thrown gr s = s\<lparr>glob := ?g2\<rparr> \<or>
      (\<exists>r. finish_done gid tasks thrown gr s = s\<lparr>glob := ?g3, regs := r\<rparr>)"
    unfolding finish_done_def gr3_def Let_def by (cases "thrown = NULL") auto
  then show ?thesis using ok2 ok3 by (auto simp: ok_def)
qed

lemma finish_park_ok:
  assumes s: "ok (add_mset gid M) s"
  shows "ok M (finish_park w gid p s)"
proof -
  have requeue: "ok M (make_runnable (Some w) gid (on_glob sync_ready_len s))"
    by (rule make_runnable_ok, rule ok_glob) (use s in \<open>simp add: ok_def sync_ok\<close>)
  have g: "sched_ok (add_mset gid M) (glob s) (workers s)" using s by (simp add: ok_def)
  show ?thesis
  proof (cases p)
    case ParkNone
    then show ?thesis using requeue by (simp add: finish_park_def)
  next
    case (ParkChan core op)
    obtain g' r woke where c: "chan_op gid core op (glob s) (regs s) = (g', r, woke)" using prod_cases3 by blast
    have "sched_ok M g' (workers s)"
      using c g by (cases op) (auto simp: chan_op_def intro: chan_send_ok chan_recv_ok split: prod.splits)
    then show ?thesis using ParkChan c by (simp add: finish_park_def ok_def sync_ok)
  next
    case (ParkTimer d)
    then show ?thesis using timer_park_ok [OF g] by (simp add: finish_park_def ok_def on_glob_def)
  next
    case (ParkFd io rd)
    then show ?thesis using park_on_fd_ok [OF s] by (simp add: finish_park_def)
  next
    case (ParkJoin target)
    then show ?thesis using join_park_ok [OF g] by (simp add: finish_park_def ok_def on_glob_def sync_ok)
  next
    case (ParkJob core)
    then show ?thesis using requeue job_wait_ok [OF g]
      by (auto simp: finish_park_def ok_def on_glob_def intro!: sync_ok split: option.split)
  qed
qed

lemma push_local_hands:
  "w_gid (workers (push_local v gid s) ! w) = w_gid (workers s ! w)"
  by (cases "w < length (workers s)"; cases "v < length (workers s)"; cases "v = w")
    (auto simp: push_local_def overflow_to_shared_def put_queue_def on_worker_def queue_of_def Let_def
      list_update_beyond split: prod.split option.split)

lemma push_local_all_hands: "w_gid (workers (push_local_all v gids s) ! w) = w_gid (workers s ! w)"
  by (induction gids arbitrary: s) (simp_all add: push_local_hands)

lemma push_local_all_workers [simp]: "length (workers (push_local_all v gids s)) = length (workers s)"
  by (induction gids arbitrary: s) simp_all

lemma flush_hands:
  assumes "w < length (workers s)"
  shows "w_gid (workers (flush_detached_batch w s) ! w) = w_gid (workers s ! w)"
    "length (workers (flush_detached_batch w s)) = length (workers s)"
  using assms
  by (auto simp: flush_detached_batch_def Let_def local_queue_def push_local_all_hands on_worker_def split: option.split)

lemma drive_finish_ok:
  assumes s: "ok M s" and w: "w < length (workers s)"
  shows "ok M (drive_finish w thrown s)"
proof (cases "w_gid (workers s ! w)")
  case (Some gid)
  define s1 where "s1 = flush_detached_batch w s"
  define s2 where "s2 = on_worker w (\<lambda>wk. wk\<lparr>w_tasks := [], w_gid := None, w_state := TASK_IDLE\<rparr>) s1"
  have s1: "ok M s1" "w < length (workers s1)" "w_gid (workers s1 ! w) = Some gid"
    using flush_ok [OF s w] flush_hands [OF w] w Some by (simp_all add: s1_def)
  have s2: "ok (add_mset gid M) s2"
    unfolding s2_def by (rule hands_ok [OF s1(1,2)]) (use s1(3) in \<open>simp_all add: queue_of_def\<close>)
  show ?thesis
  proof (cases "goroutines (glob s2) gid")
    case None
    then show ?thesis using ok_less [of M "{#gid#}" s2] s2 Some
      by (simp add: drive_finish_def s1_def s2_def Let_def)
  next
    case gr: (Some gr)
    let ?tasks = "w_tasks (workers s1 ! w)" and ?st = "w_state (workers s1 ! w)"
    let ?s3 = "on_glob (gr_update gid (flush_state ?tasks ?st)) s2"
    have s3: "ok (add_mset gid M) ?s3"
      by (rule ok_glob, rule gr_update_ok) (use s2 in \<open>simp_all add: ok_def flush_state_def\<close>)
    have "ok M (finish_done gid ?tasks thrown gr s2)"
      using finish_done_ok [OF ok_less [of M "{#gid#}" s2] gr] s2 by simp
    moreover have "drive_finish w thrown s = (if ?tasks = [] then finish_done gid ?tasks thrown gr s2
        else if ts_park ?st = ParkNone then make_runnable (Some w) gid ?s3 else finish_park w gid (ts_park ?st) ?s3)"
      using Some gr unfolding drive_finish_def s1_def s2_def by (simp add: Let_def)
    ultimately show ?thesis using make_runnable_ok [OF s3] finish_park_ok [OF s3] by auto
  qed
qed (use s in \<open>simp add: drive_finish_def\<close>)

lemma fire_timers_ok:
  assumes "ok M s"
  shows "ok M (fst (fire_timers_and_next now s))"
proof -
  have "ok (M + mset (due_timers now (timers (glob s)))) (s\<lparr>glob := timers_pending_offset d
      ((glob s)\<lparr>timers := filter (\<lambda>(k, gids). now < k) (timers (glob s))\<rparr>)\<rparr>)" for d
    using timers_taken_ok assms by (simp add: ok_def)
  from make_runnable_all_ok [OF this] show ?thesis using assms by (simp add: fire_timers_and_next_def Let_def)
qed

section \<open>The running scheduler\<close>

text \<open>
  What can happen, in any order and on any thread. A worker that holds nothing takes its turn; it
  looks up the goroutine it popped; the poll changes its task stack and its suspension state, spawns
  goroutines, closes, drops and creates things, as any other thread can; and the poll ends. Jobs are
  completed by the offload pool, timers and descriptors fire in the reactor. New ids are taken only
  while the id counter is below its maximum.
\<close>

definition room :: "'o sched \<Rightarrow> bool" where
  "room s \<longleftrightarrow> next_core (glob s) + int DETACHED_BATCH_CAP \<le> i64_max"

inductive sched_step :: "'o sched \<Rightarrow> 'o sched \<Rightarrow> bool" where
  st_turn: "w < length (workers s) \<Longrightarrow> w_popped (workers s ! w) = None \<Longrightarrow> w_gid (workers s ! w) = None \<Longrightarrow>
    sched_step s (worker_turn w tick s)"
| st_begin: "w < length (workers s) \<Longrightarrow> w_gid (workers s ! w) = None \<Longrightarrow> sched_step s (drive_begin w s)"
| st_poll: "w < length (workers s) \<Longrightarrow> sched_step s (on_worker w (\<lambda>wk. wk\<lparr>w_tasks := ts\<rparr>) s)"
| st_park: "w < length (workers s) \<Longrightarrow> sched_step s (park_self w p s)"
| st_park_send: "w < length (workers s) \<Longrightarrow> sched_step s (park_chan_send w core v s)"
| st_park_recv: "w < length (workers s) \<Longrightarrow> sched_step s (park_chan_recv w core s)"
| st_recv_result: "w < length (workers s) \<Longrightarrow> sched_step s (fst (recv_result w s))"
| st_finish: "w < length (workers s) \<Longrightarrow> sched_step s (drive_finish w thrown s)"
| st_spawn: "\<forall>w. caller = Some w \<longrightarrow> w < length (workers s) \<Longrightarrow> room s \<Longrightarrow>
    sched_step s (fst (spawn_runnable caller poll future cleanup hid s))"
| st_go: "room s \<Longrightarrow> sched_step s (fst (spawn_goroutine caller poll future cleanup s))"
| st_close: "chan_close core (glob s) (regs s) = (g, r) \<Longrightarrow> sched_step s (s\<lparr>glob := g, regs := r\<rparr>)"
| st_complete: "sched_step s (on_glob (\<lambda>g. fst (complete_op core res g)) s)"
| st_timers: "sched_step s (fst (fire_timers_and_next now s))"
| st_ios: "sched_step s (on_glob (wake_ready_ios xs) s)"
| st_drop_go: "drop_goroutine core (glob s) (regs s) = (g, r, call) \<Longrightarrow> sched_step s (s\<lparr>glob := g, regs := r\<rparr>)"
| st_drop_chan: "drop_chan core (glob s) (regs s) = (g, r) \<Longrightarrow> sched_step s (s\<lparr>glob := g, regs := r\<rparr>)"
| st_drop_op: "drop_op core (glob s) (regs s) = (g, r) \<Longrightarrow> sched_step s (s\<lparr>glob := g, regs := r\<rparr>)"
| st_drop_io: "sched_step s (on_glob (drop_io core) s)"
| st_op_result: "sched_step s (on_glob (\<lambda>g. fst (op_result core g)) s)"
| st_io_ready: "sched_step s (on_glob (\<lambda>g. fst (io_ready core g)) s)"
| st_join: "sched_step s (on_glob (\<lambda>g. fst (join_round gid g)) s)"
| st_new_chan: "room s \<Longrightarrow> sched_step s (on_glob (\<lambda>g. fst (register_chan capacity owns g)) s)"
| st_new_io: "room s \<Longrightarrow> sched_step s (on_glob (\<lambda>g. fst (register_io g)) s)"
| st_new_op: "room s \<Longrightarrow> sched_step s (on_glob (\<lambda>g. fst (register_op g)) s)"
| st_attach: "sched_step s (attach_fd io fd rd s)"
| st_detach: "sched_step s (detach_fd io s)"

lemma attach_ok:
  assumes "ok M s"
  shows "ok M (attach_fd io fd rd s)"
proof (cases "ios (glob s) io")
  case (Some slot)
  have "sched_ok M ((glob s)\<lparr>ios := (ios (glob s))(io \<mapsto> slot\<lparr>io_fd := fd\<rparr>)\<rparr>) (workers s)"
    by (rule io_slot_ok [where M = M]) (use assms Some in \<open>simp_all add: ok_def\<close>)
  then show ?thesis using Some by (simp add: attach_fd_def Let_def ok_def on_glob_def)
qed (use assms in \<open>simp add: attach_fd_def Let_def ok_def\<close>)

lemma sched_step_ok:
  assumes "sched_step s s'" "ok {#} s"
  shows "ok {#} s'"
  using assms
proof (induction rule: sched_step.induct)
  case (st_poll w s ts)
  then show ?case by (intro hands_ok) (auto simp: queue_of_def)
next
  case (st_park w s p)
  then show ?case by (auto simp: park_self_def queue_of_def intro!: hands_ok)
next
  case (st_park_send w s core v)
  then show ?case by (auto simp: park_chan_send_def queue_of_def intro!: hands_ok)
next
  case (st_park_recv w s core)
  then show ?case by (auto simp: park_chan_recv_def queue_of_def intro!: hands_ok)
next
  case (st_recv_result w s)
  then show ?case by (auto simp: recv_result_def queue_of_def intro!: hands_ok)
next
  case (st_go s caller poll future cleanup)
  then show ?case by (intro spawn_goroutine_ok) (auto simp: room_def DETACHED_BATCH_CAP_def)
next
  case (st_close core s g r)
  then show ?case using chan_close_ok by (fastforce simp: ok_def)
next
  case (st_drop_go core s g r call)
  then show ?case using drop_goroutine_ok [of "{#}" "glob s" "workers s" core "regs s"] by (simp add: ok_def)
next
  case (st_drop_chan core s g r)
  then show ?case using drop_tables_ok(1) [of "{#}" "glob s" "workers s" core "regs s"] by (simp add: ok_def)
next
  case (st_drop_op core s g r)
  then show ?case using drop_tables_ok(3) [of "{#}" "glob s" "workers s" core "regs s"] by (simp add: ok_def)
next
  case (st_join s gid)
  have "sched_ok {#} (fst (join_round gid (glob s))) (workers s)"
    using st_join by (auto simp: join_round_def ok_def intro!: gr_update_ok split: option.split)
  then show ?case by (rule ok_glob)
qed (auto simp: room_def ok_def on_glob_def detach_fd_def DETACHED_BATCH_CAP_def
      intro: complete_op_ok wake_ready_ios_ok drop_tables_ok register_tables_ok
      worker_turn_ok [unfolded ok_def] drive_begin_ok [unfolded ok_def] drive_finish_ok [unfolded ok_def]
      spawn_runnable_ok [unfolded ok_def] fire_timers_ok [unfolded ok_def] attach_ok [unfolded ok_def])

lemma worker_place_start [simp]: "worker_place (replicate n worker_new) p = {#}"
  by (cases p) (simp_all add: worker_new_def)

lemma global_place_init [simp]: "global_place global_init p = {#}"
  by (cases p) (simp_all add: global_init_def)

lemma sched_start_ok: "ok {#} (sched_start n)"
proof -
  have "at_place {#} global_init (replicate n worker_new) p = {#}" for p by (simp add: at_place_def)
  then have "tidy 1 (at_place {#} global_init (replicate n worker_new))" by (simp add: tidy_def once_def)
  moreover have "workers_ok (replicate n worker_new)" by (auto simp: workers_ok_def worker_new_def rq_inv_new)
  ultimately show ?thesis by (simp add: ok_def sched_ok_def sched_start_def) (simp add: global_init_def i64_max_def)
qed

lemma sched_reachable_ok: "sched_step\<^sup>*\<^sup>* (sched_start n) s \<Longrightarrow> ok {#} s"
  by (induction rule: rtranclp_induct) (auto intro: sched_start_ok sched_step_ok)

lemma once_workers:
  assumes "once (at_place M g ws)" "v < length ws" "w < length ws" "w_gid (ws ! v) = Some x" "w_gid (ws ! w) = Some x"
  shows "v = w"
proof -
  have "x \<in># at_place M g ws (PRun v)" "x \<in># at_place M g ws (PRun w)" using assms(2-5) by (simp_all add: at_place_def)
  then have "PRun v = PRun w" using assms(1) unfolding once_def by blast
  then show ?thesis by simp
qed

section \<open>Properties\<close>

text \<open>
  C2: Whatever the workers, the reactor, the offload pool and other threads do and in whatever order,
  starting from an empty scheduler: every goroutine id is in at most one place, and there only once
  (the shared queue, a run queue, a worker's hands, a batch of detached goroutines, or one of the
  lists of waiters of channels, timers, descriptors, jobs and joins). So no two workers ever poll the
  same goroutine.
\<close>

theorem goroutine_once:
  assumes "sched_step\<^sup>*\<^sup>* (sched_start n) s"
  shows "once (at_place {#} (glob s) (workers s)) \<and>
    (\<forall>v w x. v < length (workers s) \<and> w < length (workers s) \<and>
      w_gid (workers s ! v) = Some x \<and> w_gid (workers s ! w) = Some x \<longrightarrow> v = w)"
proof -
  have "once (at_place {#} (glob s) (workers s))"
    using sched_reachable_ok [OF assms] by (simp add: ok_def sched_ok_def tidy_def)
  then show ?thesis using once_workers by blast
qed

text \<open>A goroutine is spawned from outside, taken by the first of two workers and being polled.\<close>

definition sample_spawned :: "unit sched" where
  "sample_spawned = fst (spawn_goroutine None 7 3 None (sched_start 2))"

definition sample_polled :: "unit sched" where
  "sample_polled = drive_begin 0 (worker_turn 0 1 sample_spawned)"

lemma sample_spawned_reachable: "sched_step\<^sup>*\<^sup>* (sched_start 2) sample_spawned"
  unfolding sample_spawned_def
  by (intro r_into_rtranclp st_go)
    (simp add: room_def sched_start_def global_init_def DETACHED_BATCH_CAP_def i64_max_def)

lemma sample_spawned_workers [simp]: "workers sample_spawned = replicate 2 worker_new"
  "ready (glob sample_spawned) = [1]" "ready_len (glob sample_spawned) = 1"
  "timers (glob sample_spawned) = []" "timer_pending (glob sample_spawned) = 0"
  "\<exists>gr. goroutines (glob sample_spawned) 1 = Some gr"
  by (simp_all add: sample_spawned_def spawn_goroutine_def sched_start_def global_init_def make_runnable_def
      local_queue_def push_ready_def ready_back_def sync_ready_len_def on_glob_def register_goroutine_def
      take_core_def Let_def split: prod.split)

lemma sample_turn: "worker_turn 0 1 sample_spawned =
  sample_spawned\<lparr>glob := (glob sample_spawned)\<lparr>ready := [], ready_len := 0\<rparr>,
    workers := [worker_new\<lparr>w_popped := Some 1\<rparr>, worker_new]\<rparr>"
proof -
  have "pop rq_new = (rq_new, None)" by (simp add: pop_def rq_new_def)
  moreover have "queue_of sample_spawned 0 = rq_new" by (simp add: queue_of_def worker_new_def numeral_2_eq_2)
  moreover have "put_queue 0 rq_new sample_spawned = sample_spawned"
    by (simp add: put_queue_def on_worker_def worker_new_def numeral_2_eq_2)
  ultimately show ?thesis
    by (simp add: worker_turn_def pop_ready_def GLOBAL_CHECK_INTERVAL_def refill_from_shared_def pop_ready_batch_def
        has_ready_def READY_BATCH_CAP_def sync_ready_len_def on_worker_def numeral_2_eq_2)
qed

lemma sample_polled_reachable: "sched_step\<^sup>*\<^sup>* (sched_start 2) sample_polled"
proof -
  have "sched_step sample_spawned (worker_turn 0 1 sample_spawned)"
    by (rule st_turn) (simp_all add: worker_new_def numeral_2_eq_2)
  moreover have "sched_step (worker_turn 0 1 sample_spawned) sample_polled"
    unfolding sample_polled_def sample_turn
    by (rule st_begin) (simp_all add: worker_new_def)
  ultimately show ?thesis using sample_spawned_reachable by (meson rtranclp.rtrancl_into_rtrancl)
qed

theorem goroutine_once_witness:
  "w_gid (workers sample_polled ! 0) = Some 1 \<and> w_gid (workers sample_polled ! 1) = None \<and>
   once (at_place {#} (glob sample_polled) (workers sample_polled))"
proof -
  obtain gr where "goroutines (glob sample_spawned) 1 = Some gr" using sample_spawned_workers(6) by blast
  then have "w_gid (workers sample_polled ! 0) = Some 1 \<and> w_gid (workers sample_polled ! 1) = None"
    by (simp add: sample_polled_def sample_turn [unfolded One_nat_def] drive_begin_def Let_def gr_update_def on_worker_def on_glob_def worker_new_def)
  then show ?thesis using goroutine_once [OF sample_polled_reachable] by blast
qed

end
