(* ===== verification/Scheduler_Mirrors.thy ===== *)
theory Scheduler_Mirrors
  imports Scheduler_Once
begin

text \<open>
  The two counters kept outside the lock: \<open>READY_LEN\<close> is the length of the shared ready queue and
  \<open>TIMER_PENDING\<close> the number of sleeping goroutines, in every reachable state. The fast paths that
  read only the counters therefore never miss work.
\<close>

section \<open>The mirrored counters\<close>

definition mirrored :: "global \<Rightarrow> bool" where
  "mirrored g \<longleftrightarrow> ready_len g = length (ready g) \<and> timer_pending g = int (timer_count (timers g))"

lemma mirrored_frame:
  "ready_len g' = ready_len g \<Longrightarrow> ready g' = ready g \<Longrightarrow> timers g' = timers g \<Longrightarrow> timer_pending g' = timer_pending g \<Longrightarrow>
    mirrored g' = mirrored g"
  by (simp add: mirrored_def)

text \<open>The timers are right, whatever the length of the ready queue.\<close>

definition timers_right :: "global \<Rightarrow> bool" where
  "timers_right g \<longleftrightarrow> timer_pending g = int (timer_count (timers g))"

lemma mirrored_sync [simp]: "mirrored (sync_ready_len g) = timers_right g"
  by (simp add: mirrored_def timers_right_def)

lemma mirrored_timers: "mirrored g \<Longrightarrow> timers_right g"
  by (simp add: mirrored_def timers_right_def)

lemma timers_right_frame [simp]:
  "timers_right (ready_back gs g) = timers_right g" "timers_right (gr_update gid f g) = timers_right g"
  "timers_right (put_chan core c g) = timers_right g" "timers_right (sync_ready_len g) = timers_right g"
  "timers_right (g\<lparr>ready := xs\<rparr>) = timers_right g" "timers_right (g\<lparr>goroutines := m\<rparr>) = timers_right g"
  "timers_right (g\<lparr>ios := i\<rparr>) = timers_right g" "timers_right (g\<lparr>job_ops := j\<rparr>) = timers_right g"
  "timers_right (g\<lparr>chans := cs\<rparr>) = timers_right g" "timers_right (g\<lparr>next_core := n\<rparr>) = timers_right g"
  by (simp_all add: timers_right_def)

lemma mirrored_gr_update [simp]:
  "mirrored (gr_update gid f g) = mirrored g" "mirrored (put_chan core c g) = mirrored g"
  "mirrored (g\<lparr>goroutines := m\<rparr>) = mirrored g" "mirrored (g\<lparr>ios := i\<rparr>) = mirrored g"
  "mirrored (g\<lparr>job_ops := j\<rparr>) = mirrored g" "mirrored (g\<lparr>chans := cs\<rparr>) = mirrored g"
  "mirrored (g\<lparr>next_core := n\<rparr>) = mirrored g"
  by (simp_all add: mirrored_def)

lemma mirrored_push: "mirrored g \<Longrightarrow> mirrored (push_ready gid g)" "mirrored g \<Longrightarrow> mirrored (push_ready_batch gs g)"
  by (auto simp: push_ready_def push_ready_batch_def mirrored_timers)

lemma mirrored_fold_push: "mirrored g \<Longrightarrow> mirrored (fold push_ready gs g)"
  by (induction gs arbitrary: g) (auto simp: mirrored_push)

lemma mirrored_push_local: "mirrored (glob s) \<Longrightarrow> mirrored (glob (push_local w gid s))"
  by (auto simp: push_local_def overflow_to_shared_def Let_def mirrored_push split: prod.split option.split)

lemma mirrored_push_local_all: "mirrored (glob s) \<Longrightarrow> mirrored (glob (push_local_all w gids s))"
  by (induction gids arbitrary: s) (auto simp: mirrored_push_local)

lemma mirrored_make_runnable: "mirrored (glob s) \<Longrightarrow> mirrored (glob (make_runnable caller gid s))"
  by (auto simp: make_runnable_def mirrored_push mirrored_push_local split: option.split)

lemma mirrored_make_runnable_all: "mirrored (glob s) \<Longrightarrow> mirrored (glob (fold (make_runnable caller) gids s))"
  by (induction gids arbitrary: s) (auto simp: mirrored_make_runnable)

lemma mirrored_insert_all [simp]: "mirrored (insert_all ps g) = mirrored g"
  by (induction ps g rule: insert_all.induct) simp_all

lemma mirrored_flush: "mirrored (glob s) \<Longrightarrow> mirrored (glob (flush_detached_batch w s))"
  by (auto simp: flush_detached_batch_def Let_def mirrored_push_local_all mirrored_push split: option.split)

lemma mirrored_shared_pop: "mirrored (glob s) \<Longrightarrow> shared_pop s = (s', x) \<Longrightarrow> mirrored (glob s')"
  by (auto simp: shared_pop_def core_pop_ready_def mirrored_timers split: prod.splits if_splits list.splits)

lemma mirrored_refill_push: "mirrored (glob s) \<Longrightarrow> mirrored (glob (refill_push w gs s))"
  by (induction gs arbitrary: s) (auto simp: Let_def mirrored_push split: prod.split)

lemma mirrored_refill: "mirrored (glob s) \<Longrightarrow> refill_from_shared w s = (s', x) \<Longrightarrow> mirrored (glob s')"
  by (auto simp: refill_from_shared_def pop_ready_batch_def Let_def mirrored_timers mirrored_refill_push
      split: prod.splits if_splits)

lemma mirrored_steal: "mirrored (glob s) \<Longrightarrow> mirrored (glob (fst (steal_scan w offsets s)))"
proof (induction offsets arbitrary: s)
  case (Cons k offsets)
  show ?case
    using Cons.prems Cons.IH by (auto simp: Let_def mirrored_fold_push split: option.split)
qed simp

lemma mirrored_pop_ready:
  assumes m: "mirrored (glob s)"
  shows "mirrored (glob (fst (pop_ready w tick s)))"
proof -
  obtain s1 x where x: "(if tick mod GLOBAL_CHECK_INTERVAL = 0 then shared_pop s else (s, None)) = (s1, x)" by fastforce
  have s1: "mirrored (glob s1)" using x m mirrored_shared_pop [OF m] by (auto split: if_splits)
  obtain q y where y: "pop (queue_of s1 w) = (q, y)" by fastforce
  obtain s2 z where z: "refill_from_shared w (put_queue w q s1) = (s2, z)" by fastforce
  have s2: "mirrored (glob s2)" using mirrored_refill [OF _ z] s1 by simp
  have "mirrored (glob (fst (shared_pop s)))" using mirrored_shared_pop [OF m] by (metis prod.collapse)
  then show ?thesis using s1 s2 mirrored_steal [OF s2] x y z
    by (cases x; cases y; cases z) (simp_all add: pop_ready_def steal_from_peers_def)
qed

lemma mirrored_turn: "mirrored (glob s) \<Longrightarrow> mirrored (glob (worker_turn w tick s))"
  using mirrored_pop_ready [of s w tick] by (cases "pop_ready w tick s") (simp add: worker_turn_def)

text \<open>The number of waiting timers is below the number of ids.\<close>

lemma size_below:
  assumes "\<And>x. count M x \<le> 1" "\<And>x. x \<in># M \<Longrightarrow> 0 < x \<and> x < n"
  shows "int (size M) \<le> max 0 (n - 1)"
proof -
  have "size M = card (set_mset M)"
  proof -
    have "count M x = 1" if "x \<in># M" for x using assms(1) [of x] that by (metis count_greater_eq_one_iff le_antisym)
    then show ?thesis by (simp add: size_multiset_overloaded_eq)
  qed
  also have "\<dots> \<le> card {0<..<n}" by (rule card_mono) (use assms(2) in auto)
  finally show ?thesis by simp
qed

lemma size_timers: "size (mset (concat (map snd ts))) = timer_count ts"
  by (induction ts) (auto simp: timer_count_def)

lemma timers_bound:
  assumes "sched_ok M g ws"
  shows "int (timer_count (timers g)) + int (size M) < next_core g"
proof -
  have t: "tidy (next_core g) (at_place M g ws)" and n: "0 < next_core g" using assms by (simp_all add: sched_ok_def)
  let ?T = "at_place M g ws PTimers + at_place M g ws PLimbo"
  have "(\<Sum>p\<in>{PTimers, PLimbo}. at_place M g ws p) = ?T" by simp
  then have "count ?T x \<le> 1" for x
    using once_sum [of "at_place M g ws" "{PTimers, PLimbo}" x] t unfolding tidy_def by simp
  moreover have "0 < x \<and> x < next_core g" if "x \<in># ?T" for x
    using t that unfolding tidy_def by (meson union_iff)
  ultimately have "int (size ?T) \<le> max 0 (next_core g - 1)" by (rule size_below)
  then show ?thesis using n size_timers [of "timers g"] by (simp add: at_place_def)
qed

lemma timer_count_push: "timer_count (timer_push d gid ts) = Suc (timer_count ts)"
  by (induction d gid ts rule: timer_push.induct) (auto simp: timer_count_def)

lemma timer_count_due:
  "length (due_timers now ts) + timer_count (filter (\<lambda>(k, gids). now < k) ts) = timer_count ts"
  by (induction ts) (auto simp: timer_count_def due_timers_def)

lemma timer_count_forget: "timer_count (forget_timers core ts) \<le> timer_count ts"
proof -
  have "timer_count us = length (concat (map snd us))" for us :: "(i64 \<times> i64 list) list"
    using size_timers [of us] by (metis size_mset)
  then show ?thesis by (simp add: concat_forget_timers)
qed

lemma timers_right_park:
  assumes "sched_ok (add_mset gid M) g ws" "timers_right g"
  shows "timers_right (timers_pending_offset 1 (g\<lparr>timers := timer_push d gid (timers g)\<rparr>))"
proof -
  have "in_i64 (int (timer_count (timers g)) + 1)"
    using timers_bound [OF assms(1)] assms(1) by (simp add: sched_ok_def in_i64_def i64_max_def)
  then show ?thesis using assms(2)
    by (simp add: timers_right_def timers_pending_offset_def timer_count_push wrap_i64_id)
qed

lemma in_i64_timers: "sched_ok M g ws \<Longrightarrow> n \<le> timer_count (timers g) \<Longrightarrow> in_i64 (int n)"
  using timers_bound [of M g ws] by (simp add: sched_ok_def in_i64_def i64_max_def)

lemma mirrored_fire:
  assumes s: "ok M s" and m: "mirrored (glob s)"
  shows "mirrored (glob (fst (fire_timers_and_next now s)))"
proof -
  let ?due = "due_timers now (timers (glob s))" and ?rest = "filter (\<lambda>(k, gids). now < k) (timers (glob s))"
  have c: "int (timer_count (timers (glob s))) - int (length ?due) = int (timer_count ?rest)"
    using timer_count_due [of now "timers (glob s)"] by simp
  have "mirrored (timers_pending_offset (- int (length ?due)) ((glob s)\<lparr>timers := ?rest\<rparr>))"
    using m in_i64_timers [of M "glob s" "workers s" "timer_count ?rest"] s timer_count_due [of now "timers (glob s)"]
    by (simp add: mirrored_def timers_pending_offset_def ok_def c wrap_i64_id)
  then show ?thesis using m by (simp add: fire_timers_and_next_def Let_def mirrored_make_runnable_all)
qed

lemma mirrored_drop_goroutine:
  assumes ok: "sched_ok M g ws" and m: "mirrored g"
  shows "mirrored (fst (drop_goroutine core g r))"
proof -
  let ?ts = "forget_timers core (timers g)"
  have le: "timer_count ?ts \<le> timer_count (timers g)" by (rule timer_count_forget)
  have "in_i64 (int (timer_count ?ts))" by (rule in_i64_timers [OF ok le])
  then have "mirrored (timers_pending_offset (- (int (timer_count (timers g)) - int (timer_count ?ts)))
      (g\<lparr>goroutines := h, timers := ?ts\<rparr>))" for h
    using m by (simp add: mirrored_def timers_pending_offset_def wrap_i64_id)
  moreover have "mirrored (g\<lparr>goroutines := h, timers := ?ts\<rparr>)" if "timer_count ?ts = timer_count (timers g)" for h
    using m that by (simp add: mirrored_def)
  ultimately show ?thesis using m le by (auto simp: drop_goroutine_def Let_def split: option.split)
qed

lemma mirrored_chans: "timers_right g \<Longrightarrow> timers_right (fst (chan_send gid core g r))"
  "timers_right g \<Longrightarrow> timers_right (fst (chan_recv gid core g))"
  by (auto simp: chan_send_def chan_recv_def Let_def split: option.split list.split)

lemma timers_right_close_receivers: "timers_right g \<Longrightarrow> timers_right (fst (close_receivers owns ps g))"
  by (induction owns ps g rule: close_receivers.induct) (auto simp: Let_def split: prod.split option.split)

lemma timers_right_close_senders: "timers_right g \<Longrightarrow> timers_right (fst (close_senders ss g))"
  by (induction ss g rule: close_senders.induct) (auto simp: Let_def split: prod.split)

lemma mirrored_close: "mirrored g \<Longrightarrow> mirrored (fst (chan_close core g r))"
proof -
  assume m: "mirrored g"
  have "timers_right (fst (close_senders ss (fst (close_receivers owns ps (put_chan core c g)))))" for ss owns ps c
    using m by (intro timers_right_close_senders timers_right_close_receivers) (simp add: mirrored_timers)
  then show ?thesis using m by (simp add: chan_close_def case_prod_beta Let_def split: option.split)
qed

lemma mirrored_finish_park:
  assumes s: "ok (add_mset gid M) s" and m: "mirrored (glob s)"
  shows "mirrored (glob (finish_park w gid p s))"
proof -
  have requeue: "mirrored (glob (make_runnable (Some w) gid (on_glob sync_ready_len s)))"
    by (rule mirrored_make_runnable) (use m in \<open>simp add: mirrored_timers\<close>)
  note t = mirrored_timers [OF m]
  show ?thesis
  proof (cases p)
    case (ParkChan core op)
    have "timers_right (fst (chan_op gid core op (glob s) (regs s)))"
      using mirrored_chans t by (cases op) (auto simp: chan_op_def case_prod_beta)
    then show ?thesis using ParkChan by (auto simp: finish_park_def split: prod.split)
  next
    case (ParkTimer d)
    then show ?thesis using timers_right_park [of gid M "glob s" "workers s" d] s m t
      by (simp add: finish_park_def ok_def mirrored_def timers_right_def timers_pending_offset_def)
  next
    case (ParkFd io rd)
    then show ?thesis using m by (simp add: finish_park_def park_on_fd_def register_fd_def split: option.split)
  next
    case (ParkJoin target)
    then show ?thesis using t by (simp add: finish_park_def join_park_def split: option.split)
  qed (use requeue t in \<open>auto simp: finish_park_def split: option.split\<close>)
qed

lemma mirrored_finish_done: "mirrored (glob s) \<Longrightarrow> mirrored (glob (finish_done gid tasks thrown gr s))"
  by (simp add: finish_done_def Let_def mirrored_timers)

lemma mirrored_drive_finish:
  assumes s: "ok M s" and w: "w < length (workers s)" and m: "mirrored (glob s)"
  shows "mirrored (glob (drive_finish w thrown s))"
proof (cases "w_gid (workers s ! w)")
  case (Some gid)
  define s1 where "s1 = flush_detached_batch w s"
  define s2 where "s2 = on_worker w (\<lambda>wk. wk\<lparr>w_tasks := [], w_gid := None, w_state := TASK_IDLE\<rparr>) s1"
  have s1: "ok M s1" "w < length (workers s1)" "w_gid (workers s1 ! w) = Some gid" "mirrored (glob s1)"
    using flush_ok [OF s w] flush_hands [OF w] mirrored_flush [OF m] w Some by (simp_all add: s1_def)
  have s2: "ok (add_mset gid M) s2"
    unfolding s2_def by (rule hands_ok [OF s1(1,2)]) (use s1(3) in \<open>simp_all add: queue_of_def\<close>)
  have m2: "mirrored (glob s2)" using s1(4) by (simp add: s2_def)
  let ?tasks = "w_tasks (workers s1 ! w)" and ?st = "w_state (workers s1 ! w)"
  let ?s3 = "on_glob (gr_update gid (flush_state ?tasks ?st)) s2"
  have s3: "ok (add_mset gid M) ?s3"
    by (rule ok_glob, rule gr_update_ok) (use s2 in \<open>simp_all add: ok_def flush_state_def\<close>)
  have m3: "mirrored (glob ?s3)" using m2 by simp
  have "drive_finish w thrown s = (case goroutines (glob s2) gid of None \<Rightarrow> s2 | Some gr \<Rightarrow>
      if ?tasks = [] then finish_done gid ?tasks thrown gr s2
      else if ts_park ?st = ParkNone then make_runnable (Some w) gid ?s3 else finish_park w gid (ts_park ?st) ?s3)"
    using Some unfolding drive_finish_def s1_def s2_def
    by (cases "goroutines (glob (flush_detached_batch w s)) gid") (simp_all add: Let_def)
  then show ?thesis
    using m2 mirrored_make_runnable [OF m3] mirrored_finish_park [OF s3 m3] mirrored_finish_done [OF m2]
    by (simp split: option.split)
qed (use m in \<open>simp add: drive_finish_def\<close>)

lemma mirrored_register:
  assumes "mirrored g"
  shows "mirrored (fst (register_goroutine gr g))" "mirrored (fst (register_goroutine_runnable gr g))"
    "mirrored (fst (register_chan capacity owns g))" "mirrored (fst (register_io g))" "mirrored (fst (register_op g))"
    "mirrored (fst (reserve_core_ids n g))"
  using assms mirrored_timers [OF assms]
  by (simp_all add: register_goroutine_def register_goroutine_runnable_def register_chan_def register_io_def
      register_op_def reserve_core_ids_def take_core_def)

lemma mirrored_spawn_detached:
  assumes "mirrored (glob s)"
  shows "mirrored (glob (fst (spawn_detached_batched w gr s)))"
proof -
  have "mirrored (glob (fst (reserve_detached w s)))"
    using assms mirrored_register(6) [OF assms, of DETACHED_BATCH_CAP]
    by (auto simp: reserve_detached_def split: prod.splits)
  then show ?thesis using mirrored_flush
    by (auto simp: spawn_detached_batched_def Let_def mirrored_flush split: prod.splits)
qed

lemma mirrored_spawns:
  assumes "mirrored (glob s)"
  shows "mirrored (glob (fst (spawn_runnable caller poll future cleanup hid s)))"
    "mirrored (glob (fst (spawn_goroutine caller poll future cleanup s)))"
  using assms mirrored_register(1,2) [OF assms] mirrored_spawn_detached [OF assms]
  by (auto simp: spawn_runnable_def spawn_goroutine_def Let_def case_prod_beta mirrored_make_runnable split: option.split)

lemma mirrored_wake_ios: "mirrored g \<Longrightarrow> mirrored (wake_ready_ios xs g)"
proof (induction xs arbitrary: g)
  case (Cons io xs)
  show ?case
  proof (cases "ios g io")
    case (Some slot)
    show ?thesis
    proof (cases "io_waiters slot = []")
      case True
      then have "mirrored (ready_back (io_waiters slot) (g\<lparr>ios := i\<rparr>))" for i
        using Cons.prems by (simp add: mirrored_def)
      then show ?thesis using Some True Cons.IH by (simp add: Let_def)
    next
      case False
      then show ?thesis using Some Cons.IH Cons.prems by (simp add: Let_def mirrored_timers)
    qed
  qed (use Cons in simp)
qed simp

lemma sched_step_mirrored:
  assumes "sched_step s s'" "ok {#} s" "mirrored (glob s)"
  shows "mirrored (glob s')"
  using assms
proof (induction rule: sched_step.induct)
  case (st_begin w s)
  then show ?case by (simp add: drive_begin_def Let_def split: option.split)
next
  case (st_close core s g r)
  then show ?case using mirrored_close [of "glob s" core "regs s"] by simp
next
  case (st_complete s core res)
  then show ?case by (simp add: complete_op_def Let_def mirrored_timers split: option.split)
next
  case (st_drop_go core s g r call)
  then show ?case using mirrored_drop_goroutine [of "{#}" "glob s" "workers s" core "regs s"] by (simp add: ok_def)
next
  case (st_drop_chan core s g r)
  then show ?case by (auto simp: drop_chan_def split: option.splits)
next
  case (st_drop_op core s g r)
  then show ?case by (auto simp: drop_op_def split: option.splits)
next
  case (st_attach s io fd rd)
  then show ?case by (simp add: attach_fd_def Let_def split: option.split)
qed (simp_all add: mirrored_turn mirrored_drive_finish mirrored_spawns mirrored_fire mirrored_wake_ios mirrored_register
      park_self_def park_chan_send_def park_chan_recv_def recv_result_def drop_io_def detach_fd_def
      op_result_def io_ready_def join_round_def split: option.split)

lemma sched_reachable_mirrored: "sched_step\<^sup>*\<^sup>* (sched_start n) s \<Longrightarrow> mirrored (glob s)"
proof (induction rule: rtranclp_induct)
  case base
  show ?case by (simp add: mirrored_def sched_start_def global_init_def timer_count_def)
next
  case (step s s')
  then show ?case using sched_step_mirrored sched_reachable_ok by blast
qed

section \<open>Properties\<close>

text \<open>
  C8: In every reachable state the counters read without the lock are exact, so popping from the
  shared queue returns its head whenever there is one, and a round of the reactor skips the timers
  only when no goroutine sleeps.
\<close>

theorem mirrors_exact:
  assumes "sched_step\<^sup>*\<^sup>* (sched_start n) s"
  shows "ready_len (glob s) = length (ready (glob s)) \<and>
    timer_pending (glob s) = int (timer_count (timers (glob s))) \<and>
    snd (core_pop_ready (glob s)) = (case ready (glob s) of [] \<Rightarrow> None | gid # rest \<Rightarrow> Some gid) \<and>
    (has_pending_timers (glob s) \<longleftrightarrow> 0 < timer_count (timers (glob s)))"
  using sched_reachable_mirrored [OF assms]
  by (auto simp: mirrored_def core_pop_ready_def has_ready_def has_pending_timers_def split: list.split)

theorem mirrors_exact_witness:
  "ready (glob sample_spawned) = [1] \<and> ready_len (glob sample_spawned) = 1 \<and>
   snd (core_pop_ready (glob sample_spawned)) = Some 1 \<and> \<not> has_pending_timers (glob sample_spawned)"
  using mirrors_exact [OF sample_spawned_reachable] by (simp add: timer_count_def)

end
