(* ===== verification/Span_Shift.thy ===== *)
theory Span_Shift
  imports Ast
begin

text \<open>
  Byte-offset translation for merged programs (\<open>crates/ntsc-ast/src/spans.rs\<close>): when the modules of
  a package are merged, the spans of each module are moved by a base of its own. The properties say
  that shifting composes, and that the spans of different modules do not overlap, except inside the
  type annotations that \<open>shift_type\<close> does not enter.
\<close>

section \<open>Model\<close>

definition shift_span :: "usize \<Rightarrow> span \<Rightarrow> span" where
  "shift_span base sp =
     (if span_start sp \<noteq> 0 \<or> span_stop sp \<noteq> 0
      then sp\<lparr>span_start := span_start sp + base, span_stop := span_stop sp + base\<rparr> else sp)"

definition shift_token :: "usize \<Rightarrow> token \<Rightarrow> token" where
  "shift_token base t = t\<lparr>tspan := shift_span base (tspan t)\<rparr>"

fun shift_type :: "usize \<Rightarrow> type_annotation \<Rightarrow> type_annotation" where
  "shift_type base (TANamed t) = TANamed (shift_token base t)"
| "shift_type base (TAArray (Some inner)) = TAArray (Some (shift_type base inner))"
| "shift_type base (TAOption inner) = TAOption (shift_type base inner)"
| "shift_type base ta = ta"

definition shift_return :: "usize \<Rightarrow> return_type \<Rightarrow> return_type" where
  "shift_return base rt =
     rt\<lparr>rt_ty := shift_type base (rt_ty rt), rt_arrow_span := shift_span base (rt_arrow_span rt)\<rparr>"

definition shift_param :: "usize \<Rightarrow> function_param \<Rightarrow> function_param" where
  "shift_param base p =
     p\<lparr>fp_name := shift_token base (fp_name p), fp_type := map_option (shift_type base) (fp_type p)\<rparr>"

definition shift_generic_param :: "usize \<Rightarrow> generic_param \<Rightarrow> generic_param" where
  "shift_generic_param base p =
     p\<lparr>gp_name := shift_token base (gp_name p), gp_bounds := map (shift_token base) (gp_bounds p)\<rparr>"

definition shift_match_pattern :: "usize \<Rightarrow> match_pattern \<Rightarrow> match_pattern" where
  "shift_match_pattern base p =
     p\<lparr>mp_variant := shift_token base (mp_variant p), mp_binding := map_option (shift_token base) (mp_binding p)\<rparr>"

primrec
      shift_expr :: "usize \<Rightarrow> expr \<Rightarrow> expr"
  and shift_property :: "usize \<Rightarrow> object_property \<Rightarrow> object_property"
  and shift_stmt :: "usize \<Rightarrow> stmt \<Rightarrow> stmt"
  and shift_elif :: "usize \<Rightarrow> elif_branch \<Rightarrow> elif_branch"
  and shift_case :: "usize \<Rightarrow> match_case \<Rightarrow> match_case"
  and shift_member :: "usize \<Rightarrow> enum_member \<Rightarrow> enum_member"
where
  "shift_expr b (ELiteral val sp) = ELiteral val (shift_span b sp)"
| "shift_expr b (EVariable name) = EVariable (shift_token b name)"
| "shift_expr b (EBinary left op right) = EBinary (shift_expr b left) (shift_token b op) (shift_expr b right)"
| "shift_expr b (EUnary op right) = EUnary (shift_token b op) (shift_expr b right)"
| "shift_expr b (EPostfixUnary op left) = EPostfixUnary (shift_token b op) (shift_expr b left)"
| "shift_expr b (EGrouping expression open_span close_span) =
     EGrouping (shift_expr b expression) (shift_span b open_span) (shift_span b close_span)"
| "shift_expr b (EMember object property) = EMember (shift_expr b object) (shift_token b property)"
| "shift_expr b (EOptionalMember object property) = EOptionalMember (shift_expr b object) (shift_token b property)"
| "shift_expr b (ECall callee paren arguments) =
     ECall (shift_expr b callee) (shift_span b paren) (map (shift_expr b) arguments)"
| "shift_expr b (EAssign name val) = EAssign (shift_token b name) (shift_expr b val)"
| "shift_expr b (EIndexGet object index) = EIndexGet (shift_expr b object) (shift_expr b index)"
| "shift_expr b (EIndexSet object index val) =
     EIndexSet (shift_expr b object) (shift_expr b index) (shift_expr b val)"
| "shift_expr b (EMemberSet object property val) =
     EMemberSet (shift_expr b object) (shift_token b property) (shift_expr b val)"
| "shift_expr b (EThis keyword) = EThis (shift_token b keyword)"
| "shift_expr b (ELambda params ret body sp) =
     ELambda (map (shift_param b) params) (map_option (shift_return b) ret) (map (shift_stmt b) body) (shift_span b sp)"
| "shift_expr b (ETernary condition then_branch else_branch) =
     ETernary (shift_expr b condition) (shift_expr b then_branch) (shift_expr b else_branch)"
| "shift_expr b (ESpread val op_span) = ESpread (shift_expr b val) (shift_span b op_span)"
| "shift_expr b (EObjectLiteral properties sp) = EObjectLiteral (map (shift_property b) properties) (shift_span b sp)"
| "shift_expr b (EArrayLiteral elements sp) = EArrayLiteral (map (shift_expr b) elements) (shift_span b sp)"
| "shift_expr b (EAwait callee arguments sp) =
     EAwait (shift_expr b callee) (map (shift_expr b) arguments) (shift_span b sp)"
| "shift_expr b (EAsyncBlock body ret sp) =
     EAsyncBlock (map (shift_stmt b) body) (map_option (shift_return b) ret) (shift_span b sp)"
| "shift_expr b (EView target mutable keyword) = EView (shift_expr b target) mutable (shift_span b keyword)"
| "shift_expr b (ECopy expression keyword) = ECopy (shift_expr b expression) (shift_span b keyword)"
| "shift_expr b (EBorrow target mutable keyword) = EBorrow (shift_expr b target) mutable (shift_span b keyword)"
| "shift_expr b (ERawDeref target star) = ERawDeref (shift_expr b target) (shift_span b star)"
| "shift_expr b (ERawDerefSet target val star) =
     ERawDerefSet (shift_expr b target) (shift_expr b val) (shift_span b star)"
| "shift_expr b (EStructLiteral class_name flds update sp) =
     EStructLiteral (shift_token b class_name) (map (shift_property b) flds) (map_option (shift_expr b) update)
       (shift_span b sp)"
| "shift_expr b (EPropagate val question_span) = EPropagate (shift_expr b val) (shift_span b question_span)"
| "shift_expr b (ETupleLiteral elements sp) = ETupleLiteral (map (shift_expr b) elements) (shift_span b sp)"
| "shift_expr b (ETupleIndex object index dot_span) = ETupleIndex (shift_expr b object) index (shift_span b dot_span)"
| "shift_expr b (EChanSend channel val op_span) =
     EChanSend (shift_expr b channel) (shift_expr b val) (shift_span b op_span)"
| "shift_expr b (EChanRecv receiver channel op_span) =
     EChanRecv (shift_token b receiver) (shift_expr b channel) (shift_span b op_span)"
| "shift_expr b (EClose channel keyword) = EClose (shift_expr b channel) (shift_span b keyword)"
| "shift_property b (ObjectProperty key val key_span) = ObjectProperty key (shift_expr b val) (shift_span b key_span)"
| "shift_stmt b (SExpression expression) = SExpression (shift_expr b expression)"
| "shift_stmt b (SSay expression keyword_span) = SSay (shift_expr b expression) (shift_span b keyword_span)"
| "shift_stmt b (SVar name ta init is_static is_const view) =
     SVar (shift_token b name) (map_option (shift_type b) ta) (map_option (shift_expr b) init) is_static is_const view"
| "shift_stmt b (SBlock stmts open_span close_span) =
     SBlock (map (shift_stmt b) stmts) (shift_span b open_span) (shift_span b close_span)"
| "shift_stmt b (SIf condition then_branch elifs else_branch) =
     SIf (shift_expr b condition) (shift_stmt b then_branch) (map (shift_elif b) elifs)
       (map_option (shift_stmt b) else_branch)"
| "shift_stmt b (SWhile condition body) = SWhile (shift_expr b condition) (shift_stmt b body)"
| "shift_stmt b (SDoWhile body condition) = SDoWhile (shift_stmt b body) (shift_expr b condition)"
| "shift_stmt b (SFor init condition update body) =
     SFor (map_option (shift_stmt b) init) (map_option (shift_expr b) condition) (map_option (shift_expr b) update)
       (shift_stmt b body)"
| "shift_stmt b (SForIn variable iterable body) =
     SForIn (shift_token b variable) (shift_expr b iterable) (shift_stmt b body)"
| "shift_stmt b (SForAwait variable producer body) =
     SForAwait (shift_token b variable) (shift_expr b producer) (shift_stmt b body)"
| "shift_stmt b (SChanRecvFor variable channel body) =
     SChanRecvFor (shift_token b variable) (shift_expr b channel) (shift_stmt b body)"
| "shift_stmt b (SGo call block keyword_span) =
     SGo (shift_expr b call) (map_option (map (shift_stmt b)) block) (shift_span b keyword_span)"
| "shift_stmt b (SFunction name generics params ret body) =
     SFunction (shift_token b name) (map (shift_generic_param b) generics) (map (shift_param b) params)
       (map_option (shift_return b) ret) (map (shift_stmt b) body)"
| "shift_stmt b (SAsyncFunction name params ret body) =
     SAsyncFunction (shift_token b name) (map (shift_param b) params) (map_option (shift_return b) ret)
       (map (shift_stmt b) body)"
| "shift_stmt b (SReturn val) = SReturn (map_option (shift_expr b) val)"
| "shift_stmt b (SClass name generics parent body) =
     SClass (shift_token b name) (map (shift_generic_param b) generics) (map_option (shift_token b) parent)
       (map (shift_stmt b) body)"
| "shift_stmt b (SBreak sp) = SBreak (shift_span b sp)"
| "shift_stmt b (SContinue sp) = SContinue (shift_span b sp)"
| "shift_stmt b (SMatch expression cases default_case) =
     SMatch (shift_expr b expression) (map (shift_case b) cases) (map_option (shift_stmt b) default_case)"
| "shift_stmt b (STry try_block catch_var catch_block finally_block) =
     STry (shift_stmt b try_block) (map_option (shift_token b) catch_var) (map_option (shift_stmt b) catch_block)
       (map_option (shift_stmt b) finally_block)"
| "shift_stmt b (SThrow val) = SThrow (shift_expr b val)"
| "shift_stmt b (SRetry cnt body catch_var catch_block) =
     SRetry (shift_expr b cnt) (shift_stmt b body) (map_option (shift_token b) catch_var)
       (map_option (shift_stmt b) catch_block)"
| "shift_stmt b (SUnsafe body) = SUnsafe (shift_stmt b body)"
| "shift_stmt b (SQuiet lints body) = SQuiet lints (shift_stmt b body)"
| "shift_stmt b (SDestructure is_array is_tuple names keys init) =
     SDestructure is_array is_tuple (map (shift_token b) names) keys (shift_expr b init)"
| "shift_stmt b (SUse library is_file_path symbols alias) =
     SUse (shift_token b library) is_file_path (map (shift_token b) symbols) (map_option (shift_token b) alias)"
| "shift_stmt b (SEnum name generics members) =
     SEnum (shift_token b name) (map (shift_generic_param b) generics) (map (shift_member b) members)"
| "shift_stmt b (STypeAlias name generics target) =
     STypeAlias (shift_token b name) (map (shift_generic_param b) generics) (shift_type b target)"
| "shift_stmt b (STrait name parents associated_types methods) =
     STrait (shift_token b name) (map (shift_token b) parents) (map (shift_token b) associated_types)
       (map (shift_stmt b) methods)"
| "shift_stmt b (SImpl trait_name type_name body) =
     SImpl (shift_token b trait_name) (shift_token b type_name) (map (shift_stmt b) body)"
| "shift_stmt b (STest name body) = STest (shift_token b name) (map (shift_stmt b) body)"
| "shift_elif b (ElifBranch condition body elif_span) =
     ElifBranch (shift_expr b condition) (shift_stmt b body) (shift_span b elif_span)"
| "shift_case b (MatchCase val pat guard body case_span) =
     MatchCase (shift_expr b val) (map_option (shift_match_pattern b) pat) (map_option (shift_expr b) guard)
       (shift_stmt b body) (shift_span b case_span)"
| "shift_member b (EnumMember name val data_types) =
     EnumMember (shift_token b name) (map_option (shift_expr b) val) data_types"

definition shift_spans :: "usize \<Rightarrow> program \<Rightarrow> program" where
  "shift_spans base p = p\<lparr>statements := map (shift_stmt base) (statements p)\<rparr>"

section \<open>All spans of a program\<close>

text \<open>Every span of a syntax tree but those inside type annotations, in the order of the fields.\<close>

definition opt_list :: "'a list option \<Rightarrow> 'a list" where
  "opt_list x = (case x of None \<Rightarrow> [] | Some xs \<Rightarrow> xs)"

definition generic_spans :: "generic_param \<Rightarrow> span list" where
  "generic_spans p = tspan (gp_name p) # map tspan (gp_bounds p)"

definition match_pattern_spans :: "match_pattern \<Rightarrow> span list" where
  "match_pattern_spans p = tspan (mp_variant p) # opt_list (map_option (\<lambda>t. [tspan t]) (mp_binding p))"

primrec
      expr_spans :: "expr \<Rightarrow> span list"
  and property_spans :: "object_property \<Rightarrow> span list"
  and stmt_spans :: "stmt \<Rightarrow> span list"
  and elif_spans :: "elif_branch \<Rightarrow> span list"
  and case_spans :: "match_case \<Rightarrow> span list"
  and member_spans :: "enum_member \<Rightarrow> span list"
where
  "expr_spans (ELiteral val sp) = [sp]"
| "expr_spans (EVariable name) = [tspan name]"
| "expr_spans (EBinary left op right) = expr_spans left @ [tspan op] @ expr_spans right"
| "expr_spans (EUnary op right) = [tspan op] @ expr_spans right"
| "expr_spans (EPostfixUnary op left) = [tspan op] @ expr_spans left"
| "expr_spans (EGrouping expression open_span close_span) = expr_spans expression @ [open_span] @ [close_span]"
| "expr_spans (EMember object property) = expr_spans object @ [tspan property]"
| "expr_spans (EOptionalMember object property) = expr_spans object @ [tspan property]"
| "expr_spans (ECall callee paren arguments) = expr_spans callee @ [paren] @ concat (map expr_spans arguments)"
| "expr_spans (EAssign name val) = [tspan name] @ expr_spans val"
| "expr_spans (EIndexGet object index) = expr_spans object @ expr_spans index"
| "expr_spans (EIndexSet object index val) = expr_spans object @ expr_spans index @ expr_spans val"
| "expr_spans (EMemberSet object property val) = expr_spans object @ [tspan property] @ expr_spans val"
| "expr_spans (EThis keyword) = [tspan keyword]"
| "expr_spans (ELambda params ret body sp) =
     concat (map (\<lambda>p. [tspan (fp_name p)]) params) @ opt_list (map_option (\<lambda>rt. [rt_arrow_span rt]) ret) @ concat (map stmt_spans body) @ [sp]"
| "expr_spans (ETernary condition then_branch else_branch) =
     expr_spans condition @ expr_spans then_branch @ expr_spans else_branch"
| "expr_spans (ESpread val op_span) = expr_spans val @ [op_span]"
| "expr_spans (EObjectLiteral properties sp) = concat (map property_spans properties) @ [sp]"
| "expr_spans (EArrayLiteral elements sp) = concat (map expr_spans elements) @ [sp]"
| "expr_spans (EAwait callee arguments sp) = expr_spans callee @ concat (map expr_spans arguments) @ [sp]"
| "expr_spans (EAsyncBlock body ret sp) =
     concat (map stmt_spans body) @ opt_list (map_option (\<lambda>rt. [rt_arrow_span rt]) ret) @ [sp]"
| "expr_spans (EView target mutable keyword) = expr_spans target @ [keyword]"
| "expr_spans (ECopy expression keyword) = expr_spans expression @ [keyword]"
| "expr_spans (EBorrow target mutable keyword) = expr_spans target @ [keyword]"
| "expr_spans (ERawDeref target star) = expr_spans target @ [star]"
| "expr_spans (ERawDerefSet target val star) = expr_spans target @ expr_spans val @ [star]"
| "expr_spans (EStructLiteral class_name flds update sp) =
     [tspan class_name] @ concat (map property_spans flds) @ opt_list (map_option expr_spans update) @ [sp]"
| "expr_spans (EPropagate val question_span) = expr_spans val @ [question_span]"
| "expr_spans (ETupleLiteral elements sp) = concat (map expr_spans elements) @ [sp]"
| "expr_spans (ETupleIndex object index dot_span) = expr_spans object @ [dot_span]"
| "expr_spans (EChanSend channel val op_span) = expr_spans channel @ expr_spans val @ [op_span]"
| "expr_spans (EChanRecv receiver channel op_span) = [tspan receiver] @ expr_spans channel @ [op_span]"
| "expr_spans (EClose channel keyword) = expr_spans channel @ [keyword]"
| "property_spans (ObjectProperty key val key_span) = expr_spans val @ [key_span]"
| "stmt_spans (SExpression expression) = expr_spans expression"
| "stmt_spans (SSay expression keyword_span) = expr_spans expression @ [keyword_span]"
| "stmt_spans (SVar name ta init is_static is_const view) = [tspan name] @ opt_list (map_option expr_spans init)"
| "stmt_spans (SBlock stmts open_span close_span) = concat (map stmt_spans stmts) @ [open_span] @ [close_span]"
| "stmt_spans (SIf condition then_branch elifs else_branch) =
     expr_spans condition @ stmt_spans then_branch @ concat (map elif_spans elifs) @ opt_list (map_option stmt_spans else_branch)"
| "stmt_spans (SWhile condition body) = expr_spans condition @ stmt_spans body"
| "stmt_spans (SDoWhile body condition) = stmt_spans body @ expr_spans condition"
| "stmt_spans (SFor init condition update body) =
     opt_list (map_option stmt_spans init) @ opt_list (map_option expr_spans condition) @ opt_list (map_option expr_spans update) @ stmt_spans body"
| "stmt_spans (SForIn variable iterable body) = [tspan variable] @ expr_spans iterable @ stmt_spans body"
| "stmt_spans (SForAwait variable producer body) = [tspan variable] @ expr_spans producer @ stmt_spans body"
| "stmt_spans (SChanRecvFor variable channel body) = [tspan variable] @ expr_spans channel @ stmt_spans body"
| "stmt_spans (SGo call block keyword_span) =
     expr_spans call @ opt_list (map_option concat (map_option (map stmt_spans) block)) @ [keyword_span]"
| "stmt_spans (SFunction name generics params ret body) =
     [tspan name] @ concat (map generic_spans generics) @ concat (map (\<lambda>p. [tspan (fp_name p)]) params) @ opt_list (map_option (\<lambda>rt. [rt_arrow_span rt]) ret) @ concat (map stmt_spans body)"
| "stmt_spans (SAsyncFunction name params ret body) =
     [tspan name] @ concat (map (\<lambda>p. [tspan (fp_name p)]) params) @ opt_list (map_option (\<lambda>rt. [rt_arrow_span rt]) ret) @ concat (map stmt_spans body)"
| "stmt_spans (SReturn val) = opt_list (map_option expr_spans val)"
| "stmt_spans (SClass name generics parent body) =
     [tspan name] @ concat (map generic_spans generics) @ opt_list (map_option (\<lambda>t. [tspan t]) parent) @ concat (map stmt_spans body)"
| "stmt_spans (SBreak sp) = [sp]"
| "stmt_spans (SContinue sp) = [sp]"
| "stmt_spans (SMatch expression cases default_case) =
     expr_spans expression @ concat (map case_spans cases) @ opt_list (map_option stmt_spans default_case)"
| "stmt_spans (STry try_block catch_var catch_block finally_block) =
     stmt_spans try_block @ opt_list (map_option (\<lambda>t. [tspan t]) catch_var) @ opt_list (map_option stmt_spans catch_block) @ opt_list (map_option stmt_spans finally_block)"
| "stmt_spans (SThrow val) = expr_spans val"
| "stmt_spans (SRetry cnt body catch_var catch_block) =
     expr_spans cnt @ stmt_spans body @ opt_list (map_option (\<lambda>t. [tspan t]) catch_var) @ opt_list (map_option stmt_spans catch_block)"
| "stmt_spans (SUnsafe body) = stmt_spans body"
| "stmt_spans (SQuiet lints body) = stmt_spans body"
| "stmt_spans (SDestructure is_array is_tuple names keys init) =
     concat (map (\<lambda>t. [tspan t]) names) @ expr_spans init"
| "stmt_spans (SUse library is_file_path symbols alias) =
     [tspan library] @ concat (map (\<lambda>t. [tspan t]) symbols) @ opt_list (map_option (\<lambda>t. [tspan t]) alias)"
| "stmt_spans (SEnum name generics members) =
     [tspan name] @ concat (map generic_spans generics) @ concat (map member_spans members)"
| "stmt_spans (STypeAlias name generics target) = [tspan name] @ concat (map generic_spans generics)"
| "stmt_spans (STrait name parents associated_types methods) =
     [tspan name] @ concat (map (\<lambda>t. [tspan t]) parents) @ concat (map (\<lambda>t. [tspan t]) associated_types) @ concat (map stmt_spans methods)"
| "stmt_spans (SImpl trait_name type_name body) = [tspan trait_name] @ [tspan type_name] @ concat (map stmt_spans body)"
| "stmt_spans (STest name body) = [tspan name] @ concat (map stmt_spans body)"
| "elif_spans (ElifBranch condition body elif_span) = expr_spans condition @ stmt_spans body @ [elif_span]"
| "case_spans (MatchCase val pat guard body case_span) =
     expr_spans val @ opt_list (map_option match_pattern_spans pat) @ opt_list (map_option expr_spans guard) @ stmt_spans body @ [case_span]"
| "member_spans (EnumMember name val data_types) = [tspan name] @ opt_list (map_option expr_spans val)"

definition program_spans :: "program \<Rightarrow> span list" where
  "program_spans p = concat (map stmt_spans (statements p))"

section \<open>Shifting moves every span\<close>

lemma tspan_shift [simp]: "tspan (shift_token b t) = shift_span b (tspan t)"
  by (simp add: shift_token_def)

lemma opt_list_map: "opt_list (map_option f (map_option g x)) = opt_list (map_option (f \<circ> g) x)"
  by (simp add: option.map_comp)

lemma map_opt_list: "map h (opt_list (map_option f x)) = opt_list (map_option (map h \<circ> f) x)"
  by (cases x) (simp_all add: opt_list_def)

lemma spans_of_parts [simp]:
  "generic_spans (shift_generic_param b p) = map (shift_span b) (generic_spans p)"
  "match_pattern_spans (shift_match_pattern b q) = map (shift_span b) (match_pattern_spans q)"
  "tspan (fp_name (shift_param b r)) = shift_span b (tspan (fp_name r))"
  "rt_arrow_span (shift_return b rt) = shift_span b (rt_arrow_span rt)"
  by (simp_all add: generic_spans_def shift_generic_param_def match_pattern_spans_def shift_match_pattern_def
      shift_param_def shift_return_def opt_list_map map_opt_list comp_def)

lemma spans_shift:
  "expr_spans (shift_expr b e) = map (shift_span b) (expr_spans e)"
  "property_spans (shift_property b p) = map (shift_span b) (property_spans p)"
  "stmt_spans (shift_stmt b s) = map (shift_span b) (stmt_spans s)"
  "elif_spans (shift_elif b eb) = map (shift_span b) (elif_spans eb)"
  "case_spans (shift_case b mc) = map (shift_span b) (case_spans mc)"
  "member_spans (shift_member b em) = map (shift_span b) (member_spans em)"
  by (induction e and p and s and eb and mc and em)
    (simp_all add: map_concat comp_def opt_list_map map_opt_list cong: map_cong map_option_cong)

text \<open>The span of a shifted expression is its span, shifted, when its spans are those of real text.\<close>

definition real_span :: "span \<Rightarrow> bool" where
  "real_span sp \<longleftrightarrow> span_stop sp \<noteq> 0"

lemma span_to_shift:
  "real_span x \<Longrightarrow> real_span y \<Longrightarrow> span_to (shift_span b x) (shift_span b y) = shift_span b (span_to x y)"
  "real_span y \<Longrightarrow> real_span (span_to x y)"
  by (simp_all add: real_span_def shift_span_def span_to_def)

lemma expr_span_shift:
  "list_all real_span (expr_spans e) \<Longrightarrow>
    real_span (expr_span e) \<and> expr_span (shift_expr b e) = shift_span b (expr_span e)"
proof (induction e)
  case (ECall callee paren arguments)
  show ?case
  proof (cases "arguments = []")
    case False
    then have "list_all real_span (expr_spans (last arguments))" using ECall.prems by (auto simp: list_all_iff)
    then show ?thesis using ECall False by (simp add: span_to_shift Let_def last_map)
  qed (use ECall in \<open>simp add: span_to_shift\<close>)
qed (auto simp: span_to_shift list_all_iff)

section \<open>Shifting composes\<close>

lemma map_option_map_cong:
  "(\<And>xs z. x = Some xs \<Longrightarrow> z \<in> set xs \<Longrightarrow> f z = g z) \<Longrightarrow> map_option (map f) x = map_option (map g) x"
  by (cases x) auto

lemma shift_span_add: "shift_span b (shift_span a sp) = shift_span (a + b) sp" "shift_span 0 sp = sp"
  by (simp_all add: shift_span_def)

lemma shift_token_add: "shift_token b (shift_token a t) = shift_token (a + b) t" "shift_token 0 t = t"
  by (simp_all add: shift_token_def shift_span_add)

lemma shift_type_add: "shift_type b (shift_type a t) = shift_type (a + b) t" "shift_type 0 t = t"
  by (induction a t rule: shift_type.induct) (simp_all add: shift_token_add)

lemma shift_add:
  "shift_expr b (shift_expr a e) = shift_expr (a + b) e"
  "shift_property b (shift_property a p) = shift_property (a + b) p"
  "shift_stmt b (shift_stmt a s) = shift_stmt (a + b) s"
  "shift_elif b (shift_elif a eb) = shift_elif (a + b) eb"
  "shift_case b (shift_case a mc) = shift_case (a + b) mc"
  "shift_member b (shift_member a em) = shift_member (a + b) em"
proof (induction e and p and s and eb and mc and em)
  case (SGo call block sp)
  then show ?case by (simp add: shift_span_add option.map_comp comp_def) (rule map_option_map_cong, simp)
qed (simp_all add: shift_span_add shift_token_add shift_type_add shift_param_def shift_return_def
      shift_generic_param_def shift_match_pattern_def comp_def option.map_comp cong: map_cong map_option_cong)

lemma shift_zero:
  "shift_expr 0 e = e" "shift_property 0 p = p" "shift_stmt 0 s = s" "shift_elif 0 eb = eb" "shift_case 0 mc = mc"
  "shift_member 0 em = em"
  by (induction e and p and s and eb and mc and em)
    (simp_all add: shift_span_add shift_token_add shift_type_add shift_param_def shift_return_def
      shift_generic_param_def shift_match_pattern_def map_idI option.map_ident cong: map_cong map_option_cong)

section \<open>Merging modules\<close>

text \<open>The loop over the modules gives each a base: past the sources of the modules before it.\<close>

primrec merge_bases :: "usize \<Rightarrow> string list \<Rightarrow> usize list" where
  "merge_bases base [] = []"
| "merge_bases base (source # rest) = base # merge_bases (base + (length source + 1)) rest"

lemma merge_bases_above: "i < length srcs \<Longrightarrow> base \<le> merge_bases base srcs ! i"
proof (induction srcs arbitrary: base i)
  case (Cons src srcs)
  show ?case
  proof (cases i)
    case (Suc j)
    then show ?thesis using Cons.IH [of j "base + (length src + 1)"] Cons.prems by simp
  qed simp
qed simp

lemma merge_bases_apart:
  "i < j \<Longrightarrow> j < length srcs \<Longrightarrow> merge_bases base srcs ! i + length (srcs ! i) < merge_bases base srcs ! j"
proof (induction srcs arbitrary: base i j)
  case (Cons src srcs)
  then obtain k where k: "j = Suc k" by (cases j) auto
  show ?case
  proof (cases i)
    case 0
    then show ?thesis using merge_bases_above [of k srcs "base + (length src + 1)"] Cons.prems k by simp
  next
    case (Suc m)
    then show ?thesis using Cons.IH [of m k] Cons.prems k by simp
  qed
qed simp

text \<open>The spans of a program lie in a source.\<close>

definition spans_in :: "string \<Rightarrow> program \<Rightarrow> bool" where
  "spans_in src p \<longleftrightarrow> list_all (\<lambda>sp. span_start sp \<le> span_stop sp \<and> span_stop sp \<le> length src) (program_spans p)"

lemma program_spans_shift: "program_spans (shift_spans b p) = map (shift_span b) (program_spans p)"
  by (simp add: program_spans_def shift_spans_def map_concat comp_def spans_shift)

section \<open>Properties\<close>

text \<open>
  C33: When modules are merged, each shifted by the base that the merge computes for it, the spans of an
  earlier module end before those of a later one begin. Placeholder spans and the spans inside type
  annotations are left out.
\<close>

theorem merged_modules_apart:
  assumes "i < j" "j < length ms" "spans_in (fst (ms ! i)) (snd (ms ! i))" "spans_in (fst (ms ! j)) (snd (ms ! j))"
    and "bases = merge_bases base (map fst ms)"
    and "sp \<in> set (program_spans (shift_spans (bases ! i) (snd (ms ! i))))" "real_span sp"
    and "sq \<in> set (program_spans (shift_spans (bases ! j) (snd (ms ! j))))" "real_span sq"
  shows "span_stop sp < span_start sq"
proof -
  obtain s where s: "sp = shift_span (bases ! i) s" "s \<in> set (program_spans (snd (ms ! i)))"
    using assms(6) by (auto simp: program_spans_shift)
  obtain t where t: "sq = shift_span (bases ! j) t" "t \<in> set (program_spans (snd (ms ! j)))"
    using assms(8) by (auto simp: program_spans_shift)
  have "span_stop s \<le> length (fst (ms ! i))" using assms(3) s(2) by (auto simp: spans_in_def list_all_iff)
  then have "span_stop sp \<le> bases ! i + length (fst (ms ! i))"
    using s(1) by (auto simp: shift_span_def split: if_splits)
  moreover have "bases ! j \<le> span_start sq"
    using assms(9) t by (auto simp: shift_span_def real_span_def split: if_splits)
  moreover have "bases ! i + length (fst (ms ! i)) < bases ! j"
    using merge_bases_apart [of i j "map fst ms" base] assms(1,2,5) by simp
  ultimately show ?thesis by linarith
qed

definition sample_module :: "string \<times> program" where
  "sample_module = (''break;'', \<lparr>statements = [SBreak (span_new 0 5 1 1)]\<rparr>)"

theorem merged_modules_apart_witness:
  "span_stop (shift_span 0 (span_new 0 5 1 1)) < span_start (shift_span 7 (span_new 0 5 1 1)) \<and>
   merge_bases 0 (map fst [sample_module, sample_module]) = [0, 7]"
proof -
  have "span_stop (shift_span 0 (span_new 0 5 1 1)) < span_start (shift_span 7 (span_new 0 5 1 1))"
    by (rule merged_modules_apart [of 0 1 "[sample_module, sample_module]" "[0, 7]" 0])
      (simp_all add: sample_module_def spans_in_def program_spans_def shift_spans_def shift_span_def span_new_def
        real_span_def)
  then show ?thesis by (simp add: sample_module_def)
qed

text \<open>
  Shifting a program moves all its spans, in place, by the base: nothing outside type annotations is
  missed, and shifting twice is shifting by the sum. The span that an expression reports moves along
  when no part of it is a placeholder.
\<close>

theorem shift_spans_exact:
  "program_spans (shift_spans b p) = map (shift_span b) (program_spans p) \<and>
   shift_spans b (shift_spans a p) = shift_spans (a + b) p \<and> shift_spans 0 p = p \<and>
   (list_all real_span (expr_spans e) \<longrightarrow> expr_span (shift_expr b e) = shift_span b (expr_span e))"
proof -
  have "shift_stmt 0 = (\<lambda>s. s)" by (simp add: fun_eq_iff shift_zero)
  then have "shift_spans b (shift_spans a p) = shift_spans (a + b) p" "shift_spans 0 p = p"
    by (simp_all add: shift_spans_def comp_def shift_add)
  then show ?thesis using program_spans_shift expr_span_shift by simp
qed

theorem shift_spans_exact_witness:
  "expr_span (shift_expr 10 (ECopy (ELiteral LNil (span_new 5 8 1 6)) (span_new 0 4 1 1))) = span_new 10 18 1 1"
proof -
  let ?e = "ECopy (ELiteral LNil (span_new 5 8 1 6)) (span_new 0 4 1 1)"
  have "list_all real_span (expr_spans ?e)" by (simp add: real_span_def span_new_def)
  then have "expr_span (shift_expr 10 ?e) = shift_span 10 (expr_span ?e)" using shift_spans_exact by blast
  then show ?thesis by (simp add: shift_span_def span_new_def span_to_def)
qed

text \<open>
  A type name below any other constructor than an array or an option keeps the offsets of its own
  module, as do the types of the data of an enum variant.
\<close>

theorem shift_type_stops:
  "shift_type b (TAResult t u) = TAResult t u \<and> shift_type b (TAView t m) = TAView t m \<and>
   shift_type b (TAShared t) = TAShared t \<and> shift_type b (TASlice s) = TASlice s \<and> shift_type b (TAOwn t) = TAOwn t \<and>
   shift_type b (TARef t m) = TARef t m \<and> shift_type b (TARawPointer t m) = TARawPointer t m \<and>
   shift_type b (TAImplTrait k) = TAImplTrait k \<and> shift_type b (TADyn k) = TADyn k \<and>
   shift_type b (TATuple ts) = TATuple ts \<and> shift_type b (TAChan t) = TAChan t \<and>
   shift_member b (EnumMember k None ts) = EnumMember (shift_token b k) None ts \<and>
   (b \<noteq> 0 \<and> real_span (tspan k) \<longrightarrow> shift_type b (TANamed k) \<noteq> TANamed k)"
proof -
  have "shift_type b (TANamed k) \<noteq> TANamed k" if "b \<noteq> 0" "real_span (tspan k)"
  proof
    assume "shift_type b (TANamed k) = TANamed k"
    then have "span_stop (tspan (shift_token b k)) = span_stop (tspan k)" by simp
    then show False using that by (simp add: shift_span_def real_span_def)
  qed
  then show ?thesis by simp
qed

theorem shift_type_stops_witness:
  "shift_type 10 (TANamed (token_new (TkIdentifier ''T'') (span_new 3 4 1 4))) \<noteq>
     TANamed (token_new (TkIdentifier ''T'') (span_new 3 4 1 4)) \<and>
   shift_type 10 (TAChan (TANamed (token_new (TkIdentifier ''T'') (span_new 3 4 1 4)))) =
     TAChan (TANamed (token_new (TkIdentifier ''T'') (span_new 3 4 1 4)))"
proof -
  have "real_span (tspan (token_new (TkIdentifier ''T'') (span_new 3 4 1 4)))"
    by (simp add: real_span_def span_new_def)
  then show ?thesis using shift_type_stops [of 10 _ _ _ _ "token_new (TkIdentifier ''T'') (span_new 3 4 1 4)"] by simp
qed

end
