(* ===== verification/Raw_Lexer.thy ===== *)
theory Raw_Lexer
  imports Ast_Token
begin

text \<open>
  The raw tokens of \<open>crates/ntsc-lexer/src/raw.rs\<close> and the rules that its attributes declare.

  The lexer itself is generated from those attributes by the \<open>logos\<close> crate, which is not part of
  the repository; \<open>Lexer\<close> takes it as a parameter. What the sources rely on is the locale
  \<open>logos_lexer\<close> below. \<open>raw_rules\<close> is the lexer that the declared rules describe: skip patterns
  first, then the longest match, a literal before an identifier of the same length, and one code
  point for text that no rule matches. It is shown to meet the locale.
\<close>

section \<open>Raw tokens\<close>

datatype (plugins only: size) raw_token =
    RtLeftParen | RtRightParen | RtLeftBrace | RtRightBrace | RtLeftBracket | RtRightBracket
  | RtComma | RtDot | RtMinus | RtPlus | RtSemicolon | RtColon | RtStar | RtPercent | RtAmpersand
  | RtPipe | RtCaret | RtTilde | RtQuestion | RtBangEqual | RtBang | RtEqualEqual | RtArrow
  | RtEqual | RtGreaterEqual | RtGreaterGreater | RtPipeGreater | RtGreater | RtLessEqual
  | RtLessLess | RtLessPipe | RtLess | RtPlusPlus | RtMinusMinus | RtAndSym | RtOrSym
  | RtReturnArrow | RtDotDotDot | RtDotDot | RtQuestionDot | RtSlash | RtNewline | RtNumberLiteral
  | RtStringLiteral | RtSingleQuoteStringLiteral | RtRawStringLiteral
  | RtRawSingleQuoteStringLiteral | RtIdentifier | RtAnd | RtClass | RtElif | RtElse | RtFalse
  | RtFor | RtFun | RtIf | RtNil | RtOr | RtSay | RtReturn | RtStatic | RtSuper | RtThis | RtTrue
  | RtVar | RtWhile | RtDo | RtBreak | RtContinue | RtMatch | RtCase | RtDefault | RtTry | RtCatch
  | RtFinally | RtThrow | RtRetry | RtUnsafe | RtQuiet | RtEnum | RtType | RtTrait | RtImpl | RtIn
  | RtUse | RtFrom | RtAs | RtTest | RtAsync | RtAwait | RtView | RtMut | RtShared | RtCopy | RtOwn
  | RtGo | RtChan | RtClose | RtTypeInt | RtTypeFloat | RtTypeString | RtTypeBool | RtTypeArray
  | RtTypeObject | RtTypeOption | RtTypeResult | RtTypeAny | RtTypePointer | RtTypeSlice

text \<open>The literals declared by \<open>#[token(...)]\<close>, in the order of the declarations.\<close>

definition raw_literals :: "(string \<times> raw_token) list" where
  "raw_literals =
     [(''('', RtLeftParen), ('')'', RtRightParen), (''{'', RtLeftBrace), (''}'', RtRightBrace)
      , (''['', RtLeftBracket), ('']'', RtRightBracket), ('','', RtComma), (''.'', RtDot)
      , (''-'', RtMinus), (''+'', RtPlus), ('';'', RtSemicolon), ('':'', RtColon), (''*'', RtStar)
      , (''%'', RtPercent), (''&'', RtAmpersand), (''|'', RtPipe), (''^'', RtCaret)
      , (''~'', RtTilde), (''?'', RtQuestion), (''!='', RtBangEqual), (''!'', RtBang)
      , (''=='', RtEqualEqual), (''=>'', RtArrow), (''='', RtEqual), (''>='', RtGreaterEqual)
      , (''>>'', RtGreaterGreater), (''|>'', RtPipeGreater), (''>'', RtGreater)
      , (''<='', RtLessEqual), (''<<'', RtLessLess), (''<|'', RtLessPipe), (''<'', RtLess)
      , (''++'', RtPlusPlus), (''--'', RtMinusMinus), (''&&'', RtAndSym), (''||'', RtOrSym)
      , (''->'', RtReturnArrow), (''...'', RtDotDotDot), (''..'', RtDotDot), (''?.'', RtQuestionDot)
      , (''/'', RtSlash), (''and'', RtAnd), (''class'', RtClass), (''elif'', RtElif)
      , (''else'', RtElse), (''false'', RtFalse), (''for'', RtFor), (''fun'', RtFun), (''if'', RtIf)
      , (''nil'', RtNil), (''or'', RtOr), (''say'', RtSay), (''return'', RtReturn)
      , (''static'', RtStatic), (''super'', RtSuper), (''this'', RtThis), (''true'', RtTrue)
      , (''var'', RtVar), (''while'', RtWhile), (''do'', RtDo), (''break'', RtBreak)
      , (''continue'', RtContinue), (''match'', RtMatch), (''case'', RtCase)
      , (''default'', RtDefault), (''try'', RtTry), (''catch'', RtCatch), (''finally'', RtFinally)
      , (''throw'', RtThrow), (''retry'', RtRetry), (''unsafe'', RtUnsafe), (''quiet'', RtQuiet)
      , (''enum'', RtEnum), (''type'', RtType), (''trait'', RtTrait), (''impl'', RtImpl)
      , (''in'', RtIn), (''use'', RtUse), (''from'', RtFrom), (''as'', RtAs), (''test'', RtTest)
      , (''async'', RtAsync), (''await'', RtAwait), (''view'', RtView), (''mut'', RtMut)
      , (''shared'', RtShared), (''copy'', RtCopy), (''own'', RtOwn), (''go'', RtGo)
      , (''chan'', RtChan), (''close'', RtClose), (''int'', RtTypeInt), (''float'', RtTypeFloat)
      , (''string'', RtTypeString), (''bool'', RtTypeBool), (''array'', RtTypeArray)
      , (''object'', RtTypeObject), (''option'', RtTypeOption), (''result'', RtTypeResult)
      , (''any'', RtTypeAny), (''pointer'', RtTypePointer), (''slice'', RtTypeSlice)]"

section \<open>The declared patterns\<close>

text \<open>Each matcher gives the length of the longest prefix that its pattern matches.\<close>

definition is_digit :: "char \<Rightarrow> bool" where
  "is_digit c \<longleftrightarrow> of_char c \<in> {48..57 :: nat}"

definition is_ident_start :: "char \<Rightarrow> bool" where
  "is_ident_start c \<longleftrightarrow> of_char c \<in> {97..122 :: nat} \<or> of_char c \<in> {65..90 :: nat} \<or> of_char c = (95 :: nat)"

definition is_ident_char :: "char \<Rightarrow> bool" where
  "is_ident_char c \<longleftrightarrow> is_ident_start c \<or> is_digit c"

definition LF :: char where
  "LF = CHR 0x0A"

definition BACKSLASH :: char where
  "BACKSLASH = CHR 0x5C"

definition DQUOTE :: char where
  "DQUOTE = CHR 0x22"

definition SQUOTE :: char where
  "SQUOTE = CHR 0x27"

definition match_number :: "string \<Rightarrow> nat option" where
  "match_number s =
     (let n = length (takeWhile is_digit s)
      in if n = 0 then None
         else (case drop n s of
                 [] \<Rightarrow> Some n
               | c # rest \<Rightarrow>
                   (let m = length (takeWhile is_digit rest)
                    in if c = CHR ''.'' \<and> 0 < m then Some (n + 1 + m) else Some n)))"

definition match_identifier :: "string \<Rightarrow> nat option" where
  "match_identifier s =
     (case s of
        [] \<Rightarrow> None
      | c # cs \<Rightarrow> if is_ident_start c then Some (Suc (length (takeWhile is_ident_char cs))) else None)"

text \<open>The rest of a string literal after its opening quote.\<close>

fun string_body :: "char \<Rightarrow> string \<Rightarrow> nat option" where
  "string_body q [] = None"
| "string_body q [c] = (if c = q then Some 1 else None)"
| "string_body q (c # d # ds) =
     (if c = q then Some 1
      else if c = BACKSLASH then if d = LF then None else map_option (\<lambda>n. n + 2) (string_body q ds)
      else map_option Suc (string_body q (d # ds)))"

definition match_string :: "char \<Rightarrow> string \<Rightarrow> nat option" where
  "match_string q s =
     (case s of [] \<Rightarrow> None | c # cs \<Rightarrow> if c = q then map_option Suc (string_body q cs) else None)"

definition match_raw_string :: "char \<Rightarrow> string \<Rightarrow> nat option" where
  "match_raw_string q s =
     (case s of [] \<Rightarrow> None | c # cs \<Rightarrow> if c = CHR ''r'' then map_option Suc (match_string q cs) else None)"

definition starts_with :: "string \<Rightarrow> string \<Rightarrow> bool" where
  "starts_with lit s \<longleftrightarrow> take (length lit) s = lit"

definition match_literal :: "string \<Rightarrow> string \<Rightarrow> nat option" where
  "match_literal lit s = (if starts_with lit s then Some (length lit) else None)"

text \<open>The skip patterns: blanks, line comments and block comments; zero when none applies.\<close>

definition is_blank :: "char \<Rightarrow> bool" where
  "is_blank c \<longleftrightarrow> c = CHR '' '' \<or> c = CHR 0x09 \<or> c = CHR 0x0D"

definition skip_len :: "string \<Rightarrow> nat" where
  "skip_len s =
     (let blanks = length (takeWhile is_blank s)
      in if 0 < blanks then blanks
         else if starts_with ''//'' s then 2 + length (takeWhile (\<lambda>c. c \<noteq> LF) (drop 2 s))
         else if starts_with ''#{'' s
         then (let n = length (takeWhile (\<lambda>c. c \<noteq> CHR ''}'') (drop 2 s))
               in if n < length (drop 2 s) then n + 3 else 0)
         else 0)"

section \<open>Longest match\<close>

definition raw_candidates :: "string \<Rightarrow> (nat option \<times> raw_token) list" where
  "raw_candidates s =
     map (\<lambda>(lit, t). (match_literal lit s, t)) raw_literals @
     [(match_literal [LF] s, RtNewline), (match_number s, RtNumberLiteral),
      (match_string DQUOTE s, RtStringLiteral), (match_string SQUOTE s, RtSingleQuoteStringLiteral),
      (match_raw_string DQUOTE s, RtRawStringLiteral), (match_raw_string SQUOTE s, RtRawSingleQuoteStringLiteral),
      (match_identifier s, RtIdentifier)]"

fun longest :: "(nat option \<times> 'a) list \<Rightarrow> (nat \<times> 'a) option" where
  "longest [] = None"
| "longest ((None, t) # cs) = longest cs"
| "longest ((Some n, t) # cs) =
     (case longest cs of
        None \<Rightarrow> Some (n, t)
      | Some (m, u) \<Rightarrow> if n < m then Some (m, u) else Some (n, t))"

type_synonym raw_lexer = "string \<Rightarrow> nat \<Rightarrow> (raw_token option \<times> nat \<times> nat) option"

text \<open>A raw lexer maps the source and the end of the previous token to the next token with its byte
  range (\<open>None\<close> as its kind for unmatched text), or to \<open>None\<close> at the end of the source.\<close>

function raw_scan :: "nat \<Rightarrow> string \<Rightarrow> (raw_token option \<times> nat \<times> nat) option" where
  "raw_scan pos s =
     (if s = [] then None
      else if 0 < skip_len s then raw_scan (pos + skip_len s) (drop (skip_len s) s)
      else (case longest (raw_candidates s) of
              Some (n, t) \<Rightarrow> Some (Some t, pos, pos + n)
            | None \<Rightarrow> Some (None, pos, pos + length (hd (chars s)))))"
  by pat_completeness auto

termination by (relation "measure (\<lambda>(pos, s). length s)") auto

declare raw_scan.simps [simp del]

definition raw_rules :: raw_lexer where
  "raw_rules src pos = raw_scan pos (drop pos src)"

section \<open>What the lexer relies on\<close>

text \<open>Every token lies in the source after the previous one and is not empty, the quotes of a
  string literal are part of it, and in UTF-8 text it begins and ends at the boundary of a
  character. Of UTF-8 it is enough to know that a continuation byte never follows an ASCII byte.\<close>

definition char_boundary :: "string \<Rightarrow> nat \<Rightarrow> bool" where
  "char_boundary s i \<longleftrightarrow> i < length s \<longrightarrow> \<not> is_cont (s ! i)"

definition is_ascii :: "char \<Rightarrow> bool" where
  "is_ascii c \<longleftrightarrow> of_char c < (128 :: nat)"

definition utf8_ok :: "string \<Rightarrow> bool" where
  "utf8_ok s \<longleftrightarrow> char_boundary s 0 \<and> (\<forall>i. is_ascii (s ! i) \<longrightarrow> i < length s \<longrightarrow> char_boundary s (Suc i))"

locale logos_lexer =
  fixes raw :: raw_lexer
  assumes range: "raw src pos = Some (res, s, e) \<Longrightarrow> pos \<le> length src \<Longrightarrow> pos \<le> s \<and> s < e \<and> e \<le> length src"
    and quoted: "raw src pos = Some (Some t, s, e) \<Longrightarrow> t = RtStringLiteral \<or> t = RtSingleQuoteStringLiteral \<Longrightarrow> s + 2 \<le> e"
    and raw_quoted: "raw src pos = Some (Some t, s, e) \<Longrightarrow>
      t = RtRawStringLiteral \<or> t = RtRawSingleQuoteStringLiteral \<Longrightarrow> s + 3 \<le> e"
    and boundary: "raw src pos = Some (res, s, e) \<Longrightarrow> pos \<le> length src \<Longrightarrow> utf8_ok src \<Longrightarrow> char_boundary src pos \<Longrightarrow>
      char_boundary src s \<and> char_boundary src e"

lemma length_takeWhile_less: "length (takeWhile P xs) \<le> length xs"
  by (induction xs) auto

lemma match_number_bounds: "match_number s = Some n \<Longrightarrow> 0 < n \<and> n \<le> length s"
proof -
  assume m: "match_number s = Some n"
  let ?k = "length (takeWhile is_digit s)"
  have k: "?k \<le> length s" by (rule length_takeWhile_less)
  show ?thesis
  proof (cases "drop ?k s")
    case Nil
    then show ?thesis using m k by (auto simp: match_number_def Let_def split: if_splits)
  next
    case (Cons c rest)
    have "length s = ?k + Suc (length rest)"
      using arg_cong [OF Cons, of length] k by simp
    then show ?thesis
      using m Cons length_takeWhile_less [of is_digit rest] by (auto simp: match_number_def Let_def split: if_splits)
  qed
qed

lemma match_identifier_bounds: "match_identifier s = Some n \<Longrightarrow> 0 < n \<and> n \<le> length s"
  by (auto simp: match_identifier_def length_takeWhile_less split: list.splits if_splits)

lemma string_body_bounds: "string_body q s = Some n \<Longrightarrow> 1 \<le> n \<and> n \<le> length s"
  by (induction q s arbitrary: n rule: string_body.induct) (auto split: if_splits)

lemma match_string_bounds: "match_string q s = Some n \<Longrightarrow> 2 \<le> n \<and> n \<le> length s"
  using string_body_bounds by (fastforce simp: match_string_def split: list.splits if_splits)

lemma match_raw_string_bounds: "match_raw_string q s = Some n \<Longrightarrow> 3 \<le> n \<and> n \<le> length s"
  using match_string_bounds by (fastforce simp: match_raw_string_def split: list.splits if_splits)

lemma match_literal_bounds: "match_literal lit s = Some n \<Longrightarrow> n = length lit \<and> n \<le> length s"
  using length_take [of "length lit" s] by (auto simp: match_literal_def starts_with_def split: if_splits)

lemma raw_literals_nonempty: "(lit, t) \<in> set raw_literals \<Longrightarrow> lit \<noteq> []"
  unfolding raw_literals_def by auto

lemma raw_literals_plain:
  "(lit, t) \<in> set raw_literals \<Longrightarrow>
   t \<notin> {RtStringLiteral, RtSingleQuoteStringLiteral, RtRawStringLiteral, RtRawSingleQuoteStringLiteral}"
  unfolding raw_literals_def by auto

lemma longest_mem: "longest cs = Some (n, t) \<Longrightarrow> (Some n, t) \<in> set cs"
  by (induction cs arbitrary: n t rule: longest.induct) (auto split: option.splits if_splits)

lemma candidate_cases:
  assumes "(Some n, t) \<in> set (raw_candidates s)"
  obtains lit where "(lit, t) \<in> set raw_literals" "match_literal lit s = Some n"
  | "t = RtNewline" "match_literal [LF] s = Some n"
  | "t = RtNumberLiteral" "match_number s = Some n"
  | q where "t = RtStringLiteral \<or> t = RtSingleQuoteStringLiteral" "match_string q s = Some n" "is_ascii q"
  | q where "t = RtRawStringLiteral \<or> t = RtRawSingleQuoteStringLiteral" "match_raw_string q s = Some n" "is_ascii q"
  | "t = RtIdentifier" "match_identifier s = Some n"
proof -
  have "is_ascii DQUOTE" "is_ascii SQUOTE" by (simp_all add: DQUOTE_def SQUOTE_def is_ascii_def)
  with assms that show ?thesis unfolding raw_candidates_def by (auto split: prod.splits)
qed

lemma candidate_bounds:
  assumes "(Some n, t) \<in> set (raw_candidates s)"
  shows "0 < n \<and> n \<le> length s"
  using assms
proof (cases rule: candidate_cases)
  case (1 lit)
  then show ?thesis using match_literal_bounds [of lit s n] raw_literals_nonempty [of lit t] by auto
next
  case 2
  then show ?thesis using match_literal_bounds [of "[LF]" s n] by simp
next
  case 3
  then show ?thesis by (simp add: match_number_bounds)
next
  case (4 q)
  then show ?thesis using match_string_bounds [of q s n] by simp
next
  case (5 q)
  then show ?thesis using match_raw_string_bounds [of q s n] by simp
next
  case 6
  then show ?thesis by (simp add: match_identifier_bounds)
qed

lemma candidate_quoted:
  assumes "(Some n, t) \<in> set (raw_candidates s)"
  shows "t = RtStringLiteral \<or> t = RtSingleQuoteStringLiteral \<Longrightarrow> 2 \<le> n"
    "t = RtRawStringLiteral \<or> t = RtRawSingleQuoteStringLiteral \<Longrightarrow> 3 \<le> n"
  using assms match_string_bounds [of _ s n] match_raw_string_bounds [of _ s n] raw_literals_plain [of _ t]
  by (cases rule: candidate_cases; auto)+

lemma hd_chars_bounds: "s \<noteq> [] \<Longrightarrow> 0 < length (hd (chars s)) \<and> length (hd (chars s)) \<le> length s"
  using concat_chars [of s] chars_nonempty [of "hd (chars s)" s]
  by (cases "chars s") (auto dest: arg_cong [of _ _ length])

lemma skip_len_bound: "skip_len s \<le> length s"
  using length_takeWhile_less [of is_blank s] length_takeWhile_less [of "\<lambda>c. c \<noteq> LF" "drop 2 s"]
  by (auto simp: skip_len_def Let_def starts_with_def dest: arg_cong [of _ _ length])

lemma raw_scan_facts:
  "raw_scan pos s = Some (res, i, j) \<Longrightarrow>
   pos \<le> i \<and> i < j \<and> j \<le> pos + length s \<and>
   (\<forall>t. res = Some t \<longrightarrow> (\<exists>s'. (Some (j - i), t) \<in> set (raw_candidates s')))"
proof (induction pos s rule: raw_scan.induct)
  case (1 pos s)
  show ?case
  proof (cases "0 < skip_len s")
    case True
    have ne: "s \<noteq> []" using "1.prems" by (auto simp: raw_scan.simps [of pos s])
    have "raw_scan (pos + skip_len s) (drop (skip_len s) s) = Some (res, i, j)"
      using "1.prems" True ne by (simp add: raw_scan.simps [of pos s])
    then show ?thesis using "1.IH" [OF ne True] skip_len_bound [of s] by auto
  next
    case False
    with "1.prems" have ne: "s \<noteq> []" and r: "(case longest (raw_candidates s) of
          Some (n, t) \<Rightarrow> Some (Some t, pos, pos + n) | None \<Rightarrow> Some (None, pos, pos + length (hd (chars s)))) =
        Some (res, i, j)"
      by (auto simp: raw_scan.simps [of pos s] split: if_splits)
    show ?thesis
    proof (cases "longest (raw_candidates s)")
      case None
      then show ?thesis using r hd_chars_bounds [OF ne] by auto
    next
      case (Some c)
      then obtain n t where c: "longest (raw_candidates s) = Some (n, t)" by (cases c) auto
      with longest_mem [OF c] candidate_bounds [of n t s] r show ?thesis by auto
    qed
  qed
qed

text \<open>A match of a rule ends with an ASCII byte.\<close>

lemma is_digit_ascii: "is_digit c \<Longrightarrow> is_ascii c"
  by (simp add: is_digit_def is_ascii_def)

lemma is_ident_ascii: "is_ident_start c \<Longrightarrow> is_ascii c" "is_ident_char c \<Longrightarrow> is_ascii c"
  by (auto simp: is_ident_start_def is_ident_char_def is_digit_def is_ascii_def)

lemma takeWhile_last: "0 < length (takeWhile P xs) \<Longrightarrow> P (xs ! (length (takeWhile P xs) - 1))"
  by (metis diff_less nth_mem set_takeWhileD takeWhile_nth zero_less_one)

lemma match_number_ascii: "match_number s = Some n \<Longrightarrow> is_ascii (s ! (n - 1))"
proof -
  assume m: "match_number s = Some n"
  let ?k = "length (takeWhile is_digit s)"
  have k: "0 < ?k" using m by (auto simp: match_number_def Let_def split: if_splits)
  have dig: "is_ascii (s ! (?k - 1))" using takeWhile_last [of is_digit s] k is_digit_ascii by blast
  show ?thesis
  proof (cases "drop ?k s")
    case Nil
    then show ?thesis using m dig by (auto simp: match_number_def Let_def split: if_splits)
  next
    case (Cons c rest)
    let ?m = "length (takeWhile is_digit rest)"
    have rest: "rest = drop (Suc ?k) s" using Cons by (metis drop_Suc list.sel(3) tl_drop)
    have "n = ?k \<or> 0 < ?m \<and> n = ?k + 1 + ?m"
      using m k Cons by (auto simp: match_number_def Let_def split: if_splits)
    moreover have "is_ascii (s ! (?k + 1 + ?m - 1))" if "0 < ?m"
    proof -
      have "is_ascii (rest ! (?m - 1))" using takeWhile_last [of is_digit rest] that is_digit_ascii by blast
      moreover have "Suc ?k + (?m - 1) = ?k + 1 + ?m - 1" using that by simp
      moreover have "length rest + Suc ?k = length s" using rest Cons length_drop [of ?k s] by simp
      ultimately show ?thesis using rest that length_takeWhile_less [of is_digit rest] by (metis add.commute add_leE le_add1 nth_drop)
    qed
    ultimately show ?thesis using dig by auto
  qed
qed

lemma match_identifier_ascii: "match_identifier s = Some n \<Longrightarrow> is_ascii (s ! (n - 1))"
proof -
  assume m: "match_identifier s = Some n"
  then obtain c cs where s: "s = c # cs" "is_ident_start c" "n = Suc (length (takeWhile is_ident_char cs))"
    by (auto simp: match_identifier_def split: list.splits if_splits)
  show ?thesis
  proof (cases "length (takeWhile is_ident_char cs)")
    case 0
    then show ?thesis using s is_ident_ascii by simp
  next
    case (Suc k)
    then have "is_ident_char (cs ! k)" using takeWhile_last [of is_ident_char cs] by simp
    then show ?thesis using s Suc is_ident_ascii by simp
  qed
qed

lemma string_body_last: "string_body q s = Some n \<Longrightarrow> s ! (n - 1) = q"
proof (induction q s arbitrary: n rule: string_body.induct)
  case (3 q c d ds)
  show ?case
  proof (cases "c = q")
    case True
    then show ?thesis using "3.prems" by simp
  next
    case F: False
    show ?thesis
    proof (cases "c = BACKSLASH")
      case True
      then obtain m where m: "string_body q ds = Some m" "n = m + 2" "d \<noteq> LF"
        using "3.prems" F by (auto split: if_splits)
      with "3.IH"(1) [OF F True m(3,1)] string_body_bounds [OF m(1)] show ?thesis
        by (cases m) simp_all
    next
      case False
      then obtain m where m: "string_body q (d # ds) = Some m" "n = Suc m" using "3.prems" F by auto
      with "3.IH"(2) [OF F False m(1)] string_body_bounds [OF m(1)] show ?thesis
        by (cases m) simp_all
    qed
  qed
qed (auto split: if_splits)

lemma match_string_last: "match_string q s = Some n \<Longrightarrow> s ! (n - 1) = q"
  using string_body_last string_body_bounds
  by (fastforce simp: match_string_def nth_Cons' split: list.splits if_splits)

lemma match_raw_string_last: "match_raw_string q s = Some n \<Longrightarrow> s ! (n - 1) = q"
  using match_string_last match_string_bounds
  by (fastforce simp: match_raw_string_def nth_Cons' split: list.splits if_splits)

lemma raw_literals_ascii: "(lit, t) \<in> set raw_literals \<Longrightarrow> is_ascii (last lit)"
  unfolding raw_literals_def is_ascii_def by auto

lemma match_literal_last: "match_literal lit s = Some n \<Longrightarrow> lit \<noteq> [] \<Longrightarrow> s ! (n - 1) = last lit"
  by (metis diff_less last_conv_nth length_greater_0_conv match_literal_def nth_take option.distinct(1)
      option.inject starts_with_def zero_less_one)

lemma candidate_ascii:
  assumes "(Some n, t) \<in> set (raw_candidates s)"
  shows "is_ascii (s ! (n - 1))"
  using assms
proof (cases rule: candidate_cases)
  case (1 lit)
  then show ?thesis
    using match_literal_last [of lit s n] raw_literals_nonempty [of lit t] raw_literals_ascii [of lit t] by simp
next
  case 2
  then show ?thesis using match_literal_last [of "[LF]" s n] by (simp add: LF_def is_ascii_def)
next
  case 3
  then show ?thesis using match_number_ascii by blast
next
  case (4 q)
  then show ?thesis using match_string_last [of q s n] by simp
next
  case (5 q)
  then show ?thesis using match_raw_string_last [of q s n] by simp
next
  case 6
  then show ?thesis using match_identifier_ascii by blast
qed

lemma boundary_after_ascii:
  assumes "utf8_ok src" "0 < n" "pos + n \<le> length src" "is_ascii (drop pos src ! (n - 1))"
  shows "char_boundary src (pos + n)"
proof -
  obtain m where n: "n = Suc m" using assms(2) by (cases n) simp_all
  have "is_ascii (src ! (pos + m))" using assms(3,4) n by simp
  then show ?thesis using assms(1,3) n by (simp add: utf8_ok_def)
qed

lemma skip_boundary:
  assumes utf: "utf8_ok src" and pos: "pos \<le> length src" and skip: "0 < skip_len (drop pos src)"
  shows "char_boundary src (pos + skip_len (drop pos src))"
proof -
  let ?s = "drop pos src"
  let ?b = "length (takeWhile is_blank ?s)"
  have le: "pos + skip_len ?s \<le> length src" using skip_len_bound [of ?s] pos by simp
  have asc: "char_boundary src (pos + skip_len ?s)" if "is_ascii (?s ! (skip_len ?s - 1))"
    by (rule boundary_after_ascii [OF utf skip le that])
  consider "0 < ?b" | "?b = 0" "starts_with ''//'' ?s" | "?b = 0" "\<not> starts_with ''//'' ?s" by linarith
  then show ?thesis
  proof cases
    case 1
    then have "skip_len ?s = ?b" by (simp add: skip_len_def)
    moreover have "is_ascii (?s ! (?b - 1))"
      using takeWhile_last [of is_blank ?s] 1 by (auto simp: is_blank_def is_ascii_def)
    ultimately show ?thesis using asc by simp
  next
    case 2
    let ?n = "length (takeWhile (\<lambda>c. c \<noteq> LF) (drop 2 ?s))"
    have sk: "skip_len ?s = 2 + ?n" using 2 by (simp add: skip_len_def)
    show ?thesis
    proof (cases "pos + skip_len ?s < length src")
      case True
      then have "?n < length (drop 2 ?s)" using sk by simp
      then have "drop 2 ?s ! ?n = LF" using nth_length_takeWhile by fastforce
      then have "src ! (pos + skip_len ?s) = LF" using sk True by (simp add: add_ac)
      then show ?thesis by (simp add: char_boundary_def is_cont_def LF_def)
    next
      case False
      then show ?thesis by (simp add: char_boundary_def)
    qed
  next
    case 3
    let ?n = "length (takeWhile (\<lambda>c. c \<noteq> CHR ''}'') (drop 2 ?s))"
    have n: "skip_len ?s = ?n + 3" "?n < length (drop 2 ?s)"
      using 3 skip by (auto simp: skip_len_def Let_def split: if_splits)
    then have "drop 2 ?s ! ?n = CHR ''}''" using nth_length_takeWhile by fastforce
    then have "?s ! (skip_len ?s - 1) = CHR ''}''" using n by (simp add: add_ac)
    then show ?thesis using asc by (simp add: is_ascii_def)
  qed
qed

lemma chars_second: "chars s = d # e # ds \<Longrightarrow> \<not> is_cont (hd e)"
proof (induction s arbitrary: d e ds)
  case (Cons c cs)
  show ?case
  proof (cases "chars cs")
    case Nil
    then show ?thesis using Cons.prems by simp
  next
    case (Cons d' ds')
    then show ?thesis using Cons.prems Cons.IH chars_nonempty [of d' cs] by (auto split: if_splits)
  qed
qed simp

lemma boundary_after_char:
  assumes "s \<noteq> []"
  shows "char_boundary s (length (hd (chars s)))"
proof (cases "chars s")
  case Nil
  then show ?thesis using assms by simp
next
  case (Cons d ds)
  have s: "s = d @ concat ds" using concat_chars [of s] Cons by simp
  show ?thesis
  proof (cases ds)
    case Nil
    then show ?thesis using s Cons by (simp add: char_boundary_def)
  next
    case (Cons e es)
    then have "\<not> is_cont (hd e)" "e \<noteq> []"
      using chars_second [of s d e es] chars_nonempty [of e s] \<open>chars s = d # ds\<close> by simp_all
    then show ?thesis using s Cons \<open>chars s = d # ds\<close> by (auto simp: char_boundary_def nth_append hd_conv_nth)
  qed
qed

lemma raw_scan_boundary:
  assumes "utf8_ok src"
  shows "raw_scan pos s = Some (res, i, j) \<Longrightarrow> s = drop pos src \<Longrightarrow> pos \<le> length src \<Longrightarrow> char_boundary src pos \<Longrightarrow>
    char_boundary src i \<and> char_boundary src j"
proof (induction pos s rule: raw_scan.induct)
  case (1 pos s)
  have ne: "s \<noteq> []" using "1.prems"(1) by (auto simp: raw_scan.simps [of pos s])
  show ?case
  proof (cases "0 < skip_len s")
    case True
    have "raw_scan (pos + skip_len s) (drop (skip_len s) s) = Some (res, i, j)"
      using "1.prems"(1) True ne by (simp add: raw_scan.simps [of pos s])
    moreover have "pos + skip_len s \<le> length src" "char_boundary src (pos + skip_len s)"
      using skip_len_bound [of s] skip_boundary [OF assms "1.prems"(3)] True "1.prems"(2,3) by simp_all
    ultimately show ?thesis using "1.IH" [OF ne True] "1.prems"(2) by (simp add: add_ac)
  next
    case False
    then have r: "(case longest (raw_candidates s) of
          Some (n, t) \<Rightarrow> Some (Some t, pos, pos + n) | None \<Rightarrow> Some (None, pos, pos + length (hd (chars s)))) =
        Some (res, i, j)"
      using "1.prems"(1) ne by (simp add: raw_scan.simps [of pos s])
    show ?thesis
    proof (cases "longest (raw_candidates s)")
      case None
      have "char_boundary src (pos + length (hd (chars s)))"
        using boundary_after_char [OF ne] "1.prems"(2,3) by (auto simp: char_boundary_def)
      with None show ?thesis using r "1.prems"(4) by auto
    next
      case (Some c)
      then obtain n t where c: "longest (raw_candidates s) = Some (n, t)" by (cases c) auto
      note m = longest_mem [OF c]
      have "char_boundary src (pos + n)"
        using candidate_bounds [OF m] candidate_ascii [OF m] "1.prems"(2,3)
        by (intro boundary_after_ascii [OF assms]) auto
      with c show ?thesis using r "1.prems"(4) by auto
    qed
  qed
qed

interpretation rules: logos_lexer raw_rules
proof
  fix src pos res s e
  assume "raw_rules src pos = Some (res, s, e)" "pos \<le> length src"
  then show "pos \<le> s \<and> s < e \<and> e \<le> length src"
    using raw_scan_facts [of pos "drop pos src"] by (auto simp: raw_rules_def)
next
  fix src pos t s e
  assume r: "raw_rules src pos = Some (Some t, s, e)"
  note f = raw_scan_facts [OF r [unfolded raw_rules_def]]
  then obtain s' where c: "(Some (e - s), t) \<in> set (raw_candidates s')" by blast
  show "t = RtStringLiteral \<or> t = RtSingleQuoteStringLiteral \<Longrightarrow> s + 2 \<le> e"
    using candidate_quoted(1) [OF c] f by linarith
  show "t = RtRawStringLiteral \<or> t = RtRawSingleQuoteStringLiteral \<Longrightarrow> s + 3 \<le> e"
    using candidate_quoted(2) [OF c] f by linarith
next
  fix src pos res s e
  assume "raw_rules src pos = Some (res, s, e)" "pos \<le> length src" "utf8_ok src" "char_boundary src pos"
  then show "char_boundary src s \<and> char_boundary src e"
    using raw_scan_boundary [of src pos] by (simp add: raw_rules_def)
qed

end
