(* ===== verification/Lexer.thy ===== *)
theory Lexer
  imports Raw_Lexer
begin

text \<open>
  The lexer of \<open>crates/ntsc-lexer/src/lib.rs\<close>: it turns raw tokens into tokens with spans,
  strips the quotes of string literals, splits interpolated strings into segments and the tokens
  of the embedded expressions, and ends the stream with \<open>Eof\<close>.

  The state of \<open>Lexer\<close> is the record \<open>lexer\<close>; \<open>lx_pos\<close> is the position of the generated raw
  lexer, which is the parameter \<open>raw\<close> of the operations. The text of an embedded expression is
  lexed by a recursive call of \<open>tokenize\<close>, passed down as \<open>tok\<close>; \<open>tokenize_fuel\<close> bounds the depth
  of that recursion, and \<open>tokenize\<close> gives it one more level than the source has bytes, which is
  enough because each embedded text is shorter than the text around it. \<open>None\<close> stands for a run that
  does not return.
\<close>

section \<open>Interpolated strings\<close>

datatype interp_part = Text_Part string | Expression_Part string

fun find_interp :: "string \<Rightarrow> nat option" where
  "find_interp (c # d # ds) =
     (if c = CHR ''$'' \<and> d = CHR ''{'' then Some 0 else map_option Suc (find_interp (d # ds)))"
| "find_interp _ = None"

text \<open>The position of the brace that closes the given depth of open ones.\<close>

fun find_close :: "nat \<Rightarrow> string \<Rightarrow> nat option" where
  "find_close depth [] = None"
| "find_close depth (c # cs) =
     (if c = CHR ''{'' then map_option Suc (find_close (depth + 1) cs)
      else if c = CHR ''}''
      then if depth - 1 = 0 then Some 0 else map_option Suc (find_close (depth - 1) cs)
      else map_option Suc (find_close depth cs))"

lemma find_interp_bound: "find_interp s = Some i \<Longrightarrow> i + 2 \<le> length s"
  by (induction s arbitrary: i rule: find_interp.induct) (auto split: if_splits)

lemma find_close_bound: "find_close d s = Some i \<Longrightarrow> i < length s"
  by (induction d s arbitrary: i rule: find_close.induct) (auto split: if_splits)

function split_interpolated_string :: "string \<Rightarrow> interp_part list" where
  "split_interpolated_string rest =
     (case find_interp rest of
        None \<Rightarrow> if rest = [] then [] else [Text_Part rest]
      | Some interp_start \<Rightarrow>
          (let text_before = take interp_start rest;
               after_open = interp_start + 2
           in (if text_before = [] then [] else [Text_Part text_before]) @
              (case find_close 1 (drop after_open rest) of
                 Some i \<Rightarrow>
                   (let close_pos = after_open + i
                    in Expression_Part (take (close_pos - after_open) (drop after_open rest)) #
                       split_interpolated_string (drop (close_pos + 1) rest))
               | None \<Rightarrow> [Expression_Part (drop after_open rest)])))"
  by pat_completeness auto

termination
  by (relation "measure length") (auto dest!: find_interp_bound find_close_bound)

declare split_interpolated_string.simps [simp del]

section \<open>The lexer\<close>

record lexer =
  lx_source :: string
  lx_pos :: usize
  lx_buffer :: "token list"
  lx_offset :: usize
  lx_line :: u32
  lx_column :: u32

definition lexer_new :: "string \<Rightarrow> lexer" where
  "lexer_new source =
     \<lparr>lx_source = source, lx_pos = 0, lx_buffer = [], lx_offset = 0, lx_line = 1, lx_column = 1\<rparr>"

definition advance_char :: "u32 \<times> u32 \<Rightarrow> string \<Rightarrow> u32 \<times> u32" where
  "advance_char lc ch = (if ch = [LF] then (fst lc + 1, 1) else (fst lc, snd lc + 1))"

definition advance_through :: "string \<Rightarrow> lexer \<Rightarrow> lexer" where
  "advance_through sl lx =
     (let lc = foldl advance_char (lx_line lx, lx_column lx) (chars sl)
      in lx\<lparr>lx_line := fst lc, lx_column := snd lc, lx_offset := lx_offset lx + length sl\<rparr>)"

text \<open>The advance over the text that the raw lexer skipped before a token.\<close>

definition advance_gap :: "usize \<Rightarrow> lexer \<Rightarrow> lexer" where
  "advance_gap start lx =
     (if lx_offset lx < start
      then advance_through (take (start - lx_offset lx) (drop (lx_offset lx) (lx_source lx))) lx
      else lx)"

text \<open>The raw tokens that become a token of the same name.\<close>

definition convert_plain :: "raw_token \<Rightarrow> token_kind option" where
  "convert_plain raw =
     (case raw of
     RtNewline \<Rightarrow> Some TkNewline | RtLeftParen \<Rightarrow> Some TkLeftParen
      | RtRightParen \<Rightarrow> Some TkRightParen | RtLeftBrace \<Rightarrow> Some TkLeftBrace
      | RtRightBrace \<Rightarrow> Some TkRightBrace
      | RtLeftBracket \<Rightarrow> Some TkLeftBracket
      | RtRightBracket \<Rightarrow> Some TkRightBracket | RtComma \<Rightarrow> Some TkComma
      | RtDot \<Rightarrow> Some TkDot | RtMinus \<Rightarrow> Some TkMinus
      | RtPlus \<Rightarrow> Some TkPlus | RtSemicolon \<Rightarrow> Some TkSemicolon
      | RtColon \<Rightarrow> Some TkColon | RtStar \<Rightarrow> Some TkStar
      | RtPercent \<Rightarrow> Some TkPercent | RtAmpersand \<Rightarrow> Some TkAmpersand
      | RtPipe \<Rightarrow> Some TkPipe | RtCaret \<Rightarrow> Some TkCaret
      | RtTilde \<Rightarrow> Some TkTilde | RtQuestion \<Rightarrow> Some TkQuestion
      | RtBangEqual \<Rightarrow> Some TkBangEqual | RtBang \<Rightarrow> Some TkBang
      | RtEqualEqual \<Rightarrow> Some TkEqualEqual | RtArrow \<Rightarrow> Some TkArrow
      | RtEqual \<Rightarrow> Some TkEqual | RtGreaterEqual \<Rightarrow> Some TkGreaterEqual
      | RtGreaterGreater \<Rightarrow> Some TkGreaterGreater
      | RtPipeGreater \<Rightarrow> Some TkPipeGreater | RtGreater \<Rightarrow> Some TkGreater
      | RtLessEqual \<Rightarrow> Some TkLessEqual | RtLessLess \<Rightarrow> Some TkLessLess
      | RtLessPipe \<Rightarrow> Some TkLessPipe | RtLess \<Rightarrow> Some TkLess
      | RtPlusPlus \<Rightarrow> Some TkPlusPlus | RtMinusMinus \<Rightarrow> Some TkMinusMinus
      | RtAndSym \<Rightarrow> Some TkAndSym | RtOrSym \<Rightarrow> Some TkOrSym
      | RtReturnArrow \<Rightarrow> Some TkReturnArrow | RtDotDotDot \<Rightarrow> Some TkDotDotDot
      | RtDotDot \<Rightarrow> Some TkDotDot | RtQuestionDot \<Rightarrow> Some TkQuestionDot
      | RtSlash \<Rightarrow> Some TkSlash | RtAnd \<Rightarrow> Some TkAnd
      | RtClass \<Rightarrow> Some TkClass | RtElif \<Rightarrow> Some TkElif
      | RtElse \<Rightarrow> Some TkElse | RtFalse \<Rightarrow> Some TkFalse
      | RtFor \<Rightarrow> Some TkFor | RtFun \<Rightarrow> Some TkFun
      | RtIf \<Rightarrow> Some TkIf | RtNil \<Rightarrow> Some TkNil | RtOr \<Rightarrow> Some TkOr
      | RtSay \<Rightarrow> Some TkSay | RtReturn \<Rightarrow> Some TkReturn
      | RtStatic \<Rightarrow> Some TkStatic | RtSuper \<Rightarrow> Some TkSuper
      | RtThis \<Rightarrow> Some TkThis | RtTrue \<Rightarrow> Some TkTrue
      | RtVar \<Rightarrow> Some TkVar | RtWhile \<Rightarrow> Some TkWhile
      | RtDo \<Rightarrow> Some TkDo | RtBreak \<Rightarrow> Some TkBreak
      | RtContinue \<Rightarrow> Some TkContinue | RtMatch \<Rightarrow> Some TkMatch
      | RtCase \<Rightarrow> Some TkCase | RtDefault \<Rightarrow> Some TkDefault
      | RtTry \<Rightarrow> Some TkTry | RtCatch \<Rightarrow> Some TkCatch
      | RtFinally \<Rightarrow> Some TkFinally | RtThrow \<Rightarrow> Some TkThrow
      | RtRetry \<Rightarrow> Some TkRetry | RtUnsafe \<Rightarrow> Some TkUnsafe
      | RtQuiet \<Rightarrow> Some TkQuiet | RtEnum \<Rightarrow> Some TkEnum
      | RtType \<Rightarrow> Some TkType | RtTrait \<Rightarrow> Some TkTrait
      | RtImpl \<Rightarrow> Some TkImpl | RtIn \<Rightarrow> Some TkIn
      | RtUse \<Rightarrow> Some TkUse | RtFrom \<Rightarrow> Some TkFrom
      | RtAs \<Rightarrow> Some TkAs | RtTest \<Rightarrow> Some TkTest
      | RtAsync \<Rightarrow> Some TkAsync | RtAwait \<Rightarrow> Some TkAwait
      | RtView \<Rightarrow> Some TkView | RtMut \<Rightarrow> Some TkMut
      | RtShared \<Rightarrow> Some TkShared | RtCopy \<Rightarrow> Some TkCopy
      | RtOwn \<Rightarrow> Some TkOwn | RtGo \<Rightarrow> Some TkGo
      | RtChan \<Rightarrow> Some TkChan | RtClose \<Rightarrow> Some TkClose
      | RtTypeInt \<Rightarrow> Some TkTypeInt | RtTypeFloat \<Rightarrow> Some TkTypeFloat
      | RtTypeString \<Rightarrow> Some TkTypeString | RtTypeBool \<Rightarrow> Some TkTypeBool
      | RtTypeArray \<Rightarrow> Some TkTypeArray | RtTypeObject \<Rightarrow> Some TkTypeObject
      | RtTypeOption \<Rightarrow> Some TkTypeOption | RtTypeResult \<Rightarrow> Some TkTypeResult
      | RtTypeAny \<Rightarrow> Some TkTypeAny | RtTypePointer \<Rightarrow> Some TkTypePointer
      | RtTypeSlice \<Rightarrow> Some TkTypeSlice | _ \<Rightarrow> None)"

type_synonym tokenizer = "string \<Rightarrow> token list option"

fun interp_tokens :: "tokenizer \<Rightarrow> span \<Rightarrow> interp_part list \<Rightarrow> token list option" where
  "interp_tokens tok sp [] = Some []"
| "interp_tokens tok sp (Text_Part text # parts) =
     map_option (\<lambda>ts. token_new (TkStringSegment text) sp # ts) (interp_tokens tok sp parts)"
| "interp_tokens tok sp (Expression_Part expr_source # parts) =
     Option.bind (tok expr_source) (\<lambda>expr_tokens.
       map_option (\<lambda>ts. filter (\<lambda>t. kind t \<noteq> TkEof) expr_tokens @ ts) (interp_tokens tok sp parts))"

definition is_segment :: "token_kind \<Rightarrow> bool" where
  "is_segment k = (case k of TkStringSegment _ \<Rightarrow> True | _ \<Rightarrow> False)"

definition emit_string_tokens ::
    "tokenizer \<Rightarrow> string \<Rightarrow> span \<Rightarrow> lexer \<Rightarrow> (token \<times> lexer) option" where
  "emit_string_tokens tok content sp lx =
     (if find_interp content = None then Some (token_new (TkStringLiteral content) sp, lx)
      else Option.bind (interp_tokens tok sp (split_interpolated_string content)) (\<lambda>result_tokens.
        if result_tokens = [] then Some (token_new (TkStringLiteral []) sp, lx)
        else (let all_tokens = (if is_segment (kind (hd result_tokens)) then result_tokens
                                else token_new (TkStringSegment []) sp # result_tokens)
              in Some (hd all_tokens, lx\<lparr>lx_buffer := tl all_tokens\<rparr>))))"

definition convert_raw ::
    "tokenizer \<Rightarrow> raw_token \<Rightarrow> span \<Rightarrow> string \<Rightarrow> lexer \<Rightarrow> (token \<times> lexer) option" where
  "convert_raw tok raw sp sl lx =
     (case raw of
        RtNumberLiteral \<Rightarrow> Some (token_new (TkNumberLiteral sl) sp, lx)
      | RtStringLiteral \<Rightarrow> emit_string_tokens tok (butlast (drop 1 sl)) sp lx
      | RtSingleQuoteStringLiteral \<Rightarrow> emit_string_tokens tok (butlast (drop 1 sl)) sp lx
      | RtRawStringLiteral \<Rightarrow> Some (token_new (TkStringLiteral (butlast (drop 2 sl))) sp, lx)
      | RtRawSingleQuoteStringLiteral \<Rightarrow> Some (token_new (TkStringLiteral (butlast (drop 2 sl))) sp, lx)
      | RtIdentifier \<Rightarrow> Some (token_new (TkIdentifier sl) sp, lx)
      | _ \<Rightarrow> map_option (\<lambda>k. (token_new k sp, lx)) (convert_plain raw))"

definition eof_token :: "lexer \<Rightarrow> token" where
  "eof_token lx = token_new TkEof (span_new (lx_offset lx) (lx_offset lx) (lx_line lx) (lx_column lx))"

definition next_token :: "raw_lexer \<Rightarrow> tokenizer \<Rightarrow> lexer \<Rightarrow> (token \<times> lexer) option" where
  "next_token raw tok lx =
     (case lx_buffer lx of
        t # ts \<Rightarrow> Some (t, lx\<lparr>lx_buffer := ts\<rparr>)
      | [] \<Rightarrow>
          (case raw (lx_source lx) (lx_pos lx) of
             None \<Rightarrow> Some (eof_token lx, lx)
           | Some (res, start, stop) \<Rightarrow>
               (let lx0 = lx\<lparr>lx_pos := stop\<rparr>;
                    sl = take (stop - start) (drop start (lx_source lx));
                    lx1 = advance_gap start lx0;
                    start_line = lx_line lx1;
                    start_column = lx_column lx1;
                    lx2 = (advance_through sl lx1)\<lparr>lx_offset := stop\<rparr>;
                    sp = span_new start stop start_line start_column
                in case res of
                     Some raw_tok \<Rightarrow> convert_raw tok raw_tok sp sl lx2
                   | None \<Rightarrow>
                       (let ch = (case chars sl of [] \<Rightarrow> ''?'' | c # _ \<Rightarrow> c)
                        in Some (token_new (TkIdentifier ch) sp, lx2)))))"

text \<open>The loop of \<open>collect\<close>: it calls \<open>next\<close> until that returns no token.\<close>

partial_function (option) lex_loop :: "raw_lexer \<Rightarrow> tokenizer \<Rightarrow> lexer \<Rightarrow> (token list \<times> lexer) option" where
  "lex_loop raw tok lx =
     Option.bind (next_token raw tok lx) (\<lambda>(t, lx1).
       if kind t = TkEof then Some ([], lx1)
       else Option.bind (lex_loop raw tok lx1) (\<lambda>(ts, lx2). Some (t # ts, lx2)))"

primrec tokenize_fuel :: "raw_lexer \<Rightarrow> nat \<Rightarrow> tokenizer" where
  "tokenize_fuel raw 0 source = None"
| "tokenize_fuel raw (Suc n) source =
     Option.bind (lex_loop raw (tokenize_fuel raw n) (lexer_new source)) (\<lambda>(tokens, lx).
       Some (if tokens = [] \<or> kind (last tokens) \<noteq> TkEof then tokens @ [eof_token lx] else tokens))"

definition tokenize :: "raw_lexer \<Rightarrow> tokenizer" where
  "tokenize raw source = tokenize_fuel raw (Suc (length source)) source"

section \<open>Splitting an interpolated string\<close>

fun render_part :: "interp_part \<Rightarrow> string" where
  "render_part (Text_Part t) = t"
| "render_part (Expression_Part e) = ''${'' @ e @ ''}''"

lemma find_interp_split: "find_interp s = Some i \<Longrightarrow> s = take i s @ ''${'' @ drop (i + 2) s"
  by (induction s arbitrary: i rule: find_interp.induct) (auto split: if_splits)

lemma find_close_split: "find_close d s = Some i \<Longrightarrow> s = take i s @ ''}'' @ drop (i + 1) s"
  by (induction d s arbitrary: i rule: find_close.induct) (auto split: if_splits)

lemma split_parts:
  "concat (map render_part (split_interpolated_string s)) \<in> {s, s @ ''}''} \<and>
   (\<forall>e. Expression_Part e \<in> set (split_interpolated_string s) \<longrightarrow> length e + 2 \<le> length s) \<and>
   Text_Part [] \<notin> set (split_interpolated_string s)"
proof (induction s rule: split_interpolated_string.induct)
  case (1 s)
  show ?case
  proof (cases "find_interp s")
    case None
    then show ?thesis by (simp add: split_interpolated_string.simps [of s])
  next
    case (Some i)
    let ?r = "drop (i + 2) s"
    have s: "s = take i s @ ''${'' @ ?r" by (rule find_interp_split [OF Some])
    have len: "i + 2 \<le> length s" by (rule find_interp_bound [OF Some])
    show ?thesis
    proof (cases "find_close 1 ?r")
      case None
      have "split_interpolated_string s = (if take i s = [] then [] else [Text_Part (take i s)]) @ [Expression_Part ?r]"
        using Some None by (simp add: split_interpolated_string.simps [of s])
      then show ?thesis using s len by (auto simp: append_eq_append_conv2)
    next
      case (Some j)
      let ?t = "drop (i + 2 + j + 1) s"
      have r: "?r = take j ?r @ ''}'' @ drop (j + 1) ?r" by (rule find_close_split [OF Some])
      have tl: "drop (j + 1) ?r = ?t" by (simp add: add_ac)
      have sp: "split_interpolated_string s = (if take i s = [] then [] else [Text_Part (take i s)]) @
          Expression_Part (take j ?r) # split_interpolated_string ?t"
        using Some \<open>find_interp s = Some i\<close>
        by (subst split_interpolated_string.simps) (simp add: Let_def)
      have IH: "concat (map render_part (split_interpolated_string ?t)) \<in> {?t, ?t @ ''}''}"
          "\<forall>e. Expression_Part e \<in> set (split_interpolated_string ?t) \<longrightarrow> length e + 2 \<le> length ?t"
          "Text_Part [] \<notin> set (split_interpolated_string ?t)"
        using "1.IH" [OF \<open>find_interp s = Some i\<close> refl refl Some refl] by simp_all
      have "s = take i s @ ''${'' @ take j ?r @ ''}'' @ ?t" using s r tl by metis
      then show ?thesis using IH sp len find_close_bound [OF Some] by auto
    qed
  qed
qed

section \<open>Every source is lexed\<close>

lemma convert_plain_not_eof: "convert_plain t \<noteq> Some TkEof"
  by (cases t) (simp_all add: convert_plain_def)

lemma convert_plain_total:
  "t \<notin> {RtNumberLiteral, RtStringLiteral, RtSingleQuoteStringLiteral, RtRawStringLiteral,
     RtRawSingleQuoteStringLiteral, RtIdentifier} \<Longrightarrow> \<exists>k. convert_plain t = Some k \<and> k \<noteq> TkEof"
  by (cases t) (simp_all add: convert_plain_def)

lemma interp_tokens_total:
  assumes "\<forall>e. Expression_Part e \<in> set parts \<longrightarrow> tok e \<noteq> None"
  shows "\<exists>ts. interp_tokens tok sp parts = Some ts \<and> (\<forall>t \<in> set ts. kind t \<noteq> TkEof)"
  using assms
proof (induction parts)
  case Nil
  then show ?case by simp
next
  case (Cons p parts)
  then obtain ts where ts: "interp_tokens tok sp parts = Some ts" "\<forall>t \<in> set ts. kind t \<noteq> TkEof" by auto
  show ?case
  proof (cases p)
    case (Text_Part x)
    then show ?thesis using ts by simp
  next
    case (Expression_Part e)
    then obtain es where "tok e = Some es" using Cons.prems by auto
    then show ?thesis using Expression_Part ts by auto
  qed
qed

lemma emit_total:
  assumes "\<forall>e. length e < length content \<longrightarrow> tok e \<noteq> None" "lx_buffer lx = []"
  shows "\<exists>t lx'. emit_string_tokens tok content sp lx = Some (t, lx') \<and> kind t \<noteq> TkEof \<and>
    lx' = lx\<lparr>lx_buffer := lx_buffer lx'\<rparr> \<and> (\<forall>u \<in> set (lx_buffer lx'). kind u \<noteq> TkEof)"
proof (cases "find_interp content")
  case None
  then show ?thesis using assms(2) by (simp add: emit_string_tokens_def)
next
  case (Some i)
  have "\<forall>e. Expression_Part e \<in> set (split_interpolated_string content) \<longrightarrow> tok e \<noteq> None"
    using assms(1) split_parts [of content] by auto
  then obtain ts where ts: "interp_tokens tok sp (split_interpolated_string content) = Some ts"
      "\<forall>t \<in> set ts. kind t \<noteq> TkEof"
    using interp_tokens_total by blast
  then show ?thesis
    using Some assms(2) by (cases ts) (auto simp: emit_string_tokens_def Let_def)
qed

text \<open>The part of the source that remains, and then the buffered tokens, shrink with each token.\<close>

definition lex_order :: "(lexer \<times> lexer) set" where
  "lex_order = inv_image (less_than <*lex*> less_than) (\<lambda>lx. (length (lx_source lx) - lx_pos lx, length (lx_buffer lx)))"

lemma wf_lex_order: "wf lex_order"
  by (auto simp: lex_order_def)

definition lexer_ok :: "lexer \<Rightarrow> bool" where
  "lexer_ok lx \<longleftrightarrow> lx_pos lx \<le> length (lx_source lx) \<and> (\<forall>t \<in> set (lx_buffer lx). kind t \<noteq> TkEof)"

lemma advance_through_fields [simp]:
  "lx_source (advance_through sl lx) = lx_source lx"
  "lx_pos (advance_through sl lx) = lx_pos lx"
  "lx_buffer (advance_through sl lx) = lx_buffer lx"
  by (simp_all add: advance_through_def Let_def)

lemma advance_gap_fields [simp]:
  "lx_source (advance_gap start lx) = lx_source lx"
  "lx_pos (advance_gap start lx) = lx_pos lx"
  "lx_buffer (advance_gap start lx) = lx_buffer lx"
  by (simp_all add: advance_gap_def)

lemma butlast_drop_less: "0 < k \<Longrightarrow> k < length xs \<Longrightarrow> length (butlast (drop k xs)) < length xs"
  by auto

lemma convert_raw_total:
  assumes tok: "\<forall>e. length e < length sl \<longrightarrow> tok e \<noteq> None" and buf: "lx_buffer lx = []"
    and quoted: "t = RtStringLiteral \<or> t = RtSingleQuoteStringLiteral \<Longrightarrow> 2 \<le> length sl"
  shows "\<exists>u lx'. convert_raw tok t sp sl lx = Some (u, lx') \<and> kind u \<noteq> TkEof \<and>
    lx' = lx\<lparr>lx_buffer := lx_buffer lx'\<rparr> \<and> (\<forall>v \<in> set (lx_buffer lx'). kind v \<noteq> TkEof)"
proof (cases "t \<in> {RtNumberLiteral, RtRawStringLiteral, RtRawSingleQuoteStringLiteral, RtIdentifier}")
  case True
  then show ?thesis using buf by (auto simp: convert_raw_def)
next
  case F1: False
  show ?thesis
  proof (cases "t \<in> {RtStringLiteral, RtSingleQuoteStringLiteral}")
    case True
    then have "convert_raw tok t sp sl lx = emit_string_tokens tok (butlast (drop 1 sl)) sp lx"
      by (auto simp: convert_raw_def)
    moreover have "length (butlast (drop 1 sl)) < length sl"
      using True quoted by (intro butlast_drop_less) auto
    ultimately show ?thesis
      using emit_total [of "butlast (drop 1 sl)" tok lx sp] tok buf by (metis order_less_trans)
  next
    case False
    then obtain k where "convert_plain t = Some k" "k \<noteq> TkEof"
      using F1 convert_plain_total [of t] by auto
    moreover have "convert_raw tok t sp sl lx = map_option (\<lambda>k. (token_new k sp, lx)) (convert_plain t)"
      using F1 False unfolding convert_raw_def by (cases t) simp_all
    ultimately show ?thesis using buf by simp
  qed
qed

context logos_lexer
begin

lemma next_token_total:
  assumes ok: "lexer_ok lx" and tok: "\<forall>e. length e < length (lx_source lx) \<longrightarrow> tok e \<noteq> None"
  shows "\<exists>t lx'. next_token raw tok lx = Some (t, lx') \<and> lx_source lx' = lx_source lx \<and> lexer_ok lx' \<and>
    (kind t \<noteq> TkEof \<longrightarrow> (lx', lx) \<in> lex_order)"
proof (cases "lx_buffer lx")
  case (Cons u us)
  then show ?thesis using ok by (auto simp: next_token_def lexer_ok_def lex_order_def)
next
  case Nil
  show ?thesis
  proof (cases "raw (lx_source lx) (lx_pos lx)")
    case None
    then show ?thesis using Nil ok by (simp add: next_token_def eof_token_def)
  next
    case (Some x)
    obtain res i j where x: "raw (lx_source lx) (lx_pos lx) = Some (res, i, j)" using Some by (cases x) auto
    have r: "lx_pos lx \<le> i" "i < j" "j \<le> length (lx_source lx)" using range [OF x] ok by (simp_all add: lexer_ok_def)
    let ?sl = "take (j - i) (drop i (lx_source lx))"
    have len: "length ?sl = j - i" using r by simp
    define lx1 where "lx1 = advance_gap i (lx\<lparr>lx_pos := j\<rparr>)"
    define lx2 where "lx2 = (advance_through ?sl lx1)\<lparr>lx_offset := j\<rparr>"
    define sp where "sp = span_new i j (lx_line lx1) (lx_column lx1)"
    have f: "lx_source lx2 = lx_source lx" "lx_pos lx2 = j" "lx_buffer lx2 = []"
      using Nil by (simp_all add: lx2_def lx1_def)
    have step: "(lx', lx) \<in> lex_order" "lexer_ok lx'"
      if "lx' = lx2\<lparr>lx_buffer := lx_buffer lx'\<rparr>" "\<forall>v \<in> set (lx_buffer lx'). kind v \<noteq> TkEof" for lx'
    proof -
      have "lx_source lx' = lx_source lx" "lx_pos lx' = j"
        using f arg_cong [OF that(1), of lx_source] arg_cong [OF that(1), of lx_pos] by simp_all
      then show "(lx', lx) \<in> lex_order" "lexer_ok lx'"
        using r that(2) by (auto simp: lex_order_def lexer_ok_def)
    qed
    show ?thesis
    proof (cases res)
      case None
      have "\<exists>t. next_token raw tok lx = Some (t, lx2) \<and> kind t \<noteq> TkEof"
        using Nil x None by (simp add: next_token_def Let_def lx2_def lx1_def)
      then show ?thesis using step [of lx2] f by auto
    next
      case (Some t)
      have q: "t = RtStringLiteral \<or> t = RtSingleQuoteStringLiteral \<Longrightarrow> 2 \<le> length ?sl"
        using quoted [of "lx_source lx" "lx_pos lx" t i j] x Some len by simp
      have "\<forall>e. length e < length ?sl \<longrightarrow> tok e \<noteq> None" using tok r by simp
      from convert_raw_total [where t = t and sp = sp, OF this f(3) q] obtain u lx' where
        c: "convert_raw tok t sp ?sl lx2 = Some (u, lx')" "kind u \<noteq> TkEof" "lx' = lx2\<lparr>lx_buffer := lx_buffer lx'\<rparr>"
          "\<forall>v \<in> set (lx_buffer lx'). kind v \<noteq> TkEof" by blast
      have "next_token raw tok lx = Some (u, lx')"
        using Nil x Some c(1) by (simp add: next_token_def Let_def lx2_def lx1_def sp_def)
      then show ?thesis
        using step [OF c(3,4)] f(1) arg_cong [OF c(3), of lx_source] by simp
    qed
  qed
qed

lemma lex_loop_total:
  assumes "lexer_ok lx" "\<forall>e. length e < length (lx_source lx) \<longrightarrow> tok e \<noteq> None"
  shows "\<exists>ts lx'. lex_loop raw tok lx = Some (ts, lx') \<and> (\<forall>t \<in> set ts. kind t \<noteq> TkEof)"
  using wf_lex_order assms
proof (induction lx rule: wf_induct_rule)
  case (less lx)
  obtain t lx1 where n: "next_token raw tok lx = Some (t, lx1)" "lx_source lx1 = lx_source lx" "lexer_ok lx1"
      "kind t \<noteq> TkEof \<Longrightarrow> (lx1, lx) \<in> lex_order"
    using next_token_total [OF less.prems] by blast
  show ?case
  proof (cases "kind t = TkEof")
    case True
    then show ?thesis using n(1) by (simp add: lex_loop.simps [of raw tok lx])
  next
    case False
    then obtain ts lx' where "lex_loop raw tok lx1 = Some (ts, lx')" "\<forall>t \<in> set ts. kind t \<noteq> TkEof"
      using less.IH [OF n(4) n(3)] n(2) less.prems(2) by auto
    then show ?thesis using n(1) False by (simp add: lex_loop.simps [of raw tok lx])
  qed
qed

lemma tokenize_fuel_total:
  "length src < n \<Longrightarrow> \<exists>ts t. tokenize_fuel raw n src = Some (ts @ [t]) \<and> kind t = TkEof \<and> (\<forall>u \<in> set ts. kind u \<noteq> TkEof)"
proof (induction n arbitrary: src)
  case (Suc n)
  have "tokenize_fuel raw n e \<noteq> None" if "length e < length src" for e
    using Suc.IH [of e] Suc.prems that by auto
  then have "\<forall>e. length e < length (lx_source (lexer_new src)) \<longrightarrow> tokenize_fuel raw n e \<noteq> None"
    by (simp add: lexer_new_def)
  moreover have "lexer_ok (lexer_new src)" by (simp add: lexer_ok_def lexer_new_def)
  ultimately obtain ts lx' where "lex_loop raw (tokenize_fuel raw n) (lexer_new src) = Some (ts, lx')"
      "\<forall>t \<in> set ts. kind t \<noteq> TkEof"
    using lex_loop_total by blast
  moreover have "ts = [] \<or> kind (last ts) \<noteq> TkEof" using calculation(2) by auto
  ultimately show ?case by (auto simp: eof_token_def)
qed simp

lemma tokenize_total:
  "\<exists>ts t. tokenize raw src = Some (ts @ [t]) \<and> kind t = TkEof \<and> (\<forall>u \<in> set ts. kind u \<noteq> TkEof)"
  unfolding tokenize_def by (rule tokenize_fuel_total) simp

end

section \<open>Spans\<close>

text \<open>The line and column of a byte offset, both counted from one, columns in characters.\<close>

definition position :: "string \<Rightarrow> nat \<Rightarrow> u32 \<times> u32" where
  "position src i = foldl advance_char (1, 1) (chars (take i src))"

text \<open>The spans of the tokens lie one after the other in the source from the given offset on, and
  each carries the line and column of its start.\<close>

fun spans_from :: "string \<Rightarrow> nat \<Rightarrow> token list \<Rightarrow> bool" where
  "spans_from src i [] = True"
| "spans_from src i (t # ts) =
     (i \<le> span_start (tspan t) \<and> span_start (tspan t) \<le> span_stop (tspan t) \<and> span_stop (tspan t) \<le> length src \<and>
      (kind t \<noteq> TkEof \<longrightarrow> span_start (tspan t) < span_stop (tspan t)) \<and>
      (span_line (tspan t), span_column (tspan t)) = position src (span_start (tspan t)) \<and>
      spans_from src (span_stop (tspan t)) ts)"

lemma hd_chars: "s \<noteq> [] \<Longrightarrow> \<exists>cs ds. chars s = (hd s # cs) # ds"
  by (cases s) (auto split: list.splits)

lemma chars_append:
  assumes "ys = [] \<or> \<not> is_cont (hd ys)"
  shows "chars (xs @ ys) = chars xs @ chars ys"
proof (induction xs)
  case (Cons x xs)
  show ?case
  proof (cases xs)
    case Nil
    then show ?thesis using assms hd_chars [of ys] by (cases "ys = []") auto
  next
    case (Cons y zs)
    then obtain d ds where "chars xs = d # ds" using hd_chars [of xs] by auto
    then show ?thesis using Cons.IH by simp
  qed
qed simp

lemma position_advance:
  assumes "char_boundary src i" "i \<le> j" "j \<le> length src"
  shows "position src j = foldl advance_char (position src i) (chars (take (j - i) (drop i src)))"
proof -
  let ?y = "take (j - i) (drop i src)"
  have "take j src = take i src @ ?y" using assms(2) by (metis le_add_diff_inverse take_add)
  moreover have "?y = [] \<or> \<not> is_cont (hd ?y)"
    using assms by (cases "i < length src") (auto simp: char_boundary_def hd_drop_conv_nth)
  ultimately show ?thesis by (simp add: position_def chars_append)
qed

lemma find_interp_drop: "find_interp s = None \<Longrightarrow> find_interp (drop n s) = None"
proof (induction s arbitrary: n rule: find_interp.induct)
  case (1 c d ds)
  then show ?case by (cases n) (auto split: if_splits)
qed (simp_all add: drop_Cons')

lemma find_interp_take: "find_interp s = None \<Longrightarrow> find_interp (take n s) = None"
proof (induction s arbitrary: n rule: find_interp.induct)
  case (1 c d ds)
  show ?case
  proof (cases n)
    case (Suc m)
    have "find_interp (take m (d # ds)) = None" using 1 by (auto split: if_splits)
    then show ?thesis using "1.prems" Suc by (cases m) (auto split: if_splits)
  qed simp
qed (simp_all add: take_Cons')

lemma find_interp_literal: "find_interp s = None \<Longrightarrow> find_interp (butlast (drop k (take n (drop i s)))) = None"
  by (simp add: butlast_conv_take find_interp_take find_interp_drop)

definition lexer_at :: "lexer \<Rightarrow> bool" where
  "lexer_at lx \<longleftrightarrow> lx_buffer lx = [] \<and> lx_offset lx = lx_pos lx \<and> lx_pos lx \<le> length (lx_source lx) \<and>
     char_boundary (lx_source lx) (lx_pos lx) \<and> (lx_line lx, lx_column lx) = position (lx_source lx) (lx_pos lx)"

lemma convert_raw_plain:
  assumes "find_interp (butlast (drop 1 sl)) = None" "lx_buffer lx = []"
  shows "\<exists>u. convert_raw tok t sp sl lx = Some (u, lx) \<and> kind u \<noteq> TkEof \<and> tspan u = sp"
proof (cases "t \<in> {RtNumberLiteral, RtStringLiteral, RtSingleQuoteStringLiteral, RtRawStringLiteral,
     RtRawSingleQuoteStringLiteral, RtIdentifier}")
  case True
  then show ?thesis using assms by (auto simp: convert_raw_def emit_string_tokens_def)
next
  case False
  then obtain k where "convert_plain t = Some k" "k \<noteq> TkEof" using convert_plain_total by blast
  moreover have "convert_raw tok t sp sl lx = map_option (\<lambda>k. (token_new k sp, lx)) (convert_plain t)"
    using False unfolding convert_raw_def by (cases t) simp_all
  ultimately show ?thesis by simp
qed

lemma advance_position:
  assumes "char_boundary src i" "i \<le> j" "j \<le> length src" "(lx_line lx, lx_column lx) = position src i"
  shows "(lx_line (advance_through (take (j - i) (drop i src)) lx), lx_column (advance_through (take (j - i) (drop i src)) lx)) =
    position src j"
  using assms(4) by (simp add: advance_through_def Let_def position_advance [OF assms(1-3)])

context logos_lexer
begin

lemma next_token_plain:
  assumes at: "lexer_at lx" and utf: "utf8_ok (lx_source lx)" and plain: "find_interp (lx_source lx) = None"
    and x: "raw (lx_source lx) (lx_pos lx) = Some (res, i, j)"
  shows "\<exists>t lx'. next_token raw tok lx = Some (t, lx') \<and> lexer_at lx' \<and> lx_source lx' = lx_source lx \<and>
    lx_pos lx' = j \<and> kind t \<noteq> TkEof \<and> span_start (tspan t) = i \<and> span_stop (tspan t) = j \<and>
    (span_line (tspan t), span_column (tspan t)) = position (lx_source lx) i"
proof -
  let ?src = "lx_source lx"
  note a = at [unfolded lexer_at_def]
  have r: "lx_pos lx \<le> i" "i < j" "j \<le> length ?src" using range [OF x] a by simp_all
  have b: "char_boundary ?src i" "char_boundary ?src j" using boundary [OF x] a utf by simp_all
  define lx1 where "lx1 = advance_gap i (lx\<lparr>lx_pos := j\<rparr>)"
  define sl where "sl = take (j - i) (drop i ?src)"
  define lx2 where "lx2 = (advance_through sl lx1)\<lparr>lx_offset := j\<rparr>"
  define sp where "sp = span_new i j (lx_line lx1) (lx_column lx1)"
  have p1: "(lx_line lx1, lx_column lx1) = position ?src i"
  proof (cases "lx_pos lx < i")
    case True
    have "(lx_line (lx\<lparr>lx_pos := j\<rparr>), lx_column (lx\<lparr>lx_pos := j\<rparr>)) = position ?src (lx_pos lx)" using a by simp
    from advance_position [OF _ r(1) _ this] True a r show ?thesis by (simp add: lx1_def advance_gap_def)
  next
    case False
    then show ?thesis using a r by (simp add: lx1_def advance_gap_def)
  qed
  then have "(lx_line (advance_through sl lx1), lx_column (advance_through sl lx1)) = position ?src j"
    using advance_position [OF b(1) _ r(3) p1] r(2) by (simp add: sl_def)
  then have at2: "lexer_at lx2" using a b r by (simp add: lexer_at_def lx2_def lx1_def)
  have sps: "span_start sp = i" "span_stop sp = j" "(span_line sp, span_column sp) = position ?src i"
    using p1 by (simp_all add: sp_def span_new_def)
  have f: "lx_source lx2 = ?src" "lx_pos lx2 = j" "lx_buffer lx2 = []" using a by (simp_all add: lx2_def lx1_def)
  show ?thesis
  proof (cases res)
    case None
    have "\<exists>t. next_token raw tok lx = Some (t, lx2) \<and> kind t \<noteq> TkEof \<and> tspan t = sp"
      using x None a by (simp add: next_token_def Let_def lx2_def lx1_def sl_def sp_def)
    then show ?thesis using at2 f sps by auto
  next
    case (Some t)
    have "find_interp (butlast (drop 1 sl)) = None"
      unfolding sl_def by (rule find_interp_literal [OF plain])
    then obtain u where u: "convert_raw tok t sp sl lx2 = Some (u, lx2)" "kind u \<noteq> TkEof" "tspan u = sp"
      using convert_raw_plain f(3) by blast
    have "next_token raw tok lx = Some (u, lx2)"
      using x Some a u(1) by (simp add: next_token_def Let_def lx2_def lx1_def sl_def sp_def)
    then show ?thesis using u at2 f sps by auto
  qed
qed

lemma lex_loop_spans:
  assumes "lexer_at lx" "utf8_ok (lx_source lx)" "find_interp (lx_source lx) = None"
  shows "\<exists>ts lx'. lex_loop raw tok lx = Some (ts, lx') \<and> spans_from (lx_source lx) (lx_pos lx) (ts @ [eof_token lx']) \<and>
    (\<forall>t \<in> set ts. kind t \<noteq> TkEof)"
  using assms
proof (induction "length (lx_source lx) - lx_pos lx" arbitrary: lx rule: less_induct)
  case less
  show ?case
  proof (cases "raw (lx_source lx) (lx_pos lx)")
    case None
    then have "lex_loop raw tok lx = Some ([], lx)"
      using less.prems(1) by (simp add: lex_loop.simps [of raw tok lx] next_token_def eof_token_def lexer_at_def)
    then show ?thesis
      using less.prems(1) by (simp add: eof_token_def span_new_def lexer_at_def)
  next
    case (Some x)
    obtain res i j where x: "raw (lx_source lx) (lx_pos lx) = Some (res, i, j)" using Some by (cases x) auto
    have r: "lx_pos lx \<le> i" "i < j" "j \<le> length (lx_source lx)"
      using range [OF x] less.prems(1) by (simp_all add: lexer_at_def)
    obtain t lx1 where n: "next_token raw tok lx = Some (t, lx1)" "lexer_at lx1" "lx_source lx1 = lx_source lx"
        "lx_pos lx1 = j" "kind t \<noteq> TkEof" "span_start (tspan t) = i" "span_stop (tspan t) = j"
        "(span_line (tspan t), span_column (tspan t)) = position (lx_source lx) i"
      using next_token_plain [OF less.prems x] by blast
    have "length (lx_source lx1) - lx_pos lx1 < length (lx_source lx) - lx_pos lx" using n(3,4) r by simp
    from less.hyps [OF this n(2)] obtain ts lx' where
      "lex_loop raw tok lx1 = Some (ts, lx')" "spans_from (lx_source lx) j (ts @ [eof_token lx'])"
        "\<forall>t \<in> set ts. kind t \<noteq> TkEof"
      using n(3,4) less.prems(2,3) by auto
    then show ?thesis using n r by (simp add: lex_loop.simps [of raw tok lx])
  qed
qed

lemma tokenize_spans:
  assumes "utf8_ok src" "find_interp src = None"
  shows "\<exists>ts. tokenize raw src = Some ts \<and> spans_from src 0 ts"
proof -
  have "lexer_at (lexer_new src)" using assms(1) by (simp add: lexer_at_def lexer_new_def position_def utf8_ok_def)
  from lex_loop_spans [OF this, of "tokenize_fuel raw (length src)"] assms obtain ts lx' where
    l: "lex_loop raw (tokenize_fuel raw (length src)) (lexer_new src) = Some (ts, lx')"
      "spans_from src 0 (ts @ [eof_token lx'])" "\<forall>t \<in> set ts. kind t \<noteq> TkEof"
    by (auto simp: lexer_new_def)
  moreover have "ts = [] \<or> kind (last ts) \<noteq> TkEof" using l(3) by auto
  ultimately show ?thesis by (auto simp: tokenize_def)
qed

end

section \<open>Keywords\<close>

lemma longest_first:
  assumes "\<forall>m u. (Some m, u) \<in> set pre \<longrightarrow> m < n" "\<forall>m u. (Some m, u) \<in> set post \<longrightarrow> m \<le> n"
  shows "longest (pre @ (Some n, t) # post) = Some (n, t)"
  using assms(1)
proof (induction pre)
  case Nil
  have "m \<le> n" if "longest post = Some (m, u)" for m u
    using assms(2) longest_mem [OF that] by blast
  then show ?case by (fastforce split: option.split)
next
  case (Cons p pre)
  obtain x u where p: "p = (x, u)" by fastforce
  have "longest (pre @ (Some n, t) # post) = Some (n, t)" using Cons by (meson list.set_intros(2))
  moreover have "m < n" if "x = Some m" for m using Cons.prems p that by auto
  ultimately show ?case using p by (cases x) auto
qed

definition is_word :: "string \<Rightarrow> bool" where
  "is_word s \<longleftrightarrow> s \<noteq> [] \<and> is_ident_start (hd s) \<and> (\<forall>c \<in> set s. is_ident_char c)"

lemma raw_literals_distinct: "distinct (map fst raw_literals)"
  unfolding raw_literals_def by simp

lemma keyword_word: "case keyword_lexeme k of None \<Rightarrow> True | Some s \<Rightarrow> is_word s"
  by (cases k) (simp_all add: keyword_lexeme_def is_word_def is_ident_char_def is_ident_start_def is_digit_def)

lemma keyword_literal:
  "case keyword_lexeme k of None \<Rightarrow> True
   | Some s \<Rightarrow> Option.bind (map_of raw_literals s) convert_plain = Some k"
  by (cases k) (simp_all add: keyword_lexeme_def raw_literals_def convert_plain_def)

lemma word_raw:
  assumes w: "is_word s" and t: "map_of raw_literals s = Some t"
  shows "raw_rules s 0 = Some (Some t, 0, length s)"
proof -
  obtain c cs where s: "s = c # cs" "is_ident_start c" using w by (cases s) (auto simp: is_word_def)
  have skip: "skip_len s = 0"
    using s by (auto simp: skip_len_def starts_with_def is_blank_def is_ident_start_def)
  obtain pre post where l: "raw_literals = pre @ (s, t) # post"
    using map_of_SomeD [OF t] split_list by metis
  let ?f = "\<lambda>(lit, t). (match_literal lit s, t)"
  let ?cs = "map ?f post @ [(match_literal [LF] s, RtNewline), (match_number s, RtNumberLiteral),
      (match_string DQUOTE s, RtStringLiteral), (match_string SQUOTE s, RtSingleQuoteStringLiteral),
      (match_raw_string DQUOTE s, RtRawStringLiteral), (match_raw_string SQUOTE s, RtRawSingleQuoteStringLiteral),
      (match_identifier s, RtIdentifier)]"
  have self: "match_literal s s = Some (length s)" by (simp add: match_literal_def starts_with_def)
  have cand: "raw_candidates s = map ?f pre @ (Some (length s), t) # ?cs"
    by (simp add: raw_candidates_def l self)
  have "m < length s" if m: "(Some m, u) \<in> set (map ?f pre)" for m u
  proof -
    obtain lit where lit: "(lit, u) \<in> set pre" "match_literal lit s = Some m" using m by (auto split: prod.splits)
    have "s \<notin> fst ` set pre" using raw_literals_distinct unfolding l by simp
    then have "lit \<noteq> s" using lit(1) by force
    then have "length lit \<noteq> length s" using lit(2) by (auto simp: match_literal_def starts_with_def split: if_splits)
    then show ?thesis using match_literal_bounds [OF lit(2)] by simp
  qed
  moreover have "m \<le> length s" if "(Some m, u) \<in> set ?cs" for m u
  proof -
    have "(Some m, u) \<in> set (raw_candidates s)" unfolding cand set_append using that by (metis UnI2 list.set_intros(2))
    then show ?thesis using candidate_bounds by blast
  qed
  ultimately have "longest (raw_candidates s) = Some (length s, t)"
    unfolding cand by (intro longest_first) blast+
  then show ?thesis using s skip by (simp add: raw_rules_def raw_scan.simps [of 0])
qed

lemma convert_raw_keyword: "convert_plain t = Some k \<Longrightarrow> convert_raw tok t sp sl lx = Some (token_new k sp, lx)"
  unfolding convert_raw_def by (cases t) (simp_all add: convert_plain_def)

lemma raw_rules_end: "raw_rules s (length s) = None"
  by (simp add: raw_rules_def raw_scan.simps)

lemma tokenize_word:
  assumes "is_word s" "map_of raw_literals s = Some t" "convert_plain t = Some k"
  shows "map_option (map kind) (tokenize raw_rules s) = Some [k, TkEof]"
proof -
  let ?tok = "tokenize_fuel raw_rules (length s)"
  have k: "k \<noteq> TkEof" using assms(3) convert_plain_not_eof by auto
  obtain u lx where n: "next_token raw_rules ?tok (lexer_new s) = Some (u, lx)" and u: "kind u = k"
    and lx: "lx_source lx = s" "lx_pos lx = length s" "lx_buffer lx = []"
    using word_raw [OF assms(1,2)] by (simp add: next_token_def lexer_new_def convert_raw_keyword [OF assms(3)] Let_def)
  have "next_token raw_rules ?tok lx = Some (eof_token lx, lx)"
    using lx by (simp add: next_token_def raw_rules_end)
  then have "lex_loop raw_rules ?tok lx = Some ([], lx)"
    by (simp add: lex_loop.simps [of raw_rules ?tok lx] eof_token_def)
  then have "lex_loop raw_rules ?tok (lexer_new s) = Some ([u], lx)"
    using n u k by (simp add: lex_loop.simps [of raw_rules ?tok "lexer_new s"])
  then show ?thesis using u k by (simp add: tokenize_def eof_token_def)
qed

lemma utf8_ok_ascii: "\<forall>c \<in> set s. is_ascii c \<Longrightarrow> utf8_ok s"
proof -
  assume a: "\<forall>c \<in> set s. is_ascii c"
  have "char_boundary s i" for i
    unfolding char_boundary_def using a nth_mem [of i s] by (fastforce simp: is_ascii_def is_cont_def)
  then show ?thesis by (simp add: utf8_ok_def)
qed

section \<open>Properties\<close>

text \<open>C9: Every source is lexed: tokenization returns, whatever text it is given and however deeply
  its interpolated strings are nested, and the stream it returns ends with an end-of-file token and
  holds no other one.\<close>

theorem tokenize_returns:
  assumes "logos_lexer raw"
  shows "\<exists>ts t. tokenize raw src = Some (ts @ [t]) \<and> kind t = TkEof \<and> (\<forall>u \<in> set ts. kind u \<noteq> TkEof)"
  by (rule logos_lexer.tokenize_total [OF assms])

theorem tokenize_returns_witness:
  "\<exists>ts t. tokenize raw_rules ''say x'' = Some (ts @ [t]) \<and> kind t = TkEof \<and> list_all (\<lambda>u. kind u \<noteq> TkEof) ts"
  using tokenize_returns [OF rules.logos_lexer_axioms] by (simp add: list_all_iff)



text \<open>C37: Splitting an interpolated string loses nothing: putting the parts together again, each
  embedded expression between its delimiters, yields the string, or the string with the brace that
  its last expression lacks; no text part is empty, and every embedded expression is shorter than
  the string by at least its opening delimiter.\<close>

theorem split_interpolated_roundtrip:
  "concat (map render_part (split_interpolated_string s)) \<in> {s, s @ ''}''} \<and>
   (\<forall>e. Expression_Part e \<in> set (split_interpolated_string s) \<longrightarrow> length e + 2 \<le> length s) \<and>
   Text_Part [] \<notin> set (split_interpolated_string s)"
  by (rule split_parts)

theorem split_interpolated_roundtrip_witness:
  "Expression_Part ''b'' \<in> set (split_interpolated_string ''a${b}'') \<and> length ''b'' + 2 \<le> length ''a${b}''"
proof -
  have "Expression_Part ''b'' \<in> set (split_interpolated_string ''a${b}'')"
    by (simp add: split_interpolated_string.simps [of "''a${b}''"])
  then show ?thesis using split_interpolated_roundtrip [of "''a${b}''"] by blast
qed

text \<open>The keyword spellings and the lexer agree: the text that the parser takes for the spelling
  of a keyword token is lexed, by the declared rules, as that token and nothing else.\<close>

theorem keyword_roundtrip:
  assumes "keyword_lexeme k = Some s"
  shows "map_option (map kind) (tokenize raw_rules s) = Some [k, TkEof]"
proof -
  have "is_word s" using keyword_word [of k] assms by simp
  moreover obtain t where "map_of raw_literals s = Some t" "convert_plain t = Some k"
    using keyword_literal [of k] assms by (auto simp: bind_eq_Some_conv)
  ultimately show ?thesis by (rule tokenize_word)
qed

theorem keyword_roundtrip_witness:
  "map_option (map kind) (tokenize raw_rules ''slice'') = Some [TkTypeSlice, TkEof]"
  by (rule keyword_roundtrip) (simp add: keyword_lexeme_def)

end
