(* ===== verification/Source_Buffer.thy ===== *)
theory Source_Buffer
  imports Lexer
begin

text \<open>
  Source text with line lookup, and the files of a diagnostic (\<open>crates/ntsc-diag/src/source.rs\<close>).
  The properties relate the lookup to the lines of the text and to the positions that the lexer
  writes into spans.
\<close>

section \<open>Model\<close>

record source_buffer =
  sb_text :: string
  sb_line_starts :: "usize list"
  sb_file_path :: string

text \<open>\<open>text.match_indices('\n')\<close>\<close>

fun newlines :: "nat \<Rightarrow> string \<Rightarrow> nat list" where
  "newlines i [] = []"
| "newlines i (c # cs) = (if c = LF then i # newlines (Suc i) cs else newlines (Suc i) cs)"

definition line_starts :: "string \<Rightarrow> usize list" where
  "line_starts text = 0 # filter (\<lambda>i. 0 < i) (map (\<lambda>i. i + 1) (newlines 0 text)) @ [length text]"

definition source_buffer_new :: "string \<Rightarrow> string \<Rightarrow> source_buffer" where
  "source_buffer_new text path = \<lparr>sb_text = text, sb_line_starts = line_starts text, sb_file_path = path\<rparr>"

definition line_count :: "source_buffer \<Rightarrow> usize" where
  "line_count b = length (sb_line_starts b) - 1"

text \<open>
  The standard library's \<open>binary_search\<close>: \<open>Inl\<close> is an index at which the value stands (any of them),
  \<open>Inr\<close> the index at which it can be inserted.
\<close>

type_synonym search = "nat list \<Rightarrow> nat \<Rightarrow> nat + nat"

definition line_at_offset :: "search \<Rightarrow> source_buffer \<Rightarrow> usize \<Rightarrow> usize" where
  "line_at_offset bs b offset =
     (if length (sb_text b) < offset then 0
      else (case bs (sb_line_starts b) offset of Inl i \<Rightarrow> i + 1 | Inr i \<Rightarrow> i))"

definition col_at_offset :: "search \<Rightarrow> source_buffer \<Rightarrow> usize \<Rightarrow> usize" where
  "col_at_offset bs b offset =
     (if sb_line_starts b = [] then 0
      else (let line = line_at_offset bs b offset
            in if line = 0 then 0
               else (let line_start = sb_line_starts b ! (line - 1) in offset - line_start + 1)))"

definition strip_suffix :: "char \<Rightarrow> string \<Rightarrow> string" where
  "strip_suffix c s = (if s \<noteq> [] \<and> last s = c then butlast s else s)"

definition line_text :: "source_buffer \<Rightarrow> usize \<Rightarrow> string" where
  "line_text b line =
     (if line = 0 \<or> length (sb_line_starts b) \<le> line then []
      else (let start = sb_line_starts b ! (line - 1);
                stop = (if line < length (sb_line_starts b) then sb_line_starts b ! line else length (sb_text b));
                sl = take (stop - start) (drop start (sb_text b))
            in strip_suffix LF (strip_suffix (CHR 0x0D) sl)))"

definition source_map_add :: "source_buffer \<Rightarrow> source_buffer list \<Rightarrow> source_buffer list" where
  "source_map_add b files = filter (\<lambda>f. sb_file_path f \<noteq> sb_file_path b) files @ [b]"

definition source_map_get :: "source_buffer list \<Rightarrow> string \<Rightarrow> source_buffer option" where
  "source_map_get files path = find (\<lambda>f. sb_file_path f = path) files"

section \<open>Searching\<close>

locale searcher =
  fixes bs :: search
  assumes found: "sorted xs \<Longrightarrow> bs xs x = Inl i \<Longrightarrow> i < length xs \<and> xs ! i = x"
    and missing: "sorted xs \<Longrightarrow> bs xs x = Inr i \<Longrightarrow>
      i \<le> length xs \<and> (\<forall>y \<in> set (take i xs). y < x) \<and> (\<forall>y \<in> set (drop i xs). x < y)"
begin

text \<open>The index that a search yields tells how many entries are not above the value.\<close>

lemma search_rank:
  assumes "sorted xs" "count_list xs x \<le> 1"
  shows "(case bs xs x of Inl i \<Rightarrow> i + 1 | Inr i \<Rightarrow> i) = length (filter (\<lambda>y. y \<le> x) xs)"
proof (cases "bs xs x")
  case (Inl i)
  note i = found [OF assms(1) Inl]
  have split: "xs = take i xs @ x # drop (Suc i) xs" using id_take_nth_drop [of i xs] i by simp
  then have "count_list xs x = count_list (take i xs) x + (1 + count_list (drop (Suc i) xs) x)"
    by (metis count_list.simps(2) count_list_append add.commute)
  then have "x \<notin> set (drop (Suc i) xs)" using assms(2) by (simp add: count_list_0_iff)
  moreover have "sorted (take i xs @ x # drop (Suc i) xs)" using assms(1) split by simp
  ultimately have "\<forall>y \<in> set (take i xs). y \<le> x" "\<forall>y \<in> set (drop (Suc i) xs). x < y"
    by (auto simp: sorted_append order.strict_iff_order)
  then have "filter (\<lambda>y. y \<le> x) (take i xs) = take i xs" "filter (\<lambda>y. y \<le> x) (drop (Suc i) xs) = []"
    by (auto simp: filter_empty_conv)
  then have "filter (\<lambda>y. y \<le> x) (take i xs @ x # drop (Suc i) xs) = take i xs @ [x]" by simp
  then have "filter (\<lambda>y. y \<le> x) xs = take i xs @ [x]" using split by simp
  then show ?thesis using Inl i by simp
next
  case (Inr i)
  note i = missing [OF assms(1) Inr]
  have "filter (\<lambda>y. y \<le> x) (take i xs) = take i xs" "filter (\<lambda>y. y \<le> x) (drop i xs) = []"
    using i by (auto simp: filter_empty_conv intro!: filter_True dest: order.strict_implies_order)
  then have "filter (\<lambda>y. y \<le> x) (take i xs @ drop i xs) = take i xs" by (simp only: filter_append append_Nil2)
  then show ?thesis using Inr i by simp
qed

end

text \<open>Scanning from the left is such a search.\<close>

fun scan_from :: "nat \<Rightarrow> nat list \<Rightarrow> nat \<Rightarrow> nat + nat" where
  "scan_from i [] x = Inr i"
| "scan_from i (y # ys) x = (if y < x then scan_from (Suc i) ys x else if y = x then Inl i else Inr i)"

lemma scan_from_found: "scan_from k xs x = Inl i \<Longrightarrow> k \<le> i \<and> i - k < length xs \<and> xs ! (i - k) = x"
proof (induction k xs x rule: scan_from.induct)
  case (2 k y ys x)
  show ?case
  proof (cases "y < x")
    case True
    then have "Suc k \<le> i \<and> i - Suc k < length ys \<and> ys ! (i - Suc k) = x" using 2 by simp
    moreover have "i - k = Suc (i - Suc k)" if "Suc k \<le> i" using that by simp
    ultimately show ?thesis by auto
  qed (use "2.prems" in \<open>auto split: if_splits\<close>)
qed simp

lemma scan_from_missing:
  "scan_from k xs x = Inr i \<Longrightarrow> sorted xs \<Longrightarrow>
    k \<le> i \<and> i - k \<le> length xs \<and> (\<forall>y \<in> set (take (i - k) xs). y < x) \<and> (\<forall>y \<in> set (drop (i - k) xs). x < y)"
proof (induction k xs x rule: scan_from.induct)
  case (2 k y ys x)
  show ?case
  proof (cases "y < x")
    case True
    then have "Suc k \<le> i \<and> i - Suc k \<le> length ys \<and> (\<forall>y \<in> set (take (i - Suc k) ys). y < x) \<and>
        (\<forall>y \<in> set (drop (i - Suc k) ys). x < y)" using 2 by simp
    moreover have "i - k = Suc (i - Suc k)" if "Suc k \<le> i" using that by simp
    ultimately show ?thesis using True by auto
  qed (use "2.prems" in \<open>auto split: if_splits\<close>)
qed simp

interpretation scan: searcher "scan_from 0"
proof
  fix xs :: "nat list" and x i
  show "scan_from 0 xs x = Inl i \<Longrightarrow> i < length xs \<and> xs ! i = x" using scan_from_found [of 0 xs x i] by simp
  show "sorted xs \<Longrightarrow> scan_from 0 xs x = Inr i \<Longrightarrow>
      i \<le> length xs \<and> (\<forall>y \<in> set (take i xs). y < x) \<and> (\<forall>y \<in> set (drop i xs). x < y)"
    using scan_from_missing [of 0 xs x i] by simp
qed

section \<open>Lines\<close>

lemma newlines_bound: "x \<in> set (newlines i s) \<Longrightarrow> i \<le> x \<and> x < i + length s"
  by (induction i s rule: newlines.induct) (auto split: if_splits)

lemma sorted_newlines: "sorted_wrt (<) (newlines i s)"
  by (induction i s rule: newlines.induct) (auto dest: newlines_bound)

lemma line_starts_eq: "line_starts src = 0 # map Suc (newlines 0 src) @ [length src]"
  by (simp add: line_starts_def filter_True)

lemma sorted_starts: "sorted (line_starts src)"
proof -
  have "sorted_wrt (<) (map Suc (newlines 0 src))" by (simp add: sorted_wrt_map sorted_newlines)
  then have "sorted (map Suc (newlines 0 src))" by (simp add: strict_sorted_iff)
  then show ?thesis by (auto simp: line_starts_eq sorted_append Suc_le_eq dest: newlines_bound)
qed

lemma count_list_distinct: "distinct xs \<Longrightarrow> count_list xs x \<le> 1"
  by (induction xs) (auto simp: count_list_0_iff)

lemma count_starts:
  assumes "offset < length src"
  shows "count_list (line_starts src) offset \<le> 1"
proof -
  have "distinct (map Suc (newlines 0 src))"
    using sorted_newlines [of 0 src] by (simp add: distinct_map strict_sorted_iff)
  then have "count_list (map Suc (newlines 0 src)) offset \<le> 1" by (rule count_list_distinct)
  moreover have "count_list (map Suc (newlines 0 src)) 0 = 0" by (auto simp: count_list_0_iff)
  ultimately show ?thesis using assms by (auto simp: line_starts_eq)
qed

text \<open>The lines of a text, split at its newlines.\<close>

fun lines_of :: "string \<Rightarrow> string list" where
  "lines_of [] = [[]]"
| "lines_of (c # cs) =
     (if c = LF then [] # lines_of cs
      else (case lines_of cs of [] \<Rightarrow> [[c]] | l # ls \<Rightarrow> (c # l) # ls))"

lemma lines_of_nonempty [simp]: "lines_of s \<noteq> []"
  by (induction s rule: lines_of.induct) (auto split: list.split)

lemma lines_of_Cons: "c \<noteq> LF \<Longrightarrow> lines_of (c # cs) = (c # hd (lines_of cs)) # tl (lines_of cs)"
  by (cases "lines_of cs") simp_all

lemma length_lines: "length (lines_of s) = Suc (length (newlines k s))"
  by (induction k s rule: newlines.induct) (auto split: list.split)

lemma newlines_count: "length (newlines k s) = count_list s LF"
  by (induction k s rule: newlines.induct) auto

lemma newlines_take: "length (filter (\<lambda>i. i < k + n) (newlines k s)) = length (newlines k (take n s))"
proof (induction k s arbitrary: n rule: newlines.induct)
  case (2 k c cs)
  show ?case
  proof (cases n)
    case 0
    have "filter (\<lambda>i. i < k) (newlines k (c # cs)) = []" by (auto simp: filter_empty_conv dest: newlines_bound)
    then show ?thesis using 0 by simp
  next
    case (Suc m)
    then show ?thesis using 2(1) [of m] 2(2) [of m] by auto
  qed
qed simp

lemma starts_below:
  assumes "offset < length src"
  shows "length (filter (\<lambda>y. y \<le> offset) (line_starts src)) = length (lines_of (take offset src))"
proof -
  have "filter (\<lambda>y. y \<le> offset) (map Suc (newlines 0 src)) = map Suc (filter (\<lambda>i. i < offset) (newlines 0 src))"
    by (simp add: filter_map comp_def Suc_le_eq)
  then show ?thesis using assms newlines_take [of 0 offset src] by (simp add: line_starts_eq length_lines [of _ 0])
qed

text \<open>The boundaries of the lines of a text that starts at offset \<open>k\<close>.\<close>

definition starts_from :: "nat \<Rightarrow> string \<Rightarrow> nat list" where
  "starts_from k s = k # map Suc (newlines k s) @ [k + length s]"

lemma starts_from_LF: "starts_from k (LF # cs) = k # starts_from (Suc k) cs"
  by (simp add: starts_from_def)

lemma starts_from_Cons: "c \<noteq> LF \<Longrightarrow> starts_from k (c # cs) = k # tl (starts_from (Suc k) cs)"
  by (simp add: starts_from_def)

lemma starts_from_ge: "x \<in> set (starts_from k s) \<Longrightarrow> k \<le> x"
  by (auto simp: starts_from_def dest: newlines_bound)

lemma length_starts: "length (starts_from k s) = Suc (length (lines_of s))"
  by (simp add: starts_from_def length_lines [of _ k])

lemma starts_from_0: "starts_from k s ! 0 = k"
  by (simp add: starts_from_def)

lemma starts_slice:
  "n < length (lines_of s) \<Longrightarrow>
    take (starts_from k s ! Suc n - starts_from k s ! n) (drop (starts_from k s ! n - k) s) =
      lines_of s ! n @ (if Suc n < length (lines_of s) then [LF] else [])"
proof (induction s arbitrary: k n)
  case Nil
  then show ?case by (simp add: starts_from_def)
next
  case (Cons c cs)
  have ge: "Suc k \<le> starts_from (Suc k) cs ! m" if "m \<le> length (lines_of cs)" for m
    by (rule starts_from_ge [of _ _ cs]) (use that in \<open>simp add: length_starts\<close>)
  show ?case
  proof (cases "c = LF")
    case True
    show ?thesis
    proof (cases n)
      case 0
      then show ?thesis using True by (simp add: starts_from_LF starts_from_0)
    next
      case (Suc m)
      have "starts_from (Suc k) cs ! m - k = Suc (starts_from (Suc k) cs ! m - Suc k)"
        using ge [of m] Suc Cons.prems True by simp
      then show ?thesis using Cons.IH [of m "Suc k"] Cons.prems True Suc by (simp add: starts_from_LF)
    qed
  next
    case False
    have tl: "tl (starts_from (Suc k) cs) ! m = starts_from (Suc k) cs ! Suc m" if "m < length (lines_of cs)" for m
      using that by (simp add: nth_tl length_starts)
    have len: "length (lines_of (c # cs)) = length (lines_of cs)" using False by (simp add: length_lines [of _ 0] newlines_count del: lines_of.simps)
    show ?thesis
    proof (cases n)
      case 0
      have "starts_from (Suc k) cs ! Suc 0 - k = Suc (starts_from (Suc k) cs ! Suc 0 - Suc k)"
        using ge [of "Suc 0"] by (simp add: Suc_leI)
      then show ?thesis using Cons.IH [of 0 "Suc k"] False 0 len tl [of 0]
        by (simp add: starts_from_Cons starts_from_0 lines_of_Cons hd_conv_nth del: lines_of.simps)
    next
      case (Suc m)
      have "starts_from (Suc k) cs ! n - k = Suc (starts_from (Suc k) cs ! n - Suc k)"
        using ge [of n] Cons.prems len by simp
      then show ?thesis using Cons.IH [of n "Suc k"] Cons.prems False Suc len tl [of m] tl [of n]
        by (simp add: starts_from_Cons lines_of_Cons nth_tl del: lines_of.simps)
    qed
  qed
qed

lemma starts_offset:
  "offset \<le> length s \<Longrightarrow>
    starts_from k s ! (length (lines_of (take offset s)) - 1) + length (last (lines_of (take offset s))) = k + offset"
proof (induction s arbitrary: k offset)
  case Nil
  then show ?case by (simp add: starts_from_def)
next
  case (Cons c cs)
  show ?case
  proof (cases offset)
    case 0
    then show ?thesis by (simp add: starts_from_def)
  next
    case (Suc m)
    have IH: "starts_from (Suc k) cs ! (length (lines_of (take m cs)) - 1) + length (last (lines_of (take m cs))) =
        Suc k + m" using Cons.IH [of m "Suc k"] Cons.prems Suc by simp
    obtain l ls where l: "lines_of (take m cs) = l # ls" by (cases "lines_of (take m cs)") auto
    show ?thesis
    proof (cases "c = LF")
      case True
      then show ?thesis using IH Suc l by (simp add: starts_from_LF)
    next
      case False
      show ?thesis
      proof (cases "ls = []")
        case True
        then show ?thesis using IH Suc l False by (simp add: starts_from_Cons starts_from_0)
      next
        case ls: False
        have "length (lines_of (take m cs)) \<le> length (lines_of cs)"
          using newlines_take [of 0 m cs] length_filter_le [of "\<lambda>i. i < m" "newlines 0 cs"] by (simp add: length_lines [of _ 0])
        then have "tl (starts_from (Suc k) cs) ! (length ls - 1) = starts_from (Suc k) cs ! length ls"
          using l ls by (simp add: nth_tl length_starts)
        then show ?thesis using IH Suc l False ls by (cases ls) (simp_all add: starts_from_Cons)
      qed
    qed
  qed
qed

section \<open>Positions of the lexer\<close>

lemma fst_advance: "fst (foldl advance_char lc cs) = fst lc + of_nat (count_list cs [LF])"
  by (induction cs arbitrary: lc) (auto simp: advance_char_def)

lemma chars_newlines:
  "(\<And>i. Suc i < length s \<Longrightarrow> s ! i = LF \<Longrightarrow> \<not> is_cont (s ! Suc i)) \<Longrightarrow> count_list (chars s) [LF] = count_list s LF"
proof (induction s)
  case (Cons c cs)
  have IH: "count_list (chars cs) [LF] = count_list cs LF" by (rule Cons.IH) (use Cons.prems [of "Suc _"] in auto)
  show ?case
  proof (cases cs)
    case (Cons c2 cs2)
    obtain d ds where d: "chars cs = (c2 # d) # ds" using hd_chars [of cs] Cons by auto
    have "\<not> is_cont c2" if "c = LF" using Cons.prems [of 0] that Cons by simp
    moreover have "c2 \<noteq> LF" if "is_cont c2" using that by (auto simp: is_cont_def LF_def)
    ultimately show ?thesis using IH d by auto
  qed simp
qed simp

lemma position_line:
  assumes "utf8_ok src"
  shows "fst (position src i) = of_nat (length (lines_of (take i src)))"
proof -
  have "\<not> is_cont (take i src ! Suc k)" if "Suc k < length (take i src)" "take i src ! k = LF" for k
    using assms that by (auto simp: utf8_ok_def char_boundary_def is_ascii_def LF_def)
  then have "count_list (chars (take i src)) [LF] = count_list (take i src) LF" by (rule chars_newlines)
  then show ?thesis by (simp add: position_def fst_advance length_lines [of _ 0] newlines_count)
qed

section \<open>Properties\<close>



text \<open>
  The text of a line is the line, newline stripped. A carriage return before the newline stays; it
  is stripped only at the end of a last line without a newline.
\<close>

theorem line_text_exact:
  assumes "n < length (lines_of src)"
  shows "line_text (source_buffer_new src path) (Suc n) =
    (if Suc n < length (lines_of src) then lines_of src ! n else strip_suffix LF (strip_suffix (CHR 0x0D) (lines_of src ! n)))"
proof -
  have starts: "line_starts src = starts_from 0 src" by (simp add: line_starts_eq starts_from_def)
  have "line_text (source_buffer_new src path) (Suc n) = strip_suffix LF (strip_suffix (CHR 0x0D)
      (lines_of src ! n @ (if Suc n < length (lines_of src) then [LF] else [])))"
    using starts_slice [OF assms, of 0] assms
    by (simp add: line_text_def source_buffer_new_def starts Let_def length_starts)
  then show ?thesis by (simp add: strip_suffix_def LF_def)
qed

theorem line_text_exact_witness:
  "line_text (source_buffer_new [CHR ''a'', CHR 0x0D, LF, CHR ''b''] ''f'') 1 = [CHR ''a'', CHR 0x0D]"
  using line_text_exact [of 0 "[CHR ''a'', CHR 0x0D, LF, CHR ''b'']" "''f''"] by (simp add: LF_def)

text \<open>
  At the end of a text that does not end in a newline the lookup reports the line after the last
  one, and column one.
\<close>

theorem line_at_end:
  assumes "searcher bs" "src \<noteq> []" "last src \<noteq> LF"
  shows "line_at_offset bs (source_buffer_new src path) (length src) =
      line_count (source_buffer_new src path) + 1 \<and>
    line_count (source_buffer_new src path) = length (lines_of src) \<and>
    col_at_offset bs (source_buffer_new src path) (length src) = 1"
proof -
  let ?xs = "line_starts src"
  have "length src \<notin> Suc ` set (newlines 0 src)"
  proof
    assume "length src \<in> Suc ` set (newlines 0 src)"
    then have "length src - 1 \<in> set (newlines 0 src)" by auto
    moreover have "x \<in> set (newlines k s) \<Longrightarrow> s ! (x - k) = LF" for x k s
    proof (induction k s rule: newlines.induct)
      case (2 k c cs)
      then show ?case using newlines_bound [of x "Suc k" cs] by (auto simp: nth_Cons' split: if_splits)
    qed simp
    ultimately show False using assms(2,3) by (fastforce simp: last_conv_nth)
  qed
  then have "count_list ?xs (length src) \<le> 1" using assms(2) by (simp add: line_starts_eq count_list_0_iff)
  from searcher.search_rank [OF assms(1) sorted_starts this]
  have "line_at_offset bs (source_buffer_new src path) (length src) = length (filter (\<lambda>y. y \<le> length src) ?xs)"
    by (simp add: line_at_offset_def source_buffer_new_def)
  also have "filter (\<lambda>y. y \<le> length src) ?xs = ?xs"
    by (rule filter_True) (auto simp: line_starts_eq Suc_le_eq dest: newlines_bound)
  finally have line: "line_at_offset bs (source_buffer_new src path) (length src) = length ?xs" .
  have "?xs ! (length ?xs - 1) = length src" by (simp add: line_starts_eq nth_append)
  then show ?thesis using line
    by (simp add: line_count_def source_buffer_new_def col_at_offset_def Let_def length_lines [of _ 0] line_starts_eq)
qed

theorem line_at_end_witness:
  "line_at_offset (scan_from 0) (source_buffer_new ''ab'' ''f'') 2 = 2 \<and> line_count (source_buffer_new ''ab'' ''f'') = 1"
  using line_at_end [OF scan.searcher_axioms, of "''ab''" "''f''"] by (simp add: LF_def numeral_2_eq_2)

text \<open>
  A file added to the map is found under its path and replaces the one that had it; other paths
  find what they found before.
\<close>

theorem source_map_lookup:
  "source_map_get (source_map_add b files) path =
     (if path = sb_file_path b then Some b else source_map_get files path)"
proof (induction files)
  case (Cons f files)
  then show ?case by (auto simp: source_map_add_def source_map_get_def)
qed (simp add: source_map_add_def source_map_get_def)

end
