(* ===== verification/Diagnostics.thy ===== *)
theory Diagnostics
  imports Source_Buffer
begin

text \<open>
  Compiler diagnostics (\<open>crates/ntsc-diag/src\<close>: \<open>lib.rs\<close>, \<open>json.rs\<close>, \<open>writer.rs\<close>): their data, the JSON
  document for tools and the text for terminals. Strings are UTF-8 bytes, so a width computed with
  \<open>len\<close> counts bytes. What \<open>eprintln!\<close> writes is a list of lines. The environment (variables, whether
  standard error is a terminal, the working directory in \<open>shorten_path\<close>) is a parameter.
\<close>

section \<open>Data\<close>

datatype severity = SevError | SevWarning | SevNote | SevHelp

definition ESC :: char where
  "ESC = CHR 0x1B"

definition severity_str :: "severity \<Rightarrow> string" where
  "severity_str s = (case s of SevError \<Rightarrow> ''error'' | SevWarning \<Rightarrow> ''warning'' | SevNote \<Rightarrow> ''note'' | SevHelp \<Rightarrow> ''help'')"

definition severity_ansi_color :: "severity \<Rightarrow> string" where
  "severity_ansi_color s =
     (case s of
        SevError \<Rightarrow> ESC # ''[1;31m''
      | SevWarning \<Rightarrow> ESC # ''[1;33m''
      | SevNote \<Rightarrow> ESC # ''[0;34m''
      | SevHelp \<Rightarrow> ESC # ''[0;32m'')"

record diag_label =
  lb_span :: span
  lb_message :: string
  lb_is_primary :: bool

definition label_primary :: "span \<Rightarrow> string \<Rightarrow> diag_label" where
  "label_primary sp m = \<lparr>lb_span = sp, lb_message = m, lb_is_primary = True\<rparr>"

definition label_secondary :: "span \<Rightarrow> string \<Rightarrow> diag_label" where
  "label_secondary sp m = \<lparr>lb_span = sp, lb_message = m, lb_is_primary = False\<rparr>"

record diagnostic =
  dg_severity :: severity
  dg_message :: string
  dg_code :: "string option"
  dg_labels :: "diag_label list"
  dg_notes :: "string list"
  dg_help :: "string option"
  dg_file_path :: "string option"
  dg_lint :: "string option"

definition diag_error :: "string \<Rightarrow> diagnostic" where
  "diag_error m =
     \<lparr>dg_severity = SevError, dg_message = m, dg_code = None, dg_labels = [], dg_notes = [], dg_help = None,
      dg_file_path = None, dg_lint = None\<rparr>"

definition diag_warning :: "string \<Rightarrow> diagnostic" where
  "diag_warning m =
     \<lparr>dg_severity = SevWarning, dg_message = m, dg_code = None, dg_labels = [], dg_notes = [], dg_help = None,
      dg_file_path = None, dg_lint = None\<rparr>"

definition with_code :: "string \<Rightarrow> diagnostic \<Rightarrow> diagnostic" where
  "with_code c d = d\<lparr>dg_code := Some c\<rparr>"

definition with_label :: "diag_label \<Rightarrow> diagnostic \<Rightarrow> diagnostic" where
  "with_label l d = d\<lparr>dg_labels := dg_labels d @ [l]\<rparr>"

definition with_labels :: "diag_label list \<Rightarrow> diagnostic \<Rightarrow> diagnostic" where
  "with_labels ls d = d\<lparr>dg_labels := dg_labels d @ ls\<rparr>"

definition with_note :: "string \<Rightarrow> diagnostic \<Rightarrow> diagnostic" where
  "with_note n d = d\<lparr>dg_notes := dg_notes d @ [n]\<rparr>"

definition with_notes :: "string list \<Rightarrow> diagnostic \<Rightarrow> diagnostic" where
  "with_notes ns d = d\<lparr>dg_notes := dg_notes d @ ns\<rparr>"

definition with_help :: "string \<Rightarrow> diagnostic \<Rightarrow> diagnostic" where
  "with_help h d = d\<lparr>dg_help := Some h\<rparr>"

definition with_file :: "string \<Rightarrow> diagnostic \<Rightarrow> diagnostic" where
  "with_file p d = d\<lparr>dg_file_path := Some p\<rparr>"

definition with_lint :: "string \<Rightarrow> diagnostic \<Rightarrow> diagnostic" where
  "with_lint l d = d\<lparr>dg_lint := Some l\<rparr>"

definition undefined_symbol :: "string \<Rightarrow> span \<Rightarrow> diagnostic" where
  "undefined_symbol name sp =
     with_note ''make sure the variable is declared before use''
       (with_label (label_primary sp (''`'' @ name @ ''` is not defined here''))
         (with_code ''E0401'' (diag_error (''undefined variable `'' @ name @ ''`''))))"

definition primary_label :: "diagnostic \<Rightarrow> diag_label option" where
  "primary_label d =
     (case find lb_is_primary (dg_labels d) of
        Some l \<Rightarrow> Some l
      | None \<Rightarrow> (case dg_labels d of [] \<Rightarrow> None | l # _ \<Rightarrow> Some l))"

section \<open>Formatting\<close>

definition digit_char :: "nat \<Rightarrow> char" where
  "digit_char n = char_of (48 + n)"

fun dec :: "nat \<Rightarrow> string" where
  "dec n = (if n < 10 then [digit_char n] else dec (n div 10) @ [digit_char (n mod 10)])"

declare dec.simps [simp del]

definition hex_digit :: "nat \<Rightarrow> char" where
  "hex_digit n = (if n < 10 then char_of (48 + n) else char_of (87 + n))"

definition hex4 :: "nat \<Rightarrow> string" where
  "hex4 n = map (\<lambda>d. hex_digit (n div d mod 16)) [4096, 256, 16, 1]"

fun join_with :: "string \<Rightarrow> string list \<Rightarrow> string" where
  "join_with sep [] = []"
| "join_with sep [x] = x"
| "join_with sep (x # xs) = x @ sep @ join_with sep xs"

text \<open>\<open>end - start\<close> on \<open>usize\<close>, which wraps in release builds.\<close>

definition usize_diff :: "usize \<Rightarrow> usize \<Rightarrow> usize" where
  "usize_diff a b = (if b \<le> a then a - b else a + 2 ^ 64 - b)"

section \<open>JSON\<close>

definition quote_char :: "string \<Rightarrow> string" where
  "quote_char ch =
     (if ch = [CHR 0x22] then [CHR 0x5C, CHR 0x22]
      else if ch = [CHR 0x5C] then [CHR 0x5C, CHR 0x5C]
      else if ch = [CHR 0x0A] then [CHR 0x5C, CHR ''n'']
      else if ch = [CHR 0x0D] then [CHR 0x5C, CHR ''r'']
      else if ch = [CHR 0x09] then [CHR 0x5C, CHR ''t'']
      else (case ch of
              [c] \<Rightarrow> if of_char c < (0x20 :: nat) then [CHR 0x5C, CHR ''u''] @ hex4 (of_char c) else ch
            | _ \<Rightarrow> ch))"

definition quote :: "string \<Rightarrow> string" where
  "quote v = CHR 0x22 # concat (map quote_char (chars v)) @ [CHR 0x22]"

definition json_bool :: "bool \<Rightarrow> string" where
  "json_bool b = (if b then ''true'' else ''false'')"

definition json_field :: "string \<Rightarrow> string \<Rightarrow> string" where
  "json_field key v = CHR 0x22 # key @ [CHR 0x22] @ '':'' @ v"

definition label_to_json :: "diag_label \<Rightarrow> string" where
  "label_to_json l =
     ''{'' @ json_field ''line'' (dec (unat (span_line (lb_span l)))) @ '','' @
     json_field ''column'' (dec (unat (span_column (lb_span l)))) @ '','' @
     json_field ''message'' (quote (lb_message l)) @ '','' @
     json_field ''is_primary'' (json_bool (lb_is_primary l)) @ ''}''"

definition end_column :: "span \<Rightarrow> u32" where
  "end_column sp = span_column sp + of_nat (usize_diff (span_stop sp) (span_start sp))"

definition opt_field :: "string \<Rightarrow> string option \<Rightarrow> string list" where
  "opt_field key v = (case v of None \<Rightarrow> [] | Some s \<Rightarrow> [json_field key (quote s)])"

definition diagnostic_to_json :: "diagnostic \<Rightarrow> string" where
  "diagnostic_to_json d =
     (let lbls = join_with '','' (map label_to_json (dg_labels d));
          nts = join_with '','' (map quote (dg_notes d));
          flds =
            [json_field ''severity'' (CHR 0x22 # severity_str (dg_severity d) @ [CHR 0x22])] @
            opt_field ''code'' (dg_code d) @
            [json_field ''message'' (quote (dg_message d))] @
            (case primary_label d of
               None \<Rightarrow> []
             | Some l \<Rightarrow>
                 opt_field ''file'' (dg_file_path d) @
                 [json_field ''line'' (dec (unat (span_line (lb_span l)))),
                  json_field ''column'' (dec (unat (span_column (lb_span l)))),
                  json_field ''end_line'' (dec (unat (span_line (lb_span l)))),
                  json_field ''end_column'' (dec (unat (end_column (lb_span l))))]) @
            (if dg_labels d \<noteq> [] then [json_field ''labels'' (''['' @ lbls @ '']'')] else []) @
            (if dg_notes d \<noteq> [] then [json_field ''notes'' (''['' @ nts @ '']'')] else []) @
            opt_field ''help'' (dg_help d) @
            opt_field ''lint'' (dg_lint d)
      in ''{'' @ join_with '','' flds @ ''}'')"

definition diagnostics_to_json :: "diagnostic list \<Rightarrow> string" where
  "diagnostics_to_json ds =
     ''{'' @ json_field ''version'' ''1'' @ '','' @
     json_field ''error_count'' (dec (length (filter (\<lambda>d. dg_severity d = SevError) ds))) @ '','' @
     json_field ''diagnostics'' (''['' @ join_with '','' (map diagnostic_to_json ds) @ '']'') @ ''}''"

section \<open>Text\<close>

datatype emit_mode = Coloured | Plain

record diag_config =
  cfg_mode :: emit_mode
  cfg_max_errors :: "usize option"

definition from_env_with :: "(string \<Rightarrow> string option) \<Rightarrow> bool \<Rightarrow> diag_config" where
  "from_env_with get_var is_tty =
     (let force = (case get_var ''CLICOLOR_FORCE'' of None \<Rightarrow> False | Some v \<Rightarrow> v \<noteq> [] \<and> v \<noteq> ''0'');
          no_color = (case get_var ''NO_COLOR'' of None \<Rightarrow> False | Some v \<Rightarrow> v \<noteq> []);
          clicolor_off = (case get_var ''CLICOLOR'' of None \<Rightarrow> False | Some v \<Rightarrow> v = ''0'');
          dumb_term = (case get_var ''TERM'' of None \<Rightarrow> False | Some v \<Rightarrow> v = ''dumb'');
          colour = (force \<or> (\<not> no_color \<and> \<not> clicolor_off \<and> \<not> dumb_term \<and> is_tty));
          limit = (case Option.bind (get_var ''NTSC_MAX_ERRORS'') parse_usize of
                     None \<Rightarrow> Some 20
                   | Some n \<Rightarrow> if n = 0 then None else Some n)
      in \<lparr>cfg_mode = (if colour then Coloured else Plain), cfg_max_errors = limit\<rparr>)"

definition ansi_color :: "string \<Rightarrow> emit_mode \<Rightarrow> string" where
  "ansi_color code mode = (case mode of Coloured \<Rightarrow> code | Plain \<Rightarrow> [])"

definition severity_color :: "severity \<Rightarrow> emit_mode \<Rightarrow> string" where
  "severity_color s mode = ansi_color (severity_ansi_color s) mode"

definition ansi_reset :: "emit_mode \<Rightarrow> string" where
  "ansi_reset mode = ansi_color (ESC # ''[0m'') mode"

definition ansi_bold :: "emit_mode \<Rightarrow> string" where
  "ansi_bold mode = ansi_color (ESC # ''[1m'') mode"

definition line_number_prefix :: "usize \<Rightarrow> usize \<Rightarrow> string" where
  "line_number_prefix line digits =
     replicate (digits - length (dec line)) CHR '' '' @ dec line @
     [CHR '' '', CHR 0xE2, CHR 0x94, CHR 0x82, CHR '' '']"

definition underline :: "nat \<Rightarrow> span \<Rightarrow> string" where
  "underline prefix_len sp =
     replicate (prefix_len + (unat (span_column sp) - 1)) CHR '' '' @
     replicate (max (usize_diff (span_stop sp) (span_start sp)) 1) CHR ''^''"

definition emit_label :: "emit_mode \<Rightarrow> string \<Rightarrow> nat \<Rightarrow> diag_label \<Rightarrow> string" where
  "emit_label mode color prefix_len l =
     [LF] @ underline prefix_len (lb_span l) @ '' '' @
     (if lb_is_primary l then color else ansi_color (ESC # ''[0;35m'') mode) @ lb_message l @ ansi_reset mode"

definition emit_snippet :: "search \<Rightarrow> emit_mode \<Rightarrow> string \<Rightarrow> diagnostic \<Rightarrow> source_buffer \<Rightarrow> span \<Rightarrow> string" where
  "emit_snippet bs mode color d src sp =
     (let line = unat (span_line sp); reset = ansi_reset mode; bold = ansi_bold mode
      in if 0 < line \<and> line \<le> line_count src
         then (let digits = max (length (dec (line_count src))) 2;
                   prefix = line_number_prefix line digits;
                   line_labels = filter (\<lambda>l. line_at_offset bs src (span_start (lb_span l)) = line \<or>
                                              line_at_offset bs src (span_stop (lb_span l)) = line) (dg_labels d)
               in [LF] @ bold @ ''  |'' @
                  [LF] @ color @ prefix @ reset @ line_text src line @
                  (if line_labels = [] then [LF] @ underline (length prefix) sp
                   else concat (map (emit_label mode color (length prefix))
                          (sort_key (\<lambda>l. span_start (lb_span l)) line_labels))) @
                  [LF] @ bold @ ''  |'')
         else [])"

definition emit_diag ::
    "search \<Rightarrow> (string \<Rightarrow> string) \<Rightarrow> diagnostic \<Rightarrow> source_buffer list option \<Rightarrow> diag_config \<Rightarrow> string" where
  "emit_diag bs shorten_path d sources config =
     (let mode = cfg_mode config;
          color = severity_color (dg_severity d) mode;
          reset = ansi_reset mode;
          bold = ansi_bold mode;
          sev_str = (case dg_code d of
                       Some code \<Rightarrow> severity_str (dg_severity d) @ ''['' @ code @ '']''
                     | None \<Rightarrow> severity_str (dg_severity d));
          primary_span = map_option lb_span (primary_label d);
          source = (case primary_span of
                      None \<Rightarrow> None
                    | Some _ \<Rightarrow> Option.bind (dg_file_path d) (\<lambda>p. Option.bind sources (\<lambda>m. source_map_get m p)))
      in color @ sev_str @ reset @ '': '' @ bold @ dg_message d @ reset @
         (case primary_span of
            None \<Rightarrow> []
          | Some sp \<Rightarrow>
              [LF] @ color @ ''  -->'' @ reset @ '' '' @
              shorten_path (case dg_file_path d of Some p \<Rightarrow> p | None \<Rightarrow> ''<unknown>'') @
              '':'' @ dec (unat (span_line sp)) @ '':'' @ dec (unat (span_column sp))) @
         (case (source, primary_span) of
            (Some src, Some sp) \<Rightarrow> emit_snippet bs mode color d src sp
          | _ \<Rightarrow> []) @
         concat (map (\<lambda>note. [LF] @ ansi_color (ESC # ''[0;34m'') mode @ ''   ='' @ reset @ '' note: '' @ note) (dg_notes d)) @
         (case dg_help d of
            None \<Rightarrow> []
          | Some help \<Rightarrow> [LF] @ ansi_color (ESC # ''[0;32m'') mode @ ''   ='' @ reset @ '' help: '' @ help))"

text \<open>
  The loop of \<open>emit_all\<close>, with the number of errors rendered so far and whether anything was rendered:
  the diagnostics it prints, each with the blank line before it.
\<close>

fun emit_loop :: "(diagnostic \<Rightarrow> string) \<Rightarrow> nat \<Rightarrow> nat \<Rightarrow> bool \<Rightarrow> diagnostic list \<Rightarrow> string list \<times> nat" where
  "emit_loop render limit errors later [] = ([], errors)"
| "emit_loop render limit errors later (d # ds) =
     (if dg_severity d = SevError \<and> limit \<le> errors then ([], errors)
      else (let errors1 = (if dg_severity d = SevError then errors + 1 else errors);
                (out, n) = emit_loop render limit errors1 True ds
            in ((if later then [[]] else []) @ [render d] @ out, n)))"

definition plural :: "nat \<Rightarrow> string" where
  "plural n = (if n = 1 then [] else ''s'')"

definition emit_all ::
    "search \<Rightarrow> (string \<Rightarrow> string) \<Rightarrow> diagnostic list \<Rightarrow> source_buffer list option \<Rightarrow> diag_config \<Rightarrow> string list" where
  "emit_all bs shorten_path ds sources config =
     (let error_count = length (filter (\<lambda>d. dg_severity d = SevError) ds);
          limit = (case cfg_max_errors config of Some n \<Rightarrow> n | None \<Rightarrow> 2 ^ 64 - 1);
          (out, rendered_errors) =
            emit_loop (\<lambda>d. emit_diag bs shorten_path d sources config) limit 0 False ds;
          omitted = error_count - rendered_errors;
          mode = cfg_mode config;
          color = severity_color SevError mode;
          reset = ansi_reset mode
      in out @
         (if 0 < omitted
          then [color @ ''error'' @ reset @ '': '' @ dec omitted @ '' more error'' @ plural omitted @ '' not shown''] else []) @
         (if 0 < error_count
          then [color @ ''error'' @ reset @ '': aborting due to '' @ dec error_count @ '' previous error'' @
                plural error_count] else []))"

end
