(* ===== verification/Diagnostics_Spec.thy ===== *)
theory Diagnostics_Spec
  imports Diagnostics
begin

text \<open>
  What the output of diagnostics promises: the JSON document reads back as the diagnostics it was
  made from, the colours are all that distinguishes the coloured text from the plain one, and the
  limit on errors is kept and accounted for.
\<close>

section \<open>Colours\<close>

text \<open>A terminal shows nothing for an escape sequence, which ends at the first \<open>m\<close>.\<close>

function strip_ansi :: "string \<Rightarrow> string" where
  "strip_ansi [] = []"
| "strip_ansi (c # cs) =
     (if c = ESC then strip_ansi (tl (dropWhile (\<lambda>x. x \<noteq> CHR ''m'') cs)) else c # strip_ansi cs)"
  by pat_completeness auto
termination
proof (relation "measure length", simp_all)
  fix cs :: string
  show "length (dropWhile (\<lambda>x. x \<noteq> CHR ''m'') cs) - Suc 0 < Suc (length cs)"
    using length_dropWhile_le [of "\<lambda>x. x \<noteq> CHR ''m''" cs] by linarith
qed

definition shows_as :: "string \<Rightarrow> string \<Rightarrow> bool" where
  "shows_as c p \<longleftrightarrow> (\<forall>rest. strip_ansi (c @ rest) = p @ strip_ansi rest)"

lemma shows_as_Nil: "shows_as [] []"
  by (simp add: shows_as_def)

lemma shows_as_append: "shows_as c p \<Longrightarrow> shows_as d q \<Longrightarrow> shows_as (c @ d) (p @ q)"
  by (simp add: shows_as_def)

lemma shows_as_text: "ESC \<notin> set s \<Longrightarrow> shows_as s s"
  by (induction s) (auto simp: shows_as_def)

lemma shows_as_Cons: "c \<noteq> ESC \<Longrightarrow> shows_as x y \<Longrightarrow> shows_as (c # x) (c # y)"
  by (simp add: shows_as_def)

lemma LF_clean [simp]: "LF \<noteq> ESC"
  by (simp add: LF_def ESC_def)

lemma shows_as_strip: "shows_as c p \<Longrightarrow> strip_ansi c = p"
  unfolding shows_as_def by (metis append_Nil2 strip_ansi.simps(1))

lemma shows_as_concat: "(\<And>x. x \<in> set xs \<Longrightarrow> shows_as (f x) (g x)) \<Longrightarrow> shows_as (concat (map f xs)) (concat (map g xs))"
  by (induction xs) (auto intro: shows_as_Nil shows_as_append)

lemma shows_as_colours:
  "shows_as (ansi_reset Coloured) (ansi_reset Plain)" "shows_as (ansi_bold Coloured) (ansi_bold Plain)"
  "shows_as (severity_color s Coloured) (severity_color s Plain)"
  "shows_as (ansi_color (ESC # ''[0;34m'') Coloured) (ansi_color (ESC # ''[0;34m'') Plain)"
  "shows_as (ansi_color (ESC # ''[0;32m'') Coloured) (ansi_color (ESC # ''[0;32m'') Plain)"
  "shows_as (ansi_color (ESC # ''[0;35m'') Coloured) (ansi_color (ESC # ''[0;35m'') Plain)"
  by (cases s; simp add: shows_as_def ansi_reset_def ansi_bold_def severity_color_def ansi_color_def
      severity_ansi_color_def)+

lemma dec_clean: "ESC \<notin> set (dec n)"
proof (induction n rule: dec.induct)
  case (1 n)
  have "digit_char k \<noteq> ESC" if "k < 10" for k
  proof
    assume "digit_char k = ESC"
    then have "of_char (digit_char k) = (of_char ESC :: nat)" by simp
    then show False using that by (simp add: digit_char_def ESC_def)
  qed
  then have "ESC \<noteq> digit_char k" if "k < 10" for k using that by metis
  then show ?case using 1 by (subst dec.simps) auto
qed

lemma blank_clean [simp]: "CHR '' '' \<noteq> ESC" "ESC \<noteq> CHR '' ''" "ESC \<noteq> LF" "CHR ''|'' \<noteq> ESC"
  by (simp_all add: ESC_def LF_def)

lemma underline_clean: "ESC \<notin> set (underline n sp)"
  by (auto simp: underline_def ESC_def)

lemma prefix_clean: "ESC \<notin> set (line_number_prefix l n)"
  using dec_clean [of l] by (auto simp: line_number_prefix_def ESC_def)

lemma set_strip_suffix: "set (strip_suffix c s) \<subseteq> set s"
  by (auto simp: strip_suffix_def dest: in_set_butlastD)

lemma set_line_text: "set (line_text b n) \<subseteq> set (sb_text b)"
proof -
  have "set (take i (drop j (sb_text b))) \<subseteq> set (sb_text b)" for i j by (meson set_drop_subset set_take_subset subset_trans)
  then have "set (strip_suffix LF (strip_suffix (CHR 0x0D) (take i (drop j (sb_text b))))) \<subseteq> set (sb_text b)" for i j
    using set_strip_suffix by (meson subset_trans)
  then show ?thesis by (simp add: line_text_def Let_def)
qed

lemma severity_str_clean: "ESC \<notin> set (severity_str s)"
  by (cases s) (simp_all add: severity_str_def ESC_def)

text \<open>None of the texts that a diagnostic quotes contains an escape.\<close>

definition clean_diag :: "diagnostic \<Rightarrow> bool" where
  "clean_diag d \<longleftrightarrow> ESC \<notin> set (dg_message d) \<and> list_all (\<lambda>l. ESC \<notin> set (lb_message l)) (dg_labels d) \<and>
     list_all (\<lambda>n. ESC \<notin> set n) (dg_notes d) \<and>
     list_all (\<lambda>x. pred_option (\<lambda>s. ESC \<notin> set s) x) [dg_code d, dg_help d, dg_file_path d]"

lemmas same_text = shows_as_Nil shows_as_Cons shows_as_append shows_as_colours shows_as_concat

lemma shows_label:
  "ESC \<notin> set (lb_message l) \<Longrightarrow> shows_as color color' \<Longrightarrow>
    shows_as (emit_label Coloured color n l) (emit_label Plain color' n l)"
  unfolding emit_label_def
  by (intro shows_as_append) (auto intro: shows_as_colours shows_as_text simp: underline_clean blank_clean)

lemma shows_snippet:
  assumes "clean_diag d" "ESC \<notin> set (sb_text src)"
  shows "shows_as (emit_snippet bs Coloured (severity_color s Coloured) d src sp)
    (emit_snippet bs Plain (severity_color s Plain) d src sp)"
proof -
  have "ESC \<notin> set (lb_message l)" if "l \<in> set (dg_labels d)" for l
    using that assms(1) by (auto simp: clean_diag_def list_all_iff)
  moreover have "ESC \<notin> set (line_text src n)" for n using set_line_text assms(2) by blast
  moreover have "shows_as [LF] [LF]" "shows_as ''  |'' ''  |''" by (auto intro!: shows_as_text simp: ESC_def LF_def)
  ultimately show ?thesis
    unfolding emit_snippet_def Let_def
    by (auto intro!: same_text shows_label shows_as_text simp: underline_clean prefix_clean)
qed

lemma source_map_mem: "source_map_get m p = Some b \<Longrightarrow> b \<in> set m"
  by (auto simp: source_map_get_def find_Some_iff)

lemma shows_diag:
  assumes d: "clean_diag d" and src: "pred_option (list_all (\<lambda>b. ESC \<notin> set (sb_text b))) sources"
    and path: "\<And>p. ESC \<notin> set p \<Longrightarrow> ESC \<notin> set (shorten p)"
  shows "shows_as (emit_diag bs shorten d sources \<lparr>cfg_mode = Coloured, cfg_max_errors = n\<rparr>)
    (emit_diag bs shorten d sources \<lparr>cfg_mode = Plain, cfg_max_errors = n\<rparr>)"
proof -
  have path_text: "ESC \<notin> set (shorten (case dg_file_path d of Some p \<Rightarrow> p | None \<Rightarrow> ''<unknown>''))"
    by (rule path) (use d in \<open>auto simp: clean_diag_def ESC_def split: option.split\<close>)
  have note_text: "ESC \<notin> set x" if "x \<in> set (dg_notes d)" for x using that d by (auto simp: clean_diag_def list_all_iff)
  have opts: "dg_code d = Some x \<Longrightarrow> ESC \<notin> set x" "dg_help d = Some x \<Longrightarrow> ESC \<notin> set x" for x
    using d by (auto simp: clean_diag_def)
  have source: "ESC \<notin> set (sb_text b)" if "Option.bind (dg_file_path d) (\<lambda>p. Option.bind sources (\<lambda>m. source_map_get m p)) = Some b" for b
    using that src by (auto simp: bind_eq_Some_conv list_all_iff dest: source_map_mem)
  have lits: "shows_as [LF] [LF]" "shows_as '': '' '': ''" "shows_as ''  -->'' ''  -->''" "shows_as '' '' '' ''"
    "shows_as '':'' '':''" "shows_as ''   ='' ''   =''" "shows_as '' note: '' '' note: ''" "shows_as '' help: '' '' help: ''"
    by (auto intro!: shows_as_text simp: ESC_def LF_def)
  have head: "shows_as (case dg_code d of None \<Rightarrow> severity_str (dg_severity d)
        | Some code \<Rightarrow> severity_str (dg_severity d) @ ''['' @ code @ '']'')
      (case dg_code d of None \<Rightarrow> severity_str (dg_severity d)
        | Some code \<Rightarrow> severity_str (dg_severity d) @ ''['' @ code @ '']'')"
    using opts(1) severity_str_clean [of "dg_severity d"]
    by (intro shows_as_text) (auto simp: ESC_def split: option.split)
  have message: "shows_as (dg_message d) (dg_message d)" using d by (intro shows_as_text) (simp add: clean_diag_def)
  have snippet: "shows_as
      (case (case map_option lb_span (primary_label d) of None \<Rightarrow> None | Some _ \<Rightarrow>
           Option.bind (dg_file_path d) (\<lambda>p. Option.bind sources (\<lambda>m. source_map_get m p)), map_option lb_span (primary_label d)) of
         (Some src, Some sp) \<Rightarrow> emit_snippet bs Coloured (severity_color (dg_severity d) Coloured) d src sp | _ \<Rightarrow> [])
      (case (case map_option lb_span (primary_label d) of None \<Rightarrow> None | Some _ \<Rightarrow>
           Option.bind (dg_file_path d) (\<lambda>p. Option.bind sources (\<lambda>m. source_map_get m p)), map_option lb_span (primary_label d)) of
         (Some src, Some sp) \<Rightarrow> emit_snippet bs Plain (severity_color (dg_severity d) Plain) d src sp | _ \<Rightarrow> [])"
    using shows_snippet [OF d] source by (auto intro: shows_as_Nil split: option.split)
  have place: "shows_as
      (case map_option lb_span (primary_label d) of None \<Rightarrow> [] | Some sp \<Rightarrow>
         [LF] @ severity_color (dg_severity d) Coloured @ ''  -->'' @ ansi_reset Coloured @ '' '' @
         shorten (case dg_file_path d of Some p \<Rightarrow> p | None \<Rightarrow> ''<unknown>'') @
         '':'' @ dec (unat (span_line sp)) @ '':'' @ dec (unat (span_column sp)))
      (case map_option lb_span (primary_label d) of None \<Rightarrow> [] | Some sp \<Rightarrow>
         [LF] @ severity_color (dg_severity d) Plain @ ''  -->'' @ ansi_reset Plain @ '' '' @
         shorten (case dg_file_path d of Some p \<Rightarrow> p | None \<Rightarrow> ''<unknown>'') @
         '':'' @ dec (unat (span_line sp)) @ '':'' @ dec (unat (span_column sp)))"
    by (cases "map_option lb_span (primary_label d)"; simp only: option.case)
      (intro shows_as_Nil shows_as_append lits shows_as_colours shows_as_text path_text dec_clean)+
  have note_shows: "shows_as ([LF] @ ansi_color (ESC # ''[0;34m'') Coloured @ ''   ='' @ ansi_reset Coloured @ '' note: '' @ x)
      ([LF] @ ansi_color (ESC # ''[0;34m'') Plain @ ''   ='' @ ansi_reset Plain @ '' note: '' @ x)"
    if "x \<in> set (dg_notes d)" for x
    by (intro shows_as_append lits shows_as_colours shows_as_text note_text that)
  have help_shows: "shows_as
      (case dg_help d of None \<Rightarrow> [] | Some help \<Rightarrow>
         [LF] @ ansi_color (ESC # ''[0;32m'') Coloured @ ''   ='' @ ansi_reset Coloured @ '' help: '' @ help)
      (case dg_help d of None \<Rightarrow> [] | Some help \<Rightarrow>
         [LF] @ ansi_color (ESC # ''[0;32m'') Plain @ ''   ='' @ ansi_reset Plain @ '' help: '' @ help)"
  proof (cases "dg_help d")
    case (Some h)
    show ?thesis unfolding Some option.case
      by (intro shows_as_append lits shows_as_colours shows_as_text opts(2) [OF Some])
  qed (simp add: shows_as_Nil)
  show ?thesis
    unfolding emit_diag_def Let_def diag_config.select_convs
    by (intro shows_as_append head message place snippet shows_as_colours lits shows_as_concat note_shows help_shows)
qed

text \<open>Plain output has no escapes.\<close>

lemma shows_as_clean: "shows_as p p \<Longrightarrow> strip_ansi p = p"
  by (rule shows_as_strip)

section \<open>The limit on errors\<close>

abbreviation errors_in :: "diagnostic list \<Rightarrow> nat" where
  "errors_in ds \<equiv> length (filter (\<lambda>d. dg_severity d = SevError) ds)"

text \<open>Renderings separated by blank lines.\<close>

definition separated :: "(diagnostic \<Rightarrow> string) \<Rightarrow> bool \<Rightarrow> diagnostic list \<Rightarrow> string list" where
  "separated render later ds = (if later then concat (map (\<lambda>d. [[], render d]) ds)
     else (case ds of [] \<Rightarrow> [] | d # rest \<Rightarrow> render d # concat (map (\<lambda>d. [[], render d]) rest)))"

lemma emit_loop_prefix:
  "\<exists>k \<le> length ds. emit_loop render limit n later ds = (separated render later (take k ds), n + errors_in (take k ds)) \<and>
     (k = length ds \<or> (limit \<le> n + errors_in (take k ds) \<and> dg_severity (ds ! k) = SevError)) \<and>
     (n + errors_in (take k ds) \<le> max n limit)"
proof (induction ds arbitrary: n later)
  case Nil
  then show ?case by (simp add: separated_def)
next
  case (Cons d ds)
  show ?case
  proof (cases "dg_severity d = SevError \<and> limit \<le> n")
    case True
    then show ?thesis by (intro exI [of _ 0]) (simp add: separated_def)
  next
    case False
    define n1 where "n1 = (if dg_severity d = SevError then n + 1 else n)"
    obtain k where k: "k \<le> length ds"
      "emit_loop render limit n1 True ds = (separated render True (take k ds), n1 + errors_in (take k ds))"
      "k = length ds \<or> (limit \<le> n1 + errors_in (take k ds) \<and> dg_severity (ds ! k) = SevError)"
      "n1 + errors_in (take k ds) \<le> max n1 limit"
      using Cons.IH [of n1 True] by blast
    have "n1 + errors_in (take k ds) = n + errors_in (take (Suc k) (d # ds))" by (simp add: n1_def)
    moreover have "emit_loop render limit n later (d # ds) =
        (separated render later (take (Suc k) (d # ds)), n1 + errors_in (take k ds))"
      using False k(2) by (simp add: n1_def separated_def Let_def)
    moreover have "max n1 limit = max n limit" using False by (auto simp: n1_def)
    ultimately show ?thesis using k by (intro exI [of _ "Suc k"]) (auto simp: n1_def)
  qed
qed

section \<open>Reading JSON\<close>

datatype json = JStr string | JNum nat | JBool bool | JArr "json list" | JObj "(string \<times> json) list"

text \<open>What follows the backslash of an escape; \<open>\u\<close> is read for ASCII only.\<close>

definition hex_value :: "char \<Rightarrow> nat option" where
  "hex_value c =
     (let n = of_char c
      in if 48 \<le> n \<and> n \<le> 57 then Some (n - 48) else if 97 \<le> n \<and> n \<le> 102 then Some (n - 87)
         else if 65 \<le> n \<and> n \<le> 70 then Some (n - 55) else None)"

fun read_escape :: "string \<Rightarrow> (char \<times> string) option" where
  "read_escape [] = None"
| "read_escape (e # r) =
     (if e \<in> {CHR 0x22, CHR 0x5C, CHR ''/''} then Some (e, r)
      else if e = CHR ''b'' then Some (CHR 0x08, r)
      else if e = CHR ''f'' then Some (CHR 0x0C, r)
      else if e = CHR ''n'' then Some (CHR 0x0A, r)
      else if e = CHR ''r'' then Some (CHR 0x0D, r)
      else if e = CHR ''t'' then Some (CHR 0x09, r)
      else if e = CHR ''u''
      then (case map hex_value (take 4 r) of
              [Some a, Some b, Some c, Some d] \<Rightarrow>
                (let n = ((a * 16 + b) * 16 + c) * 16 + d in if n < 128 then Some (char_of n, drop 4 r) else None)
            | _ \<Rightarrow> None)
      else None)"

lemma read_escape_shorter: "read_escape s = Some (x, r) \<Longrightarrow> length r < length s"
  by (cases s) (auto simp: Let_def split: if_splits list.splits option.splits)

text \<open>The rest of a string after its opening quote.\<close>

function read_chars :: "string \<Rightarrow> (string \<times> string) option" where
  "read_chars [] = None"
| "read_chars (c # cs) =
     (if c = CHR 0x22 then Some ([], cs)
      else if c = CHR 0x5C
      then (case read_escape cs of
              None \<Rightarrow> None
            | Some (x, r) \<Rightarrow> map_option (\<lambda>(v, rest). (x # v, rest)) (read_chars r))
      else if of_char c < (0x20 :: nat) then None
      else map_option (\<lambda>(v, rest). (c # v, rest)) (read_chars cs))"
  by pat_completeness auto
termination by (relation "measure length") (auto dest: read_escape_shorter)

definition is_json_digit :: "char \<Rightarrow> bool" where
  "is_json_digit c \<longleftrightarrow> 48 \<le> (of_char c :: nat) \<and> (of_char c :: nat) \<le> 57"

definition digits_num :: "string \<Rightarrow> nat" where
  "digits_num ds = foldl (\<lambda>n c. n * 10 + (of_char c - 48)) 0 ds"

definition read_number :: "string \<Rightarrow> (json \<times> string) option" where
  "read_number s =
     (let ds = takeWhile is_json_digit s
      in if ds = [] then None else Some (JNum (digits_num ds), dropWhile is_json_digit s))"

fun read_value :: "nat \<Rightarrow> string \<Rightarrow> (json \<times> string) option"
  and read_elements :: "nat \<Rightarrow> string \<Rightarrow> (json list \<times> string) option"
  and read_members :: "nat \<Rightarrow> string \<Rightarrow> ((string \<times> json) list \<times> string) option"
where
  "read_value 0 s = None"
| "read_value (Suc n) s =
     (case s of
        [] \<Rightarrow> None
      | c # cs \<Rightarrow>
          if c = CHR 0x22 then map_option (\<lambda>(v, r). (JStr v, r)) (read_chars cs)
          else if c = CHR ''[''
          then (if cs \<noteq> [] \<and> hd cs = CHR '']'' then Some (JArr [], tl cs)
                else map_option (\<lambda>(vs, r). (JArr vs, r)) (read_elements n cs))
          else if c = CHR ''{''
          then (if cs \<noteq> [] \<and> hd cs = CHR ''}'' then Some (JObj [], tl cs)
                else map_option (\<lambda>(vs, r). (JObj vs, r)) (read_members n cs))
          else if take 4 s = ''true'' then Some (JBool True, drop 4 s)
          else if take 5 s = ''false'' then Some (JBool False, drop 5 s)
          else read_number s)"
| "read_elements 0 s = None"
| "read_elements (Suc n) s =
     (case read_value n s of
        None \<Rightarrow> None
      | Some (v, r) \<Rightarrow>
          (case r of
             [] \<Rightarrow> None
           | c # cs \<Rightarrow>
               if c = CHR '','' then map_option (\<lambda>(vs, rest). (v # vs, rest)) (read_elements n cs)
               else if c = CHR '']'' then Some ([v], cs) else None))"
| "read_members 0 s = None"
| "read_members (Suc n) s =
     (case s of
        [] \<Rightarrow> None
      | q # s1 \<Rightarrow>
          if q \<noteq> CHR 0x22 then None
          else (case read_chars s1 of
                  None \<Rightarrow> None
                | Some (key, s2) \<Rightarrow>
                    if s2 = [] \<or> hd s2 \<noteq> CHR '':'' then None
                    else (case read_value n (tl s2) of
                            None \<Rightarrow> None
                          | Some (v, r) \<Rightarrow>
                              (case r of
                                 [] \<Rightarrow> None
                               | c # cs \<Rightarrow>
                                   if c = CHR '','' then map_option (\<lambda>(vs, rest). ((key, v) # vs, rest)) (read_members n cs)
                                   else if c = CHR ''}'' then Some ([(key, v)], cs) else None))))"

section \<open>Printing JSON\<close>

fun json_print :: "json \<Rightarrow> string" where
  "json_print (JStr s) = quote s"
| "json_print (JNum n) = dec n"
| "json_print (JBool b) = json_bool b"
| "json_print (JArr js) = ''['' @ join_with '','' (map json_print js) @ '']''"
| "json_print (JObj ms) = ''{'' @ join_with '','' (map (\<lambda>m. quote (fst m) @ '':'' @ json_print (snd m)) ms) @ ''}''"

fun json_ok :: "json \<Rightarrow> bool" where
  "json_ok (JStr s) = utf8_ok s"
| "json_ok (JArr js) = list_all json_ok js"
| "json_ok (JObj ms) = list_all (\<lambda>m. utf8_ok (fst m) \<and> json_ok (snd m)) ms"
| "json_ok _ = True"

fun json_fuel :: "json \<Rightarrow> nat" where
  "json_fuel (JArr js) = Suc (sum_list (map (\<lambda>j. Suc (json_fuel j)) js))"
| "json_fuel (JObj ms) = Suc (sum_list (map (\<lambda>m. Suc (json_fuel (snd m))) ms))"
| "json_fuel _ = 1"

text \<open>Escaping works byte by byte.\<close>

lemma quote_char_high: "128 \<le> (of_char c :: nat) \<Longrightarrow> quote_char (c # cs) = c # cs"
  by (auto simp: quote_char_def split: list.split)

lemma quote_chars_bytes:
  "(\<And>i. Suc i < length s \<Longrightarrow> is_ascii (s ! i) \<Longrightarrow> \<not> is_cont (s ! Suc i)) \<Longrightarrow>
    concat (map quote_char (chars s)) = concat (map (\<lambda>c. quote_char [c]) s)"
proof (induction s)
  case (Cons c cs)
  have IH: "concat (map quote_char (chars cs)) = concat (map (\<lambda>c. quote_char [c]) cs)"
    by (rule Cons.IH) (use Cons.prems [of "Suc _"] in auto)
  show ?case
  proof (cases cs)
    case (Cons c2 cs2)
    obtain d ds where d: "chars cs = (c2 # d) # ds" using hd_chars [of cs] Cons by auto
    have "\<not> is_ascii c" if "is_cont c2" using Cons.prems [of 0] that Cons by auto
    then have "quote_char (c # x) = c # x" if "is_cont c2" for x
      using that by (intro quote_char_high) (simp add: is_ascii_def)
    moreover have "quote_char (c2 # d) = c2 # d" if "is_cont c2"
      using that by (intro quote_char_high) (simp add: is_cont_def)
    ultimately show ?thesis using IH d by auto
  qed simp
qed simp

lemma hex_value_digit: "k < 16 \<Longrightarrow> hex_value (hex_digit k) = Some k"
  by (simp add: hex_value_def hex_digit_def Let_def)

lemma read_control:
  assumes "of_char c < (0x20 :: nat)"
  shows "read_escape (CHR ''u'' # hex4 (of_char c) @ rest) = Some (c, rest)"
proof -
  let ?n = "of_char c :: nat"
  have "map hex_value (hex4 ?n) = [Some 0, Some 0, Some (?n div 16), Some (?n mod 16)]"
    using assms by (simp add: hex4_def hex_value_digit)
  moreover have "length (hex4 ?n) = 4" by (simp add: hex4_def)
  moreover have "?n div 16 * 16 + ?n mod 16 = ?n" by simp
  ultimately show ?thesis using assms by (simp add: Let_def)
qed

lemma read_quoted_byte:
  "read_chars (quote_char [c] @ rest) = map_option (\<lambda>(v, r). (c # v, r)) (read_chars rest)"
proof (cases "of_char c < (0x20 :: nat) \<and> c \<notin> {CHR 0x0A, CHR 0x0D, CHR 0x09}")
  case True
  then have "c \<noteq> CHR 0x22" "c \<noteq> CHR 0x5C" by auto
  then have "quote_char [c] = [CHR 0x5C, CHR ''u''] @ hex4 (of_char c)" using True by (simp add: quote_char_def)
  then show ?thesis using read_control [of c rest] True by (simp del: read_escape.simps)
qed (auto simp: quote_char_def)

lemma read_quoted:
  assumes "utf8_ok s"
  obtains q where "quote s = CHR 0x22 # q" "\<And>rest. read_chars (q @ rest) = Some (s, rest)"
proof
  have bytes: "read_chars (concat (map (\<lambda>c. quote_char [c]) s) @ CHR 0x22 # rest) = Some (s, rest)" for rest
    by (induction s) (simp_all add: read_quoted_byte)
  have "concat (map quote_char (chars s)) = concat (map (\<lambda>c. quote_char [c]) s)"
    using assms by (intro quote_chars_bytes) (auto simp: utf8_ok_def char_boundary_def)
  then show "read_chars ((concat (map quote_char (chars s)) @ [CHR 0x22]) @ rest) = Some (s, rest)" for rest
    using bytes by simp
qed (simp add: quote_def)

text \<open>Decimal numbers.\<close>

lemma digit_char_value: "k < 10 \<Longrightarrow> is_json_digit (digit_char k) \<and> of_char (digit_char k) - 48 = k"
  by (simp add: is_json_digit_def digit_char_def)

lemma dec_digits: "list_all is_json_digit (dec n) \<and> dec n \<noteq> [] \<and> digits_num (dec n) = n"
proof (induction n rule: dec.induct)
  case (1 n)
  show ?case
  proof (cases "n < 10")
    case True
    then show ?thesis using digit_char_value [of n] by (subst (1 2 3) dec.simps) (simp add: digits_num_def)
  next
    case False
    then show ?thesis using 1 digit_char_value [of "n mod 10"]
      by (subst (1 2 3) dec.simps) (simp add: digits_num_def)
  qed
qed

lemma read_dec:
  assumes "rest = [] \<or> \<not> is_json_digit (hd rest)"
  shows "read_number (dec n @ rest) = Some (JNum n, rest)"
proof -
  have "takeWhile is_json_digit (dec n @ rest) = dec n" "dropWhile is_json_digit (dec n @ rest) = rest"
    using dec_digits [of n] assms by (cases rest; auto simp: takeWhile_append dropWhile_append list_all_iff)+
  then show ?thesis using dec_digits [of n] by (simp add: read_number_def)
qed

lemma hd_dec: "\<exists>c cs. dec n = c # cs \<and> is_json_digit c"
  using dec_digits [of n] by (cases "dec n") auto

text \<open>A value begins with a character that is none of the closing and separating ones.\<close>

lemma json_print_start:
  "\<exists>c cs. json_print j = c # cs \<and> c \<notin> {CHR '']'', CHR ''}'', CHR '','', CHR '':''}"
proof (cases j)
  case (JNum n)
  then show ?thesis using hd_dec [of n] by (auto simp: is_json_digit_def)
qed (auto simp: quote_def json_bool_def)

lemma read_elements_print:
  assumes "\<And>j n rest. j \<in> set (v # vs) \<Longrightarrow> json_fuel j \<le> n \<Longrightarrow> rest = [] \<or> \<not> is_json_digit (hd rest) \<Longrightarrow>
      read_value n (json_print j @ rest) = Some (j, rest)"
    and "sum_list (map (\<lambda>j. Suc (json_fuel j)) (v # vs)) \<le> n"
  shows "read_elements n (join_with '','' (map json_print (v # vs)) @ CHR '']'' # rest) = Some (v # vs, rest)"
  using assms
proof (induction vs arbitrary: v n)
  case Nil
  then obtain m where m: "n = Suc m" by (cases n) auto
  have "read_value m (json_print v @ CHR '']'' # rest) = Some (v, CHR '']'' # rest)"
    by (rule Nil.prems(1)) (use Nil.prems(2) m in \<open>simp_all add: is_json_digit_def\<close>)
  then show ?case by (simp add: m)
next
  case (Cons w vs)
  then obtain m where m: "n = Suc m" by (cases n) auto
  let ?rest = "CHR '','' # join_with '','' (map json_print (w # vs)) @ CHR '']'' # rest"
  have "read_value m (json_print v @ ?rest) = Some (v, ?rest)"
    by (rule Cons.prems(1)) (use Cons.prems(2) m in \<open>simp_all add: is_json_digit_def\<close>)
  moreover have "read_elements m (join_with '','' (map json_print (w # vs)) @ CHR '']'' # rest) = Some (w # vs, rest)"
    by (rule Cons.IH) (use Cons.prems m in auto)
  ultimately show ?case by (simp add: m)
qed

abbreviation print_member :: "string \<times> json \<Rightarrow> string" where
  "print_member m \<equiv> quote (fst m) @ '':'' @ json_print (snd m)"

lemma read_members_step:
  assumes "utf8_ok key" "read_value n (json_print v @ c # cs) = Some (v, c # cs)"
  shows "read_members (Suc n) (print_member (key, v) @ c # cs) =
    (if c = CHR '','' then map_option (\<lambda>(vs, rest). ((key, v) # vs, rest)) (read_members n cs)
     else if c = CHR ''}'' then Some ([(key, v)], cs) else None)"
proof -
  obtain q where "quote key = CHR 0x22 # q" "\<And>rest. read_chars (q @ rest) = Some (key, rest)"
    using read_quoted [OF assms(1)] by blast
  then show ?thesis using assms(2) by simp
qed

lemma read_members_print:
  assumes "\<And>m n rest. m \<in> set (v # vs) \<Longrightarrow> json_fuel (snd m) \<le> n \<Longrightarrow> rest = [] \<or> \<not> is_json_digit (hd rest) \<Longrightarrow>
      utf8_ok (fst m) \<and> read_value n (json_print (snd m) @ rest) = Some (snd m, rest)"
    and "sum_list (map (\<lambda>m. Suc (json_fuel (snd m))) (v # vs)) \<le> n"
  shows "read_members n (join_with '','' (map print_member (v # vs)) @ CHR ''}'' # rest) = Some (v # vs, rest)"
  using assms
proof (induction vs arbitrary: v n)
  case Nil
  then obtain m where m: "n = Suc m" by (cases n) auto
  have "utf8_ok (fst v) \<and> read_value m (json_print (snd v) @ CHR ''}'' # rest) = Some (snd v, CHR ''}'' # rest)"
    by (rule Nil.prems(1)) (use Nil.prems(2) m in \<open>simp_all add: is_json_digit_def\<close>)
  then show ?case using read_members_step [of "fst v" m "snd v" "CHR ''}''" rest] by (simp add: m)
next
  case (Cons w vs)
  then obtain m where m: "n = Suc m" by (cases n) auto
  let ?tail = "join_with '','' (map print_member (w # vs)) @ CHR ''}'' # rest"
  have "utf8_ok (fst v) \<and> read_value m (json_print (snd v) @ CHR '','' # ?tail) = Some (snd v, CHR '','' # ?tail)"
    by (rule Cons.prems(1)) (use Cons.prems(2) m in \<open>simp_all add: is_json_digit_def\<close>)
  moreover have "read_members m ?tail = Some (w # vs, rest)"
    by (rule Cons.IH) (use Cons.prems m in auto)
  ultimately show ?case using read_members_step [of "fst v" m "snd v" "CHR '',''" ?tail] by (simp add: m)
qed

lemma join_start:
  assumes "xs \<noteq> []" "hd xs = c # cs"
  shows "\<exists>ds. join_with sep xs = c # ds"
  using assms by (cases "(sep, xs)" rule: join_with.cases) auto

lemma read_print:
  "json_ok j \<Longrightarrow> json_fuel j \<le> n \<Longrightarrow> rest = [] \<or> \<not> is_json_digit (hd rest) \<Longrightarrow>
    read_value n (json_print j @ rest) = Some (j, rest)"
proof (induction j arbitrary: n rest)
  case (JStr s)
  then obtain m where "n = Suc m" by (cases n) auto
  moreover obtain q where "quote s = CHR 0x22 # q" "\<And>rest. read_chars (q @ rest) = Some (s, rest)"
    using read_quoted [of s] JStr.prems(1) by auto
  ultimately show ?case by simp
next
  case (JNum k)
  then obtain m where m: "n = Suc m" by (cases n) auto
  obtain c cs where c: "dec k = c # cs" "is_json_digit c" using hd_dec [of k] by blast
  have "c \<notin> {CHR 0x22, CHR ''['', CHR ''{'', CHR ''t'', CHR ''f''}" using c(2) by (auto simp: is_json_digit_def)
  then show ?case using read_dec [of rest k] JNum.prems(3) m c(1) by auto
next
  case (JBool b)
  then obtain m where "n = Suc m" by (cases n) auto
  then show ?case by (simp add: json_bool_def)
next
  case (JArr js)
  then obtain m where m: "n = Suc m" by (cases n) auto
  show ?case
  proof (cases js)
    case Nil
    then show ?thesis by (simp add: m)
  next
    case (Cons v vs)
    obtain c cs where c: "json_print v = c # cs" "c \<notin> {CHR '']'', CHR ''}'', CHR '','', CHR '':''}"
      using json_print_start [of v] by blast
    obtain ds where ds: "join_with '','' (map json_print js) = c # ds"
      using join_start [of "map json_print js" c cs "'',''"] c(1) Cons by auto
    have "read_elements m (join_with '','' (map json_print (v # vs)) @ CHR '']'' # rest) = Some (v # vs, rest)"
      by (rule read_elements_print) (use JArr Cons m in \<open>auto simp: list_all_iff\<close>)
    then show ?thesis using m c(2) ds Cons by auto
  qed
next
  case (JObj ms)
  then obtain m where m: "n = Suc m" by (cases n) auto
  show ?case
  proof (cases ms)
    case Nil
    then show ?thesis by (simp add: m)
  next
    case (Cons v vs)
    obtain ds where ds: "join_with '','' (map print_member ms) = CHR 0x22 # ds"
      using join_start [of "map print_member ms" "CHR 0x22" _ "'',''"] Cons by (auto simp: quote_def)
    have "read_members m (join_with '','' (map print_member (v # vs)) @ CHR ''}'' # rest) = Some (v # vs, rest)"
    proof (rule read_members_print)
      fix x k r
      assume x: "x \<in> set (v # vs)" "json_fuel (snd x) \<le> k" "r = [] \<or> \<not> is_json_digit (hd r)"
      then have "x \<in> set ms" "snd x \<in> Basic_BNFs.snds x" using Cons by (auto simp: snds.intros)
      then show "utf8_ok (fst x) \<and> read_value k (json_print (snd x) @ r) = Some (snd x, r)"
        using JObj.IH [of x "snd x" k r] JObj.prems(1) x by (auto simp: list_all_iff)
    qed (use JObj.prems Cons m in auto)
    then show ?thesis using m ds Cons by auto
  qed
qed

section \<open>The document of a list of diagnostics\<close>

definition opt_member :: "string \<Rightarrow> string option \<Rightarrow> (string \<times> json) list" where
  "opt_member key v = (case v of None \<Rightarrow> [] | Some s \<Rightarrow> [(key, JStr s)])"

definition label_json :: "diag_label \<Rightarrow> json" where
  "label_json l =
     JObj [(''line'', JNum (unat (span_line (lb_span l)))), (''column'', JNum (unat (span_column (lb_span l)))),
           (''message'', JStr (lb_message l)), (''is_primary'', JBool (lb_is_primary l))]"

definition diagnostic_json :: "diagnostic \<Rightarrow> json" where
  "diagnostic_json d =
     JObj ([(''severity'', JStr (severity_str (dg_severity d)))] @ opt_member ''code'' (dg_code d) @
       [(''message'', JStr (dg_message d))] @
       (case primary_label d of
          None \<Rightarrow> []
        | Some l \<Rightarrow>
            opt_member ''file'' (dg_file_path d) @
            [(''line'', JNum (unat (span_line (lb_span l)))), (''column'', JNum (unat (span_column (lb_span l)))),
             (''end_line'', JNum (unat (span_line (lb_span l)))), (''end_column'', JNum (unat (end_column (lb_span l))))]) @
       (if dg_labels d \<noteq> [] then [(''labels'', JArr (map label_json (dg_labels d)))] else []) @
       (if dg_notes d \<noteq> [] then [(''notes'', JArr (map JStr (dg_notes d)))] else []) @
       opt_member ''help'' (dg_help d) @ opt_member ''lint'' (dg_lint d))"

definition diagnostics_json :: "diagnostic list \<Rightarrow> json" where
  "diagnostics_json ds =
     JObj [(''version'', JNum 1), (''error_count'', JNum (errors_in ds)), (''diagnostics'', JArr (map diagnostic_json ds))]"

text \<open>The texts of a diagnostic are Rust strings.\<close>

definition utf8_diag :: "diagnostic \<Rightarrow> bool" where
  "utf8_diag d \<longleftrightarrow> utf8_ok (dg_message d) \<and> list_all (\<lambda>l. utf8_ok (lb_message l)) (dg_labels d) \<and>
     list_all utf8_ok (dg_notes d) \<and>
     list_all (pred_option utf8_ok) [dg_code d, dg_help d, dg_file_path d, dg_lint d]"

definition plain_key :: "string \<Rightarrow> bool" where
  "plain_key s \<longleftrightarrow> list_all (\<lambda>c. is_ascii c \<and> 0x20 \<le> (of_char c :: nat) \<and> c \<noteq> CHR 0x22 \<and> c \<noteq> CHR 0x5C) s"

lemma quote_char_plain: "0x20 \<le> (of_char c :: nat) \<Longrightarrow> c \<noteq> CHR 0x22 \<Longrightarrow> c \<noteq> CHR 0x5C \<Longrightarrow> quote_char [c] = [c]"
  by (auto simp: quote_char_def)

lemma quote_bytes_plain: "plain_key s \<Longrightarrow> concat (map (\<lambda>c. quote_char [c]) s) = s"
proof (induction s)
  case (Cons c s)
  then have "quote_char [c] = [c]" by (intro quote_char_plain) (simp_all add: plain_key_def)
  then show ?case using Cons by (simp add: plain_key_def)
qed simp

lemma quote_plain: "plain_key s \<Longrightarrow> quote s = CHR 0x22 # s @ [CHR 0x22]"
proof -
  assume s: "plain_key s"
  have "\<not> is_cont c" if "is_ascii c" for c using that by (simp add: is_ascii_def is_cont_def)
  then have "\<forall>c \<in> set s. \<not> is_cont c" using s by (simp add: plain_key_def list_all_iff)
  then have "concat (map quote_char (chars s)) = concat (map (\<lambda>c. quote_char [c]) s)" by (simp add: chars_ascii comp_def)
  also have "\<dots> = s" using s by (rule quote_bytes_plain)
  finally show ?thesis by (simp add: quote_def)
qed

lemma json_field_member: "plain_key key \<Longrightarrow> json_field key v = quote key @ '':'' @ v"
  by (simp add: json_field_def quote_plain)

lemma plain_keys:
  "list_all plain_key [''line'', ''column'', ''message'', ''is_primary'', ''severity'', ''code'', ''file'', ''end_line'',
     ''end_column'', ''labels'', ''notes'', ''help'', ''lint'', ''version'', ''error_count'', ''diagnostics'']"
  by (simp add: plain_key_def is_ascii_def)

lemma severity_quoted: "CHR 0x22 # severity_str s @ [CHR 0x22] = quote (severity_str s)"
  by (cases s) (simp_all add: severity_str_def quote_plain plain_key_def is_ascii_def)

lemma dec_1: "''1'' = dec 1"
proof -
  have "char_of (49 :: nat) = CHR ''1''" by code_simp
  then show ?thesis by (simp add: dec.simps digit_char_def)
qed

lemma label_json_text: "label_to_json l = json_print (label_json l)"
  using plain_keys by (simp add: label_to_json_def label_json_def json_field_member)

lemma opt_field_text: "plain_key key \<Longrightarrow> opt_field key v = map print_member (opt_member key v)"
  by (simp add: opt_field_def opt_member_def json_field_member split: option.split)

lemma diagnostic_json_text: "diagnostic_to_json d = json_print (diagnostic_json d)"
  using plain_keys
  by (simp add: diagnostic_to_json_def diagnostic_json_def Let_def severity_quoted label_json_text [abs_def] comp_def
      json_field_member opt_field_text split: option.split)

lemma diagnostics_json_text: "diagnostics_to_json ds = json_print (diagnostics_json ds)"
  using plain_keys
  by (simp add: diagnostics_to_json_def diagnostics_json_def dec_1 diagnostic_json_text [abs_def] comp_def json_field_member)

lemma severity_utf8: "utf8_ok (severity_str s)"
  by (cases s) (simp_all add: severity_str_def utf8_ok_ascii is_ascii_def)

lemma primary_label_mem: "primary_label d = Some l \<Longrightarrow> l \<in> set (dg_labels d)"
  by (auto simp: primary_label_def find_Some_iff split: option.splits list.splits)

lemma opt_member_ok: "pred_option utf8_ok v \<Longrightarrow> utf8_ok key \<Longrightarrow> list_all (\<lambda>m. utf8_ok (fst m) \<and> json_ok (snd m)) (opt_member key v)"
  by (cases v) (simp_all add: opt_member_def)

lemma keys_utf8:
  "list_all utf8_ok [''line'', ''column'', ''message'', ''is_primary'', ''severity'', ''code'', ''file'', ''end_line'',
     ''end_column'', ''labels'', ''notes'', ''help'', ''lint'', ''version'', ''error_count'', ''diagnostics'']"
  by (simp add: utf8_ok_ascii is_ascii_def)

lemma diagnostic_json_ok: "utf8_diag d \<Longrightarrow> json_ok (diagnostic_json d)"
  using keys_utf8 severity_utf8
  by (simp add: diagnostic_json_def label_json_def utf8_diag_def opt_member_ok list_all_iff [of _ "map _ _"]
      list_all_iff [of _ "dg_labels d"] list_all_iff [of _ "dg_notes d"] split: option.split)

section \<open>Properties\<close>

text \<open>
  C24: The JSON output is well-formed whatever the messages contain: reading it back, with any amount of
  fuel from the size of the document on, consumes all of it and yields the document with the version,
  the number of errors, and for each diagnostic its texts, positions, labels and notes.
\<close>

theorem diagnostics_json_roundtrip:
  assumes "list_all utf8_diag ds" "json_fuel (diagnostics_json ds) \<le> n"
  shows "read_value n (diagnostics_to_json ds) = Some (diagnostics_json ds, [])"
proof -
  have "json_ok (diagnostics_json ds)"
    using assms(1) keys_utf8 diagnostic_json_ok by (simp add: diagnostics_json_def list_all_iff)
  from read_print [OF this assms(2), of "[]"] show ?thesis by (simp add: diagnostics_json_text)
qed

definition sample_diag :: diagnostic where
  "sample_diag = with_label (label_primary (span_new 8 9 1 9) ''here'') (with_code ''E1'' (diag_error [CHR 0x22, CHR 0x0A]))"

lemma sample_diag_texts: "utf8_diag sample_diag" "clean_diag sample_diag"
  by (simp_all add: utf8_diag_def clean_diag_def sample_diag_def with_label_def with_code_def diag_error_def
      label_primary_def utf8_ok_ascii is_ascii_def ESC_def)

theorem diagnostics_json_roundtrip_witness:
  "\<exists>n. read_value n (diagnostics_to_json [sample_diag]) = Some (diagnostics_json [sample_diag], [])"
  using diagnostics_json_roundtrip [of "[sample_diag]"] sample_diag_texts by auto

text \<open>
  Colours are all that distinguishes coloured from plain output. Removing the escape sequences from
  the coloured text of a diagnostic gives exactly its plain text, when the texts it quotes contain no
  escapes of their own.
\<close>

theorem colours_only:
  assumes "clean_diag d" "pred_option (list_all (\<lambda>b. ESC \<notin> set (sb_text b))) sources"
    and "\<And>p. ESC \<notin> set p \<Longrightarrow> ESC \<notin> set (shorten p)"
  shows "strip_ansi (emit_diag bs shorten d sources \<lparr>cfg_mode = Coloured, cfg_max_errors = n\<rparr>) =
    emit_diag bs shorten d sources \<lparr>cfg_mode = Plain, cfg_max_errors = n\<rparr>"
  by (rule shows_as_strip, rule shows_diag) (use assms in auto)

theorem colours_only_witness:
  "strip_ansi (emit_diag (scan_from 0) (\<lambda>p. p) sample_diag None \<lparr>cfg_mode = Coloured, cfg_max_errors = None\<rparr>) =
     emit_diag (scan_from 0) (\<lambda>p. p) sample_diag None \<lparr>cfg_mode = Plain, cfg_max_errors = None\<rparr>"
  by (rule colours_only) (simp_all add: sample_diag_texts)

text \<open>
  Printing many diagnostics prints a prefix of them in order, stops only at an error that would
  exceed the limit, and counts right: the errors shown and the errors reported as not shown are all
  the errors.
\<close>

theorem emit_limit:
  "\<exists>k. k \<le> length ds \<and> emit_loop render limit 0 False ds = (separated render False (take k ds), min limit (errors_in ds)) \<and>
     errors_in (take k ds) = min limit (errors_in ds) \<and>
     (k = length ds \<or> (errors_in (take k ds) = limit \<and> dg_severity (ds ! k) = SevError))"
proof -
  obtain k where k: "k \<le> length ds"
    "emit_loop render limit 0 False ds = (separated render False (take k ds), errors_in (take k ds))"
    "k = length ds \<or> (limit \<le> errors_in (take k ds) \<and> dg_severity (ds ! k) = SevError)"
    "errors_in (take k ds) \<le> limit"
    using emit_loop_prefix [of ds render limit 0 False] by auto
  have "errors_in (take k ds) \<le> errors_in ds"
    by (metis append_take_drop_id filter_append le_add1 length_append)
  then have "errors_in (take k ds) = min limit (errors_in ds)" using k by auto
  then show ?thesis using k by (intro exI [of _ k]) auto
qed

end
