(* ===== verification/Parser_Core.thy ===== *)
theory Parser_Core
  imports Ast
begin

text \<open>
  The state of the parser and its primitives (\<open>crates/ntsc-parser/src/lib.rs\<close>). The token slice is a
  parameter \<open>ts\<close>; the state is the position. A parsing function returns its value with the new
  position, or an error with the position at which it was raised, from which the caller may go on; an
  index out of range and \<open>unreachable!\<close> are panics. A loop of the source is \<open>p_loop\<close> with one more
  round than there are tokens; running out of rounds is the outcome \<open>POut\<close>, which a theorem excludes.
\<close>

section \<open>Results\<close>

record parse_error =
  pe_message :: string
  pe_span :: span

datatype 'a presult = POk 'a nat | PErr parse_error nat | PPanic | POut

type_synonym 'a parser = "nat \<Rightarrow> 'a presult"

definition p_return :: "'a \<Rightarrow> 'a parser" where
  "p_return x i = POk x i"

definition p_bind :: "'a parser \<Rightarrow> ('a \<Rightarrow> 'b parser) \<Rightarrow> 'b parser" where
  "p_bind m f i = (case m i of POk x k \<Rightarrow> f x k | PErr e k \<Rightarrow> PErr e k | PPanic \<Rightarrow> PPanic | POut \<Rightarrow> POut)"

definition p_error :: "string \<Rightarrow> span \<Rightarrow> 'a parser" where
  "p_error message sp i = PErr \<lparr>pe_message = message, pe_span = sp\<rparr> i"

text \<open>\<open>.ok()\<close>\<close>

definition p_ok :: "'a parser \<Rightarrow> 'a option parser" where
  "p_ok m i = (case m i of POk x k \<Rightarrow> POk (Some x) k | PErr e k \<Rightarrow> POk None k | PPanic \<Rightarrow> PPanic | POut \<Rightarrow> POut)"

text \<open>\<open>?\<close> in a function that returns an option\<close>

definition p_some :: "'a option parser \<Rightarrow> ('a \<Rightarrow> 'b option parser) \<Rightarrow> 'b option parser" where
  "p_some m f = p_bind m (\<lambda>x. case x of None \<Rightarrow> p_return None | Some y \<Rightarrow> f y)"

text \<open>A step of a loop goes on with a new state (\<open>Inl\<close>) or leaves it with a value (\<open>Inr\<close>).\<close>

primrec p_loop :: "nat \<Rightarrow> ('s \<Rightarrow> ('s + 'r) parser) \<Rightarrow> 's \<Rightarrow> 'r parser" where
  "p_loop 0 body s i = POut"
| "p_loop (Suc n) body s i =
     (case body s i of
        POk (Inl s') k \<Rightarrow> p_loop n body s' k
      | POk (Inr x) k \<Rightarrow> POk x k
      | PErr e k \<Rightarrow> PErr e k
      | PPanic \<Rightarrow> PPanic
      | POut \<Rightarrow> POut)"

section \<open>Messages and token classes\<close>

definition quoted :: "string \<Rightarrow> string" where
  "quoted s = CHR 0x27 # s @ [CHR 0x27]"

text \<open>Equality of discriminants: the payload of a token kind does not matter.\<close>

definition discriminant :: "token_kind \<Rightarrow> token_kind" where
  "discriminant k =
     (case k of
        TkIdentifier _ \<Rightarrow> TkIdentifier [] | TkStringLiteral _ \<Rightarrow> TkStringLiteral []
      | TkStringSegment _ \<Rightarrow> TkStringSegment [] | TkNumberLiteral _ \<Rightarrow> TkNumberLiteral [] | _ \<Rightarrow> k)"

abbreviation is_ident :: "token_kind \<Rightarrow> bool" where
  "is_ident k \<equiv> discriminant k = TkIdentifier []"

abbreviation is_string :: "token_kind \<Rightarrow> bool" where
  "is_string k \<equiv> discriminant k = TkStringLiteral []"

abbreviation is_string_segment :: "token_kind \<Rightarrow> bool" where
  "is_string_segment k \<equiv> discriminant k = TkStringSegment []"

abbreviation is_number :: "token_kind \<Rightarrow> bool" where
  "is_number k \<equiv> discriminant k = TkNumberLiteral []"

definition is_operator_token :: "token_kind \<Rightarrow> bool" where
  "is_operator_token k \<longleftrightarrow>
     k \<in> set [TkPlus, TkMinus, TkStar, TkSlash, TkPercent, TkBang, TkEqualEqual, TkBangEqual, TkLess, TkLessEqual,
       TkGreater, TkGreaterEqual]"

definition operator_token_lexeme :: "token_kind \<Rightarrow> string" where
  "operator_token_lexeme k =
     (if k = TkPlus then ''+'' else if k = TkMinus then ''-'' else if k = TkStar then ''*''
      else if k = TkSlash then ''/'' else if k = TkPercent then ''%'' else if k = TkBang then ''!''
      else if k = TkEqualEqual then ''=='' else if k = TkBangEqual then ''!='' else if k = TkLess then ''<''
      else if k = TkLessEqual then ''<='' else if k = TkGreater then ''>'' else if k = TkGreaterEqual then ''>=''
      else [])"

definition token_debug_name :: "token_kind \<Rightarrow> string" where
  "token_debug_name k =
     (case k of
        TkLeftParen \<Rightarrow> ''('' | TkRightParen \<Rightarrow> '')'' | TkLeftBrace \<Rightarrow> ''{''
      | TkRightBrace \<Rightarrow> ''}'' | TkLeftBracket \<Rightarrow> ''[''
      | TkRightBracket \<Rightarrow> '']'' | TkComma \<Rightarrow> '','' | TkDot \<Rightarrow> ''.''
      | TkMinus \<Rightarrow> ''-'' | TkPlus \<Rightarrow> ''+'' | TkSemicolon \<Rightarrow> '';''
      | TkSlash \<Rightarrow> ''/'' | TkStar \<Rightarrow> ''*'' | TkColon \<Rightarrow> '':''
      | TkPercent \<Rightarrow> ''%'' | TkAmpersand \<Rightarrow> ''&'' | TkPipe \<Rightarrow> ''|''
      | TkCaret \<Rightarrow> ''^'' | TkTilde \<Rightarrow> ''~'' | TkQuestion \<Rightarrow> ''?''
      | TkBang \<Rightarrow> ''!'' | TkBangEqual \<Rightarrow> ''!='' | TkEqual \<Rightarrow> ''=''
      | TkEqualEqual \<Rightarrow> ''=='' | TkGreater \<Rightarrow> ''>'' | TkGreaterEqual \<Rightarrow> ''>=''
      | TkGreaterGreater \<Rightarrow> ''>>'' | TkLess \<Rightarrow> ''<'' | TkLessEqual \<Rightarrow> ''<=''
      | TkLessLess \<Rightarrow> ''<<'' | TkLessPipe \<Rightarrow> ''<|'' | TkPipeGreater \<Rightarrow> ''|>''
      | TkPlusPlus \<Rightarrow> ''++'' | TkMinusMinus \<Rightarrow> ''--'' | TkAndSym \<Rightarrow> ''&&''
      | TkOrSym \<Rightarrow> ''||'' | TkArrow \<Rightarrow> ''=>'' | TkReturnArrow \<Rightarrow> ''->''
      | TkDotDotDot \<Rightarrow> ''...'' | TkDotDot \<Rightarrow> ''..'' | TkQuestionDot \<Rightarrow> ''?.''
      | TkIdentifier _ \<Rightarrow> ''identifier'' | TkStringLiteral _ \<Rightarrow> ''string literal''
      | TkStringSegment _ \<Rightarrow> ''string segment'' | TkNumberLiteral _ \<Rightarrow> ''number literal''
      | TkNewline \<Rightarrow> ''newline'' | TkAnd \<Rightarrow> ''and'' | TkClass \<Rightarrow> ''class''
      | TkElse \<Rightarrow> ''else'' | TkElif \<Rightarrow> ''elif'' | TkFalse \<Rightarrow> ''false''
      | TkFun \<Rightarrow> ''fun'' | TkFor \<Rightarrow> ''for'' | TkIf \<Rightarrow> ''if''
      | TkNil \<Rightarrow> ''nil'' | TkOr \<Rightarrow> ''or'' | TkSay \<Rightarrow> ''say''
      | TkReturn \<Rightarrow> ''return'' | TkStatic \<Rightarrow> ''static'' | TkSuper \<Rightarrow> ''super''
      | TkThis \<Rightarrow> ''this'' | TkTrue \<Rightarrow> ''true'' | TkVar \<Rightarrow> ''var''
      | TkWhile \<Rightarrow> ''while'' | TkDo \<Rightarrow> ''do'' | TkBreak \<Rightarrow> ''break''
      | TkContinue \<Rightarrow> ''continue'' | TkMatch \<Rightarrow> ''match'' | TkCase \<Rightarrow> ''case''
      | TkDefault \<Rightarrow> ''default'' | TkTry \<Rightarrow> ''try'' | TkCatch \<Rightarrow> ''catch''
      | TkFinally \<Rightarrow> ''finally'' | TkThrow \<Rightarrow> ''throw'' | TkRetry \<Rightarrow> ''retry''
      | TkUnsafe \<Rightarrow> ''unsafe'' | TkQuiet \<Rightarrow> ''quiet'' | TkEnum \<Rightarrow> ''enum''
      | TkType \<Rightarrow> ''type'' | TkTrait \<Rightarrow> ''trait'' | TkImpl \<Rightarrow> ''impl''
      | TkIn \<Rightarrow> ''in'' | TkUse \<Rightarrow> ''use'' | TkFrom \<Rightarrow> ''from''
      | TkAs \<Rightarrow> ''as'' | TkTest \<Rightarrow> ''test'' | TkAsync \<Rightarrow> ''async''
      | TkAwait \<Rightarrow> ''await'' | TkTypeInt \<Rightarrow> ''int'' | TkTypeFloat \<Rightarrow> ''float''
      | TkTypeString \<Rightarrow> ''string'' | TkTypeBool \<Rightarrow> ''bool''
      | TkTypeArray \<Rightarrow> ''array'' | TkTypeObject \<Rightarrow> ''object''
      | TkTypeOption \<Rightarrow> ''option'' | TkTypeResult \<Rightarrow> ''result''
      | TkTypeAny \<Rightarrow> ''any'' | TkTypePointer \<Rightarrow> ''pointer''
      | TkTypeSlice \<Rightarrow> ''slice'' | TkView \<Rightarrow> ''view'' | TkMut \<Rightarrow> ''mut''
      | TkShared \<Rightarrow> ''shared'' | TkCopy \<Rightarrow> ''copy'' | TkOwn \<Rightarrow> ''own''
      | TkGo \<Rightarrow> ''go'' | TkChan \<Rightarrow> ''chan'' | TkClose \<Rightarrow> ''close''
      | TkEof \<Rightarrow> ''end of file'')"

definition EOF_TOKEN :: token where
  "EOF_TOKEN = token_new TkEof (span_new 0 0 1 1)"

section \<open>Token navigation\<close>

definition peek :: "token list \<Rightarrow> nat \<Rightarrow> token" where
  "peek ts i = (if i < length ts then ts ! i else EOF_TOKEN)"

definition peek_at :: "token list \<Rightarrow> nat \<Rightarrow> nat \<Rightarrow> token_kind" where
  "peek_at ts offset i = kind (if i + offset < length ts then ts ! (i + offset) else EOF_TOKEN)"

abbreviation peek_kind :: "token list \<Rightarrow> nat \<Rightarrow> token_kind" where
  "peek_kind ts i \<equiv> kind (peek ts i)"

definition check :: "token list \<Rightarrow> token_kind \<Rightarrow> nat \<Rightarrow> bool" where
  "check ts k i \<longleftrightarrow> discriminant (peek_kind ts i) = discriminant k"

definition is_at_end :: "token list \<Rightarrow> nat \<Rightarrow> bool" where
  "is_at_end ts i \<longleftrightarrow> peek_kind ts i = TkEof"

definition check_ident :: "token list \<Rightarrow> string \<Rightarrow> nat \<Rightarrow> bool" where
  "check_ident ts s i \<longleftrightarrow> peek_kind ts i = TkIdentifier s"

definition peek_at_ident :: "token list \<Rightarrow> nat \<Rightarrow> nat \<Rightarrow> bool" where
  "peek_at_ident ts offset i \<longleftrightarrow> is_ident (peek_at ts offset i)"

definition peek_at_type_keyword :: "token list \<Rightarrow> nat \<Rightarrow> nat \<Rightarrow> bool" where
  "peek_at_type_keyword ts offset i \<longleftrightarrow> is_type_keyword (peek_at ts offset i)"

definition peek_at_operator :: "token list \<Rightarrow> nat \<Rightarrow> nat \<Rightarrow> bool" where
  "peek_at_operator ts offset i \<longleftrightarrow> is_operator_token (peek_at ts offset i)"

text \<open>A test of the state, and an error at the current token.\<close>

definition p_test :: "(nat \<Rightarrow> bool) \<Rightarrow> 'a parser \<Rightarrow> 'a parser \<Rightarrow> 'a parser" where
  "p_test c p q i = (if c i then p i else q i)"

definition p_here :: "token list \<Rightarrow> (token \<Rightarrow> 'a parser) \<Rightarrow> 'a parser" where
  "p_here ts f i = f (peek ts i) i"

definition error_here :: "token list \<Rightarrow> string \<Rightarrow> 'a parser" where
  "error_here ts message i = p_error message (tspan (peek ts i)) i"

definition advance :: "token list \<Rightarrow> token parser" where
  "advance ts i = (if i < length ts then POk (ts ! i) (i + 1) else PPanic)"

definition p_consume :: "token list \<Rightarrow> token_kind \<Rightarrow> token option parser" where
  "p_consume ts k i = (if check ts k i then p_bind (advance ts) (\<lambda>t. p_return (Some t)) i else POk None i)"

definition consume_keyword :: "token list \<Rightarrow> string \<Rightarrow> bool parser" where
  "consume_keyword ts s = p_test (check_ident ts s) (p_bind (advance ts) (\<lambda>_. p_return True)) (p_return False)"

definition expect_ident :: "token list \<Rightarrow> string \<Rightarrow> token parser" where
  "expect_ident ts message = p_test (\<lambda>i. is_ident (peek_kind ts i)) (advance ts) (error_here ts message)"

definition parse_member_name :: "token list \<Rightarrow> token parser" where
  "parse_member_name ts =
     p_here ts (\<lambda>property.
       if is_ident (kind property) then p_bind (advance ts) (\<lambda>_. p_return property)
       else (case keyword_lexeme (kind property) of
               Some s \<Rightarrow> p_bind (advance ts) (\<lambda>_. p_return (token_new (TkIdentifier s) (tspan property)))
             | None \<Rightarrow> p_error (''expected property name after '' @ quoted ''.'') (tspan property)))"

definition expect :: "token list \<Rightarrow> token_kind \<Rightarrow> string \<Rightarrow> token parser" where
  "expect ts k message = p_test (check ts k) (advance ts) (error_here ts message)"

definition next_is_continuation :: "token list \<Rightarrow> nat \<Rightarrow> bool" where
  "next_is_continuation ts i \<longleftrightarrow>
     peek_kind ts i \<in> set [TkDot, TkQuestionDot, TkLeftParen, TkLeftBracket, TkPlus, TkMinus, TkStar, TkSlash, TkPercent,
       TkEqual, TkEqualEqual, TkBangEqual, TkGreater, TkGreaterEqual, TkLess, TkLessEqual, TkAndSym, TkOrSym,
       TkAmpersand, TkPipe, TkCaret, TkTilde, TkBang, TkPlusPlus, TkMinusMinus, TkDotDotDot, TkSemicolon]"

definition consume_terminator :: "token list \<Rightarrow> span option parser" where
  "consume_terminator ts =
     p_bind (p_consume ts TkSemicolon) (\<lambda>t. case t of
       Some tok \<Rightarrow> p_return (Some (tspan tok))
     | None \<Rightarrow>
         p_test (\<lambda>i. check ts TkNewline i \<and> \<not> next_is_continuation ts i)
           (p_bind (advance ts) (\<lambda>tok. p_return (Some (tspan tok))))
           (p_test (is_at_end ts) (p_here ts (\<lambda>tok. p_return (Some (tspan tok)))) (p_return None)))"

definition skip_newlines :: "token list \<Rightarrow> unit parser" where
  "skip_newlines ts =
     p_loop (Suc (length ts))
       (\<lambda>_. p_test (check ts TkNewline) (p_bind (advance ts) (\<lambda>_. p_return (Inl ()))) (p_return (Inr ()))) ()"

definition sync_keywords :: "token_kind list" where
  "sync_keywords =
     [TkClass, TkFun, TkAsync, TkVar, TkStatic, TkFor, TkIf, TkWhile, TkReturn, TkMatch, TkTry, TkThrow, TkUnsafe, TkQuiet,
      TkEnum, TkType, TkUse, TkTest]"

definition sync_round :: "token list \<Rightarrow> unit \<Rightarrow> (unit + unit) parser" where
  "sync_round ts = (\<lambda>_. p_test (is_at_end ts) (p_return (Inr ()))
     (p_test (\<lambda>i. check ts TkNewline i \<or> check ts TkSemicolon i) (p_bind (advance ts) (\<lambda>_. p_return (Inr ())))
       (p_test (\<lambda>i. peek_kind ts i \<in> set sync_keywords) (p_return (Inr ()))
         (p_bind (advance ts) (\<lambda>_. p_return (Inl ()))))))"

definition synchronize :: "token list \<Rightarrow> unit parser" where
  "synchronize ts = p_loop (Suc (length ts)) (sync_round ts) ()"

text \<open>The two shapes of loops that the parsing functions repeat: items separated by a token, and
  statements up to a closing brace or the end of the input.\<close>

definition separated_by :: "token list \<Rightarrow> token_kind \<Rightarrow> 'a parser \<Rightarrow> 'a list parser" where
  "separated_by ts sep p =
     p_loop (Suc (length ts))
       (\<lambda>xs. p_bind p (\<lambda>x. p_bind (p_consume ts sep) (\<lambda>c.
          p_return (case c of None \<Rightarrow> Inr (xs @ [x]) | Some _ \<Rightarrow> Inl (xs @ [x]))))) []"

definition until_brace :: "token list \<Rightarrow> 'a parser \<Rightarrow> 'a list parser" where
  "until_brace ts p =
     p_loop (Suc (length ts))
       (\<lambda>xs. p_test (\<lambda>i. \<not> check ts TkRightBrace i \<and> \<not> is_at_end ts i)
          (p_bind p (\<lambda>x. p_bind (skip_newlines ts) (\<lambda>_. p_return (Inl (xs @ [x])))))
          (p_return (Inr xs))) []"

section \<open>Precedence\<close>

datatype precedence =
    PrecNone | PrecAssignment | PrecTernary | PrecOr | PrecAnd | PrecEquality | PrecComparison | PrecBitwiseOr
  | PrecBitwiseXor | PrecBitwiseAnd | PrecShift | PrecTerm | PrecFactor | PrecUnary | PrecCall

primrec prec_rank :: "precedence \<Rightarrow> nat" where
  "prec_rank PrecNone = 0" | "prec_rank PrecAssignment = 1" | "prec_rank PrecTernary = 2" | "prec_rank PrecOr = 3"
| "prec_rank PrecAnd = 4" | "prec_rank PrecEquality = 5" | "prec_rank PrecComparison = 6" | "prec_rank PrecBitwiseOr = 7"
| "prec_rank PrecBitwiseXor = 8" | "prec_rank PrecBitwiseAnd = 9" | "prec_rank PrecShift = 10" | "prec_rank PrecTerm = 11"
| "prec_rank PrecFactor = 12" | "prec_rank PrecUnary = 13" | "prec_rank PrecCall = 14"

lemma prec_rank_inj: "prec_rank p = prec_rank q \<Longrightarrow> p = q"
  by (cases p; cases q) simp_all

instantiation precedence :: linorder
begin

definition less_eq_precedence :: "precedence \<Rightarrow> precedence \<Rightarrow> bool" where
  "less_eq_precedence p q \<longleftrightarrow> prec_rank p \<le> prec_rank q"

definition less_precedence :: "precedence \<Rightarrow> precedence \<Rightarrow> bool" where
  "less_precedence p q \<longleftrightarrow> prec_rank p < prec_rank q"

instance
  by standard (auto simp: less_eq_precedence_def less_precedence_def dest: prec_rank_inj)

end

definition next_higher :: "precedence \<Rightarrow> precedence" where
  "next_higher p =
     (case p of
        PrecNone \<Rightarrow> PrecAssignment | PrecAssignment \<Rightarrow> PrecTernary | PrecTernary \<Rightarrow> PrecOr | PrecOr \<Rightarrow> PrecAnd
      | PrecAnd \<Rightarrow> PrecEquality | PrecEquality \<Rightarrow> PrecComparison | PrecComparison \<Rightarrow> PrecBitwiseOr
      | PrecBitwiseOr \<Rightarrow> PrecBitwiseXor | PrecBitwiseXor \<Rightarrow> PrecBitwiseAnd | PrecBitwiseAnd \<Rightarrow> PrecShift
      | PrecShift \<Rightarrow> PrecTerm | PrecTerm \<Rightarrow> PrecFactor | PrecFactor \<Rightarrow> PrecUnary | PrecUnary \<Rightarrow> PrecCall
      | PrecCall \<Rightarrow> PrecCall)"

lemma next_higher_above [simp]: "next_higher prec \<noteq> PrecNone"
  by (cases prec) (simp_all add: next_higher_def)

end
