(* ===== verification/Parser_Types.thy ===== *)
theory Parser_Types
  imports Parser_Core
begin

text \<open>
  Type annotations (\<open>parse_type_annotation\<close> and its helpers in \<open>crates/ntsc-parser/src/lib.rs\<close>). The
  function calls itself only after a token; \<open>parse_type_fuel\<close> bounds the nesting by one more than the
  number of tokens. An unsuccessful annotation is \<open>None\<close>, with the tokens read so far consumed, except
  for the attempt at a tuple type, which moves the position back.
\<close>

primrec type_source :: "type_annotation \<Rightarrow> string" where
  "type_source (TANamed t) = lexeme t"
| "type_source TAInt = ''int''"
| "type_source TAFloat = ''float''"
| "type_source TAString = ''string''"
| "type_source TABool = ''bool''"
| "type_source (TAArray inner) =
     (case map_option type_source inner of
        Some s \<Rightarrow> ''array['' @ s @ '']'' | None \<Rightarrow> annotation_label (TAArray None))"
| "type_source (TAOption inner) = ''option['' @ type_source inner @ '']''"
| "type_source (TAResult ok err) = ''result['' @ type_source ok @ '','' @ type_source err @ '']''"
| "type_source (TASlice inner) =
     (case map_option type_source inner of
        Some s \<Rightarrow> ''slice['' @ s @ '']'' | None \<Rightarrow> annotation_label (TASlice None))"
| "type_source (TAShared inner) = ''shared '' @ type_source inner"
| "type_source (TAOwn inner) = ''own '' @ type_source inner"
| "type_source (TAView inner mutable) = ''view '' @ (if mutable then ''mut '' else []) @ type_source inner"
| "type_source TAObject = annotation_label TAObject"
| "type_source TAAny = annotation_label TAAny"
| "type_source TAPointer = annotation_label TAPointer"
| "type_source (TARef inner mutable) = annotation_label (TARef inner mutable)"
| "type_source (TARawPointer inner mutable) = annotation_label (TARawPointer inner mutable)"
| "type_source (TAImplTrait t) = annotation_label (TAImplTrait t)"
| "type_source (TADyn t) = annotation_label (TADyn t)"
| "type_source (TATuple types) = annotation_label (TATuple types)"
| "type_source (TAChan inner) = annotation_label (TAChan inner)"

definition join_comma :: "string list \<Rightarrow> string" where
  "join_comma ss = (case ss of [] \<Rightarrow> [] | s # rest \<Rightarrow> s @ concat (map (\<lambda>r. '','' @ r) rest))"

definition mangle_applied_type :: "string \<Rightarrow> type_annotation list \<Rightarrow> string" where
  "mangle_applied_type base arguments = base @ ''<'' @ join_comma (map type_source arguments) @ ''>''"

type_synonym type_parser = "bool \<Rightarrow> type_annotation option parser"

text \<open>\<open>expect(..).ok()?\<close>\<close>

definition expect_some :: "token list \<Rightarrow> token_kind \<Rightarrow> string \<Rightarrow> 'b option parser \<Rightarrow> 'b option parser" where
  "expect_some ts k message rest = p_some (p_ok (expect ts k message)) (\<lambda>_. rest)"

definition parse_type_arguments_with :: "token list \<Rightarrow> type_parser \<Rightarrow> type_annotation list parser" where
  "parse_type_arguments_with ts pt =
     p_bind (expect ts TkLess ''expected `<` before type arguments'') (\<lambda>_.
     p_bind (separated_by ts TkComma
       (p_bind (pt True) (\<lambda>t. case t of
          Some ty \<Rightarrow> p_return ty
        | None \<Rightarrow> error_here ts ''expected type argument''))) (\<lambda>arguments.
     p_bind (expect ts TkGreater ''expected `>` after type arguments'') (\<lambda>_.
     p_return arguments)))"

text \<open>The types that begin with a sigil or a modifier.\<close>

definition parse_modified_type :: "token list \<Rightarrow> type_parser \<Rightarrow> (type_annotation \<Rightarrow> bool \<Rightarrow> type_annotation) \<Rightarrow>
    type_annotation option parser" where
  "parse_modified_type ts pt con =
     p_bind (advance ts) (\<lambda>_.
     p_bind (p_consume ts TkMut) (\<lambda>mutable.
     p_some (pt True) (\<lambda>inner. p_return (Some (con inner (mutable \<noteq> None))))))"

definition parse_wrapped_type :: "token list \<Rightarrow> type_parser \<Rightarrow> (type_annotation \<Rightarrow> type_annotation) \<Rightarrow>
    type_annotation option parser" where
  "parse_wrapped_type ts pt con =
     p_bind (advance ts) (\<lambda>_. p_some (pt True) (\<lambda>inner. p_return (Some (con inner))))"

definition parse_raw_pointer_type :: "token list \<Rightarrow> type_parser \<Rightarrow> type_annotation option parser" where
  "parse_raw_pointer_type ts pt =
     p_bind (advance ts) (\<lambda>_.
     p_some
       (p_bind (p_consume ts TkMut) (\<lambda>m. case m of
          Some _ \<Rightarrow> p_return (Some True)
        | None \<Rightarrow> p_bind (p_ok (expect_ident ts ''expected `const` or `mut` after `*`'')) (\<lambda>t.
            p_return (case t of
              Some tok \<Rightarrow> if lexeme tok = ''const'' then Some False else None
            | None \<Rightarrow> None))))
       (\<lambda>mutable. p_some (pt True) (\<lambda>inner. p_return (Some (TARawPointer inner mutable)))))"

text \<open>The attempt at \<open>(T1, T2, ...)\<close>: the inner result is what the function returns, and without one
  the position is moved back.\<close>

definition p_reset :: "'a option parser \<Rightarrow> 'a option parser" where
  "p_reset m i =
     (case m i of
        POk (Some x) k \<Rightarrow> POk (Some x) k | POk None _ \<Rightarrow> POk None i
      | PErr e k \<Rightarrow> PErr e k | PPanic \<Rightarrow> PPanic | POut \<Rightarrow> POut)"

definition parse_tuple_types :: "token list \<Rightarrow> type_parser \<Rightarrow> type_annotation \<Rightarrow> type_annotation list parser" where
  "parse_tuple_types ts pt first_type =
     p_loop (Suc (length ts))
       (\<lambda>types. p_bind (p_consume ts TkComma) (\<lambda>c.
          case c of
            None \<Rightarrow> p_return (Inr types)
          | Some _ \<Rightarrow>
              p_test (check ts TkRightParen) (p_return (Inr types))
                (p_bind (pt True) (\<lambda>t. p_return (case t of Some ty \<Rightarrow> Inl (types @ [ty]) | None \<Rightarrow> Inl types)))))
       [first_type]"

definition parse_tuple_type :: "token list \<Rightarrow> type_parser \<Rightarrow> type_annotation option option parser" where
  "parse_tuple_type ts pt =
     p_reset (p_bind (advance ts) (\<lambda>_.
       p_bind (pt True) (\<lambda>first. case first of
         None \<Rightarrow> p_return None
       | Some first_type \<Rightarrow>
           p_test (check ts TkComma)
             (p_bind (parse_tuple_types ts pt first_type) (\<lambda>types.
                p_bind (expect_some ts TkRightParen (''expected '' @ quoted '')'' @ '' after tuple type'')
                  (p_return (Some (TATuple types)))) (\<lambda>r. p_return (Some r))))
             (p_return None))))"

text \<open>The types that begin with a type keyword.\<close>

definition parse_bracketed_type :: "token list \<Rightarrow> type_parser \<Rightarrow> string \<Rightarrow> type_annotation option parser" where
  "parse_bracketed_type ts pt message =
     p_some (pt True) (\<lambda>element. expect_some ts TkRightBracket message (p_return (Some element)))"

definition parse_element_type :: "token list \<Rightarrow> type_parser \<Rightarrow> string \<Rightarrow> (type_annotation option \<Rightarrow> type_annotation) \<Rightarrow>
    type_annotation option parser" where
  "parse_element_type ts pt message con =
     p_bind (p_consume ts TkLeftBracket) (\<lambda>b. case b of
       Some _ \<Rightarrow> p_some (parse_bracketed_type ts pt message) (\<lambda>element. p_return (Some (con (Some element))))
     | None \<Rightarrow> p_return (Some (con None)))"

definition parse_keyword_type :: "token list \<Rightarrow> type_parser \<Rightarrow> type_annotation option parser" where
  "parse_keyword_type ts pt =
     p_bind (advance ts) (\<lambda>tok.
       if kind tok = TkTypeArray then
         parse_element_type ts pt (''expected '' @ quoted '']'' @ '' after array element type'') TAArray
       else if kind tok = TkTypeSlice then
         parse_element_type ts pt (''expected '' @ quoted '']'' @ '' after slice element type'') TASlice
       else if kind tok = TkTypeOption then
         expect_some ts TkLeftBracket (''expected '' @ quoted ''['' @ '' after '' @ quoted ''option'')
           (p_some (parse_bracketed_type ts pt (''expected '' @ quoted '']'' @ '' after option type'')) (\<lambda>inner.
              p_return (Some (TAOption inner))))
       else if kind tok = TkTypeResult then
         expect_some ts TkLeftBracket (''expected '' @ quoted ''['' @ '' after '' @ quoted ''result'')
           (p_some (pt True) (\<lambda>ok.
            expect_some ts TkComma (''expected '' @ quoted '','' @ '' between result ok and err types'')
              (p_some (parse_bracketed_type ts pt (''expected '' @ quoted '']'' @ '' after result type'')) (\<lambda>err.
                 p_return (Some (TAResult ok err))))))
       else p_return (from_token tok))"

definition parse_chan_type :: "token list \<Rightarrow> type_parser \<Rightarrow> type_annotation option parser" where
  "parse_chan_type ts pt =
     p_bind (advance ts) (\<lambda>_.
     expect_some ts TkLeftBracket (''expected '' @ quoted ''['' @ '' after '' @ quoted ''chan'')
       (p_some (parse_bracketed_type ts pt (''expected '' @ quoted '']'' @ '' after chan element type'')) (\<lambda>element.
          p_return (Some (TAChan element)))))"

text \<open>Trait objects and named types.\<close>

definition applied_type :: "token list \<Rightarrow> type_parser \<Rightarrow> token \<Rightarrow> (token \<Rightarrow> type_annotation) \<Rightarrow>
    type_annotation option parser" where
  "applied_type ts pt tok con =
     p_some (p_ok (parse_type_arguments_with ts pt)) (\<lambda>arguments.
       p_return (Some (con (token_new (TkIdentifier (mangle_applied_type (lexeme tok) arguments)) (tspan tok)))))"

definition parse_dyn_type :: "token list \<Rightarrow> type_parser \<Rightarrow> type_annotation option parser" where
  "parse_dyn_type ts pt =
     p_bind (advance ts) (\<lambda>_.
     p_bind (advance ts) (\<lambda>trait_name.
     p_test (check ts TkLess) (applied_type ts pt trait_name TADyn)
       (p_return (Some (TADyn trait_name)))))"

definition parse_named_type :: "token list \<Rightarrow> type_parser \<Rightarrow> type_annotation option parser" where
  "parse_named_type ts pt =
     p_bind (advance ts) (\<lambda>tok.
     p_test (check ts TkLess) (applied_type ts pt tok TANamed)
       (p_bind (p_consume ts TkColon) (\<lambda>c. case c of
          Some _ \<Rightarrow>
            expect_some ts TkColon ''expected second `:` in associated type''
              (p_some (p_ok (expect_ident ts ''expected associated type name'')) (\<lambda>associated.
                 p_return (Some (TANamed (token_new (TkIdentifier (lexeme tok @ ''::'' @ lexeme associated)) (tspan tok))))))
        | None \<Rightarrow> p_return (from_token tok))))"

definition parse_type_body :: "token list \<Rightarrow> type_parser \<Rightarrow> type_parser" where
  "parse_type_body ts pt allow_named =
     p_test (\<lambda>i. peek_kind ts i = TkOwn) (parse_wrapped_type ts pt TAOwn)
     (p_test (\<lambda>i. peek_kind ts i = TkAmpersand) (parse_modified_type ts pt TARef)
     (p_test (\<lambda>i. peek_kind ts i = TkStar) (parse_raw_pointer_type ts pt)
     (p_test (\<lambda>i. peek_kind ts i = TkView) (parse_modified_type ts pt TAView)
     (p_test (\<lambda>i. peek_kind ts i = TkShared) (parse_wrapped_type ts pt TAShared)
     (p_bind
       (p_test (\<lambda>i. peek_kind ts i = TkLeftParen \<and> peek_at ts 1 i \<noteq> TkRightParen) (parse_tuple_type ts pt) (p_return None))
       (\<lambda>tuple. case tuple of Some result \<Rightarrow> p_return result | None \<Rightarrow>
     p_test (\<lambda>i. is_type_keyword (peek_kind ts i)) (parse_keyword_type ts pt)
     (p_test (\<lambda>i. peek_kind ts i = TkChan) (parse_chan_type ts pt)
     (p_test (\<lambda>i. allow_named \<and> peek_at_ident ts 0 i \<and> lexeme (peek ts i) = ''dyn'' \<and> peek_at_ident ts 1 i)
        (parse_dyn_type ts pt)
     (p_test (\<lambda>i. allow_named \<and> peek_at_ident ts 0 i) (parse_named_type ts pt) (p_return None))))))))))"

primrec parse_type_fuel :: "token list \<Rightarrow> nat \<Rightarrow> type_parser" where
  "parse_type_fuel ts 0 = (\<lambda>allow_named i. POut)"
| "parse_type_fuel ts (Suc n) = parse_type_body ts (parse_type_fuel ts n)"

definition parse_type_annotation :: "token list \<Rightarrow> bool \<Rightarrow> type_annotation option parser" where
  "parse_type_annotation ts = parse_type_fuel ts (Suc (length ts))"

definition parse_type_arguments :: "token list \<Rightarrow> type_annotation list parser" where
  "parse_type_arguments ts = parse_type_arguments_with ts (parse_type_annotation ts)"

definition parse_declaration_type_annotation :: "token list \<Rightarrow> type_annotation option parser" where
  "parse_declaration_type_annotation ts i =
     parse_type_annotation ts
       (peek_at_ident ts 0 i \<and>
         (peek_at_ident ts 1 i \<or> peek_at ts 1 i = TkLess \<or>
          (peek_at ts 1 i = TkColon \<and> peek_at ts 2 i = TkColon \<and> peek_at_ident ts 3 i \<and> peek_at_ident ts 4 i))) i"

end
