(* ===== verification/Parser_Decl.thy ===== *)
theory Parser_Decl
  imports Parser_Types
begin

text \<open>
  The parts of declarations that expressions and statements share (\<open>crates/ntsc-parser/src/lib.rs\<close>):
  generic parameters, signatures, blocks and bodies. The parsers they call recursively are parameters:
  \<open>pe\<close> stands for \<open>parse_precedence\<close> and \<open>ps\<close> for \<open>parse_statement\<close>; theory \<open>Parser\<close> ties the knot.
\<close>

section \<open>Combinators\<close>

type_synonym expr_parser = "precedence \<Rightarrow> expr parser"

text \<open>\<open>unreachable!()\<close>\<close>

definition p_panic :: "'a parser" where
  "p_panic i = PPanic"

text \<open>\<open>match self.peek().kind\<close>: the first arm one of whose patterns has the kind of the current token.\<close>

primrec p_match :: "token list \<Rightarrow> (token_kind list \<times> 'a parser) list \<Rightarrow> 'a parser \<Rightarrow> 'a parser" where
  "p_match ts [] other = other"
| "p_match ts (arm # arms) other =
     p_test (\<lambda>i. list_ex (\<lambda>k. check ts k i) (fst arm)) (snd arm) (p_match ts arms other)"

text \<open>\<open>if self.consume(k).is_some() { Some(p) } else { None }\<close>\<close>

definition p_optional :: "token list \<Rightarrow> token_kind \<Rightarrow> 'a parser \<Rightarrow> 'a option parser" where
  "p_optional ts k p =
     p_bind (p_consume ts k) (\<lambda>c. case c of
       None \<Rightarrow> p_return None
     | Some _ \<Rightarrow> p_bind p (\<lambda>x. p_return (Some x)))"

text \<open>\<open>if !self.check(k) { loop { .. } }\<close>\<close>

definition list_unless :: "token list \<Rightarrow> token_kind \<Rightarrow> 'a parser \<Rightarrow> 'a list parser" where
  "list_unless ts k p = p_test (check ts k) (p_return []) (separated_by ts TkComma p)"

text \<open>\<open>parse_type_annotation(true).ok_or_else(..)?\<close>\<close>

definition require_type :: "token list \<Rightarrow> string \<Rightarrow> type_annotation parser" where
  "require_type ts message =
     p_bind (parse_type_annotation ts True) (\<lambda>t. case t of
       Some ty \<Rightarrow> p_return ty
     | None \<Rightarrow> error_here ts message)"

text \<open>The messages \<open>expected 'x'\<close> and \<open>expected 'x' after 'y'\<close>.\<close>

definition expected :: "string \<Rightarrow> string" where
  "expected s = ''expected '' @ quoted s"

definition expected_after :: "string \<Rightarrow> string \<Rightarrow> string" where
  "expected_after s place = ''expected '' @ quoted s @ '' after '' @ place"

text \<open>The statements of a block after its opening brace, with the span of the closing one.\<close>

definition braced_statements :: "token list \<Rightarrow> stmt parser \<Rightarrow> string \<Rightarrow> (stmt list \<times> span) parser" where
  "braced_statements ts ps message =
     p_bind (skip_newlines ts) (\<lambda>_.
     p_bind (until_brace ts ps) (\<lambda>body.
     p_bind (expect ts TkRightBrace message) (\<lambda>close.
     p_return (body, tspan close))))"

section \<open>Names and generic parameters\<close>

definition parse_method_name :: "token list \<Rightarrow> token parser" where
  "parse_method_name ts =
     p_test (\<lambda>i. is_ident (peek_kind ts i)) (advance ts)
       (p_test (\<lambda>i. is_operator_token (peek_kind ts i))
         (p_bind (advance ts) (\<lambda>tok. p_return (token_new (TkIdentifier (operator_token_lexeme (kind tok))) (tspan tok))))
         (error_here ts ''expected method name''))"

text \<open>The bounds \<open>A + B + ..\<close> of a parameter.\<close>

definition parse_bounds :: "token list \<Rightarrow> string \<Rightarrow> token list parser" where
  "parse_bounds ts message = separated_by ts TkPlus (expect_ident ts message)"

definition parse_generic_params :: "token list \<Rightarrow> generic_param list parser" where
  "parse_generic_params ts =
     p_bind (p_consume ts TkLess) (\<lambda>c. case c of
       None \<Rightarrow> p_return []
     | Some _ \<Rightarrow>
         p_bind (separated_by ts TkComma
           (p_bind (expect_ident ts ''expected generic parameter name'') (\<lambda>name.
            p_bind (p_optional ts TkColon (parse_bounds ts ''expected trait name after `:`'')) (\<lambda>bounds.
            p_return \<lparr>gp_name = name, gp_bounds = (case bounds of None \<Rightarrow> [] | Some bs \<Rightarrow> bs)\<rparr>)))) (\<lambda>params.
         p_bind (expect ts TkGreater ''expected `>` after generic parameters'') (\<lambda>_.
         p_return params)))"

primrec add_bounds :: "string \<Rightarrow> token list \<Rightarrow> generic_param list \<Rightarrow> generic_param list" where
  "add_bounds name bounds [] = []"
| "add_bounds name bounds (g # gs) =
     (if lexeme (gp_name g) = name then g\<lparr>gp_bounds := gp_bounds g @ bounds\<rparr> # gs else g # add_bounds name bounds gs)"

definition where_bound :: "token list \<Rightarrow> generic_param list \<Rightarrow> generic_param list parser" where
  "where_bound ts gs =
     p_bind (expect_ident ts ''expected generic parameter after `where`'') (\<lambda>parameter.
     p_bind (expect ts TkColon ''expected `:` after generic parameter'') (\<lambda>_.
     if list_ex (\<lambda>g. lexeme (gp_name g) = lexeme parameter) gs
     then p_bind (parse_bounds ts ''expected trait name in `where` clause'') (\<lambda>bounds.
          p_return (add_bounds (lexeme parameter) bounds gs))
     else p_error (''`'' @ lexeme parameter @ ''` is not a generic parameter of this declaration'') (tspan parameter)))"

definition parse_where_bounds :: "token list \<Rightarrow> generic_param list \<Rightarrow> generic_param list parser" where
  "parse_where_bounds ts generic_params =
     p_test (check_ident ts ''where'')
       (p_bind (advance ts) (\<lambda>_.
        p_loop (Suc (length ts))
          (\<lambda>gs. p_bind (where_bound ts gs) (\<lambda>gs'. p_bind (p_consume ts TkComma) (\<lambda>c. case c of
             None \<Rightarrow> p_return (Inr gs') | Some _ \<Rightarrow> p_return (Inl gs')))) generic_params))
       (p_return generic_params)"

section \<open>Signatures and bodies\<close>

definition parse_param :: "token list \<Rightarrow> function_param parser" where
  "parse_param ts =
     p_bind (parse_declaration_type_annotation ts) (\<lambda>ty.
     p_bind (expect_ident ts ''expected parameter name'') (\<lambda>name.
     p_return \<lparr>fp_name = name, fp_type = ty\<rparr>))"

definition parse_return_type :: "token list \<Rightarrow> return_type parser" where
  "parse_return_type ts =
     p_here ts (\<lambda>arrow.
     p_bind
       (p_test (check ts TkImpl)
         (p_bind (advance ts) (\<lambda>_.
          p_bind (expect_ident ts ''expected trait name after `impl`'') (\<lambda>name. p_return (TAImplTrait name))))
         (require_type ts ''expected return type''))
       (\<lambda>ty. p_return \<lparr>rt_ty = ty, rt_arrow_span = tspan arrow\<rparr>))"

definition parse_function_signature :: "token list \<Rightarrow> (function_param list \<times> return_type option) parser" where
  "parse_function_signature ts =
     p_bind (expect ts TkLeftParen (expected_after ''('' ''function name'')) (\<lambda>_.
     p_bind (list_unless ts TkRightParen (parse_param ts)) (\<lambda>params.
     p_bind (expect ts TkRightParen (expected '')'')) (\<lambda>_.
     p_bind (p_optional ts TkReturnArrow (parse_return_type ts)) (\<lambda>ret.
     p_return (params, ret)))))"

definition parse_block :: "token list \<Rightarrow> stmt parser \<Rightarrow> stmt parser" where
  "parse_block ts ps =
     p_bind (advance ts) (\<lambda>opening.
     p_bind (braced_statements ts ps (expected ''}'')) (\<lambda>(stmts, close_span).
     p_return (SBlock stmts (tspan opening) close_span)))"

text \<open>A body that is an expression.\<close>

definition parse_expression_body :: "token list \<Rightarrow> expr_parser \<Rightarrow> stmt list parser" where
  "parse_expression_body ts pe =
     p_bind (skip_newlines ts) (\<lambda>_.
     p_bind (pe PrecAssignment) (\<lambda>e.
     p_bind (consume_terminator ts) (\<lambda>_.
     p_return [SReturn (Some e)])))"

definition parse_function_body :: "token list \<Rightarrow> expr_parser \<Rightarrow> stmt parser \<Rightarrow> stmt list parser" where
  "parse_function_body ts pe ps =
     p_test (check ts TkLeftBrace)
       (p_bind (parse_block ts ps) (\<lambda>block. case block of
          SBlock stmts _ _ \<Rightarrow> p_return stmts
        | _ \<Rightarrow> p_panic))
     (p_test (check ts TkArrow)
       (p_bind (advance ts) (\<lambda>_. parse_expression_body ts pe))
       (parse_expression_body ts pe))"

definition parse_async_block_body :: "token list \<Rightarrow> stmt parser \<Rightarrow> span \<Rightarrow> expr parser" where
  "parse_async_block_body ts ps async_tok_span =
     p_bind (p_optional ts TkReturnArrow
       (p_here ts (\<lambda>arrow. p_bind (require_type ts ''expected return type'') (\<lambda>ty.
          p_return \<lparr>rt_ty = ty, rt_arrow_span = tspan arrow\<rparr>)))) (\<lambda>ret.
     p_bind (expect ts TkLeftBrace (expected_after ''{'' (quoted ''async''))) (\<lambda>_.
     p_bind (braced_statements ts ps (expected ''}'')) (\<lambda>(body, close_span).
     p_return (EAsyncBlock body ret (span_to async_tok_span close_span)))))"

definition parse_async_block :: "token list \<Rightarrow> stmt parser \<Rightarrow> expr parser" where
  "parse_async_block ts ps = p_bind (advance ts) (\<lambda>async_tok. parse_async_block_body ts ps (tspan async_tok))"

end
