(* ===== verification/Parser_Expr.thy ===== *)
theory Parser_Expr
  imports Parser_Decl
begin

text \<open>
  Expressions (\<open>parse_prefix\<close>, \<open>parse_infix\<close> and their helpers in \<open>crates/ntsc-parser/src/lib.rs\<close>), a
  Pratt parser. As in \<open>Parser_Decl\<close>, \<open>pe\<close> stands for \<open>parse_precedence\<close> and \<open>ps\<close> for \<open>parse_statement\<close>.
\<close>

section \<open>Lookahead\<close>

text \<open>The scan of \<open>looks_like_generic_call\<close> over the tokens from the current one; past the end the
  source reads the end-of-file token.\<close>

fun generic_call_scan :: "nat \<Rightarrow> token list \<Rightarrow> bool" where
  "generic_call_scan depth [] = False"
| "generic_call_scan depth (t # rest) =
     (if kind t = TkLess then generic_call_scan (Suc depth) rest
      else if kind t = TkGreater then
        (if depth - 1 = 0 then rest \<noteq> [] \<and> kind (hd rest) = TkLeftParen else generic_call_scan (depth - 1) rest)
      else if kind t \<in> {TkEof, TkNewline, TkSemicolon} then False
      else generic_call_scan depth rest)"

definition looks_like_generic_call :: "token list \<Rightarrow> nat \<Rightarrow> bool" where
  "looks_like_generic_call ts i \<longleftrightarrow> check ts TkLess i \<and> generic_call_scan 0 (drop i ts)"

definition can_start_expression :: "token list \<Rightarrow> nat \<Rightarrow> bool" where
  "can_start_expression ts i \<longleftrightarrow>
     list_ex (\<lambda>k. check ts k i)
       [TkNumberLiteral [], TkStringLiteral [], TkStringSegment [], TkTrue, TkFalse, TkNil, TkIdentifier [], TkThis, TkMinus,
        TkBang, TkTilde, TkPlusPlus, TkMinusMinus, TkDotDotDot, TkLeftParen, TkLeftBracket, TkLeftBrace, TkFun, TkTypeInt,
        TkTypeFloat, TkTypeString, TkTypeBool, TkTypeArray, TkTypeObject, TkTypeAny, TkTypePointer, TkTypeSlice]"

definition lookahead_struct_literal_fields :: "token list \<Rightarrow> nat \<Rightarrow> bool" where
  "lookahead_struct_literal_fields ts i \<longleftrightarrow>
     (let after_brace = peek_at ts 1 i in
      if after_brace = TkRightBrace then False
      else if after_brace = TkDotDot then True
      else if is_ident after_brace \<or> is_string after_brace then peek_at ts 2 i \<in> {TkColon, TkComma, TkRightBrace}
      else False)"

section \<open>Literals\<close>

definition parse_literal :: "token list \<Rightarrow> (token \<Rightarrow> literal_value) \<Rightarrow> expr parser" where
  "parse_literal ts val = p_bind (advance ts) (\<lambda>tok. p_return (ELiteral (val tok) (tspan tok)))"

definition string_segments :: "token list \<Rightarrow> expr list \<Rightarrow> expr list parser" where
  "string_segments ts parts =
     p_loop (Suc (length ts))
       (\<lambda>ps. p_test (\<lambda>i. is_string_segment (peek_kind ts i))
          (p_bind (advance ts) (\<lambda>tok. p_return (Inl (ps @ [ELiteral (LString (lexeme tok)) (tspan tok)]))))
          (p_return (Inr ps))) parts"

definition interpolation_parts :: "token list \<Rightarrow> expr_parser \<Rightarrow> expr list parser" where
  "interpolation_parts ts pe =
     p_loop (Suc (length ts))
       (\<lambda>parts. p_bind (string_segments ts parts) (\<lambda>parts'.
          p_test (can_start_expression ts)
            (p_bind (pe PrecAssignment) (\<lambda>e. p_return (Inl (parts' @ [e]))))
            (p_return (Inr parts')))) []"

definition concat_parts :: "expr list \<Rightarrow> expr" where
  "concat_parts parts =
     (case parts of
        [] \<Rightarrow> ELiteral (LString []) span_dummy
      | p # rest \<Rightarrow> foldl (\<lambda>result part. EBinary result (token_new TkPlus (expr_span p)) part) p rest)"

definition parse_string_with_interpolation :: "token list \<Rightarrow> expr_parser \<Rightarrow> expr parser" where
  "parse_string_with_interpolation ts pe = p_bind (interpolation_parts ts pe) (\<lambda>parts. p_return (concat_parts parts))"

definition parse_array_literal :: "token list \<Rightarrow> expr_parser \<Rightarrow> expr parser" where
  "parse_array_literal ts pe =
     p_bind (advance ts) (\<lambda>opening.
     p_bind (list_unless ts TkRightBracket (pe PrecAssignment)) (\<lambda>elements.
     p_bind (expect ts TkRightBracket (expected '']'')) (\<lambda>close.
     p_return (EArrayLiteral elements (span_to (tspan opening) (tspan close))))))"

text \<open>The key of a property or of a field: a string or an identifier.\<close>

definition parse_key :: "token list \<Rightarrow> string \<Rightarrow> token parser" where
  "parse_key ts message = p_test (\<lambda>i. is_string (peek_kind ts i)) (advance ts) (expect_ident ts message)"

definition parse_property :: "token list \<Rightarrow> expr_parser \<Rightarrow> object_property parser" where
  "parse_property ts pe =
     p_bind (parse_key ts ''expected property name'') (\<lambda>key.
     p_bind (expect ts TkColon (expected '':'')) (\<lambda>_.
     p_bind (pe PrecAssignment) (\<lambda>val.
     p_return (ObjectProperty (lexeme key) val (tspan key)))))"

definition object_properties :: "token list \<Rightarrow> expr_parser \<Rightarrow> object_property list parser" where
  "object_properties ts pe =
     p_test (check ts TkRightBrace) (p_return [])
       (p_loop (Suc (length ts))
         (\<lambda>properties. p_bind (parse_property ts pe) (\<lambda>property.
            p_bind (p_consume ts TkComma) (\<lambda>c. case c of
              None \<Rightarrow> p_return (Inr (properties @ [property]))
            | Some _ \<Rightarrow> p_bind (skip_newlines ts) (\<lambda>_. p_return (Inl (properties @ [property])))))) [])"

definition parse_object_literal :: "token list \<Rightarrow> expr_parser \<Rightarrow> expr parser" where
  "parse_object_literal ts pe =
     p_bind (advance ts) (\<lambda>opening.
     p_bind (skip_newlines ts) (\<lambda>_.
     p_bind (object_properties ts pe) (\<lambda>properties.
     p_bind (expect ts TkRightBrace (expected ''}'')) (\<lambda>close.
     p_return (EObjectLiteral properties (span_to (tspan opening) (tspan close)))))))"

definition parse_struct_field :: "token list \<Rightarrow> expr_parser \<Rightarrow> object_property parser" where
  "parse_struct_field ts pe =
     p_bind (parse_key ts ''expected field name'') (\<lambda>key.
     p_bind (p_optional ts TkColon (pe PrecAssignment)) (\<lambda>val.
     p_return (ObjectProperty (lexeme key)
       (case val of Some v \<Rightarrow> v | None \<Rightarrow> EVariable (token_new (TkIdentifier (lexeme key)) (tspan key))) (tspan key))))"

definition parse_struct_update :: "token list \<Rightarrow> expr_parser \<Rightarrow> expr option \<Rightarrow> expr parser" where
  "parse_struct_update ts pe update =
     (case update of
        Some _ \<Rightarrow> error_here ts ''struct literal can have only one `..` update''
      | None \<Rightarrow>
          p_bind (advance ts) (\<lambda>dot.
          p_bind (skip_newlines ts) (\<lambda>_.
          p_test (\<lambda>i. check ts TkRightBrace i \<or> check ts TkComma i)
            (p_error ''expected an expression after `..` in struct literal'' (tspan dot))
            (pe PrecAssignment))))"

definition struct_literal_step :: "token list \<Rightarrow> expr_parser \<Rightarrow> object_property list \<times> expr option \<Rightarrow>
    (object_property list \<times> expr option) parser" where
  "struct_literal_step ts pe st =
     p_test (check ts TkDotDot)
       (p_bind (parse_struct_update ts pe (snd st)) (\<lambda>base. p_return (fst st, Some base)))
       (p_bind (parse_struct_field ts pe) (\<lambda>field. p_return (fst st @ [field], snd st)))"

definition struct_fields :: "token list \<Rightarrow> expr_parser \<Rightarrow> (object_property list \<times> expr option) parser" where
  "struct_fields ts pe =
     p_loop (Suc (length ts))
       (\<lambda>st. p_test (\<lambda>i. \<not> check ts TkRightBrace i \<and> \<not> is_at_end ts i)
          (p_bind (struct_literal_step ts pe st) (\<lambda>st'.
           p_bind (p_consume ts TkComma) (\<lambda>c. case c of
             None \<Rightarrow> p_return (Inr st')
           | Some _ \<Rightarrow> p_bind (skip_newlines ts) (\<lambda>_. p_return (Inl st')))))
          (p_return (Inr st))) ([], None)"

definition parse_struct_literal :: "token list \<Rightarrow> expr_parser \<Rightarrow> token \<Rightarrow> expr parser" where
  "parse_struct_literal ts pe class_name =
     p_bind (advance ts) (\<lambda>_.
     p_bind (skip_newlines ts) (\<lambda>_.
     p_bind (struct_fields ts pe) (\<lambda>(flds, update).
     p_bind (expect ts TkRightBrace (expected ''}'')) (\<lambda>close.
     p_return (EStructLiteral class_name flds update (span_to (tspan class_name) (tspan close)))))))"

definition parse_lambda :: "token list \<Rightarrow> expr_parser \<Rightarrow> stmt parser \<Rightarrow> expr parser" where
  "parse_lambda ts pe ps =
     p_bind (advance ts) (\<lambda>fun_token.
     p_bind (parse_function_signature ts) (\<lambda>(params, ret).
     p_bind (skip_newlines ts) (\<lambda>_.
     p_bind (parse_function_body ts pe ps) (\<lambda>body.
     p_return (ELambda params ret body (tspan fun_token))))))"

section \<open>Prefix\<close>

text \<open>The arms of \<open>parse_prefix\<close> that are more than a few lines.\<close>

definition parse_keyword_call :: "token list \<Rightarrow> expr_parser \<Rightarrow> string \<Rightarrow> string \<Rightarrow> (expr \<Rightarrow> span \<Rightarrow> expr) \<Rightarrow> expr parser" where
  "parse_keyword_call ts pe open_message close_message con =
     p_bind (advance ts) (\<lambda>keyword.
     p_bind (expect ts TkLeftParen open_message) (\<lambda>_.
     p_bind (pe PrecAssignment) (\<lambda>e.
     p_bind (expect ts TkRightParen close_message) (\<lambda>_.
     p_return (con e (tspan keyword))))))"

definition parse_identifier :: "token list \<Rightarrow> expr_parser \<Rightarrow> expr parser" where
  "parse_identifier ts pe =
     p_bind (advance ts) (\<lambda>name.
     p_bind
       (p_test (looks_like_generic_call ts)
         (p_bind (parse_type_arguments ts) (\<lambda>arguments.
          p_return (token_new (TkIdentifier (mangle_applied_type (lexeme name) arguments)) (tspan name))))
         (p_return name))
       (\<lambda>tok.
     p_test (\<lambda>i. check ts TkLeftBrace i \<and> lookahead_struct_literal_fields ts i)
       (parse_struct_literal ts pe tok)
       (p_return (EVariable tok))))"

definition parse_unary :: "token list \<Rightarrow> expr_parser \<Rightarrow> (token \<Rightarrow> expr \<Rightarrow> expr) \<Rightarrow> expr parser" where
  "parse_unary ts pe con = p_bind (advance ts) (\<lambda>op. p_bind (pe PrecUnary) (\<lambda>right. p_return (con op right)))"

definition parse_borrow :: "token list \<Rightarrow> expr_parser \<Rightarrow> (expr \<Rightarrow> bool \<Rightarrow> span \<Rightarrow> expr) \<Rightarrow> expr parser" where
  "parse_borrow ts pe con =
     p_bind (advance ts) (\<lambda>keyword.
     p_bind (p_consume ts TkMut) (\<lambda>mutable.
     p_bind (pe PrecUnary) (\<lambda>target.
     p_return (con target (mutable \<noteq> None) (tspan keyword)))))"

definition tuple_elements :: "token list \<Rightarrow> expr_parser \<Rightarrow> expr \<Rightarrow> expr list parser" where
  "tuple_elements ts pe e =
     p_loop (Suc (length ts))
       (\<lambda>elements. p_bind (p_consume ts TkComma) (\<lambda>c. case c of
          None \<Rightarrow> p_return (Inr elements)
        | Some _ \<Rightarrow>
            p_test (check ts TkRightParen) (p_return (Inr elements))
              (p_bind (pe PrecAssignment) (\<lambda>x. p_return (Inl (elements @ [x])))))) [e]"

definition parse_parenthesised :: "token list \<Rightarrow> expr_parser \<Rightarrow> expr parser" where
  "parse_parenthesised ts pe =
     p_bind (advance ts) (\<lambda>opening.
     p_bind (pe PrecAssignment) (\<lambda>e.
     p_test (check ts TkComma)
       (p_bind (tuple_elements ts pe e) (\<lambda>elements.
        p_bind (expect ts TkRightParen (expected_after '')'' ''tuple'')) (\<lambda>close.
        p_return (ETupleLiteral elements (span_to (tspan opening) (tspan close))))))
       (p_bind (expect ts TkRightParen (expected '')'')) (\<lambda>close.
        p_return (EGrouping e (tspan opening) (tspan close))))))"

definition starts_async_block :: "token list \<Rightarrow> nat \<Rightarrow> bool" where
  "starts_async_block ts i \<longleftrightarrow> peek_at ts 1 i = TkLeftBrace \<or> peek_at ts 1 i = TkReturnArrow"

definition parse_await :: "token list \<Rightarrow> expr_parser \<Rightarrow> stmt parser \<Rightarrow> expr parser" where
  "parse_await ts pe ps =
     p_bind (advance ts) (\<lambda>await_tok.
     p_test (\<lambda>i. check ts TkAsync i \<and> starts_async_block ts i)
       (p_bind (parse_async_block ts ps) (\<lambda>block.
        p_return (EAwait block [] (span_to (tspan await_tok) (expr_span block)))))
       (p_bind (pe PrecCall) (\<lambda>operand. case operand of
          ECall callee _ arguments \<Rightarrow> p_return (EAwait callee arguments (span_to (tspan await_tok) (expr_span callee)))
        | _ \<Rightarrow> p_error ''await requires an async function call'' (expr_span operand))))"

text \<open>A keyword that names a module: \<open>async.\<close> and \<open>chan.\<close>.\<close>

definition parse_namespace :: "token list \<Rightarrow> string \<Rightarrow> string \<Rightarrow> expr parser" where
  "parse_namespace ts name message =
     p_test (\<lambda>i. peek_at ts 1 i = TkDot)
       (p_bind (advance ts) (\<lambda>tok. p_return (EVariable (token_new (TkIdentifier name) (tspan tok)))))
       (error_here ts message)"

definition parse_prefix :: "token list \<Rightarrow> expr_parser \<Rightarrow> stmt parser \<Rightarrow> expr parser" where
  "parse_prefix ts pe ps =
     p_match ts
       [([TkNumberLiteral []], parse_literal ts (\<lambda>tok. LNumber (lexeme tok))),
        ([TkStringLiteral []], parse_literal ts (\<lambda>tok. LString (lexeme tok))),
        ([TkStringSegment []], parse_string_with_interpolation ts pe),
        ([TkTrue], parse_literal ts (\<lambda>_. LBool True)),
        ([TkFalse], parse_literal ts (\<lambda>_. LBool False)),
        ([TkNil], parse_literal ts (\<lambda>_. LNil)),
        ([TkClose], parse_keyword_call ts pe (expected_after ''('' (quoted ''close'')) (expected_after '')'' ''close argument'')
           EClose),
        ([TkIdentifier []], parse_identifier ts pe),
        ([TkThis], p_bind (advance ts) (\<lambda>tok. p_return (EThis tok))),
        ([TkMinus, TkBang, TkTilde, TkPlusPlus, TkMinusMinus], parse_unary ts pe EUnary),
        ([TkDotDotDot], parse_unary ts pe (\<lambda>op val. ESpread val (tspan op))),
        ([TkLeftParen], parse_parenthesised ts pe),
        ([TkAwait], parse_await ts pe ps),
        ([TkAsync], p_test (starts_async_block ts) (parse_async_block ts ps)
           (parse_namespace ts ''async'' (''unexpected '' @ quoted ''async'' @ '' in expression''))),
        ([TkChan], parse_namespace ts ''chan''
           (''unexpected '' @ quoted ''chan'' @ '' in expression; use `chan.new(capacity)`'')),
        ([TkView], parse_borrow ts pe EView),
        ([TkCopy], parse_keyword_call ts pe (expected_after ''('' ''`copy`'') (expected_after '')'' ''copy expression'') ECopy),
        ([TkAmpersand], parse_borrow ts pe EBorrow),
        ([TkStar], parse_unary ts pe (\<lambda>star target. ERawDeref target (tspan star))),
        ([TkLeftBracket], parse_array_literal ts pe),
        ([TkLeftBrace], parse_object_literal ts pe),
        ([TkFun], parse_lambda ts pe ps)]
       (p_here ts (\<lambda>tok. p_error (''unexpected token '' @ quoted (token_debug_name (kind tok)) @ '' in expression'') (tspan tok)))"

section \<open>Infix\<close>

definition kind_precedence :: "token_kind \<Rightarrow> precedence" where
  "kind_precedence k =
     (if k = TkEqual then PrecAssignment
      else if k = TkQuestion then PrecTernary
      else if k = TkOrSym then PrecOr
      else if k = TkAndSym then PrecAnd
      else if k \<in> set [TkEqualEqual, TkBangEqual] then PrecEquality
      else if k \<in> set [TkGreater, TkGreaterEqual, TkLess, TkLessEqual] then PrecComparison
      else if k = TkPipe then PrecBitwiseOr
      else if k = TkCaret then PrecBitwiseXor
      else if k = TkAmpersand then PrecBitwiseAnd
      else if k \<in> set [TkLessLess, TkGreaterGreater, TkLessPipe, TkPipeGreater] then PrecShift
      else if k \<in> set [TkPlus, TkMinus] then PrecTerm
      else if k \<in> set [TkStar, TkSlash, TkPercent] then PrecFactor
      else if k \<in> set [TkPlusPlus, TkMinusMinus] then PrecCall
      else if k \<in> set [TkDot, TkQuestionDot, TkLeftParen, TkLeftBracket] then PrecCall
      else PrecNone)"

definition infix_precedence :: "token list \<Rightarrow> nat \<Rightarrow> precedence" where
  "infix_precedence ts i = kind_precedence (peek_kind ts i)"

definition binary_operators :: "token_kind list" where
  "binary_operators =
     [TkPlus, TkMinus, TkStar, TkSlash, TkPercent, TkEqualEqual, TkBangEqual, TkGreater, TkGreaterEqual, TkLess, TkLessEqual,
      TkAndSym, TkOrSym, TkAmpersand, TkPipe, TkCaret, TkLessLess, TkGreaterGreater]"

definition parse_binary :: "token list \<Rightarrow> expr_parser \<Rightarrow> (token \<Rightarrow> expr \<Rightarrow> expr parser) \<Rightarrow> expr parser" where
  "parse_binary ts pe con =
     p_here ts (\<lambda>op.
     p_bind (advance ts) (\<lambda>_.
     p_bind (pe (next_higher (kind_precedence (kind op)))) (\<lambda>right.
     con op right)))"

definition parse_assignment :: "token list \<Rightarrow> expr_parser \<Rightarrow> expr \<Rightarrow> expr parser" where
  "parse_assignment ts pe left =
     p_bind (advance ts) (\<lambda>_.
     p_bind (pe PrecAssignment) (\<lambda>val. case left of
       EVariable name \<Rightarrow> p_return (EAssign name val)
     | EMember object property \<Rightarrow> p_return (EMemberSet object property val)
     | EIndexGet object index \<Rightarrow> p_return (EIndexSet object index val)
     | ERawDeref target star \<Rightarrow> p_return (ERawDerefSet target val star)
     | _ \<Rightarrow> error_here ts ''invalid assignment target''))"

definition parse_question :: "token list \<Rightarrow> expr_parser \<Rightarrow> expr \<Rightarrow> expr parser" where
  "parse_question ts pe left =
     p_bind
       (p_reset (p_bind (advance ts) (\<lambda>_.
          p_some (p_ok (pe PrecAssignment)) (\<lambda>then_branch.
          expect_some ts TkColon (''expected '' @ quoted '':'' @ '' in ternary'')
            (p_some (p_ok (pe PrecAssignment)) (\<lambda>else_branch.
             p_return (Some (ETernary left then_branch else_branch))))))))
       (\<lambda>ternary. case ternary of
          Some e \<Rightarrow> p_return e
        | None \<Rightarrow> p_bind (advance ts) (\<lambda>question. p_return (EPropagate left (tspan question))))"

definition parse_member :: "token list \<Rightarrow> (token \<Rightarrow> expr) \<Rightarrow> expr parser" where
  "parse_member ts con = p_bind (parse_member_name ts) (\<lambda>property. p_return (con property))"

definition parse_dot :: "token list \<Rightarrow> expr \<Rightarrow> expr parser" where
  "parse_dot ts left =
     p_bind (advance ts) (\<lambda>dot_token.
     p_here ts (\<lambda>tok.
       case (if is_number (kind tok) then parse_usize (lexeme tok) else None) of
         Some idx \<Rightarrow>
           p_bind (advance ts) (\<lambda>num_token. p_return (ETupleIndex left idx (span_to (tspan dot_token) (tspan num_token))))
       | None \<Rightarrow> parse_member ts (EMember left)))"

definition parse_argument :: "token list \<Rightarrow> expr_parser \<Rightarrow> expr parser" where
  "parse_argument ts pe =
     p_test (check ts TkDotDotDot) (parse_unary ts pe (\<lambda>op val. ESpread val (tspan op))) (pe PrecAssignment)"

definition parse_call :: "token list \<Rightarrow> expr_parser \<Rightarrow> expr \<Rightarrow> expr parser" where
  "parse_call ts pe left =
     p_bind (advance ts) (\<lambda>paren.
     p_bind (list_unless ts TkRightParen (parse_argument ts pe)) (\<lambda>arguments.
     p_bind (expect ts TkRightParen (expected '')'')) (\<lambda>_.
     p_return (ECall left (tspan paren) arguments))))"

definition parse_index :: "token list \<Rightarrow> expr_parser \<Rightarrow> expr \<Rightarrow> expr parser" where
  "parse_index ts pe left =
     p_bind (advance ts) (\<lambda>_.
     p_bind (pe PrecAssignment) (\<lambda>index.
     p_bind (expect ts TkRightBracket (expected '']'')) (\<lambda>_.
     p_return (EIndexGet left index))))"

definition parse_infix :: "token list \<Rightarrow> expr_parser \<Rightarrow> expr \<Rightarrow> expr parser" where
  "parse_infix ts pe left =
     p_match ts
       [(binary_operators, parse_binary ts pe (\<lambda>op right. p_return (EBinary left op right))),
        ([TkPipeGreater], parse_binary ts pe (\<lambda>op channel. p_return (EChanSend channel left (tspan op)))),
        ([TkLessPipe], parse_binary ts pe (\<lambda>op channel. case left of
            EVariable name \<Rightarrow> p_return (EChanRecv name channel (tspan op))
          | _ \<Rightarrow> p_error ''receive target must be a variable'' (tspan op))),
        ([TkEqual], parse_assignment ts pe left),
        ([TkPlusPlus, TkMinusMinus], p_bind (advance ts) (\<lambda>op. p_return (EPostfixUnary op left))),
        ([TkQuestion], parse_question ts pe left),
        ([TkDot], parse_dot ts left),
        ([TkQuestionDot], p_bind (advance ts) (\<lambda>_. parse_member ts (EOptionalMember left))),
        ([TkLeftParen], parse_call ts pe left),
        ([TkLeftBracket], parse_index ts pe left)]
       p_panic"

definition infix_loop :: "token list \<Rightarrow> expr_parser \<Rightarrow> precedence \<Rightarrow> nat \<Rightarrow> expr \<Rightarrow> expr parser" where
  "infix_loop ts pe prec n left =
     p_loop n
       (\<lambda>left. p_test (\<lambda>i. \<not> is_at_end ts i \<and> prec \<le> infix_precedence ts i)
          (p_bind (parse_infix ts pe left) (\<lambda>e. p_return (Inl e)))
          (p_return (Inr left))) left"

definition parse_precedence_body :: "token list \<Rightarrow> expr_parser \<Rightarrow> stmt parser \<Rightarrow> expr_parser" where
  "parse_precedence_body ts pe ps prec =
     p_bind (parse_prefix ts pe ps) (\<lambda>left. infix_loop ts pe prec (Suc (length ts)) left)"

end
