(* ===== verification/Parser_Stmt.thy ===== *)
theory Parser_Stmt
  imports Parser_Expr
begin

text \<open>
  Statements and declarations (\<open>parse_statement\<close> and the functions it dispatches to in
  \<open>crates/ntsc-parser/src/lib.rs\<close>).
\<close>

section \<open>Variables\<close>

text \<open>\<open>= expression\<close> and the end of a statement.\<close>

definition parse_initializer :: "token list \<Rightarrow> expr_parser \<Rightarrow> expr option parser" where
  "parse_initializer ts pe =
     p_bind (p_optional ts TkEqual (pe PrecAssignment)) (\<lambda>initializer.
     p_bind (consume_terminator ts) (\<lambda>_.
     p_return initializer))"

text \<open>The lookahead of \<open>parse_var_declaration_tail\<close>: \<open>(name\<close>, a comma or a closing parenthesis, and an
  equals sign after the first closing parenthesis. The source scans with \<open>advance\<close> and moves the
  position back.\<close>

definition tuple_destructure_ahead :: "token list \<Rightarrow> nat \<Rightarrow> bool" where
  "tuple_destructure_ahead ts i \<longleftrightarrow>
     is_ident (peek_at ts 1 i) \<and> peek_at ts 2 i \<in> {TkComma, TkRightParen} \<and>
     (case dropWhile (\<lambda>t. kind t \<noteq> TkRightParen \<and> kind t \<noteq> TkEof) (drop (i + 1) ts) of
        close # after # _ \<Rightarrow> kind close = TkRightParen \<and> kind after = TkEqual
      | _ \<Rightarrow> False)"

definition destructure_initializer :: "token list \<Rightarrow> expr_parser \<Rightarrow> string \<Rightarrow> expr parser" where
  "destructure_initializer ts pe message =
     p_bind (expect ts TkEqual message) (\<lambda>_.
     p_bind (pe PrecAssignment) (\<lambda>initializer.
     p_bind (consume_terminator ts) (\<lambda>_.
     p_return initializer)))"

definition destructure_name :: "token list \<Rightarrow> bool \<Rightarrow> (token \<times> string) parser" where
  "destructure_name ts is_array =
     p_bind (expect_ident ts ''expected variable name in destructuring'') (\<lambda>name.
     if is_array then p_return (name, lexeme name)
     else p_bind (p_optional ts TkColon (expect_ident ts ''expected alias name'')) (\<lambda>alias.
       p_return (case alias of Some a \<Rightarrow> (a, lexeme name) | None \<Rightarrow> (name, lexeme name))))"

text \<open>\<open>loop { if self.check(close) { break } .. if self.consume(Comma).is_none() { break } }\<close>\<close>

definition list_until :: "token list \<Rightarrow> token_kind \<Rightarrow> 'a parser \<Rightarrow> 'a list parser" where
  "list_until ts close p =
     p_loop (Suc (length ts))
       (\<lambda>xs. p_test (check ts close) (p_return (Inr xs))
          (p_bind p (\<lambda>x. p_bind (p_consume ts TkComma) (\<lambda>c. case c of
             None \<Rightarrow> p_return (Inr (xs @ [x])) | Some _ \<Rightarrow> p_return (Inl (xs @ [x])))))) []"

definition parse_destructure :: "token list \<Rightarrow> expr_parser \<Rightarrow> type_annotation option \<Rightarrow> bool \<Rightarrow> stmt parser" where
  "parse_destructure ts pe ty is_static =
     p_bind (advance ts) (\<lambda>opening.
     let is_array = kind opening = TkLeftBracket;
         close_kind = (if is_array then TkRightBracket else TkRightBrace) in
     p_bind (list_until ts close_kind (destructure_name ts is_array)) (\<lambda>entries.
     p_bind (expect ts close_kind ''expected closing bracket/brace'') (\<lambda>_.
     p_bind (if ty \<noteq> None \<or> is_static then consume_terminator ts else p_return None) (\<lambda>_.
     p_bind (destructure_initializer ts pe (''expected '' @ quoted ''='' @ '' in destructuring'')) (\<lambda>initializer.
     p_return (SDestructure is_array False (map fst entries) (map snd entries) initializer))))))"

definition parse_tuple_destructure :: "token list \<Rightarrow> expr_parser \<Rightarrow> type_annotation option \<Rightarrow> stmt parser" where
  "parse_tuple_destructure ts pe ty =
     p_bind (advance ts) (\<lambda>_.
     p_bind (list_until ts TkRightParen (expect_ident ts ''expected variable name in tuple destructuring'')) (\<lambda>names.
     p_bind (expect ts TkRightParen (expected_after '')'' ''tuple destructuring'')) (\<lambda>_.
     p_bind (if ty \<noteq> None then consume_terminator ts else p_return None) (\<lambda>_.
     p_bind (destructure_initializer ts pe (''expected '' @ quoted ''='' @ '' in tuple destructuring'')) (\<lambda>initializer.
     p_return (SDestructure False True names [] initializer))))))"

definition parse_var_declaration_tail :: "token list \<Rightarrow> expr_parser \<Rightarrow> view_mutability option \<Rightarrow> bool \<Rightarrow> bool \<Rightarrow>
    stmt parser" where
  "parse_var_declaration_tail ts pe vw is_static is_const =
     p_test (\<lambda>i. peek_kind ts i = TkLeftParen \<and> \<not> is_static \<and> tuple_destructure_ahead ts i)
       (if vw \<noteq> None then error_here ts ''cannot destructure a view declaration''
        else parse_tuple_destructure ts pe None)
       (p_bind (parse_declaration_type_annotation ts) (\<lambda>ty.
        p_test (\<lambda>i. check ts TkLeftBracket i \<or> check ts TkLeftBrace i)
          (if vw \<noteq> None then error_here ts ''cannot destructure a view declaration''
           else parse_destructure ts pe ty is_static)
          (p_bind (expect_ident ts ''expected variable name'') (\<lambda>name.
           p_bind (parse_initializer ts pe) (\<lambda>initializer.
           p_return (SVar name ty initializer is_static is_const vw))))))"

definition parse_var_declaration :: "token list \<Rightarrow> expr_parser \<Rightarrow> bool \<Rightarrow> stmt parser" where
  "parse_var_declaration ts pe is_static =
     p_bind (advance ts) (\<lambda>_.
     if is_static
     then p_bind (expect ts TkVar (expected_after ''var'' (quoted ''static''))) (\<lambda>_.
          parse_var_declaration_tail ts pe None is_static False)
     else parse_var_declaration_tail ts pe None is_static False)"

definition parse_view_var_declaration :: "token list \<Rightarrow> expr_parser \<Rightarrow> stmt parser" where
  "parse_view_var_declaration ts pe =
     p_bind (advance ts) (\<lambda>_.
     p_bind (p_consume ts TkMut) (\<lambda>mutable.
     p_bind (expect ts TkVar (expected_after ''var'' (quoted ''view''))) (\<lambda>_.
     parse_var_declaration_tail ts pe (Some (if mutable \<noteq> None then Mutable else ReadOnly)) False False)))"

definition parse_shared_var_declaration :: "token list \<Rightarrow> expr_parser \<Rightarrow> stmt parser" where
  "parse_shared_var_declaration ts pe =
     p_bind (require_type ts (''expected a heap type after '' @ quoted ''shared'')) (\<lambda>ty.
     p_bind (expect_ident ts ''expected variable name'') (\<lambda>name.
     p_bind (parse_initializer ts pe) (\<lambda>initializer.
     p_return (SVar name (Some ty) initializer False False None))))"

definition parse_static_var :: "token list \<Rightarrow> expr_parser \<Rightarrow> stmt parser" where
  "parse_static_var ts pe =
     p_bind (advance ts) (\<lambda>_.
     p_bind (consume_keyword ts ''const'') (\<lambda>is_const.
     p_bind (expect ts TkVar (expected_after ''var'' (quoted ''static''))) (\<lambda>_.
     parse_var_declaration_tail ts pe None True is_const)))"

section \<open>Declarations\<close>

definition parse_function_declaration :: "token list \<Rightarrow> expr_parser \<Rightarrow> stmt parser \<Rightarrow> stmt parser" where
  "parse_function_declaration ts pe ps =
     p_bind (advance ts) (\<lambda>_.
     p_bind (parse_method_name ts) (\<lambda>name.
     p_bind (parse_generic_params ts) (\<lambda>gs.
     p_bind (parse_function_signature ts) (\<lambda>(params, ret).
     p_bind (parse_where_bounds ts gs) (\<lambda>generic_params.
     p_bind (skip_newlines ts) (\<lambda>_.
     p_bind (parse_function_body ts pe ps) (\<lambda>body.
     p_return (SFunction name generic_params params ret body))))))))"

definition parse_async_function_declaration :: "token list \<Rightarrow> expr_parser \<Rightarrow> stmt parser \<Rightarrow> stmt parser" where
  "parse_async_function_declaration ts pe ps =
     p_bind (advance ts) (\<lambda>_.
     p_bind (expect_ident ts ''expected function name'') (\<lambda>name.
     p_bind (parse_function_signature ts) (\<lambda>(params, ret).
     p_bind (skip_newlines ts) (\<lambda>_.
     p_bind (parse_function_body ts pe ps) (\<lambda>body.
     p_return (SAsyncFunction name params ret body))))))"

definition parse_async_statement :: "token list \<Rightarrow> expr_parser \<Rightarrow> stmt parser \<Rightarrow> stmt parser" where
  "parse_async_statement ts pe ps =
     p_bind (advance ts) (\<lambda>_.
     p_test (check ts TkFun) (parse_async_function_declaration ts pe ps)
     (p_test (\<lambda>i. check ts TkLeftBrace i \<or> check ts TkReturnArrow i)
       (p_here ts (\<lambda>tok. p_bind (parse_async_block_body ts ps (tspan tok)) (\<lambda>block. p_return (SExpression block))))
       (error_here ts
         (''expected '' @ quoted ''fun'' @ '', '' @ quoted ''{'' @ '', or '' @ quoted ''->'' @ '' after '' @ quoted ''async''))))"

definition trait_method :: "token list \<Rightarrow> expr_parser \<Rightarrow> stmt parser \<Rightarrow> stmt parser" where
  "trait_method ts pe ps =
     p_bind (expect ts TkFun ''expected `fun` in trait'') (\<lambda>_.
     p_bind (expect_ident ts ''expected trait method name'') (\<lambda>method_name.
     p_bind (parse_function_signature ts) (\<lambda>(params, ret).
     p_bind (p_test (check ts TkLeftBrace) (parse_function_body ts pe ps)
       (p_bind (consume_terminator ts) (\<lambda>_. p_return []))) (\<lambda>body.
     p_return (SFunction method_name [] params ret body)))))"

text \<open>An associated type (\<open>Inl\<close>) or a method (\<open>Inr\<close>).\<close>

definition trait_item :: "token list \<Rightarrow> expr_parser \<Rightarrow> stmt parser \<Rightarrow> (token + stmt) parser" where
  "trait_item ts pe ps =
     p_test (check ts TkType)
       (p_bind (advance ts) (\<lambda>_.
        p_bind (expect_ident ts ''expected associated type name'') (\<lambda>name.
        p_bind (consume_terminator ts) (\<lambda>_.
        p_return (Inl name)))))
       (p_bind (trait_method ts pe ps) (\<lambda>method. p_return (Inr method)))"

definition parse_trait_declaration :: "token list \<Rightarrow> expr_parser \<Rightarrow> stmt parser \<Rightarrow> stmt parser" where
  "parse_trait_declaration ts pe ps =
     p_bind (advance ts) (\<lambda>_.
     p_bind (expect_ident ts ''expected trait name'') (\<lambda>name.
     p_bind (p_optional ts TkColon (parse_bounds ts ''expected trait name after `:`'')) (\<lambda>parents.
     p_bind (skip_newlines ts) (\<lambda>_.
     p_bind (expect ts TkLeftBrace ''expected `{` after trait name'') (\<lambda>_.
     p_bind (skip_newlines ts) (\<lambda>_.
     p_bind (until_brace ts (trait_item ts pe ps)) (\<lambda>items.
     p_bind (expect ts TkRightBrace ''expected `}` after trait'') (\<lambda>_.
     p_return (STrait name (case parents of None \<Rightarrow> [] | Some bs \<Rightarrow> bs)
       (List.map_filter (\<lambda>item. case item of Inl t \<Rightarrow> Some t | Inr m \<Rightarrow> None) items)
       (List.map_filter (\<lambda>item. case item of Inl t \<Rightarrow> None | Inr m \<Rightarrow> Some m) items))))))))))"

definition parse_impl_declaration :: "token list \<Rightarrow> stmt parser \<Rightarrow> stmt parser" where
  "parse_impl_declaration ts ps =
     p_bind (advance ts) (\<lambda>_.
     p_bind (expect_ident ts ''expected trait name after `impl`'') (\<lambda>trait_name.
     p_bind (expect ts TkFor ''expected `for` in trait implementation'') (\<lambda>_.
     p_bind (expect_ident ts ''expected type name after `for`'') (\<lambda>type_name.
     p_bind (skip_newlines ts) (\<lambda>_.
     p_bind (expect ts TkLeftBrace ''expected `{` after impl target'') (\<lambda>_.
     p_bind (braced_statements ts ps ''expected `}` after impl'') (\<lambda>(body, _).
     p_return (SImpl trait_name type_name body))))))))"

definition parse_test_block :: "token list \<Rightarrow> stmt parser \<Rightarrow> stmt parser" where
  "parse_test_block ts ps =
     p_bind (advance ts) (\<lambda>_.
     p_bind (expect_ident ts ''expected test name'') (\<lambda>name.
     p_bind (skip_newlines ts) (\<lambda>_.
     p_bind (expect ts TkLeftBrace (expected_after ''{'' ''test name'')) (\<lambda>_.
     p_bind (braced_statements ts ps (expected ''}'')) (\<lambda>(body, _).
     p_return (STest name body))))))"

definition parse_class_declaration :: "token list \<Rightarrow> stmt parser \<Rightarrow> stmt parser" where
  "parse_class_declaration ts ps =
     p_bind (advance ts) (\<lambda>_.
     p_bind (expect_ident ts ''expected class name'') (\<lambda>name.
     p_bind (parse_generic_params ts) (\<lambda>gs.
     p_bind
       (p_test (check_ident ts ''extends'')
         (p_bind (advance ts) (\<lambda>_. p_bind (expect_ident ts ''expected parent class name'') (\<lambda>parent. p_return (Some parent))))
         (p_return None)) (\<lambda>parent.
     p_bind (parse_where_bounds ts gs) (\<lambda>generic_params.
     p_bind (skip_newlines ts) (\<lambda>_.
     p_bind (expect ts TkLeftBrace (expected_after ''{'' ''class name'')) (\<lambda>_.
     p_bind (braced_statements ts ps (expected ''}'')) (\<lambda>(body, _).
     p_return (SClass name generic_params parent body)))))))))"

definition enum_data_types :: "token list \<Rightarrow> type_annotation list parser" where
  "enum_data_types ts =
     p_bind (p_consume ts TkLeftParen) (\<lambda>c. case c of
       None \<Rightarrow> p_return []
     | Some _ \<Rightarrow>
         p_bind (list_unless ts TkRightParen (require_type ts ''expected type in enum variant data'')) (\<lambda>types.
         p_bind (expect ts TkRightParen (expected_after '')'' ''enum variant data'')) (\<lambda>_.
         p_return types)))"

definition parse_enum_member :: "token list \<Rightarrow> expr_parser \<Rightarrow> enum_member parser" where
  "parse_enum_member ts pe =
     p_bind (expect_ident ts ''expected enum member name'') (\<lambda>member_name.
     p_bind (enum_data_types ts) (\<lambda>data_types.
     p_bind (p_optional ts TkEqual (pe PrecAssignment)) (\<lambda>val.
     p_bind (p_consume ts TkComma) (\<lambda>_.
     p_return (EnumMember member_name val data_types)))))"

definition parse_enum_declaration :: "token list \<Rightarrow> expr_parser \<Rightarrow> stmt parser" where
  "parse_enum_declaration ts pe =
     p_bind (advance ts) (\<lambda>_.
     p_bind (expect_ident ts ''expected enum name'') (\<lambda>name.
     p_bind (parse_generic_params ts) (\<lambda>gs.
     p_bind (parse_where_bounds ts gs) (\<lambda>generic_params.
     p_bind (skip_newlines ts) (\<lambda>_.
     p_bind (expect ts TkLeftBrace (expected_after ''{'' ''enum name'')) (\<lambda>_.
     p_bind (skip_newlines ts) (\<lambda>_.
     p_bind (until_brace ts (parse_enum_member ts pe)) (\<lambda>members.
     p_bind (expect ts TkRightBrace (expected ''}'')) (\<lambda>_.
     p_return (SEnum name generic_params members))))))))))"

definition parse_type_alias_declaration :: "token list \<Rightarrow> stmt parser" where
  "parse_type_alias_declaration ts =
     p_bind (advance ts) (\<lambda>_.
     p_bind (expect_ident ts ''expected type alias name'') (\<lambda>name.
     p_bind (parse_generic_params ts) (\<lambda>generic_params.
     p_bind (expect ts TkEqual ''expected `=` after type alias name'') (\<lambda>_.
     p_bind (require_type ts ''expected aliased type after `=`'') (\<lambda>target.
     p_bind (consume_terminator ts) (\<lambda>_.
     p_return (STypeAlias name generic_params target)))))))"

section \<open>Imports\<close>

text \<open>The file path or module name, and whether it is a path.\<close>

definition parse_library :: "token list \<Rightarrow> string \<Rightarrow> (token \<times> bool) parser" where
  "parse_library ts message =
     p_test (\<lambda>i. is_string (peek_kind ts i))
       (p_bind (advance ts) (\<lambda>tok. p_return (token_new (TkIdentifier (lexeme tok)) (tspan tok), True)))
       (p_bind (expect_ident ts message) (\<lambda>tok. p_return (tok, False)))"

definition parse_selective_use :: "token list \<Rightarrow> stmt parser" where
  "parse_selective_use ts =
     p_bind (advance ts) (\<lambda>_.
     p_bind (list_unless ts TkRightParen (expect_ident ts ''expected imported symbol name'')) (\<lambda>imported_symbols.
     p_bind (expect ts TkRightParen (expected '')'')) (\<lambda>_.
     p_bind (expect ts TkEqual (expected ''='')) (\<lambda>_.
     p_bind (expect ts TkFrom (expected ''from'')) (\<lambda>_.
     p_bind (parse_library ts ''expected module name'') (\<lambda>(library, is_file_path).
     p_bind (consume_terminator ts) (\<lambda>_.
     p_return (SUse library is_file_path imported_symbols None))))))))"

definition parse_use_statement :: "token list \<Rightarrow> stmt parser" where
  "parse_use_statement ts =
     p_bind (advance ts) (\<lambda>_.
     p_test (check ts TkLeftParen) (parse_selective_use ts)
       (p_bind (parse_library ts ''expected module name or file path'') (\<lambda>(library, is_file_path).
        p_bind (p_optional ts TkAs (expect_ident ts ''expected alias name'')) (\<lambda>alias.
        p_bind (consume_terminator ts) (\<lambda>_.
        p_return (SUse library is_file_path [] alias))))))"

section \<open>Control flow\<close>

text \<open>\<open>(condition)\<close> with the messages of its two parentheses.\<close>

definition parse_condition :: "token list \<Rightarrow> expr_parser \<Rightarrow> string \<Rightarrow> expr parser" where
  "parse_condition ts pe message =
     p_bind (expect ts TkLeftParen message) (\<lambda>_.
     p_bind (pe PrecAssignment) (\<lambda>condition.
     p_bind (expect ts TkRightParen (expected '')'')) (\<lambda>_.
     p_return condition)))"

text \<open>A statement after optional newlines.\<close>

definition parse_branch :: "token list \<Rightarrow> stmt parser \<Rightarrow> stmt parser" where
  "parse_branch ts ps = p_bind (skip_newlines ts) (\<lambda>_. ps)"

definition parse_elif :: "token list \<Rightarrow> expr_parser \<Rightarrow> stmt parser \<Rightarrow> elif_branch parser" where
  "parse_elif ts pe ps =
     p_bind (advance ts) (\<lambda>elif_token.
     p_bind (parse_condition ts pe (expected_after ''('' (quoted ''elif''))) (\<lambda>condition.
     p_bind (parse_branch ts ps) (\<lambda>body.
     p_return (ElifBranch condition body (tspan elif_token)))))"

definition elif_branches :: "token list \<Rightarrow> expr_parser \<Rightarrow> stmt parser \<Rightarrow> elif_branch list parser" where
  "elif_branches ts pe ps =
     p_loop (Suc (length ts))
       (\<lambda>bs. p_test (check ts TkElif)
          (p_bind (parse_elif ts pe ps) (\<lambda>b. p_return (Inl (bs @ [b]))))
          (p_return (Inr bs))) []"

definition parse_if_statement :: "token list \<Rightarrow> expr_parser \<Rightarrow> stmt parser \<Rightarrow> stmt parser" where
  "parse_if_statement ts pe ps =
     p_bind (advance ts) (\<lambda>_.
     p_bind (parse_condition ts pe (expected_after ''('' (quoted ''if''))) (\<lambda>condition.
     p_bind (parse_branch ts ps) (\<lambda>then_branch.
     p_bind (elif_branches ts pe ps) (\<lambda>elifs.
     p_bind (p_optional ts TkElse (parse_branch ts ps)) (\<lambda>else_branch.
     p_return (SIf condition then_branch elifs else_branch))))))"

definition parse_while_statement :: "token list \<Rightarrow> expr_parser \<Rightarrow> stmt parser \<Rightarrow> stmt parser" where
  "parse_while_statement ts pe ps =
     p_bind (advance ts) (\<lambda>_.
     p_bind (parse_condition ts pe (expected_after ''('' (quoted ''while''))) (\<lambda>condition.
     p_bind (parse_branch ts ps) (\<lambda>body.
     p_return (SWhile condition body))))"

definition parse_do_while_statement :: "token list \<Rightarrow> expr_parser \<Rightarrow> stmt parser \<Rightarrow> stmt parser" where
  "parse_do_while_statement ts pe ps =
     p_bind (advance ts) (\<lambda>_.
     p_bind (parse_branch ts ps) (\<lambda>body.
     p_bind (expect ts TkWhile (expected ''while'')) (\<lambda>_.
     p_bind (parse_condition ts pe (expected ''('')) (\<lambda>condition.
     p_bind (consume_terminator ts) (\<lambda>_.
     p_return (SDoWhile body condition))))))"

text \<open>\<open>x in expression { .. }\<close>\<close>

definition parse_in_block :: "token list \<Rightarrow> expr_parser \<Rightarrow> stmt parser \<Rightarrow> string \<Rightarrow> string \<Rightarrow> string \<Rightarrow>
    (token \<Rightarrow> expr \<Rightarrow> stmt \<Rightarrow> stmt) \<Rightarrow> stmt parser" where
  "parse_in_block ts pe ps name_message in_message brace_message con =
     p_bind (expect_ident ts name_message) (\<lambda>variable.
     p_bind (expect ts TkIn in_message) (\<lambda>_.
     p_bind (pe PrecAssignment) (\<lambda>source.
     p_bind (skip_newlines ts) (\<lambda>_.
     p_bind (expect ts TkLeftBrace brace_message) (\<lambda>_.
     p_bind (braced_statements ts ps (expected ''}'')) (\<lambda>(body, _).
     p_return (con variable source (SBlock body span_dummy span_dummy))))))))"

definition parse_for_in_statement :: "token list \<Rightarrow> expr_parser \<Rightarrow> stmt parser \<Rightarrow> stmt parser" where
  "parse_for_in_statement ts pe ps =
     p_bind (expect ts TkLeftParen (expected ''('')) (\<lambda>_.
     p_bind (expect ts TkVar (expected ''var'')) (\<lambda>_.
     p_bind (expect_ident ts ''expected loop variable name'') (\<lambda>variable.
     p_bind (expect ts TkIn (expected ''in'')) (\<lambda>_.
     p_bind (pe PrecAssignment) (\<lambda>iterable.
     p_bind (expect ts TkRightParen (expected '')'')) (\<lambda>_.
     p_bind (parse_branch ts ps) (\<lambda>body.
     p_return (SForIn variable iterable body))))))))"

definition terminator_ahead :: "token list \<Rightarrow> nat \<Rightarrow> bool" where
  "terminator_ahead ts i \<longleftrightarrow> check ts TkSemicolon i \<or> check ts TkNewline i"

definition for_init :: "token list \<Rightarrow> expr_parser \<Rightarrow> stmt option parser" where
  "for_init ts pe =
     p_test (check ts TkVar) (p_bind (parse_var_declaration ts pe False) (\<lambda>var_decl. p_return (Some var_decl)))
     (p_test (terminator_ahead ts) (p_bind (consume_terminator ts) (\<lambda>_. p_return None))
       (p_bind (pe PrecAssignment) (\<lambda>e. p_bind (consume_terminator ts) (\<lambda>_. p_return (Some (SExpression e))))))"

definition for_condition :: "token list \<Rightarrow> expr_parser \<Rightarrow> expr option parser" where
  "for_condition ts pe =
     p_test (terminator_ahead ts) (p_bind (consume_terminator ts) (\<lambda>_. p_return None))
       (p_bind (pe PrecAssignment) (\<lambda>cond. p_bind (consume_terminator ts) (\<lambda>_. p_return (Some cond))))"

definition for_update :: "token list \<Rightarrow> expr_parser \<Rightarrow> expr option parser" where
  "for_update ts pe =
     p_test (check ts TkRightParen) (p_return None) (p_bind (pe PrecAssignment) (\<lambda>e. p_return (Some e)))"

text \<open>The lookahead \<open>(var name in\<close>, which the source makes with \<open>advance\<close> before it moves back.\<close>

definition for_in_ahead :: "token list \<Rightarrow> nat \<Rightarrow> bool" where
  "for_in_ahead ts i \<longleftrightarrow>
     check ts TkLeftParen i \<and> peek_at ts 1 i = TkVar \<and> peek_at_ident ts 2 i \<and> peek_at ts 3 i = TkIn"

definition parse_for_statement :: "token list \<Rightarrow> expr_parser \<Rightarrow> stmt parser \<Rightarrow> stmt parser" where
  "parse_for_statement ts pe ps =
     p_bind (advance ts) (\<lambda>_.
     p_test (check ts TkAwait)
       (p_bind (advance ts) (\<lambda>_.
        parse_in_block ts pe ps (''expected variable name after '' @ quoted ''for await'')
          (expected_after ''in'' (quoted ''for await variable'')) (''expected '' @ quoted ''{'' @ '' for for-await body'')
          SForAwait))
     (p_test (\<lambda>i. peek_at_ident ts 0 i \<and> peek_at ts 1 i = TkIn)
       (parse_in_block ts pe ps ''expected channel element variable name''
          (expected_after ''in'' (quoted ''for variable'')) (''expected '' @ quoted ''{'' @ '' for channel-for body'')
          SChanRecvFor)
     (p_test (for_in_ahead ts) (parse_for_in_statement ts pe ps)
       (p_bind (expect ts TkLeftParen (expected_after ''('' (quoted ''for''))) (\<lambda>_.
        p_bind (for_init ts pe) (\<lambda>init.
        p_bind (for_condition ts pe) (\<lambda>condition.
        p_bind (for_update ts pe) (\<lambda>update.
        p_bind (expect ts TkRightParen (expected '')'')) (\<lambda>_.
        p_bind (parse_branch ts ps) (\<lambda>body.
        p_return (SFor init condition update body)))))))))))"

definition parse_go_statement :: "token list \<Rightarrow> expr_parser \<Rightarrow> stmt parser \<Rightarrow> stmt parser" where
  "parse_go_statement ts pe ps =
     p_bind (advance ts) (\<lambda>keyword.
     p_bind (skip_newlines ts) (\<lambda>_.
     p_test (check ts TkLeftBrace)
       (p_bind (advance ts) (\<lambda>_.
        p_bind (braced_statements ts ps (expected_after ''}'' ''go block'')) (\<lambda>(body, _).
        p_return (SGo (ELiteral LNil (tspan keyword)) (Some body) (tspan keyword)))))
       (p_bind (pe PrecAssignment) (\<lambda>call. p_return (SGo call None (tspan keyword))))))"

definition parse_return_statement :: "token list \<Rightarrow> expr_parser \<Rightarrow> stmt parser" where
  "parse_return_statement ts pe =
     p_bind (advance ts) (\<lambda>_.
     p_bind (p_test (terminator_ahead ts) (p_return None) (p_bind (pe PrecAssignment) (\<lambda>e. p_return (Some e)))) (\<lambda>val.
     p_bind (consume_terminator ts) (\<lambda>_.
     p_return (SReturn val))))"

text \<open>\<open>break\<close> and \<open>continue\<close>\<close>

definition parse_jump :: "token list \<Rightarrow> (span \<Rightarrow> stmt) \<Rightarrow> stmt parser" where
  "parse_jump ts con = p_bind (advance ts) (\<lambda>tok. p_bind (consume_terminator ts) (\<lambda>_. p_return (con (tspan tok))))"

definition match_pattern_head :: "expr \<Rightarrow> match_pattern option" where
  "match_pattern_head val =
     (case val of
        ECall (EVariable variant) _ [EVariable binding] \<Rightarrow>
          if lexeme variant = ''Ok'' \<or> lexeme variant = ''Err''
          then Some \<lparr>mp_variant = variant, mp_binding = (if lexeme binding = ''_'' then None else Some binding)\<rparr>
          else None
      | _ \<Rightarrow> None)"

definition parse_match_case :: "token list \<Rightarrow> expr_parser \<Rightarrow> stmt parser \<Rightarrow> match_case parser" where
  "parse_match_case ts pe ps =
     p_bind (advance ts) (\<lambda>case_token.
     p_bind (pe PrecAssignment) (\<lambda>val.
     p_bind (p_optional ts TkIf (pe PrecAssignment)) (\<lambda>guard.
     p_bind (expect ts TkArrow (expected ''=>'')) (\<lambda>_.
     p_bind ps (\<lambda>body.
     p_return (MatchCase val (match_pattern_head val) guard body (tspan case_token)))))))"

definition parse_match_default :: "token list \<Rightarrow> stmt parser \<Rightarrow> stmt parser" where
  "parse_match_default ts ps =
     p_bind (advance ts) (\<lambda>_. p_bind (expect ts TkArrow (expected_after ''=>'' (quoted ''default''))) (\<lambda>_. ps))"

text \<open>A case (\<open>Inl\<close>) or a default (\<open>Inr\<close>); the last default stands.\<close>

definition parse_match_arm :: "token list \<Rightarrow> expr_parser \<Rightarrow> stmt parser \<Rightarrow> (match_case + stmt) parser" where
  "parse_match_arm ts pe ps =
     p_test (check ts TkDefault)
       (p_bind (parse_match_default ts ps) (\<lambda>body. p_return (Inr body)))
       (p_bind (parse_match_case ts pe ps) (\<lambda>c. p_return (Inl c)))"

definition parse_match_statement :: "token list \<Rightarrow> expr_parser \<Rightarrow> stmt parser \<Rightarrow> stmt parser" where
  "parse_match_statement ts pe ps =
     p_bind (advance ts) (\<lambda>_.
     p_bind (parse_condition ts pe (expected_after ''('' (quoted ''match''))) (\<lambda>expression.
     p_bind (skip_newlines ts) (\<lambda>_.
     p_bind (expect ts TkLeftBrace (expected ''{'')) (\<lambda>_.
     p_bind (skip_newlines ts) (\<lambda>_.
     p_bind (until_brace ts (parse_match_arm ts pe ps)) (\<lambda>arms.
     p_bind (expect ts TkRightBrace (expected ''}'')) (\<lambda>_.
     p_return (SMatch expression
       (List.map_filter (\<lambda>arm. case arm of Inl c \<Rightarrow> Some c | Inr b \<Rightarrow> None) arms)
       (foldl (\<lambda>d arm. case arm of Inl c \<Rightarrow> d | Inr b \<Rightarrow> Some b) None arms)))))))))"

definition parse_catch :: "token list \<Rightarrow> stmt parser \<Rightarrow> (token \<times> stmt) parser" where
  "parse_catch ts ps =
     p_bind (expect ts TkLeftParen (expected_after ''('' (quoted ''catch''))) (\<lambda>_.
     p_bind (expect_ident ts ''expected catch variable name'') (\<lambda>var.
     p_bind (expect ts TkRightParen (expected '')'')) (\<lambda>_.
     p_bind (parse_branch ts ps) (\<lambda>block.
     p_return (var, block)))))"

definition parse_try_statement :: "token list \<Rightarrow> stmt parser \<Rightarrow> stmt parser" where
  "parse_try_statement ts ps =
     p_bind (advance ts) (\<lambda>_.
     p_bind (parse_branch ts ps) (\<lambda>try_block.
     p_bind (p_optional ts TkCatch (parse_catch ts ps)) (\<lambda>c.
     p_bind (p_optional ts TkFinally (parse_branch ts ps)) (\<lambda>finally_block.
     p_return (STry try_block (map_option fst c) (map_option snd c) finally_block)))))"

definition parse_throw_statement :: "token list \<Rightarrow> expr_parser \<Rightarrow> stmt parser" where
  "parse_throw_statement ts pe =
     p_bind (advance ts) (\<lambda>_. p_bind (pe PrecAssignment) (\<lambda>val. p_bind (consume_terminator ts) (\<lambda>_. p_return (SThrow val))))"

definition parse_retry_statement :: "token list \<Rightarrow> expr_parser \<Rightarrow> stmt parser \<Rightarrow> stmt parser" where
  "parse_retry_statement ts pe ps =
     p_bind (advance ts) (\<lambda>_.
     p_bind (pe PrecAssignment) (\<lambda>times.
     p_bind (parse_branch ts ps) (\<lambda>body.
     p_bind (p_optional ts TkCatch (parse_catch ts ps)) (\<lambda>c.
     p_return (SRetry times body (map_option fst c) (map_option snd c))))))"

definition parse_unsafe_statement :: "token list \<Rightarrow> stmt parser \<Rightarrow> stmt parser" where
  "parse_unsafe_statement ts ps = p_bind (advance ts) (\<lambda>_. p_bind (parse_branch ts ps) (\<lambda>body. p_return (SUnsafe body)))"

definition quiet_names :: "token list \<Rightarrow> string list parser" where
  "quiet_names ts =
     p_test (check ts TkRightBracket) (error_here ts ''expected at least one warning name in `quiet [...]`'')
       (p_bind (separated_by ts TkComma (expect_ident ts ''expected a warning name'')) (\<lambda>names.
        p_bind (expect ts TkRightBracket (expected_after '']'' ''warning names'')) (\<lambda>_.
        p_bind (skip_newlines ts) (\<lambda>_.
        p_return (map lexeme names)))))"

definition parse_quiet_statement :: "token list \<Rightarrow> stmt parser \<Rightarrow> stmt parser" where
  "parse_quiet_statement ts ps =
     p_bind (advance ts) (\<lambda>_.
     p_bind (skip_newlines ts) (\<lambda>_.
     p_bind (p_optional ts TkLeftBracket (quiet_names ts)) (\<lambda>suppressed.
     p_bind ps (\<lambda>body.
     p_return (SQuiet (case suppressed of None \<Rightarrow> [] | Some names \<Rightarrow> names) body)))))"

definition parse_say_statement :: "token list \<Rightarrow> expr_parser \<Rightarrow> stmt parser" where
  "parse_say_statement ts pe =
     p_bind (advance ts) (\<lambda>keyword.
     p_bind (parse_condition ts pe (expected_after ''('' (quoted ''say''))) (\<lambda>expression.
     p_bind (consume_terminator ts) (\<lambda>_.
     p_return (SSay expression (tspan keyword)))))"

definition parse_expression_statement :: "token list \<Rightarrow> expr_parser \<Rightarrow> stmt parser" where
  "parse_expression_statement ts pe =
     p_bind (pe PrecAssignment) (\<lambda>expression. p_bind (consume_terminator ts) (\<lambda>_. p_return (SExpression expression)))"

section \<open>Dispatch\<close>

definition view_var_ahead :: "token list \<Rightarrow> nat \<Rightarrow> bool" where
  "view_var_ahead ts i \<longleftrightarrow> peek_at ts 1 i = TkVar \<or> (peek_at ts 1 i = TkMut \<and> peek_at ts 2 i = TkVar)"

definition fun_declaration_ahead :: "token list \<Rightarrow> nat \<Rightarrow> bool" where
  "fun_declaration_ahead ts i \<longleftrightarrow>
     (peek_at_ident ts 1 i \<and> \<not> peek_at_type_keyword ts 1 i) \<or> peek_at_operator ts 1 i"

definition dispatch_statement :: "token list \<Rightarrow> expr_parser \<Rightarrow> stmt parser \<Rightarrow> stmt parser" where
  "dispatch_statement ts pe ps =
     p_match ts
       [([TkVar], parse_var_declaration ts pe False),
        ([TkStatic], parse_static_var ts pe),
        ([TkShared], parse_shared_var_declaration ts pe),
        ([TkView], p_test (view_var_ahead ts) (parse_view_var_declaration ts pe) (parse_expression_statement ts pe)),
        ([TkFun], p_test (fun_declaration_ahead ts) (parse_function_declaration ts pe ps) (parse_expression_statement ts pe)),
        ([TkAsync], parse_async_statement ts pe ps),
        ([TkGo], parse_go_statement ts pe ps),
        ([TkClass], parse_class_declaration ts ps),
        ([TkEnum], parse_enum_declaration ts pe),
        ([TkType], parse_type_alias_declaration ts),
        ([TkTrait], parse_trait_declaration ts pe ps),
        ([TkImpl], parse_impl_declaration ts ps),
        ([TkIf], parse_if_statement ts pe ps),
        ([TkWhile], parse_while_statement ts pe ps),
        ([TkDo], parse_do_while_statement ts pe ps),
        ([TkFor], parse_for_statement ts pe ps),
        ([TkMatch], parse_match_statement ts pe ps),
        ([TkTry], parse_try_statement ts ps),
        ([TkThrow], parse_throw_statement ts pe),
        ([TkRetry], parse_retry_statement ts pe ps),
        ([TkUnsafe], parse_unsafe_statement ts ps),
        ([TkQuiet], parse_quiet_statement ts ps),
        ([TkReturn], parse_return_statement ts pe),
        ([TkBreak], parse_jump ts SBreak),
        ([TkContinue], parse_jump ts SContinue),
        ([TkUse], parse_use_statement ts),
        ([TkTest], parse_test_block ts ps),
        ([TkLeftBrace], parse_block ts ps),
        ([TkSay], parse_say_statement ts pe)]
       (parse_expression_statement ts pe)"

definition parse_statement_body :: "token list \<Rightarrow> expr_parser \<Rightarrow> stmt parser \<Rightarrow> stmt parser" where
  "parse_statement_body ts pe ps = p_bind (skip_newlines ts) (\<lambda>_. dispatch_statement ts pe ps)"

end
