(* ===== verification/Parser.thy ===== *)
theory Parser
  imports Parser_Stmt
begin

text \<open>
  The recursive parsers and \<open>Parser::parse\<close> (\<open>crates/ntsc-parser/src/lib.rs\<close>). Expressions contain
  statements and the other way round; \<open>n\<close> bounds the depth of the calls. A statement may begin with an
  expression at the same token, every other call is made after a token, so twice the number of tokens
  and two more is enough (theory \<open>Parser_Total\<close>).
\<close>

fun parse_precedence_fuel :: "token list \<Rightarrow> nat \<Rightarrow> expr_parser"
and parse_statement_fuel :: "token list \<Rightarrow> nat \<Rightarrow> stmt parser" where
  "parse_precedence_fuel ts 0 = (\<lambda>prec i. POut)"
| "parse_precedence_fuel ts (Suc n) =
     parse_precedence_body ts (parse_precedence_fuel ts n) (parse_statement_fuel ts n)"
| "parse_statement_fuel ts 0 = (\<lambda>i. POut)"
| "parse_statement_fuel ts (Suc n) =
     parse_statement_body ts (parse_precedence_fuel ts n) (parse_statement_fuel ts n)"

definition parse_precedence :: "token list \<Rightarrow> precedence \<Rightarrow> expr parser" where
  "parse_precedence ts = parse_precedence_fuel ts (2 * length ts + 1)"

definition parse_expression :: "token list \<Rightarrow> expr parser" where
  "parse_expression ts = parse_precedence ts PrecAssignment"

definition parse_statement :: "token list \<Rightarrow> stmt parser" where
  "parse_statement ts = parse_statement_fuel ts (2 * length ts + 2)"

text \<open>A round of the loop of \<open>parse\<close>, with the statements and the errors so far.\<close>

definition parse_round :: "token list \<Rightarrow> stmt list \<times> parse_error list \<Rightarrow>
    ((stmt list \<times> parse_error list) + (stmt list \<times> parse_error list)) parser" where
  "parse_round ts st i =
     (if is_at_end ts i then POk (Inr st) i
      else if check ts TkNewline i then p_bind (advance ts) (\<lambda>_. p_return (Inl st)) i
      else (case parse_statement ts i of
              POk s k \<Rightarrow> POk (Inl (fst st @ [s], snd st)) k
            | PErr e k \<Rightarrow> p_bind (synchronize ts) (\<lambda>_. p_return (Inl (fst st, snd st @ [e]))) k
            | PPanic \<Rightarrow> PPanic
            | POut \<Rightarrow> POut))"

datatype parse_outcome = Parsed program | Failed "parse_error list" | Parser_Panic | Parser_Out

definition parse :: "token list \<Rightarrow> parse_outcome" where
  "parse ts =
     (case p_loop (Suc (length ts)) (parse_round ts) ([], []) 0 of
        POk (stmts, errors) k \<Rightarrow>
          if errors = [] then Parsed \<lparr>statements = stmts\<rparr> else Failed errors
      | PErr e k \<Rightarrow> Failed [e]
      | PPanic \<Rightarrow> Parser_Panic
      | POut \<Rightarrow> Parser_Out)"

end
