(* ===== verification/Parser_Progress.thy ===== *)
theory Parser_Progress
  imports Parser
begin

text \<open>
  A logic for the progress of parsers. \<open>steps ts P l D E m\<close> states that \<open>m\<close>, started at a position from \<open>l\<close>
  on that satisfies \<open>P\<close>, neither panics nor runs out of rounds, never passes the end of the tokens, consumes at
  least \<open>D x\<close> tokens when it returns \<open>x\<close> and at least \<open>E\<close> when it fails. There is one rule per combinator
  and one per primitive, in the collection \<open>steps\<close>; a rule for a function of the parser joins it when it is
  proved.
\<close>

named_theorems steps

definition steps :: "token list \<Rightarrow> (nat \<Rightarrow> bool) \<Rightarrow> nat \<Rightarrow> ('a \<Rightarrow> nat) \<Rightarrow> nat \<Rightarrow> 'a parser \<Rightarrow> bool" where
  "steps ts P l D E m \<longleftrightarrow>
     (\<forall>i. l \<le> i \<longrightarrow> i \<le> length ts \<longrightarrow> P i \<longrightarrow>
        (case m i of
           POk x k \<Rightarrow> i + D x \<le> k \<and> k \<le> length ts
         | PErr e k \<Rightarrow> i + E \<le> k \<and> k \<le> length ts
         | PPanic \<Rightarrow> False
         | POut \<Rightarrow> False))"

abbreviation anywhere :: "nat \<Rightarrow> bool" where
  "anywhere \<equiv> \<lambda>i. True"

section \<open>Combinators\<close>

lemma stepsD:
  "steps ts P l D E m \<Longrightarrow> l \<le> i \<Longrightarrow> i \<le> length ts \<Longrightarrow> P i \<Longrightarrow>
     (\<exists>x k. m i = POk x k \<and> i + D x \<le> k \<and> k \<le> length ts) \<or> (\<exists>e k. m i = PErr e k \<and> i + E \<le> k \<and> k \<le> length ts)"
  unfolding steps_def by (cases "m i") force+

lemma steps_weaken:
  assumes m: "steps ts Q l' D' E' m" and "l' \<le> l" "\<And>i. P i \<Longrightarrow> Q i" "\<And>x. D x \<le> D' x" "E \<le> E'"
  shows "steps ts P l D E m"
  unfolding steps_def
proof (intro allI impI)
  fix i assume "l \<le> i" "i \<le> length ts" "P i"
  then have i: "l' \<le> i" "i \<le> length ts" "Q i" using assms by auto
  show "case m i of POk x k \<Rightarrow> i + D x \<le> k \<and> k \<le> length ts | PErr e k \<Rightarrow> i + E \<le> k \<and> k \<le> length ts
    | PPanic \<Rightarrow> False | POut \<Rightarrow> False"
    using stepsD [OF m i] assms(4,5) by (fastforce intro: order_trans [rotated])
qed

lemma steps_return [steps]: "(\<And>y. y = x \<Longrightarrow> D y \<le> 0) \<Longrightarrow> steps ts P l D E (p_return x)"
  by (simp add: steps_def p_return_def)

lemma steps_error [steps]: "E \<le> 0 \<Longrightarrow> steps ts P l D E (p_error message sp)"
  by (simp add: steps_def p_error_def)

lemma steps_error_here [steps]: "E \<le> 0 \<Longrightarrow> steps ts P l D E (error_here ts message)"
  by (simp add: steps_def error_here_def p_error_def)

lemma steps_bind_dependent:
  assumes m: "steps ts P l d E m" and f: "\<And>x. steps ts anywhere (l + d x) (\<lambda>y. D y - d x) (E - d x) (f x)"
  shows "steps ts P l D E (p_bind m f)"
  unfolding steps_def
proof (intro allI impI)
  fix i assume i: "l \<le> i" "i \<le> length ts" "P i"
  consider x k where "m i = POk x k" "i + d x \<le> k" "k \<le> length ts"
    | e k where "m i = PErr e k" "i + E \<le> k" "k \<le> length ts"
    using stepsD [OF m i] by blast
  then show "case p_bind m f i of POk x k \<Rightarrow> i + D x \<le> k \<and> k \<le> length ts
    | PErr e k \<Rightarrow> i + E \<le> k \<and> k \<le> length ts | PPanic \<Rightarrow> False | POut \<Rightarrow> False"
  proof cases
    case 1
    then show ?thesis using stepsD [OF f, of x k] i by (fastforce simp: p_bind_def)
  qed (simp add: p_bind_def)
qed

lemma steps_bind:
  "steps ts P l (\<lambda>_. d) E m \<Longrightarrow> (\<And>x. steps ts anywhere (l + d) (\<lambda>y. D y - d) (E - d) (f x)) \<Longrightarrow>
     steps ts P l D E (p_bind m f)"
  by (rule steps_bind_dependent)

text \<open>From the progress of a function, a rule for a call in tail position and one for a call whose result
  is bound.\<close>

lemma steps_from:
  "steps ts Q l' (\<lambda>_. d) e m \<Longrightarrow> (\<And>i. P i \<Longrightarrow> Q i) \<Longrightarrow> l' \<le> l \<Longrightarrow> (\<And>x. D x \<le> d) \<Longrightarrow> E \<le> e \<Longrightarrow> steps ts P l D E m"
  by (rule steps_weaken)

lemma steps_bind_from:
  assumes "steps ts Q l' (\<lambda>_. d) e m" "\<And>i. P i \<Longrightarrow> Q i" "l' \<le> l" "E \<le> e"
    "\<And>x. steps ts anywhere (l + d) (\<lambda>y. D y - d) (E - d) (f x)"
  shows "steps ts P l D E (p_bind m f)"
  by (rule steps_bind [OF steps_from [OF assms(1-3) order_refl assms(4)] assms(5)])

lemma steps_test [steps]:
  "steps ts c l D E p \<Longrightarrow> steps ts P l D E q \<Longrightarrow> steps ts P l D E (p_test c p q)"
  by (simp add: steps_def p_test_def)

lemma steps_test_strong:
  "steps ts (\<lambda>i. P i \<and> c i) l D E p \<Longrightarrow> steps ts (\<lambda>i. P i \<and> \<not> c i) l D E q \<Longrightarrow> steps ts P l D E (p_test c p q)"
  by (simp add: steps_def p_test_def)

lemma steps_here [steps]: "(\<And>t. steps ts P l D E (f t)) \<Longrightarrow> steps ts P l D E (p_here ts f)"
  by (simp add: steps_def p_here_def)

lemma steps_ok:
  assumes "steps ts P l D E m" "D' None \<le> E" "\<And>x. D' (Some x) \<le> D x"
  shows "steps ts P l D' E' (p_ok m)"
  unfolding steps_def
proof (intro allI impI)
  fix i assume "l \<le> i" "i \<le> length ts" "P i"
  note mi = assms(1) [unfolded steps_def, rule_format, OF this]
  show "case p_ok m i of POk x k \<Rightarrow> i + D' x \<le> k \<and> k \<le> length ts
    | PErr e k \<Rightarrow> i + E' \<le> k \<and> k \<le> length ts | PPanic \<Rightarrow> False | POut \<Rightarrow> False"
    using mi assms(2,3) by (cases "m i") (auto simp: p_ok_def intro: order_trans [rotated])
qed

definition some_steps :: "nat \<Rightarrow> 'a option \<Rightarrow> nat" where
  "some_steps d x = (case x of None \<Rightarrow> 0 | Some _ \<Rightarrow> d)"

lemma some_steps_simps [simp]: "some_steps d None = 0" "some_steps d (Some x) = d" "some_steps d y \<le> d" "some_steps 0 y = 0"
  by (auto simp: some_steps_def split: option.splits)


lemma steps_some:
  assumes "steps ts P l (some_steps d) E m" "D None \<le> 0"
    "\<And>x. steps ts anywhere (l + d) (\<lambda>y. D y - d) (E - d) (f x)"
  shows "steps ts P l D E (p_some m f)"
  unfolding p_some_def
proof (rule steps_bind_dependent [OF assms(1)])
  fix x
  show "steps ts anywhere (l + some_steps d x) (\<lambda>y. D y - some_steps d x) (E - some_steps d x)
    (case x of None \<Rightarrow> p_return None | Some y \<Rightarrow> f y)"
    using assms(2,3) by (cases x) (simp_all add: steps_return)
qed

lemma steps_if [steps]:
  "(b \<Longrightarrow> steps ts P l D E p) \<Longrightarrow> (\<not> b \<Longrightarrow> steps ts P l D E q) \<Longrightarrow> steps ts P l D E (if b then p else q)"
  by simp

lemma steps_option [steps]:
  "(x = None \<Longrightarrow> steps ts P l D E p) \<Longrightarrow> (\<And>y. x = Some y \<Longrightarrow> steps ts P l D E (q y)) \<Longrightarrow>
     steps ts P l D E (case x of None \<Rightarrow> p | Some y \<Rightarrow> q y)"
  by (cases x) auto

lemma steps_prod [steps]: "(\<And>a b. steps ts P l D E (f a b)) \<Longrightarrow> steps ts P l D E (case x of (a, b) \<Rightarrow> f a b)"
  by (cases x) auto

lemma steps_panic: "(\<And>i. P i \<Longrightarrow> False) \<Longrightarrow> steps ts P l D E p_panic"
  by (auto simp: steps_def)

text \<open>After a reset the position and what is known of it are those of the start.\<close>

lemma steps_reset [steps]:
  assumes m: "steps ts P l d E m" and some: "\<And>x. steps ts anywhere (l + d (Some x)) (\<lambda>y. D y - d (Some x)) (E - d (Some x)) (f (Some x))"
    and none: "steps ts P l D E (f None)"
  shows "steps ts P l D E (p_bind (p_reset m) f)"
  unfolding steps_def
proof (intro allI impI)
  fix i assume i: "l \<le> i" "i \<le> length ts" "P i"
  consider x k where "m i = POk (Some x) k" "i + d (Some x) \<le> k" "k \<le> length ts"
    | k where "m i = POk None k"
    | e k where "m i = PErr e k" "i + E \<le> k" "k \<le> length ts"
    using stepsD [OF m i] by (metis not_Some_eq)
  then show "case p_bind (p_reset m) f i of POk x k \<Rightarrow> i + D x \<le> k \<and> k \<le> length ts
    | PErr e k \<Rightarrow> i + E \<le> k \<and> k \<le> length ts | PPanic \<Rightarrow> False | POut \<Rightarrow> False"
  proof cases
    case 1
    then show ?thesis using stepsD [where i = k, OF some [of x]] i by (fastforce simp: p_bind_def p_reset_def)
  next
    case 2
    then show ?thesis using stepsD [OF none i] by (fastforce simp: p_bind_def p_reset_def)
  qed (simp add: p_bind_def p_reset_def)
qed

section \<open>Loops\<close>

text \<open>A round that goes on consumes a token; so the rounds are not more than the tokens.\<close>

definition round_steps :: "('s + 'r) \<Rightarrow> nat" where
  "round_steps x = (case x of Inl _ \<Rightarrow> 1 | Inr _ \<Rightarrow> 0)"

lemma round_steps_simps [simp]: "round_steps (Inl s) = 1" "round_steps (Inr r) = 0"
  by (simp_all add: round_steps_def)

lemma steps_loop_rounds:
  assumes body: "\<And>s. steps ts anywhere l round_steps 0 (body s)"
  shows "l \<le> i \<Longrightarrow> i \<le> length ts \<Longrightarrow> length ts - i < n \<Longrightarrow>
    (\<exists>x k. p_loop n body s i = POk x k \<and> i \<le> k \<and> k \<le> length ts) \<or>
    (\<exists>e k. p_loop n body s i = PErr e k \<and> i \<le> k \<and> k \<le> length ts)"
proof (induction n arbitrary: s i)
  case (Suc n)
  consider s' k where "body s i = POk (Inl s') k" "i + 1 \<le> k" "k \<le> length ts"
    | r k where "body s i = POk (Inr r) k" "i \<le> k" "k \<le> length ts"
    | e k where "body s i = PErr e k" "i \<le> k" "k \<le> length ts"
    using stepsD [OF body Suc.prems(1,2), of s] by (metis TrueI add_0_right round_steps_simps sum.exhaust)
  then show ?case
  proof cases
    case 1
    then show ?thesis using Suc.IH [of k s'] Suc.prems by fastforce
  qed auto
qed simp

lemma steps_loop [steps]:
  assumes "\<And>s. steps ts anywhere l round_steps 0 (body s)" "length ts < n" "E \<le> 0" "\<And>x. D x \<le> 0"
  shows "steps ts P l D E (p_loop n body s)"
  unfolding steps_def
proof (intro allI impI)
  fix i assume "l \<le> i" "i \<le> length ts" "P i"
  then show "case p_loop n body s i of POk x k \<Rightarrow> i + D x \<le> k \<and> k \<le> length ts
    | PErr e k \<Rightarrow> i + E \<le> k \<and> k \<le> length ts | PPanic \<Rightarrow> False | POut \<Rightarrow> False"
    using steps_loop_rounds [of ts l body i n s, OF assms(1)] assms(2,3,4) by fastforce
qed


section \<open>Primitives\<close>

text \<open>A test for a token other than the end of the input finds it in the list.\<close>

lemma kind_in_range: "peek_kind ts i \<noteq> TkEof \<Longrightarrow> i < length ts"
  by (auto simp: peek_def EOF_TOKEN_def split: if_splits)

lemma check_in_range: "check ts k i \<Longrightarrow> discriminant k \<noteq> TkEof \<Longrightarrow> i < length ts"
  by (rule kind_in_range) (auto simp: check_def discriminant_def)

lemma ident_in_range: "is_ident (peek_kind ts i) \<Longrightarrow> i < length ts"
  by (rule kind_in_range) (auto simp: discriminant_def)

lemma type_keyword_in_range: "is_type_keyword (peek_kind ts i) \<Longrightarrow> i < length ts"
  by (rule kind_in_range) (auto simp: is_type_keyword_def)

lemma peek_at_ident_in_range: "peek_at_ident ts n i \<Longrightarrow> i + n < length ts"
  by (auto simp: peek_at_ident_def peek_at_def discriminant_def EOF_TOKEN_def split: if_splits)

lemma not_end_in_range: "\<not> is_at_end ts i \<Longrightarrow> i < length ts"
  by (rule kind_in_range) (simp add: is_at_end_def)

lemma advance_progress: "steps ts (\<lambda>i. i < length ts) 0 (\<lambda>_. 1) e (advance ts)"
  by (simp add: steps_def advance_def)

lemmas advance_steps [steps] = advance_progress [THEN steps_from] advance_progress [THEN steps_bind_from]

lemma steps_no_error:
  assumes m: "steps ts P l D E m" and none: "\<And>i e k. m i \<noteq> PErr e k"
  shows "steps ts P l D E' m"
  unfolding steps_def
proof (intro allI impI)
  fix i assume "l \<le> i" "i \<le> length ts" "P i"
  then show "case m i of POk x k \<Rightarrow> i + D x \<le> k \<and> k \<le> length ts | PErr e k \<Rightarrow> i + E' \<le> k \<and> k \<le> length ts
    | PPanic \<Rightarrow> False | POut \<Rightarrow> False"
    using stepsD [OF m] none by fastforce
qed

lemma steps_vacuous: "(\<And>i. P i \<Longrightarrow> False) \<Longrightarrow> steps ts P l D E m"
  by (auto simp: steps_def)

lemma consume_progress: "discriminant k \<noteq> TkEof \<Longrightarrow> steps ts anywhere 0 (some_steps 1) e (p_consume ts k)"
  by (auto simp: steps_def p_consume_def p_bind_def p_return_def advance_def dest: check_in_range)

lemma steps_bind_consume [steps]:
  assumes "discriminant k \<noteq> TkEof" "steps ts anywhere l D E p" "\<And>t. steps ts anywhere (l + 1) (\<lambda>y. D y - 1) (E - 1) (q t)"
  shows "steps ts P l D E (p_bind (p_consume ts k) (\<lambda>c. case c of None \<Rightarrow> p | Some t \<Rightarrow> q t))"
proof (rule steps_bind_dependent)
  show "steps ts P l (some_steps 1) E (p_consume ts k)"
    by (rule steps_weaken [OF consume_progress [OF assms(1)]]) auto
  fix c
  show "steps ts anywhere (l + some_steps 1 c) (\<lambda>y. D y - some_steps 1 c) (E - some_steps 1 c)
      (case c of None \<Rightarrow> p | Some t \<Rightarrow> q t)"
    using assms(2,3) by (cases c) simp_all
qed

text \<open>A token that may be there, whatever follows.\<close>

lemma consume_progress_any: "discriminant k \<noteq> TkEof \<Longrightarrow> steps ts anywhere 0 (\<lambda>_. 0) e (p_consume ts k)"
  by (rule steps_weaken [OF consume_progress]) auto

lemma expect_progress: "discriminant k \<noteq> TkEof \<Longrightarrow> steps ts anywhere 0 (\<lambda>_. 1) 0 (expect ts k message)"
  unfolding expect_def by (intro steps) (auto dest: check_in_range)

lemmas expect_steps [steps] = expect_progress [THEN steps_from] expect_progress [THEN steps_bind_from]

lemma expect_ident_progress: "steps ts anywhere 0 (\<lambda>_. 1) 0 (expect_ident ts message)"
  unfolding expect_ident_def by (intro steps) (auto dest: ident_in_range)

lemmas expect_ident_steps [steps] = expect_ident_progress [THEN steps_from] expect_ident_progress [THEN steps_bind_from]

lemma parse_member_name_progress: "steps ts anywhere 0 (\<lambda>_. 1) 0 (parse_member_name ts)"
proof -
  have "i < length ts" if "is_ident (peek_kind ts i) \<or> keyword_lexeme (peek_kind ts i) = Some s" for i s
    using that by (intro kind_in_range) (auto simp: discriminant_def keyword_lexeme_def)
  then show ?thesis
    by (auto simp: steps_def parse_member_name_def p_here_def p_bind_def advance_def p_return_def p_error_def
      split: option.split intro!: Suc_leI)
qed

lemma consume_keyword_progress: "steps ts anywhere 0 (\<lambda>_. 0) 0 (consume_keyword ts s)"
  unfolding consume_keyword_def by (intro steps) (auto simp: check_ident_def intro!: kind_in_range)

lemma skip_newlines_progress: "steps ts anywhere 0 (\<lambda>_. 0) e (skip_newlines ts)"
proof -
  have "steps ts anywhere 0 (\<lambda>_. 0) 0 (skip_newlines ts)"
    unfolding skip_newlines_def by (intro steps) (auto dest: check_in_range simp: discriminant_def)
  moreover have "p_loop n (\<lambda>_. p_test (check ts TkNewline) (p_bind (advance ts) (\<lambda>_. p_return (Inl ()))) (p_return (Inr ()))) ()
    i \<noteq> PErr x k" for n i x k
    by (induction n arbitrary: i) (auto simp: p_test_def p_bind_def p_return_def advance_def)
  ultimately show ?thesis
    using steps_no_error unfolding skip_newlines_def by blast
qed

lemmas skip_newlines_steps [steps] = skip_newlines_progress [THEN steps_bind_from]

lemma consume_terminator_progress: "steps ts anywhere 0 (\<lambda>_. 0) e (consume_terminator ts)"
  unfolding consume_terminator_def by (intro steps) (auto dest: check_in_range simp: discriminant_def)


lemmas parser_steps [steps] =
  parse_member_name_progress [THEN steps_from] parse_member_name_progress [THEN steps_bind_from]
  consume_keyword_progress [THEN steps_bind_from]
  consume_terminator_progress [THEN steps_from] consume_terminator_progress [THEN steps_bind_from]

lemmas in_range = check_in_range ident_in_range not_end_in_range

section \<open>Repetition\<close>

text \<open>The same two rules for a function that calls a parser at the position where it starts.\<close>

lemmas steps_tail = steps_from [where l' = l and l = l for l, OF _ _ order_refl]

lemmas steps_then = steps_bind_from [where l' = l and l = l for l, OF _ _ order_refl]

lemma separated_by_progress:
  "discriminant sep \<noteq> TkEof \<Longrightarrow> steps ts anywhere l (\<lambda>_. 1) 0 p \<Longrightarrow> steps ts anywhere l (\<lambda>_. 0) 0 (separated_by ts sep p)"
  unfolding separated_by_def
  by (intro steps steps_then [of ts anywhere l 1 0 p] consume_progress_any [THEN steps_bind_from]) (auto split: option.split)


lemma until_brace_progress:
  "steps ts anywhere l (\<lambda>_. 1) 0 p \<Longrightarrow> steps ts anywhere l (\<lambda>_. 0) 0 (until_brace ts p)"
  unfolding until_brace_def by (intro steps steps_then [of ts anywhere l 1 0 p]) auto

lemma optional_progress:
  "discriminant k \<noteq> TkEof \<Longrightarrow> steps ts anywhere (l + 1) (\<lambda>_. 0) 0 p \<Longrightarrow>
     steps ts anywhere l (\<lambda>_. 0) 0 (p_optional ts k p)"
  unfolding p_optional_def by (intro steps steps_then [of ts anywhere "l + 1" 0 0 p]) auto

lemma list_unless_progress:
  "steps ts anywhere l (\<lambda>_. 1) 0 p \<Longrightarrow> steps ts anywhere l (\<lambda>_. 0) 0 (list_unless ts k p)"
  unfolding list_unless_def
  by (intro steps separated_by_progress [THEN steps_tail]) (auto simp: discriminant_def)

lemma list_until_progress:
  assumes "steps ts anywhere l (\<lambda>_. 1) 0 p"
  shows "steps ts anywhere l (\<lambda>_. 0) 0 (list_until ts k p)"
  unfolding list_until_def by (intro steps steps_then [of ts anywhere l 1 0 p] assms) (auto simp: discriminant_def)

lemmas repetition_steps [steps] =
  separated_by_progress [THEN steps_tail] separated_by_progress [THEN steps_then]
  until_brace_progress [THEN steps_then] optional_progress [THEN steps_then]
  list_unless_progress [THEN steps_then] list_until_progress [THEN steps_then]

text \<open>Dispatch on the kind of the current token.\<close>

lemma steps_match_nil [steps]: "steps ts P l D E other \<Longrightarrow> steps ts P l D E (p_match ts [] other)"
  by simp

lemma steps_match_cons [steps]:
  "steps ts (\<lambda>i. list_ex (\<lambda>k. check ts k i) ks) l D E p \<Longrightarrow> steps ts P l D E (p_match ts arms other) \<Longrightarrow>
     steps ts P l D E (p_match ts ((ks, p) # arms) other)"
  by (simp add: steps_test)

lemma steps_match_strong:
  assumes "\<And>ks p. (ks, p) \<in> set arms \<Longrightarrow> steps ts (\<lambda>i. P i \<and> list_ex (\<lambda>k. check ts k i) ks) l D E p"
    and "steps ts (\<lambda>i. P i \<and> (\<forall>ks p. (ks, p) \<in> set arms \<longrightarrow> \<not> list_ex (\<lambda>k. check ts k i) ks)) l D E other"
  shows "steps ts P l D E (p_match ts arms other)"
  using assms
proof (induction arms arbitrary: P)
  case Nil
  then show ?case by simp
next
  case (Cons arm arms)
  obtain ks p where arm: "arm = (ks, p)" by fastforce
  have "steps ts (\<lambda>i. P i \<and> \<not> list_ex (\<lambda>k. check ts k i) ks) l D E (p_match ts arms other)"
  proof (rule Cons.IH)
    show "steps ts (\<lambda>i. (P i \<and> \<not> list_ex (\<lambda>k. check ts k i) ks) \<and> list_ex (\<lambda>k. check ts k i) ks') l D E p'"
      if "(ks', p') \<in> set arms" for ks' p'
      using that by (intro steps_weaken [OF Cons.prems(1) [of ks' p']]) auto
    show "steps ts (\<lambda>i. (P i \<and> \<not> list_ex (\<lambda>k. check ts k i) ks) \<and>
        (\<forall>ks p. (ks, p) \<in> set arms \<longrightarrow> \<not> list_ex (\<lambda>k. check ts k i) ks)) l D E other"
      by (rule steps_weaken [OF Cons.prems(2)]) (auto simp: arm)
  qed
  then show ?case
    using Cons.prems(1) [of ks p] by (simp add: arm steps_test_strong)
qed

section \<open>Type annotations\<close>

lemma steps_some_ok:
  assumes "steps ts Q l' (\<lambda>_. d) e m" "\<And>i. P i \<Longrightarrow> Q i" "l' \<le> l" "D None \<le> 0"
    "\<And>x. steps ts anywhere (l + d) (\<lambda>y. D y - d) (E - d) (f x)"
  shows "steps ts P l D E (p_some (p_ok m) f)"
  by (rule steps_some [OF steps_ok [OF steps_from [OF assms(1-3) order_refl le0]] assms(4,5)]) auto

lemma expect_some_steps [steps]:
  "discriminant k \<noteq> TkEof \<Longrightarrow> D None \<le> 0 \<Longrightarrow> steps ts anywhere (l + 1) (\<lambda>x. D x - 1) (E - 1) rest \<Longrightarrow>
    steps ts P l D E (expect_some ts k message rest)"
  unfolding expect_some_def by (intro expect_progress [THEN steps_some_ok]) auto


lemma steps_bind_option:
  assumes "steps ts Q l' (some_steps 1) e m" "\<And>i. P i \<Longrightarrow> Q i" "l' \<le> l" "E \<le> e"
    "steps ts anywhere l D E (f None)" "\<And>y. steps ts anywhere (l + 1) (\<lambda>z. D z - 1) (E - 1) (f (Some y))"
  shows "steps ts P l D E (p_bind m f)"
proof (rule steps_bind_dependent [OF steps_weaken [OF assms(1,3,2) order_refl assms(4)]])
  fix x
  show "steps ts anywhere (l + some_steps 1 x) (\<lambda>y. D y - some_steps 1 x) (E - some_steps 1 x) (f x)"
    using assms(5,6) by (cases x) simp_all
qed

lemma bind_return: "p_bind m p_return = m"
proof
  fix i
  show "p_bind m p_return i = m i" by (cases "m i") (simp_all add: p_bind_def p_return_def)
qed

lemma steps_reset_only:
  assumes "steps ts P l d E m" "D None \<le> 0" "\<And>x. D (Some x) \<le> d (Some x)"
  shows "steps ts P l D E (p_reset m)"
proof -
  have "steps ts P l D E (p_bind (p_reset m) p_return)"
    by (rule steps_reset [OF assms(1)]) (use assms in \<open>auto intro!: steps_return\<close>)
  then show ?thesis by (simp add: bind_return)
qed

lemma steps_bind_ok:
  assumes "steps ts Q l' (\<lambda>_. d) e m" "\<And>i. P i \<Longrightarrow> Q i" "l' \<le> l" "\<And>x. steps ts anywhere l D E (f x)"
  shows "steps ts P l D E (p_bind (p_ok m) f)"
  by (rule steps_bind [where d = 0, OF steps_ok [OF steps_from [OF assms(1-3) order_refl le0]]]) (use assms(4) in auto)

definition tuple_progress :: "'x option option \<Rightarrow> nat" where
  "tuple_progress x = (case x of None \<Rightarrow> 0 | Some y \<Rightarrow> some_steps 1 y)"

lemma steps_advance_twice:
  assumes "\<And>i. P i \<Longrightarrow> Suc i < length ts" "\<And>x y. steps ts anywhere (l + 2) (\<lambda>z. D z - 2) (E - 2) (f x y)"
  shows "steps ts P l D E (p_bind (advance ts) (\<lambda>x. p_bind (advance ts) (f x)))"
  unfolding steps_def
proof (intro allI impI)
  fix i assume i: "l \<le> i" "i \<le> length ts" "P i"
  then have "Suc i < length ts" using assms(1) by blast
  then show "case p_bind (advance ts) (\<lambda>x. p_bind (advance ts) (f x)) i of POk x k \<Rightarrow> i + D x \<le> k \<and> k \<le> length ts
    | PErr e k \<Rightarrow> i + E \<le> k \<and> k \<le> length ts | PPanic \<Rightarrow> False | POut \<Rightarrow> False"
    using stepsD [OF assms(2) [of "ts ! i" "ts ! Suc i"], of "Suc (Suc i)"] i by (fastforce simp: p_bind_def advance_def)
qed

text \<open>The recursive parser of types, from the position after \<open>l\<close> on.\<close>

locale type_subparser =
  fixes ts :: "token list" and l :: nat and pt :: type_parser
  assumes pt_progress: "steps ts anywhere (Suc l) (some_steps 1) 0 (pt b)"
begin

lemma pt_some:
  "Suc l \<le> l' \<Longrightarrow> E \<le> 0 \<Longrightarrow> D None \<le> 0 \<Longrightarrow> (\<And>x. steps ts anywhere (l' + 1) (\<lambda>y. D y - 1) (E - 1) (f x)) \<Longrightarrow>
     steps ts P l' D E (p_some (pt b) f)"
  by (rule steps_some [OF steps_weaken [OF pt_progress]]) auto

lemmas pt_bind = pt_progress [THEN steps_bind_option]

lemmas pt_steps = steps pt_some consume_progress_any [THEN steps_bind_from]

lemma type_arguments_progress: "steps ts anywhere l (\<lambda>_. 1) 0 (parse_type_arguments_with ts pt)"
  unfolding parse_type_arguments_with_def
  by (intro pt_steps pt_bind) (auto simp: discriminant_def intro!: steps)

lemma modified_type_progress: "steps ts (\<lambda>i. i < length ts) l (some_steps 1) 0 (parse_modified_type ts pt con)"
  unfolding parse_modified_type_def by (intro pt_steps) (auto simp: discriminant_def)

lemma wrapped_type_progress: "steps ts (\<lambda>i. i < length ts) l (some_steps 1) 0 (parse_wrapped_type ts pt con)"
  unfolding parse_wrapped_type_def by (intro pt_steps) auto

lemma raw_pointer_type_progress: "steps ts (\<lambda>i. i < length ts) l (some_steps 1) 0 (parse_raw_pointer_type ts pt)"
  unfolding parse_raw_pointer_type_def
  by (intro pt_steps steps_some [where d = 0] expect_ident_progress [THEN steps_bind_ok]) (auto simp: discriminant_def)

lemma tuple_types_progress: "Suc l \<le> l' \<Longrightarrow> steps ts anywhere l' (\<lambda>_. 0) 0 (parse_tuple_types ts pt first)"
  unfolding parse_tuple_types_def by (intro pt_steps pt_bind) (auto simp: discriminant_def)

lemma tuple_type_progress: "steps ts (\<lambda>i. i < length ts) l tuple_progress 0 (parse_tuple_type ts pt)"
  unfolding parse_tuple_type_def
  apply (rule steps_reset_only [where d = tuple_progress])
  apply (intro pt_steps pt_bind tuple_types_progress [THEN steps_then] steps_bind_dependent [where d = "some_steps 1"])
  apply (auto simp: discriminant_def tuple_progress_def intro!: steps)
  done

lemma bracketed_type_progress: "Suc l \<le> l' \<Longrightarrow> steps ts anywhere l' (some_steps 1) 0 (parse_bracketed_type ts pt message)"
  unfolding parse_bracketed_type_def by (intro pt_steps) (auto simp: discriminant_def)

lemmas bracketed_some = steps_some [OF bracketed_type_progress]

lemma element_type_progress: "steps ts anywhere l (\<lambda>_. 0) 0 (parse_element_type ts pt message con)"
  unfolding parse_element_type_def
  by (intro pt_steps bracketed_type_progress [THEN steps_weaken, THEN steps_some]) (auto simp: discriminant_def)

lemma keyword_type_progress: "steps ts (\<lambda>i. i < length ts) l (some_steps 1) 0 (parse_keyword_type ts pt)"
  unfolding parse_keyword_type_def
  apply (intro pt_steps element_type_progress [THEN steps_from] bracketed_type_progress [THEN steps_weaken, THEN steps_some])
  apply (auto simp: discriminant_def)
  done

lemma chan_type_progress: "steps ts (\<lambda>i. i < length ts) l (some_steps 1) 0 (parse_chan_type ts pt)"
  unfolding parse_chan_type_def
  apply (intro pt_steps bracketed_type_progress [THEN steps_weaken, THEN steps_some])
  apply (auto simp: discriminant_def)
  done

lemma applied_type_progress: "steps ts anywhere l (\<lambda>_. 0) 0 (applied_type ts pt tok con)"
  unfolding applied_type_def
  by (intro pt_steps type_arguments_progress [THEN steps_some_ok]) auto

lemma dyn_type_progress: "steps ts (\<lambda>i. Suc i < length ts) l (some_steps 1) 0 (parse_dyn_type ts pt)"
  unfolding parse_dyn_type_def
  by (intro steps_advance_twice pt_steps applied_type_progress [THEN steps_from])
    (auto intro: le_trans [OF some_steps_simps(3)])

lemma named_type_progress: "steps ts (\<lambda>i. i < length ts) l (some_steps 1) 0 (parse_named_type ts pt)"
  unfolding parse_named_type_def
  apply (intro pt_steps applied_type_progress [THEN steps_from] expect_ident_progress [THEN steps_some_ok])
  apply (auto simp: discriminant_def)
  done

lemma type_body_progress: "steps ts anywhere l (some_steps 1) 0 (parse_type_body ts pt b)"
  unfolding parse_type_body_def
  by (intro steps_test steps_bind_dependent [where d = tuple_progress] steps_option steps_return
    wrapped_type_progress [THEN steps_weaken] modified_type_progress [THEN steps_weaken]
    raw_pointer_type_progress [THEN steps_weaken] tuple_type_progress [THEN steps_weaken]
    keyword_type_progress [THEN steps_weaken] chan_type_progress [THEN steps_weaken]
    dyn_type_progress [THEN steps_weaken] named_type_progress [THEN steps_weaken])
    (auto simp: tuple_progress_def intro: kind_in_range type_keyword_in_range dest: peek_at_ident_in_range)

end

lemma steps_beyond: "length ts < l \<Longrightarrow> steps ts P l D E m"
  by (simp add: steps_def)

lemma type_fuel_progress: "length ts < l + n \<Longrightarrow> steps ts anywhere l (some_steps 1) 0 (parse_type_fuel ts n b)"
proof (induction n arbitrary: l b)
  case (Suc n)
  have "type_subparser ts l (parse_type_fuel ts n)"
    by unfold_locales (rule Suc.IH, use Suc.prems in simp)
  then show ?case unfolding parse_type_fuel.simps by (rule type_subparser.type_body_progress)
qed (simp add: steps_beyond)

lemma type_annotation_progress: "steps ts anywhere 0 (some_steps 1) 0 (parse_type_annotation ts b)"
  unfolding parse_type_annotation_def by (rule type_fuel_progress) simp

text \<open>The type parser of the program satisfies the contract from the first token on.\<close>

interpretation type_annotations: type_subparser ts 0 "parse_type_annotation ts"
  by unfold_locales (rule steps_weaken [OF type_annotation_progress]; simp)

lemma type_arguments_of_call_progress: "steps ts anywhere 0 (\<lambda>_. 1) 0 (parse_type_arguments ts)"
  unfolding parse_type_arguments_def by (rule type_annotations.type_arguments_progress)

lemma steps_state: "(\<And>b. steps ts P l D E (m b)) \<Longrightarrow> steps ts P l D E (\<lambda>i. m (g i) i)"
  by (simp add: steps_def)

lemma declaration_type_progress: "steps ts anywhere 0 (\<lambda>_. 0) 0 (parse_declaration_type_annotation ts)"
  unfolding parse_declaration_type_annotation_def [abs_def]
  by (rule steps_state, rule steps_weaken [OF type_annotation_progress]) simp_all

lemma require_type_progress: "steps ts anywhere 0 (\<lambda>_. 1) 0 (require_type ts message)"
  unfolding require_type_def by (intro type_annotation_progress [THEN steps_bind_option]) (auto intro!: steps)

lemmas type_steps [steps] =
  type_arguments_of_call_progress [THEN steps_bind_from] declaration_type_progress [THEN steps_bind_from]
  require_type_progress [THEN steps_from] require_type_progress [THEN steps_bind_from]

end
