(* ===== verification/Parser_Grammar.thy ===== *)
theory Parser_Grammar
  imports Parser_Progress
begin

text \<open>
  A grammar of expressions in levels of precedence, and that the Pratt parser of
  \<open>crates/ntsc-parser/src/lib.rs\<close> implements it. \<open>grammar p e u\<close> states that the tokens \<open>u\<close> are an expression
  \<open>e\<close> of level \<open>p\<close>: a binary operator takes a left operand of its own level or a higher one and a right operand
  of a higher level, so it associates to the left; an assignment associates to the right.
\<close>

section \<open>The grammar\<close>

definition unary_operators :: "token_kind list" where
  "unary_operators = [TkMinus, TkBang, TkTilde, TkPlusPlus, TkMinusMinus]"

inductive grammar :: "precedence \<Rightarrow> expr \<Rightarrow> token list \<Rightarrow> bool"
and arguments :: "expr list \<Rightarrow> token list \<Rightarrow> bool" where
  g_number: "kind t = TkNumberLiteral s \<Longrightarrow> grammar PrecCall (ELiteral (LNumber s) (tspan t)) [t]"
| g_string: "kind t = TkStringLiteral s \<Longrightarrow> grammar PrecCall (ELiteral (LString s) (tspan t)) [t]"
| g_true: "kind t = TkTrue \<Longrightarrow> grammar PrecCall (ELiteral (LBool True) (tspan t)) [t]"
| g_false: "kind t = TkFalse \<Longrightarrow> grammar PrecCall (ELiteral (LBool False) (tspan t)) [t]"
| g_nil: "kind t = TkNil \<Longrightarrow> grammar PrecCall (ELiteral LNil (tspan t)) [t]"
| g_variable: "is_ident (kind t) \<Longrightarrow> grammar PrecCall (EVariable t) [t]"
| g_this: "kind t = TkThis \<Longrightarrow> grammar PrecCall (EThis t) [t]"
| g_grouping: "grammar p e u \<Longrightarrow> kind a = TkLeftParen \<Longrightarrow> kind z = TkRightParen \<Longrightarrow>
    grammar PrecCall (EGrouping e (tspan a) (tspan z)) (a # u @ [z])"
| g_member: "grammar PrecCall e u \<Longrightarrow> kind dot = TkDot \<Longrightarrow> is_ident (kind name) \<Longrightarrow>
    grammar PrecCall (EMember e name) (u @ [dot, name])"
| g_index: "grammar PrecCall e u \<Longrightarrow> grammar p x v \<Longrightarrow> kind a = TkLeftBracket \<Longrightarrow> kind z = TkRightBracket \<Longrightarrow>
    grammar PrecCall (EIndexGet e x) (u @ a # v @ [z])"
| g_call: "grammar PrecCall e u \<Longrightarrow> arguments es v \<Longrightarrow> kind a = TkLeftParen \<Longrightarrow> kind z = TkRightParen \<Longrightarrow>
    grammar PrecCall (ECall e (tspan a) es) (u @ a # v @ [z])"
| g_call_empty: "grammar PrecCall e u \<Longrightarrow> kind a = TkLeftParen \<Longrightarrow> kind z = TkRightParen \<Longrightarrow>
    grammar PrecCall (ECall e (tspan a) []) (u @ [a, z])"
| g_postfix: "grammar PrecCall e u \<Longrightarrow> kind op \<in> {TkPlusPlus, TkMinusMinus} \<Longrightarrow>
    grammar PrecCall (EPostfixUnary op e) (u @ [op])"
| g_unary: "grammar p e u \<Longrightarrow> PrecUnary \<le> p \<Longrightarrow> kind op \<in> set unary_operators \<Longrightarrow> grammar PrecUnary (EUnary op e) (op # u)"
| g_binary: "grammar p l u \<Longrightarrow> grammar q r v \<Longrightarrow> kind op \<in> set binary_operators \<Longrightarrow> b = kind_precedence (kind op) \<Longrightarrow>
    b \<le> p \<Longrightarrow> b < q \<Longrightarrow> grammar b (EBinary l op r) (u @ op # v)"
| g_assign: "is_ident (kind name) \<Longrightarrow> kind eq = TkEqual \<Longrightarrow> grammar p e u \<Longrightarrow>
    grammar PrecAssignment (EAssign name e) (name # eq # u)"
| a_one: "grammar p e u \<Longrightarrow> arguments [e] u"
| a_more: "grammar p e u \<Longrightarrow> arguments es v \<Longrightarrow> kind comma = TkComma \<Longrightarrow> arguments (e # es) (u @ comma # v)"

text \<open>The tokens \<open>u\<close> stand in \<open>ts\<close> from the position \<open>i\<close> on.\<close>

definition occurs :: "token list \<Rightarrow> nat \<Rightarrow> token list \<Rightarrow> bool" where
  "occurs ts i u \<longleftrightarrow> (\<exists>rest. drop i ts = u @ rest)"

lemma occurs_Nil [simp]: "occurs ts i []"
  by (simp add: occurs_def)

lemma occurs_Cons [simp]: "occurs ts i (x # u) \<longleftrightarrow> i < length ts \<and> ts ! i = x \<and> occurs ts (Suc i) u"
proof (cases "i < length ts")
  case True
  then show ?thesis by (auto simp: occurs_def Cons_nth_drop_Suc [symmetric])
qed (simp add: occurs_def)

lemma occurs_append [simp]: "occurs ts i (u @ v) \<longleftrightarrow> occurs ts i u \<and> occurs ts (i + length u) v"
  by (induction u arbitrary: i) auto

lemma occurs_length: "occurs ts i u \<Longrightarrow> u \<noteq> [] \<Longrightarrow> i + length u \<le> length ts"
  unfolding occurs_def by (auto dest!: arg_cong [where f = length] simp: neq_Nil_conv)

section \<open>Steps of the parser on known tokens\<close>

lemma peek_here [simp]: "i < length ts \<Longrightarrow> peek ts i = ts ! i"
  by (simp add: peek_def)

lemma advance_here [simp]: "i < length ts \<Longrightarrow> advance ts i = POk (ts ! i) (Suc i)"
  by (simp add: advance_def)

lemma expect_here: "i < length ts \<Longrightarrow> discriminant (kind (ts ! i)) = discriminant k \<Longrightarrow> expect ts k message i = POk (ts ! i) (Suc i)"
  by (simp add: expect_def p_test_def check_def)

text \<open>Without a \<open>>\<close> no identifier looks like the name of a generic call.\<close>

definition no_greater :: "token list \<Rightarrow> bool" where
  "no_greater ts \<longleftrightarrow> list_all (\<lambda>t. kind t \<noteq> TkGreater) ts"

lemma no_generic_scan: "no_greater ts \<Longrightarrow> \<not> generic_call_scan d ts"
  by (induction d ts rule: generic_call_scan.induct) (auto simp: no_greater_def)

lemma no_generic_call: "no_greater ts \<Longrightarrow> \<not> looks_like_generic_call ts i"
proof -
  assume "no_greater ts"
  then have "no_greater (drop i ts)" by (auto simp: no_greater_def list_all_iff dest: in_set_dropD)
  then show ?thesis by (simp add: looks_like_generic_call_def no_generic_scan)
qed

lemma prefix_literal:
  "i < length ts \<Longrightarrow> kind (ts ! i) = TkNumberLiteral s \<Longrightarrow> parse_prefix ts pe ps i = POk (ELiteral (LNumber s) (tspan (ts ! i))) (Suc i)"
  "i < length ts \<Longrightarrow> kind (ts ! i) = TkStringLiteral s \<Longrightarrow> parse_prefix ts pe ps i = POk (ELiteral (LString s) (tspan (ts ! i))) (Suc i)"
  "i < length ts \<Longrightarrow> kind (ts ! i) = TkTrue \<Longrightarrow> parse_prefix ts pe ps i = POk (ELiteral (LBool True) (tspan (ts ! i))) (Suc i)"
  "i < length ts \<Longrightarrow> kind (ts ! i) = TkFalse \<Longrightarrow> parse_prefix ts pe ps i = POk (ELiteral (LBool False) (tspan (ts ! i))) (Suc i)"
  "i < length ts \<Longrightarrow> kind (ts ! i) = TkNil \<Longrightarrow> parse_prefix ts pe ps i = POk (ELiteral LNil (tspan (ts ! i))) (Suc i)"
  "i < length ts \<Longrightarrow> kind (ts ! i) = TkThis \<Longrightarrow> parse_prefix ts pe ps i = POk (EThis (ts ! i)) (Suc i)"
  by (simp_all add: parse_prefix_def p_test_def check_def discriminant_def parse_literal_def p_bind_def p_return_def lexeme_def)


lemma prefix_identifier:
  assumes "i < length ts" "is_ident (kind (ts ! i))" "no_greater ts" "peek_kind ts (Suc i) \<noteq> TkLeftBrace"
  shows "parse_prefix ts pe ps i = POk (EVariable (ts ! i)) (Suc i)"
proof -
  have "check ts k i \<longleftrightarrow> discriminant k = TkIdentifier []" for k
    using assms(1,2) by (auto simp: check_def)
  moreover have "\<not> check ts TkLeftBrace (Suc i)"
    using assms(4) by (cases "peek_kind ts (Suc i)") (simp_all add: check_def discriminant_def)
  ultimately show ?thesis
    using assms(1) no_generic_call [OF assms(3)]
    by (simp add: parse_prefix_def p_test_def discriminant_def parse_identifier_def p_bind_def p_return_def)
qed

lemma prefix_unary:
  assumes "i < length ts" "kind (ts ! i) \<in> set unary_operators" "pe PrecUnary (Suc i) = POk e k"
  shows "parse_prefix ts pe ps i = POk (EUnary (ts ! i) e) k"
proof -
  consider "kind (ts ! i) = TkMinus" | "kind (ts ! i) = TkBang" | "kind (ts ! i) = TkTilde" | "kind (ts ! i) = TkPlusPlus"
    | "kind (ts ! i) = TkMinusMinus"
    using assms(2) by (auto simp: unary_operators_def)
  then have "parse_prefix ts pe ps i = parse_unary ts pe EUnary i"
    by cases (simp_all add: parse_prefix_def p_test_def check_def discriminant_def assms(1))
  then show ?thesis using assms(1,3) by (simp add: parse_unary_def p_bind_def p_return_def)
qed

lemma prefix_grouping:
  assumes "i < length ts" "kind (ts ! i) = TkLeftParen" "pe PrecAssignment (Suc i) = POk e k" "k < length ts"
    "kind (ts ! k) = TkRightParen"
  shows "parse_prefix ts pe ps i = POk (EGrouping e (tspan (ts ! i)) (tspan (ts ! k))) (Suc k)"
  using assms by (simp add: parse_prefix_def p_test_def check_def discriminant_def parse_parenthesised_def
    p_bind_def p_return_def expect_here)

lemma infix_binary:
  assumes "i < length ts" "kind (ts ! i) \<in> set binary_operators"
    "pe (next_higher (kind_precedence (kind (ts ! i)))) (Suc i) = POk r k"
  shows "parse_infix ts pe left i = POk (EBinary left (ts ! i) r) k"
proof -
  have "list_ex (\<lambda>k. check ts k i) binary_operators"
    using assms(1,2) by (auto simp: list_ex_iff check_def)
  then show ?thesis
    using assms(1,3) by (simp add: parse_infix_def p_test_def parse_binary_def p_here_def p_bind_def p_return_def)
qed

lemma infix_other:
  "i < length ts \<Longrightarrow> kind (ts ! i) \<in> {TkPlusPlus, TkMinusMinus} \<Longrightarrow> parse_infix ts pe left i = POk (EPostfixUnary (ts ! i) left) (Suc i)"
  "i < length ts \<Longrightarrow> kind (ts ! i) = TkDot \<Longrightarrow> parse_infix ts pe left i = parse_dot ts left i"
  "i < length ts \<Longrightarrow> kind (ts ! i) = TkLeftParen \<Longrightarrow> parse_infix ts pe left i = parse_call ts pe left i"
  "i < length ts \<Longrightarrow> kind (ts ! i) = TkLeftBracket \<Longrightarrow> parse_infix ts pe left i = parse_index ts pe left i"
  "i < length ts \<Longrightarrow> kind (ts ! i) = TkEqual \<Longrightarrow> parse_infix ts pe left i = parse_assignment ts pe left i"
  by (auto simp: parse_infix_def p_test_def check_def discriminant_def binary_operators_def p_bind_def p_return_def)

text \<open>A round of the loop, and its end.\<close>

lemma infix_loop_round:
  assumes "i < length ts" "kind (ts ! i) \<noteq> TkEof" "prec \<le> kind_precedence (kind (ts ! i))" "parse_infix ts pe left i = POk e k"
  shows "infix_loop ts pe prec (Suc n) left i = infix_loop ts pe prec n e k"
  using assms by (simp add: infix_loop_def p_test_def is_at_end_def infix_precedence_def p_bind_def p_return_def)

lemma infix_loop_stop:
  assumes "kind_precedence (peek_kind ts i) < prec"
  shows "infix_loop ts pe prec (Suc n) left i = POk left i"
proof -
  have "\<not> prec \<le> kind_precedence (peek_kind ts i)" using assms by simp
  then show ?thesis by (simp add: infix_loop_def p_test_def infix_precedence_def p_return_def)
qed

lemma dot_member:
  assumes "Suc i < length ts" "is_ident (kind (ts ! Suc i))"
  shows "parse_dot ts left i = POk (EMember left (ts ! Suc i)) (Suc (Suc i))"
  using assms
  by (simp add: parse_dot_def p_bind_def p_here_def parse_member_def parse_member_name_def p_return_def)

lemma index_closed:
  assumes "i < length ts" "pe PrecAssignment (Suc i) = POk x k" "k < length ts" "kind (ts ! k) = TkRightBracket"
  shows "parse_index ts pe left i = POk (EIndexGet left x) (Suc k)"
  using assms by (simp add: parse_index_def p_bind_def p_return_def expect_here)

lemma assignment_variable:
  assumes "i < length ts" "pe PrecAssignment (Suc i) = POk x k"
  shows "parse_assignment ts pe (EVariable t) i = POk (EAssign t x) k"
  using assms by (simp add: parse_assignment_def p_bind_def p_return_def)

section \<open>Shape of derivations\<close>

lemma binary_level: "k \<in> set binary_operators \<Longrightarrow> PrecTernary < kind_precedence k \<and> kind_precedence k < PrecUnary"
  by (auto simp: binary_operators_def kind_precedence_def less_precedence_def)

lemma binary_kinds: "k \<in> set binary_operators \<Longrightarrow> k \<noteq> TkLeftBrace \<and> k \<noteq> TkEof"
  by (auto simp: binary_operators_def)

lemma assignment_least: "p \<noteq> PrecNone \<Longrightarrow> PrecAssignment \<le> p"
  by (cases p) (simp_all add: less_eq_precedence_def)

lemma call_greatest: "p \<le> PrecCall"
  by (cases p) (simp_all add: less_eq_precedence_def)

lemma next_higher_least: "p < q \<Longrightarrow> next_higher p \<le> q"
  by (cases p; cases q) (simp_all add: less_eq_precedence_def less_precedence_def next_higher_def)

lemma next_higher_greater: "p \<noteq> PrecCall \<Longrightarrow> p < next_higher p"
  by (cases p) (simp_all add: less_precedence_def next_higher_def)

lemma grammar_level: "grammar p e u \<Longrightarrow> p \<noteq> PrecNone"
  by (cases rule: grammar.cases) (auto dest: binary_level simp: less_precedence_def)

lemma grammar_first:
  "grammar p e u \<Longrightarrow> \<exists>t v. u = t # v \<and> kind t \<noteq> TkDotDotDot \<and> kind t \<noteq> TkRightParen"
  "arguments es v \<Longrightarrow> \<exists>t w. v = t # w \<and> kind t \<noteq> TkDotDotDot \<and> kind t \<noteq> TkRightParen"
  by (induction rule: grammar_arguments.inducts) (auto simp: discriminant_def unary_operators_def)

end
