(* ===== verification/Parser_Pratt.thy ===== *)
theory Parser_Pratt
  imports Parser_Grammar
begin

text \<open>
  The Pratt parser implements the grammar: on the tokens of a derivation, followed by a token that binds less
  than the level asked for, it returns the tree of the derivation.
\<close>

definition parse_from :: "token list \<Rightarrow> nat \<Rightarrow> precedence \<Rightarrow> nat \<Rightarrow> expr parser" where
  "parse_from ts n prec m =
     p_bind (parse_prefix ts (parse_precedence_fuel ts n) (parse_statement_fuel ts n))
       (infix_loop ts (parse_precedence_fuel ts n) prec m)"

lemma parse_precedence_from: "parse_precedence_fuel ts (Suc n) prec = parse_from ts n prec (Suc (length ts))"
  by (simp add: parse_precedence_body_def parse_from_def)

text \<open>What may follow the tokens of an expression of level \<open>p\<close> while it is parsed.\<close>

definition may_follow :: "precedence \<Rightarrow> token_kind \<Rightarrow> bool" where
  "may_follow p k \<longleftrightarrow>
     kind_precedence k \<le> p \<and> (p = PrecAssignment \<longrightarrow> kind_precedence k = PrecNone) \<and> k \<noteq> TkLeftBrace"

text \<open>The parser has read the expression and goes on with its loop, with enough rounds left.\<close>

definition reads :: "precedence \<Rightarrow> expr \<Rightarrow> token list \<Rightarrow> bool" where
  "reads p e u \<longleftrightarrow>
     (\<forall>ts i prec n m. occurs ts i u \<longrightarrow> no_greater ts \<longrightarrow> prec \<noteq> PrecNone \<longrightarrow> prec \<le> p \<longrightarrow>
        may_follow p (peek_kind ts (i + length u)) \<longrightarrow> length u \<le> n \<longrightarrow> length u \<le> m \<longrightarrow>
        (\<exists>m'\<ge>m - length u. parse_from ts n prec (Suc m) i =
           infix_loop ts (parse_precedence_fuel ts n) prec (Suc m') e (i + length u)))"

lemma readsD:
  assumes "reads p e u" "occurs ts i u" "no_greater ts" "prec \<noteq> PrecNone" "prec \<le> p"
    "may_follow p (peek_kind ts (i + length u))" "length u \<le> n" "length u \<le> m"
  obtains m' where "m - length u \<le> m'"
    "parse_from ts n prec (Suc m) i = infix_loop ts (parse_precedence_fuel ts n) prec (Suc m') e (i + length u)"
  using assms unfolding reads_def by blast

lemma reads_complete:
  assumes "reads p e u" "occurs ts i u" "no_greater ts" "prec \<noteq> PrecNone" "prec \<le> p" "u \<noteq> []"
    "kind_precedence (peek_kind ts (i + length u)) < prec" "peek_kind ts (i + length u) \<noteq> TkLeftBrace" "length u < n"
  shows "parse_precedence_fuel ts n prec i = POk e (i + length u)"
proof -
  obtain n' where n: "n = Suc n'" "length u \<le> n'" using assms(9) by (cases n) auto
  have none: "p = PrecAssignment \<longrightarrow> kind_precedence (peek_kind ts (i + length u)) = PrecNone"
    using assms(4,5,7) assignment_least [of "kind_precedence (peek_kind ts (i + length u))"] by force
  then have "may_follow p (peek_kind ts (i + length u))"
    using assms(5,7,8) unfolding may_follow_def by (auto intro: order_trans [OF less_imp_le])
  moreover have "length u \<le> length ts" using occurs_length [OF assms(2,6)] by simp
  ultimately obtain m' where
    "parse_from ts n' prec (Suc (length ts)) i = infix_loop ts (parse_precedence_fuel ts n') prec (Suc m') e (i + length u)"
    using readsD [OF assms(1-5), of n' "length ts"] n(2) by blast
  then show ?thesis using infix_loop_stop [OF assms(7)] by (simp add: n parse_precedence_from del: parse_precedence_fuel.simps)
qed

text \<open>An expression that begins with a prefix and is read by it.\<close>

lemma reads_prefix:
  assumes "\<And>ts i n. occurs ts i u \<Longrightarrow> no_greater ts \<Longrightarrow> may_follow p (peek_kind ts (i + length u)) \<Longrightarrow> length u \<le> n \<Longrightarrow>
    parse_prefix ts (parse_precedence_fuel ts n) (parse_statement_fuel ts n) i = POk e (i + length u)"
  shows "reads p e u"
  unfolding reads_def
proof (intro allI impI exI conjI)
  fix ts i prec n m
  assume "occurs ts i u" "no_greater ts" "may_follow p (peek_kind ts (i + length u))" "length u \<le> n"
  then show "parse_from ts n prec (Suc m) i = infix_loop ts (parse_precedence_fuel ts n) prec (Suc m) e (i + length u)"
    using assms by (simp add: parse_from_def p_bind_def)
qed simp

text \<open>An expression that a round of the loop adds to one that has been read.\<close>

lemma reads_infix:
  assumes left: "reads q l u" "p \<le> q" and op: "kind op \<noteq> TkEof" "p = kind_precedence (kind op)" "may_follow q (kind op)"
    and round: "\<And>ts i n. occurs ts i (op # v) \<Longrightarrow> no_greater ts \<Longrightarrow> may_follow p (peek_kind ts (Suc i + length v)) \<Longrightarrow>
      Suc (length v) < n \<Longrightarrow> parse_infix ts (parse_precedence_fuel ts n) l i = POk e (Suc i + length v)"
    and "u \<noteq> []"
  shows "reads p e (u @ op # v)"
  unfolding reads_def
proof (intro allI impI)
  fix ts i prec n m
  assume occ: "occurs ts i (u @ op # v)" and ng: "no_greater ts" and prec: "prec \<noteq> PrecNone" "prec \<le> p"
    and follow: "may_follow p (peek_kind ts (i + length (u @ op # v)))"
    and n: "length (u @ op # v) \<le> n" and m: "length (u @ op # v) \<le> m"
  let ?pe = "parse_precedence_fuel ts n" and ?k = "i + length u"
  have here: "?k < length ts" "ts ! ?k = op" and ou: "occurs ts i u" using occ by auto
  obtain m' where m': "m - length u \<le> m'" "parse_from ts n prec (Suc m) i = infix_loop ts ?pe prec (Suc m') l ?k"
    by (rule readsD [OF left(1) ou ng prec(1), of n m]) (use left(2) prec(2) op(3) here n m in \<open>auto intro: order_trans\<close>)
  obtain m'' where m'': "m' = Suc m''" "m - length (u @ op # v) \<le> m''" using m'(1) m by (cases m') auto
  have "parse_infix ts ?pe l ?k = POk e (Suc ?k + length v)"
    using round [of ts ?k n] occ ng follow n \<open>u \<noteq> []\<close> by (cases u) (auto simp: add.assoc)
  then have "infix_loop ts ?pe prec (Suc m') l ?k = infix_loop ts ?pe prec m' e (Suc ?k + length v)"
    using here op prec(2) by (intro infix_loop_round) auto
  then show "\<exists>m'\<ge>m - length (u @ op # v). parse_from ts n prec (Suc m) i = infix_loop ts ?pe prec (Suc m') e (i + length (u @ op # v))"
    using m' m'' by (intro exI [of _ m'']) (simp add: add.assoc)
qed


section \<open>Every derivation is read\<close>

text \<open>A part that is closed by a token that does not bind is parsed to its end.\<close>

lemma reads_closed:
  assumes "reads p e u" "grammar p e u" "occurs ts i u" "no_greater ts" "length u < n"
    "kind_precedence (peek_kind ts (i + length u)) = PrecNone" "peek_kind ts (i + length u) \<noteq> TkLeftBrace"
  shows "parse_precedence_fuel ts n PrecAssignment i = POk e (i + length u)"
  by (rule reads_complete [OF assms(1,3,4)])
    (use assms grammar_first(1) [OF assms(2)] assignment_least [OF grammar_level [OF assms(2)]] in
      \<open>auto simp: less_precedence_def\<close>)

definition reads_arguments :: "expr list \<Rightarrow> token list \<Rightarrow> bool" where
  "reads_arguments es u \<longleftrightarrow>
     (\<forall>ts i n m xs. occurs ts i u \<longrightarrow> no_greater ts \<longrightarrow> peek_kind ts (i + length u) = TkRightParen \<longrightarrow>
        length u < n \<longrightarrow> length u < m \<longrightarrow>
        p_loop m (\<lambda>xs. p_bind (parse_argument ts (parse_precedence_fuel ts n)) (\<lambda>x. p_bind (p_consume ts TkComma) (\<lambda>c.
          p_return (case c of None \<Rightarrow> Inr (xs @ [x]) | Some _ \<Rightarrow> Inl (xs @ [x]))))) xs i = POk (xs @ es) (i + length u))"

lemma argument_read:
  assumes "reads p e u" "grammar p e u" "occurs ts i u" "no_greater ts" "length u < n"
    "kind_precedence (peek_kind ts (i + length u)) = PrecNone" "peek_kind ts (i + length u) \<noteq> TkLeftBrace"
  shows "parse_argument ts (parse_precedence_fuel ts n) i = POk e (i + length u)"
proof -
  obtain t v where "u = t # v" "kind t \<noteq> TkDotDotDot" using grammar_first(1) [OF assms(2)] by blast
  then have "\<not> check ts TkDotDotDot i"
    using assms(3) by (cases "kind t") (auto simp: check_def discriminant_def)
  then show ?thesis using reads_closed [OF assms] by (simp add: parse_argument_def p_test_def)
qed

lemma kind_precedence_none [simp]:
  "kind_precedence TkComma = PrecNone" "kind_precedence TkRightParen = PrecNone" "kind_precedence TkRightBracket = PrecNone"
  "kind_precedence TkEqual = PrecAssignment" "kind_precedence TkDot = PrecCall" "kind_precedence TkLeftParen = PrecCall"
  "kind_precedence TkLeftBracket = PrecCall" "kind_precedence TkPlusPlus = PrecCall" "kind_precedence TkMinusMinus = PrecCall"
  by (simp_all add: kind_precedence_def)

lemma reads_one:
  assumes "reads p e u" "grammar p e u"
  shows "reads_arguments [e] u"
  unfolding reads_arguments_def
proof (intro allI impI)
  fix ts i n m xs
  assume a: "occurs ts i u" "no_greater ts" "peek_kind ts (i + length u) = TkRightParen" "length u < n" "length u < m"
  have "parse_argument ts (parse_precedence_fuel ts n) i = POk e (i + length u)"
    by (rule argument_read [OF assms a(1,2,4)]) (simp_all add: a(3))
  then show "p_loop m (\<lambda>xs. p_bind (parse_argument ts (parse_precedence_fuel ts n)) (\<lambda>x. p_bind (p_consume ts TkComma) (\<lambda>c.
      p_return (case c of None \<Rightarrow> Inr (xs @ [x]) | Some _ \<Rightarrow> Inl (xs @ [x]))))) xs i = POk (xs @ [e]) (i + length u)"
    using a(3,5) by (cases m) (simp_all add: p_bind_def p_consume_def check_def discriminant_def p_return_def)
qed

lemma reads_more:
  assumes "reads p e u" "grammar p e u" "reads_arguments es v" "kind comma = TkComma"
  shows "reads_arguments (e # es) (u @ comma # v)"
  unfolding reads_arguments_def
proof (intro allI impI)
  fix ts i n m xs
  assume a: "occurs ts i (u @ comma # v)" "no_greater ts" "peek_kind ts (i + length (u @ comma # v)) = TkRightParen"
    "length (u @ comma # v) < n" "length (u @ comma # v) < m"
  obtain m' where m: "m = Suc m'" "length v < m'" using a(5) by (cases m) auto
  have here: "i + length u < length ts" "ts ! (i + length u) = comma" "occurs ts i u" using a(1) by auto
  have "parse_argument ts (parse_precedence_fuel ts n) i = POk e (i + length u)"
    by (rule argument_read [OF assms(1,2) here(3) a(2)]) (use a here assms(4) in simp_all)
  moreover have "p_loop m' (\<lambda>xs. p_bind (parse_argument ts (parse_precedence_fuel ts n)) (\<lambda>x. p_bind (p_consume ts TkComma) (\<lambda>c.
      p_return (case c of None \<Rightarrow> Inr (xs @ [x]) | Some _ \<Rightarrow> Inl (xs @ [x]))))) (xs @ [e]) (Suc (i + length u)) =
      POk ((xs @ [e]) @ es) (Suc (i + length u) + length v)"
    by (rule assms(3) [unfolded reads_arguments_def, rule_format]) (use a m in \<open>simp_all add: add.assoc\<close>)
  ultimately show "p_loop m (\<lambda>xs. p_bind (parse_argument ts (parse_precedence_fuel ts n)) (\<lambda>x. p_bind (p_consume ts TkComma) (\<lambda>c.
      p_return (case c of None \<Rightarrow> Inr (xs @ [x]) | Some _ \<Rightarrow> Inl (xs @ [x]))))) xs i =
      POk (xs @ e # es) (i + length (u @ comma # v))"
    using here assms(4) by (simp add: m p_bind_def p_consume_def check_def discriminant_def p_return_def)
qed

lemma call_closed:
  assumes "reads_arguments es v" "arguments es v" "occurs ts i (a # v @ [z])" "no_greater ts" "length v < n"
    "kind z = TkRightParen"
  shows "parse_call ts (parse_precedence_fuel ts n) l i = POk (ECall l (tspan a) es) (Suc (Suc i) + length v)"
proof -
  obtain t w where v: "v = t # w" "kind t \<noteq> TkRightParen" using grammar_first(2) [OF assms(2)] by blast
  have first: "\<not> check ts TkRightParen (Suc i)"
    using assms(3) v by (cases "kind t") (auto simp: check_def discriminant_def)
  have z: "Suc i + length v < length ts" "ts ! (Suc i + length v) = z" using assms(3) by auto
  have "length v < Suc (length ts)" using z by simp
  then have "separated_by ts TkComma (parse_argument ts (parse_precedence_fuel ts n)) (Suc i) = POk es (Suc i + length v)"
    using assms(1) [unfolded reads_arguments_def, rule_format, of ts "Suc i" n "Suc (length ts)" "[]"] assms z
    by (simp add: separated_by_def)
  then show ?thesis
    using assms(3,6) first z by (simp add: parse_call_def p_bind_def list_unless_def p_test_def expect_here p_return_def)
qed


lemma call_empty:
  assumes "occurs ts i [a, z]" "kind z = TkRightParen"
  shows "parse_call ts pe l i = POk (ECall l (tspan a) []) (Suc (Suc i))"
  using assms by (simp add: parse_call_def p_bind_def list_unless_def p_test_def check_def discriminant_def expect_here p_return_def)

lemma may_follow_call: "kind_precedence k \<noteq> PrecNone \<Longrightarrow> k \<noteq> TkLeftBrace \<Longrightarrow> may_follow PrecCall k"
  by (simp add: may_follow_def call_greatest)

lemma grammar_reads:
  "grammar p e u \<Longrightarrow> reads p e u"
  "arguments es v \<Longrightarrow> reads_arguments es v"
proof (induction rule: grammar_arguments.inducts)
  case (g_variable t)
  then show ?case by (intro reads_prefix) (simp add: prefix_identifier may_follow_def)
next
  case (g_grouping p e u a z)
  show ?case
  proof (rule reads_prefix, goal_cases)
    case (1 ts i n)
    have "parse_precedence_fuel ts n PrecAssignment (Suc i) = POk e (Suc i + length u)"
      by (rule reads_closed [OF g_grouping.IH g_grouping.hyps(1)]) (use 1 g_grouping.hyps in simp_all)
    then show ?case using 1 g_grouping.hyps by (subst prefix_grouping) auto
  qed
next
  case (g_member e u dot name)
  show ?case
    by (rule reads_infix [OF g_member.IH]) (use g_member.hyps grammar_first(1) [OF g_member.hyps(1)] in
      \<open>auto simp: may_follow_call infix_other dot_member\<close>)
next
  case (g_index e u p x v a z)
  show ?case
  proof (rule reads_infix [OF g_index.IH(1)], goal_cases)
    case (5 ts i n)
    have "parse_precedence_fuel ts n PrecAssignment (Suc i) = POk x (Suc i + length v)"
      by (rule reads_closed [OF g_index.IH(2) g_index.hyps(2)]) (use 5 g_index.hyps in simp_all)
    then show ?case using 5 g_index.hyps by (subst infix_other(4)) (auto simp: index_closed)
  qed (use g_index.hyps grammar_first(1) [OF g_index.hyps(1)] in \<open>auto simp: may_follow_call\<close>)
next
  case (g_call e u es v a z)
  show ?case
  proof (rule reads_infix [OF g_call.IH(1)], goal_cases)
    case (5 ts i n)
    then show ?case
      using g_call.hyps call_closed [OF g_call.IH(2) g_call.hyps(2), of ts i a z n e] by (subst infix_other(3)) auto
  qed (use g_call.hyps grammar_first(1) [OF g_call.hyps(1)] in \<open>auto simp: may_follow_call\<close>)
next
  case (g_call_empty e u a z)
  show ?case
    by (rule reads_infix [OF g_call_empty.IH]) (use g_call_empty.hyps grammar_first(1) [OF g_call_empty.hyps(1)] in
      \<open>auto simp: may_follow_call infix_other call_empty\<close>)
next
  case (g_postfix e u op)
  show ?case
    by (rule reads_infix [OF g_postfix.IH]) (use g_postfix.hyps grammar_first(1) [OF g_postfix.hyps(1)] in
      \<open>auto simp: may_follow_call infix_other\<close>)
next
  case (g_unary p e u op)
  show ?case
  proof (rule reads_prefix, goal_cases)
    case (1 ts i n)
    have "kind_precedence (peek_kind ts (Suc i + length u)) < PrecUnary"
      using 1 by (auto simp: may_follow_def kind_precedence_def less_eq_precedence_def less_precedence_def split: if_splits)
    then have "parse_precedence_fuel ts n PrecUnary (Suc i) = POk e (Suc i + length u)"
      using 1 g_unary.hyps grammar_first(1) [OF g_unary.hyps(1)]
      by (intro reads_complete [OF g_unary.IH]) (auto simp: may_follow_def)
    then show ?case using 1 g_unary.hyps by (subst prefix_unary) auto
  qed
next
  case (g_binary p l u q r v op b)
  note level = binary_level [OF g_binary.hyps(3), folded g_binary.hyps(4)]
  show ?case
  proof (rule reads_infix [OF g_binary.IH(1)], goal_cases)
    case (5 ts i n)
    have "kind_precedence (peek_kind ts (Suc i + length v)) < next_higher b"
    proof -
      have "b \<noteq> PrecCall" using level by (auto simp: less_precedence_def)
      then show ?thesis using 5(3) next_higher_greater by (auto simp: may_follow_def intro: le_less_trans)
    qed
    then have "parse_precedence_fuel ts n (next_higher b) (Suc i) = POk r (Suc i + length v)"
      using 5 g_binary.hyps grammar_first(1) [OF g_binary.hyps(2)]
      by (intro reads_complete [OF g_binary.IH(2)]) (auto simp: may_follow_def next_higher_least)
    then show ?case using 5 g_binary.hyps by (subst infix_binary) auto
  qed (use g_binary.hyps grammar_first(1) [OF g_binary.hyps(1)] level binary_kinds [OF g_binary.hyps(3)] in
    \<open>auto simp: may_follow_def less_precedence_def less_eq_precedence_def\<close>)
next
  case (g_assign name eq p e u)
  have left: "reads PrecCall (EVariable name) [name]"
    using g_assign.hyps(1) by (intro reads_prefix) (simp add: prefix_identifier may_follow_def)
  have "reads PrecAssignment (EAssign name e) ([name] @ eq # u)"
  proof (rule reads_infix [OF left], goal_cases)
    case (5 ts i n)
    then have "parse_precedence_fuel ts n PrecAssignment (Suc i) = POk e (Suc i + length u)"
      by (intro reads_closed [OF g_assign.IH g_assign.hyps(3)]) (auto simp: may_follow_def)
    then show ?case using 5 g_assign.hyps by (subst infix_other(5)) (auto simp: assignment_variable)
  qed (use g_assign.hyps in \<open>auto simp: may_follow_call call_greatest\<close>)
  then show ?case by simp
qed (auto intro: reads_prefix reads_one reads_more simp: prefix_literal)



text \<open>\<open>a - b - c * d;\<close> is \<open>(a - b) - (c * d)\<close>.\<close>

definition sample_token :: "token_kind \<Rightarrow> token" where
  "sample_token k = token_new k span_dummy"

abbreviation sample_variable :: "string \<Rightarrow> token" where
  "sample_variable s \<equiv> sample_token (TkIdentifier s)"


end
