(* ===== verification/Parser_Strings.thy ===== *)
theory Parser_Strings
  imports Parser_Pratt
begin

text \<open>
  Interpolated strings and the ends of statements (\<open>parse_string_with_interpolation\<close> and \<open>consume_terminator\<close>
  in \<open>crates/ntsc-parser/src/lib.rs\<close>).
\<close>

section \<open>Interpolated strings\<close>

lemma grammar_start:
  "grammar p e u \<Longrightarrow> \<exists>t v. u = t # v \<and> \<not> is_string_segment (kind t) \<and>
     (is_number (kind t) \<or> is_string (kind t) \<or> is_ident (kind t) \<or>
      kind t \<in> set (TkTrue # TkFalse # TkNil # TkThis # TkLeftParen # unary_operators))"
  "arguments es v \<Longrightarrow> True"
proof (induction rule: grammar_arguments.inducts)
  case (g_unary p e u op)
  then show ?case by (auto simp: discriminant_def unary_operators_def)
qed (auto simp: discriminant_def)

lemma start_can_start:
  assumes "i < length ts" "is_number (kind (ts ! i)) \<or> is_string (kind (ts ! i)) \<or> is_ident (kind (ts ! i)) \<or>
    kind (ts ! i) \<in> set (TkTrue # TkFalse # TkNil # TkThis # TkLeftParen # unary_operators)"
  shows "can_start_expression ts i"
  using assms unfolding can_start_expression_def
  by (auto simp: check_def unary_operators_def discriminant_def [of "TkNumberLiteral []"] discriminant_def [of "TkStringLiteral []"]
    discriminant_def [of "TkIdentifier []"])

lemma segments_end:
  "\<not> is_string_segment (peek_kind ts i) \<Longrightarrow> string_segments ts parts i = POk parts i"
  by (simp add: string_segments_def p_test_def p_return_def)

lemma segments_one:
  assumes "i < length ts" "kind (ts ! i) = TkStringSegment s" "\<not> is_string_segment (peek_kind ts (Suc i))"
  shows "string_segments ts parts i = POk (parts @ [ELiteral (LString s) (tspan (ts ! i))]) (Suc i)"
proof -
  obtain n where n: "length ts = Suc n" using assms(1) by (cases ts) auto
  show ?thesis
    using assms by (simp add: string_segments_def n p_test_def p_bind_def p_return_def discriminant_def lexeme_def)
qed

lemma prefix_segment:
  assumes "i < length ts" "kind (ts ! i) = TkStringSegment s"
  shows "parse_prefix ts pe ps i = parse_string_with_interpolation ts pe i"
  using assms by (simp add: parse_prefix_def p_test_def check_def discriminant_def)

lemma string_with_expression:
  assumes t: "i < length ts" "kind (ts ! i) = TkStringSegment s"
    and e: "grammar p e u" "occurs ts (Suc i) u" "no_greater ts" "length u < n"
    and stop: "kind_precedence (peek_kind ts (Suc i + length u)) = PrecNone" "\<not> can_start_expression ts (Suc i + length u)"
      "\<not> is_string_segment (peek_kind ts (Suc i + length u))"
  shows "parse_string_with_interpolation ts (parse_precedence_fuel ts n) i =
    POk (EBinary (ELiteral (LString s) (tspan (ts ! i))) (token_new TkPlus (tspan (ts ! i))) e) (Suc i + length u)"
proof -
  obtain t v where u: "u = t # v" "\<not> is_string_segment (kind t)"
    "is_number (kind t) \<or> is_string (kind t) \<or> is_ident (kind t) \<or>
      kind t \<in> set (TkTrue # TkFalse # TkNil # TkThis # TkLeftParen # unary_operators)"
    using grammar_start(1) [OF e(1)] by blast
  have here: "Suc i < length ts" "ts ! Suc i = t" using e(2) u by auto
  have "peek_kind ts (Suc i + length u) \<noteq> TkLeftBrace"
    using stop(2) by (auto simp: can_start_expression_def check_def)
  then have pe: "parse_precedence_fuel ts n PrecAssignment (Suc i) = POk e (Suc i + length u)"
    using reads_closed [OF grammar_reads(1) [OF e(1)] e(1,2,3,4) stop(1)] by simp
  obtain m where m: "length ts = Suc (Suc m)" using here(1) by (cases ts; cases "tl ts") auto
  have "interpolation_parts ts (parse_precedence_fuel ts n) i =
      POk [ELiteral (LString s) (tspan (ts ! i)), e] (Suc i + length u)"
    using start_can_start [of "Suc i" ts] segments_one [OF t, of "[]"] segments_end [OF stop(3)] here u pe stop(2)
    by (simp add: interpolation_parts_def m p_bind_def p_test_def p_return_def)
  then show ?thesis
    by (simp add: parse_string_with_interpolation_def p_bind_def p_return_def concat_parts_def)
qed



section \<open>Ends of statements\<close>

text \<open>
  A newline always ends a statement: \<open>next_is_continuation\<close> reads the newline itself and not the token after
  it, so a line that begins with a dot or an operator never continues the line before it.
\<close>

lemma newline_ends_statement:
  assumes "i < length ts" "kind (ts ! i) = TkNewline"
  shows "consume_terminator ts i = POk (Some (tspan (ts ! i))) (Suc i)"
  using assms
  by (simp add: consume_terminator_def p_bind_def p_consume_def check_def discriminant_def p_test_def
    next_is_continuation_def p_return_def)

lemma newline_ends_statement_witness:
  "consume_terminator (map sample_token [TkNewline, TkDot, TkIdentifier ''len'']) 0 = POk (Some span_dummy) 1"
  using newline_ends_statement [of 0 "map sample_token [TkNewline, TkDot, TkIdentifier ''len'']"]
  by (simp add: sample_token_def)

end
