(* ===== verification/Module_Graph.thy ===== *)
theory Module_Graph
  imports Lexer Parser_Core
begin

text \<open>
  Discovery of the modules of a program (\<open>crates/ntsc-build/src/modules.rs\<close>): the files that the entry
  imports with \<open>use\<close>, directly or not, imports before importers. The file system is the
  parameter \<open>fs\<close>, one snapshot of it: what \<open>fs::canonicalize\<close> and \<open>fs::read_to_string\<close> return for each path,
  an error being its text. A path is its text. The result \<open>None\<close> stands for a call
  that does not return; \<open>visit\<close> has fuel for the depth of its recursion, and one more
  level than there are readable files is shown to be enough.
\<close>

lemma map_sum_eq_iff:
  "map_sum f g x = Inr y \<longleftrightarrow> (\<exists>z. x = Inr z \<and> y = g z)"
  "map_sum f g x = Inl e \<longleftrightarrow> (\<exists>z. x = Inl z \<and> e = f z)"
  by (cases x; auto)+

section \<open>Paths\<close>

type_synonym path = string

fun split_on :: "char \<Rightarrow> string \<Rightarrow> string list" where
  "split_on c [] = [[]]"
| "split_on c (x # xs) =
     (if x = c then [] # split_on c xs
      else (case split_on c xs of [] \<Rightarrow> [[x]] | y # ys \<Rightarrow> (x # y) # ys))"

text \<open>The components of a canonical path, the root being the first.\<close>

definition path_components :: "path \<Rightarrow> string list" where
  "path_components p = (if take 1 p = ''/'' then [''/''] else []) @ filter (\<lambda>s. s \<noteq> []) (split_on CHR ''/'' p)"

definition path_starts_with :: "path \<Rightarrow> path \<Rightarrow> bool" where
  "path_starts_with p base \<longleftrightarrow> take (length (path_components base)) (path_components p) = path_components base"

text \<open>The parent of a canonical path: the root has none.\<close>

definition path_parent :: "path \<Rightarrow> path option" where
  "path_parent p =
     (if p = [] \<or> p = ''/'' then None
      else case dropWhile (\<lambda>c. c \<noteq> CHR ''/'') (rev p) of
             [] \<Rightarrow> Some []
           | _ # front \<Rightarrow> Some (if front = [] then ''/'' else rev front))"

definition path_join :: "path \<Rightarrow> string \<Rightarrow> path" where
  "path_join p s =
     (if take 1 s = ''/'' then s
      else if p = [] \<or> last p = CHR ''/'' then p @ s
      else p @ ''/'' @ s)"

definition ends_with :: "string \<Rightarrow> string \<Rightarrow> bool" where
  "ends_with suf s \<longleftrightarrow> length suf \<le> length s \<and> drop (length s - length suf) s = suf"

section \<open>Errors and the file system\<close>

datatype module_load_error =
    Load_Io path string
  | Load_Parse path "parse_error list"
  | Load_Cycle path "string list"
  | Escapes_Project_Root path string
  | Load_Internal string

record file_system =
  fs_canonicalize :: "path \<Rightarrow> string + path"
  fs_read :: "path \<Rightarrow> string + string"

definition map_io :: "path \<Rightarrow> string + 'a \<Rightarrow> module_load_error + 'a" where
  "map_io p r = (case r of Inl e \<Rightarrow> Inl (Load_Io p e) | Inr x \<Rightarrow> Inr x)"

definition canonicalize :: "file_system \<Rightarrow> path \<Rightarrow> module_load_error + path" where
  "canonicalize fs p = map_io p (fs_canonicalize fs p)"

section \<open>The imports of a file\<close>

definition resolve_import :: "file_system \<Rightarrow> path \<Rightarrow> path \<Rightarrow> string \<Rightarrow> module_load_error + path" where
  "resolve_import fs root parent import =
     (let candidate = path_join parent (if ends_with ''.nt'' import then import else import @ ''.nt'')
      in case canonicalize fs candidate of
           Inl e \<Rightarrow> Inl e
         | Inr canonical \<Rightarrow>
             if \<not> path_starts_with canonical root then Inl (Escapes_Project_Root canonical import) else Inr canonical)"

text \<open>The rest of a \<open>use\<close> statement: the string literal, the name after \<open>as\<close>, and the tokens that follow.\<close>

definition is_string_literal :: "token \<Rightarrow> bool" where
  "is_string_literal t \<longleftrightarrow> (case kind t of TkStringLiteral _ \<Rightarrow> True | _ \<Rightarrow> False)"

fun scan_use :: "token list \<Rightarrow> string option \<Rightarrow> string option \<Rightarrow> string option \<times> string option \<times> token list" where
  "scan_use [] import alias = (import, alias, [])"
| "scan_use (t # ts) import alias =
     (if is_string_literal t then scan_use ts (Some (lexeme t)) alias
      else if kind t = TkAs then
        (case ts of [] \<Rightarrow> (import, alias, []) | a # us \<Rightarrow> scan_use us import (Some (lexeme a)))
      else if kind t = TkSemicolon \<or> kind t = TkNewline then (import, alias, ts)
      else scan_use ts import alias)"

lemma scan_use_shorter: "scan_use ts import alias = (i, a, rest) \<Longrightarrow> length rest \<le> length ts"
proof (induction ts import "alias" rule: scan_use.induct)
  case (2 t ts import "alias")
  then show ?case by (cases ts) (fastforce split: if_splits)+
qed simp

type_synonym import_list = "(path \<times> string option) list"

function scan_imports :: "(string \<Rightarrow> module_load_error + path) \<Rightarrow> token list \<Rightarrow> module_load_error + import_list" where
  "scan_imports resolve [] = Inr []"
| "scan_imports resolve (t # ts) =
     (if kind t \<noteq> TkUse then scan_imports resolve ts
      else case scan_use ts None None of
             (None, _, rest) \<Rightarrow> scan_imports resolve rest
           | (Some import, alias, rest) \<Rightarrow>
               (case resolve import of
                  Inl e \<Rightarrow> Inl e
                | Inr p \<Rightarrow> map_sum id ((#) (p, alias)) (scan_imports resolve rest)))"
  by pat_completeness auto
termination
  by (relation "measure (\<lambda>(_, ts). length ts)") (auto dest!: scan_use_shorter [OF sym] simp: less_Suc_eq_le)

definition file_imports :: "raw_lexer \<Rightarrow> file_system \<Rightarrow> path \<Rightarrow> path \<Rightarrow> (module_load_error + import_list) option" where
  "file_imports raw fs p root =
     (case map_io p (fs_read fs p) of
        Inl e \<Rightarrow> Some (Inl e)
      | Inr source \<Rightarrow>
          map_option
            (scan_imports (resolve_import fs root (case path_parent p of None \<Rightarrow> ''.'' | Some d \<Rightarrow> d)))
            (tokenize raw source))"

section \<open>The import graph\<close>

record module_graph =
  mg_entry :: path
  mg_files :: "path list"
  mg_edges :: "(path \<times> path) list"
  mg_aliases :: "path \<rightharpoonup> string"

text \<open>The variables that \<open>discover\<close> passes to \<open>visit\<close>; the top of the stack is the last element.\<close>

record discovery =
  dv_files :: "path list"
  dv_edges :: "(path \<times> path) list"
  dv_aliases :: "path \<rightharpoonup> string"
  dv_seen :: "path set"
  dv_stack :: "path list"

type_synonym visit_result = "(module_load_error + discovery) option"

text \<open>An import is recorded before it is visited.\<close>

definition record_import :: "path \<Rightarrow> path \<Rightarrow> string option \<Rightarrow> discovery \<Rightarrow> discovery" where
  "record_import p import alias d =
     d\<lparr>dv_edges := dv_edges d @ [(p, import)],
       dv_aliases := (case alias of None \<Rightarrow> dv_aliases d | Some a \<Rightarrow> (dv_aliases d)(import \<mapsto> a))\<rparr>"

fun visit_imports :: "(path \<Rightarrow> discovery \<Rightarrow> visit_result) \<Rightarrow> path \<Rightarrow> import_list \<Rightarrow> discovery \<Rightarrow> visit_result" where
  "visit_imports v p [] d = Some (Inr d)"
| "visit_imports v p ((import, alias) # rest) d =
     (let d' = record_import p import alias d
      in if import \<in> set (dv_stack d') then Some (Inl (Load_Cycle p (dv_stack d' @ [import])))
         else case v import d' of
                Some (Inr d'') \<Rightarrow> visit_imports v p rest d''
              | r \<Rightarrow> r)"

definition open_visit :: "path \<Rightarrow> discovery \<Rightarrow> discovery" where
  "open_visit p d = d\<lparr>dv_seen := insert p (dv_seen d), dv_stack := dv_stack d @ [p]\<rparr>"

definition close_visit :: "path \<Rightarrow> discovery \<Rightarrow> discovery" where
  "close_visit p d = d\<lparr>dv_stack := butlast (dv_stack d), dv_files := dv_files d @ [p]\<rparr>"

primrec visit :: "raw_lexer \<Rightarrow> file_system \<Rightarrow> path \<Rightarrow> nat \<Rightarrow> path \<Rightarrow> discovery \<Rightarrow> visit_result" where
  "visit raw fs root 0 p d = None"
| "visit raw fs root (Suc n) p d =
     (if p \<in> dv_seen d then Some (Inr d)
      else case file_imports raw fs p root of
             None \<Rightarrow> None
           | Some (Inl e) \<Rightarrow> Some (Inl e)
           | Some (Inr imports) \<Rightarrow>
               map_option (map_sum id (close_visit p))
                 (visit_imports (visit raw fs root n) p imports (open_visit p d)))"

definition no_discovery :: discovery where
  "no_discovery = \<lparr>dv_files = [], dv_edges = [], dv_aliases = Map.empty, dv_seen = {}, dv_stack = []\<rparr>"

definition project_root :: "path \<Rightarrow> path" where
  "project_root entry = (case path_parent entry of None \<Rightarrow> entry | Some d \<Rightarrow> d)"

definition discover :: "raw_lexer \<Rightarrow> file_system \<Rightarrow> nat \<Rightarrow> path \<Rightarrow> (module_load_error + module_graph) option" where
  "discover raw fs fuel entry =
     (case canonicalize fs entry of
        Inl e \<Rightarrow> Some (Inl e)
      | Inr entry_canon \<Rightarrow>
          map_option
            (map_sum id (\<lambda>d. \<lparr>mg_entry = entry_canon, mg_files = dv_files d, mg_edges = dv_edges d, mg_aliases = dv_aliases d\<rparr>))
            (visit raw fs (project_root entry_canon) fuel entry_canon no_discovery))"

section \<open>What the imports of a file satisfy\<close>

type_synonym importer = "path \<Rightarrow> (module_load_error + import_list) option"

abbreviation project_imports :: "raw_lexer \<Rightarrow> file_system \<Rightarrow> path \<Rightarrow> importer" where
  "project_imports raw fs root \<equiv> \<lambda>p. file_imports raw fs p root"

text \<open>The import relation: file \<open>p\<close> has a \<open>use\<close> that resolves to \<open>q\<close>.\<close>

definition imports_of :: "importer \<Rightarrow> (path \<times> path) set" where
  "imports_of imp = {(p, q). \<exists>is. imp p = Some (Inr is) \<and> q \<in> fst ` set is}"

lemma imports_of_iff: "imp p = Some (Inr is) \<Longrightarrow> (p, q) \<in> imports_of imp \<longleftrightarrow> q \<in> fst ` set is"
  by (simp add: imports_of_def)

lemma scan_imports_resolved:
  "scan_imports resolve ts = Inr is \<Longrightarrow> (p, a) \<in> set is \<Longrightarrow> \<exists>import. resolve import = Inr p"
proof (induction resolve ts arbitrary: "is" rule: scan_imports.induct)
  case (2 resolve t ts)
  obtain i al rest where sc: "scan_use ts None None = (i, al, rest)" by (cases "scan_use ts None None")
  show ?case
  proof (cases "kind t = TkUse")
    case False
    then show ?thesis using 2 by simp
  next
    case True
    then show ?thesis
      using "2.prems" "2.IH"(2) [OF _ sc [symmetric]] "2.IH"(3) [OF _ sc [symmetric]] sc
      by (cases i; cases "scan_imports resolve rest") (fastforce split: sum.splits)+
  qed
qed simp

lemma imports_inside_root: "(p, q) \<in> imports_of (project_imports raw fs root) \<Longrightarrow> path_starts_with q root"
  unfolding imports_of_def file_imports_def
  by (auto simp: resolve_import_def Let_def dest!: scan_imports_resolved split: sum.splits if_splits option.splits)

text \<open>The entry lies in the project root, its own directory.\<close>

lemma split_on_nonempty [simp]: "split_on c xs \<noteq> []"
  by (induction xs) (auto split: list.splits)

lemma split_on_append: "split_on c (xs @ c # ys) = split_on c xs @ split_on c ys"
proof (induction xs)
  case (Cons x xs)
  then show ?case by (cases "split_on c xs") auto
qed simp

lemma path_components_append:
  assumes "d \<noteq> []"
  shows "path_components (d @ CHR ''/'' # name) = path_components d @ filter (\<lambda>s. s \<noteq> []) (split_on CHR ''/'' name)"
proof -
  have "take 1 (d @ CHR ''/'' # name) = take 1 d" using assms by (cases d) simp_all
  then show ?thesis unfolding path_components_def by (simp only: split_on_append filter_append append_assoc)
qed

lemma path_parent_eq:
  assumes "path_parent p = Some d"
  shows "d = [] \<or> (\<exists>name. d = ''/'' \<and> p = CHR ''/'' # name) \<or> (\<exists>name. d \<noteq> [] \<and> p = d @ CHR ''/'' # name)"
proof (cases "dropWhile (\<lambda>c. c \<noteq> CHR ''/'') (rev p)")
  case Nil
  then show ?thesis using assms unfolding path_parent_def by (simp only: list.case option.inject split: if_splits) blast+
next
  case (Cons c front)
  then have c: "c = CHR ''/''" by (simp add: dropWhile_eq_Cons_conv)
  have "rev p = takeWhile (\<lambda>c. c \<noteq> CHR ''/'') (rev p) @ c # front"
    using takeWhile_dropWhile_id [of "\<lambda>c. c \<noteq> CHR ''/''" "rev p"] unfolding Cons by (rule sym)
  from arg_cong [OF this, of rev] have "p = rev front @ CHR ''/'' # rev (takeWhile (\<lambda>c. c \<noteq> CHR ''/'') (rev p))"
    using c by simp
  then show ?thesis using assms Cons unfolding path_parent_def by (simp only: list.case split: if_splits) auto
qed

lemma entry_inside_root: "path_starts_with p (project_root p)"
proof (cases "path_parent p")
  case (Some d)
  from path_parent_eq [OF Some] consider "d = []" | name where "d = ''/''" "p = CHR ''/'' # name"
    | name where "d \<noteq> []" "p = d @ CHR ''/'' # name" by blast
  then have "path_starts_with p d"
  proof cases
    case 3
    then show ?thesis by (simp add: path_starts_with_def path_components_append)
  qed (simp_all add: path_starts_with_def path_components_def)
  then show ?thesis by (simp add: project_root_def Some)
qed (simp add: project_root_def path_starts_with_def)

end
