(* ===== verification/Module_Order.thy ===== *)
theory Module_Order
  imports Module_Graph
begin

text \<open>
  Correctness of the discovery of modules: a depth-first traversal of the import relation that keeps an
  invariant of its four collections, finds the files reachable from the entry in an order
  with imports first, and reports a cycle only when there is one.
\<close>

section \<open>The invariant of the traversal\<close>

text \<open>The imports of each file of a list could be read, and come before it.\<close>

definition deps_first :: "importer \<Rightarrow> path list \<Rightarrow> bool" where
  "deps_first imp xs \<longleftrightarrow>
     (\<forall>i < length xs. \<exists>is. imp (xs ! i) = Some (Inr is) \<and> fst ` set is \<subseteq> set (take i xs))"

lemma deps_first_Nil [simp]: "deps_first imp []"
  by (simp add: deps_first_def)

lemma deps_first_snoc [simp]:
  "deps_first imp (xs @ [x]) \<longleftrightarrow> deps_first imp xs \<and> (\<exists>is. imp x = Some (Inr is) \<and> fst ` set is \<subseteq> set xs)"
  by (auto simp: deps_first_def nth_append less_Suc_eq)

lemma deps_first_closed: "deps_first imp xs \<Longrightarrow> p \<in> set xs \<Longrightarrow> (p, q) \<in> imports_of imp \<Longrightarrow> q \<in> set xs"
  unfolding deps_first_def imports_of_def in_set_conv_nth [of p]
  by (force dest: in_set_takeD)

text \<open>The stack is a chain of imports from the entry.\<close>

definition import_chain :: "importer \<Rightarrow> path \<Rightarrow> path list \<Rightarrow> bool" where
  "import_chain imp entry xs \<longleftrightarrow>
     successively (\<lambda>p q. (p, q) \<in> imports_of imp) xs \<and> (xs \<noteq> [] \<longrightarrow> hd xs = entry)"

definition import_cycle :: "importer \<Rightarrow> path \<Rightarrow> path list \<Rightarrow> bool" where
  "import_cycle imp entry xs \<longleftrightarrow> xs \<noteq> [] \<and> import_chain imp entry xs \<and> last xs \<in> set (butlast xs)"

text \<open>A path may be put on the stack when it continues the chain.\<close>

definition continues :: "importer \<Rightarrow> path \<Rightarrow> discovery \<Rightarrow> path \<Rightarrow> bool" where
  "continues imp entry d p \<longleftrightarrow> p \<notin> set (dv_stack d) \<and> import_chain imp entry (dv_stack d @ [p])"

lemma import_chain_snoc:
  "import_chain imp entry (xs @ [p]) \<longleftrightarrow>
     import_chain imp entry xs \<and> (if xs = [] then p = entry else (last xs, p) \<in> imports_of imp)"
  by (auto simp: import_chain_def successively_append_iff hd_append)

definition edges_ok :: "importer \<Rightarrow> discovery \<Rightarrow> bool" where
  "edges_ok imp d \<longleftrightarrow>
     set (dv_edges d) \<subseteq> imports_of imp \<inter> ((set (dv_files d) \<union> set (dv_stack d)) \<times> UNIV) \<and>
     imports_of imp \<inter> (set (dv_files d) \<times> UNIV) \<subseteq> set (dv_edges d)"

definition discovery_ok :: "importer \<Rightarrow> path \<Rightarrow> discovery \<Rightarrow> bool" where
  "discovery_ok imp entry d \<longleftrightarrow>
     distinct (dv_files d @ dv_stack d) \<and> dv_seen d = set (dv_files d @ dv_stack d) \<and>
     deps_first imp (dv_files d) \<and> import_chain imp entry (dv_stack d) \<and> edges_ok imp d"

text \<open>What happens to a discovery when a path, or a list of imports of a path, is visited.\<close>

definition grows :: "importer \<Rightarrow> path \<Rightarrow> discovery \<Rightarrow> discovery \<Rightarrow> bool" where
  "grows imp p d d' \<longleftrightarrow>
     dv_stack d' = dv_stack d \<and> set (dv_edges d) \<subseteq> set (dv_edges d') \<and>
     (\<exists>new. dv_files d' = dv_files d @ new \<and> set new \<subseteq> {f. (p, f) \<in> (imports_of imp)\<^sup>*})"

lemma grows_refl: "grows imp p d d"
  by (simp add: grows_def)

lemma grows_trans: "grows imp p d e \<Longrightarrow> grows imp p e f \<Longrightarrow> grows imp p d f"
  by (auto simp: grows_def)

lemma grows_import: "(p, q) \<in> imports_of imp \<Longrightarrow> grows imp q d e \<Longrightarrow> grows imp p d e"
  unfolding grows_def by (blast intro: converse_rtrancl_into_rtrancl)

lemma grows_files: "grows imp p d e \<Longrightarrow> set (dv_files d) \<subseteq> set (dv_files e)"
  by (auto simp: grows_def)

definition visited :: "importer \<Rightarrow> path \<Rightarrow> path \<Rightarrow> discovery \<Rightarrow> discovery \<Rightarrow> bool" where
  "visited imp entry p d d' \<longleftrightarrow> discovery_ok imp entry d' \<and> grows imp p d d' \<and> p \<in> set (dv_files d') \<and>
     (p \<notin> dv_seen d \<longrightarrow> last (dv_files d') = p)"

text \<open>A result is sound when a discovery has the property, and a cycle that is reported is one.\<close>

definition sound :: "importer \<Rightarrow> path \<Rightarrow> (discovery \<Rightarrow> bool) \<Rightarrow> visit_result \<Rightarrow> bool" where
  "sound imp entry P r \<longleftrightarrow>
     (\<forall>d. r = Some (Inr d) \<longrightarrow> P d) \<and>
     (\<forall>p chain. r = Some (Inl (Load_Cycle p chain)) \<longrightarrow> import_cycle imp entry chain \<and> last (butlast chain) = p)"

section \<open>The steps of a visit\<close>

lemma record_import_ok:
  assumes "discovery_ok imp entry d" "dv_stack d = st @ [p]" "(p, q) \<in> imports_of imp"
  shows "discovery_ok imp entry (record_import p q a d)" "grows imp p d (record_import p q a d)"
    "(p, q) \<in> set (dv_edges (record_import p q a d))" "dv_stack (record_import p q a d) = dv_stack d"
  using assms by (auto simp: discovery_ok_def edges_ok_def record_import_def grows_def)

lemma open_visit_ok:
  assumes "discovery_ok imp entry d" "continues imp entry d p" "p \<notin> dv_seen d"
  shows "discovery_ok imp entry (open_visit p d)" "dv_stack (open_visit p d) = dv_stack d @ [p]"
  using assms by (auto simp: discovery_ok_def edges_ok_def open_visit_def continues_def)

lemma close_visit_ok:
  assumes "discovery_ok imp entry d" "dv_stack d = st @ [p]" "imp p = Some (Inr is)"
    and "fst ` set is \<subseteq> set (dv_files d)" "\<And>q. q \<in> fst ` set is \<Longrightarrow> (p, q) \<in> set (dv_edges d)"
  shows "discovery_ok imp entry (close_visit p d)"
  using assms by (auto simp: discovery_ok_def edges_ok_def close_visit_def import_chain_snoc imports_of_iff)

lemma visit_imports_sound:
  assumes "\<And>q e. discovery_ok imp entry e \<Longrightarrow> continues imp entry e q \<Longrightarrow> sound imp entry (visited imp entry q e) (v q e)"
    and "discovery_ok imp entry d" "dv_stack d = st @ [p]" "\<And>q a. (q, a) \<in> set is \<Longrightarrow> (p, q) \<in> imports_of imp"
  shows "sound imp entry
    (\<lambda>d'. discovery_ok imp entry d' \<and> grows imp p d d' \<and> fst ` set is \<subseteq> set (dv_files d') \<and>
      (\<forall>q \<in> fst ` set is. (p, q) \<in> set (dv_edges d'))) (visit_imports v p is d)"
  using assms(2-)
proof (induction "is" arbitrary: d)
  case Nil
  then show ?case by (simp add: sound_def grows_refl)
next
  case (Cons x "is")
  obtain q a where x: "x = (q, a)" by force
  define e where "e = record_import p q a d"
  have pq: "(p, q) \<in> imports_of imp" using Cons.prems(3) x by auto
  note e = record_import_ok [OF Cons.prems(1,2) pq, of a, folded e_def]
  have "dv_stack e \<noteq> []" "last (dv_stack e) = p" using e(4) Cons.prems(2) by simp_all
  then have chain: "import_chain imp entry (dv_stack e @ [q])"
    using e(1) pq by (simp add: import_chain_snoc discovery_ok_def)
  show ?case
  proof (cases "q \<in> set (dv_stack e)")
    case True
    then have "import_cycle imp entry (dv_stack e @ [q])" using chain by (simp add: import_cycle_def)
    then show ?thesis
      using True \<open>last (dv_stack e) = p\<close> by (simp add: sound_def x e_def [symmetric] Let_def)
  next
    case False
    then have "continues imp entry e q" using chain by (simp add: continues_def)
    then have v: "sound imp entry (visited imp entry q e) (v q e)" using assms(1) e(1) by blast
    show ?thesis
    proof (cases "\<exists>d'. v q e = Some (Inr d')")
      case False
      then show ?thesis using v \<open>q \<notin> set (dv_stack e)\<close>
        by (auto simp: sound_def x e_def [symmetric] Let_def split: option.splits sum.splits)
    next
      case True
      then obtain d' where d': "v q e = Some (Inr d')" by blast
      then have vis: "visited imp entry q e d'" using v by (simp add: sound_def)
      then have g: "grows imp p d d'" using e(2) pq by (auto simp: visited_def intro: grows_import grows_trans)
      have "sound imp entry
        (\<lambda>d''. discovery_ok imp entry d'' \<and> grows imp p d' d'' \<and> fst ` set is \<subseteq> set (dv_files d'') \<and>
          (\<forall>q \<in> fst ` set is. (p, q) \<in> set (dv_edges d''))) (visit_imports v p is d')"
        using Cons.IH [of d'] Cons.prems(2,3) vis g by (auto simp: visited_def grows_def)
      moreover have "q \<in> set (dv_files d')" "(p, q) \<in> set (dv_edges d')"
        using vis e(3) by (auto simp: visited_def grows_def)
      ultimately show ?thesis
        using g \<open>q \<notin> set (dv_stack e)\<close> d'
        by (auto simp: sound_def x e_def [symmetric] Let_def dest: grows_files intro: grows_trans)
           (auto simp: grows_def)
    qed
  qed
qed

lemma visit_new:
  assumes "discovery_ok imp entry (open_visit p d)" "imp p = Some (Inr is)"
    and "discovery_ok imp entry d' \<and> grows imp p (open_visit p d) d' \<and> fst ` set is \<subseteq> set (dv_files d') \<and>
      (\<forall>q \<in> fst ` set is. (p, q) \<in> set (dv_edges d'))"
  shows "visited imp entry p d (close_visit p d')"
  using assms close_visit_ok [of imp entry d' "dv_stack d" p "is"]
  by (auto simp: visited_def grows_def open_visit_def close_visit_def)

lemma sound_map:
  "sound imp entry P r \<Longrightarrow> (\<And>d. P d \<Longrightarrow> Q (f d)) \<Longrightarrow> sound imp entry Q (map_option (map_sum id f) r)"
  by (cases r) (auto simp: sound_def map_sum_def split: sum.splits)

text \<open>An import that cannot be read or resolved is not reported as a cycle.\<close>

lemma scan_imports_no_cycle:
  "(\<And>i p c. resolve i \<noteq> Inl (Load_Cycle p c)) \<Longrightarrow> scan_imports resolve ts \<noteq> Inl (Load_Cycle q chain)"
proof (induction resolve ts rule: scan_imports.induct)
  case (2 resolve t ts)
  obtain i al rest where sc: "scan_use ts None None = (i, al, rest)" by (cases "scan_use ts None None")
  show ?case
  proof (cases "kind t = TkUse")
    case True
    then show ?thesis
      using 2 sc by (cases i; cases "scan_imports resolve rest") (auto split: sum.splits)
  qed (use 2 in simp)
qed simp

lemma file_imports_no_cycle: "file_imports raw fs p root \<noteq> Some (Inl (Load_Cycle q chain))"
  by (auto simp: file_imports_def map_io_def resolve_import_def canonicalize_def Let_def
      dest!: scan_imports_no_cycle [THEN notE, rotated] split: sum.splits if_splits)

lemma visit_sound:
  "discovery_ok (project_imports raw fs root) entry d \<Longrightarrow> continues (project_imports raw fs root) entry d p \<Longrightarrow>
   sound (project_imports raw fs root) entry (visited (project_imports raw fs root) entry p d) (visit raw fs root n p d)"
proof (induction n arbitrary: p d)
  case 0
  then show ?case by (simp add: sound_def)
next
  case (Suc n)
  define imp where "imp = project_imports raw fs root"
  note ok = Suc.prems [folded imp_def]
  show ?case
  proof (cases "p \<in> dv_seen d")
    case True
    then have "p \<in> set (dv_files d)" using ok by (auto simp: discovery_ok_def continues_def)
    then show ?thesis using True ok unfolding imp_def by (simp add: sound_def visited_def grows_refl)
  next
    case False
    show ?thesis
    proof (cases "\<exists>is. imp p = Some (Inr is)")
      case True
      then obtain "is" where "is": "imp p = Some (Inr is)" by blast
      have "sound imp entry
        (\<lambda>d'. discovery_ok imp entry d' \<and> grows imp p (open_visit p d) d' \<and> fst ` set is \<subseteq> set (dv_files d') \<and>
          (\<forall>q \<in> fst ` set is. (p, q) \<in> set (dv_edges d'))) (visit_imports (visit raw fs root n) p is (open_visit p d))"
        using Suc.IH [folded imp_def] open_visit_ok [OF ok False] imports_of_iff [of imp, OF "is"]
        by (intro visit_imports_sound) force+
      then have "sound imp entry (visited imp entry p d)
          (map_option (map_sum id (close_visit p)) (visit_imports (visit raw fs root n) p is (open_visit p d)))"
        using visit_new [OF open_visit_ok(1) [OF ok False] "is"] by (rule sound_map)
      then show ?thesis using "is" False by (simp add: imp_def)
    next
      case None: False
      then show ?thesis
        using False by (auto simp: imp_def sound_def file_imports_no_cycle split: option.splits sum.splits)
    qed
  qed
qed

section \<open>Consequences\<close>

lemma discovery_start: "discovery_ok imp entry no_discovery" "continues imp entry no_discovery entry"
  by (simp_all add: discovery_ok_def no_discovery_def edges_ok_def import_chain_def continues_def)

lemma discover_result:
  assumes "discover raw fs fuel entry = Some (Inr g)"
  shows "\<exists>d. fs_canonicalize fs entry = Inr (mg_entry g) \<and> mg_files g = dv_files d \<and> mg_edges g = dv_edges d \<and>
    visited (project_imports raw fs (project_root (mg_entry g))) (mg_entry g) (mg_entry g) no_discovery d"
  using assms visit_sound [OF discovery_start]
  by (fastforce simp: discover_def canonicalize_def map_io_def sound_def map_sum_def split: sum.splits)

lemma deps_first_reach:
  "(p, q) \<in> (imports_of imp)\<^sup>* \<Longrightarrow> deps_first imp xs \<Longrightarrow> p \<in> set xs \<Longrightarrow> q \<in> set xs"
  by (induction rule: rtrancl_induct) (auto intro: deps_first_closed)

lemma deps_first_acyclic:
  "deps_first imp xs \<Longrightarrow> distinct xs \<Longrightarrow> p \<in> set xs \<Longrightarrow> (p, p) \<notin> (imports_of imp)\<^sup>+"
proof (induction xs arbitrary: p rule: rev_induct)
  case (snoc x xs)
  show ?case
  proof (cases "p = x")
    case True
    show ?thesis
    proof
      assume "(p, p) \<in> (imports_of imp)\<^sup>+"
      then obtain q where "(x, q) \<in> imports_of imp" "(q, x) \<in> (imports_of imp)\<^sup>*"
        using True by (auto dest: tranclD)
      moreover from this have "q \<in> set xs" using snoc.prems(1) by (fastforce simp: imports_of_def)
      ultimately have "x \<in> set xs" using deps_first_reach snoc.prems(1) by auto
      then show False using snoc.prems(2) by simp
    qed
  qed (use snoc in auto)
qed simp

lemma successively_reach:
  "successively (\<lambda>p q. (p, q) \<in> r) xs \<Longrightarrow> i < j \<Longrightarrow> j < length xs \<Longrightarrow> (xs ! i, xs ! j) \<in> r\<^sup>+"
proof (induction j)
  case (Suc j)
  have step: "(xs ! j, xs ! Suc j) \<in> r" using Suc.prems by (simp add: successively_conv_nth)
  show ?case
  proof (cases "i = j")
    case False
    then show ?thesis using Suc step by (auto intro: trancl_into_trancl)
  qed (use step in auto)
qed simp

lemma import_cycle_reach:
  assumes "import_cycle imp entry xs"
  shows "\<exists>p. (entry, p) \<in> (imports_of imp)\<^sup>* \<and> (p, p) \<in> (imports_of imp)\<^sup>+"
proof -
  have xs: "xs \<noteq> []" "successively (\<lambda>p q. (p, q) \<in> imports_of imp) xs" "xs ! 0 = entry" "last xs \<in> set (butlast xs)"
    using assms by (auto simp: import_cycle_def import_chain_def hd_conv_nth)
  then obtain i where i: "i < length xs - 1" "xs ! i = xs ! (length xs - 1)"
    by (auto simp: in_set_conv_nth nth_butlast last_conv_nth)
  then have "(xs ! i, xs ! i) \<in> (imports_of imp)\<^sup>+" using successively_reach [OF xs(2), of i "length xs - 1"] by simp
  moreover have "(entry, xs ! i) \<in> (imports_of imp)\<^sup>*"
    using successively_reach [OF xs(2), of 0 i] xs(3) i by (cases "i = 0") (auto intro: trancl_into_rtrancl)
  ultimately show ?thesis by blast
qed

section \<open>Termination\<close>

text \<open>The number of readable files that have not been seen bounds the depth.\<close>

definition readable :: "file_system \<Rightarrow> path set" where
  "readable fs = {p. \<exists>source. fs_read fs p = Inr source}"

lemma visit_imports_seen:
  "(\<And>q e e'. v q e = Some (Inr e') \<Longrightarrow> dv_seen e \<subseteq> dv_seen e') \<Longrightarrow>
   visit_imports v p is d = Some (Inr d') \<Longrightarrow> dv_seen d \<subseteq> dv_seen d'"
proof (induction v p "is" d rule: visit_imports.induct)
  case (2 v p q a rest d)
  let ?e = "record_import p q a d"
  obtain e' where e': "v q ?e = Some (Inr e')" "visit_imports v p rest e' = Some (Inr d')" "q \<notin> set (dv_stack ?e)"
    using "2.prems"(2) by (auto simp: Let_def split: if_splits option.splits sum.splits)
  then show ?case
    using "2.IH" [of ?e "Inr e'" e'] "2.prems"(1) by (fastforce simp: record_import_def)
qed simp

lemma visit_seen: "visit raw fs root n p d = Some (Inr d') \<Longrightarrow> dv_seen d \<subseteq> dv_seen d'"
proof (induction n arbitrary: p d d')
  case (Suc n)
  show ?case
  proof (cases "p \<in> dv_seen d")
    case False
    then obtain "is" e where "visit_imports (visit raw fs root n) p is (open_visit p d) = Some (Inr e)" "d' = close_visit p e"
      using Suc.prems by (auto simp: map_sum_eq_iff split: option.splits sum.splits)
    then show ?thesis
      using visit_imports_seen [OF Suc.IH] by (fastforce simp: open_visit_def close_visit_def)
  qed (use Suc.prems in auto)
qed simp

lemma visit_imports_returns:
  "(\<And>q e. dv_seen d \<subseteq> dv_seen e \<Longrightarrow> v q e \<noteq> None) \<Longrightarrow> (\<And>q e e'. v q e = Some (Inr e') \<Longrightarrow> dv_seen e \<subseteq> dv_seen e') \<Longrightarrow>
   visit_imports v p is d \<noteq> None"
proof (induction "is" arbitrary: d)
  case (Cons x "is")
  obtain q a where x: "x = (q, a)" by force
  let ?e = "record_import p q a d"
  have "v q ?e \<noteq> None" using Cons.prems(1) by (simp add: record_import_def)
  moreover have "visit_imports v p is e' \<noteq> None" if "v q ?e = Some (Inr e')" for e'
  proof -
    have "dv_seen d \<subseteq> dv_seen e'" using Cons.prems(2) [OF that] by (simp add: record_import_def)
    then show ?thesis using Cons.IH [of e'] Cons.prems by (meson subset_trans)
  qed
  ultimately show ?case by (auto simp: x Let_def split: option.splits sum.splits)
qed simp

context logos_lexer
begin

lemma file_imports_returns: "file_imports raw fs p root \<noteq> None"
  using tokenize_total by (auto simp: file_imports_def split: sum.splits)

lemma visit_returns:
  "finite (readable fs) \<Longrightarrow> card (readable fs - dv_seen d) < n \<Longrightarrow> visit raw fs root n p d \<noteq> None"
proof (induction n arbitrary: p d)
  case (Suc n)
  show ?case
  proof (cases "\<exists>is. p \<notin> dv_seen d \<and> file_imports raw fs p root = Some (Inr is)")
    case True
    then obtain "is" where new: "p \<notin> dv_seen d" "file_imports raw fs p root = Some (Inr is)" by blast
    then have "p \<in> readable fs" by (auto simp: file_imports_def readable_def map_io_def split: sum.splits)
    then have "readable fs - dv_seen (open_visit p d) \<subset> readable fs - dv_seen d"
      using new(1) by (auto simp: open_visit_def)
    then have less: "card (readable fs - dv_seen (open_visit p d)) < n"
      using Suc.prems(2) psubset_card_mono [OF finite_Diff [OF Suc.prems(1)]] by (meson less_Suc_eq_le less_le_trans)
    have "visit raw fs root n q e \<noteq> None" if "dv_seen (open_visit p d) \<subseteq> dv_seen e" for q e
    proof -
      have "card (readable fs - dv_seen e) \<le> card (readable fs - dv_seen (open_visit p d))"
        using that Suc.prems(1) by (intro card_mono) auto
      then show ?thesis using Suc.IH [of e q] Suc.prems(1) less by simp
    qed
    then have "visit_imports (visit raw fs root n) p is (open_visit p d) \<noteq> None"
      by (rule visit_imports_returns [OF _ visit_seen])
    then show ?thesis using new by simp
  next
    case False
    then show ?thesis using file_imports_returns [of fs p root] by (auto split: option.splits sum.splits)
  qed
qed simp

end

section \<open>Samples\<close>

definition sample_source :: string where
  "sample_source = ''use'' @ [DQUOTE] @ ''lib'' @ [DQUOTE]"

definition sample_files :: file_system where
  "sample_files =
     \<lparr>fs_canonicalize = (\<lambda>p. Inr (if p = ''main.nt'' then ''/p/main.nt'' else p)),
      fs_read = (\<lambda>p. if p = ''/p/main.nt'' then Inr sample_source else if p = ''/p/lib.nt'' then Inr [] else Inl ''not found'')\<rparr>"

lemma sample_raw:
  "raw_rules sample_source 0 = Some (Some RtUse, 0, 3)"
  "raw_rules sample_source 3 = Some (Some RtStringLiteral, 3, 8)"
  by (simp_all add: sample_source_def raw_rules_def raw_scan.simps [of _ "_ # _"] skip_len_def is_blank_def starts_with_def
      raw_candidates_def raw_literals_def match_literal_def match_number_def match_string_def match_raw_string_def
      match_identifier_def DQUOTE_def SQUOTE_def LF_def BACKSLASH_def is_ident_start_def is_ident_char_def is_digit_def)

lemma sample_tokens:
  "\<exists>t u v. tokenize raw_rules sample_source = Some [t, u, v] \<and> kind t = TkUse \<and> kind u = TkStringLiteral ''lib'' \<and> kind v = TkEof"
proof -
  let ?tok = "tokenize_fuel raw_rules (length sample_source)"
  obtain t x where t: "next_token raw_rules ?tok (lexer_new sample_source) = Some (t, x)" "kind t = TkUse"
    and x: "lx_source x = sample_source" "lx_pos x = 3" "lx_buffer x = []"
    by (simp add: next_token_def lexer_new_def sample_raw Let_def convert_raw_keyword convert_plain_def)
  obtain u y where u: "next_token raw_rules ?tok x = Some (u, y)" "kind u = TkStringLiteral ''lib''"
    and y: "lx_source y = sample_source" "lx_pos y = length sample_source" "lx_buffer y = []"
    using x by (simp add: next_token_def sample_raw Let_def convert_raw_def emit_string_tokens_def) (simp add: sample_source_def)
  have "next_token raw_rules ?tok y = Some (eof_token y, y)" using y by (simp add: next_token_def raw_rules_end)
  then have "lex_loop raw_rules ?tok y = Some ([], y)" by (simp add: lex_loop.simps [of _ _ y] eof_token_def)
  then have "lex_loop raw_rules ?tok (lexer_new sample_source) = Some ([t, u], y)"
    using t u by (simp add: lex_loop.simps [of _ _ "lexer_new _"] lex_loop.simps [of _ _ x])
  then show ?thesis using t(2) u(2) by (simp add: tokenize_def eof_token_def)
qed

lemma tokenize_empty: "\<exists>t. tokenize raw_rules [] = Some [t] \<and> kind t = TkEof"
  by (simp add: tokenize_def lex_loop.simps next_token_def lexer_new_def raw_rules_def raw_scan.simps eof_token_def)

lemma sample_imports:
  "file_imports raw_rules sample_files ''/p/main.nt'' ''/p'' = Some (Inr [(''/p/lib.nt'', None)])"
  "file_imports raw_rules sample_files ''/p/lib.nt'' ''/p'' = Some (Inr [])"
  using sample_tokens tokenize_empty
  by (auto simp: file_imports_def sample_files_def map_io_def is_string_literal_def lexeme_def resolve_import_def
      canonicalize_def path_parent_def path_join_def path_starts_with_def path_components_def ends_with_def)

lemma sample_discovery:
  "discover raw_rules sample_files 3 ''main.nt'' =
     Some (Inr \<lparr>mg_entry = ''/p/main.nt'', mg_files = [''/p/lib.nt'', ''/p/main.nt''],
       mg_edges = [(''/p/main.nt'', ''/p/lib.nt'')], mg_aliases = Map.empty\<rparr>)"
  using sample_imports
  by (simp add: discover_def canonicalize_def map_io_def sample_files_def project_root_def path_parent_def numeral_3_eq_3
    no_discovery_def open_visit_def close_visit_def record_import_def Let_def)
section \<open>Properties\<close>

text \<open>
  C18: When the discovery of modules succeeds, its list of files has no duplicates, holds exactly the files
  that the entry imports, directly or not, and ends with the entry; each file could be read
  and its imports come before it, and every file lies in the project root. The edges are the imports of these files.
\<close>

theorem discover_order:
  assumes "discover raw fs fuel entry = Some (Inr g)"
    and "root = project_root (mg_entry g)" "imp = project_imports raw fs root"
  shows "distinct (mg_files g) \<and> last (mg_files g) = mg_entry g \<and> deps_first imp (mg_files g) \<and>
    set (mg_files g) = {f. (mg_entry g, f) \<in> (imports_of imp)\<^sup>*} \<and>
    set (mg_edges g) = imports_of imp \<inter> (set (mg_files g) \<times> UNIV) \<and>
    list_all (\<lambda>f. path_starts_with f root) (mg_files g)"
proof -
  obtain d where d: "mg_files g = dv_files d" "mg_edges g = dv_edges d" "visited imp (mg_entry g) (mg_entry g) no_discovery d"
    using discover_result [OF assms(1)] assms(2,3) by auto
  then have ok: "discovery_ok imp (mg_entry g) d" "dv_stack d = []"
    by (simp_all add: visited_def grows_def no_discovery_def)
  have "last (mg_files g) = mg_entry g" using d by (simp add: visited_def no_discovery_def)
  moreover have files: "set (mg_files g) = {f. (mg_entry g, f) \<in> (imports_of imp)\<^sup>*}"
    using d ok by (auto simp: visited_def grows_def no_discovery_def discovery_ok_def intro: deps_first_reach)
  moreover have "path_starts_with f root" if "(mg_entry g, f) \<in> (imports_of imp)\<^sup>*" for f
    using that by (cases rule: rtranclE) (use assms(2,3) in \<open>auto intro: imports_inside_root entry_inside_root\<close>)
  ultimately show ?thesis
    using ok by (auto simp: d(1,2) discovery_ok_def edges_ok_def list_all_iff)
qed

theorem discover_order_witness:
  "distinct [''/p/lib.nt'', ''/p/main.nt''] \<and>
   deps_first (project_imports raw_rules sample_files ''/p'') [''/p/lib.nt'', ''/p/main.nt''] \<and>
   path_starts_with ''/p/lib.nt'' ''/p''"
  using discover_order [OF sample_discovery refl refl]
  by (simp add: project_root_def path_parent_def)

text \<open>
  A cycle is reported only for a chain of imports that starts at the entry and comes back to one of its
  files, and a discovery that succeeds has found that there is no such chain.
\<close>

theorem discover_cycle:
  assumes "fs_canonicalize fs entry = Inr e" "imp = project_imports raw fs (project_root e)"
  shows "case discover raw fs fuel entry of
      Some (Inl (Load_Cycle p chain)) \<Rightarrow> import_cycle imp e chain \<and> last (butlast chain) = p
    | Some (Inr g) \<Rightarrow> (\<nexists>chain. import_cycle imp e chain)
    | _ \<Rightarrow> True"
proof -
  let ?r = "visit raw fs (project_root e) fuel e no_discovery"
  have s: "sound imp e (visited imp e e no_discovery) ?r"
    using visit_sound [OF discovery_start] assms(2) by simp
  have "\<nexists>chain. import_cycle imp e chain" if "?r = Some (Inr d)" for d
  proof -
    have "discovery_ok imp e d" "dv_stack d = []" "e \<in> set (dv_files d)"
      using s that by (simp_all add: sound_def visited_def grows_def no_discovery_def)
    then show ?thesis
      using deps_first_acyclic deps_first_reach import_cycle_reach
      by (metis append_Nil2 discovery_ok_def)
  qed
  then show ?thesis
    using s assms(1)
    by (auto simp: discover_def canonicalize_def map_io_def sound_def map_sum_eq_iff
        split: option.splits sum.splits module_load_error.splits)
qed

theorem discover_cycle_witness: "\<nexists>chain. import_cycle (project_imports raw_rules sample_files ''/p'') ''/p/main.nt'' chain"
proof -
  have "fs_canonicalize sample_files ''main.nt'' = Inr ''/p/main.nt''" by (simp add: sample_files_def)
  from discover_cycle [OF this refl, of raw_rules 3] show ?thesis
    by (simp add: sample_discovery project_root_def path_parent_def)
qed

text \<open>
  Discovery returns, on every file system with finitely many readable files, cyclic imports included,
  with more fuel than there are readable files.
\<close>

theorem discover_returns:
  assumes "logos_lexer raw" "finite (readable fs)" "card (readable fs) < fuel"
  shows "\<exists>r. discover raw fs fuel entry = Some r"
  using logos_lexer.visit_returns [OF assms(1,2)] assms(3)
  by (auto simp: discover_def no_discovery_def split: sum.splits)

lemma sample_readable: "readable sample_files = {''/p/main.nt'', ''/p/lib.nt''}"
  by (auto simp: readable_def sample_files_def)

theorem discover_returns_witness: "\<exists>r. discover raw_rules sample_files 3 ''lib.nt'' = Some r"
  by (rule discover_returns [OF rules.logos_lexer_axioms]) (simp_all add: sample_readable)

end
