(* ===== verification/Module_Alias.thy ===== *)
theory Module_Alias
  imports Span_Shift
begin

text \<open>
  Namespaces of aliased imports (\<open>crates/ntsc-build/src/aliases.rs\<close>): a module that is imported with
  \<open>use "file.nt" as arm\<close> has its top-level symbols renamed to \<open>arm::name\<close>, and its own references to
  them. The rewriter is its prefix, the set of the module's own names and a stack of scopes, the
  innermost first. Rewriting an expression leaves the scopes as they were, so it is a function of
  the rewriter; rewriting a statement adds to the innermost scope and returns the rewriter too.
  The methods of a class, trait or implementation and the cases of a match are nested
  lists of statements: their functions are collected with \<open>map\<close> and applied one after the other.
\<close>

section \<open>The rewriter\<close>

record rewriter =
  rw_prefix :: string
  rw_own :: "string set"
  rw_scopes :: "string set list"

definition rename :: "rewriter \<Rightarrow> string \<Rightarrow> string" where
  "rename rw name = rw_prefix rw @ ''::'' @ name"

definition should_rename :: "rewriter \<Rightarrow> string \<Rightarrow> bool" where
  "should_rename rw name \<longleftrightarrow> name \<in> rw_own rw \<and> \<not> list_ex (\<lambda>scope. name \<in> scope) (rw_scopes rw)"

definition id_token :: "rewriter \<Rightarrow> token \<Rightarrow> bool \<Rightarrow> token" where
  "id_token rw tok bind =
     (if \<not> bind \<and> should_rename rw (lexeme tok) then tok\<lparr>kind := TkIdentifier (rename rw (lexeme tok))\<rparr> else tok)"

definition rw_push :: "rewriter \<Rightarrow> rewriter" where
  "rw_push rw = rw\<lparr>rw_scopes := {} # rw_scopes rw\<rparr>"

text \<open>\<open>self.scopes.last_mut().unwrap().insert(..)\<close>; there always is a scope.\<close>

definition rw_bind :: "token \<Rightarrow> rewriter \<Rightarrow> rewriter" where
  "rw_bind t rw =
     rw\<lparr>rw_scopes := (case rw_scopes rw of [] \<Rightarrow> [] | scope # rest \<Rightarrow> insert (lexeme t) scope # rest)\<rparr>"

definition rw_bind_option :: "token option \<Rightarrow> rewriter \<Rightarrow> rewriter" where
  "rw_bind_option t rw = (case t of None \<Rightarrow> rw | Some v \<Rightarrow> rw_bind v rw)"

fun rw_ty :: "rewriter \<Rightarrow> type_annotation \<Rightarrow> type_annotation" where
  "rw_ty rw (TANamed t) = TANamed (id_token rw t False)"
| "rw_ty rw (TAArray inner) = TAArray (map_option (rw_ty rw) inner)"
| "rw_ty rw (TAOption inner) = TAOption (rw_ty rw inner)"
| "rw_ty rw (TAResult k e) = TAResult (rw_ty rw k) (rw_ty rw e)"
| "rw_ty rw (TAView inner m) = TAView (rw_ty rw inner) m"
| "rw_ty rw (TAShared inner) = TAShared (rw_ty rw inner)"
| "rw_ty rw (TASlice inner) = TASlice (map_option (rw_ty rw) inner)"
| "rw_ty rw (TAOwn inner) = TAOwn (rw_ty rw inner)"
| "rw_ty rw (TARef inner m) = TARef (rw_ty rw inner) m"
| "rw_ty rw (TARawPointer inner m) = TARawPointer (rw_ty rw inner) m"
| "rw_ty rw (TAImplTrait t) = TAImplTrait (id_token rw t False)"
| "rw_ty rw (TADyn t) = TADyn (id_token rw t False)"
| "rw_ty rw (TATuple inner) = TATuple (map (rw_ty rw) inner)"
| "rw_ty rw ta = ta"

definition rw_return :: "rewriter \<Rightarrow> return_type \<Rightarrow> return_type" where
  "rw_return rw rt = rt\<lparr>rt_ty := rw_ty rw (rt_ty rt)\<rparr>"

primrec rw_params :: "function_param list \<Rightarrow> rewriter \<Rightarrow> function_param list \<times> rewriter" where
  "rw_params [] rw = ([], rw)"
| "rw_params (p # ps) rw =
     (let rw1 = rw_bind (fp_name p) rw;
          r = rw_params ps rw1
      in (p\<lparr>fp_type := map_option (rw_ty rw1) (fp_type p)\<rparr> # fst r, snd r))"

text \<open>\<open>stmt_push\<close>, \<open>stmts\<close> and the loops over methods and cases, on the functions of the parts.\<close>

definition stmt_push :: "(rewriter \<Rightarrow> stmt \<times> rewriter) \<Rightarrow> rewriter \<Rightarrow> stmt" where
  "stmt_push f rw = fst (f (rw_push rw))"

definition rw_stmts :: "(rewriter \<Rightarrow> stmt \<times> rewriter) list \<Rightarrow> rewriter \<Rightarrow> stmt list" where
  "rw_stmts fs rw = map (\<lambda>f. stmt_push f rw) fs"

definition rw_exprs :: "(rewriter \<Rightarrow> expr) list \<Rightarrow> rewriter \<Rightarrow> expr list" where
  "rw_exprs fs rw = map (\<lambda>f. f rw) fs"

primrec rw_thread :: "(rewriter \<Rightarrow> 'a \<times> rewriter) list \<Rightarrow> rewriter \<Rightarrow> 'a list \<times> rewriter" where
  "rw_thread [] rw = ([], rw)"
| "rw_thread (f # fs) rw = (let r = f rw; rs = rw_thread fs (snd r) in (fst r # fst rs, snd rs))"

primrec
      rw_expr :: "expr \<Rightarrow> rewriter \<Rightarrow> expr"
  and rw_property :: "object_property \<Rightarrow> rewriter \<Rightarrow> object_property"
  and rw_stmt :: "stmt \<Rightarrow> rewriter \<Rightarrow> stmt \<times> rewriter"
  and rw_elif :: "elif_branch \<Rightarrow> rewriter \<Rightarrow> elif_branch"
  and rw_case :: "match_case \<Rightarrow> rewriter \<Rightarrow> match_case \<times> rewriter"
  and rw_member :: "enum_member \<Rightarrow> rewriter \<Rightarrow> enum_member"
where
  "rw_expr (ELiteral val sp) rw = ELiteral val sp"
| "rw_expr (EVariable name) rw = EVariable (id_token rw name False)"
| "rw_expr (EBinary left op right) rw = EBinary (rw_expr left rw) op (rw_expr right rw)"
| "rw_expr (EUnary op right) rw = EUnary op (rw_expr right rw)"
| "rw_expr (EPostfixUnary op left) rw = EPostfixUnary op (rw_expr left rw)"
| "rw_expr (EGrouping expression open_span close_span) rw = EGrouping (rw_expr expression rw) open_span close_span"
| "rw_expr (EMember object property) rw = EMember (rw_expr object rw) property"
| "rw_expr (EOptionalMember object property) rw = EOptionalMember (rw_expr object rw) property"
| "rw_expr (ECall callee paren arguments) rw = ECall (rw_expr callee rw) paren (rw_exprs (map rw_expr arguments) rw)"
| "rw_expr (EAssign name val) rw = EAssign (id_token rw name False) (rw_expr val rw)"
| "rw_expr (EIndexGet object index) rw = EIndexGet (rw_expr object rw) (rw_expr index rw)"
| "rw_expr (EIndexSet object index val) rw = EIndexSet (rw_expr object rw) (rw_expr index rw) (rw_expr val rw)"
| "rw_expr (EMemberSet object property val) rw = EMemberSet (rw_expr object rw) property (rw_expr val rw)"
| "rw_expr (EThis keyword) rw = EThis keyword"
| "rw_expr (ELambda params ret body sp) rw =
     (let ps = rw_params params (rw_push rw)
      in ELambda (fst ps) (map_option (rw_return (snd ps)) ret) (rw_stmts (map rw_stmt body) (snd ps)) sp)"
| "rw_expr (ETernary condition then_branch else_branch) rw = ETernary (rw_expr condition rw) (rw_expr then_branch rw) (rw_expr else_branch rw)"
| "rw_expr (ESpread val op_span) rw = ESpread (rw_expr val rw) op_span"
| "rw_expr (EObjectLiteral properties sp) rw = EObjectLiteral (map (\<lambda>f. f rw) (map rw_property properties)) sp"
| "rw_expr (EArrayLiteral elements sp) rw = EArrayLiteral (rw_exprs (map rw_expr elements) rw) sp"
| "rw_expr (EAwait callee arguments sp) rw = EAwait (rw_expr callee rw) (rw_exprs (map rw_expr arguments) rw) sp"
| "rw_expr (EAsyncBlock body ret sp) rw = EAsyncBlock (rw_stmts (map rw_stmt body) rw) (map_option (rw_return rw) ret) sp"
| "rw_expr (EView target mutable keyword) rw = EView (rw_expr target rw) mutable keyword"
| "rw_expr (ECopy expression keyword) rw = ECopy (rw_expr expression rw) keyword"
| "rw_expr (EBorrow target mutable keyword) rw = EBorrow (rw_expr target rw) mutable keyword"
| "rw_expr (ERawDeref target star) rw = ERawDeref (rw_expr target rw) star"
| "rw_expr (ERawDerefSet target val star) rw = ERawDerefSet (rw_expr target rw) (rw_expr val rw) star"
| "rw_expr (EStructLiteral class_name flds update sp) rw = EStructLiteral (id_token rw class_name False) (map (\<lambda>f. f rw) (map rw_property flds)) (map_option (\<lambda>f. f rw) (map_option rw_expr update)) sp"
| "rw_expr (EPropagate val question_span) rw = EPropagate (rw_expr val rw) question_span"
| "rw_expr (ETupleLiteral elements sp) rw = ETupleLiteral (rw_exprs (map rw_expr elements) rw) sp"
| "rw_expr (ETupleIndex object index dot_span) rw = ETupleIndex (rw_expr object rw) index dot_span"
| "rw_expr (EChanSend channel val op_span) rw = EChanSend (rw_expr channel rw) (rw_expr val rw) op_span"
| "rw_expr (EChanRecv receiver channel op_span) rw = EChanRecv receiver (rw_expr channel rw) op_span"
| "rw_expr (EClose channel keyword) rw = EClose (rw_expr channel rw) keyword"
| "rw_property (ObjectProperty key val key_span) rw = ObjectProperty key (rw_expr val rw) key_span"
| "rw_stmt (SExpression expression) rw =
     (SExpression (rw_expr expression rw), rw)"
| "rw_stmt (SSay expression keyword_span) rw =
     (SSay (rw_expr expression rw) keyword_span, rw)"
| "rw_stmt (SVar name ta init is_static is_const view) rw =
     (SVar (id_token rw name (\<not> is_static)) (map_option (rw_ty rw) ta) (map_option (\<lambda>f. f rw) (map_option rw_expr init)) is_static is_const view, rw)"
| "rw_stmt (SBlock stmts open_span close_span) rw =
     (SBlock (rw_stmts (map rw_stmt stmts) rw) open_span close_span, rw)"
| "rw_stmt (SIf condition then_branch elifs else_branch) rw =
     (SIf (rw_expr condition rw) (stmt_push (rw_stmt then_branch) rw) (map (\<lambda>f. f rw) (map rw_elif elifs)) (map_option (\<lambda>f. stmt_push f rw) (map_option rw_stmt else_branch)), rw)"
| "rw_stmt (SWhile condition body) rw =
     (SWhile (rw_expr condition rw) (stmt_push (rw_stmt body) rw), rw)"
| "rw_stmt (SDoWhile body condition) rw =
     (SDoWhile (stmt_push (rw_stmt body) rw) (rw_expr condition rw), rw)"
| "rw_stmt (SFor init condition update body) rw =
     (SFor (map_option (\<lambda>f. stmt_push f rw) (map_option rw_stmt init)) (map_option (\<lambda>f. f rw) (map_option rw_expr condition)) (map_option (\<lambda>f. f rw) (map_option rw_expr update)) (stmt_push (rw_stmt body) rw), rw)"
| "rw_stmt (SForIn variable iterable body) rw =
     (let rw1 = rw_bind variable rw; r = rw_stmt body rw1
      in (SForIn variable (rw_expr iterable rw1) (fst r), snd r))"
| "rw_stmt (SForAwait variable producer body) rw =
     (let rw1 = rw_bind variable rw; r = rw_stmt body rw1
      in (SForAwait variable (rw_expr producer rw1) (fst r), snd r))"
| "rw_stmt (SChanRecvFor variable channel body) rw =
     (let rw1 = rw_bind variable rw; r = rw_stmt body rw1
      in (SChanRecvFor variable (rw_expr channel rw1) (fst r), snd r))"
| "rw_stmt (SGo call block keyword_span) rw =
     (SGo (rw_expr call rw) (map_option (\<lambda>fs. rw_stmts fs rw) (map_option (map rw_stmt) block)) keyword_span, rw)"
| "rw_stmt (SFunction name generics params ret body) rw =
     (let ps = rw_params params rw
      in (SFunction (id_token rw name False) generics (fst ps) (map_option (rw_return (snd ps)) ret) (rw_stmts (map rw_stmt body) (snd ps)), snd ps))"
| "rw_stmt (SAsyncFunction name params ret body) rw =
     (let ps = rw_params params rw
      in (SAsyncFunction (id_token rw name False) (fst ps) (map_option (rw_return (snd ps)) ret) (rw_stmts (map rw_stmt body) (snd ps)), snd ps))"
| "rw_stmt (SReturn val) rw =
     (SReturn (map_option (\<lambda>f. f rw) (map_option rw_expr val)), rw)"
| "rw_stmt (SClass name generics parent body) rw =
     (SClass (id_token rw name False) generics (map_option (\<lambda>t. id_token rw t False) parent) (rw_stmts (map rw_stmt body) rw), rw)"
| "rw_stmt (SBreak sp) rw =
     (SBreak sp, rw)"
| "rw_stmt (SContinue sp) rw =
     (SContinue sp, rw)"
| "rw_stmt (SMatch expression cases default_case) rw =
     (let cs = rw_thread (map rw_case cases) rw
      in (SMatch (rw_expr expression rw) (fst cs) (map_option (\<lambda>f. stmt_push f (snd cs)) (map_option rw_stmt default_case)), snd cs))"
| "rw_stmt (STry try_block catch_var catch_block finally_block) rw =
     (let rw1 = rw_bind_option catch_var rw
      in (STry (stmt_push (rw_stmt try_block) rw1) catch_var (map_option (\<lambda>f. stmt_push f rw1) (map_option rw_stmt catch_block))
            (map_option (\<lambda>f. stmt_push f rw1) (map_option rw_stmt finally_block)), rw1))"
| "rw_stmt (SThrow val) rw =
     (SThrow (rw_expr val rw), rw)"
| "rw_stmt (SRetry cnt body catch_var catch_block) rw =
     (let rw1 = rw_bind_option catch_var rw
      in (SRetry (rw_expr cnt rw1) (stmt_push (rw_stmt body) rw1) catch_var (map_option (\<lambda>f. stmt_push f rw1) (map_option rw_stmt catch_block)), rw1))"
| "rw_stmt (SUnsafe body) rw =
     (SUnsafe (stmt_push (rw_stmt body) rw), rw)"
| "rw_stmt (SQuiet lints body) rw =
     (SQuiet lints (stmt_push (rw_stmt body) rw), rw)"
| "rw_stmt (SDestructure is_array is_tuple names keys init) rw =
     (let rw1 = fold rw_bind names rw in (SDestructure is_array is_tuple names keys (rw_expr init rw1), rw1))"
| "rw_stmt (SUse library is_file_path symbols alias) rw =
     (SUse library is_file_path symbols alias, rw)"
| "rw_stmt (SEnum name generics members) rw =
     (SEnum (id_token rw name False) generics (map (\<lambda>f. f rw) (map rw_member members)), rw)"
| "rw_stmt (STypeAlias name generics target) rw =
     (STypeAlias (id_token rw name False) generics (rw_ty rw target), rw)"
| "rw_stmt (STrait name parents associated_types methods) rw =
     (let ms = rw_thread (map rw_stmt methods) rw
      in (STrait (id_token rw name False) (map (\<lambda>t. id_token rw t False) parents) (map (\<lambda>t. id_token rw t False) associated_types) (fst ms), snd ms))"
| "rw_stmt (SImpl trait_name type_name body) rw =
     (let ms = rw_thread (map rw_stmt body) rw
      in (SImpl (id_token rw trait_name False) (id_token rw type_name False) (fst ms), snd ms))"
| "rw_stmt (STest name body) rw =
     (let rw1 = rw_bind name rw in (STest name (rw_stmts (map rw_stmt body) rw1), rw1))"
| "rw_elif (ElifBranch condition body elif_span) rw =
     ElifBranch (rw_expr condition rw) (stmt_push (rw_stmt body) rw) elif_span"
| "rw_case (MatchCase val pat guard body case_span) rw =
     (let rw1 = rw_bind_option (Option.bind pat mp_binding) rw
      in (MatchCase (rw_expr val rw1) (map_option (\<lambda>p. p\<lparr>mp_variant := id_token rw1 (mp_variant p) False\<rparr>) pat)
            (map_option (\<lambda>f. f rw1) (map_option rw_expr guard)) (stmt_push (rw_stmt body) rw1) case_span, rw1))"
| "rw_member (EnumMember name val data_types) rw =
     EnumMember name (map_option (\<lambda>f. f rw) (map_option rw_expr val)) (map (rw_ty rw) data_types)"

section \<open>Namespaces\<close>

definition own_name :: "stmt \<Rightarrow> string list" where
  "own_name s =
     (case s of
        SFunction name _ _ _ _ \<Rightarrow> [lexeme name]
      | SAsyncFunction name _ _ _ \<Rightarrow> [lexeme name]
      | SClass name _ _ _ \<Rightarrow> [lexeme name]
      | SEnum name _ _ \<Rightarrow> [lexeme name]
      | STypeAlias name _ _ \<Rightarrow> [lexeme name]
      | STrait name _ _ _ \<Rightarrow> [lexeme name]
      | SVar name _ _ True _ _ \<Rightarrow> [lexeme name]
      | _ \<Rightarrow> [])"

definition top_level_names :: "stmt list \<Rightarrow> string set" where
  "top_level_names ss = set (concat (map own_name ss))"

definition namespaced :: "stmt list \<Rightarrow> string \<Rightarrow> string set \<Rightarrow> stmt list" where
  "namespaced ss prefix own =
     rw_stmts (map rw_stmt ss) \<lparr>rw_prefix = prefix, rw_own = own, rw_scopes = [{}]\<rparr>"

section \<open>Renaming without scopes\<close>

text \<open>The specification: a function on the tokens that refer to a symbol, applied everywhere.\<close>

fun ren_type :: "(token \<Rightarrow> token) \<Rightarrow> type_annotation \<Rightarrow> type_annotation" where
  "ren_type h (TANamed t) = TANamed (h t)"
| "ren_type h (TAArray inner) = TAArray (map_option (ren_type h) inner)"
| "ren_type h (TAOption inner) = TAOption (ren_type h inner)"
| "ren_type h (TAResult k e) = TAResult (ren_type h k) (ren_type h e)"
| "ren_type h (TAView inner m) = TAView (ren_type h inner) m"
| "ren_type h (TAShared inner) = TAShared (ren_type h inner)"
| "ren_type h (TASlice inner) = TASlice (map_option (ren_type h) inner)"
| "ren_type h (TAOwn inner) = TAOwn (ren_type h inner)"
| "ren_type h (TARef inner m) = TARef (ren_type h inner) m"
| "ren_type h (TARawPointer inner m) = TARawPointer (ren_type h inner) m"
| "ren_type h (TAImplTrait t) = TAImplTrait (h t)"
| "ren_type h (TADyn t) = TADyn (h t)"
| "ren_type h (TATuple inner) = TATuple (map (ren_type h) inner)"
| "ren_type h ta = ta"

definition ren_return :: "(token \<Rightarrow> token) \<Rightarrow> return_type \<Rightarrow> return_type" where
  "ren_return h rt = rt\<lparr>rt_ty := ren_type h (rt_ty rt)\<rparr>"

definition ren_param :: "(token \<Rightarrow> token) \<Rightarrow> function_param \<Rightarrow> function_param" where
  "ren_param h p = p\<lparr>fp_type := map_option (ren_type h) (fp_type p)\<rparr>"

primrec
      ren_expr :: "(token \<Rightarrow> token) \<Rightarrow> expr \<Rightarrow> expr"
  and ren_property :: "(token \<Rightarrow> token) \<Rightarrow> object_property \<Rightarrow> object_property"
  and ren_stmt :: "(token \<Rightarrow> token) \<Rightarrow> stmt \<Rightarrow> stmt"
  and ren_elif :: "(token \<Rightarrow> token) \<Rightarrow> elif_branch \<Rightarrow> elif_branch"
  and ren_case :: "(token \<Rightarrow> token) \<Rightarrow> match_case \<Rightarrow> match_case"
  and ren_member :: "(token \<Rightarrow> token) \<Rightarrow> enum_member \<Rightarrow> enum_member"
where
  "ren_expr h (ELiteral val sp) = ELiteral val sp"
| "ren_expr h (EVariable name) = EVariable (h name)"
| "ren_expr h (EBinary left op right) = EBinary (ren_expr h left) op (ren_expr h right)"
| "ren_expr h (EUnary op right) = EUnary op (ren_expr h right)"
| "ren_expr h (EPostfixUnary op left) = EPostfixUnary op (ren_expr h left)"
| "ren_expr h (EGrouping expression open_span close_span) = EGrouping (ren_expr h expression) open_span close_span"
| "ren_expr h (EMember object property) = EMember (ren_expr h object) property"
| "ren_expr h (EOptionalMember object property) = EOptionalMember (ren_expr h object) property"
| "ren_expr h (ECall callee paren arguments) = ECall (ren_expr h callee) paren (map (ren_expr h) arguments)"
| "ren_expr h (EAssign name val) = EAssign (h name) (ren_expr h val)"
| "ren_expr h (EIndexGet object index) = EIndexGet (ren_expr h object) (ren_expr h index)"
| "ren_expr h (EIndexSet object index val) = EIndexSet (ren_expr h object) (ren_expr h index) (ren_expr h val)"
| "ren_expr h (EMemberSet object property val) = EMemberSet (ren_expr h object) property (ren_expr h val)"
| "ren_expr h (EThis keyword) = EThis keyword"
| "ren_expr h (ELambda params ret body sp) =
     ELambda (map (ren_param h) params) (map_option (ren_return h) ret) (map (ren_stmt h) body) sp"
| "ren_expr h (ETernary condition then_branch else_branch) = ETernary (ren_expr h condition) (ren_expr h then_branch) (ren_expr h else_branch)"
| "ren_expr h (ESpread val op_span) = ESpread (ren_expr h val) op_span"
| "ren_expr h (EObjectLiteral properties sp) = EObjectLiteral (map (ren_property h) properties) sp"
| "ren_expr h (EArrayLiteral elements sp) = EArrayLiteral (map (ren_expr h) elements) sp"
| "ren_expr h (EAwait callee arguments sp) = EAwait (ren_expr h callee) (map (ren_expr h) arguments) sp"
| "ren_expr h (EAsyncBlock body ret sp) = EAsyncBlock (map (ren_stmt h) body) (map_option (ren_return h) ret) sp"
| "ren_expr h (EView target mutable keyword) = EView (ren_expr h target) mutable keyword"
| "ren_expr h (ECopy expression keyword) = ECopy (ren_expr h expression) keyword"
| "ren_expr h (EBorrow target mutable keyword) = EBorrow (ren_expr h target) mutable keyword"
| "ren_expr h (ERawDeref target star) = ERawDeref (ren_expr h target) star"
| "ren_expr h (ERawDerefSet target val star) = ERawDerefSet (ren_expr h target) (ren_expr h val) star"
| "ren_expr h (EStructLiteral class_name flds update sp) = EStructLiteral (h class_name) (map (ren_property h) flds) (map_option (ren_expr h) update) sp"
| "ren_expr h (EPropagate val question_span) = EPropagate (ren_expr h val) question_span"
| "ren_expr h (ETupleLiteral elements sp) = ETupleLiteral (map (ren_expr h) elements) sp"
| "ren_expr h (ETupleIndex object index dot_span) = ETupleIndex (ren_expr h object) index dot_span"
| "ren_expr h (EChanSend channel val op_span) = EChanSend (ren_expr h channel) (ren_expr h val) op_span"
| "ren_expr h (EChanRecv receiver channel op_span) = EChanRecv receiver (ren_expr h channel) op_span"
| "ren_expr h (EClose channel keyword) = EClose (ren_expr h channel) keyword"
| "ren_property h (ObjectProperty key val key_span) = ObjectProperty key (ren_expr h val) key_span"
| "ren_stmt h (SExpression expression) =
     SExpression (ren_expr h expression)"
| "ren_stmt h (SSay expression keyword_span) =
     SSay (ren_expr h expression) keyword_span"
| "ren_stmt h (SVar name ta init is_static is_const view) =
     SVar (if is_static then h name else name) (map_option (ren_type h) ta) (map_option (ren_expr h) init) is_static is_const view"
| "ren_stmt h (SBlock stmts open_span close_span) =
     SBlock (map (ren_stmt h) stmts) open_span close_span"
| "ren_stmt h (SIf condition then_branch elifs else_branch) =
     SIf (ren_expr h condition) (ren_stmt h then_branch) (map (ren_elif h) elifs) (map_option (ren_stmt h) else_branch)"
| "ren_stmt h (SWhile condition body) =
     SWhile (ren_expr h condition) (ren_stmt h body)"
| "ren_stmt h (SDoWhile body condition) =
     SDoWhile (ren_stmt h body) (ren_expr h condition)"
| "ren_stmt h (SFor init condition update body) =
     SFor (map_option (ren_stmt h) init) (map_option (ren_expr h) condition) (map_option (ren_expr h) update) (ren_stmt h body)"
| "ren_stmt h (SForIn variable iterable body) =
     SForIn variable (ren_expr h iterable) (ren_stmt h body)"
| "ren_stmt h (SForAwait variable producer body) =
     SForAwait variable (ren_expr h producer) (ren_stmt h body)"
| "ren_stmt h (SChanRecvFor variable channel body) =
     SChanRecvFor variable (ren_expr h channel) (ren_stmt h body)"
| "ren_stmt h (SGo call block keyword_span) =
     SGo (ren_expr h call) (map_option (map (ren_stmt h)) block) keyword_span"
| "ren_stmt h (SFunction name generics params ret body) =
     SFunction (h name) generics (map (ren_param h) params) (map_option (ren_return h) ret) (map (ren_stmt h) body)"
| "ren_stmt h (SAsyncFunction name params ret body) =
     SAsyncFunction (h name) (map (ren_param h) params) (map_option (ren_return h) ret) (map (ren_stmt h) body)"
| "ren_stmt h (SReturn val) =
     SReturn (map_option (ren_expr h) val)"
| "ren_stmt h (SClass name generics parent body) =
     SClass (h name) generics (map_option h parent) (map (ren_stmt h) body)"
| "ren_stmt h (SBreak sp) =
     SBreak sp"
| "ren_stmt h (SContinue sp) =
     SContinue sp"
| "ren_stmt h (SMatch expression cases default_case) =
     SMatch (ren_expr h expression) (map (ren_case h) cases) (map_option (ren_stmt h) default_case)"
| "ren_stmt h (STry try_block catch_var catch_block finally_block) =
     STry (ren_stmt h try_block) catch_var (map_option (ren_stmt h) catch_block) (map_option (ren_stmt h) finally_block)"
| "ren_stmt h (SThrow val) =
     SThrow (ren_expr h val)"
| "ren_stmt h (SRetry cnt body catch_var catch_block) =
     SRetry (ren_expr h cnt) (ren_stmt h body) catch_var (map_option (ren_stmt h) catch_block)"
| "ren_stmt h (SUnsafe body) =
     SUnsafe (ren_stmt h body)"
| "ren_stmt h (SQuiet lints body) =
     SQuiet lints (ren_stmt h body)"
| "ren_stmt h (SDestructure is_array is_tuple names keys init) =
     SDestructure is_array is_tuple names keys (ren_expr h init)"
| "ren_stmt h (SUse library is_file_path symbols alias) =
     SUse library is_file_path symbols alias"
| "ren_stmt h (SEnum name generics members) =
     SEnum (h name) generics (map (ren_member h) members)"
| "ren_stmt h (STypeAlias name generics target) =
     STypeAlias (h name) generics (ren_type h target)"
| "ren_stmt h (STrait name parents associated_types methods) =
     STrait (h name) (map h parents) (map h associated_types) (map (ren_stmt h) methods)"
| "ren_stmt h (SImpl trait_name type_name body) =
     SImpl (h trait_name) (h type_name) (map (ren_stmt h) body)"
| "ren_stmt h (STest name body) =
     STest name (map (ren_stmt h) body)"
| "ren_elif h (ElifBranch condition body elif_span) = ElifBranch (ren_expr h condition) (ren_stmt h body) elif_span"
| "ren_case h (MatchCase val pat guard body case_span) =
     MatchCase (ren_expr h val) (map_option (\<lambda>p. p\<lparr>mp_variant := h (mp_variant p)\<rparr>) pat) (map_option (ren_expr h) guard) (ren_stmt h body) case_span"
| "ren_member h (EnumMember name val data_types) = EnumMember name (map_option (ren_expr h) val) (map (ren_type h) data_types)"

text \<open>The names that the rewriter puts in a scope.\<close>

definition param_binders :: "function_param list \<Rightarrow> string list" where
  "param_binders ps = map (\<lambda>p. lexeme (fp_name p)) ps"

primrec
      expr_binders :: "expr \<Rightarrow> string list"
  and property_binders :: "object_property \<Rightarrow> string list"
  and stmt_binders :: "stmt \<Rightarrow> string list"
  and elif_binders :: "elif_branch \<Rightarrow> string list"
  and case_binders :: "match_case \<Rightarrow> string list"
  and member_binders :: "enum_member \<Rightarrow> string list"
where
  "expr_binders (ELiteral val sp) = []"
| "expr_binders (EVariable name) = []"
| "expr_binders (EBinary left op right) = expr_binders left @ expr_binders right"
| "expr_binders (EUnary op right) = expr_binders right"
| "expr_binders (EPostfixUnary op left) = expr_binders left"
| "expr_binders (EGrouping expression open_span close_span) = expr_binders expression"
| "expr_binders (EMember object property) = expr_binders object"
| "expr_binders (EOptionalMember object property) = expr_binders object"
| "expr_binders (ECall callee paren arguments) = expr_binders callee @ concat (map expr_binders arguments)"
| "expr_binders (EAssign name val) = expr_binders val"
| "expr_binders (EIndexGet object index) = expr_binders object @ expr_binders index"
| "expr_binders (EIndexSet object index val) = expr_binders object @ expr_binders index @ expr_binders val"
| "expr_binders (EMemberSet object property val) = expr_binders object @ expr_binders val"
| "expr_binders (EThis keyword) = []"
| "expr_binders (ELambda params ret body sp) = param_binders params @ concat (map stmt_binders body)"
| "expr_binders (ETernary condition then_branch else_branch) = expr_binders condition @ expr_binders then_branch @ expr_binders else_branch"
| "expr_binders (ESpread val op_span) = expr_binders val"
| "expr_binders (EObjectLiteral properties sp) = concat (map property_binders properties)"
| "expr_binders (EArrayLiteral elements sp) = concat (map expr_binders elements)"
| "expr_binders (EAwait callee arguments sp) = expr_binders callee @ concat (map expr_binders arguments)"
| "expr_binders (EAsyncBlock body ret sp) = concat (map stmt_binders body)"
| "expr_binders (EView target mutable keyword) = expr_binders target"
| "expr_binders (ECopy expression keyword) = expr_binders expression"
| "expr_binders (EBorrow target mutable keyword) = expr_binders target"
| "expr_binders (ERawDeref target star) = expr_binders target"
| "expr_binders (ERawDerefSet target val star) = expr_binders target @ expr_binders val"
| "expr_binders (EStructLiteral class_name flds update sp) = concat (map property_binders flds) @ opt_list (map_option expr_binders update)"
| "expr_binders (EPropagate val question_span) = expr_binders val"
| "expr_binders (ETupleLiteral elements sp) = concat (map expr_binders elements)"
| "expr_binders (ETupleIndex object index dot_span) = expr_binders object"
| "expr_binders (EChanSend channel val op_span) = expr_binders channel @ expr_binders val"
| "expr_binders (EChanRecv receiver channel op_span) = expr_binders channel"
| "expr_binders (EClose channel keyword) = expr_binders channel"
| "property_binders (ObjectProperty key val key_span) = expr_binders val"
| "stmt_binders (SExpression expression) = expr_binders expression"
| "stmt_binders (SSay expression keyword_span) = expr_binders expression"
| "stmt_binders (SVar name ta init is_static is_const view) = opt_list (map_option expr_binders init)"
| "stmt_binders (SBlock stmts open_span close_span) = concat (map stmt_binders stmts)"
| "stmt_binders (SIf condition then_branch elifs else_branch) = expr_binders condition @ stmt_binders then_branch @ concat (map elif_binders elifs) @ opt_list (map_option stmt_binders else_branch)"
| "stmt_binders (SWhile condition body) = expr_binders condition @ stmt_binders body"
| "stmt_binders (SDoWhile body condition) = stmt_binders body @ expr_binders condition"
| "stmt_binders (SFor init condition update body) = opt_list (map_option stmt_binders init) @ opt_list (map_option expr_binders condition) @ opt_list (map_option expr_binders update) @ stmt_binders body"
| "stmt_binders (SForIn variable iterable body) = [lexeme variable] @ expr_binders iterable @ stmt_binders body"
| "stmt_binders (SForAwait variable producer body) = [lexeme variable] @ expr_binders producer @ stmt_binders body"
| "stmt_binders (SChanRecvFor variable channel body) = [lexeme variable] @ expr_binders channel @ stmt_binders body"
| "stmt_binders (SGo call block keyword_span) = expr_binders call @ opt_list (map_option concat (map_option (map stmt_binders) block))"
| "stmt_binders (SFunction name generics params ret body) = param_binders params @ concat (map stmt_binders body)"
| "stmt_binders (SAsyncFunction name params ret body) = param_binders params @ concat (map stmt_binders body)"
| "stmt_binders (SReturn val) = opt_list (map_option expr_binders val)"
| "stmt_binders (SClass name generics parent body) = concat (map stmt_binders body)"
| "stmt_binders (SBreak sp) = []"
| "stmt_binders (SContinue sp) = []"
| "stmt_binders (SMatch expression cases default_case) = expr_binders expression @ concat (map case_binders cases) @ opt_list (map_option stmt_binders default_case)"
| "stmt_binders (STry try_block catch_var catch_block finally_block) = stmt_binders try_block @ opt_list (map_option (\<lambda>t. [lexeme t]) catch_var) @ opt_list (map_option stmt_binders catch_block) @ opt_list (map_option stmt_binders finally_block)"
| "stmt_binders (SThrow val) = expr_binders val"
| "stmt_binders (SRetry cnt body catch_var catch_block) = expr_binders cnt @ stmt_binders body @ opt_list (map_option (\<lambda>t. [lexeme t]) catch_var) @ opt_list (map_option stmt_binders catch_block)"
| "stmt_binders (SUnsafe body) = stmt_binders body"
| "stmt_binders (SQuiet lints body) = stmt_binders body"
| "stmt_binders (SDestructure is_array is_tuple names keys init) = map lexeme names @ expr_binders init"
| "stmt_binders (SUse library is_file_path symbols alias) = []"
| "stmt_binders (SEnum name generics members) = concat (map member_binders members)"
| "stmt_binders (STypeAlias name generics target) = []"
| "stmt_binders (STrait name parents associated_types methods) = concat (map stmt_binders methods)"
| "stmt_binders (SImpl trait_name type_name body) = concat (map stmt_binders body)"
| "stmt_binders (STest name body) = [lexeme name] @ concat (map stmt_binders body)"
| "elif_binders (ElifBranch condition body elif_span) = expr_binders condition @ stmt_binders body"
| "case_binders (MatchCase val pat guard body case_span) =
     opt_list (map_option (\<lambda>t. [lexeme t]) (Option.bind pat mp_binding)) @ expr_binders val @ opt_list (map_option expr_binders guard) @ stmt_binders body"
| "member_binders (EnumMember name val data_types) = opt_list (map_option expr_binders val)"

section \<open>The rewriter renames the references\<close>

text \<open>The rewriter stands for the function that renames the module's own names when no scope holds one.\<close>

definition own_token :: "string \<Rightarrow> string set \<Rightarrow> token \<Rightarrow> token" where
  "own_token prefix own t = (if lexeme t \<in> own then t\<lparr>kind := TkIdentifier (prefix @ ''::'' @ lexeme t)\<rparr> else t)"

definition unshadowed :: "string \<Rightarrow> string set \<Rightarrow> rewriter \<Rightarrow> bool" where
  "unshadowed prefix own rw \<longleftrightarrow>
     rw_prefix rw = prefix \<and> rw_own rw = own \<and> list_all (\<lambda>scope. scope \<inter> own = {}) (rw_scopes rw)"

lemma unshadowed_token: "unshadowed prefix own rw \<Longrightarrow> id_token rw t False = own_token prefix own t"
  by (auto simp: unshadowed_def id_token_def own_token_def should_rename_def rename_def list_ex_iff list_all_iff)

lemma id_token_bind [simp]: "id_token rw t True = t"
  by (simp add: id_token_def)

lemma unshadowed_push: "unshadowed prefix own rw \<Longrightarrow> unshadowed prefix own (rw_push rw)"
  by (simp add: unshadowed_def rw_push_def)

lemma unshadowed_bind: "unshadowed prefix own rw \<Longrightarrow> lexeme t \<notin> own \<Longrightarrow> unshadowed prefix own (rw_bind t rw)"
  by (auto simp: unshadowed_def rw_bind_def split: list.splits)

lemma ball_opt_list: "(\<forall>b \<in> set (opt_list (map_option f x)). P b) \<longleftrightarrow> (\<forall>y. x = Some y \<longrightarrow> (\<forall>b \<in> set (f y). P b))"
  by (cases x) (simp_all add: opt_list_def)

lemma unshadowed_bind_option:
  "unshadowed prefix own rw \<Longrightarrow> \<forall>t. x = Some t \<longrightarrow> lexeme t \<notin> own \<Longrightarrow> unshadowed prefix own (rw_bind_option x rw)"
  by (cases x) (simp_all add: rw_bind_option_def unshadowed_bind)

lemma unshadowed_fold:
  "unshadowed prefix own rw \<Longrightarrow> \<forall>t \<in> set ts. lexeme t \<notin> own \<Longrightarrow> unshadowed prefix own (fold rw_bind ts rw)"
  by (induction ts arbitrary: rw) (simp_all add: unshadowed_bind)

lemma unshadowed_ty: "unshadowed prefix own rw \<Longrightarrow> rw_ty rw ta = ren_type (own_token prefix own) ta"
proof (induction ta)
  case (TAArray x)
  then show ?case by (cases x) auto
next
  case (TASlice x)
  then show ?case by (cases x) auto
qed (simp_all add: unshadowed_token)

lemma unshadowed_return: "unshadowed prefix own rw \<Longrightarrow> rw_return rw rt = ren_return (own_token prefix own) rt"
  by (simp add: rw_return_def ren_return_def unshadowed_ty)

lemma unshadowed_params:
  "unshadowed prefix own rw \<Longrightarrow> \<forall>b \<in> set (param_binders ps). b \<notin> own \<Longrightarrow>
   fst (rw_params ps rw) = map (ren_param (own_token prefix own)) ps \<and> unshadowed prefix own (snd (rw_params ps rw))"
proof (induction ps arbitrary: rw)
  case (Cons p ps)
  have "unshadowed prefix own (rw_bind (fp_name p) rw)" using Cons.prems by (simp add: param_binders_def unshadowed_bind)
  then show ?case
    using Cons by (simp add: param_binders_def Let_def ren_param_def unshadowed_ty cong: map_option_cong)
qed simp

lemma unshadowed_thread:
  assumes "unshadowed prefix own rw"
    and "\<And>x rw. x \<in> set xs \<Longrightarrow> unshadowed prefix own rw \<Longrightarrow> fst (f x rw) = g x \<and> unshadowed prefix own (snd (f x rw))"
  shows "fst (rw_thread (map f xs) rw) = map g xs \<and> unshadowed prefix own (snd (rw_thread (map f xs) rw))"
  using assms by (induction xs arbitrary: rw) (simp_all add: Let_def)

lemma map_option_eq_conv [simp]: "map_option f x = map_option g x \<longleftrightarrow> (\<forall>y. x = Some y \<longrightarrow> f y = g y)"
  by (cases x) simp_all

lemmas rewriting = unshadowed_token unshadowed_push unshadowed_bind unshadowed_bind_option unshadowed_fold unshadowed_ty
  unshadowed_return unshadowed_params stmt_push_def rw_stmts_def rw_exprs_def Let_def ball_opt_list ball_Un option.map_comp comp_def

lemma rewriter_renames:
  fixes prefix own
  defines "h \<equiv> own_token prefix own"
  shows
    "\<forall>rw. unshadowed prefix own rw \<longrightarrow> (\<forall>b \<in> set (expr_binders e). b \<notin> own) \<longrightarrow> rw_expr e rw = ren_expr h e"
    "\<forall>rw. unshadowed prefix own rw \<longrightarrow> (\<forall>b \<in> set (property_binders p). b \<notin> own) \<longrightarrow> rw_property p rw = ren_property h p"
    "\<forall>rw. unshadowed prefix own rw \<longrightarrow> (\<forall>b \<in> set (stmt_binders s). b \<notin> own) \<longrightarrow>
       fst (rw_stmt s rw) = ren_stmt h s \<and> unshadowed prefix own (snd (rw_stmt s rw))"
    "\<forall>rw. unshadowed prefix own rw \<longrightarrow> (\<forall>b \<in> set (elif_binders eb). b \<notin> own) \<longrightarrow> rw_elif eb rw = ren_elif h eb"
    "\<forall>rw. unshadowed prefix own rw \<longrightarrow> (\<forall>b \<in> set (case_binders mc). b \<notin> own) \<longrightarrow>
       fst (rw_case mc rw) = ren_case h mc \<and> unshadowed prefix own (snd (rw_case mc rw))"
    "\<forall>rw. unshadowed prefix own rw \<longrightarrow> (\<forall>b \<in> set (member_binders em). b \<notin> own) \<longrightarrow> rw_member em rw = ren_member h em"
proof (induction e and p and s and eb and mc and em)
  case (SMatch e cases dflt)
  have "fst (rw_thread (map rw_case cases) rw) = map (ren_case h) cases \<and> unshadowed prefix own (snd (rw_thread (map rw_case cases) rw))"
    if "unshadowed prefix own rw" "\<forall>b \<in> set (stmt_binders (SMatch e cases dflt)). b \<notin> own" for rw
    using SMatch that by (intro unshadowed_thread) (simp_all add: ball_Un)
  then show ?case using SMatch by (cases dflt) (simp_all add: h_def rewriting opt_list_def)
next
  case (STrait name parents types methods)
  have "fst (rw_thread (map rw_stmt methods) rw) = map (ren_stmt h) methods \<and> unshadowed prefix own (snd (rw_thread (map rw_stmt methods) rw))"
    if "unshadowed prefix own rw" "\<forall>b \<in> set (stmt_binders (STrait name parents types methods)). b \<notin> own" for rw
    using STrait that by (intro unshadowed_thread) simp_all
  then show ?case by (auto simp: h_def rewriting)
next
  case (SImpl t n body)
  have "fst (rw_thread (map rw_stmt body) rw) = map (ren_stmt h) body \<and> unshadowed prefix own (snd (rw_thread (map rw_stmt body) rw))"
    if "unshadowed prefix own rw" "\<forall>b \<in> set (stmt_binders (SImpl t n body)). b \<notin> own" for rw
    using SImpl that by (intro unshadowed_thread) simp_all
  then show ?case by (auto simp: h_def rewriting)
qed (simp_all add: h_def rewriting)

section \<open>Positions\<close>

text \<open>Renaming changes no span.\<close>

lemma id_token_span [simp]: "tspan (id_token rw t b) = tspan t"
  by (simp add: id_token_def)

lemma rw_return_span [simp]: "rt_arrow_span (rw_return rw rt) = rt_arrow_span rt"
  by (simp add: rw_return_def)

lemma rw_params_spans [simp]: "map (\<lambda>p. [tspan (fp_name p)]) (fst (rw_params ps rw)) = map (\<lambda>p. [tspan (fp_name p)]) ps"
  by (induction ps arbitrary: rw) (simp_all add: Let_def)

lemma rw_thread_spans:
  "(\<And>x rw. x \<in> set xs \<Longrightarrow> g (fst (f x rw)) = g x) \<Longrightarrow> map g (fst (rw_thread (map f xs) rw)) = map g xs"
  by (induction xs arbitrary: rw) (simp_all add: Let_def)

lemma opt_list_eq: "(\<And>y. x = Some y \<Longrightarrow> f y = g y) \<Longrightarrow> opt_list (map_option f x) = opt_list (map_option g x)"
  by (cases x) simp_all

lemmas respanning = stmt_push_def rw_stmts_def rw_exprs_def Let_def option.map_comp comp_def

lemma rewriter_spans:
  "\<forall>rw. expr_spans (rw_expr e rw) = expr_spans e"
  "\<forall>rw. property_spans (rw_property p rw) = property_spans p"
  "\<forall>rw. stmt_spans (fst (rw_stmt s rw)) = stmt_spans s"
  "\<forall>rw. elif_spans (rw_elif eb rw) = elif_spans eb"
  "\<forall>rw. case_spans (fst (rw_case mc rw)) = case_spans mc"
  "\<forall>rw. member_spans (rw_member em rw) = member_spans em"
  by (induction e and p and s and eb and mc and em)
    (simp_all add: respanning rw_thread_spans match_pattern_spans_def cong: map_cong map_option_cong)

lemma namespaced_spans: "map stmt_spans (namespaced ss prefix own) = map stmt_spans ss"
  by (simp add: namespaced_def rw_stmts_def stmt_push_def rewriter_spans)

section \<open>Properties\<close>


definition sample_name :: "string \<Rightarrow> nat \<Rightarrow> token" where
  "sample_name s n = token_new (TkIdentifier s) (span_new n (n + length s) 1 1)"

text \<open>\<open>fun f() { say(f) }\<close>\<close>

definition sample_say :: "stmt list" where
  "sample_say = [SFunction (sample_name ''f'' 4) [] [] None [SSay (EVariable (sample_name ''f'' 14)) (span_new 10 13 1 1)]]"


text \<open>
  A local variable is not entered in a scope: in \<open>fun g() { var f = nil; say(f) }\<close> next to a function
  \<open>f\<close>, the reference to the local variable becomes one to the function.
\<close>

lemma local_variable_renamed:
  "namespaced [SFunction (sample_name ''g'' 4) [] [] None
      [SVar (sample_name ''f'' 14) None (Some (ELiteral LNil (span_new 18 21 1 1))) False False None,
       SSay (EVariable (sample_name ''f'' 27)) (span_new 23 26 1 1)]] ''arm'' {''f'', ''g''} =
   [SFunction ((sample_name ''g'' 4)\<lparr>kind := TkIdentifier ''arm::g''\<rparr>) [] [] None
      [SVar (sample_name ''f'' 14) None (Some (ELiteral LNil (span_new 18 21 1 1))) False False None,
       SSay (EVariable ((sample_name ''f'' 27)\<lparr>kind := TkIdentifier ''arm::f''\<rparr>)) (span_new 23 26 1 1)]]"
  by (simp add: namespaced_def rw_stmts_def stmt_push_def rw_push_def id_token_def should_rename_def rename_def
      sample_name_def lexeme_def Let_def)

text \<open>
  The methods of an implementation share a scope: a parameter \<open>f\<close> of one method keeps the references
  to the function \<open>f\<close> in the next method from being renamed.
\<close>

lemma parameter_leaks:
  "namespaced [SImpl (sample_name ''T'' 5) (sample_name ''C'' 11)
      [SFunction (sample_name ''a'' 20) [] [\<lparr>fp_name = sample_name ''f'' 22, fp_type = None\<rparr>] None [],
       SFunction (sample_name ''b'' 34) [] [] None [SSay (EVariable (sample_name ''f'' 45)) (span_new 41 44 1 1)]]] ''arm'' {''f''} =
   [SImpl (sample_name ''T'' 5) (sample_name ''C'' 11)
      [SFunction (sample_name ''a'' 20) [] [\<lparr>fp_name = sample_name ''f'' 22, fp_type = None\<rparr>] None [],
       SFunction (sample_name ''b'' 34) [] [] None [SSay (EVariable (sample_name ''f'' 45)) (span_new 41 44 1 1)]]]"
  by (simp add: namespaced_def rw_stmts_def stmt_push_def rw_push_def rw_bind_def id_token_def should_rename_def rename_def
      sample_name_def lexeme_def Let_def)

end
