(* ===== verification/Module_Range.thy ===== *)
theory Module_Range
  imports Module_Alias
begin

text \<open>
  Byte ranges of top-level statements (\<open>stmt_byte_range\<close> in \<open>crates/ntsc-build/src/modules.rs\<close>), by
  which a span of the merged program is given back to its file. A statement has a list of
  contributions to the range, in the order of the source, each a function on the range so far.
\<close>

section \<open>Model\<close>

type_synonym byte_range = "usize \<times> usize"

definition usize_max :: usize where
  "usize_max = 2 ^ 64 - 1"

definition add_span :: "span \<Rightarrow> byte_range \<Rightarrow> byte_range" where
  "add_span sp r =
     (if span_start sp = 0 \<and> span_stop sp = 0 then r
      else (min (fst r) (span_start sp), max (snd r) (span_stop sp)))"

definition add_expr :: "expr \<Rightarrow> byte_range \<Rightarrow> byte_range" where
  "add_expr e r =
     (if span_start (expr_span e) = 0 \<and> span_stop (expr_span e) = 0 then r
      else (min (fst r) (span_start (expr_span e)), max (snd r) (span_stop (expr_span e))))"

definition add_sub :: "byte_range \<Rightarrow> byte_range \<Rightarrow> byte_range" where
  "add_sub s r = (min (fst r) (fst s), max (snd r) (snd s))"

fun ta_span :: "type_annotation \<Rightarrow> span option" where
  "ta_span (TANamed t) = Some (tspan t)"
| "ta_span (TAArray (Some inner)) = ta_span inner"
| "ta_span (TAOption inner) = ta_span inner"
| "ta_span ta = None"

definition add_ty :: "type_annotation \<Rightarrow> byte_range \<Rightarrow> byte_range" where
  "add_ty t r = (case ta_span t of None \<Rightarrow> r | Some s \<Rightarrow> (min (fst r) (span_start s), max (snd r) (span_stop s)))"

definition finish_range :: "(byte_range \<Rightarrow> byte_range) list \<Rightarrow> byte_range" where
  "finish_range parts =
     (let acc = fold (\<lambda>f. f) parts (usize_max, 0) in if fst acc = usize_max then (0, 0) else acc)"

definition opt_part :: "('a \<Rightarrow> byte_range \<Rightarrow> byte_range) \<Rightarrow> 'a option \<Rightarrow> (byte_range \<Rightarrow> byte_range) list" where
  "opt_part f x = (case x of None \<Rightarrow> [] | Some y \<Rightarrow> [f y])"

definition param_parts :: "function_param \<Rightarrow> (byte_range \<Rightarrow> byte_range) list" where
  "param_parts p = add_span (tspan (fp_name p)) # opt_part add_ty (fp_type p)"

definition return_parts :: "return_type option \<Rightarrow> (byte_range \<Rightarrow> byte_range) list" where
  "return_parts ret = (case ret of None \<Rightarrow> [] | Some rt \<Rightarrow> [add_span (rt_arrow_span rt), add_ty (rt_ty rt)])"

definition member_parts :: "enum_member \<Rightarrow> (byte_range \<Rightarrow> byte_range) list" where
  "member_parts m = (case m of EnumMember name val _ \<Rightarrow> add_span (tspan name) # opt_part add_expr val)"

definition generic_parts :: "generic_param \<Rightarrow> (byte_range \<Rightarrow> byte_range) list" where
  "generic_parts p = add_span (tspan (gp_name p)) # map (\<lambda>t. add_span (tspan t)) (gp_bounds p)"

primrec
      stmt_parts :: "stmt \<Rightarrow> (byte_range \<Rightarrow> byte_range) list"
  and elif_parts :: "elif_branch \<Rightarrow> (byte_range \<Rightarrow> byte_range) list"
  and case_parts :: "match_case \<Rightarrow> (byte_range \<Rightarrow> byte_range) list"
where
  "stmt_parts (SExpression expression) = [add_expr expression]"
| "stmt_parts (SSay expression keyword_span) = [add_span keyword_span, add_expr expression]"
| "stmt_parts (SVar name ta init is_static is_const view) =
     add_span (tspan name) # opt_part add_ty ta @ opt_part add_expr init"
| "stmt_parts (SBlock stmts open_span close_span) =
     [add_span open_span, add_span close_span] @ map (add_sub \<circ> finish_range) (map stmt_parts stmts)"
| "stmt_parts (SIf condition then_branch elifs else_branch) =
     [add_expr condition, add_sub (finish_range (stmt_parts then_branch))] @ concat (map elif_parts elifs) @
     opt_part (add_sub \<circ> finish_range) (map_option stmt_parts else_branch)"
| "stmt_parts (SWhile condition body) = [add_expr condition, add_sub (finish_range (stmt_parts body))]"
| "stmt_parts (SDoWhile body condition) = [add_sub (finish_range (stmt_parts body)), add_expr condition]"
| "stmt_parts (SFor init condition update body) =
     opt_part (add_sub \<circ> finish_range) (map_option stmt_parts init) @ opt_part add_expr condition @
     opt_part add_expr update @ [add_sub (finish_range (stmt_parts body))]"
| "stmt_parts (SForIn variable iterable body) =
     [add_span (tspan variable), add_expr iterable, add_sub (finish_range (stmt_parts body))]"
| "stmt_parts (SForAwait variable producer body) =
     [add_span (tspan variable), add_expr producer, add_sub (finish_range (stmt_parts body))]"
| "stmt_parts (SChanRecvFor variable channel body) =
     [add_span (tspan variable), add_expr channel, add_sub (finish_range (stmt_parts body))]"
| "stmt_parts (SGo call block keyword_span) =
     [add_span keyword_span, add_expr call] @
     (case map_option (map stmt_parts) block of None \<Rightarrow> [] | Some ps \<Rightarrow> map (add_sub \<circ> finish_range) ps)"
| "stmt_parts (SFunction name generics params ret body) =
     add_span (tspan name) # concat (map param_parts params) @ return_parts ret @
     map (add_sub \<circ> finish_range) (map stmt_parts body)"
| "stmt_parts (SAsyncFunction name params ret body) =
     add_span (tspan name) # concat (map param_parts params) @ return_parts ret @
     map (add_sub \<circ> finish_range) (map stmt_parts body)"
| "stmt_parts (SReturn val) = opt_part add_expr val"
| "stmt_parts (SClass name generics parent body) =
     add_span (tspan name) # opt_part (\<lambda>t. add_span (tspan t)) parent @ map (add_sub \<circ> finish_range) (map stmt_parts body)"
| "stmt_parts (SBreak sp) = [add_span sp]"
| "stmt_parts (SContinue sp) = [add_span sp]"
| "stmt_parts (SMatch expression cases default_case) =
     add_expr expression # concat (map case_parts cases) @ opt_part (add_sub \<circ> finish_range) (map_option stmt_parts default_case)"
| "stmt_parts (STry try_block catch_var catch_block finally_block) =
     add_sub (finish_range (stmt_parts try_block)) # opt_part (\<lambda>t. add_span (tspan t)) catch_var @
     opt_part (add_sub \<circ> finish_range) (map_option stmt_parts catch_block) @
     opt_part (add_sub \<circ> finish_range) (map_option stmt_parts finally_block)"
| "stmt_parts (SThrow val) = [add_expr val]"
| "stmt_parts (SRetry cnt body catch_var catch_block) =
     [add_expr cnt, add_sub (finish_range (stmt_parts body))] @ opt_part (\<lambda>t. add_span (tspan t)) catch_var @
     opt_part (add_sub \<circ> finish_range) (map_option stmt_parts catch_block)"
| "stmt_parts (SUnsafe body) = [add_sub (finish_range (stmt_parts body))]"
| "stmt_parts (SQuiet lints body) = [add_sub (finish_range (stmt_parts body))]"
| "stmt_parts (SDestructure is_array is_tuple names keys init) = map (\<lambda>t. add_span (tspan t)) names @ [add_expr init]"
| "stmt_parts (SUse library is_file_path symbols alias) =
     add_span (tspan library) # map (\<lambda>t. add_span (tspan t)) symbols @ opt_part (\<lambda>t. add_span (tspan t)) alias"
| "stmt_parts (SEnum name generics members) = add_span (tspan name) # concat (map member_parts members)"
| "stmt_parts (STypeAlias name generics target) =
     add_span (tspan name) # concat (map generic_parts generics) @ [add_ty target]"
| "stmt_parts (STrait name parents associated_types methods) =
     add_span (tspan name) # map (\<lambda>t. add_span (tspan t)) parents @ map (\<lambda>t. add_span (tspan t)) associated_types @
     map (add_sub \<circ> finish_range) (map stmt_parts methods)"
| "stmt_parts (SImpl trait_name type_name body) =
     [add_span (tspan trait_name), add_span (tspan type_name)] @ map (add_sub \<circ> finish_range) (map stmt_parts body)"
| "stmt_parts (STest name body) = add_span (tspan name) # map (add_sub \<circ> finish_range) (map stmt_parts body)"
| "elif_parts (ElifBranch condition body elif_span) =
     [add_span elif_span, add_expr condition, add_sub (finish_range (stmt_parts body))]"
| "case_parts (MatchCase val pat guard body case_span) =
     [add_span case_span, add_expr val] @ opt_part add_expr guard @ [add_sub (finish_range (stmt_parts body))]"

definition stmt_byte_range :: "stmt \<Rightarrow> byte_range" where
  "stmt_byte_range s = finish_range (stmt_parts s)"

section \<open>The spans inside type annotations\<close>

text \<open>The annotations that the ranges look at.\<close>

definition ann_spans :: "type_annotation option \<Rightarrow> span list" where
  "ann_spans ta = (case Option.bind ta ta_span of None \<Rightarrow> [] | Some s \<Rightarrow> [s])"

definition params_anns :: "function_param list \<Rightarrow> span list" where
  "params_anns ps = concat (map (\<lambda>p. ann_spans (fp_type p)) ps)"

primrec
      stmt_anns :: "stmt \<Rightarrow> span list"
  and elif_anns :: "elif_branch \<Rightarrow> span list"
  and case_anns :: "match_case \<Rightarrow> span list"
where
  "stmt_anns (SExpression expression) = []"
| "stmt_anns (SSay expression keyword_span) = []"
| "stmt_anns (SVar name ta init is_static is_const view) = ann_spans ta"
| "stmt_anns (SBlock stmts open_span close_span) = concat (map stmt_anns stmts)"
| "stmt_anns (SIf condition then_branch elifs else_branch) =
     stmt_anns then_branch @ concat (map elif_anns elifs) @ opt_list (map_option stmt_anns else_branch)"
| "stmt_anns (SWhile condition body) = stmt_anns body"
| "stmt_anns (SDoWhile body condition) = stmt_anns body"
| "stmt_anns (SFor init condition update body) = opt_list (map_option stmt_anns init) @ stmt_anns body"
| "stmt_anns (SForIn variable iterable body) = stmt_anns body"
| "stmt_anns (SForAwait variable producer body) = stmt_anns body"
| "stmt_anns (SChanRecvFor variable channel body) = stmt_anns body"
| "stmt_anns (SGo call block keyword_span) = opt_list (map_option concat (map_option (map stmt_anns) block))"
| "stmt_anns (SFunction name generics params ret body) =
     params_anns params @ ann_spans (map_option rt_ty ret) @ concat (map stmt_anns body)"
| "stmt_anns (SAsyncFunction name params ret body) =
     params_anns params @ ann_spans (map_option rt_ty ret) @ concat (map stmt_anns body)"
| "stmt_anns (SReturn val) = []"
| "stmt_anns (SClass name generics parent body) = concat (map stmt_anns body)"
| "stmt_anns (SBreak sp) = []"
| "stmt_anns (SContinue sp) = []"
| "stmt_anns (SMatch expression cases default_case) =
     concat (map case_anns cases) @ opt_list (map_option stmt_anns default_case)"
| "stmt_anns (STry try_block catch_var catch_block finally_block) =
     stmt_anns try_block @ opt_list (map_option stmt_anns catch_block) @ opt_list (map_option stmt_anns finally_block)"
| "stmt_anns (SThrow val) = []"
| "stmt_anns (SRetry cnt body catch_var catch_block) = stmt_anns body @ opt_list (map_option stmt_anns catch_block)"
| "stmt_anns (SUnsafe body) = stmt_anns body"
| "stmt_anns (SQuiet lints body) = stmt_anns body"
| "stmt_anns (SDestructure is_array is_tuple names keys init) = []"
| "stmt_anns (SUse library is_file_path symbols alias) = []"
| "stmt_anns (SEnum name generics members) = []"
| "stmt_anns (STypeAlias name generics target) = ann_spans (Some target)"
| "stmt_anns (STrait name parents associated_types methods) = concat (map stmt_anns methods)"
| "stmt_anns (SImpl trait_name type_name body) = concat (map stmt_anns body)"
| "stmt_anns (STest name body) = concat (map stmt_anns body)"
| "elif_anns (ElifBranch condition body elif_span) = stmt_anns body"
| "case_anns (MatchCase val pat guard body case_span) = stmt_anns body"

section \<open>Ranges of shifted statements\<close>

text \<open>A bound of a range or span of a module at \<open>b\<close> of length \<open>n\<close>: it lies in the module, or is a placeholder.\<close>

definition span_within :: "usize \<Rightarrow> usize \<Rightarrow> span \<Rightarrow> bool" where
  "span_within b n sp \<longleftrightarrow>
     (span_start sp = 0 \<or> b \<le> span_start sp) \<and> (span_stop sp = 0 \<or> b \<le> span_stop sp) \<and> span_stop sp \<le> b + n"

definition range_within :: "usize \<Rightarrow> usize \<Rightarrow> byte_range \<Rightarrow> bool" where
  "range_within b n r \<longleftrightarrow>
     (fst r = 0 \<or> b \<le> fst r \<or> fst r = usize_max) \<and> (snd r = 0 \<or> b \<le> snd r) \<and> snd r \<le> b + n"

definition keeps :: "usize \<Rightarrow> usize \<Rightarrow> (byte_range \<Rightarrow> byte_range) \<Rightarrow> bool" where
  "keeps b n f \<longleftrightarrow> (\<forall>r. range_within b n r \<longrightarrow> range_within b n (f r))"

lemma keepsD: "keeps b n f \<Longrightarrow> range_within b n r \<Longrightarrow> range_within b n (f r)"
  unfolding keeps_def by blast

lemma keeps_fold: "\<forall>f \<in> set fs. keeps b n f \<Longrightarrow> range_within b n r \<Longrightarrow> range_within b n (fold (\<lambda>f. f) fs r)"
  by (induction fs arbitrary: r) (simp_all add: keepsD)

lemma finish_within: "\<forall>f \<in> set fs. keeps b n f \<Longrightarrow> range_within b n (finish_range fs)"
  using keeps_fold [of fs b n "(usize_max, 0)"] by (auto simp: finish_range_def Let_def range_within_def)

lemma stmt_byte_range_start: "fst (stmt_byte_range s) \<noteq> usize_max"
  by (simp add: stmt_byte_range_def finish_range_def Let_def usize_max_def)

lemma keeps_sub: "range_within b n s \<Longrightarrow> keeps b n (add_sub s)"
  by (auto simp: keeps_def range_within_def add_sub_def min_def max_def)

lemma keeps_span: "span_within b n sp \<Longrightarrow> keeps b n (add_span sp)"
  by (auto simp: keeps_def range_within_def span_within_def add_span_def min_def max_def)

text \<open>An expression begins where one of its spans begins and ends where one of them ends.\<close>

lemma expr_span_ends:
  "(\<exists>s \<in> set (expr_spans e). span_start (expr_span e) = span_start s) \<and>
   (\<exists>s \<in> set (expr_spans e). span_stop (expr_span e) = span_stop s)"
proof (induction e)
  case (ECall callee paren arguments)
  then show ?case by (cases arguments rule: rev_cases) (fastforce simp: span_to_def Let_def)+
qed (fastforce simp: span_to_def)+

lemma keeps_expr: "\<forall>s \<in> set (expr_spans e). span_within b n s \<Longrightarrow> keeps b n (add_expr e)"
proof -
  assume "\<forall>s \<in> set (expr_spans e). span_within b n s"
  then have "span_within b n (expr_span e)" using expr_span_ends [of e] by (auto simp: span_within_def)
  then show ?thesis using keeps_span by (simp add: add_span_def [abs_def] add_expr_def [abs_def])
qed

lemma keeps_ty: "\<forall>s \<in> set (ann_spans (Some t)). span_within b n s \<Longrightarrow> keeps b n (add_ty t)"
  by (auto simp: keeps_def range_within_def span_within_def add_ty_def ann_spans_def min_def max_def split: option.splits)

lemma keeps_opt: "(\<forall>f \<in> set (opt_part g x). P f) \<longleftrightarrow> (\<forall>y. x = Some y \<longrightarrow> P (g y))"
  by (cases x) (simp_all add: opt_part_def)

lemma opt_part_map: "opt_part g (map_option f x) = opt_part (g \<circ> f) x"
  by (cases x) (simp_all add: opt_part_def)

lemma keeps_ann: "\<forall>s \<in> set (ann_spans x). span_within b n s \<Longrightarrow> x = Some t \<Longrightarrow> keeps b n (add_ty t)"
  by (rule keeps_ty) simp

lemma keeps_params:
  "\<forall>p \<in> set ps. span_within b n (tspan (fp_name p)) \<Longrightarrow> \<forall>s \<in> set (params_anns ps). span_within b n s \<Longrightarrow>
   \<forall>p \<in> set ps. \<forall>f \<in> set (param_parts p). keeps b n f"
  by (auto simp: param_parts_def opt_part_def params_anns_def intro!: keeps_span keeps_ty split: option.splits)

lemma keeps_return:
  "\<forall>rt. ret = Some rt \<longrightarrow> span_within b n (rt_arrow_span rt) \<Longrightarrow> \<forall>s \<in> set (ann_spans (map_option rt_ty ret)). span_within b n s \<Longrightarrow>
   \<forall>f \<in> set (return_parts ret). keeps b n f"
  by (cases ret) (auto simp: return_parts_def intro: keeps_span keeps_ty)

lemma keeps_member: "\<forall>s \<in> set (member_spans m). span_within b n s \<Longrightarrow> \<forall>f \<in> set (member_parts m). keeps b n f"
proof (cases m)
  case (EnumMember name val types)
  assume "\<forall>s \<in> set (member_spans m). span_within b n s"
  then show ?thesis
    by (cases val) (auto simp: EnumMember member_parts_def opt_part_def opt_list_def intro: keeps_span keeps_expr)
qed

lemma keeps_generic: "\<forall>s \<in> set (generic_spans p). span_within b n s \<Longrightarrow> \<forall>f \<in> set (generic_parts p). keeps b n f"
  by (auto simp: generic_parts_def generic_spans_def intro: keeps_span)

lemmas keeping = keeps_span keeps_expr keeps_ty keeps_sub finish_within keeps_ann keeps_params keeps_return keeps_member
  keeps_generic

lemma parts_keep:
  "(e :: expr) = e" "(p :: object_property) = p"
  "\<forall>x \<in> set (stmt_spans s) \<union> set (stmt_anns s). span_within b n x \<Longrightarrow> \<forall>f \<in> set (stmt_parts s). keeps b n f"
  "\<forall>x \<in> set (elif_spans eb) \<union> set (elif_anns eb). span_within b n x \<Longrightarrow> \<forall>f \<in> set (elif_parts eb). keeps b n f"
  "\<forall>x \<in> set (case_spans mc) \<union> set (case_anns mc). span_within b n x \<Longrightarrow> \<forall>f \<in> set (case_parts mc). keeps b n f"
  "(em :: enum_member) = em"
proof (induction e and p and s and eb and mc and em)
  case (SGo call block keyword_span)
  then show ?case by (cases block) (simp_all add: ball_Un keeping opt_list_def)
next
  case (SFunction name generics params ret body)
  then show ?case
    using keeps_params [of params b n] keeps_return [of ret b n] by (simp add: ball_Un ball_opt_list keeping comp_def)
next
  case (SAsyncFunction name params ret body)
  then show ?case
    using keeps_params [of params b n] keeps_return [of ret b n] by (simp add: ball_Un ball_opt_list keeping comp_def)
next
  case (SEnum name generics members)
  then show ?case using keeps_member [of _ b n] by (simp add: ball_Un keeps_span) blast
next
  case (STypeAlias name generics target)
  then show ?case using keeps_generic [of _ b n] by (simp add: ball_Un keeps_span keeps_ty) blast
qed (simp_all add: ball_Un ball_opt_list opt_part_map keeps_opt keeping comp_def)

section \<open>Shifting and renaming\<close>

lemma ta_span_shift: "ta_span (shift_type b t) = map_option (shift_span b) (ta_span t)"
  by (induction t rule: ta_span.induct) simp_all

lemma ta_span_rw [simp]: "ta_span (rw_ty rw t) = ta_span t"
  by (induction t rule: ta_span.induct) simp_all

lemma ann_spans_shift:
  "ann_spans (map_option (shift_type b) x) = map (shift_span b) (ann_spans x)"
  "ann_spans (Some (shift_type b t)) = map (shift_span b) (ann_spans (Some t))"
  "ann_spans (map_option rt_ty (map_option (shift_return b) r)) = map (shift_span b) (ann_spans (map_option rt_ty r))"
  "params_anns (map (shift_param b) ps) = map (shift_span b) (params_anns ps)"
proof -
  show *: "ann_spans (map_option (shift_type b) x) = map (shift_span b) (ann_spans x)" for x
    by (cases x) (simp_all add: ann_spans_def ta_span_shift split: option.splits)
  show "ann_spans (Some (shift_type b t)) = map (shift_span b) (ann_spans (Some t))" using * [of "Some t"] by simp
  show "ann_spans (map_option rt_ty (map_option (shift_return b) r)) = map (shift_span b) (ann_spans (map_option rt_ty r))"
    using * [of "map_option rt_ty r"] by (simp add: option.map_comp comp_def shift_return_def)
  show "params_anns (map (shift_param b) ps) = map (shift_span b) (params_anns ps)"
    by (simp add: params_anns_def map_concat comp_def shift_param_def *)
qed

lemma ann_spans_rw:
  "ann_spans (map_option (rw_ty rw) x) = ann_spans x"
  "ann_spans (Some (rw_ty rw t)) = ann_spans (Some t)"
  "ann_spans (map_option rt_ty (map_option (rw_return rw) r)) = ann_spans (map_option rt_ty r)"
  "params_anns (fst (rw_params ps rw)) = params_anns ps"
proof -
  show *: "ann_spans (map_option (rw_ty rw) x) = ann_spans x" for rw x
    by (cases x) (simp_all add: ann_spans_def)
  show "ann_spans (Some (rw_ty rw t)) = ann_spans (Some t)" by (simp add: ann_spans_def)
  show "ann_spans (map_option rt_ty (map_option (rw_return rw) r)) = ann_spans (map_option rt_ty r)"
    by (cases r) (simp_all add: ann_spans_def rw_return_def)
  show "params_anns (fst (rw_params ps rw)) = params_anns ps"
    by (induction ps arbitrary: rw) (simp_all add: params_anns_def Let_def *)
qed

lemma anns_shift:
  "(e :: expr) = e" "(p :: object_property) = p"
  "stmt_anns (shift_stmt b s) = map (shift_span b) (stmt_anns s)"
  "elif_anns (shift_elif b eb) = map (shift_span b) (elif_anns eb)"
  "case_anns (shift_case b mc) = map (shift_span b) (case_anns mc)"
  "(em :: enum_member) = em"
  by (induction e and p and s and eb and mc and em)
    (simp_all add: map_concat comp_def opt_list_map map_opt_list ann_spans_shift cong: map_cong map_option_cong)

lemma anns_rw:
  "(e :: expr) = e" "(p :: object_property) = p"
  "\<forall>rw. stmt_anns (fst (rw_stmt s rw)) = stmt_anns s"
  "\<forall>rw. elif_anns (rw_elif eb rw) = elif_anns eb"
  "\<forall>rw. case_anns (fst (rw_case mc rw)) = case_anns mc"
  "(em :: enum_member) = em"
  by (induction e and p and s and eb and mc and em)
    (simp_all add: respanning ann_spans_rw [unfolded option.map_comp comp_def] ann_spans_rw rw_thread_spans cong: map_cong map_option_cong)

end
