(* ===== verification/Parser_Total.thy ===== *)
theory Parser_Total
  imports Parser_Progress
begin

text \<open>
  The progress of every function of the parser, and that \<open>parse\<close> returns on every token list. The locale
  \<open>subparsers\<close> states what the functions need of the recursive parsers; the fuelled parsers satisfy it by
  induction on the fuel, and the parsers of the program are an interpretation of it.
\<close>

section \<open>Functions without expressions\<close>

lemma steps_match_total:
  assumes "\<And>i. P i \<Longrightarrow> list_ex (\<lambda>arm. list_ex (\<lambda>k. check ts k i) (fst arm)) arms"
    and "list_all (\<lambda>arm. steps ts (\<lambda>i. P i \<and> list_ex (\<lambda>k. check ts k i) (fst arm)) l D E (snd arm)) arms"
  shows "steps ts P l D E (p_match ts arms other)"
proof (rule steps_match_strong)
  show "steps ts (\<lambda>i. P i \<and> list_ex (\<lambda>k. check ts k i) ks) l D E p" if "(ks, p) \<in> set arms" for ks p
  proof -
    have "steps ts (\<lambda>i. P i \<and> list_ex (\<lambda>k. check ts k i) (fst (ks, p))) l D E (snd (ks, p))"
      using assms(2) that unfolding list_all_iff by (rule bspec)
    then show ?thesis unfolding fst_conv snd_conv .
  qed
  show "steps ts (\<lambda>i. P i \<and> (\<forall>ks p. (ks, p) \<in> set arms \<longrightarrow> \<not> list_ex (\<lambda>k. check ts k i) ks)) l D E other"
  proof (rule steps_vacuous)
    fix i assume i: "P i \<and> (\<forall>ks p. (ks, p) \<in> set arms \<longrightarrow> \<not> list_ex (\<lambda>k. check ts k i) ks)"
    then obtain ks p where "(ks, p) \<in> set arms" "list_ex (\<lambda>k. check ts k i) ks"
      using assms(1) [of i] unfolding list_ex_iff [of _ arms] by auto
    then show False using i by blast
  qed
qed

text \<open>A loop whose first round consumes a token, whether it is the last or not.\<close>

lemma steps_loop_first:
  assumes first: "steps ts P l (\<lambda>_. 1) E (body s)" and rest: "\<And>s. steps ts anywhere (l + 1) round_steps 0 (body s)"
    and "length ts < n" "E \<le> 1"
  shows "steps ts P l (\<lambda>_. 1) E (p_loop n body s)"
  unfolding steps_def
proof (intro allI impI)
  fix i assume i: "l \<le> i" "i \<le> length ts" "P i"
  obtain n' where n: "n = Suc n'" "length ts \<le> n'" using assms(3) by (cases n) auto
  consider s' k where "body s i = POk (Inl s') k" "i + 1 \<le> k" "k \<le> length ts"
    | r k where "body s i = POk (Inr r) k" "i + 1 \<le> k" "k \<le> length ts"
    | e k where "body s i = PErr e k" "i + E \<le> k" "k \<le> length ts"
    using stepsD [OF first i] by (metis sum.exhaust)
  then show "case p_loop n body s i of POk x k \<Rightarrow> i + 1 \<le> k \<and> k \<le> length ts
    | PErr e k \<Rightarrow> i + E \<le> k \<and> k \<le> length ts | PPanic \<Rightarrow> False | POut \<Rightarrow> False"
  proof cases
    case 1
    then show ?thesis
      using steps_loop_rounds [of ts "l + 1" body k n' s', OF rest] i n assms(4) by fastforce
  qed (simp_all add: n)
qed

lemma parse_method_name_progress: "steps ts anywhere 0 (\<lambda>_. 1) 0 (parse_method_name ts)"
  unfolding parse_method_name_def
  by (intro steps) (auto simp: is_operator_token_def discriminant_def intro!: kind_in_range)

lemma parse_bounds_progress: "steps ts anywhere 0 (\<lambda>_. 0) 0 (parse_bounds ts message)"
  unfolding parse_bounds_def by (intro steps) (auto simp: discriminant_def)

lemmas name_steps [steps] =
  parse_method_name_progress [THEN steps_bind_from]
  parse_bounds_progress [THEN steps_from] parse_bounds_progress [THEN steps_bind_from]

lemma parse_generic_params_progress: "steps ts anywhere 0 (\<lambda>_. 0) 0 (parse_generic_params ts)"
  unfolding parse_generic_params_def by (intro steps) (auto simp: discriminant_def)

lemma where_bound_progress: "steps ts anywhere 0 (\<lambda>_. 1) 0 (where_bound ts gs)"
  unfolding where_bound_def by (intro steps) (auto simp: discriminant_def)

lemma parse_where_bounds_progress: "steps ts anywhere 0 (\<lambda>_. 0) 0 (parse_where_bounds ts gs)"
  unfolding parse_where_bounds_def
  by (intro steps where_bound_progress [THEN steps_bind_from])
    (auto simp: discriminant_def check_ident_def intro!: kind_in_range)

lemma parse_param_progress: "steps ts anywhere 0 (\<lambda>_. 1) 0 (parse_param ts)"
  unfolding parse_param_def by (intro steps) auto

lemma parse_return_type_progress: "steps ts anywhere 0 (\<lambda>_. 0) 0 (parse_return_type ts)"
  unfolding parse_return_type_def
  apply (intro steps steps_bind [where d = 0])
  apply (auto simp: discriminant_def dest: in_range)
  done

lemmas declaration_steps [steps] =
  parse_generic_params_progress [THEN steps_bind_from] parse_where_bounds_progress [THEN steps_bind_from]
  parse_param_progress [THEN steps_from] parse_return_type_progress [THEN steps_from]

lemma parse_function_signature_progress: "steps ts anywhere 0 (\<lambda>_. 1) 0 (parse_function_signature ts)"
  unfolding parse_function_signature_def by (intro steps) (auto simp: discriminant_def)

lemma parse_key_progress: "steps ts anywhere 0 (\<lambda>_. 1) 0 (parse_key ts message)"
  unfolding parse_key_def by (intro steps) (auto simp: discriminant_def intro!: kind_in_range)

lemma parse_library_progress: "steps ts anywhere 0 (\<lambda>_. 1) 0 (parse_library ts message)"
  unfolding parse_library_def by (intro steps) (auto simp: discriminant_def intro!: kind_in_range)

lemma parse_member_progress: "steps ts anywhere 0 (\<lambda>_. 1) 0 (parse_member ts con)"
  unfolding parse_member_def by (intro steps) auto

lemmas signature_steps [steps] =
  parse_function_signature_progress [THEN steps_bind_from] parse_key_progress [THEN steps_bind_from]
  parse_library_progress [THEN steps_bind_from] parse_member_progress [THEN steps_from]


section \<open>Functions of the recursive parsers\<close>

locale subparsers =
  fixes ts :: "token list" and l :: nat and pe :: expr_parser and ps :: "stmt parser"
  assumes pe_progress: "prec \<noteq> PrecNone \<Longrightarrow> steps ts anywhere (Suc l) (\<lambda>_. 1) 0 (pe prec)"
    and ps_progress: "steps ts anywhere (Suc l) (\<lambda>_. 1) 0 ps"
begin

lemmas sub_steps = steps pe_progress [THEN steps_from] pe_progress [THEN steps_bind_from]
  ps_progress [THEN steps_from] ps_progress [THEN steps_bind_from] consume_progress_any [THEN steps_bind_from]

abbreviation token_here :: "nat \<Rightarrow> bool" where
  "token_here \<equiv> \<lambda>i. i < length ts"

lemma braced_statements_progress: "steps ts anywhere (Suc l) (\<lambda>_. 1) 0 (braced_statements ts ps message)"
  unfolding braced_statements_def by (intro sub_steps) (auto simp: discriminant_def)

lemma parse_block_progress: "steps ts token_here l (\<lambda>_. 1) 1 (parse_block ts ps)"
  unfolding parse_block_def by (intro sub_steps braced_statements_progress [THEN steps_bind_from]) auto

lemma parse_expression_body_progress: "steps ts anywhere (Suc l) (\<lambda>_. 1) 0 (parse_expression_body ts pe)"
  unfolding parse_expression_body_def by (intro sub_steps) auto

lemma bind_assoc: "p_bind (p_bind m f) g = p_bind m (\<lambda>x. p_bind (f x) g)"
proof
  fix i
  show "p_bind (p_bind m f) g i = p_bind m (\<lambda>x. p_bind (f x) g) i" by (cases "m i") (simp_all add: p_bind_def)
qed

lemma bind_return_left: "p_bind (p_return x) f = f x"
  by (rule ext) (simp add: p_bind_def p_return_def)

lemma parse_function_body_progress: "steps ts anywhere (Suc l) (\<lambda>_. 1) 0 (parse_function_body ts pe ps)"
proof -
  have block: "p_bind (parse_block ts ps) (\<lambda>block. case block of SBlock stmts _ _ \<Rightarrow> p_return stmts | _ \<Rightarrow> p_panic) =
    p_bind (advance ts) (\<lambda>_. p_bind (braced_statements ts ps (expected ''}'')) (\<lambda>(stmts, _). p_return stmts))"
    unfolding parse_block_def bind_assoc case_prod_beta by (simp add: bind_return_left)
  show ?thesis
    unfolding parse_function_body_def block
    by (intro sub_steps braced_statements_progress [THEN steps_bind_from] parse_expression_body_progress [THEN steps_from])
      (auto simp: discriminant_def dest: in_range)
qed

lemma parse_async_block_body_progress: "steps ts anywhere (Suc l) (\<lambda>_. 1) 0 (parse_async_block_body ts ps sp)"
  unfolding parse_async_block_body_def
  by (intro sub_steps braced_statements_progress [THEN steps_bind_from]) (auto simp: discriminant_def)

lemma parse_async_block_progress: "steps ts token_here l (\<lambda>_. 1) 1 (parse_async_block ts ps)"
  unfolding parse_async_block_def by (intro sub_steps parse_async_block_body_progress [THEN steps_from]) auto

lemmas body_steps = sub_steps
  braced_statements_progress [THEN steps_bind_from]
  parse_block_progress [THEN steps_from]
  parse_function_body_progress [THEN steps_from] parse_function_body_progress [THEN steps_bind_from]
  parse_async_block_body_progress [THEN steps_from] parse_async_block_body_progress [THEN steps_bind_from]
  parse_async_block_progress [THEN steps_from] parse_async_block_progress [THEN steps_bind_from]

subsection \<open>Expressions\<close>

lemma string_segments_progress: "steps ts anywhere 0 (\<lambda>_. 0) 0 (string_segments ts parts)"
  unfolding string_segments_def by (intro steps; auto simp: discriminant_def intro!: kind_in_range)

lemma string_segments_first:
  "steps ts (\<lambda>i. is_string_segment (peek_kind ts i)) 0 (\<lambda>_. 1) 0 (string_segments ts parts)"
  unfolding string_segments_def
proof (rule steps_loop_first)
  show "steps ts (\<lambda>i. is_string_segment (peek_kind ts i)) 0 (\<lambda>_. 1) 0
      (p_test (\<lambda>i. is_string_segment (peek_kind ts i))
        (p_bind (advance ts) (\<lambda>tok. p_return (Inl (parts @ [ELiteral (LString (lexeme tok)) (tspan tok)]))))
        (p_return (Inr parts)))"
    by (intro steps steps_test_strong [OF _ steps_vacuous]) (auto simp: discriminant_def intro!: kind_in_range)
qed (intro steps, auto simp: discriminant_def intro!: kind_in_range)

lemma parse_array_literal_progress: "steps ts token_here l (\<lambda>_. 1) 1 (parse_array_literal ts pe)"
  unfolding parse_array_literal_def by (intro sub_steps) (auto simp: discriminant_def)

lemma parse_property_progress: "steps ts anywhere l (\<lambda>_. 1) 0 (parse_property ts pe)"
  unfolding parse_property_def by (intro sub_steps) (auto simp: discriminant_def)

lemma parse_struct_field_progress: "steps ts anywhere l (\<lambda>_. 1) 0 (parse_struct_field ts pe)"
  unfolding parse_struct_field_def by (intro sub_steps) (auto simp: discriminant_def)

lemma parse_struct_update_progress: "steps ts token_here l (\<lambda>_. 1) 0 (parse_struct_update ts pe update)"
  unfolding parse_struct_update_def by (intro sub_steps) auto

lemma struct_literal_step_progress: "steps ts anywhere l (\<lambda>_. 1) 0 (struct_literal_step ts pe st)"
  unfolding struct_literal_step_def
  by (intro sub_steps parse_struct_update_progress [THEN steps_bind_from] parse_struct_field_progress [THEN steps_bind_from])
    (auto simp: discriminant_def dest: in_range)

lemma parse_lambda_progress: "steps ts token_here l (\<lambda>_. 1) 1 (parse_lambda ts pe ps)"
  unfolding parse_lambda_def by (intro body_steps) auto

lemma parse_keyword_call_progress: "steps ts token_here l (\<lambda>_. 1) 1 (parse_keyword_call ts pe m1 m2 con)"
  unfolding parse_keyword_call_def by (intro sub_steps) (auto simp: discriminant_def)

lemma parse_unary_progress: "steps ts token_here l (\<lambda>_. 1) 1 (parse_unary ts pe con)"
  unfolding parse_unary_def by (intro sub_steps) auto

lemma parse_borrow_progress: "steps ts token_here l (\<lambda>_. 1) 1 (parse_borrow ts pe con)"
  unfolding parse_borrow_def by (intro sub_steps) (auto simp: discriminant_def)

lemma tuple_elements_progress: "steps ts anywhere (Suc l) (\<lambda>_. 0) 0 (tuple_elements ts pe e)"
  unfolding tuple_elements_def by (intro sub_steps) (auto simp: discriminant_def)

lemma parse_parenthesised_progress: "steps ts token_here l (\<lambda>_. 1) 1 (parse_parenthesised ts pe)"
  unfolding parse_parenthesised_def
  by (intro sub_steps tuple_elements_progress [THEN steps_bind_from]) (auto simp: discriminant_def)

lemma interpolation_parts_progress:
  "steps ts (\<lambda>i. is_string_segment (peek_kind ts i)) l (\<lambda>_. 1) 0 (interpolation_parts ts pe)"
  unfolding interpolation_parts_def
proof (rule steps_loop_first)
  show "steps ts (\<lambda>i. is_string_segment (peek_kind ts i)) l (\<lambda>_. 1) 0
      (p_bind (string_segments ts []) (\<lambda>parts'. p_test (can_start_expression ts)
        (p_bind (pe PrecAssignment) (\<lambda>e. p_return (Inl (parts' @ [e])))) (p_return (Inr parts'))))"
    by (intro string_segments_first [THEN steps_bind_from] sub_steps) auto
  show "steps ts anywhere (l + 1) round_steps 0
      (p_bind (string_segments ts s) (\<lambda>parts'. p_test (can_start_expression ts)
        (p_bind (pe PrecAssignment) (\<lambda>e. p_return (Inl (parts' @ [e])))) (p_return (Inr parts'))))" for s
    by (intro string_segments_progress [THEN steps_bind_from] sub_steps) auto
qed auto

lemma parse_string_progress:
  "steps ts (\<lambda>i. is_string_segment (peek_kind ts i)) l (\<lambda>_. 1) 0 (parse_string_with_interpolation ts pe)"
  unfolding parse_string_with_interpolation_def
  by (intro interpolation_parts_progress [THEN steps_bind_from] sub_steps) auto

lemma object_properties_progress: "steps ts anywhere l (\<lambda>_. 0) 0 (object_properties ts pe)"
  unfolding object_properties_def
  by (intro sub_steps parse_property_progress [THEN steps_bind_from]) (auto simp: discriminant_def)

lemma parse_object_literal_progress: "steps ts token_here l (\<lambda>_. 1) 1 (parse_object_literal ts pe)"
  unfolding parse_object_literal_def
  by (intro sub_steps object_properties_progress [THEN steps_bind_from]) (auto simp: discriminant_def)

lemma struct_fields_progress: "steps ts anywhere l (\<lambda>_. 0) 0 (struct_fields ts pe)"
  unfolding struct_fields_def
  by (intro sub_steps struct_literal_step_progress [THEN steps_bind_from]) (auto simp: discriminant_def)

lemma parse_struct_literal_progress: "steps ts token_here l (\<lambda>_. 1) 1 (parse_struct_literal ts pe name)"
  unfolding parse_struct_literal_def
  by (intro sub_steps struct_fields_progress [THEN steps_bind_from]) (auto simp: discriminant_def)

lemma parse_identifier_progress: "steps ts token_here l (\<lambda>_. 1) 1 (parse_identifier ts pe)"
  unfolding parse_identifier_def
  apply (intro sub_steps steps_bind [where d = 0] parse_struct_literal_progress [THEN steps_from])
  apply (auto simp: discriminant_def dest: in_range)
  done

lemma parse_await_progress: "steps ts token_here l (\<lambda>_. 1) 1 (parse_await ts pe ps)"
  unfolding parse_await_def
  apply (intro body_steps)
  apply (auto simp: discriminant_def dest: in_range intro!: steps split: expr.split)
  done

lemma parse_namespace_progress: "steps ts token_here l (\<lambda>_. 1) 0 (parse_namespace ts name message)"
  unfolding parse_namespace_def
  apply (intro sub_steps)
  apply (auto simp: discriminant_def peek_at_def EOF_TOKEN_def split: if_splits)
  done

lemma parse_literal_progress: "steps ts token_here l (\<lambda>_. 1) 1 (parse_literal ts val)"
  unfolding parse_literal_def by (intro steps) auto

lemma check_segment: "check ts (TkStringSegment []) i \<Longrightarrow> is_string_segment (peek_kind ts i)"
  by (simp add: check_def discriminant_def)

lemmas prefix_steps = body_steps
  parse_literal_progress [THEN steps_from] parse_string_progress [THEN steps_from]
  parse_keyword_call_progress [THEN steps_from] parse_identifier_progress [THEN steps_from]
  parse_unary_progress [THEN steps_from] parse_parenthesised_progress [THEN steps_from]
  parse_await_progress [THEN steps_from] parse_namespace_progress [THEN steps_from]
  parse_borrow_progress [THEN steps_from] parse_array_literal_progress [THEN steps_from]
  parse_object_literal_progress [THEN steps_from] parse_lambda_progress [THEN steps_from]

lemma parse_prefix_progress: "steps ts anywhere l (\<lambda>_. 1) 0 (parse_prefix ts pe ps)"
  unfolding parse_prefix_def
  apply (intro prefix_steps)
  apply (simp_all add: discriminant_def)
  apply (auto simp: discriminant_def dest: in_range check_segment simp: starts_async_block_def peek_at_def EOF_TOKEN_def split: if_splits)
  done

text \<open>A lambda fails only after its keyword.\<close>

lemma parse_prefix_fun: "check ts TkFun i \<Longrightarrow> parse_prefix ts pe ps i = parse_lambda ts pe ps i"
  by (simp add: parse_prefix_def p_test_def check_def discriminant_def [of TkFun] discriminant_def [of "TkNumberLiteral []"]
    discriminant_def)

lemma parse_prefix_fun_progress: "steps ts (check ts TkFun) l (\<lambda>_. 1) 1 (parse_prefix ts pe ps)"
proof -
  have "steps ts (check ts TkFun) l (\<lambda>_. 1) 1 (parse_lambda ts pe ps)"
    by (rule parse_lambda_progress [THEN steps_from]) (auto simp: discriminant_def dest: in_range)
  then show ?thesis by (simp add: steps_def parse_prefix_fun)
qed

lemma parse_binary_progress:
  "(\<And>op right. steps ts anywhere (Suc (Suc l)) (\<lambda>_. 0) 0 (con op right)) \<Longrightarrow> steps ts token_here l (\<lambda>_. 1) 0 (parse_binary ts pe con)"
  unfolding parse_binary_def by (intro sub_steps) auto

lemma parse_assignment_progress: "steps ts token_here l (\<lambda>_. 1) 0 (parse_assignment ts pe left)"
  unfolding parse_assignment_def by (intro sub_steps) (auto intro!: steps split: expr.split)

lemma parse_question_progress: "steps ts token_here l (\<lambda>_. 1) 0 (parse_question ts pe left)"
  unfolding parse_question_def
  by (intro steps_reset [where d = "\<lambda>_. 1"] sub_steps pe_progress [THEN steps_some_ok]) (auto simp: discriminant_def intro!: steps)

lemma parse_dot_progress: "steps ts token_here l (\<lambda>_. 1) 0 (parse_dot ts left)"
proof -
  have "steps ts anywhere (l + 1) (\<lambda>_. 0) 0 (p_here ts (\<lambda>tok.
      case (if is_number (kind tok) then parse_usize (lexeme tok) else None) of
        Some idx \<Rightarrow> p_bind (advance ts) (\<lambda>num_token. p_return (ETupleIndex left idx (span_to (tspan dot_token) (tspan num_token))))
      | None \<Rightarrow> parse_member ts (EMember left)))" for dot_token
  proof -
    have number: "i < length ts" if "is_number (peek_kind ts i)" for i
      using that by (intro kind_in_range) (auto simp: discriminant_def)
    have member: "steps ts anywhere (l + 1) (\<lambda>_. 0) 0 (parse_member ts (EMember left))" by (intro steps) auto
    show ?thesis
      using member number
      by (auto simp: steps_def p_here_def p_bind_def p_return_def advance_def Suc_leI split: option.split)
  qed
  then show ?thesis unfolding parse_dot_def by (intro advance_progress [THEN steps_bind_from]) auto
qed

lemma parse_argument_progress: "steps ts anywhere (Suc l) (\<lambda>_. 1) 0 (parse_argument ts pe)"
  unfolding parse_argument_def parse_unary_def
  by (intro sub_steps) (auto simp: discriminant_def dest: in_range)

lemma parse_call_progress: "steps ts token_here l (\<lambda>_. 1) 0 (parse_call ts pe left)"
  unfolding parse_call_def by (intro sub_steps parse_argument_progress [THEN steps_from]) (auto simp: discriminant_def)

lemma parse_index_progress: "steps ts token_here l (\<lambda>_. 1) 0 (parse_index ts pe left)"
  unfolding parse_index_def by (intro sub_steps) (auto simp: discriminant_def)

lemma infix_token_here: "infix_precedence ts i \<noteq> PrecNone \<Longrightarrow> i < length ts"
  by (rule kind_in_range) (auto simp: infix_precedence_def kind_precedence_def)

lemma parse_infix_progress: "steps ts (\<lambda>i. infix_precedence ts i \<noteq> PrecNone) l (\<lambda>_. 1) 0 (parse_infix ts pe left)"
  unfolding parse_infix_def
proof (rule steps_match_total, goal_cases)
  case (1 i)
  then show ?case
    by (auto simp: infix_precedence_def kind_precedence_def binary_operators_def check_def discriminant_def split: if_splits)
next
  case 2
  show ?case
    unfolding list.pred_inject fst_conv snd_conv
    apply (intro conjI TrueI parse_binary_progress [THEN steps_from] parse_assignment_progress [THEN steps_from]
      parse_question_progress [THEN steps_from] parse_dot_progress [THEN steps_from] parse_call_progress [THEN steps_from]
      parse_index_progress [THEN steps_from] steps)
    apply (auto simp: binary_operators_def discriminant_def dest: in_range intro!: steps split: expr.split)
    done
qed

lemma above_none: "prec \<le> PrecNone \<Longrightarrow> prec = PrecNone"
  by (cases prec) (simp_all add: less_eq_precedence_def)

lemma infix_loop_progress:
  "prec \<noteq> PrecNone \<Longrightarrow> length ts < n \<Longrightarrow> steps ts anywhere l (\<lambda>_. 0) 0 (infix_loop ts pe prec n left)"
  unfolding infix_loop_def
  by (intro parse_infix_progress [THEN steps_bind_from] steps)
    (auto dest: above_none)

lemma parse_precedence_body_progress:
  assumes "prec \<noteq> PrecNone"
  shows "steps ts anywhere l (\<lambda>_. 1) 0 (parse_precedence_body ts pe ps prec)"
    and "steps ts (check ts TkFun) l (\<lambda>_. 1) 1 (parse_precedence_body ts pe ps prec)"
proof -
  have loop: "steps ts anywhere (l + 1) (\<lambda>_. 0) 0 (infix_loop ts pe prec (Suc (length ts)) left)" for left
    using assms by (intro infix_loop_progress [THEN steps_weaken]) auto
  show "steps ts anywhere l (\<lambda>_. 1) 0 (parse_precedence_body ts pe ps prec)"
    unfolding parse_precedence_body_def by (rule parse_prefix_progress [THEN steps_bind_from]) (use loop in auto)
  show "steps ts (check ts TkFun) l (\<lambda>_. 1) 1 (parse_precedence_body ts pe ps prec)"
    unfolding parse_precedence_body_def by (rule parse_prefix_fun_progress [THEN steps_bind_from]) (use loop in auto)
qed

subsection \<open>Statements\<close>

lemma parse_initializer_progress: "steps ts anywhere l (\<lambda>_. 0) 0 (parse_initializer ts pe)"
  unfolding parse_initializer_def by (intro sub_steps) (auto simp: discriminant_def)

lemma destructure_initializer_progress: "steps ts anywhere l (\<lambda>_. 1) 0 (destructure_initializer ts pe message)"
  unfolding destructure_initializer_def by (intro sub_steps) (auto simp: discriminant_def)

lemma destructure_name_progress: "steps ts anywhere l (\<lambda>_. 1) 0 (destructure_name ts is_array)"
  unfolding destructure_name_def by (intro sub_steps) (auto simp: discriminant_def)

lemma optional_terminator_progress: "steps ts anywhere l (\<lambda>_. 0) 0 (if b then consume_terminator ts else p_return None)"
  by (intro sub_steps) auto

lemma parse_destructure_progress: "steps ts token_here l (\<lambda>_. 1) 1 (parse_destructure ts pe ty is_static)"
  unfolding parse_destructure_def Let_def
  by (intro sub_steps destructure_name_progress [THEN steps_from] optional_terminator_progress [THEN steps_bind_from]
    destructure_initializer_progress [THEN steps_bind_from]) (auto simp: discriminant_def)

lemma parse_tuple_destructure_progress: "steps ts token_here l (\<lambda>_. 1) 1 (parse_tuple_destructure ts pe ty)"
  unfolding parse_tuple_destructure_def
  by (intro sub_steps optional_terminator_progress [THEN steps_bind_from]
    destructure_initializer_progress [THEN steps_bind_from]) (auto simp: discriminant_def)

lemma parse_var_declaration_tail_progress: "steps ts anywhere l (\<lambda>_. 1) 0 (parse_var_declaration_tail ts pe vw st cn)"
  unfolding parse_var_declaration_tail_def
  by (intro sub_steps parse_tuple_destructure_progress [THEN steps_from] parse_destructure_progress [THEN steps_from]
    parse_initializer_progress [THEN steps_bind_from])
    (auto simp: discriminant_def check_def intro!: kind_in_range)

lemmas var_steps = sub_steps parse_var_declaration_tail_progress [THEN steps_from]
  parse_initializer_progress [THEN steps_bind_from]

lemma parse_var_declaration_progress: "steps ts token_here l (\<lambda>_. 1) 1 (parse_var_declaration ts pe is_static)"
  unfolding parse_var_declaration_def by (intro var_steps) (auto simp: discriminant_def)

lemma parse_view_var_declaration_progress: "steps ts token_here l (\<lambda>_. 1) 1 (parse_view_var_declaration ts pe)"
  unfolding parse_view_var_declaration_def by (intro var_steps) (auto simp: discriminant_def)

lemma parse_shared_var_declaration_progress: "steps ts anywhere l (\<lambda>_. 1) 0 (parse_shared_var_declaration ts pe)"
  unfolding parse_shared_var_declaration_def by (intro var_steps) (auto simp: discriminant_def)

lemma parse_static_var_progress: "steps ts token_here l (\<lambda>_. 1) 1 (parse_static_var ts pe)"
  unfolding parse_static_var_def by (intro var_steps) (auto simp: discriminant_def)

lemma parse_function_declaration_progress: "steps ts token_here l (\<lambda>_. 1) 1 (parse_function_declaration ts pe ps)"
  unfolding parse_function_declaration_def by (intro body_steps) auto

lemma parse_async_function_declaration_progress:
  "steps ts token_here l (\<lambda>_. 1) 1 (parse_async_function_declaration ts pe ps)"
  unfolding parse_async_function_declaration_def by (intro body_steps) auto

lemma parse_async_statement_progress: "steps ts token_here l (\<lambda>_. 1) 1 (parse_async_statement ts pe ps)"
  unfolding parse_async_statement_def
  apply (intro body_steps parse_async_function_declaration_progress [THEN steps_from])
  apply (auto simp: discriminant_def dest: in_range)
  done

lemma trait_method_progress: "steps ts anywhere l (\<lambda>_. 1) 0 (trait_method ts pe ps)"
  unfolding trait_method_def
  apply (intro body_steps steps_bind [where d = 0 and m = "p_test c p q" for c p q])
  apply (auto simp: discriminant_def)
  done

lemma trait_item_progress: "steps ts anywhere l (\<lambda>_. 1) 0 (trait_item ts pe ps)"
  unfolding trait_item_def
  by (intro body_steps trait_method_progress [THEN steps_bind_from]) (auto simp: discriminant_def dest: in_range)

lemma parse_trait_declaration_progress: "steps ts token_here l (\<lambda>_. 1) 1 (parse_trait_declaration ts pe ps)"
  unfolding parse_trait_declaration_def
  by (intro body_steps trait_item_progress [THEN steps_from]) (auto simp: discriminant_def)

lemma parse_impl_declaration_progress: "steps ts token_here l (\<lambda>_. 1) 1 (parse_impl_declaration ts ps)"
  unfolding parse_impl_declaration_def by (intro body_steps) (auto simp: discriminant_def)

lemma parse_test_block_progress: "steps ts token_here l (\<lambda>_. 1) 1 (parse_test_block ts ps)"
  unfolding parse_test_block_def by (intro body_steps) (auto simp: discriminant_def)

lemma parse_class_declaration_progress: "steps ts token_here l (\<lambda>_. 1) 1 (parse_class_declaration ts ps)"
  unfolding parse_class_declaration_def
  apply (intro body_steps steps_bind [where d = 0 and m = "p_test c p q" for c p q])
  apply (auto simp: discriminant_def check_ident_def intro!: kind_in_range)
  done

lemma enum_data_types_progress: "steps ts anywhere l (\<lambda>_. 0) 0 (enum_data_types ts)"
  unfolding enum_data_types_def by (intro sub_steps) (auto simp: discriminant_def)

lemma parse_enum_member_progress: "steps ts anywhere l (\<lambda>_. 1) 0 (parse_enum_member ts pe)"
  unfolding parse_enum_member_def
  by (intro sub_steps enum_data_types_progress [THEN steps_bind_from]) (auto simp: discriminant_def)

lemma parse_enum_declaration_progress: "steps ts token_here l (\<lambda>_. 1) 1 (parse_enum_declaration ts pe)"
  unfolding parse_enum_declaration_def
  by (intro sub_steps parse_enum_member_progress [THEN steps_from]) (auto simp: discriminant_def)

lemma parse_type_alias_declaration_progress: "steps ts token_here l (\<lambda>_. 1) 1 (parse_type_alias_declaration ts)"
  unfolding parse_type_alias_declaration_def by (intro sub_steps) (auto simp: discriminant_def)

lemma parse_selective_use_progress: "steps ts token_here l (\<lambda>_. 1) 1 (parse_selective_use ts)"
  unfolding parse_selective_use_def by (intro sub_steps) (auto simp: discriminant_def)

lemma parse_use_statement_progress: "steps ts token_here l (\<lambda>_. 1) 1 (parse_use_statement ts)"
  unfolding parse_use_statement_def
  by (intro sub_steps parse_selective_use_progress [THEN steps_from]) (auto simp: discriminant_def dest: in_range)

lemma parse_condition_progress: "steps ts anywhere l (\<lambda>_. 1) 0 (parse_condition ts pe message)"
  unfolding parse_condition_def by (intro sub_steps) (auto simp: discriminant_def)

lemma parse_branch_progress: "steps ts anywhere (Suc l) (\<lambda>_. 1) 0 (parse_branch ts ps)"
  unfolding parse_branch_def by (intro sub_steps) auto

lemmas control_steps = body_steps
  parse_condition_progress [THEN steps_bind_from]
  parse_branch_progress [THEN steps_from] parse_branch_progress [THEN steps_bind_from]

lemma parse_elif_progress: "steps ts token_here l (\<lambda>_. 1) 0 (parse_elif ts pe ps)"
  unfolding parse_elif_def by (intro control_steps) auto

lemma elif_branches_progress: "steps ts anywhere l (\<lambda>_. 0) 0 (elif_branches ts pe ps)"
  unfolding elif_branches_def
  by (intro control_steps parse_elif_progress [THEN steps_bind_from]) (auto simp: discriminant_def dest: in_range)

lemma parse_if_statement_progress: "steps ts token_here l (\<lambda>_. 1) 1 (parse_if_statement ts pe ps)"
  unfolding parse_if_statement_def
  by (intro control_steps elif_branches_progress [THEN steps_bind_from]) (auto simp: discriminant_def)

lemma parse_while_statement_progress: "steps ts token_here l (\<lambda>_. 1) 1 (parse_while_statement ts pe ps)"
  unfolding parse_while_statement_def by (intro control_steps) auto

lemma parse_do_while_statement_progress: "steps ts token_here l (\<lambda>_. 1) 1 (parse_do_while_statement ts pe ps)"
  unfolding parse_do_while_statement_def by (intro control_steps) (auto simp: discriminant_def)

lemma parse_in_block_progress: "steps ts anywhere l (\<lambda>_. 1) 0 (parse_in_block ts pe ps m1 m2 m3 con)"
  unfolding parse_in_block_def by (intro control_steps) (auto simp: discriminant_def)

lemma parse_for_in_statement_progress: "steps ts anywhere l (\<lambda>_. 1) 0 (parse_for_in_statement ts pe ps)"
  unfolding parse_for_in_statement_def by (intro control_steps) (auto simp: discriminant_def)

lemma for_init_progress: "steps ts anywhere (Suc l) (\<lambda>_. 0) 0 (for_init ts pe)"
  unfolding for_init_def
  by (intro control_steps parse_var_declaration_progress [THEN steps_bind_from])
    (auto simp: discriminant_def dest: in_range)

lemma for_condition_progress: "steps ts anywhere (Suc l) (\<lambda>_. 0) 0 (for_condition ts pe)"
  unfolding for_condition_def by (intro control_steps) auto

lemma for_update_progress: "steps ts anywhere (Suc l) (\<lambda>_. 0) 0 (for_update ts pe)"
  unfolding for_update_def by (intro control_steps) auto

lemma parse_for_statement_progress: "steps ts token_here l (\<lambda>_. 1) 1 (parse_for_statement ts pe ps)"
  unfolding parse_for_statement_def
  by (intro control_steps parse_in_block_progress [THEN steps_from] parse_for_in_statement_progress [THEN steps_from]
    for_init_progress [THEN steps_bind_from] for_condition_progress [THEN steps_bind_from]
    for_update_progress [THEN steps_bind_from])
    (auto simp: discriminant_def dest: in_range)

lemma parse_go_statement_progress: "steps ts token_here l (\<lambda>_. 1) 1 (parse_go_statement ts pe ps)"
  unfolding parse_go_statement_def by (intro control_steps) (auto simp: discriminant_def dest: in_range)

lemma parse_return_statement_progress: "steps ts token_here l (\<lambda>_. 1) 1 (parse_return_statement ts pe)"
  unfolding parse_return_statement_def
  by (intro control_steps steps_bind [where d = 0 and m = "p_test c p q" for c p q]) auto

lemma parse_jump_progress: "steps ts token_here l (\<lambda>_. 1) 1 (parse_jump ts con)"
  unfolding parse_jump_def by (intro control_steps) auto

lemma parse_match_case_progress: "steps ts token_here l (\<lambda>_. 1) 0 (parse_match_case ts pe ps)"
  unfolding parse_match_case_def by (intro control_steps) (auto simp: discriminant_def)

lemma parse_match_default_progress: "steps ts token_here l (\<lambda>_. 1) 0 (parse_match_default ts ps)"
  unfolding parse_match_default_def by (intro control_steps) (auto simp: discriminant_def)

lemma parse_match_arm_progress: "steps ts token_here l (\<lambda>_. 1) 0 (parse_match_arm ts pe ps)"
  unfolding parse_match_arm_def
  by (intro control_steps parse_match_default_progress [THEN steps_bind_from] parse_match_case_progress [THEN steps_bind_from])
    (auto simp: discriminant_def dest: in_range)

lemma match_arms_progress: "steps ts anywhere l (\<lambda>_. 0) 0 (until_brace ts (parse_match_arm ts pe ps))"
  unfolding until_brace_def
  by (intro steps parse_match_arm_progress [THEN steps_bind_from]) (auto dest: in_range)

lemma parse_match_statement_progress: "steps ts token_here l (\<lambda>_. 1) 1 (parse_match_statement ts pe ps)"
  unfolding parse_match_statement_def
  apply (intro match_arms_progress [THEN steps_bind_from] advance_progress [THEN steps_bind_from]
    parse_condition_progress [THEN steps_bind_from] skip_newlines_progress [THEN steps_bind_from]
    expect_progress [THEN steps_bind_from] steps_return)
  apply (auto simp: discriminant_def)
  done

lemma parse_catch_progress: "steps ts anywhere (Suc l) (\<lambda>_. 0) 0 (parse_catch ts ps)"
  unfolding parse_catch_def by (intro control_steps) (auto simp: discriminant_def)

lemma parse_try_statement_progress: "steps ts token_here l (\<lambda>_. 1) 1 (parse_try_statement ts ps)"
  unfolding parse_try_statement_def
  by (intro control_steps parse_catch_progress [THEN steps_from]) (auto simp: discriminant_def)

lemma parse_throw_statement_progress: "steps ts token_here l (\<lambda>_. 1) 1 (parse_throw_statement ts pe)"
  unfolding parse_throw_statement_def by (intro control_steps) auto

lemma parse_retry_statement_progress: "steps ts token_here l (\<lambda>_. 1) 1 (parse_retry_statement ts pe ps)"
  unfolding parse_retry_statement_def
  by (intro control_steps parse_catch_progress [THEN steps_from]) (auto simp: discriminant_def)

lemma parse_unsafe_statement_progress: "steps ts token_here l (\<lambda>_. 1) 1 (parse_unsafe_statement ts ps)"
  unfolding parse_unsafe_statement_def by (intro control_steps) auto

lemma quiet_names_progress: "steps ts anywhere l (\<lambda>_. 0) 0 (quiet_names ts)"
  unfolding quiet_names_def by (intro steps) (auto simp: discriminant_def)

lemma parse_quiet_statement_progress: "steps ts token_here l (\<lambda>_. 1) 1 (parse_quiet_statement ts ps)"
  unfolding parse_quiet_statement_def
  by (intro control_steps quiet_names_progress [THEN steps_from]) (auto simp: discriminant_def)

lemma parse_say_statement_progress: "steps ts token_here l (\<lambda>_. 1) 1 (parse_say_statement ts pe)"
  unfolding parse_say_statement_def by (intro control_steps) auto

lemmas statement_progress =
  parse_var_declaration_progress parse_static_var_progress parse_view_var_declaration_progress
  parse_function_declaration_progress parse_async_statement_progress parse_go_statement_progress
  parse_class_declaration_progress parse_enum_declaration_progress parse_type_alias_declaration_progress
  parse_trait_declaration_progress parse_impl_declaration_progress parse_if_statement_progress
  parse_while_statement_progress parse_do_while_statement_progress parse_for_statement_progress
  parse_match_statement_progress parse_try_statement_progress parse_throw_statement_progress
  parse_retry_statement_progress parse_unsafe_statement_progress parse_quiet_statement_progress
  parse_return_statement_progress parse_jump_progress parse_use_statement_progress parse_test_block_progress
  parse_block_progress parse_say_statement_progress

end

text \<open>An expression statement calls the expression parser at the token where it starts.\<close>

locale statement_subparsers = subparsers +
  assumes pe_here: "prec \<noteq> PrecNone \<Longrightarrow> steps ts anywhere l (\<lambda>_. 1) 0 (pe prec)"
    and pe_fun: "prec \<noteq> PrecNone \<Longrightarrow> steps ts (check ts TkFun) l (\<lambda>_. 1) 1 (pe prec)"
begin

lemma parse_expression_statement_progress: "steps ts anywhere l (\<lambda>_. 1) 0 (parse_expression_statement ts pe)"
  unfolding parse_expression_statement_def by (intro pe_here [THEN steps_bind_from] steps) auto

lemma parse_expression_statement_fun: "steps ts (check ts TkFun) l (\<lambda>_. 1) 1 (parse_expression_statement ts pe)"
  unfolding parse_expression_statement_def by (intro pe_fun [THEN steps_bind_from] steps) auto

lemma dispatch_statement_progress: "steps ts anywhere l (\<lambda>_. 1) 0 (dispatch_statement ts pe ps)"
  unfolding dispatch_statement_def
  apply (intro steps_match_cons steps_match_nil steps_test statement_progress [THEN steps_from]
    parse_shared_var_declaration_progress [THEN steps_from] parse_expression_statement_progress [THEN steps_from])
  apply (simp_all add: discriminant_def)
  apply (auto simp: discriminant_def dest: in_range simp: view_var_ahead_def fun_declaration_ahead_def peek_at_ident_def peek_at_operator_def
    peek_at_def EOF_TOKEN_def is_operator_token_def split: if_splits)
  done

text \<open>At a keyword where \<open>synchronize\<close> stops, a statement fails only after the keyword.\<close>

lemma dispatch_statement_sync:
  "steps ts (\<lambda>i. peek_kind ts i \<in> set sync_keywords) l (\<lambda>_. 1) 1 (dispatch_statement ts pe ps)"
  unfolding dispatch_statement_def
proof (rule steps_match_total, goal_cases)
  case (1 i)
  then show ?case by (auto simp: sync_keywords_def check_def discriminant_def)
next
  case 2
  show ?case
    unfolding list.pred_inject fst_conv snd_conv
    apply (intro conjI TrueI steps_test steps_vacuous [of _ ts l "\<lambda>_. 1" 1 "parse_shared_var_declaration ts pe"]
      steps_vacuous [of _ ts l "\<lambda>_. 1" 1 "p_test (view_var_ahead ts) p q" for p q]
      statement_progress [THEN steps_from] parse_expression_statement_fun [THEN steps_from])
    apply (auto simp: sync_keywords_def check_def discriminant_def intro!: kind_in_range
    simp: view_var_ahead_def fun_declaration_ahead_def peek_at_ident_def peek_at_operator_def
    peek_at_def EOF_TOKEN_def is_operator_token_def split: if_splits)
    done
qed

end

end
