(* ===== verification/Parser_Returns.thy ===== *)
theory Parser_Returns
  imports Parser_Total
begin

text \<open>
  The fuelled parsers satisfy the contract of theory \<open>Parser_Total\<close>, by induction on the fuel; the loop of
  \<open>Parser::parse\<close>, with its recovery from errors, ends on every list of tokens.
\<close>

section \<open>The recursive parsers\<close>

lemma fuel_progress:
  "(2 * length ts + 1 \<le> n + 2 * l \<longrightarrow> prec \<noteq> PrecNone \<longrightarrow>
      steps ts anywhere l (\<lambda>_. 1) 0 (parse_precedence_fuel ts n prec) \<and>
      steps ts (check ts TkFun) l (\<lambda>_. 1) 1 (parse_precedence_fuel ts n prec)) \<and>
   (2 * length ts + 2 \<le> n + 2 * l \<longrightarrow> steps ts anywhere l (\<lambda>_. 1) 0 (parse_statement_fuel ts n))"
proof (induction n arbitrary: l prec)
  case 0
  then show ?case by (simp add: steps_beyond)
next
  case (Suc n)
  have sub: "subparsers ts l (parse_precedence_fuel ts n) (parse_statement_fuel ts n)" if "2 * length ts + 1 \<le> Suc n + 2 * l"
    using Suc.IH [of "Suc l"] that by unfold_locales auto
  have "statement_subparsers ts l (parse_precedence_fuel ts n) (parse_statement_fuel ts n)"
    if "2 * length ts + 2 \<le> Suc n + 2 * l"
    using Suc.IH [of l] that by (intro statement_subparsers.intro sub statement_subparsers_axioms.intro) auto
  then have "2 * length ts + 2 \<le> Suc n + 2 * l \<longrightarrow> steps ts anywhere l (\<lambda>_. 1) 0 (parse_statement_fuel ts (Suc n))"
    unfolding parse_statement_fuel.simps parse_statement_body_def
    by (intro impI skip_newlines_progress [THEN steps_bind_from]
      statement_subparsers.dispatch_statement_progress [THEN steps_from]) auto
  moreover have "2 * length ts + 1 \<le> Suc n + 2 * l \<longrightarrow> prec \<noteq> PrecNone \<longrightarrow>
      steps ts anywhere l (\<lambda>_. 1) 0 (parse_precedence_fuel ts (Suc n) prec) \<and>
      steps ts (check ts TkFun) l (\<lambda>_. 1) 1 (parse_precedence_fuel ts (Suc n) prec)"
    unfolding parse_precedence_fuel.simps using subparsers.parse_precedence_body_progress [OF sub] by blast
  ultimately show ?case by blast
qed

text \<open>The parsers of the program satisfy the contract from the first token on.\<close>

interpretation parsers: statement_subparsers ts 0 "parse_precedence ts" "parse_statement ts"
proof unfold_locales
  fix prec assume "prec \<noteq> PrecNone"
  then show here: "steps ts anywhere 0 (\<lambda>_. 1) 0 (parse_precedence ts prec)"
    and "steps ts (check ts TkFun) 0 (\<lambda>_. 1) 1 (parse_precedence ts prec)"
    using fuel_progress [of ts "2 * length ts + 1" 0 prec] by (auto simp: parse_precedence_def)
  show "steps ts anywhere (Suc 0) (\<lambda>_. 1) 0 (parse_precedence ts prec)"
    by (rule steps_weaken [OF here]) auto
next
  show "steps ts anywhere (Suc 0) (\<lambda>_. 1) 0 (parse_statement ts)"
    using fuel_progress [of ts "2 * length ts + 2" "Suc 0"] by (auto simp: parse_statement_def)
qed

lemma parse_statement_progress: "steps ts anywhere 0 (\<lambda>_. 1) 0 (parse_statement ts)"
  using fuel_progress [of ts "2 * length ts + 2" 0] by (auto simp: parse_statement_def)

lemma parse_statement_sync:
  "steps ts (\<lambda>i. peek_kind ts i \<in> set sync_keywords) 0 (\<lambda>_. 1) 1 (parse_statement ts)"
proof -
  let ?pe = "parse_precedence_fuel ts (2 * length ts + 1)" and ?ps = "parse_statement_fuel ts (2 * length ts + 1)"
  have sub: "statement_subparsers ts 0 ?pe ?ps"
    using fuel_progress [of ts "2 * length ts + 1" 0] fuel_progress [of ts "2 * length ts + 1" "Suc 0"] by unfold_locales auto
  have "skip_newlines ts i = POk () i" if "peek_kind ts i \<in> set sync_keywords" for i
    using that by (auto simp: skip_newlines_def p_test_def check_def discriminant_def sync_keywords_def p_return_def)
  then show ?thesis
    using statement_subparsers.dispatch_statement_sync [OF sub]
    by (simp add: steps_def parse_statement_def parse_statement_body_def p_bind_def)
qed

section \<open>Recovery from errors\<close>

lemma sync_round_progress: "steps ts anywhere 0 round_steps 0 (sync_round ts u)"
  unfolding sync_round_def
  by (intro steps_test_strong steps_return advance_progress [THEN steps_bind_from]) (auto dest: in_range)

lemma sync_round_first:
  "steps ts (\<lambda>i. \<not> is_at_end ts i \<and> peek_kind ts i \<notin> set sync_keywords) 0 (\<lambda>_. 1) 0 (sync_round ts u)"
  unfolding sync_round_def
  by (intro steps_test_strong advance_progress [THEN steps_bind_from] steps_return
    steps_vacuous [of _ ts 0 "\<lambda>_. 1" 0 "p_return (Inr ())"]) (auto dest: in_range)

lemma synchronize_ok: "synchronize ts i \<noteq> PErr e k"
proof -
  have "p_loop n (sync_round ts) u i \<noteq> PErr e k" for n u i
    by (induction n arbitrary: u i)
      (auto simp: sync_round_def p_test_def p_bind_def p_return_def advance_def)
  then show ?thesis unfolding synchronize_def by blast
qed

lemma synchronize_progress: "steps ts anywhere 0 (\<lambda>_. 0) 0 (synchronize ts)"
  unfolding synchronize_def by (rule steps_loop [OF sync_round_progress]) simp_all

lemma synchronize_first:
  "steps ts (\<lambda>i. \<not> is_at_end ts i \<and> peek_kind ts i \<notin> set sync_keywords) 0 (\<lambda>_. 1) 0 (synchronize ts)"
  unfolding synchronize_def
  by (rule steps_loop_first [OF sync_round_first steps_weaken [OF sync_round_progress]]) simp_all


section \<open>Parsing a program\<close>

lemma parse_round_progress:
  assumes "i \<le> length ts" and "\<not> is_at_end ts i"
  shows "\<exists>st' k. parse_round ts st i = POk (Inl st') k \<and> i < k \<and> k \<le> length ts \<and>
    length (fst st') + length (snd st') \<le> Suc (length (fst st) + length (snd st))"
proof -
  consider "check ts TkNewline i"
    | s k where "\<not> check ts TkNewline i" "parse_statement ts i = POk s k" "i + 1 \<le> k" "k \<le> length ts"
    | e k where "\<not> check ts TkNewline i" "parse_statement ts i = PErr e k" "i \<le> k" "k \<le> length ts"
    using stepsD [OF parse_statement_progress, of i ts] assms(1) by auto
  then show ?thesis
  proof cases
    case 1
    then have "i < length ts" by (auto simp: discriminant_def dest: in_range)
    then show ?thesis using 1 assms by (simp add: parse_round_def p_bind_def advance_def p_return_def)
  next
    case 2
    then show ?thesis using assms by (simp add: parse_round_def)
  next
    case 3
    obtain k' where k': "synchronize ts k = POk () k'" "k \<le> k'" "i < k'" "k' \<le> length ts"
    proof (cases "k = i")
      case True
      then have "peek_kind ts i \<notin> set sync_keywords"
        using stepsD [OF parse_statement_sync, of i ts] 3 assms(1) by auto
      then show ?thesis
        using stepsD [OF synchronize_first, of k ts] True assms that synchronize_ok by fastforce
    next
      case False
      then show ?thesis
        using stepsD [OF synchronize_progress, of k ts] 3 that synchronize_ok by fastforce
    qed
    then show ?thesis using 3 assms by (simp add: parse_round_def p_bind_def p_return_def)
  qed
qed

lemma parse_rounds:
  "i \<le> length ts \<Longrightarrow> length ts - i < n \<Longrightarrow> length (fst st) + length (snd st) \<le> i \<Longrightarrow>
     \<exists>st' k. p_loop n (parse_round ts) st i = POk st' k \<and> k \<le> length ts \<and> is_at_end ts k \<and>
       length (fst st') + length (snd st') \<le> k"
proof (induction n arbitrary: st i)
  case (Suc n)
  show ?case
  proof (cases "is_at_end ts i")
    case True
    then show ?thesis using Suc.prems by (simp add: parse_round_def)
  next
    case False
    obtain st' k where r: "parse_round ts st i = POk (Inl st') k" "i < k" "k \<le> length ts"
      "length (fst st') + length (snd st') \<le> Suc (length (fst st) + length (snd st))"
      using parse_round_progress [OF Suc.prems(1) False] by blast
    then show ?thesis using Suc.IH [of k st'] Suc.prems by auto
  qed
qed simp

lemma parse_outcome_ok:
  "case parse ts of
     Parsed p \<Rightarrow> length (statements p) \<le> length ts
   | Failed errors \<Rightarrow> 0 < length errors \<and> length errors \<le> length ts
   | Parser_Panic \<Rightarrow> False
   | Parser_Out \<Rightarrow> False"
  using parse_rounds [of 0 ts "Suc (length ts)" "([], [])"] by (auto simp: parse_def)

text \<open>
  C12: On every list of tokens, with or without an end-of-file token and however malformed, the parser
  returns: no index is out of range, no \<open>unreachable!\<close> is reached and every loop and every recursion
  ends. It gives a program, or at least one error and no more errors than tokens.
\<close>

theorem parse_returns:
  "case parse ts of
     Parsed p \<Rightarrow> length (statements p) \<le> length ts
   | Failed errors \<Rightarrow> 0 < length errors \<and> length errors \<le> length ts
   | Parser_Panic \<Rightarrow> False
   | Parser_Out \<Rightarrow> False"
  by (rule parse_outcome_ok)

end
