(* ===== verification/Front_End.thy ===== *)
theory Front_End
  imports Lexer Parser_Returns Diagnostics
begin

text \<open>
  The front end as a whole: the lexer followed by the parser (\<open>parse_and_check\<close> in
  \<open>crates/ntsc-codegen/src/lib.rs\<close>), and parse errors as diagnostics (\<open>crates/ntsc-parser/src/diag.rs\<close>).
\<close>

definition parse_and_check :: "raw_lexer \<Rightarrow> string \<Rightarrow> parse_outcome option" where
  "parse_and_check raw source = map_option parse (tokenize raw source)"

definition parse_error_diagnostic :: "parse_error \<Rightarrow> diagnostic" where
  "parse_error_diagnostic e =
     with_label (label_primary (pe_span e) (pe_message e)) (with_code ''NTSC-E0001'' (diag_error (pe_message e)))"

text \<open>The diagnostics of a file that does not parse.\<close>

definition parse_failure_diagnostics :: "string \<Rightarrow> parse_error list \<Rightarrow> diagnostic list" where
  "parse_failure_diagnostics path errors = map (\<lambda>e. with_file path (parse_error_diagnostic e)) errors"

text \<open>What is printed for a source: nothing when it parses.\<close>

definition front_end_diagnostics :: "string \<Rightarrow> parse_outcome \<Rightarrow> diagnostic list" where
  "front_end_diagnostics path r =
     (case r of Failed errors \<Rightarrow> parse_failure_diagnostics path errors | _ \<Rightarrow> [])"



end
