(* ===== verification/Module_Loader.thy ===== *)
theory Module_Loader
  imports Module_Order Module_Range Front_End
begin

text \<open>
  Loading a program of several modules (\<open>crates/ntsc-build/src/modules.rs\<close>): the files that discovery
  found are parsed, each in a thread of its own, and merged into one program; a span of the
  merged program is given back to its file. The threads share nothing, so they are a
  function of each file; the times they take are left out. The result \<open>None\<close> is a call that does not return or a panic.
\<close>

section \<open>Model\<close>

record parsed_module =
  pm_path :: path
  pm_source :: string
  pm_program :: program

record module_load_result =
  lr_program :: program
  lr_modules :: "path list"
  lr_graph :: module_graph
  lr_sources :: "source_buffer list"
  lr_origins :: "path list"
  lr_ranges :: "byte_range list"
  lr_bases :: "usize list"

definition into_diagnostics :: "module_load_error \<Rightarrow> diagnostic list" where
  "into_diagnostics e =
     (case e of
        Load_Parse p errors \<Rightarrow> parse_failure_diagnostics p errors
      | Load_Io p source \<Rightarrow> [with_code ''NTSC-E0401'' (diag_error (''cannot read `'' @ p @ ''`: '' @ source))]
      | Load_Cycle p chain \<Rightarrow>
          [with_code ''NTSC-E0401''
             (diag_error (''import cycle detected for `'' @ p @ ''`:'' @ [LF] @ ''  '' @ join_with '' -> '' chain))]
      | Escapes_Project_Root p import \<Rightarrow>
          [with_code ''NTSC-E0401''
             (diag_error (''file import `'' @ import @ ''` in `'' @ p @ ''` resolves outside the project root''))]
      | Load_Internal msg \<Rightarrow> [with_code ''NTSC-E0401'' (diag_error msg)])"

definition load_error_display :: "module_load_error \<Rightarrow> string" where
  "load_error_display e =
     (case e of
        Load_Io p source \<Rightarrow> ''cannot read `'' @ p @ ''`: '' @ source
      | Load_Parse p errors \<Rightarrow> ''parse errors in `'' @ p @ ''`:'' @ [LF] @ ''  '' @ join_with ([LF] @ ''  '') (map pe_message errors)
      | Load_Cycle p chain \<Rightarrow> ''import cycle detected for `'' @ p @ ''`:'' @ [LF] @ ''  '' @ join_with '' -> '' chain
      | Escapes_Project_Root p import \<Rightarrow>
          ''file import `'' @ import @ ''` in `'' @ p @ ''` resolves outside the project root''
      | Load_Internal msg \<Rightarrow> msg)"

definition parse_file :: "raw_lexer \<Rightarrow> file_system \<Rightarrow> path \<Rightarrow> (module_load_error + string \<times> program) option" where
  "parse_file raw fs p =
     (case map_io p (fs_read fs p) of
        Inl e \<Rightarrow> Some (Inl e)
      | Inr source \<Rightarrow>
          (case map_option parse (tokenize raw source) of
             Some (Parsed prog) \<Rightarrow> Some (Inr (source, prog))
           | Some (Failed errors) \<Rightarrow> Some (Inl (Load_Parse p errors))
           | _ \<Rightarrow> None))"

text \<open>The threads are joined in order; the first error is returned, a panic of any of them goes on.\<close>

primrec parse_files :: "raw_lexer \<Rightarrow> file_system \<Rightarrow> path list \<Rightarrow> (module_load_error + parsed_module list) option" where
  "parse_files raw fs [] = Some (Inr [])"
| "parse_files raw fs (p # ps) =
     (case (parse_file raw fs p, parse_files raw fs ps) of
        (Some (Inl e), Some _) \<Rightarrow> Some (Inl e)
      | (Some (Inr (source, prog)), Some rest) \<Rightarrow>
          Some (map_sum id ((#) \<lparr>pm_path = p, pm_source = source, pm_program = prog\<rparr>) rest)
      | _ \<Rightarrow> None)"

text \<open>The statements of a module: shifted, and namespaced when it has an alias.\<close>

definition module_statements :: "string option \<Rightarrow> usize \<Rightarrow> parsed_module \<Rightarrow> stmt list" where
  "module_statements alias base m =
     (let ss = statements (shift_spans base (pm_program m))
      in case alias of None \<Rightarrow> ss | Some a \<Rightarrow> namespaced ss a (top_level_names ss))"

definition keep_stmt :: "stmt \<Rightarrow> bool" where
  "keep_stmt s =
     (case s of
        SUse _ True _ (Some _) \<Rightarrow> True
      | SUse _ True _ None \<Rightarrow> False
      | _ \<Rightarrow> True)"

text \<open>A merged statement with its file and base; a path of the graph occurs once.\<close>

type_synonym merged = "(stmt \<times> path \<times> usize) list"

definition module_entries :: "(path \<rightharpoonup> string) \<Rightarrow> usize \<Rightarrow> path \<Rightarrow> parsed_module \<Rightarrow> merged" where
  "module_entries aliases base p m =
     map (\<lambda>s. (s, p, base)) (filter keep_stmt (module_statements (aliases p) base m))"

primrec merge_entries ::
    "(path \<rightharpoonup> string) \<Rightarrow> (path \<rightharpoonup> parsed_module) \<Rightarrow> path list \<Rightarrow> usize \<Rightarrow> module_load_error + merged" where
  "merge_entries aliases by_path [] base = Inr []"
| "merge_entries aliases by_path (p # ps) base =
     (case by_path p of
        None \<Rightarrow> Inl (Load_Internal (''discovered module `'' @ p @ ''` was not parsed''))
      | Some m \<Rightarrow>
          map_sum id ((@) (module_entries aliases base p m))
            (merge_entries aliases by_path ps (base + (length (pm_source m) + 1))))"

definition merge_modules ::
    "module_graph \<Rightarrow> parsed_module list \<Rightarrow> module_load_error + program \<times> path list \<times> usize list" where
  "merge_modules g ms =
     map_sum id (\<lambda>es. (\<lparr>statements = map fst es\<rparr>, map (fst \<circ> snd) es, map (snd \<circ> snd) es))
       (merge_entries (mg_aliases g) (map_of (rev (map (\<lambda>m. (pm_path m, m)) ms))) (mg_files g) 0)"

definition load_result ::
    "module_graph \<Rightarrow> parsed_module list \<Rightarrow> program \<times> path list \<times> usize list \<Rightarrow> module_load_result" where
  "load_result g ms r =
     (case r of (prog, origins, bases) \<Rightarrow>
        \<lparr>lr_program = prog, lr_modules = map pm_path ms, lr_graph = g,
         lr_sources = fold source_map_add (map (\<lambda>m. source_buffer_new (pm_source m) (pm_path m)) ms) [],
         lr_origins = origins, lr_ranges = map stmt_byte_range (statements prog), lr_bases = bases\<rparr>)"

definition load_program ::
    "raw_lexer \<Rightarrow> file_system \<Rightarrow> nat \<Rightarrow> path \<Rightarrow> (module_load_error + module_load_result) option" where
  "load_program raw fs fuel entry =
     (case discover raw fs fuel entry of
        None \<Rightarrow> None
      | Some (Inl e) \<Rightarrow> Some (Inl e)
      | Some (Inr g) \<Rightarrow>
          (case parse_files raw fs (mg_files g) of
             None \<Rightarrow> None
           | Some (Inl e) \<Rightarrow> Some (Inl e)
           | Some (Inr ms) \<Rightarrow> Some (map_sum id (load_result g ms) (merge_modules g ms))))"

text \<open>The loop of \<open>span_index\<close>: the ranges from index \<open>i\<close> on, and the best one so far with its width.\<close>

primrec best_range :: "span \<Rightarrow> byte_range list \<Rightarrow> nat \<Rightarrow> (nat \<times> usize) option \<Rightarrow> (nat \<times> usize) option" where
  "best_range sp [] i best = best"
| "best_range sp (r # rs) i best =
     best_range sp rs (Suc i)
       (if fst r \<le> span_start sp \<and> span_stop sp \<le> snd r then
          (let width = snd r - fst r
           in if (case best of None \<Rightarrow> True | Some (_, best_width) \<Rightarrow> width < best_width) then Some (i, width) else best)
        else best)"

definition span_index :: "module_load_result \<Rightarrow> span \<Rightarrow> (nat \<times> usize) option" where
  "span_index r sp = best_range sp (lr_ranges r) 0 None"

definition file_for_span :: "module_load_result \<Rightarrow> span \<Rightarrow> path option" where
  "file_for_span r sp = map_option (\<lambda>(i, _). lr_origins r ! i) (span_index r sp)"

definition localize :: "module_load_result \<Rightarrow> span \<Rightarrow> (path \<times> usize) option" where
  "localize r sp = map_option (\<lambda>(i, _). (lr_origins r ! i, lr_bases r ! i)) (span_index r sp)"

section \<open>The best range\<close>

definition contains :: "byte_range \<Rightarrow> span \<Rightarrow> bool" where
  "contains r sp \<longleftrightarrow> fst r \<le> span_start sp \<and> span_stop sp \<le> snd r"

lemma best_range_least:
  assumes "best_range sp rs i best = res"
  shows "(\<exists>j < length rs. contains (rs ! j) sp) \<or> best \<noteq> None \<Longrightarrow>
    \<exists>k w. res = Some (k, w) \<and> (best = Some (k, w) \<or> (\<exists>j < length rs. k = i + j \<and> contains (rs ! j) sp \<and> w = snd (rs ! j) - fst (rs ! j))) \<and>
      (\<forall>j < length rs. contains (rs ! j) sp \<longrightarrow> w \<le> snd (rs ! j) - fst (rs ! j)) \<and>
      (\<forall>k' w'. best = Some (k', w') \<longrightarrow> w \<le> w')"
  using assms
proof (induction rs arbitrary: i best)
  case Nil
  then show ?case by auto
next
  case (Cons r rs)
  let ?best = "if contains r sp then
      (let width = snd r - fst r
       in if (case best of None \<Rightarrow> True | Some (_, best_width) \<Rightarrow> width < best_width) then Some (i, width) else best)
    else best"
  have res: "best_range sp rs (Suc i) ?best = res" using Cons.prems(2) by (simp add: contains_def)
  have "(\<exists>j < length rs. contains (rs ! j) sp) \<or> ?best \<noteq> None"
    using Cons.prems(1) by (auto simp: less_Suc_eq_0_disj Let_def split: option.splits)
  from Cons.IH [OF this res] obtain k w where kw: "res = Some (k, w)"
    and src: "?best = Some (k, w) \<or> (\<exists>j < length rs. k = Suc i + j \<and> contains (rs ! j) sp \<and> w = snd (rs ! j) - fst (rs ! j))"
    and least: "\<forall>j < length rs. contains (rs ! j) sp \<longrightarrow> w \<le> snd (rs ! j) - fst (rs ! j)"
    and best: "\<forall>k' w'. ?best = Some (k', w') \<longrightarrow> w \<le> w'" by blast
  have "best = Some (k, w) \<or> (\<exists>j < length (r # rs). k = i + j \<and> contains ((r # rs) ! j) sp \<and> w = snd ((r # rs) ! j) - fst ((r # rs) ! j))"
    using src
  proof
    assume "?best = Some (k, w)"
    then show ?thesis by (auto simp: Let_def split: if_splits option.splits)
  qed auto
  moreover have "w \<le> snd ((r # rs) ! j) - fst ((r # rs) ! j)" if "j < length (r # rs)" "contains ((r # rs) ! j) sp" for j
    using that least best by (cases j) (auto simp: Let_def split: if_splits option.splits)
  moreover have "w \<le> w'" if "best = Some (k', w')" for k' w'
    using that best by (auto simp: Let_def split: if_splits)
  ultimately show ?case using kw by blast
qed

lemma span_index_least:
  assumes "i < length (lr_ranges r)" "contains (lr_ranges r ! i) sp"
  shows "\<exists>j w. span_index r sp = Some (j, w) \<and> j < length (lr_ranges r) \<and> contains (lr_ranges r ! j) sp \<and>
    w = snd (lr_ranges r ! j) - fst (lr_ranges r ! j) \<and> w \<le> snd (lr_ranges r ! i) - fst (lr_ranges r ! i)"
  using best_range_least [OF refl, of "lr_ranges r" sp None 0] assms by (fastforce simp: span_index_def)

section \<open>Merging\<close>

text \<open>Every parsed module is found, so merging gives the statements of the modules one after the other.\<close>

lemma merge_entries_eq:
  "\<forall>m \<in> set ms. by_path (pm_path m) = Some m \<Longrightarrow>
   merge_entries aliases by_path (map pm_path ms) base =
     Inr (concat (map2 (\<lambda>b m. module_entries aliases b (pm_path m) m) (merge_bases base (map pm_source ms)) ms))"
  by (induction ms arbitrary: base) (simp_all add: add.assoc)

lemma module_map:
  "distinct (map pm_path ms) \<Longrightarrow> m \<in> set ms \<Longrightarrow> map_of (rev (map (\<lambda>m. (pm_path m, m)) ms)) (pm_path m) = Some m"
  by (rule map_of_is_SomeI) (simp_all add: rev_map [symmetric] o_def)

lemma merge_bases_length [simp]: "length (merge_bases base srcs) = length srcs"
  by (induction srcs arbitrary: base) simp_all

definition merged_entries :: "(path \<rightharpoonup> string) \<Rightarrow> parsed_module list \<Rightarrow> merged" where
  "merged_entries aliases ms =
     concat (map2 (\<lambda>b m. module_entries aliases b (pm_path m) m) (merge_bases 0 (map pm_source ms)) ms)"

lemma merge_modules_eq:
  assumes "mg_files g = map pm_path ms" "distinct (map pm_path ms)"
  shows "merge_modules g ms =
    (let es = merged_entries (mg_aliases g) ms in Inr (\<lparr>statements = map fst es\<rparr>, map (fst \<circ> snd) es, map (snd \<circ> snd) es))"
proof -
  have "\<forall>m \<in> set ms. map_of (rev (map (\<lambda>m. (pm_path m, m)) ms)) (pm_path m) = Some m"
    using module_map assms(2) by blast
  from merge_entries_eq [OF this] show ?thesis using assms(1) by (simp add: merge_modules_def merged_entries_def Let_def)
qed

text \<open>The spans of a module lie in its source.\<close>

definition positions_in :: "parsed_module \<Rightarrow> bool" where
  "positions_in m \<longleftrightarrow>
     list_all (\<lambda>sp. span_stop sp \<le> length (pm_source m))
       (program_spans (pm_program m) @ concat (map stmt_anns (statements (pm_program m))))"

lemma shift_within: "span_stop sp \<le> n \<Longrightarrow> span_within b n (shift_span b sp)"
  by (auto simp: span_within_def shift_span_def)

lemma module_statement_spans:
  assumes "s \<in> set (module_statements al b m)"
  shows "\<exists>t \<in> set (statements (pm_program m)).
    stmt_spans s = map (shift_span b) (stmt_spans t) \<and> stmt_anns s = map (shift_span b) (stmt_anns t)"
  using assms
  by (auto simp: module_statements_def Let_def shift_spans_def namespaced_def rw_stmts_def stmt_push_def rewriter_spans anns_rw
      spans_shift anns_shift split: option.splits)

lemma module_range:
  assumes "positions_in m" "s \<in> set (module_statements al b m)"
  shows "range_within b (length (pm_source m)) (stmt_byte_range s)"
proof -
  obtain t where t: "t \<in> set (statements (pm_program m))" "stmt_spans s = map (shift_span b) (stmt_spans t)"
      "stmt_anns s = map (shift_span b) (stmt_anns t)"
    using module_statement_spans [OF assms(2)] by blast
  have "\<forall>x \<in> set (stmt_spans t) \<union> set (stmt_anns t). span_stop x \<le> length (pm_source m)"
    using assms(1) t(1) by (auto simp: positions_in_def program_spans_def list_all_iff)
  then have "\<forall>x \<in> set (stmt_spans s) \<union> set (stmt_anns s). span_within b (length (pm_source m)) x"
    using t(2,3) by (auto intro: shift_within)
  then show ?thesis using finish_within [OF parts_keep(3)] by (simp add: stmt_byte_range_def)
qed

text \<open>Where a merged statement comes from.\<close>

lemma merged_from:
  assumes "merge_modules g ms = Inr (prog, origins, bases)" "mg_files g = map pm_path ms" "distinct (map pm_path ms)"
    and "i < length (statements prog)"
  shows "\<exists>k < length ms. origins ! i = pm_path (ms ! k) \<and> bases ! i = merge_bases 0 (map pm_source ms) ! k \<and>
    statements prog ! i \<in> set (module_statements (mg_aliases g (pm_path (ms ! k))) (bases ! i) (ms ! k))"
proof -
  let ?bs = "merge_bases 0 (map pm_source ms)"
  let ?es = "merged_entries (mg_aliases g) ms"
  have es: "statements prog = map fst ?es" "origins = map (fst \<circ> snd) ?es" "bases = map (snd \<circ> snd) ?es"
    using assms(1) merge_modules_eq [OF assms(2,3)] by (auto simp: Let_def)
  then have i: "i < length ?es" using assms(4) by simp
  then have "?es ! i \<in> set ?es" by (rule nth_mem)
  then obtain k where "k < length ms" "?es ! i \<in> set (module_entries (mg_aliases g) (?bs ! k) (pm_path (ms ! k)) (ms ! k))"
    by (auto simp: merged_entries_def set_zip)
  then show ?thesis using i by (auto simp: es module_entries_def intro!: exI [of _ k])
qed

section \<open>Properties\<close>

text \<open>
  C19: A span of a file that lies in the byte range of a top-level statement of that file is given back
  to the file, with the base by which its offsets were moved, whatever ranges the statements of the other files have.
\<close>

theorem localize_correct:
  assumes "merge_modules g ms = Inr m" "mg_files g = map pm_path ms" "distinct (map pm_path ms)" "list_all positions_in ms"
    and "r = load_result g ms m" "i < length (lr_ranges r)" "contains (lr_ranges r ! i) sp"
    and "lr_bases r ! i \<le> span_start sp" "span_start sp \<le> span_stop sp" "0 < span_stop sp"
  shows "localize r sp = Some (lr_origins r ! i, lr_bases r ! i) \<and> file_for_span r sp = Some (lr_origins r ! i)"
proof -
  obtain prog origins bases where m: "m = (prog, origins, bases)" by (cases m)
  have lr: "lr_origins r = origins" "lr_bases r = bases" "lr_ranges r = map stmt_byte_range (statements prog)"
    using assms(5) by (simp_all add: load_result_def m)
  let ?bs = "merge_bases 0 (map pm_source ms)"
  have entry: "\<exists>k < length ms. origins ! j = pm_path (ms ! k) \<and> bases ! j = ?bs ! k \<and>
      range_within (?bs ! k) (length (pm_source (ms ! k))) (lr_ranges r ! j) \<and> fst (lr_ranges r ! j) \<noteq> usize_max" if "j < length (statements prog)" for j
    using merged_from [OF assms(1) [unfolded m] assms(2,3) that] module_range assms(4) that
    by (fastforce simp: lr list_all_length stmt_byte_range_start)
  obtain j w where j: "span_index r sp = Some (j, w)" "j < length (statements prog)" "contains (lr_ranges r ! j) sp"
      "w = snd (lr_ranges r ! j) - fst (lr_ranges r ! j)" "w \<le> snd (lr_ranges r ! i) - fst (lr_ranges r ! i)"
    using span_index_least [OF assms(6,7)] by (auto simp: lr(3))
  obtain k where k: "k < length ms" "origins ! i = pm_path (ms ! k)" "bases ! i = ?bs ! k"
      "range_within (?bs ! k) (length (pm_source (ms ! k))) (lr_ranges r ! i)"
    using entry [of i] assms(6) by (auto simp: lr)
  obtain l where l: "l < length ms" "origins ! j = pm_path (ms ! l)" "bases ! j = ?bs ! l"
      "range_within (?bs ! l) (length (pm_source (ms ! l))) (lr_ranges r ! j)" "fst (lr_ranges r ! j) \<noteq> usize_max"
    using entry [OF j(2)] by blast
  have "l = k"
  proof (rule linorder_cases [of l k])
    assume "l < k"
    then have "?bs ! l + length (pm_source (ms ! l)) < ?bs ! k"
      using merge_bases_apart [of l k "map pm_source ms" 0] k(1) by simp
    then show ?thesis
      using l(4) j(3) assms(8,9) k(3) by (auto simp: range_within_def contains_def lr)
  next
    assume "k < l"
    then have "?bs ! k + length (pm_source (ms ! k)) < ?bs ! l"
      using merge_bases_apart [of k l "map pm_source ms" 0] l(1) by simp
    then show ?thesis
      using l(4,5) k(4) j(3-5) assms(7-10) k(3) by (auto simp: range_within_def contains_def lr)
  qed
  then show ?thesis using j(1) k l by (simp add: localize_def file_for_span_def lr)
qed

definition sample_modules :: "parsed_module list" where
  "sample_modules =
     map (\<lambda>p. \<lparr>pm_path = p, pm_source = fst sample_module, pm_program = snd sample_module\<rparr>) [''/p/lib.nt'', ''/p/main.nt'']"

definition sample_graph :: module_graph where
  "sample_graph = \<lparr>mg_entry = ''/p/main.nt'', mg_files = [''/p/lib.nt'', ''/p/main.nt''], mg_edges = [], mg_aliases = Map.empty\<rparr>"

lemma sample_merged:
  "merge_modules sample_graph sample_modules =
     Inr (\<lparr>statements = [SBreak (span_new 0 5 1 1), SBreak (span_new 7 12 1 1)]\<rparr>, [''/p/lib.nt'', ''/p/main.nt''], [0, 7])"
  by (simp add: merge_modules_def sample_graph_def sample_modules_def sample_module_def module_entries_def
      module_statements_def keep_stmt_def shift_spans_def shift_span_def span_new_def)

theorem localize_correct_witness:
  "localize (load_result sample_graph sample_modules
       (\<lparr>statements = [SBreak (span_new 0 5 1 1), SBreak (span_new 7 12 1 1)]\<rparr>, [''/p/lib.nt'', ''/p/main.nt''], [0, 7]))
     (span_new 8 10 1 2) = Some (''/p/main.nt'', 7)"
proof -
  have "mg_files sample_graph = map pm_path sample_modules" "distinct (map pm_path sample_modules)"
    "list_all positions_in sample_modules"
    by (simp_all add: sample_graph_def sample_modules_def sample_module_def positions_in_def program_spans_def span_new_def)
  from localize_correct [OF sample_merged this refl, of 1 "span_new 8 10 1 2"] show ?thesis
    by (simp add: load_result_def contains_def stmt_byte_range_def finish_range_def add_span_def usize_max_def span_new_def)
qed

section \<open>Errors\<close>

text \<open>The errors that loading a program can end with.\<close>

definition expected_error :: "module_load_error \<Rightarrow> bool" where
  "expected_error e = (case e of Load_Internal _ \<Rightarrow> False | Load_Parse _ errors \<Rightarrow> errors \<noteq> [] | _ \<Rightarrow> True)"

lemma map_io_error: "map_io p r = Inl e \<Longrightarrow> expected_error e"
  by (auto simp: map_io_def expected_error_def split: sum.splits)

lemma resolve_error: "resolve_import fs root parent i = Inl e \<Longrightarrow> expected_error e"
  by (auto simp: resolve_import_def Let_def canonicalize_def expected_error_def dest: map_io_error split: sum.splits if_splits)

lemma scan_error:
  "(\<And>i e. resolve i = Inl e \<Longrightarrow> expected_error e) \<Longrightarrow> scan_imports resolve ts = Inl e \<Longrightarrow> expected_error e"
proof (induction resolve ts rule: scan_imports.induct)
  case (2 resolve t ts)
  obtain i al rest where sc: "scan_use ts None None = (i, al, rest)" by (cases "scan_use ts None None")
  show ?case
  proof (cases "kind t = TkUse")
    case True
    then show ?thesis
      using 2 sc by (cases i; cases "scan_imports resolve rest") (auto split: sum.splits)
  qed (use 2 in simp)
qed simp

lemma scan_resolve_error: "scan_imports (resolve_import fs root parent) ts = Inl e \<Longrightarrow> expected_error e"
  by (rule scan_error) (rule resolve_error)

lemma file_imports_error: "file_imports raw fs p root = Some (Inl e) \<Longrightarrow> expected_error e"
  by (auto simp: file_imports_def dest: map_io_error scan_resolve_error split: sum.splits)

lemma visit_imports_error:
  "(\<And>q d e. v q d = Some (Inl e) \<Longrightarrow> expected_error e) \<Longrightarrow> visit_imports v p is d = Some (Inl e) \<Longrightarrow> expected_error e"
  by (induction v p "is" d rule: visit_imports.induct)
    (auto simp: Let_def expected_error_def split: if_splits option.splits sum.splits)

lemma visit_error: "visit raw fs root n p d = Some (Inl e) \<Longrightarrow> expected_error e"
proof (induction n arbitrary: p d e)
  case (Suc n)
  then show ?case
    using visit_imports_error [of "visit raw fs root n"] file_imports_error
    by (auto simp: map_sum_eq_iff split: if_splits option.splits sum.splits)
qed simp

lemma discover_error: "discover raw fs fuel entry = Some (Inl e) \<Longrightarrow> expected_error e"
  by (auto simp: discover_def canonicalize_def map_sum_eq_iff dest: map_io_error visit_error split: sum.splits)

context logos_lexer
begin

lemma parse_file_returns: "\<exists>r. parse_file raw fs p = Some r \<and> (\<forall>e. r = Inl e \<longrightarrow> expected_error e)"
proof (cases "fs_read fs p")
  case (Inr source)
  obtain ts where ts: "tokenize raw source = Some ts" using tokenize_total by blast
  show ?thesis
    using parse_outcome_ok [of ts]
    by (auto simp: parse_file_def map_io_def Inr ts expected_error_def split: parse_outcome.splits)
qed (simp add: parse_file_def map_io_def expected_error_def)

lemma parse_files_returns:
  "\<exists>r. parse_files raw fs ps = Some r \<and> (case r of Inl e \<Rightarrow> expected_error e | Inr ms \<Rightarrow> map pm_path ms = ps)"
proof (induction ps)
  case (Cons p ps)
  then obtain rest where rest: "parse_files raw fs ps = Some rest"
    "case rest of Inl e \<Rightarrow> expected_error e | Inr ms \<Rightarrow> map pm_path ms = ps" by blast
  obtain r where "parse_file raw fs p = Some r" "\<forall>e. r = Inl e \<longrightarrow> expected_error e" using parse_file_returns by blast
  then show ?case using rest by (cases r; cases rest) (auto split: prod.splits)
qed simp

lemma discover_total: "finite (readable fs) \<Longrightarrow> card (readable fs) < fuel \<Longrightarrow> discover raw fs fuel entry \<noteq> None"
  using visit_returns [of fs no_discovery fuel]
  by (auto simp: discover_def no_discovery_def split: sum.splits)

lemma load_total:
  assumes "finite (readable fs)" "card (readable fs) < fuel"
  shows "\<exists>r. load_program raw fs fuel entry = Some r \<and>
    (case r of
       Inl e \<Rightarrow> expected_error e
     | Inr l \<Rightarrow> length (lr_origins l) = length (statements (lr_program l)) \<and>
         length (lr_bases l) = length (statements (lr_program l)))"
proof -
  obtain d where d: "discover raw fs fuel entry = Some d" using discover_total [OF assms] by blast
  show ?thesis
  proof (cases d)
    case (Inl e)
    then show ?thesis using d discover_error by (simp add: load_program_def)
  next
    case (Inr g)
    obtain r where r: "parse_files raw fs (mg_files g) = Some r"
      "case r of Inl e \<Rightarrow> expected_error e | Inr ms \<Rightarrow> map pm_path ms = mg_files g"
      using parse_files_returns by blast
    have "distinct (mg_files g)"
      using discover_result [OF d [unfolded Inr]] by (auto simp: visited_def discovery_ok_def)
    then show ?thesis
      using d r Inr by (cases r) (simp_all add: load_program_def merge_modules_eq load_result_def Let_def)
  qed
qed

end

lemma expected_diagnostics:
  "expected_error e \<Longrightarrow> into_diagnostics e \<noteq> [] \<and>
    list_all (\<lambda>d. dg_severity d = SevError \<and> dg_code d \<noteq> None) (into_diagnostics e)"
  by (cases e) (auto simp: expected_error_def into_diagnostics_def parse_failure_diagnostics_def parse_error_diagnostic_def
      with_file_def with_label_def with_code_def diag_error_def list_all_iff)

text \<open>
  C20: Loading a program returns, on every file system with finitely many readable files, without a panic in
  a parser thread and without the internal error of a module that was not parsed; a failure has at least one
  diagnostic, each an error with a code.
\<close>

theorem load_returns:
  assumes "logos_lexer raw" "finite (readable fs)" "card (readable fs) < fuel"
  shows "\<exists>r. load_program raw fs fuel entry = Some r \<and>
    (case r of
       Inl e \<Rightarrow> into_diagnostics e \<noteq> [] \<and> list_all (\<lambda>d. dg_severity d = SevError \<and> dg_code d \<noteq> None) (into_diagnostics e) \<and>
         (\<nexists>msg. e = Load_Internal msg)
     | Inr l \<Rightarrow> length (lr_origins l) = length (statements (lr_program l)) \<and>
         length (lr_bases l) = length (statements (lr_program l)))"
proof -
  obtain r where r: "load_program raw fs fuel entry = Some r" "case r of
       Inl e \<Rightarrow> expected_error e
     | Inr l \<Rightarrow> length (lr_origins l) = length (statements (lr_program l)) \<and>
         length (lr_bases l) = length (statements (lr_program l))"
    using logos_lexer.load_total [OF assms] by blast
  have "\<nexists>msg. e = Load_Internal msg" if "expected_error e" for e using that by (auto simp: expected_error_def)
  then show ?thesis using r expected_diagnostics by (cases r) auto
qed

theorem load_returns_witness:
  "\<exists>r. load_program raw_rules sample_files 3 ''main.nt'' = Some r \<and>
    (case r of
       Inl e \<Rightarrow> into_diagnostics e \<noteq> [] \<and> list_all (\<lambda>d. dg_severity d = SevError \<and> dg_code d \<noteq> None) (into_diagnostics e) \<and>
         (\<nexists>msg. e = Load_Internal msg)
     | Inr l \<Rightarrow> length (lr_origins l) = length (statements (lr_program l)) \<and>
         length (lr_bases l) = length (statements (lr_program l)))"
  by (rule load_returns [OF rules.logos_lexer_axioms]) (simp_all add: sample_readable)

text \<open>
  A statement without a span, such as a bare \<open>return\<close>, has the range \<open>(0, 0)\<close>, and a function that
  contains one has a range that begins at the first byte of the merged program.
\<close>

lemma bare_return_range:
  "stmt_byte_range (SFunction (sample_name ''f'' 104) [] [] None [SReturn None]) = (0, 105)"
  by (simp add: stmt_byte_range_def finish_range_def usize_max_def add_span_def add_sub_def opt_part_def return_parts_def
      sample_name_def span_new_def)

end
