(* ===== verification/Build_Config.thy ===== *)
theory Build_Config
  imports Ntsc_Prelude
begin

text \<open>
  The project file \<open>neutron.toml\<close> (\<open>crates/ntsc-build/src/lib.rs\<close>). The TOML parser is a library: it
  is the parameter \<open>toml\<close>, from the source to an error text or a value, of which the code
  looks at strings and tables only. The triple of the host is the parameter \<open>host\<close>, fixed when the compiler is built.
\<close>

section \<open>Model\<close>

datatype toml_value =
    Toml_String string
  | Toml_Table "(string \<times> toml_value) list"
  | Toml_Other

record build_config =
  bc_target :: string
  bc_entry :: string
  bc_output :: string

record build_error =
  be_message :: string
  be_line :: u32
  be_column :: u32

definition build_error_new :: "string \<Rightarrow> build_error" where
  "build_error_new message = \<lparr>be_message = message, be_line = 0, be_column = 0\<rparr>"

type_synonym toml_table = "(string \<times> toml_value) list"

definition toml_get :: "toml_value \<Rightarrow> string \<Rightarrow> toml_value option" where
  "toml_get v key = (case v of Toml_Table t \<Rightarrow> map_of t key | _ \<Rightarrow> None)"

definition extract_string :: "toml_table \<Rightarrow> string \<Rightarrow> build_error list \<Rightarrow> string option \<times> build_error list" where
  "extract_string t key errors =
     (case map_of t key of
        Some (Toml_String s) \<Rightarrow> (Some s, errors)
      | Some _ \<Rightarrow> (None, errors @ [build_error_new (''`'' @ key @ ''` must be a string'')])
      | None \<Rightarrow> (None, errors @ [build_error_new (''missing required key `'' @ key @ ''` in [package]'')]))"

text \<open>The three fields; the two errors before them end the parse at once. An \<open>expect\<close> that fails is a panic.\<close>

definition package_config :: "string \<Rightarrow> toml_table \<Rightarrow> (build_error list + build_config) option" where
  "package_config host package =
     (let (target, errors1) = (case map_of package ''target'' of
                                 Some _ \<Rightarrow> extract_string package ''target'' []
                               | None \<Rightarrow> (Some host, []));
          (entry, errors2) = extract_string package ''entry'' errors1;
          (output, errors3) = extract_string package ''output'' errors2
      in if errors3 = [] then
           (case (target, entry, output) of
              (Some t, Some e, Some p) \<Rightarrow> Some (Inr \<lparr>bc_target = t, bc_entry = e, bc_output = p\<rparr>)
            | _ \<Rightarrow> None)
         else Some (Inl errors3))"

definition parse_config :: "(string \<Rightarrow> string + toml_value) \<Rightarrow> string \<Rightarrow> string \<Rightarrow> (build_error list + build_config) option" where
  "parse_config toml host source =
     (case toml source of
        Inl e \<Rightarrow> Some (Inl [build_error_new (''TOML syntax error: '' @ e)])
      | Inr v \<Rightarrow>
          (case toml_get v ''package'' of
             Some (Toml_Table package) \<Rightarrow> package_config host package
           | _ \<Rightarrow> Some (Inl [build_error_new ''missing `[package]` section''])))"

section \<open>Specification\<close>

text \<open>The value of a field, and the error for it.\<close>

definition string_field :: "toml_table \<Rightarrow> string \<Rightarrow> string option" where
  "string_field t key = (case map_of t key of Some (Toml_String s) \<Rightarrow> Some s | _ \<Rightarrow> None)"

definition field_error :: "toml_table \<Rightarrow> string \<Rightarrow> build_error list" where
  "field_error t key =
     (if string_field t key \<noteq> None then []
      else if map_of t key = None then [build_error_new (''missing required key `'' @ key @ ''` in [package]'')]
      else [build_error_new (''`'' @ key @ ''` must be a string'')])"

lemma extract_string_eq: "extract_string t key errors = (string_field t key, errors @ field_error t key)"
  by (auto simp: extract_string_def string_field_def field_error_def split: option.splits toml_value.splits)

lemma field_error_Nil: "field_error t key = [] \<longleftrightarrow> string_field t key \<noteq> None"
  by (simp add: field_error_def)

text \<open>
  Parsing a project file never panics: a package with every field yields its configuration, the
  host triple standing in for a missing target, and any other package yields one error for each field that is missing or not
  a string, in the order target, entry, output.
\<close>

theorem parse_config_spec:
  assumes "toml source = Inr (Toml_Table root)" "map_of root ''package'' = Some (Toml_Table package)"
    and "target = (if map_of package ''target'' = None then Some host else string_field package ''target'')"
    and "errors = (if map_of package ''target'' = None then [] else field_error package ''target'') @
      field_error package ''entry'' @ field_error package ''output''"
  shows "parse_config toml host source =
    (case (target, string_field package ''entry'', string_field package ''output'') of
       (Some t, Some e, Some p) \<Rightarrow> Some (Inr \<lparr>bc_target = t, bc_entry = e, bc_output = p\<rparr>)
     | _ \<Rightarrow> Some (Inl errors)) \<and>
    (errors = [] \<longleftrightarrow> target \<noteq> None \<and> string_field package ''entry'' \<noteq> None \<and> string_field package ''output'' \<noteq> None)"
proof -
  have "parse_config toml host source = package_config host package"
    using assms(1,2) by (simp add: parse_config_def toml_get_def)
  moreover have "package_config host package =
      (if errors = [] then
         (case (target, string_field package ''entry'', string_field package ''output'') of
            (Some t, Some e, Some p) \<Rightarrow> Some (Inr \<lparr>bc_target = t, bc_entry = e, bc_output = p\<rparr>)
          | _ \<Rightarrow> None)
       else Some (Inl errors))"
    using assms(3,4) by (cases "map_of package ''target''") (simp_all add: package_config_def extract_string_eq)
  moreover have "errors = [] \<longleftrightarrow> target \<noteq> None \<and> string_field package ''entry'' \<noteq> None \<and> string_field package ''output'' \<noteq> None"
    using assms(3,4) by (simp add: field_error_Nil)
  ultimately show ?thesis by (auto split: option.splits)
qed

theorem parse_config_spec_witness:
  "parse_config (\<lambda>_. Inr (Toml_Table [(''package'', Toml_Table [(''target'', Toml_Other), (''entry'', Toml_String ''src/main.nt'')])]))
     ''x86_64-unknown-linux-gnu'' [] =
   Some (Inl [build_error_new ''`target` must be a string'', build_error_new ''missing required key `output` in [package]''])"
  using parse_config_spec [of "\<lambda>_. Inr (Toml_Table [(''package'', Toml_Table [(''target'', Toml_Other), (''entry'', Toml_String ''src/main.nt'')])])"
    "[]", OF refl _ refl refl]
  by (simp add: string_field_def field_error_def)

end
