(* ===== verification/Async_Context.thy ===== *)
theory Async_Context
  imports Ntsc_Prelude
begin

text \<open>
  The cooperative executor of the runtime (\<open>ntsc-runtime/src/lib.rs\<close>): the thread's task stack
  \<open>ASYNC_TASKS\<close>, the stack of saved contexts \<open>ASYNC_STACKS\<close>, the legacy driver of
  \<open>ntsc_async_run\<close> and the two combinators \<open>wait_any\<close> and \<open>wait_all\<close>.

  A Rust \<open>Vec\<close> used as a stack is a list whose last element is the top. A poll function is code
  emitted by the compiler: \<open>poll p f\<close> is the call of the poll function \<open>p\<close> on the future \<open>f\<close>, a
  parameter that may change the whole context (it may call \<open>ntsc_async_push\<close>) and that returns
  1 when the future has completed. \<open>async_world\<close> is everything else a poll can touch, and \<open>slp\<close> is
  what the thread's sleep of one millisecond does to it. Drivers that may run for ever are
  \<open>partial_function\<close>s: not returning is \<open>None\<close>.
\<close>

section \<open>The two thread-local stacks\<close>

type_synonym 'p task = "'p \<times> i64"

record ('p, 'w) async_ctx =
  async_tasks :: "'p task list"
  async_stacks :: "('p task list \<times> i64) list"
  async_world :: 'w

type_synonym ('p, 'w) poll = "'p \<Rightarrow> i64 \<Rightarrow> ('p, 'w) async_ctx \<Rightarrow> ('p, 'w) async_ctx \<times> int"

definition last_opt :: "'a list \<Rightarrow> 'a option" where
  "last_opt xs = (if xs = [] then None else Some (last xs))"

definition pop_task :: "('p, 'w) async_ctx \<Rightarrow> ('p, 'w) async_ctx" where
  "pop_task c = c\<lparr>async_tasks := butlast (async_tasks c)\<rparr>"

definition current_result :: "('p, 'w) async_ctx \<Rightarrow> i64" where
  "current_result c = (case last_opt (async_stacks c) of None \<Rightarrow> NULL | Some (_, r) \<Rightarrow> r)"

definition install_async_tasks :: "'p task list \<Rightarrow> ('p, 'w) async_ctx \<Rightarrow> ('p, 'w) async_ctx" where
  "install_async_tasks ts c = c\<lparr>async_tasks := ts\<rparr>"

definition take_async_tasks :: "('p, 'w) async_ctx \<Rightarrow> ('p, 'w) async_ctx \<times> 'p task list" where
  "take_async_tasks c = (c\<lparr>async_tasks := []\<rparr>, async_tasks c)"

definition poll_async_tasks_once :: "('p, 'w) poll \<Rightarrow> ('p, 'w) async_ctx \<Rightarrow> ('p, 'w) async_ctx" where
  "poll_async_tasks_once poll c =
     (case last_opt (async_tasks c) of
        None \<Rightarrow> c
      | Some (p, future) \<Rightarrow>
          (let depth = length (async_tasks c); (c1, d) = poll p future c
           in if d = 1 \<and> length (async_tasks c1) = depth then pop_task c1 else c1))"

definition save_async_context :: "('p, 'w) async_ctx \<Rightarrow> ('p, 'w) async_ctx \<times> i64" where
  "save_async_context c =
     (let prev_result = current_result c
      in (c\<lparr>async_stacks := async_stacks c @ [(async_tasks c, prev_result)], async_tasks := []\<rparr>, prev_result))"

definition restore_async_context :: "i64 \<Rightarrow> ('p, 'w) async_ctx \<Rightarrow> ('p, 'w) async_ctx \<times> i64" where
  "restore_async_context result c =
     (let c1 = (case last_opt (async_stacks c) of
                  None \<Rightarrow> c
                | Some (saved, _) \<Rightarrow> c\<lparr>async_stacks := butlast (async_stacks c), async_tasks := saved\<rparr>)
      in (c1, current_result c1))"

definition ntsc_async_push :: "'p \<Rightarrow> i64 \<Rightarrow> ('p, 'w) async_ctx \<Rightarrow> ('p, 'w) async_ctx" where
  "ntsc_async_push p future c =
     (if future = NULL then c else c\<lparr>async_tasks := async_tasks c @ [(p, future)]\<rparr>)"

section \<open>The legacy driver\<close>

text \<open>One turn of the loop: \<open>None\<close> when the stack is empty, otherwise the context after the poll
  of the topmost task, whether it completed, and whether it pushed a child.\<close>

definition poll_top :: "('p, 'w) poll \<Rightarrow> ('p, 'w) async_ctx \<Rightarrow> (('p, 'w) async_ctx \<times> bool \<times> bool) option" where
  "poll_top poll c =
     (case last_opt (async_tasks c) of
        None \<Rightarrow> None
      | Some (p, future) \<Rightarrow>
          (let depth_before = length (async_tasks c); (c1, d) = poll p future c;
               pushed = (depth_before < length (async_tasks c1))
           in Some (if d = 1 then pop_task c1 else c1, d = 1, pushed)))"

partial_function (option) async_loop ::
    "('p, 'w) poll \<Rightarrow> ('w \<Rightarrow> 'w) \<Rightarrow> ('p, 'w) async_ctx \<Rightarrow> ('p, 'w) async_ctx option" where
  "async_loop poll slp c =
     (case poll_top poll c of
        None \<Rightarrow> Some c
      | Some (c1, finished, pushed) \<Rightarrow>
          if finished \<or> pushed then async_loop poll slp c1
          else async_loop poll slp (c1\<lparr>async_world := slp (async_world c1)\<rparr>))"

text \<open>\<open>ntsc_async_run\<close> with \<open>NTSC_LEGACY_ASYNC\<close> set.\<close>

definition ntsc_async_run_legacy ::
    "('p, 'w) poll \<Rightarrow> ('w \<Rightarrow> 'w) \<Rightarrow> 'p \<Rightarrow> i64 \<Rightarrow> ('p, 'w) async_ctx \<Rightarrow> ('p, 'w) async_ctx option" where
  "ntsc_async_run_legacy poll slp poll_fn root c =
     (if root = NULL then Some c
      else (let c1 = fst (save_async_context c)
            in async_loop poll slp (c1\<lparr>async_tasks := async_tasks c1 @ [(poll_fn, root)]\<rparr>)))"

section \<open>Waiting for two branches\<close>

text \<open>Branch \<open>a\<close> lives in \<open>ASYNC_TASKS\<close>, branch \<open>b\<close> in the last entry of \<open>ASYNC_STACKS\<close>.\<close>

definition last_branch :: "('p, 'w) async_ctx \<Rightarrow> 'p task list" where
  "last_branch c = (case last_opt (async_stacks c) of None \<Rightarrow> [] | Some (ts, _) \<Rightarrow> ts)"

definition pop_branch :: "('p, 'w) async_ctx \<Rightarrow> ('p, 'w) async_ctx" where
  "pop_branch c =
     (case last_opt (async_stacks c) of
        None \<Rightarrow> c
      | Some (ts, r) \<Rightarrow> c\<lparr>async_stacks := butlast (async_stacks c) @ [(butlast ts, r)]\<rparr>)"

definition poll_branch :: "('p, 'w) poll \<Rightarrow> ('p, 'w) async_ctx \<Rightarrow> (('p, 'w) async_ctx \<times> bool \<times> bool) option" where
  "poll_branch poll c =
     (case last_opt (last_branch c) of
        None \<Rightarrow> None
      | Some (p, future) \<Rightarrow>
          (let len_b = length (last_branch c); (c1, d) = poll p future c;
               pushed = (len_b < length (last_branch c1))
           in Some (if d = 1 then pop_branch c1 else c1, d = 1, pushed)))"

definition push_branch :: "'p \<Rightarrow> i64 \<Rightarrow> ('p, 'w) async_ctx \<Rightarrow> ('p, 'w) async_ctx" where
  "push_branch p future c = c\<lparr>async_stacks := async_stacks c @ [([(p, future)], NULL)]\<rparr>"

partial_function (option) wait_any_loop ::
    "('p, 'w) poll \<Rightarrow> ('w \<Rightarrow> 'w) \<Rightarrow> i64 \<Rightarrow> i64 \<Rightarrow> ('p, 'w) async_ctx \<Rightarrow> (('p, 'w) async_ctx \<times> i64) option" where
  "wait_any_loop poll slp future_a future_b c =
     (case poll_top poll c of
        None \<Rightarrow> Some (c, NULL)
      | Some (c1, done_a, pushed_a) \<Rightarrow>
          if done_a then Some (c1, future_a)
          else (case poll_branch poll c1 of
                  None \<Rightarrow> Some (c1, NULL)
                | Some (c2, done_b, pushed_b) \<Rightarrow>
                    if done_b then Some (c2, future_b)
                    else if \<not> pushed_a \<and> \<not> pushed_b
                    then wait_any_loop poll slp future_a future_b (c2\<lparr>async_world := slp (async_world c2)\<rparr>)
                    else wait_any_loop poll slp future_a future_b c2))"

definition ntsc_async_wait_any ::
    "('p, 'w) poll \<Rightarrow> ('w \<Rightarrow> 'w) \<Rightarrow> 'p \<Rightarrow> i64 \<Rightarrow> 'p \<Rightarrow> i64 \<Rightarrow> ('p, 'w) async_ctx \<Rightarrow> (('p, 'w) async_ctx \<times> i64) option" where
  "ntsc_async_wait_any poll slp poll_a future_a poll_b future_b c =
     (if future_a = NULL \<and> future_b = NULL then Some (c, NULL)
      else if future_a = NULL \<or> future_b = NULL then
        (let (p, fut) = (if future_a \<noteq> NULL then (poll_a, future_a) else (poll_b, future_b))
         in Some (c\<lparr>async_tasks := async_tasks c @ [(p, fut)]\<rparr>, fut))
      else
        (let c1 = fst (save_async_context c);
             c2 = push_branch poll_b future_b (c1\<lparr>async_tasks := async_tasks c1 @ [(poll_a, future_a)]\<rparr>)
         in case wait_any_loop poll slp future_a future_b c2 of
              None \<Rightarrow> None
            | Some (c3, result) \<Rightarrow> Some (fst (restore_async_context NULL c3), result)))"

text \<open>The two halves of one round of \<open>wait_all\<close>.\<close>

definition all_turn_a :: "('p, 'w) poll \<Rightarrow> bool \<Rightarrow> ('p, 'w) async_ctx \<Rightarrow> ('p, 'w) async_ctx \<times> bool" where
  "all_turn_a poll done_a c =
     (if done_a then (c, True)
      else (case poll_top poll c of
              None \<Rightarrow> (c, True)
            | Some (c1, d, pushed) \<Rightarrow> (c1, d \<and> \<not> pushed)))"

definition all_turn_b :: "('p, 'w) poll \<Rightarrow> bool \<Rightarrow> ('p, 'w) async_ctx \<Rightarrow> ('p, 'w) async_ctx \<times> bool" where
  "all_turn_b poll done_b c =
     (if done_b then (c, True)
      else (case poll_branch poll c of
              None \<Rightarrow> (c, True)
            | Some (c1, d, pushed) \<Rightarrow> (c1, d \<and> \<not> pushed)))"

partial_function (option) wait_all_loop ::
    "('p, 'w) poll \<Rightarrow> ('w \<Rightarrow> 'w) \<Rightarrow> bool \<Rightarrow> bool \<Rightarrow> ('p, 'w) async_ctx \<Rightarrow> ('p, 'w) async_ctx option" where
  "wait_all_loop poll slp done_a done_b c =
     (if done_a \<and> done_b then Some c
      else (case all_turn_a poll done_a c of
              (c1, da) \<Rightarrow>
                (case all_turn_b poll done_b c1 of
                   (c2, db) \<Rightarrow>
                     if da \<and> db then Some c2
                     else wait_all_loop poll slp da db (c2\<lparr>async_world := slp (async_world c2)\<rparr>))))"

definition ntsc_async_wait_all ::
    "('p, 'w) poll \<Rightarrow> ('w \<Rightarrow> 'w) \<Rightarrow> 'p \<Rightarrow> i64 \<Rightarrow> 'p \<Rightarrow> i64 \<Rightarrow> ('p, 'w) async_ctx \<Rightarrow> (('p, 'w) async_ctx \<times> i64) option" where
  "ntsc_async_wait_all poll slp poll_a future_a poll_b future_b c =
     (if future_a = NULL \<and> future_b = NULL then Some (c, NULL)
      else
        (let c1 = fst (save_async_context c);
             c2 = (if future_a \<noteq> NULL then c1\<lparr>async_tasks := async_tasks c1 @ [(poll_a, future_a)]\<rparr> else c1);
             c3 = (if future_b \<noteq> NULL then push_branch poll_b future_b c2 else c2)
         in case wait_all_loop poll slp (future_a = NULL) (future_b = NULL) c3 of
              None \<Rightarrow> None
            | Some c4 \<Rightarrow> Some (fst (restore_async_context NULL c4), future_b)))"

section \<open>Stack discipline\<close>

lemma last_opt_simps [simp]:
  "last_opt [] = None"
  "last_opt (xs @ [x]) = Some x"
  "last_opt [x] = Some x"
  by (simp_all add: last_opt_def)

lemma save_restore: "fst (restore_async_context r (fst (save_async_context c))) = c"
  by (simp add: save_async_context_def restore_async_context_def Let_def)

lemma restore_last:
  "async_stacks c = ss @ [(saved, x)] \<Longrightarrow>
     fst (restore_async_context r c) = c\<lparr>async_stacks := ss, async_tasks := saved\<rparr>"
  by (simp add: restore_async_context_def Let_def)

text \<open>Nested scopes: a save inside a save is undone by the first of two restores.\<close>

lemma save_save_restore:
  "fst (restore_async_context r (fst (restore_async_context s (fst (save_async_context (fst (save_async_context c))))))) = c"
  by (simp only: save_restore)

text \<open>A poll that only pushes: the turn of the scheduler pops the task exactly when it completed
  and pushed nothing.\<close>

lemma poll_once_pushes:
  assumes "async_tasks c = ts @ [(p, f)]" "poll p f c = (c1, d)" "async_tasks c1 = async_tasks c @ cs"
  shows "async_tasks (poll_async_tasks_once poll c) = (if d = 1 \<and> cs = [] then ts else async_tasks c @ cs)"
  using assms by (auto simp: poll_async_tasks_once_def pop_task_def Let_def)

lemma poll_top_eq:
  "async_tasks c = ts @ [(p, f)] \<Longrightarrow> poll p f c = (c1, d) \<Longrightarrow>
     poll_top poll c = Some (if d = 1 then pop_task c1 else c1, d = 1, Suc (length ts) < length (async_tasks c1))"
  by (simp add: poll_top_def Let_def)

lemma poll_branch_eq:
  "async_stacks c = ss @ [(ts @ [(p, f)], n)] \<Longrightarrow> poll p f c = (c1, d) \<Longrightarrow>
     poll_branch poll c = Some (if d = 1 then pop_branch c1 else c1, d = 1, Suc (length ts) < length (last_branch c1))"
  by (simp add: poll_branch_def last_branch_def Let_def)

text \<open>Poll functions that leave both stacks alone: their effect is one on the world.\<close>

definition world_poll :: "('p \<Rightarrow> i64 \<Rightarrow> 'w \<Rightarrow> 'w \<times> int) \<Rightarrow> ('p, 'w) poll" where
  "world_poll pw p f c = (c\<lparr>async_world := fst (pw p f (async_world c))\<rparr>, snd (pw p f (async_world c)))"

lemma poll_top_world:
  "async_tasks c = ts @ [(p, f)] \<Longrightarrow> pw p f (async_world c) = (w, d) \<Longrightarrow>
     poll_top (world_poll pw) c =
       Some (if d = 1 then c\<lparr>async_world := w, async_tasks := ts\<rparr> else c\<lparr>async_world := w\<rparr>, d = 1, False)"
  by (simp add: poll_top_eq world_poll_def pop_task_def)

lemma poll_branch_world:
  "async_stacks c = ss @ [(ts @ [(p, f)], n)] \<Longrightarrow> pw p f (async_world c) = (w, d) \<Longrightarrow>
     poll_branch (world_poll pw) c =
       Some (if d = 1 then c\<lparr>async_world := w, async_stacks := ss @ [(ts, n)]\<rparr> else c\<lparr>async_world := w\<rparr>, d = 1, False)"
  by (simp add: poll_branch_eq last_branch_def world_poll_def pop_branch_def)

lemma poll_top_empty: "async_tasks c = [] \<Longrightarrow> poll_top poll c = None"
  by (simp add: poll_top_def)

section \<open>Two branches that keep the context\<close>

text \<open>Polls that make progress: \<open>m\<close> bounds the number of pending polls to come. \<open>established pw
  slp p f Q\<close>: the completion of the future \<open>f\<close> makes \<open>Q\<close> true, and nothing makes it false again.\<close>

definition progresses :: "('p \<Rightarrow> i64 \<Rightarrow> 'w \<Rightarrow> 'w \<times> int) \<Rightarrow> ('w \<Rightarrow> 'w) \<Rightarrow> ('w \<Rightarrow> nat) \<Rightarrow> bool" where
  "progresses pw slp m \<longleftrightarrow>
     (\<forall>p f w w' d. pw p f w = (w', d) \<longrightarrow>
        (d = 0 \<or> d = 1) \<and> m w' \<le> m w \<and> (d = 0 \<longrightarrow> m w' < m w)) \<and>
     (\<forall>w. m (slp w) \<le> m w)"

definition established ::
    "('p \<Rightarrow> i64 \<Rightarrow> 'w \<Rightarrow> 'w \<times> int) \<Rightarrow> ('w \<Rightarrow> 'w) \<Rightarrow> 'p \<Rightarrow> i64 \<Rightarrow> ('w \<Rightarrow> bool) \<Rightarrow> bool" where
  "established pw slp p f Q \<longleftrightarrow>
     (\<forall>w w'. pw p f w = (w', 1) \<longrightarrow> Q w') \<and>
     (\<forall>q g w w' d. Q w \<longrightarrow> pw q g w = (w', d) \<longrightarrow> Q w') \<and> (\<forall>w. Q w \<longrightarrow> Q (slp w))"

lemma progresses_poll:
  assumes "progresses pw slp m" "pw p f w = (w', d)"
  shows "d \<noteq> 1 \<longleftrightarrow> d = 0" "m w' \<le> m w" "d = 0 \<Longrightarrow> m w' < m w"
  using assms unfolding progresses_def by force+

lemma progresses_sleep: "progresses pw slp m \<Longrightarrow> m (slp w) \<le> m w"
  by (simp add: progresses_def)

lemma established_poll:
  assumes "established pw slp p f Q" "pw q g w = (w', d)"
  shows "q = p \<Longrightarrow> g = f \<Longrightarrow> d = 1 \<Longrightarrow> Q w'" "Q w \<Longrightarrow> Q w'"
  using assms unfolding established_def by blast+

lemma established_sleep: "established pw slp p f Q \<Longrightarrow> Q w \<Longrightarrow> Q (slp w)"
  by (simp add: established_def)

lemma wait_any_loop_outcome:
  assumes pr: "progresses pw slp m"
  shows "async_tasks c = [(pa, fa)] \<Longrightarrow> async_stacks c = ss @ [([(pb, fb)], n)] \<Longrightarrow>
     \<exists>c' r w. wait_any_loop (world_poll pw) slp fa fb c = Some (c', r) \<and>
       (r = fa \<and> pw pa fa w = (async_world c', 1) \<and> async_stacks c' = async_stacks c \<or>
        r = fb \<and> pw pb fb w = (async_world c', 1) \<and> async_stacks c' = ss @ [([], n)])"
proof (induction "m (async_world c)" arbitrary: c rule: less_induct)
  case less
  obtain w1 d1 where a: "pw pa fa (async_world c) = (w1, d1)" by fastforce
  obtain w2 d2 where b: "pw pb fb w1 = (w2, d2)" by fastforce
  have top: "poll_top (world_poll pw) c =
      Some (if d1 = 1 then c\<lparr>async_world := w1, async_tasks := []\<rparr> else c\<lparr>async_world := w1\<rparr>, d1 = 1, False)"
    using poll_top_world [of c "[]" pa fa pw w1 d1] less.prems a by simp
  have branch: "poll_branch (world_poll pw) (c\<lparr>async_world := w1\<rparr>) =
      Some (if d2 = 1 then c\<lparr>async_world := w2, async_stacks := ss @ [([], n)]\<rparr> else c\<lparr>async_world := w2\<rparr>, d2 = 1, False)"
    using poll_branch_world [of "c\<lparr>async_world := w1\<rparr>" ss "[]" pb fb n pw w2 d2] less.prems b by simp
  have zero: "d1 \<noteq> 1 \<Longrightarrow> d1 = 0" "d2 \<noteq> 1 \<Longrightarrow> d2 = 0"
    using progresses_poll(1) [OF pr a] progresses_poll(1) [OF pr b] by simp_all
  consider "d1 = 1" | "d1 = 0" "d2 = 1" | "d1 = 0" "d2 = 0" using zero by blast
  then show ?case
  proof cases
    case 1
    then show ?thesis using a by (subst wait_any_loop.simps) (auto simp: top)
  next
    case 2
    then show ?thesis using b by (subst wait_any_loop.simps) (auto simp: top branch)
  next
    case 3
    let ?c = "c\<lparr>async_world := slp w2\<rparr>"
    have "m (async_world ?c) < m (async_world c)" 
      using progresses_poll(3) [OF pr a] progresses_poll(2) [OF pr b] progresses_sleep [OF pr, of w2] 3 by simp
    from less.hyps [OF this] less.prems show ?thesis
      by (subst wait_any_loop.simps) (simp add: top branch 3)
  qed
qed

text \<open>The legacy driver returns with an empty stack, and it leaves the saved context on
  \<open>ASYNC_STACKS\<close>: nothing restores the tasks that were running when it was called.\<close>

lemma async_loop_outcome:
  assumes pr: "progresses pw slp m"
  shows "async_tasks c = [(p, f)] \<Longrightarrow>
     \<exists>c'. async_loop (world_poll pw) slp c = Some c' \<and> async_tasks c' = [] \<and> async_stacks c' = async_stacks c"
proof (induction "m (async_world c)" arbitrary: c rule: less_induct)
  case less
  obtain w d where a: "pw p f (async_world c) = (w, d)" by fastforce
  have top: "poll_top (world_poll pw) c =
      Some (if d = 1 then c\<lparr>async_world := w, async_tasks := []\<rparr> else c\<lparr>async_world := w\<rparr>, d = 1, False)"
    using poll_top_world [of c "[]" p f pw w d] less.prems a by simp
  show ?case
  proof (cases "d = 1")
    case True
    then show ?thesis
      by (subst async_loop.simps, simp add: top) (subst async_loop.simps, simp add: poll_top_empty)
  next
    case False
    let ?c = "c\<lparr>async_world := slp w\<rparr>"
    have "m (async_world ?c) < m (async_world c)"
      using False progresses_poll(1,3) [OF pr a] progresses_sleep [OF pr, of w] by simp
    from less.hyps [OF this] less.prems False show ?thesis
      by (subst async_loop.simps) (simp add: top)
  qed
qed

lemma legacy_run_outcome:
  assumes "progresses pw slp m" "root \<noteq> NULL"
  shows "\<exists>c'. ntsc_async_run_legacy (world_poll pw) slp p root c = Some c' \<and> async_tasks c' = [] \<and>
    async_stacks c' = async_stacks c @ [(async_tasks c, current_result c)]"
  using async_loop_outcome [OF assms(1), of "c\<lparr>async_stacks := async_stacks c @ [(async_tasks c, current_result c)],
      async_tasks := [(p, root)]\<rparr>" p root] assms(2)
  by (simp add: ntsc_async_run_legacy_def save_async_context_def Let_def)

text \<open>The state of the loop of \<open>wait_all\<close> between two turns.\<close>

definition all_inv ::
    "'p task \<Rightarrow> 'p task \<Rightarrow> ('p task list \<times> i64) list \<Rightarrow> i64 \<Rightarrow> ('w \<Rightarrow> bool) \<Rightarrow> ('w \<Rightarrow> bool) \<Rightarrow>
     bool \<Rightarrow> bool \<Rightarrow> ('p, 'w) async_ctx \<Rightarrow> bool" where
  "all_inv a b ss n A B da db c \<longleftrightarrow>
     async_tasks c = (if da then [] else [a]) \<and> async_stacks c = ss @ [(if db then [] else [b], n)] \<and>
     (da \<longrightarrow> A (async_world c)) \<and> (db \<longrightarrow> B (async_world c))"

lemma all_turn_a_inv:
  assumes pr: "progresses pw slp m" and ea: "established pw slp pa fa A" and eb: "established pw slp pb fb B"
    and st: "all_inv (pa, fa) (pb, fb) ss n A B da db c" "all_turn_a (world_poll pw) da c = (c1, da')"
  shows "all_inv (pa, fa) (pb, fb) ss n A B da' db c1 \<and> m (async_world c1) \<le> m (async_world c) \<and>
    (\<not> da' \<longrightarrow> m (async_world c1) < m (async_world c))"
proof -
  obtain w d where a: "pw pa fa (async_world c) = (w, d)" by fastforce
  note facts = progresses_poll [OF pr a] established_poll [OF ea a] established_poll [OF eb a]
  show ?thesis
    using st a poll_top_world [of c "[]" pa fa pw w d] facts
    by (auto simp: all_inv_def all_turn_a_def split: if_splits)
qed

lemma all_turn_b_inv:
  assumes pr: "progresses pw slp m" and ea: "established pw slp pa fa A" and eb: "established pw slp pb fb B"
    and st: "all_inv (pa, fa) (pb, fb) ss n A B da db c" "all_turn_b (world_poll pw) db c = (c1, db')"
  shows "all_inv (pa, fa) (pb, fb) ss n A B da db' c1 \<and> m (async_world c1) \<le> m (async_world c) \<and>
    (\<not> db' \<longrightarrow> m (async_world c1) < m (async_world c))"
proof -
  obtain w d where b: "pw pb fb (async_world c) = (w, d)" by fastforce
  note facts = progresses_poll [OF pr b] established_poll [OF ea b] established_poll [OF eb b]
  show ?thesis
    using st b poll_branch_world [of c ss "[]" pb fb n pw w d] facts
    by (auto simp: all_inv_def all_turn_b_def split: if_splits)
qed

lemma wait_all_loop_outcome:
  assumes pr: "progresses pw slp m" and ea: "established pw slp pa fa A" and eb: "established pw slp pb fb B"
  shows "all_inv (pa, fa) (pb, fb) ss n A B da db c \<Longrightarrow>
     \<exists>c'. wait_all_loop (world_poll pw) slp da db c = Some c' \<and> all_inv (pa, fa) (pb, fb) ss n A B True True c'"
proof (induction "m (async_world c)" arbitrary: c da db rule: less_induct)
  case less
  obtain c1 da' where a: "all_turn_a (world_poll pw) da c = (c1, da')" by fastforce
  obtain c2 db' where b: "all_turn_b (world_poll pw) db c1 = (c2, db')" by fastforce
  note a_inv = all_turn_a_inv [OF pr ea eb less.prems a]
  note b_inv = all_turn_b_inv [OF pr ea eb a_inv [THEN conjunct1] b]
  let ?c = "c2\<lparr>async_world := slp (async_world c2)\<rparr>"
  have next_inv: "all_inv (pa, fa) (pb, fb) ss n A B da' db' ?c"
    using b_inv established_sleep [OF ea] established_sleep [OF eb] by (auto simp: all_inv_def)
  have "\<not> (da' \<and> db') \<Longrightarrow> m (async_world ?c) < m (async_world c)"
    using a_inv b_inv progresses_sleep [OF pr, of "async_world c2"] by auto
  with less.hyps [of ?c da' db'] next_inv less.prems a b b_inv show ?case
    by (subst wait_all_loop.simps) auto
qed

section \<open>Properties\<close>

text \<open>Two branches whose polls leave the task stacks alone and make progress: \<open>wait_any\<close>
  returns, with the handle of a branch that has just completed. The context it leaves is the
  last entry of the saved stack, which is what is left of the second branch: the losing second
  branch becomes the current task stack, and the tasks of the caller stay on the saved stack.\<close>

theorem wait_any_outcome:
  assumes "fa \<noteq> NULL" "fb \<noteq> NULL" and pr: "progresses pw slp m"
  shows "\<exists>c' r w. ntsc_async_wait_any (world_poll pw) slp pa fa pb fb c = Some (c', r) \<and>
    (r = fa \<and> pw pa fa w = (async_world c', 1) \<and> async_tasks c' = [(pb, fb)] \<or>
     r = fb \<and> pw pb fb w = (async_world c', 1) \<and> async_tasks c' = []) \<and>
    async_stacks c' = async_stacks c @ [(async_tasks c, current_result c)]"
proof -
  define c0 where "c0 = push_branch pb fb ((fst (save_async_context c))\<lparr>async_tasks := [(pa, fa)]\<rparr>)"
  let ?ss = "async_stacks c @ [(async_tasks c, current_result c)]"
  have c0: "async_tasks c0 = [(pa, fa)]" "async_stacks c0 = ?ss @ [([(pb, fb)], NULL)]"
    by (simp_all add: c0_def push_branch_def save_async_context_def Let_def)
  obtain c' r w where run: "wait_any_loop (world_poll pw) slp fa fb c0 = Some (c', r)"
    and w: "r = fa \<and> pw pa fa w = (async_world c', 1) \<and> async_stacks c' = ?ss @ [([(pb, fb)], NULL)] \<or>
        r = fb \<and> pw pb fb w = (async_world c', 1) \<and> async_stacks c' = ?ss @ [([], NULL)]"
    using wait_any_loop_outcome [OF pr c0] c0(2) by metis
  have "ntsc_async_wait_any (world_poll pw) slp pa fa pb fb c = Some (fst (restore_async_context NULL c'), r)"
    using assms run by (simp add: ntsc_async_wait_any_def c0_def save_async_context_def Let_def)
  with w restore_last [of c' ?ss "[(pb, fb)]" NULL NULL] restore_last [of c' ?ss "[]" NULL NULL]
  show ?thesis by auto
qed

lemma wait_all_effect:
  assumes "fa \<noteq> NULL" "fb \<noteq> NULL" and pr: "progresses pw slp m"
    and ea: "established pw slp pa fa A" and eb: "established pw slp pb fb B"
  shows "\<exists>c'. ntsc_async_wait_all (world_poll pw) slp pa fa pb fb c = Some (c', fb) \<and>
    A (async_world c') \<and> B (async_world c') \<and> async_tasks c' = [] \<and>
    async_stacks c' = async_stacks c @ [(async_tasks c, current_result c)]"
proof -
  define c0 where "c0 = push_branch pb fb ((fst (save_async_context c))\<lparr>async_tasks := [(pa, fa)]\<rparr>)"
  let ?ss = "async_stacks c @ [(async_tasks c, current_result c)]"
  have "all_inv (pa, fa) (pb, fb) ?ss NULL A B False False c0"
    by (simp add: all_inv_def c0_def push_branch_def save_async_context_def Let_def)
  then obtain c' where run: "wait_all_loop (world_poll pw) slp False False c0 = Some c'"
    and inv: "all_inv (pa, fa) (pb, fb) ?ss NULL A B True True c'"
    using wait_all_loop_outcome [OF pr ea eb] by blast
  have "ntsc_async_wait_all (world_poll pw) slp pa fa pb fb c = Some (fst (restore_async_context NULL c'), fb)"
    using assms run by (simp add: ntsc_async_wait_all_def c0_def save_async_context_def Let_def)
  with inv restore_last [of c' ?ss "[]" NULL NULL] show ?thesis by (auto simp: all_inv_def)
qed

text \<open>C16: Two branches whose polls leave the task stacks alone and make progress: \<open>wait_all\<close>
  returns the second handle, and whatever the completion of either branch establishes holds by
  then. But the entry it restores is the emptied stack of the second branch: it returns with an
  empty task stack, whatever the caller's stack was, and the caller's tasks stay on the saved
  stack.\<close>

theorem wait_all_outcome:
  assumes "fa \<noteq> NULL" "fb \<noteq> NULL" and pr: "progresses pw slp m"
    and ea: "established pw slp pa fa A" and eb: "established pw slp pb fb B"
  shows "\<exists>c'. ntsc_async_wait_all (world_poll pw) slp pa fa pb fb c = Some (c', fb) \<and>
    A (async_world c') \<and> B (async_world c') \<and> async_tasks c' = [] \<and>
    async_stacks c' = async_stacks c @ [(async_tasks c, current_result c)]"
  using assms by (rule wait_all_effect)



text \<open>A branch that suspends: its first poll pushes a child and is pending; the child completes at
  its first poll.\<close>

lemma child_pushed:
  assumes "async_tasks c = [(pa, fa)]" "fc \<noteq> NULL" "poll pa fa c = (ntsc_async_push pc fc c, 0)"
  shows "poll_top poll c = Some (c\<lparr>async_tasks := [(pa, fa), (pc, fc)]\<rparr>, False, True)"
  using assms by (simp add: poll_top_eq [of _ "[]"] ntsc_async_push_def)

lemma child_popped:
  assumes "async_tasks c = [(pa, fa), (pc, fc)]" "poll pc fc c = (c, 1)"
  shows "poll_top poll c = Some (c\<lparr>async_tasks := [(pa, fa)]\<rparr>, True, False)"
  using assms by (simp add: poll_top_eq [of _ "[(pa, fa)]"] pop_task_def)

lemma wait_any_child:
  assumes "fc \<noteq> NULL" and a: "\<And>c. poll pa fa c = (ntsc_async_push pc fc c, 0)"
    and child: "\<And>c. poll pc fc c = (c, 1)" and b: "\<And>c. poll pb fb c = (c, 0)"
    and c: "async_tasks c = [(pa, fa)]" "async_stacks c = ss @ [([(pb, fb)], n)]"
  shows "wait_any_loop poll slp fa fb c = Some (c, fa)"
proof -
  let ?c1 = "c\<lparr>async_tasks := [(pa, fa), (pc, fc)]\<rparr>"
  have b1: "poll_branch poll ?c1 = Some (?c1, False, False)"
    using c b by (simp add: poll_branch_eq [of _ ss "[]" pb fb n] last_branch_def)
  have "wait_any_loop poll slp fa fb c = wait_any_loop poll slp fa fb ?c1"
    using child_pushed [of c pa fa fc poll pc] assms(1) a c b1 by (subst wait_any_loop.simps) simp
  also have "\<dots> = Some (c, fa)"
    using child_popped [of ?c1 pa fa pc fc poll] child c by (subst wait_any_loop.simps) simp
  finally show ?thesis .
qed

lemma wait_all_child:
  assumes "fc \<noteq> NULL" and a: "\<And>c. poll pa fa c = (ntsc_async_push pc fc c, 0)"
    and child: "\<And>c. poll pc fc c = (c, 1)" and b: "\<And>c. poll pb fb c = (c, 1)"
    and c: "async_tasks c = [(pa, fa)]" "async_stacks c = ss @ [([(pb, fb)], n)]"
  shows "wait_all_loop poll slp False False c =
    Some (c\<lparr>async_stacks := ss @ [([], n)], async_world := slp (async_world c)\<rparr>)"
proof -
  let ?c1 = "c\<lparr>async_tasks := [(pa, fa), (pc, fc)]\<rparr>"
  let ?c2 = "c\<lparr>async_tasks := [(pa, fa), (pc, fc)], async_stacks := ss @ [([], n)], async_world := slp (async_world c)\<rparr>"
  have b1: "poll_branch poll ?c1 = Some (?c1\<lparr>async_stacks := ss @ [([], n)]\<rparr>, True, False)"
    using c b by (simp add: poll_branch_eq [of _ ss "[]" pb fb n] last_branch_def pop_branch_def)
  have "wait_all_loop poll slp False False c = wait_all_loop poll slp False True ?c2"
    using child_pushed [of c pa fa fc poll pc] assms(1) a c b1
    by (subst wait_all_loop.simps) (simp add: all_turn_a_def all_turn_b_def)
  also have "\<dots> = Some (c\<lparr>async_stacks := ss @ [([], n)], async_world := slp (async_world c)\<rparr>)"
    using child_popped [of ?c2 pa fa pc fc poll] child c
    by (subst wait_all_loop.simps) (simp add: all_turn_a_def all_turn_b_def)
  finally show ?thesis .
qed

text \<open>A branch that suspends. The first branch pushes a child and is pending; the child then
  completes. \<open>wait_any\<close> takes the completion of the child for that of the branch: it returns the
  handle of the first branch, although the only poll of that branch was pending.\<close>

theorem wait_any_unfinished:
  assumes "fa \<noteq> NULL" "fb \<noteq> NULL" "fc \<noteq> NULL"
    and "\<And>c. poll pa fa c = (ntsc_async_push pc fc c, 0)"
    and "\<And>c. poll pc fc c = (c, 1)" and "\<And>c. poll pb fb c = (c, 0)"
  shows "ntsc_async_wait_any poll slp pa fa pb fb c =
    Some (c\<lparr>async_tasks := [(pb, fb)], async_stacks := async_stacks c @ [(async_tasks c, current_result c)]\<rparr>, fa)"
proof -
  let ?ss = "async_stacks c @ [(async_tasks c, current_result c)]"
  let ?c0 = "c\<lparr>async_tasks := [(pa, fa)], async_stacks := ?ss @ [([(pb, fb)], NULL)]\<rparr>"
  have "wait_any_loop poll slp fa fb ?c0 = Some (?c0, fa)"
    by (rule wait_any_child) (use assms in simp_all)
  then show ?thesis using assms(1,2) restore_last [of ?c0 ?ss "[(pb, fb)]" NULL NULL]
    by (simp add: ntsc_async_wait_any_def save_async_context_def push_branch_def Let_def)
qed


section \<open>Witnesses\<close>

text \<open>A world that counts down: a poll is pending until the count has reached one.\<close>

definition countdown :: "nat \<Rightarrow> i64 \<Rightarrow> nat \<Rightarrow> nat \<times> int" where
  "countdown p f w = (w - 1, if w \<le> 1 then 1 else 0)"

definition calling_ctx :: "(nat, nat) async_ctx" where
  "calling_ctx = \<lparr>async_tasks = [(7, 70), (8, 80)], async_stacks = [], async_world = 4\<rparr>"

lemma countdown_progresses: "progresses countdown id id"
  by (auto simp: progresses_def countdown_def)

lemma countdown_established: "established countdown id p f (\<lambda>w. w = 0)"
  by (auto simp: established_def countdown_def split: if_splits)

theorem wait_any_outcome_witness:
  "\<exists>c' r. ntsc_async_wait_any (world_poll countdown) id 1 10 2 20 calling_ctx = Some (c', r) \<and>
     async_stacks c' = [([(7, 70), (8, 80)], 0)]"
  using wait_any_outcome [of 10 20 countdown id id 1 2 calling_ctx] countdown_progresses
  by (auto simp: NULL_def calling_ctx_def current_result_def)

theorem wait_all_outcome_witness:
  "\<exists>c'. ntsc_async_wait_all (world_poll countdown) id 1 10 2 20 calling_ctx = Some (c', 20) \<and>
     async_world c' = 0 \<and> async_tasks c' = [] \<and> async_stacks c' = [([(7, 70), (8, 80)], 0)]"
  using wait_all_outcome [of 10 20 countdown id id 1 "\<lambda>w. w = 0" 2 "\<lambda>w. w = 0" calling_ctx]
    countdown_progresses countdown_established
  by (auto simp: NULL_def calling_ctx_def current_result_def)

definition waiting_poll :: "(nat, nat) poll" where
  "waiting_poll p f c =
     (case ntsc_async_wait_all (world_poll countdown) id 1 10 2 20 c of None \<Rightarrow> (c, 0) | Some (c1, _) \<Rightarrow> (c1, 1))"


definition suspending_poll :: "(nat, nat) poll" where
  "suspending_poll p f c = (if p = 1 then (ntsc_async_push 3 30 c, 0) else if p = 3 then (c, 1) else (c, 0))"

theorem wait_any_unfinished_witness:
  "\<exists>c'. ntsc_async_wait_any suspending_poll id 1 10 2 20 calling_ctx = Some (c', 10) \<and>
     async_tasks c' = [(2, 20)]"
  using wait_any_unfinished [of 10 20 30 suspending_poll 1 3 2 id calling_ctx]
  by (auto simp: NULL_def suspending_poll_def)

end
