(* ===== verification/Runtime_Core.thy ===== *)
theory Runtime_Core
  imports Registry_System
begin

text \<open>
  The entry points of the runtime that generated code calls (\<open>ntsc-runtime/src/lib.rs\<close>): the
  pending-exception slot of the thread, string literals shipped as words, and the array accesses
  that throw. The state is the handle registry with the slot; the null handle is the value that a
  throwing entry point returns. An entry point that prints and aborts returns \<open>Aborted\<close> with the
  line it writes to the standard error stream.

  \<open>build_string_words\<close> is the sequence of calls that the code generator emits for a string
  constant (\<open>ntsc-codegen/src/emit/literal.rs\<close>); the byte order of the compiling and of the
  executing machine are parameters.
\<close>

section \<open>UTF-8\<close>

text \<open>The next sequence of a byte string: whether it is well formed, and its length. An ill-formed
  one is the longest prefix of a well-formed sequence, or a single byte.\<close>

definition cont_at :: "nat \<Rightarrow> string \<Rightarrow> bool" where
  "cont_at k t \<longleftrightarrow> k < length t \<and> is_cont (t ! k)"

definition second_at :: "nat \<Rightarrow> string \<Rightarrow> bool" where
  "second_at lead t \<longleftrightarrow>
     (let lo = (if lead = 0xE0 then 0xA0 else if lead = 0xF0 then 0x90 else 0x80);
          hi = (if lead = 0xED then 0x9F else if lead = 0xF4 then 0x8F else 0xBF)
      in t \<noteq> [] \<and> lo \<le> (of_char (hd t) :: nat) \<and> (of_char (hd t) :: nat) \<le> hi)"

fun utf8_chunk :: "string \<Rightarrow> bool \<times> nat" where
  "utf8_chunk [] = (True, 0)"
| "utf8_chunk (b # t) =
     (let lead = (of_char b :: nat)
      in if lead < 0x80 then (True, 1)
         else if 0xC2 \<le> lead \<and> lead \<le> 0xDF then (if cont_at 0 t then (True, 2) else (False, 1))
         else if 0xE0 \<le> lead \<and> lead \<le> 0xEF then
           (if \<not> second_at lead t then (False, 1) else if \<not> cont_at 1 t then (False, 2) else (True, 3))
         else if 0xF0 \<le> lead \<and> lead \<le> 0xF4 then
           (if \<not> second_at lead t then (False, 1) else if \<not> cont_at 1 t then (False, 2)
            else if \<not> cont_at 2 t then (False, 3) else (True, 4))
         else (False, 1))"

lemma utf8_chunk_pos: "s \<noteq> [] \<Longrightarrow> 0 < snd (utf8_chunk s)"
  by (cases s) (simp_all add: Let_def)

lemma utf8_chunk_shorter: "s \<noteq> [] \<Longrightarrow> length (drop (snd (utf8_chunk s)) s) < length s"
  using utf8_chunk_pos [of s] by (simp add: diff_less)

definition replacement_character :: string where
  "replacement_character = [CHR 0xEF, CHR 0xBF, CHR 0xBD]"

function from_utf8_lossy :: "string \<Rightarrow> string" where
  "from_utf8_lossy s =
     (if s = [] then []
      else (let (ok, n) = utf8_chunk s
            in (if ok then take n s else replacement_character) @ from_utf8_lossy (drop n s)))"
  by pat_completeness auto
termination
proof (relation "measure length")
  fix s :: string and x ok n
  assume "s \<noteq> []" "x = utf8_chunk s" "(ok, n) = x"
  then show "(drop n s, s) \<in> measure length" using utf8_chunk_shorter [of s] by (metis in_measure snd_conv)
qed simp

function utf8_valid :: "string \<Rightarrow> bool" where
  "utf8_valid s = (if s = [] then True else fst (utf8_chunk s) \<and> utf8_valid (drop (snd (utf8_chunk s)) s))"
  by pat_completeness auto
termination
  by (relation "measure length") (auto dest: utf8_chunk_shorter)

declare from_utf8_lossy.simps [simp del] utf8_valid.simps [simp del]

section \<open>The runtime state and the exception slot\<close>

record 'o runtime =
  rt_registry :: "'o registry"
  pending_exception :: "i64 option"

definition on_registry :: "('o registry \<Rightarrow> 'o registry \<times> 'a) \<Rightarrow> 'o runtime \<Rightarrow> 'o runtime \<times> 'a" where
  "on_registry f rt = (let (r, x) = f (rt_registry rt) in (rt\<lparr>rt_registry := r\<rparr>, x))"

definition ntsc_throw :: "i64 \<Rightarrow> 'o runtime \<Rightarrow> 'o runtime \<times> i64" where
  "ntsc_throw msg rt =
     (let (rt1, message) = (if msg = NULL then on_registry (put_string []) rt else (rt, msg))
      in (rt1\<lparr>pending_exception := Some message\<rparr>, NULL))"

definition ntsc_rethrow :: "i64 \<Rightarrow> 'o runtime \<Rightarrow> 'o runtime \<times> i64" where
  "ntsc_rethrow msg rt = ntsc_throw msg rt"

definition ntsc_exception_pending :: "'o runtime \<Rightarrow> int" where
  "ntsc_exception_pending rt = (if pending_exception rt \<noteq> None then 1 else 0)"

definition ntsc_exception_get_message :: "'o runtime \<Rightarrow> i64" where
  "ntsc_exception_get_message rt = (case pending_exception rt of Some m \<Rightarrow> m | None \<Rightarrow> NULL)"

definition ntsc_exception_take_message :: "'o runtime \<Rightarrow> 'o runtime \<times> i64" where
  "ntsc_exception_take_message rt =
     (rt\<lparr>pending_exception := None\<rparr>, case pending_exception rt of Some m \<Rightarrow> m | None \<Rightarrow> NULL)"

definition ntsc_exception_clear :: "'o runtime \<Rightarrow> 'o runtime" where
  "ntsc_exception_clear rt =
     (let (rt1, message) = ntsc_exception_take_message rt
      in fst (on_registry (take_string message) rt1))"

definition rearm_pending_exception :: "i64 \<Rightarrow> 'o runtime \<Rightarrow> 'o runtime" where
  "rearm_pending_exception msg rt = (if msg \<noteq> NULL then fst (ntsc_throw msg rt) else rt)"

datatype ('o, 'a) abortable = Continues "'o runtime" 'a | Aborted string

text \<open>\<open>ntsc_uncaught_exception\<close> never returns: its value is what it prints before it aborts.\<close>

definition ntsc_uncaught_exception :: "'o runtime \<Rightarrow> string" where
  "ntsc_uncaught_exception rt =
     (let (rt1, message) = ntsc_exception_take_message rt;
          text0 = (case get_string message (rt_registry rt1) of Some t \<Rightarrow> t | None \<Rightarrow> ''exception'');
          text1 = (if text0 = [] then ''uncaught exception'' else text0)
      in ''uncaught exception: '' @ text1 @ [CHR 0x0A])"

definition ntsc_panic :: "i64 \<Rightarrow> 'o runtime \<Rightarrow> ('o, unit) abortable" where
  "ntsc_panic msg rt =
     Aborted (''NTSC PANIC: '' @ (case get_string msg (rt_registry rt) of Some t \<Rightarrow> t | None \<Rightarrow> ''panic'') @ [CHR 0x0A])"

definition ntsc_assert :: "int \<Rightarrow> i64 \<Rightarrow> 'o runtime \<Rightarrow> ('o, unit) abortable" where
  "ntsc_assert condition msg rt =
     (if condition = 0 then ntsc_panic msg rt
      else Continues (fst (on_registry (take_string msg) rt)) ())"

text \<open>\<open>throw_string\<close> of the crate root and \<open>throw_str\<close> of the library modules are the same function.\<close>

definition throw_string :: "string \<Rightarrow> 'o runtime \<Rightarrow> 'o runtime \<times> i64" where
  "throw_string message rt = (let (rt1, h) = on_registry (put_string message) rt in ntsc_throw h rt1)"

definition throw_str :: "string \<Rightarrow> 'o runtime \<Rightarrow> 'o runtime \<times> i64" where
  "throw_str msg rt = (let (rt1, h) = on_registry (put_string msg) rt in ntsc_throw h rt1)"

section \<open>Array accesses\<close>

definition ntsc_array_get :: "i64 \<Rightarrow> i64 \<Rightarrow> 'o runtime \<Rightarrow> 'o runtime \<times> i64" where
  "ntsc_array_get hid index rt =
     (case array_get hid index (rt_registry rt) of
        Some val \<Rightarrow> (rt, val)
      | None \<Rightarrow> throw_string ''array index out of bounds'' rt)"

definition ntsc_array_push :: "i64 \<Rightarrow> i64 \<Rightarrow> 'o runtime \<Rightarrow> 'o runtime \<times> i64" where
  "ntsc_array_push hid elem rt =
     (let (rt1, ok) = on_registry (array_push hid elem) rt in (rt1, if ok then hid else NULL))"

definition ntsc_array_set :: "i64 \<Rightarrow> i64 \<Rightarrow> i64 \<Rightarrow> 'o runtime \<Rightarrow> 'o runtime \<times> i64" where
  "ntsc_array_set hid index elem rt =
     (if \<not> is_array hid (rt_registry rt) then (rt, NULL)
      else if index < 0 \<or> array_len hid (rt_registry rt) \<le> index
      then throw_string ''array index out of bounds'' rt
      else (let (rt1, ok) = on_registry (array_set hid index elem) rt in (rt1, if ok then hid else NULL)))"

definition ntsc_array_pop :: "i64 \<Rightarrow> 'o runtime \<Rightarrow> 'o runtime \<times> i64" where
  "ntsc_array_pop hid rt =
     (let (rt1, x) = on_registry (array_pop hid) rt in (rt1, case x of Some v \<Rightarrow> v | None \<Rightarrow> NULL))"

section \<open>Strings shipped as words\<close>

definition MAX_BUILTIN_OUTPUT :: usize where
  "MAX_BUILTIN_OUTPUT = 2 ^ 24"

definition to_ne_bytes :: "bool \<Rightarrow> i64 \<Rightarrow> u8 list" where
  "to_ne_bytes big z = (if big then rev (to_le_bytes z) else to_le_bytes z)"

definition from_ne_bytes :: "bool \<Rightarrow> u8 list \<Rightarrow> i64" where
  "from_ne_bytes big bs = from_le_bytes (if big then rev bs else bs)"

definition byte_char :: "u8 \<Rightarrow> char" where
  "byte_char b = char_of (unat b)"

definition string_from_words_impl :: "bool \<Rightarrow> i64 \<Rightarrow> i64 \<Rightarrow> bool \<Rightarrow> 'o registry \<Rightarrow> 'o registry \<times> i64" where
  "string_from_words_impl big words byte_count perm r =
     (let (r1, bytes) =
            (if words \<noteq> NULL then
               (let n = min (nat (max byte_count 0)) MAX_BUILTIN_OUTPUT;
                    word_count = n div 8 + (if 0 < n then 1 else 0);
                    bs = concat (map (\<lambda>i. to_ne_bytes big (case array_get words (int i) r of Some w \<Rightarrow> w | None \<Rightarrow> 0)) [0..<word_count])
                in (array_drop words r, take n bs))
             else (r, []));
          s = from_utf8_lossy (map byte_char bytes)
      in if perm then put_string_permanent s r1 else put_string s r1)"

text \<open>The emitted side: the words of a text, and the calls that rebuild it.\<close>

function chunks8 :: "'a list \<Rightarrow> 'a list list" where
  "chunks8 xs = (if xs = [] then [] else take 8 xs # chunks8 (drop 8 xs))"
  by pat_completeness auto
termination
  by (relation "measure length") auto

declare chunks8.simps [simp del]

definition literal_words :: "bool \<Rightarrow> string \<Rightarrow> i64 list" where
  "literal_words big s =
     map (\<lambda>chunk. from_ne_bytes big (map of_char chunk @ replicate (8 - length chunk) 0)) (chunks8 s)"

primrec push_words :: "i64 \<Rightarrow> i64 list \<Rightarrow> 'o registry \<Rightarrow> 'o registry" where
  "push_words arr [] r = r"
| "push_words arr (w # ws) r = push_words arr ws (fst (array_push arr w r))"

definition build_string_words :: "bool \<Rightarrow> bool \<Rightarrow> string \<Rightarrow> 'o registry \<Rightarrow> 'o registry \<times> i64" where
  "build_string_words host target s r =
     (let words = literal_words host s;
          (r1, arr) = (if words = [] then (r, NULL)
                       else (let (r2, a) = array_new 8 (int (length words)) 0 r in (push_words a words r2, a)))
      in string_from_words_impl target arr (int (length s)) True r1)"

section \<open>UTF-8: lossy conversion\<close>

lemma cont_atD: "cont_at k t \<Longrightarrow> k < length t"
  by (simp add: cont_at_def)

lemma second_atD: "second_at b t \<Longrightarrow> 0 < length t"
  by (simp add: second_at_def Let_def)

lemma utf8_chunk_le: "snd (utf8_chunk s) \<le> length s"
proof (cases s)
  case (Cons b t)
  have "cont_at 0 t \<Longrightarrow> Suc 0 \<le> length t" "cont_at (Suc 0) t \<Longrightarrow> 2 \<le> length t" "cont_at 2 t \<Longrightarrow> 3 \<le> length t"
    "second_at (of_char b) t \<Longrightarrow> Suc 0 \<le> length t"
    using cont_atD [of 0 t] cont_atD [of "Suc 0" t] cont_atD [of 2 t] second_atD [of "of_char b" t]
    by (auto simp: Suc_le_eq)
  then show ?thesis unfolding Cons utf8_chunk.simps Let_def
    by (auto split: if_split)
qed simp

lemma cont_at_append: "cont_at k t \<Longrightarrow> cont_at k (take n t @ u)" if "k < n"
  using that by (auto simp: cont_at_def nth_append)

lemma second_at_append: "second_at b t \<Longrightarrow> second_at b (take n t @ u)" if "0 < n"
  using that by (cases t; cases n) (auto simp: second_at_def Let_def)

text \<open>A well-formed sequence does not depend on what follows it.\<close>

lemma utf8_chunk_append:
  assumes ne: "s \<noteq> []" and ok: "utf8_chunk s = (True, n)"
  shows "utf8_chunk (take n s @ u) = (True, n)"
proof -
  obtain b t where s: "s = b # t" using ne by (cases s) auto
  have "0 < n" using utf8_chunk_pos [OF ne] ok by simp
  then obtain k where n: "n = Suc k" by (cases n) auto
  have "cont_at j t \<Longrightarrow> j < k \<Longrightarrow> cont_at j (take k t @ u)"
    "second_at l t \<Longrightarrow> 0 < k \<Longrightarrow> second_at l (take k t @ u)" for j l
    by (simp_all add: cont_at_append second_at_append)
  with ok show ?thesis by (auto simp: s n Let_def split: if_splits)
qed

lemma lossy_valid: "utf8_valid s \<Longrightarrow> from_utf8_lossy s = s"
proof (induction s rule: utf8_valid.induct)
  case (1 s)
  then show ?case
    by (subst from_utf8_lossy.simps) (auto simp: split_beta utf8_valid.simps [of s])
qed

lemma utf8_valid_replacement: "utf8_valid u \<Longrightarrow> utf8_valid (replacement_character @ u)"
  by (subst utf8_valid.simps) (simp add: replacement_character_def cont_at_def second_at_def is_cont_def Let_def)

lemma utf8_valid_lossy: "utf8_valid (from_utf8_lossy s)"
proof (induction s rule: from_utf8_lossy.induct)
  case (1 s)
  show ?case
  proof (cases "s = []")
    case True
    then show ?thesis by (simp add: from_utf8_lossy.simps utf8_valid.simps)
  next
    case False
    obtain ok n where c: "utf8_chunk s = (ok, n)" by fastforce
    have rest: "utf8_valid (from_utf8_lossy (drop n s))"
      using 1 [OF False c [symmetric] refl] .
    have n: "0 < n" "n \<le> length s" using utf8_chunk_pos [OF False] utf8_chunk_le [of s] c by auto
    show ?thesis
    proof (cases ok)
      case True
      with c utf8_chunk_append [OF False, of n] have "utf8_chunk (take n s @ u) = (True, n)" for u by simp
      with rest n show ?thesis
        by (subst from_utf8_lossy.simps, subst utf8_valid.simps) (auto simp: c True False)
    next
      case ok: False
      with rest show ?thesis
        by (subst from_utf8_lossy.simps) (simp add: c False utf8_valid_replacement)
    qed
  qed
qed

section \<open>Words of a text\<close>

lemma le_bytes_mod: "le_bytes n (z mod 256 ^ n) = le_bytes n z"
proof (induction n arbitrary: z)
  case 0
  then show ?case by simp
next
  case (Suc n)
  have "z mod (256 * 256 ^ n) = 256 * (z div 256 mod 256 ^ n) + z mod 256"
    by (rule zmod_zmult2_eq) simp
  then have "z mod 256 ^ Suc n div 256 = z div 256 mod 256 ^ n" "z mod 256 ^ Suc n mod 256 = z mod 256"
    by simp_all
  moreover have "(word_of_int (z mod 256 ^ Suc n) :: u8) = word_of_int z"
    by (rule word_of_int_eq_iff [THEN iffD2]) (simp add: take_bit_eq_mod mod_mod_cancel)
  ultimately show ?case using Suc [of "z div 256"] by simp
qed

lemma le_bytes_le_value: "le_bytes (length bs) (le_value bs) = bs"
proof (induction bs)
  case Nil
  then show ?case by simp
next
  case (Cons b bs)
  have "0 \<le> uint b" "uint b < 256" using uint_lt2p [of b] by simp_all
  then have "(uint b + 256 * le_value bs) div 256 = le_value bs" by simp
  moreover have "(word_of_int (uint b + 256 * le_value bs) :: u8) = b"
  proof -
    have "(256 :: u8) = 0" by simp
    then have "256 * word_of_int (le_value bs) = (0 :: u8)" by (metis mult_zero_left)
    then show ?thesis by simp
  qed
  ultimately show ?case using Cons by simp
qed


lemma to_from_ne_bytes: "length bs = 8 \<Longrightarrow> to_ne_bytes big (from_ne_bytes big bs) = bs"
proof -
  have *: "to_le_bytes (from_le_bytes cs) = cs" if "length cs = 8" for cs
  proof -
    have "le_bytes 8 (wrap_i64 (le_value cs)) = le_bytes 8 (wrap_i64 (le_value cs) mod 256 ^ 8)"
      by (rule le_bytes_mod [symmetric])
    also have "wrap_i64 (le_value cs) mod 256 ^ 8 = le_value cs mod 256 ^ 8"
      using wrap_i64_mod [of "le_value cs"] by simp
    also have "le_bytes 8 (le_value cs mod 256 ^ 8) = cs"
      using le_bytes_le_value [of cs] that by (simp only: le_bytes_mod)
    finally show ?thesis by (simp add: to_le_bytes_def from_le_bytes_def)
  qed
  assume "length bs = 8"
  then show ?thesis using * [of bs] * [of "rev bs"] by (simp add: to_ne_bytes_def from_ne_bytes_def)
qed

lemma byte_char_of_char [simp]: "byte_char (of_char c) = c"
proof -
  have "unat (of_char c :: u8) = (of_char c :: nat) mod 256"
    using unat_of_nat [where 'a = 8, of "of_char c"] by (simp add: of_nat_of_char)
  then show ?thesis by (simp add: byte_char_def)
qed

lemma length_to_ne_bytes [simp]: "length (to_ne_bytes big z) = 8"
  by (simp add: to_ne_bytes_def to_le_bytes_def)

lemma length_chunks8: "length (chunks8 s) = (length s + 7) div 8"
proof (induction s rule: chunks8.induct)
  case (1 s)
  then show ?case by (subst chunks8.simps) (cases "8 \<le> length s"; cases s; auto simp: le_div_geq)
qed

text \<open>The words read back are the bytes of the text, padded with zeros to a whole word.\<close>

lemma literal_words_bytes:
  "concat (map (to_ne_bytes big) (literal_words big s)) =
     map of_char s @ replicate (8 * ((length s + 7) div 8) - length s) 0"
proof (induction s rule: chunks8.induct)
  case (1 s)
  show ?case
  proof (cases "s = []")
    case True
    then show ?thesis by (simp add: literal_words_def chunks8.simps)
  next
    case False
    have "map of_char (take 8 s) @ replicate (8 - length (take 8 s)) 0 @
        concat (map (to_ne_bytes big) (literal_words big (drop 8 s))) =
        map of_char s @ replicate (8 * ((length s + 7) div 8) - length s) 0"
    proof (cases "8 \<le> length s")
      case True
      then have "8 * ((length (drop 8 s) + 7) div 8) - length (drop 8 s) = 8 * ((length s + 7) div 8) - length s"
        by (simp add: le_div_geq)
      with True 1 [OF False] show ?thesis
        by (simp flip: map_append append_assoc)
    next
      case short: False
      then have "(length s + 7) div 8 = 1" using False by (cases s) auto
      with short show ?thesis by (simp add: literal_words_def chunks8.simps)
    qed
    then show ?thesis
      using False by (simp add: literal_words_def chunks8.simps [of s] to_from_ne_bytes)
  qed
qed


section \<open>String constants\<close>

lemma array_push_scalar:
  "array_at r a = Some d \<Longrightarrow> \<not> string_elements d \<Longrightarrow>
     array_push a w r = (reg_put a (HArray (d\<lparr>elements := elements d @ [w]\<rparr>)) r, True)"
  by (simp add: array_push_def stored_element_def)

lemma push_words_effect:
  "array_at r a = Some d \<Longrightarrow> \<not> string_elements d \<Longrightarrow>
     array_at (push_words a ws r) a = Some (d\<lparr>elements := elements d @ ws\<rparr>) \<and>
     (\<forall>i. i \<noteq> a \<longrightarrow> reg_get (push_words a ws r) i = reg_get r i) \<and>
     live (push_words a ws r) = live r \<and> next_id_ctr (push_words a ws r) = next_id_ctr r"
  by (induction ws arbitrary: r d) (simp_all add: array_push_scalar)

lemma push_words_inv: "reg_inv r \<Longrightarrow> reg_inv (push_words a ws r)"
  by (induction ws arbitrary: r) (simp_all add: array_push_inv)

lemma array_get_nth:
  "a \<noteq> NULL \<Longrightarrow> array_at r a = Some d \<Longrightarrow>
     (case array_get a (int i) r of Some w \<Rightarrow> w | None \<Rightarrow> 0) = (if i < length (elements d) then elements d ! i else 0)"
  by (simp add: array_get_def with_array_def array_data_get_def)

lemma concat_take_words:
  "concat (map (to_ne_bytes big) (take k ws)) = take (8 * k) (concat (map (to_ne_bytes big) ws))"
proof (induction ws arbitrary: k)
  case (Cons w ws)
  then show ?case by (cases k) simp_all
qed simp

lemma concat_words_read:
  assumes "a \<noteq> NULL" "array_at r a = Some d" "n \<le> 8 * k" "n \<le> 8 * length (elements d)"
  shows "take n (concat (map (\<lambda>i. to_ne_bytes big (case array_get a (int i) r of Some w \<Rightarrow> w | None \<Rightarrow> 0)) [0..<k])) =
    take n (concat (map (to_ne_bytes big) (elements d)))"
proof -
  define ws m where "ws = elements d" and "m = min k (length ws)"
  let ?f = "\<lambda>i. to_ne_bytes big (if i < length ws then ws ! i else 0)"
  have split: "[0..<k] = [0..<m] @ [m..<k]"
    using upt_add_eq_append [of 0 m "k - m"] by (simp add: m_def)
  have len: "n \<le> 8 * m" using assms(3,4) by (simp add: m_def ws_def min_def)
  have "map ?f [0..<m] = map (to_ne_bytes big) (take m ws)"
    by (rule nth_equalityI) (simp_all add: m_def)
  then have front: "concat (map ?f [0..<m]) = take (8 * m) (concat (map (to_ne_bytes big) ws))"
    by (simp only: concat_take_words)
  have "length (concat (map ?f [0..<m])) = 8 * m"
    by (simp add: length_concat comp_def sum_list_triv)
  then have "take n (concat (map ?f [0..<k])) = take n (concat (map ?f [0..<m]))"
    using len by (simp add: split)
  also have "\<dots> = take n (concat (map (to_ne_bytes big) ws))"
    using len by (simp add: front min_absorb1)
  finally show ?thesis
    by (simp only: array_get_nth [OF assms(1,2)] ws_def)
qed

lemma array_drop_scalar:
  assumes "a \<noteq> NULL" "array_at r a = Some d" "\<not> string_elements d"
  shows "array_drop a r = (reg_del a r)\<lparr>live := live r - 1, registry_gen := registry_gen r + 1\<rparr>"
  using assms array_at_iff [of r a d] by (simp add: array_drop_def remove_handle_def Let_def)

lemma put_string_permanent_eq:
  "put_string_permanent s r =
     ((reg_put (next_id_ctr r) (HString s) (r\<lparr>next_id_ctr := next_id_ctr r + 1\<rparr>))
        \<lparr>permanent := permanent r + 1, permanent_ids := insert (next_id_ctr r) (permanent_ids r)\<rparr>, next_id_ctr r)"
  by (simp add: put_string_permanent_def insert_permanent_def next_id_def Let_def)

text \<open>The bytes that the runtime reassembles from a word array of the given text.\<close>

lemma string_from_words_read:
  assumes "a \<noteq> NULL" "array_at r a = Some d" "elements d = literal_words big s" "s \<noteq> []"
  shows "string_from_words_impl big a (int (length s)) perm r =
    (if perm then put_string_permanent else put_string) (from_utf8_lossy (take MAX_BUILTIN_OUTPUT s)) (array_drop a r)"
proof -
  define n where "n = min (length s) MAX_BUILTIN_OUTPUT"
  let ?k = "n div 8 + (if 0 < n then 1 else 0)"
  let ?bytes = "concat (map (\<lambda>i. to_ne_bytes big (case array_get a (int i) r of Some w \<Rightarrow> w | None \<Rightarrow> 0)) [0..<?k])"
  have "n \<le> 8 * ?k" by (cases "0 < n") presburger+
  moreover have "n \<le> 8 * length (elements d)"
    by (simp add: assms(3) literal_words_def length_chunks8 n_def)
  ultimately have "take n ?bytes = take n (concat (map (to_ne_bytes big) (elements d)))"
    by (rule concat_words_read [OF assms(1,2)])
  also have "\<dots> = take n (map of_char s)"
    by (simp add: assms(3) literal_words_bytes n_def)
  finally have "map byte_char (take n ?bytes) = take n s"
    by (simp add: take_map comp_def)
  moreover have "take n s = take MAX_BUILTIN_OUTPUT s" by (simp add: n_def min_def)
  moreover have "min (nat (max (int (length s)) 0)) MAX_BUILTIN_OUTPUT = n" by (simp add: n_def)
  ultimately show ?thesis
    unfolding string_from_words_impl_def Let_def using assms(1) by simp
qed


lemma literal_words_Nil: "literal_words big s = [] \<longleftrightarrow> s = []"
  by (simp add: literal_words_def chunks8.simps [of s])

lemma build_string_words_effect:
  assumes inv: "reg_inv r"
  shows "\<exists>r1. build_string_words big big s r = put_string_permanent (from_utf8_lossy (take MAX_BUILTIN_OUTPUT s)) r1 \<and>
    reg_inv r1 \<and> reg_get r1 = reg_get r \<and> live r1 = live r \<and> next_id_ctr r \<le> next_id_ctr r1"
proof (cases "s = []")
  case True
  then show ?thesis using inv
    by (intro exI [of _ r])
      (simp add: build_string_words_def string_from_words_impl_def literal_words_Nil from_utf8_lossy.simps)
next
  case False
  define ws a d where "ws = literal_words big s" and "a = next_id_ctr r"
    and "d = array_data_new 8 (initial_capacity (int (length ws))) False"
  define r0 where "r0 = fst (insert_handle (HArray d) r)"
  have a: "a \<noteq> NULL" "reg_get r a = None"
    using reg_invD(2) [OF inv] fresh_id [of r] by (auto simp: a_def NULL_def ids_inv_def)
  have r0: "array_at r0 a = Some d" "reg_inv r0" "live r0 = live r + 1" "next_id_ctr r0 = a + 1"
    "\<And>i. i \<noteq> a \<Longrightarrow> reg_get r0 i = reg_get r i"
    using inv by (simp_all add: r0_def a_def array_at_def insert_handle_inv handle_ok_def)
  define r1 where "r1 = push_words a ws r0"
  have d: "\<not> string_elements d" "elements d = []" by (simp_all add: d_def array_data_new_def)
  note eff = push_words_effect [OF r0(1) d(1), of ws, folded r1_def]
  have r1: "array_at r1 a = Some (d\<lparr>elements := literal_words big s\<rparr>)"
    using eff by (simp add: d(2) ws_def)
  have "build_string_words big big s r = string_from_words_impl big a (int (length s)) True r1"
    using False by (simp add: build_string_words_def literal_words_Nil array_new_def r1_def r0_def a_def ws_def d_def
        insert_handle_eq Let_def)
  also have "\<dots> = put_string_permanent (from_utf8_lossy (take MAX_BUILTIN_OUTPUT s)) (array_drop a r1)"
    using string_from_words_read [OF a(1) r1 _ False] by simp
  finally have run: "build_string_words big big s r = \<dots>" .
  have drop: "array_drop a r1 = (reg_del a r1)\<lparr>live := live r1 - 1, registry_gen := registry_gen r1 + 1\<rparr>"
    using array_drop_scalar [OF a(1) r1] d by simp
  have "reg_inv (array_drop a r1)" by (simp add: r1_def array_drop_inv push_words_inv r0)
  moreover have "reg_get (array_drop a r1) = reg_get r"
    using eff r0(5) a(2) by (auto simp: drop fun_eq_iff)
  moreover have "live (array_drop a r1) = live r" "next_id_ctr r \<le> next_id_ctr (array_drop a r1)"
    using eff r0 unfolding drop by (simp_all add: a_def)
  ultimately show ?thesis using run by blast
qed

section \<open>Properties\<close>

text \<open>C15: A string constant survives the trip from the compiler to the running program. The code
  emitted for a constant of at most 16 MiB of well-formed UTF-8 (pack the bytes into 64-bit words,
  push them into a fresh array, hand the array to the runtime) registers exactly that text under a
  permanent handle, provided both machines have the same byte order; the word array is reclaimed,
  no other handle changes, and the count of live handles is what it was.\<close>

theorem string_constant_roundtrip:
  assumes "reg_inv r" "utf8_valid s" "length s \<le> MAX_BUILTIN_OUTPUT"
    and "build_string_words big big s r = (r', h)"
  shows "reg_inv r' \<and> get_string h r' = Some s \<and> h \<in> permanent_ids r' \<and> live_count r' = live_count r \<and>
    reg_get r' = (reg_get r)(h \<mapsto> HString s)"
proof -
  obtain r1 where "(r', h) = put_string_permanent (from_utf8_lossy (take MAX_BUILTIN_OUTPUT s)) r1"
    and r1: "reg_inv r1" "reg_get r1 = reg_get r" "live r1 = live r"
    using build_string_words_effect [OF assms(1), of big s] assms(4) by metis
  then have run: "(r', h) = put_string_permanent s r1" using assms(2,3) lossy_valid by simp
  have "h \<noteq> NULL" using run reg_invD(2) [OF r1(1)] by (auto simp: put_string_permanent_eq ids_inv_def NULL_def)
  moreover have "reg_inv r'" using put_string_permanent_inv [OF r1(1), of s] run by (metis fst_conv)
  ultimately show ?thesis
    using run r1 by (auto simp: put_string_permanent_eq get_string_def string_at_def live_count_def fun_eq_iff)
qed

theorem string_constant_roundtrip_witness:
  "\<exists>r' h. build_string_words False False ''hello, world'' (reg_init :: nat registry) = (r', h) \<and>
     get_string h r' = Some ''hello, world'' \<and> live_count r' = 0"
proof -
  obtain r' h where b: "build_string_words False False ''hello, world'' (reg_init :: nat registry) = (r', h)"
    by fastforce
  have "utf8_valid ''hello, world''" by (simp add: utf8_valid.simps Let_def)
  with string_constant_roundtrip [OF reg_inv_init _ _ b] b show ?thesis
    by (simp add: MAX_BUILTIN_OUTPUT_def live_count_def) (simp add: reg_init_def)
qed

text \<open>C30: Throwing and catching. A runtime failure leaves an exception pending whose message reads
  back as the text thrown and returns the null handle; taking the message empties the slot and
  hands over the handle, re-arming it makes it pending again, and clearing the exception instead
  reclaims the message: the table and the live count are those from before the throw.\<close>

theorem throw_caught:
  assumes inv: "reg_inv (rt_registry rt)" and throw: "throw_str msg rt = (rt1, x)"
    and taken: "ntsc_exception_take_message rt1 = (rt2, h)"
  shows "x = NULL \<and> ntsc_exception_pending rt1 = 1 \<and> ntsc_exception_pending rt2 = 0 \<and>
    ntsc_exception_get_message rt1 = h \<and> get_string h (rt_registry rt2) = Some msg \<and>
    fst (ntsc_rethrow h rt2) = rt1 \<and>
    reg_get (rt_registry (ntsc_exception_clear rt1)) = reg_get (rt_registry rt) \<and>
    live_count (rt_registry (ntsc_exception_clear rt1)) = live_count (rt_registry rt) \<and>
    ntsc_exception_pending (ntsc_exception_clear rt1) = 0"
proof -
  let ?r = "rt_registry rt" let ?i = "next_id_ctr ?r"
  have i: "?i \<noteq> NULL" "reg_get ?r ?i = None"
    using reg_invD(2) [OF inv] fresh_id [of ?r] by (auto simp: NULL_def ids_inv_def)
  have rt1: "rt1 = rt\<lparr>rt_registry := fst (insert_handle (HString msg) ?r), pending_exception := Some ?i\<rparr>" "x = NULL"
    using throw i(1) by (auto simp: throw_str_def on_registry_def put_string_def ntsc_throw_def split_beta Let_def)
  have rt2: "rt2 = rt1\<lparr>pending_exception := None\<rparr>" "h = ?i"
    using taken by (auto simp: ntsc_exception_take_message_def rt1)
  have take: "take_string ?i (fst (insert_handle (HString msg) ?r)) =
      ((reg_del ?i (fst (insert_handle (HString msg) ?r)))\<lparr>live := live ?r\<rparr>, Some msg)"
    using take_string_ok [OF i(1), of "fst (insert_handle (HString msg) ?r)" msg] by simp
  have clear: "ntsc_exception_clear rt1 =
      rt1\<lparr>pending_exception := None, rt_registry := (reg_del ?i (fst (insert_handle (HString msg) ?r)))\<lparr>live := live ?r\<rparr>\<rparr>"
    by (simp add: ntsc_exception_clear_def ntsc_exception_take_message_def on_registry_def rt1 take Let_def)
  show ?thesis
    unfolding clear using i by (simp add: rt1 rt2 ntsc_exception_pending_def ntsc_exception_get_message_def get_string_def
        ntsc_rethrow_def ntsc_throw_def live_count_def fun_eq_iff)
qed

theorem throw_caught_witness:
  "\<exists>rt1 x rt2 h. throw_str ''boom'' (\<lparr>rt_registry = reg_init, pending_exception = None\<rparr> :: nat runtime) = (rt1, x) \<and>
     ntsc_exception_take_message rt1 = (rt2, h) \<and> get_string h (rt_registry rt2) = Some ''boom''"
proof -
  let ?rt = "\<lparr>rt_registry = reg_init, pending_exception = None\<rparr> :: nat runtime"
  obtain rt1 x where t: "throw_str ''boom'' ?rt = (rt1, x)" by fastforce
  obtain rt2 h where k: "ntsc_exception_take_message rt1 = (rt2, h)" by fastforce
  have "reg_inv (rt_registry ?rt)" by (simp add: reg_inv_init)
  with throw_caught [OF _ t k] t k show ?thesis by blast
qed

section \<open>Effect of a throw\<close>

lemma throw_str_effect:
  assumes inv: "reg_inv (rt_registry rt)" and throw: "throw_str msg rt = (rt1, x)"
  shows "x = NULL \<and> get_string (ntsc_exception_get_message rt1) (rt_registry rt1) = Some msg \<and>
    reg_inv (rt_registry rt1)"
proof -
  have "next_id_ctr (rt_registry rt) \<noteq> NULL"
    using reg_invD(2) [OF inv] by (auto simp: NULL_def ids_inv_def)
  with throw inv show ?thesis
    by (auto simp: throw_str_def on_registry_def put_string_def ntsc_throw_def ntsc_exception_get_message_def
        get_string_def split_beta Let_def insert_handle_inv)
qed

lemma throw_str_inv: "reg_inv (rt_registry rt) \<Longrightarrow> reg_inv (rt_registry (fst (throw_str msg rt)))"
  using throw_str_effect [of rt msg "fst (throw_str msg rt)" "snd (throw_str msg rt)"] by simp

section \<open>Array accesses\<close>

text \<open>An access of a scalar array is checked: inside the bounds a store is read back by a load and
  changes no other element, outside both throw.\<close>

lemma array_access_checked:
  assumes "hid \<noteq> NULL" and arr: "array_at (rt_registry rt) hid = Some d" "\<not> string_elements d"
  shows "if 0 \<le> i \<and> i < int (length (elements d))
    then \<exists>rt1. ntsc_array_set hid i v rt = (rt1, hid) \<and> pending_exception rt1 = pending_exception rt \<and>
      array_at (rt_registry rt1) hid = Some (d\<lparr>elements := (elements d)[nat i := v]\<rparr>) \<and> ntsc_array_get hid i rt1 = (rt1, v)
    else ntsc_array_set hid i v rt = throw_string ''array index out of bounds'' rt \<and>
      ntsc_array_get hid i rt = throw_string ''array index out of bounds'' rt"
  using assms
  by (auto simp: ntsc_array_set_def ntsc_array_get_def is_array_def with_array_def array_len_def array_get_def
      array_set_def stored_element_def on_registry_def array_data_get_def Let_def not_less)

end
