(* ===== verification/Std_Sort.thy ===== *)
theory Std_Sort
  imports Runtime_Core
begin

text \<open>
  The \<open>sort\<close> module of the standard library (\<open>ntsc-runtime/src/modules/sort.rs\<close>): the stable sort
  of the registry, the insertion sort driven by a comparator that the compiler emits, and binary
  search. The comparator is a parameter, a call that may change the runtime state and returns
  nonzero when its first argument belongs before its second.
\<close>

section \<open>Operations\<close>

definition sort_fail :: "string \<Rightarrow> string \<Rightarrow> 'o runtime \<Rightarrow> 'o runtime \<times> i64" where
  "sort_fail fn_name msg rt = throw_str (''sort.'' @ fn_name @ '': '' @ msg) rt"

definition ntsc_sort_stable_sort :: "i64 \<Rightarrow> int \<Rightarrow> 'o runtime \<Rightarrow> 'o runtime \<times> i64" where
  "ntsc_sort_stable_sort hid mode rt =
     (let (rt1, sorted_h) = on_registry (array_sort hid mode) rt
      in if sorted_h = NULL then (fst (sort_fail ''stable_sort'' ''cannot sort array'' rt1), sorted_h)
         else (rt1, sorted_h))"

type_synonym 'o comparator = "i64 \<Rightarrow> i64 \<Rightarrow> 'o runtime \<Rightarrow> 'o runtime \<times> int"

fun sift_by :: "'o comparator \<Rightarrow> nat \<Rightarrow> i64 list \<times> 'o runtime \<Rightarrow> i64 list \<times> 'o runtime" where
  "sift_by cmp 0 (es, rt) = (es, rt)"
| "sift_by cmp (Suc j) (es, rt) =
     (let (rt1, before) = cmp (es ! j) (es ! Suc j) rt
      in if before \<noteq> 0 then (es, rt1) else sift_by cmp j (swap_elements j (Suc j) es, rt1))"

definition sort_by_loop :: "'o comparator \<Rightarrow> i64 list \<Rightarrow> 'o runtime \<Rightarrow> i64 list \<times> 'o runtime" where
  "sort_by_loop cmp es rt = fold (sift_by cmp) [1..<length es] (es, rt)"

definition ntsc_sort_sort_by :: "i64 \<Rightarrow> 'o comparator \<Rightarrow> int \<Rightarrow> 'o runtime \<Rightarrow> 'o runtime \<times> i64" where
  "ntsc_sort_sort_by hid cmp mode rt =
     (let (rt1, cloned) = on_registry (array_clone hid 0) rt
      in if cloned = NULL then sort_fail ''sort_by'' ''cannot sort array'' rt1
         else (let (es, rt2) = sort_by_loop cmp (array_to_vec hid (rt_registry rt1)) rt1;
                   (rt3, ok) = on_registry (array_write_elements cloned es) rt2
               in if \<not> ok then sort_fail ''sort_by'' ''cannot sort array'' rt3 else (rt3, cloned)))"

datatype ordering = Ord_Less | Ord_Equal | Ord_Greater

definition compare_int :: "int \<Rightarrow> int \<Rightarrow> ordering" where
  "compare_int a b = (if a < b then Ord_Less else if a = b then Ord_Equal else Ord_Greater)"

definition compare_str :: "string \<Rightarrow> string \<Rightarrow> ordering" where
  "compare_str a b = (if str_less a b then Ord_Less else if a = b then Ord_Equal else Ord_Greater)"

text \<open>\<open>f64::total_cmp\<close> orders the bit patterns as integers, with the magnitude of the negative
  ones reversed.\<close>

definition total_cmp_key :: "i64 \<Rightarrow> int" where
  "total_cmp_key a = (if 0 \<le> a then a else - 1 - (a + 2 ^ 63))"

definition search_cmp :: "int \<Rightarrow> i64 \<Rightarrow> i64 \<Rightarrow> 'o registry \<Rightarrow> int \<Rightarrow> ordering option" where
  "search_cmp mode hid val r mid =
     (let elem = (case array_get hid mid r of Some e \<Rightarrow> e | None \<Rightarrow> 0)
      in if mode = 0 then Some (compare_int elem val)
         else if mode = 1 then Some (compare_int (total_cmp_key elem) (total_cmp_key val))
         else if mode = 2 then
           Some (compare_str (case get_string elem r of Some t \<Rightarrow> t | None \<Rightarrow> [])
                             (case get_string val r of Some t \<Rightarrow> t | None \<Rightarrow> []))
         else None)"

function search_loop :: "(int \<Rightarrow> ordering option) \<Rightarrow> int \<Rightarrow> int \<Rightarrow> unit + int" where
  "search_loop f low high =
     (if low < high
      then (let mid = low + (high - low) div 2
            in case f mid of
                 None \<Rightarrow> Inl ()
               | Some Ord_Less \<Rightarrow> search_loop f (mid + 1) high
               | Some Ord_Greater \<Rightarrow> search_loop f low mid
               | Some Ord_Equal \<Rightarrow> Inr mid)
      else Inr (- 1))"
  by pat_completeness auto
termination
  by (relation "measure (\<lambda>(f, low, high). nat (high - low))") auto

declare search_loop.simps [simp del]

definition ntsc_sort_binary_search :: "i64 \<Rightarrow> i64 \<Rightarrow> int \<Rightarrow> 'o runtime \<Rightarrow> 'o runtime \<times> i64" where
  "ntsc_sort_binary_search hid val mode rt =
     (case search_loop (search_cmp mode hid val (rt_registry rt)) 0 (array_len hid (rt_registry rt)) of
        Inr i \<Rightarrow> (rt, i)
      | Inl _ \<Rightarrow> (fst (sort_fail ''binary_search'' ''unsupported element type'' rt), - 1))"

section \<open>The comparator sort\<close>

text \<open>Whatever the comparator does, the elements are only permuted.\<close>

lemma mset_sift_by: "j < length es \<Longrightarrow> mset (fst (sift_by cmp j (es, rt))) = mset es"
proof (induction j arbitrary: es rt)
  case (Suc j)
  then show ?case by (auto simp: split_beta Let_def mset_swap_elements)
qed simp

lemma mset_sort_by_loop: "mset (fst (sort_by_loop cmp es rt)) = mset es"
proof -
  have "\<forall>j \<in> set js. j < length es \<Longrightarrow> mset (fst (fold (sift_by cmp) js (es, rt))) = mset es" for js es rt
  proof (induction js arbitrary: es rt)
    case (Cons j js)
    obtain es1 rt1 where s: "sift_by cmp j (es, rt) = (es1, rt1)" by fastforce
    with Cons.prems mset_sift_by [of j es cmp rt] have m: "mset es1 = mset es" by simp
    then have "length es1 = length es" by (metis size_mset)
    with Cons m show ?case by (simp add: s)
  qed simp
  then show ?thesis by (simp add: sort_by_loop_def)
qed

text \<open>A comparator by key, which leaves the state alone, makes the loop the plain insertion sort.\<close>

definition key_comparator :: "(i64 \<Rightarrow> 'b :: linorder) \<Rightarrow> 'o comparator" where
  "key_comparator k a b rt = (rt, if k a \<le> k b then 1 else 0)"

lemma sift_by_key: "sift_by (key_comparator k) j (es, rt) = (sift_down (\<lambda>es j. k (es ! j) < k (es ! (j - 1))) j es, rt)"
  by (induction j arbitrary: es) (auto simp: key_comparator_def)

lemma sort_by_loop_key:
  "sort_by_loop (key_comparator k) es rt = (sort_loop (\<lambda>es j. k (es ! j) < k (es ! (j - 1))) es, rt)"
proof -
  have "fold (sift_by (key_comparator k)) js (es, rt) = (fold (sift_down (\<lambda>es j. k (es ! j) < k (es ! (j - 1)))) js es, rt)" for js es
    by (induction js arbitrary: es) (simp_all add: sift_by_key)
  then show ?thesis by (simp add: sort_by_loop_def sort_loop_def)
qed

text \<open>The insertion sort is stable: elements with equal keys keep their order.\<close>

lemma filter_insert_down:
  "filter (\<lambda>y. k y = v) (insert_down k x zs) = filter (\<lambda>y. k y = v) (x # zs)"
  by (induction zs) auto

lemma filter_sift_down:
  fixes k :: "i64 \<Rightarrow> 'b :: linorder"
  assumes "n < length es"
  shows "filter (\<lambda>y. k y = v) (sift_down (\<lambda>es j. k (es ! j) < k (es ! (j - 1))) n es) = filter (\<lambda>y. k y = v) es"
proof -
  let ?P = "\<lambda>y. k y = v"
  have split: "es = take n es @ es ! n # drop (Suc n) es"
    using assms by (simp add: id_take_nth_drop)
  have "sift_down (\<lambda>es j. k (es ! j) < k (es ! (j - 1))) n es = rev (insert_down k (es ! n) (rev (take n es))) @ drop (Suc n) es"
    using sift_down_insert [of "\<lambda>es j. k (es ! j) < k (es ! (j - 1))" k "take n es" "es ! n" "drop (Suc n) es"] assms split
    by (simp add: min_def)
  then have "filter ?P (sift_down (\<lambda>es j. k (es ! j) < k (es ! (j - 1))) n es) =
      rev (filter ?P (es ! n # rev (take n es))) @ filter ?P (drop (Suc n) es)"
    by (simp only: filter_append rev_filter [symmetric] filter_insert_down)
  also have "\<dots> = filter ?P (take n es @ es ! n # drop (Suc n) es)"
    by (simp add: rev_filter)
  finally show ?thesis using split by simp
qed

lemma sort_loop_stable:
  fixes k :: "i64 \<Rightarrow> 'b :: linorder"
  shows "sort_loop (\<lambda>es j. k (es ! j) < k (es ! (j - 1))) es = sort_key k es"
proof (rule properties_for_sort_key [symmetric])
  let ?gt = "\<lambda>es j. k (es ! j) < k (es ! (j - 1))"
  have "\<forall>j \<in> set js. j < length es \<Longrightarrow> filter (\<lambda>y. k y = v) (fold (sift_down ?gt) js es) = filter (\<lambda>y. k y = v) es" for js es v
    by (induction js arbitrary: es) (simp_all add: filter_sift_down del: One_nat_def)
  then have "filter (\<lambda>y. k y = v) (sort_loop ?gt es) = filter (\<lambda>y. k y = v) es" for v
    by (simp add: sort_loop_def)
  then show "filter (\<lambda>y. k x = k y) (sort_loop ?gt es) = filter (\<lambda>y. k x = k y) es" if "x \<in> set (sort_loop ?gt es)" for x
    by (simp add: eq_commute [of "k x"])
qed (simp_all add: mset_sort_loop sorted_sort_loop)

section \<open>Binary search\<close>

text \<open>A comparison that is monotone over the range: below an element less than the value all are
  less, above one that is greater all are greater.\<close>

definition search_ordered :: "(int \<Rightarrow> ordering option) \<Rightarrow> int \<Rightarrow> int \<Rightarrow> bool" where
  "search_ordered f low high \<longleftrightarrow>
     (\<forall>i j. low \<le> i \<longrightarrow> i < j \<longrightarrow> j < high \<longrightarrow>
        (f j = Some Ord_Less \<longrightarrow> f i = Some Ord_Less) \<and> (f i = Some Ord_Greater \<longrightarrow> f j = Some Ord_Greater)) \<and>
     (\<forall>i. low \<le> i \<longrightarrow> i < high \<longrightarrow> f i \<noteq> None)"

lemma search_ordered_sub:
  "search_ordered f low high \<Longrightarrow> low \<le> low' \<Longrightarrow> high' \<le> high \<Longrightarrow> search_ordered f low' high'"
  unfolding search_ordered_def by (meson order_trans order_less_le_trans)

lemma search_loop_correct:
  "search_ordered f low high \<Longrightarrow>
     (\<exists>i. low \<le> i \<and> i < high \<and> f i = Some Ord_Equal \<and> search_loop f low high = Inr i) \<or>
     (\<forall>i. low \<le> i \<longrightarrow> i < high \<longrightarrow> f i \<noteq> Some Ord_Equal) \<and> search_loop f low high = Inr (- 1)"
proof (induction f low high rule: search_loop.induct)
  case (1 f low high)
  show ?case
  proof (cases "low < high")
    case False
    then show ?thesis by (simp add: search_loop.simps)
  next
    case True
    define mid where "mid = low + (high - low) div 2"
    have mid: "low \<le> mid" "mid < high" using True by (auto simp: mid_def)
    obtain x where x: "f mid = Some x" using 1(3) mid by (auto simp: search_ordered_def)
    note ord = 1(3) [unfolded search_ordered_def]
    have sub: "search_ordered f (mid + 1) high" "search_ordered f low mid"
      using mid by (auto intro: search_ordered_sub [OF 1(3)])
    show ?thesis
    proof (cases x)
      case Ord_Less
      have "f i \<noteq> Some Ord_Equal" if "low \<le> i" "i \<le> mid" for i
        using ord mid x Ord_Less that by (cases "i = mid") (auto dest: spec [of _ i])
      then show ?thesis
        using 1(1) [OF True refl, folded mid_def, OF x Ord_Less sub(1)] mid True x Ord_Less
        by (subst (1 2) search_loop.simps) (force simp: mid_def [symmetric] Let_def)
    next
      case Ord_Greater
      have "f i \<noteq> Some Ord_Equal" if "mid \<le> i" "i < high" for i
        using ord mid x Ord_Greater that by (cases "i = mid") (auto dest: spec [of _ mid])
      then show ?thesis
        using 1(2) [OF True refl, folded mid_def, OF x Ord_Greater sub(2)] mid True x Ord_Greater
        by (subst (1 2) search_loop.simps) (force simp: mid_def [symmetric] Let_def)
    next
      case Ord_Equal
      then show ?thesis using mid True x by (subst search_loop.simps) (auto simp: mid_def [symmetric] Let_def)
    qed
  qed
qed


lemma search_ordered_sorted:
  assumes "hid \<noteq> NULL" "array_at r hid = Some b" "sorted (elements b)"
  shows "search_ordered (search_cmp 0 hid val r) 0 (int (length (elements b)))"
    and "0 \<le> i \<Longrightarrow> i < int (length (elements b)) \<Longrightarrow>
      search_cmp 0 hid val r i = Some Ord_Equal \<longleftrightarrow> elements b ! nat i = val"
proof -
  have get: "search_cmp 0 hid val r i = Some (compare_int (elements b ! nat i) val)"
    if "0 \<le> i" "i < int (length (elements b))" for i
    using assms that by (simp add: search_cmp_def array_get_def with_array_def array_data_get_def nat_less_iff)
  have mono: "elements b ! nat i \<le> elements b ! nat j" if "0 \<le> i" "i < j" "j < int (length (elements b))" for i j
    using assms(3) that by (intro sorted_nth_mono) auto
  show "search_ordered (search_cmp 0 hid val r) 0 (int (length (elements b)))"
    unfolding search_ordered_def
  proof (intro conjI allI impI)
    fix i j :: int assume ij: "0 \<le> i" "i < j" "j < int (length (elements b))"
    note m = mono [OF ij] and g = get [of i] get [of j]
    show "search_cmp 0 hid val r i = Some Ord_Less" if "search_cmp 0 hid val r j = Some Ord_Less"
      using that m g ij by (auto simp: compare_int_def split: if_splits)
    show "search_cmp 0 hid val r j = Some Ord_Greater" if "search_cmp 0 hid val r i = Some Ord_Greater"
      using that m g ij by (auto simp: compare_int_def split: if_splits)
  next
    fix i :: int assume "0 \<le> i" "i < int (length (elements b))"
    then show "search_cmp 0 hid val r i \<noteq> None" by (simp add: get)
  qed
  show "search_cmp 0 hid val r i = Some Ord_Equal \<longleftrightarrow> elements b ! nat i = val"
    if "0 \<le> i" "i < int (length (elements b))" for i
    using get [OF that] by (simp add: compare_int_def)
qed

text \<open>Searching a sorted integer array.\<close>

lemma search_sorted_array:
  assumes h: "hid \<noteq> NULL" and b: "array_at (rt_registry rt) hid = Some b" and sorted: "sorted (elements b)"
  obtains k where "ntsc_sort_binary_search hid val 0 rt = (rt, k)"
    "if val \<in> set (elements b) then 0 \<le> k \<and> array_get hid k (rt_registry rt) = Some val else k = - 1"
proof -
  let ?r = "rt_registry rt" let ?n = "int (length (elements b))" let ?f = "search_cmp 0 hid val ?r"
  note ord = search_ordered_sorted [where val = val, OF h b sorted]
  have len: "array_len hid ?r = ?n" using h b by (simp add: array_len_def with_array_def)
  have hit: "array_get hid x ?r = Some (elements b ! nat x)" if "0 \<le> x" "x < ?n" for x
    using that h b by (simp add: array_get_def with_array_def array_data_get_def nat_less_iff)
  have mem: "val \<in> set (elements b) \<longleftrightarrow> (\<exists>x. 0 \<le> x \<and> x < ?n \<and> elements b ! nat x = val)"
    unfolding in_set_conv_nth by (metis nat_int nat_less_iff of_nat_0_le_iff of_nat_less_iff)
  from search_loop_correct [OF ord(1)] show ?thesis
  proof (elim disjE exE conjE)
    fix x assume x: "0 \<le> x" "x < ?n" "?f x = Some Ord_Equal" "search_loop ?f 0 ?n = Inr x"
    then have v: "elements b ! nat x = val" using ord(2) by blast
    with x have "val \<in> set (elements b)" unfolding mem by blast
    moreover have "array_get hid x ?r = Some val" using hit x v by simp
    ultimately show ?thesis using x by (intro that [of x]) (simp_all add: ntsc_sort_binary_search_def len)
  next
    assume "\<forall>i\<ge>0. i < ?n \<longrightarrow> ?f i \<noteq> Some Ord_Equal" "search_loop ?f 0 ?n = Inr (- 1)"
    moreover from this have "val \<notin> set (elements b)" unfolding mem using ord(2) by blast
    ultimately show ?thesis by (intro that [of "- 1"]) (simp_all add: ntsc_sort_binary_search_def len)
  qed
qed

lemma scalar_view_eq:
  assumes "array_view r' hid = array_view r hid" "array_at r hid = Some a" "\<not> string_elements a"
  shows "array_at r' hid = Some a"
proof -
  obtain d where d: "array_at r' hid = Some d" "elem_size d = elem_size a" "string_elements d = string_elements a"
      "map (elem_view r' (string_elements d)) (elements d) = map (elem_view r (string_elements a)) (elements a)"
    using assms by (auto simp: array_view_def)
  moreover have "inj Raw" by (simp add: inj_on_def)
  ultimately have "elements d = elements a"
    using assms(3) by (simp add: inj_map_eq_map)
  with d show ?thesis by simp
qed

section \<open>Properties\<close>

text \<open>C26: Sorting an integer array and searching the result: the search finds an index holding the
  value exactly when the source array contains it and answers -1 otherwise; neither call throws or
  changes the source.\<close>

theorem search_after_sort:
  assumes inv: "reg_inv (rt_registry rt)" and a: "array_at (rt_registry rt) hid = Some a" "\<not> string_elements a"
    and sort: "ntsc_sort_stable_sort hid 0 rt = (rt1, j)" and search: "ntsc_sort_binary_search j val 0 rt1 = (rt2, k)"
  shows "rt2 = rt1 \<and> pending_exception rt1 = pending_exception rt \<and> array_at (rt_registry rt1) hid = Some a \<and>
    (if val \<in> set (elements a) then 0 \<le> k \<and> array_get j k (rt_registry rt1) = Some val else k = - 1)"
proof -
  let ?r = "rt_registry rt"
  have ok: "elements_ok ?r hid" using a by (simp add: elements_ok_def)
  obtain r1 i b where c: "array_clone hid 0 ?r = (r1, i)" "i \<noteq> NULL" "array_at r1 i = Some b"
    using clone_exists [OF inv ok a(1)] .
  define es where "es = sort_loop (sort_less 0 None) (elements b)"
  define r' where "r' = reg_put i (HArray (b\<lparr>elements := es\<rparr>)) r1"
  have m: "mset es = mset (elements b)" by (simp add: es_def mset_sort_loop)
  note perm = clone_permuted [OF inv ok a(1) c(1,3) m, folded r'_def]
  have run: "array_sort hid 0 ?r = (r', i)"
    using array_sort_eq [OF c, of 0] perm(5) a(2) by (simp add: es_def r'_def)
  then have rt1: "rt1 = rt\<lparr>rt_registry := r'\<rparr>" "j = i"
    using sort c(2) by (auto simp: ntsc_sort_stable_sort_def on_registry_def)
  have b': "array_at (rt_registry rt1) j = Some (b\<lparr>elements := es\<rparr>)" by (simp add: r'_def rt1)
  have "sorted es"
    unfolding es_def using sorted_sort_loop [of "sort_less 0 None" "\<lambda>x. x"] by (simp add: sort_less_def Let_def)
  moreover have "set es = set (elements a)" using m perm(7) [OF a(2)] by (metis set_mset_mset)
  ultimately obtain k' where "ntsc_sort_binary_search j val 0 rt1 = (rt1, k')"
      "if val \<in> set (elements a) then 0 \<le> k' \<and> array_get j k' (rt_registry rt1) = Some val else k' = - 1"
    using search_sorted_array [OF _ b', of val] c(2) rt1(2) by (metis array_data.select_convs(3) array_data.update_convs(3) array_data.surjective)
  with search scalar_view_eq [OF perm(3) a] rt1 show ?thesis by auto
qed



section \<open>Witnesses\<close>

definition three_ints :: "nat runtime" where
  "three_ints = \<lparr>rt_registry = fst (insert_handle (HArray \<lparr>elem_size = 8, string_elements = False, elements = [5, 3, 4]\<rparr>) reg_init),
     pending_exception = None\<rparr>"

lemma three_ints: "reg_inv (rt_registry three_ints)"
  "array_at (rt_registry three_ints) 1 = Some \<lparr>elem_size = 8, string_elements = False, elements = [5, 3, 4]\<rparr>"
  by (simp_all add: three_ints_def insert_handle_inv reg_inv_init array_at_def reg_init_def [THEN arg_cong [of _ _ next_id_ctr]])

theorem search_after_sort_witness:
  "\<exists>rt1 j rt2 k. ntsc_sort_stable_sort 1 0 three_ints = (rt1, j) \<and> ntsc_sort_binary_search j 4 0 rt1 = (rt2, k) \<and>
     array_get j k (rt_registry rt1) = Some 4"
proof -
  obtain rt1 j where s: "ntsc_sort_stable_sort 1 0 three_ints = (rt1, j)" by fastforce
  obtain rt2 k where f: "ntsc_sort_binary_search j 4 0 rt1 = (rt2, k)" by fastforce
  from search_after_sort [OF three_ints(1,2) _ s f] s f show ?thesis by auto
qed


text \<open>On an array of strings \<open>sort_by\<close> writes the source's own handles over the copies: the two
  arrays share every string. Dropping the source leaves the sorted array with no texts, and the
  copies stay registered with nothing that refers to them.\<close>

lemma sort_by_shares_strings:
  "(case ntsc_sort_sort_by 4 (key_comparator (\<lambda>h. h)) 2 \<lparr>rt_registry = three_strings, pending_exception = None\<rparr> of
      (rt', j) \<Rightarrow>
        (map_option elements (array_at (rt_registry rt') j), array_view (array_drop 4 (rt_registry rt')) j,
         live_count (array_drop j (array_drop 4 (rt_registry rt'))))) =
   (Some [1, 2, 3], Some (8, True, [Text None, Text None, Text None]), 3)"
  by code_simp

end
