(* ===== verification/Std_Encoding.thy ===== *)
theory Std_Encoding
  imports Runtime_Core
begin

text \<open>
  The \<open>encoding\<close> module of the standard library (\<open>ntsc-runtime/src/modules/encoding.rs\<close>):
  hexadecimal text of a string and back. The two base64 functions call an external crate, which is
  a parameter.
\<close>

section \<open>Operations\<close>

definition get_or_default :: "i64 \<Rightarrow> 'o runtime \<Rightarrow> string" where
  "get_or_default h rt = (case get_string h (rt_registry rt) of Some s \<Rightarrow> s | None \<Rightarrow> [])"

definition ntsc_encoding_base64_encode :: "(string \<Rightarrow> string) \<Rightarrow> i64 \<Rightarrow> 'o runtime \<Rightarrow> 'o runtime \<times> i64" where
  "ntsc_encoding_base64_encode encode h rt = on_registry (put_string (encode (get_or_default h rt))) rt"

definition ntsc_encoding_base64_decode ::
    "(string \<Rightarrow> string + string) \<Rightarrow> i64 \<Rightarrow> 'o runtime \<Rightarrow> 'o runtime \<times> i64" where
  "ntsc_encoding_base64_decode decode h rt =
     (case decode (get_or_default h rt) of
        Inr bytes \<Rightarrow>
          if utf8_valid bytes then on_registry (put_string bytes) rt
          else throw_str ''encoding.base64_decode: decoded data is not valid UTF-8'' rt
      | Inl e \<Rightarrow> throw_str (''encoding.base64_decode: '' @ e) rt)"

definition hex_lower :: "nat \<Rightarrow> char" where
  "hex_lower n = (if n < 10 then char_of (48 + n) else char_of (87 + n))"

text \<open>\<open>format!("{:02x}", b)\<close>\<close>

definition format_02x :: "char \<Rightarrow> string" where
  "format_02x c = [hex_lower (of_char c div 16), hex_lower (of_char c mod 16)]"

definition ntsc_encoding_hex_encode :: "i64 \<Rightarrow> 'o runtime \<Rightarrow> 'o runtime \<times> i64" where
  "ntsc_encoding_hex_encode h rt = on_registry (put_string (concat (map format_02x (get_or_default h rt)))) rt"

definition radix16_value :: "char \<Rightarrow> nat option" where
  "radix16_value c =
     (let n = of_char c
      in if 48 \<le> n \<and> n \<le> 57 then Some (n - 48)
         else if 97 \<le> n \<and> n \<le> 102 then Some (n - 87)
         else if 65 \<le> n \<and> n \<le> 70 then Some (n - 55)
         else None)"

fun hex_digits :: "nat \<Rightarrow> string \<Rightarrow> nat option" where
  "hex_digits acc [] = Some acc"
| "hex_digits acc (c # cs) = (case radix16_value c of None \<Rightarrow> None | Some d \<Rightarrow> hex_digits (16 * acc + d) cs)"

text \<open>\<open>u8::from_str_radix(s, 16)\<close>: an optional plus sign, then at least one digit, and a value of
  at most 255.\<close>

definition from_str_radix_u8 :: "string \<Rightarrow> nat option" where
  "from_str_radix_u8 s =
     (let ds = (case s of c # cs \<Rightarrow> if c = CHR ''+'' \<and> cs \<noteq> [] then cs else s | [] \<Rightarrow> [])
      in if ds = [] then None
         else (case hex_digits 0 ds of None \<Rightarrow> None | Some n \<Rightarrow> if n < 256 then Some n else None))"

text \<open>The loop over pairs of bytes: the decoded bytes, or the pair it stops at.\<close>

fun hex_decode_bytes :: "string \<Rightarrow> string + string" where
  "hex_decode_bytes (a # b # rest) =
     (let byte_str = (if utf8_valid [a, b] then [a, b] else [])
      in case from_str_radix_u8 byte_str of
           None \<Rightarrow> Inl byte_str
         | Some n \<Rightarrow> (case hex_decode_bytes rest of Inl e \<Rightarrow> Inl e | Inr bs \<Rightarrow> Inr (char_of n # bs)))"
| "hex_decode_bytes _ = Inr []"

definition ntsc_encoding_hex_decode :: "i64 \<Rightarrow> 'o runtime \<Rightarrow> 'o runtime \<times> i64" where
  "ntsc_encoding_hex_decode h rt =
     (let hex = get_or_default h rt
      in if \<not> even (length hex) then throw_str ''encoding.hex_decode: hex string must have even length'' rt
         else (case hex_decode_bytes hex of
                 Inl byte_str \<Rightarrow>
                   throw_str (''encoding.hex_decode: invalid hex byte '' @ [CHR 0x27] @ byte_str @ [CHR 0x27]) rt
               | Inr bytes \<Rightarrow>
                   if utf8_valid bytes then on_registry (put_string bytes) rt
                   else throw_str ''encoding.hex_decode: decoded data is not valid UTF-8'' rt))"

definition ntsc_encoding_utf8_valid :: "i64 \<Rightarrow> 'o runtime \<Rightarrow> int" where
  "ntsc_encoding_utf8_valid h rt = (if utf8_valid (get_or_default h rt) then 1 else 0)"

section \<open>Lemmas\<close>

lemma hex_lower_code: "n < 16 \<Longrightarrow> of_char (hex_lower n) = (if n < 10 then 48 + n else 87 + n)"
  by (simp add: hex_lower_def)

lemma radix16_lower: "n < 16 \<Longrightarrow> radix16_value (hex_lower n) = Some n"
  by (simp add: radix16_value_def hex_lower_code)

lemma hex_lower_ascii: "n < 16 \<Longrightarrow> of_char (hex_lower n) < (128 :: nat)" "n < 16 \<Longrightarrow> hex_lower n \<noteq> CHR ''+''"
  using hex_lower_code [of n] by (auto split: if_splits)

lemma utf8_valid_ascii: "\<forall>c \<in> set s. of_char c < (128 :: nat) \<Longrightarrow> utf8_valid s"
  by (induction s) (simp_all add: utf8_valid.simps)

lemma nibbles: "of_char c div 16 < (16 :: nat)" "of_char c mod 16 < (16 :: nat)"
  using nat_of_char_less_256 [of c] by linarith simp

lemma from_str_radix_hex: "from_str_radix_u8 (format_02x c) = Some (of_char c)"
  using nat_of_char_less_256 [of c] nibbles [of c]
  by (simp add: from_str_radix_u8_def format_02x_def radix16_lower hex_lower_ascii Let_def)

lemma hex_decode_encode: "hex_decode_bytes (concat (map format_02x s)) = Inr s"
proof (induction s)
  case (Cons c s)
  have "utf8_valid (format_02x c)"
    by (intro utf8_valid_ascii) (simp add: format_02x_def hex_lower_ascii nibbles)
  with Cons from_str_radix_hex [of c] show ?case by (simp add: format_02x_def Let_def)
qed simp

lemma even_hex: "even (length (concat (map format_02x s)))"
  by (induction s) (simp_all add: format_02x_def)

lemma put_string_get:
  assumes "reg_inv r" "put_string s r = (r1, h)"
  shows "get_string h r1 = Some s" "reg_inv r1" "h \<noteq> NULL"
    "get_string i r = Some t \<Longrightarrow> get_string i r1 = Some t"
proof -
  have h: "h = next_id_ctr r" "r1 = fst (insert_handle (HString s) r)"
    using assms(2) by (auto simp: put_string_def insert_handle_eq)
  show "h \<noteq> NULL" using reg_invD(2) [OF assms(1)] h by (auto simp: ids_inv_def NULL_def)
  then show "get_string h r1 = Some s" using h by (simp add: get_string_def)
  show "reg_inv r1" using h assms(1) by (simp add: insert_handle_inv)
  show "get_string i r = Some t \<Longrightarrow> get_string i r1 = Some t"
    using h fresh_id [OF reg_invD(2) [OF assms(1)]]
    by (auto simp: get_string_def string_at_iff split: if_splits)
qed

text \<open>A plus sign is accepted in place of the first digit of a byte.\<close>

lemma hex_decode_plus: "hex_decode_bytes ''+f'' = Inr [char_of (15 :: nat)]"
  by (simp add: utf8_valid_ascii from_str_radix_u8_def radix16_value_def Let_def)

section \<open>Properties\<close>

text \<open>Hexadecimal round trip through the registry: decoding the text that \<open>hex_encode\<close> registered
  for a string registers that string again, throws nothing, and leaves the original in place.\<close>

theorem hex_roundtrip:
  assumes inv: "reg_inv (rt_registry rt)" and s: "get_string h (rt_registry rt) = Some s" "utf8_valid s"
    and enc: "ntsc_encoding_hex_encode h rt = (rt1, e)" and dec: "ntsc_encoding_hex_decode e rt1 = (rt2, d)"
  shows "get_string d (rt_registry rt2) = Some s \<and> get_string h (rt_registry rt2) = Some s \<and>
    get_string e (rt_registry rt2) = Some (concat (map format_02x s)) \<and>
    pending_exception rt2 = pending_exception rt"
proof -
  let ?hex = "concat (map format_02x s)"
  obtain r1 where r1: "put_string ?hex (rt_registry rt) = (r1, e)" "rt1 = rt\<lparr>rt_registry := r1\<rparr>"
    using enc s(1) by (auto simp: ntsc_encoding_hex_encode_def get_or_default_def on_registry_def split: prod.splits)
  note p1 = put_string_get [OF inv r1(1)]
  have "ntsc_encoding_hex_decode e rt1 = on_registry (put_string s) rt1"
    using p1(1) s(2) even_hex [of s]
    by (simp add: ntsc_encoding_hex_decode_def get_or_default_def r1(2) hex_decode_encode Let_def)
  with dec obtain r2 where r2: "put_string s r1 = (r2, d)" "rt2 = rt1\<lparr>rt_registry := r2\<rparr>"
    by (auto simp: on_registry_def r1(2) split: prod.splits)
  note p2 = put_string_get [OF p1(2) r2(1)]
  from p1 p2 s(1) show ?thesis by (auto simp: r1(2) r2(2))
qed

theorem hex_roundtrip_witness:
  "\<exists>rt1 e rt2 d. ntsc_encoding_hex_encode 1
       (\<lparr>rt_registry = fst (insert_handle (HString ''Hi!'') reg_init), pending_exception = None\<rparr> :: nat runtime) = (rt1, e) \<and>
     ntsc_encoding_hex_decode e rt1 = (rt2, d) \<and> get_string d (rt_registry rt2) = Some ''Hi!''"
proof -
  let ?rt = "\<lparr>rt_registry = fst (insert_handle (HString ''Hi!'') reg_init), pending_exception = None\<rparr> :: nat runtime"
  obtain rt1 e where enc: "ntsc_encoding_hex_encode 1 ?rt = (rt1, e)" by fastforce
  obtain rt2 d where dec: "ntsc_encoding_hex_decode e rt1 = (rt2, d)" by fastforce
  have "reg_inv (rt_registry ?rt)" by (simp add: insert_handle_inv reg_inv_init)
  moreover have "get_string 1 (rt_registry ?rt) = Some ''Hi!''"
    by (simp add: get_string_def NULL_def reg_init_def [THEN arg_cong [of _ _ next_id_ctr]])
  moreover have "utf8_valid ''Hi!''" by (simp add: utf8_valid_ascii)
  ultimately show ?thesis using hex_roundtrip [OF _ _ _ enc dec] enc dec by blast
qed

end
