(* ===== verification/Std_Json.thy ===== *)
theory Std_Json
  imports Std_Encoding
begin

text \<open>
  The \<open>json\<close> module of the standard library (\<open>ntsc-runtime/src/modules/json.rs\<close>): the recursive
  descent \<open>JsonParser\<close>, the textual look-ups, the pretty printer and the escaping of a string.

  The parser is its input and a byte position. A call returns an error message, or the compact
  text with the position after it. Nested values are parsed with fuel: \<open>None\<close> is running out of
  it, and \<open>json_parse_text\<close> supplies an amount that is shown to be enough. Iteration over
  characters is iteration over bytes, since every character the loops look for is ASCII.
\<close>

section \<open>Scanning\<close>

type_synonym json_result = "string + string \<times> nat"

definition jpeek :: "string \<Rightarrow> nat \<Rightarrow> char option" where
  "jpeek inp p = (if p < length inp then Some (inp ! p) else None)"

definition is_ascii_whitespace :: "char \<Rightarrow> bool" where
  "is_ascii_whitespace c \<longleftrightarrow> c \<in> {CHR 0x20, CHR 0x09, CHR 0x0A, CHR 0x0C, CHR 0x0D}"

function skip_whitespace :: "string \<Rightarrow> nat \<Rightarrow> nat" where
  "skip_whitespace inp p =
     (if p < length inp \<and> is_ascii_whitespace (inp ! p) then skip_whitespace inp (p + 1) else p)"
  by pat_completeness auto
termination
  by (relation "measure (\<lambda>(inp, p). length inp - p)") auto

declare skip_whitespace.simps [simp del]

definition json_expect :: "char \<Rightarrow> string \<Rightarrow> nat \<Rightarrow> string + nat" where
  "json_expect c inp p =
     (if jpeek inp p = Some c then Inr (p + 1) else Inl (''Expected '' @ [CHR 0x27, c, CHR 0x27]))"

text \<open>The UTF-8 encoding of \<open>byte as char\<close>, the code point with the value of the byte.\<close>

definition byte_as_char :: "char \<Rightarrow> string" where
  "byte_as_char c =
     (if of_char c < (128 :: nat) then [c]
      else [char_of (192 + of_char c div 64 :: nat), char_of (128 + of_char c mod 64 :: nat)])"

definition unescape_byte :: "char \<Rightarrow> string" where
  "unescape_byte e =
     (if e = CHR ''b'' then [CHR 0x08] else if e = CHR ''f'' then [CHR 0x0C] else if e = CHR ''n'' then [CHR 0x0A]
      else if e = CHR ''r'' then [CHR 0x0D] else if e = CHR ''t'' then [CHR 0x09] else byte_as_char e)"

definition json_quoted :: "string \<Rightarrow> string" where
  "json_quoted s = CHR 0x22 # s @ [CHR 0x22]"

function string_loop :: "string \<Rightarrow> nat \<Rightarrow> string \<Rightarrow> json_result" where
  "string_loop inp p result =
     (if length inp \<le> p then Inl ''Unterminated string''
      else if inp ! p = CHR 0x22 then Inr (json_quoted result, p + 1)
      else if inp ! p = CHR 0x5C then
        (if length inp \<le> p + 1 then Inl ''Unexpected end in string escape''
         else if inp ! (p + 1) = CHR ''u''
         then string_loop inp (min (p + 6) (length inp)) (result @ ''?'')
         else string_loop inp (p + 2) (result @ unescape_byte (inp ! (p + 1))))
      else string_loop inp (p + 1) (result @ byte_as_char (inp ! p)))"
  by pat_completeness auto
termination
  by (relation "measure (\<lambda>(inp, p, result). length inp - p)") auto

declare string_loop.simps [simp del]

definition parse_string :: "string \<Rightarrow> nat \<Rightarrow> json_result" where
  "parse_string inp p = (case json_expect (CHR 0x22) inp p of Inl e \<Rightarrow> Inl e | Inr p1 \<Rightarrow> string_loop inp p1 [])"

definition json_digit :: "char \<Rightarrow> bool" where
  "json_digit c \<longleftrightarrow> 48 \<le> (of_char c :: nat) \<and> (of_char c :: nat) \<le> 57"

function number_loop :: "string \<Rightarrow> nat \<Rightarrow> nat \<Rightarrow> nat" where
  "number_loop inp start p =
     (if p < length inp \<and> (json_digit (inp ! p) \<or> inp ! p \<in> {CHR ''.'', CHR ''e'', CHR ''E'', CHR ''+'', CHR ''-''}) \<and>
         \<not> (inp ! p \<in> {CHR ''+'', CHR ''-''} \<and>
            (p = start \<or> 0 < p \<and> inp ! (p - 1) \<noteq> CHR ''e'' \<and> inp ! (p - 1) \<noteq> CHR ''E''))
      then number_loop inp start (p + 1) else p)"
  by pat_completeness auto
termination
  by (relation "measure (\<lambda>(inp, start, p). length inp - p)") auto

declare number_loop.simps [simp del]

definition parse_number :: "string \<Rightarrow> nat \<Rightarrow> json_result" where
  "parse_number inp start =
     (let p = number_loop inp start (if jpeek inp start = Some (CHR ''-'') then start + 1 else start)
      in Inr (take (p - start) (drop start inp), p))"

definition starts_at :: "string \<Rightarrow> string \<Rightarrow> nat \<Rightarrow> bool" where
  "starts_at w inp p \<longleftrightarrow> take (length w) (drop p inp) = w"

definition parse_bool :: "string \<Rightarrow> nat \<Rightarrow> json_result" where
  "parse_bool inp p =
     (if starts_at ''true'' inp p then Inr (''true'', p + 4)
      else if starts_at ''false'' inp p then Inr (''false'', p + 5)
      else Inl ''Expected boolean'')"

definition parse_null :: "string \<Rightarrow> nat \<Rightarrow> json_result" where
  "parse_null inp p = (if starts_at ''null'' inp p then Inr (''null'', p + 4) else Inl ''Expected null'')"

section \<open>Values\<close>

definition join_strs :: "string \<Rightarrow> string list \<Rightarrow> string" where
  "join_strs sep xs = (case xs of [] \<Rightarrow> [] | y # ys \<Rightarrow> y @ concat (map (\<lambda>z. sep @ z) ys))"

definition array_expected :: string where
  "array_expected = ''Expected '' @ [CHR 0x27, CHR '','', CHR 0x27] @ '' or '' @ [CHR 0x27, CHR 0x5D, CHR 0x27] @ '' in array''"

definition object_expected :: string where
  "object_expected = ''Expected '' @ [CHR 0x27, CHR '','', CHR 0x27] @ '' or '' @ [CHR 0x27, CHR 0x7D, CHR 0x27] @ '' in object''"

text \<open>The bodies of \<open>parse_array\<close> and \<open>parse_object\<close>, given the parser \<open>pv\<close> of a nested value and
  fuel for their own loop.\<close>

primrec array_loop :: "(nat \<Rightarrow> json_result option) \<Rightarrow> nat \<Rightarrow> string \<Rightarrow> nat \<Rightarrow> string list \<Rightarrow> json_result option" where
  "array_loop pv 0 inp p elems = None"
| "array_loop pv (Suc n) inp p elems =
     (case pv p of
        None \<Rightarrow> None
      | Some (Inl e) \<Rightarrow> Some (Inl e)
      | Some (Inr (v, p1)) \<Rightarrow>
          (let p2 = skip_whitespace inp p1; elems1 = elems @ [v]
           in if jpeek inp p2 = Some (CHR 0x5D)
              then Some (Inr (''['' @ join_strs '','' elems1 @ '']'', p2 + 1))
              else if jpeek inp p2 = Some (CHR '','')
              then array_loop pv n inp (skip_whitespace inp (p2 + 1)) elems1
              else Some (Inl array_expected)))"

definition parse_array :: "(nat \<Rightarrow> json_result option) \<Rightarrow> nat \<Rightarrow> string \<Rightarrow> nat \<Rightarrow> json_result option" where
  "parse_array pv n inp p =
     (case json_expect (CHR 0x5B) inp p of
        Inl e \<Rightarrow> Some (Inl e)
      | Inr p1 \<Rightarrow>
          (let p2 = skip_whitespace inp p1
           in if jpeek inp p2 = Some (CHR 0x5D) then Some (Inr (''[]'', p2 + 1))
              else array_loop pv n inp p2 []))"

primrec object_loop :: "(nat \<Rightarrow> json_result option) \<Rightarrow> nat \<Rightarrow> string \<Rightarrow> nat \<Rightarrow> string list \<Rightarrow> json_result option" where
  "object_loop pv 0 inp p pairs = None"
| "object_loop pv (Suc n) inp p pairs =
     (case parse_string inp p of
        Inl e \<Rightarrow> Some (Inl e)
      | Inr (key, p1) \<Rightarrow>
          (case json_expect (CHR '':'') inp (skip_whitespace inp p1) of
             Inl e \<Rightarrow> Some (Inl e)
           | Inr p2 \<Rightarrow>
               (case pv (skip_whitespace inp p2) of
                  None \<Rightarrow> None
                | Some (Inl e) \<Rightarrow> Some (Inl e)
                | Some (Inr (v, p3)) \<Rightarrow>
                    (let p4 = skip_whitespace inp p3; pairs1 = pairs @ [key @ '':'' @ v]
                     in if jpeek inp p4 = Some (CHR 0x7D)
                        then Some (Inr (''{'' @ join_strs '','' pairs1 @ ''}'', p4 + 1))
                        else if jpeek inp p4 = Some (CHR '','')
                        then object_loop pv n inp (skip_whitespace inp (p4 + 1)) pairs1
                        else Some (Inl object_expected)))))"

definition parse_object :: "(nat \<Rightarrow> json_result option) \<Rightarrow> nat \<Rightarrow> string \<Rightarrow> nat \<Rightarrow> json_result option" where
  "parse_object pv n inp p =
     (case json_expect (CHR 0x7B) inp p of
        Inl e \<Rightarrow> Some (Inl e)
      | Inr p1 \<Rightarrow>
          (let p2 = skip_whitespace inp p1
           in if jpeek inp p2 = Some (CHR 0x7D) then Some (Inr (''{}'', p2 + 1))
              else object_loop pv n inp p2 []))"

primrec parse_value :: "nat \<Rightarrow> string \<Rightarrow> nat \<Rightarrow> json_result option" where
  "parse_value 0 inp p0 = None"
| "parse_value (Suc n) inp p0 =
     (let p = skip_whitespace inp p0
      in case jpeek inp p of
           None \<Rightarrow> Some (Inl ''Unexpected end of JSON'')
         | Some c \<Rightarrow>
             if c = CHR 0x22 then Some (parse_string inp p)
             else if c = CHR 0x7B then parse_object (parse_value n inp) n inp p
             else if c = CHR 0x5B then parse_array (parse_value n inp) n inp p
             else if c = CHR ''t'' \<or> c = CHR ''f'' then Some (parse_bool inp p)
             else if c = CHR ''n'' then Some (parse_null inp p)
             else if c = CHR ''-'' \<or> json_digit c then Some (parse_number inp p)
             else Some (Inl (''Unexpected character: '' @ byte_as_char c)))"

text \<open>\<open>JsonParser::new(text).parse_value()\<close>.\<close>

definition json_parse_text :: "string \<Rightarrow> json_result option" where
  "json_parse_text inp = parse_value (length inp + 1) inp 0"

section \<open>Entry points\<close>

definition ntsc_json_parse :: "i64 \<Rightarrow> 'o runtime \<Rightarrow> ('o runtime \<times> i64) option" where
  "ntsc_json_parse h rt =
     (case json_parse_text (get_or_default h rt) of
        None \<Rightarrow> None
      | Some (Inr (result, _)) \<Rightarrow> Some (on_registry (put_string result) rt)
      | Some (Inl e) \<Rightarrow> Some (throw_str (''json.parse: JSON parse error: '' @ e) rt))"

definition ntsc_json_stringify :: "i64 \<Rightarrow> 'o runtime \<Rightarrow> 'o runtime \<times> i64" where
  "ntsc_json_stringify h rt = on_registry (put_string (get_or_default h rt)) rt"

definition ntsc_json_is_valid :: "i64 \<Rightarrow> 'o runtime \<Rightarrow> int option" where
  "ntsc_json_is_valid h rt =
     (case json_parse_text (get_or_default h rt) of
        None \<Rightarrow> None | Some (Inr _) \<Rightarrow> Some 1 | Some (Inl _) \<Rightarrow> Some 0)"

text \<open>\<open>str::find\<close> of a pattern: the first byte offset where it occurs.\<close>

fun str_find :: "string \<Rightarrow> string \<Rightarrow> nat option" where
  "str_find pat s =
     (if take (length pat) s = pat then Some 0
      else (case s of [] \<Rightarrow> None | c # cs \<Rightarrow> map_option Suc (str_find pat cs)))"

declare str_find.simps [simp del]

definition json_get_text :: "string \<Rightarrow> string \<Rightarrow> string option" where
  "json_get_text json key =
     (let pat = json_quoted key @ '':''
      in case str_find pat json of
           None \<Rightarrow> Some ''null''
         | Some pos \<Rightarrow>
             (case json_parse_text (drop (pos + length pat) json) of
                None \<Rightarrow> None
              | Some (Inr (val, _)) \<Rightarrow> Some val
              | Some (Inl _) \<Rightarrow> Some ''null''))"

definition ntsc_json_get :: "i64 \<Rightarrow> i64 \<Rightarrow> 'o runtime \<Rightarrow> ('o runtime \<times> i64) option" where
  "ntsc_json_get j k rt =
     map_option (\<lambda>v. on_registry (put_string v) rt) (json_get_text (get_or_default j rt) (get_or_default k rt))"

definition ntsc_json_has :: "i64 \<Rightarrow> i64 \<Rightarrow> 'o runtime \<Rightarrow> int" where
  "ntsc_json_has j k rt =
     (if str_find (json_quoted (get_or_default k rt) @ '':'') (get_or_default j rt) \<noteq> None then 1 else 0)"

function keys_loop :: "string \<Rightarrow> string list" where
  "keys_loop rest =
     (if CHR 0x22 \<in> set rest
      then (let tail = tl (dropWhile (\<lambda>c. c \<noteq> CHR 0x22) rest)
            in if CHR 0x22 \<in> set tail
               then (let key = takeWhile (\<lambda>c. c \<noteq> CHR 0x22) tail;
                         after = tl (dropWhile (\<lambda>c. c \<noteq> CHR 0x22) tail)
                     in if after \<noteq> [] \<and> hd after = CHR '':'' then key # keys_loop (tl after) else keys_loop after)
               else [])
      else [])"
  by pat_completeness auto
termination
proof (relation "measure length")
  have shorter: "length (tl (dropWhile P xs)) < length xs" if "xs \<noteq> []" for P :: "char \<Rightarrow> bool" and xs
  proof -
    have "length (dropWhile P xs) \<le> length xs" "0 < length xs" using length_dropWhile_le that by auto
    then show ?thesis unfolding length_tl by linarith
  qed
  fix rest tail after :: string
  assume a: "CHR 0x22 \<in> set rest" "tail = tl (dropWhile (\<lambda>c. c \<noteq> CHR 0x22) rest)" "CHR 0x22 \<in> set tail"
    "after = tl (dropWhile (\<lambda>c. c \<noteq> CHR 0x22) tail)"
  then have "rest \<noteq> []" "tail \<noteq> []" by auto
  then have "length after < length tail" "length tail < length rest"
    unfolding a(4) using a(2) shorter by blast+
  then show "(tl after, rest) \<in> measure length" "(after, rest) \<in> measure length" by auto
qed simp

declare keys_loop.simps [simp del]

definition ntsc_json_keys :: "i64 \<Rightarrow> 'o runtime \<Rightarrow> 'o runtime \<times> i64" where
  "ntsc_json_keys j rt = on_registry (put_string (join_strs '','' (keys_loop (get_or_default j rt)))) rt"

definition json_indent :: "int \<Rightarrow> string" where
  "json_indent n = concat (replicate (nat n) ''  '')"

fun pretty_loop :: "bool \<Rightarrow> int \<Rightarrow> string \<Rightarrow> string" where
  "pretty_loop in_string indent [] = []"
| "pretty_loop in_string indent (ch # cs) =
     (if ch = CHR 0x22 then ch # pretty_loop (\<not> in_string) indent cs
      else if in_string then ch # pretty_loop in_string indent cs
      else if ch = CHR 0x7B \<or> ch = CHR 0x5B
      then ch # CHR 0x0A # json_indent (indent + 1) @ pretty_loop in_string (indent + 1) cs
      else if ch = CHR 0x7D \<or> ch = CHR 0x5D
      then CHR 0x0A # json_indent (indent - 1) @ ch # pretty_loop in_string (indent - 1) cs
      else if ch = CHR '','' then ch # CHR 0x0A # json_indent indent @ pretty_loop in_string indent cs
      else if ch = CHR '':'' then CHR '':'' # CHR 0x20 # pretty_loop in_string indent cs
      else if ch = CHR 0x20 then pretty_loop in_string indent cs
      else ch # pretty_loop in_string indent cs)"

definition ntsc_json_stringify_pretty :: "i64 \<Rightarrow> 'o runtime \<Rightarrow> 'o runtime \<times> i64" where
  "ntsc_json_stringify_pretty j rt = on_registry (put_string (pretty_loop False 0 (get_or_default j rt))) rt"

definition escape_byte :: "char \<Rightarrow> string" where
  "escape_byte c =
     (if c = CHR 0x22 then [CHR 0x5C, CHR 0x22] else if c = CHR 0x5C then [CHR 0x5C, CHR 0x5C]
      else if c = CHR 0x0A then [CHR 0x5C, CHR ''n''] else if c = CHR 0x0D then [CHR 0x5C, CHR ''r'']
      else if c = CHR 0x09 then [CHR 0x5C, CHR ''t''] else if c = CHR 0x08 then [CHR 0x5C, CHR ''b'']
      else if c = CHR 0x0C then [CHR 0x5C, CHR ''f''] else [c])"

definition escape_text :: "string \<Rightarrow> string" where
  "escape_text s = json_quoted (concat (map escape_byte s))"

definition ntsc_json_escape_string :: "i64 \<Rightarrow> 'o runtime \<Rightarrow> 'o runtime \<times> i64" where
  "ntsc_json_escape_string h rt = on_registry (put_string (escape_text (get_or_default h rt))) rt"


section \<open>The parser advances\<close>

lemma skip_whitespace_bounds: "p \<le> skip_whitespace inp p \<and> (p \<le> length inp \<longrightarrow> skip_whitespace inp p \<le> length inp)"
proof (induction inp p rule: skip_whitespace.induct)
  case (1 inp p)
  then show ?case
    by (cases "p < length inp \<and> is_ascii_whitespace (inp ! p)") (auto simp: skip_whitespace.simps [of inp p])
qed

lemmas skip_le = skip_whitespace_bounds [THEN conjunct1] and skip_len = skip_whitespace_bounds [THEN conjunct2, rule_format]

lemma jpeek_Some: "jpeek inp p = Some c \<longleftrightarrow> p < length inp \<and> inp ! p = c"
  by (auto simp: jpeek_def)

lemma json_expect_Inr: "json_expect c inp p = Inr q \<longleftrightarrow> jpeek inp p = Some c \<and> q = p + 1"
  by (auto simp: json_expect_def)

lemma string_loop_bounds: "string_loop inp p acc = Inr (v, q) \<Longrightarrow> p < q \<and> q \<le> length inp"
proof (induction inp p acc rule: string_loop.induct)
  case (1 inp p acc)
  from 1(4) have c: "p < length inp" by (subst (asm) string_loop.simps) (auto split: if_splits)
  consider "inp ! p = CHR 0x22" | "inp ! p = CHR 0x5C" "p + 1 < length inp" "inp ! (p + 1) = CHR ''u''"
    | "inp ! p = CHR 0x5C" "p + 1 < length inp" "inp ! (p + 1) \<noteq> CHR ''u''"
    | "inp ! p \<noteq> CHR 0x22" "inp ! p \<noteq> CHR 0x5C"
    using 1(4) c by (subst (asm) string_loop.simps) (auto split: if_splits)
  then show ?case
  proof cases
    case 1
    with "1.prems" c show ?thesis by (subst (asm) string_loop.simps) auto
  next
    case 2
    with "1.prems" "1.IH"(1) c show ?thesis by (subst (asm) string_loop.simps) fastforce
  next
    case 3
    with "1.prems" "1.IH"(2) c show ?thesis by (subst (asm) string_loop.simps) fastforce
  next
    case 4
    with "1.prems" "1.IH"(3) c show ?thesis by (subst (asm) string_loop.simps) fastforce
  qed
qed

lemma parse_string_bounds: "parse_string inp p = Inr (v, q) \<Longrightarrow> p < q \<and> q \<le> length inp"
  by (auto simp: parse_string_def json_expect_Inr jpeek_Some split: sum.splits dest!: string_loop_bounds)

lemma number_loop_bounds: "p \<le> number_loop inp start p \<and> (p \<le> length inp \<longrightarrow> number_loop inp start p \<le> length inp)"
proof (induction inp start p rule: number_loop.induct)
  case (1 inp start p)
  let ?c = "p < length inp \<and> (json_digit (inp ! p) \<or> inp ! p \<in> {CHR ''.'', CHR ''e'', CHR ''E'', CHR ''+'', CHR ''-''}) \<and>
         \<not> (inp ! p \<in> {CHR ''+'', CHR ''-''} \<and>
            (p = start \<or> 0 < p \<and> inp ! (p - 1) \<noteq> CHR ''e'' \<and> inp ! (p - 1) \<noteq> CHR ''E''))"
  have eq: "number_loop inp start p = (if ?c then number_loop inp start (p + 1) else p)"
    by (rule number_loop.simps)
  show ?case
  proof (cases ?c)
    case True
    with 1 [OF True] show ?thesis unfolding eq by simp
  next
    case False
    then show ?thesis unfolding eq by (simp only: if_False) simp
  qed
qed

lemma starts_at_bounds: "starts_at w inp p \<Longrightarrow> w \<noteq> [] \<Longrightarrow> p + length w \<le> length inp"
  by (cases "p \<le> length inp") (auto simp: starts_at_def min_def dest!: arg_cong [of _ _ length] split: if_splits)


lemma parse_number_bounds:
  assumes "parse_number inp p = Inr (v, q)" "p < length inp" "inp ! p = CHR ''-'' \<or> json_digit (inp ! p)"
  shows "p < q \<and> q \<le> length inp"
proof -
  have digit: "number_loop inp p p = number_loop inp p (p + 1)" if "json_digit (inp ! p)"
  proof -
    have "inp ! p \<notin> {CHR ''+'', CHR ''-''}" using that by (auto simp: json_digit_def)
    with that assms(2) show ?thesis by (subst number_loop.simps) simp
  qed
  have "q = number_loop inp p (p + 1)"
    using assms digit by (auto simp: parse_number_def jpeek_def Let_def split: if_splits)
  with number_loop_bounds [of "p + 1" inp p] assms(2) show ?thesis by simp
qed

lemma parse_word_bounds:
  "parse_bool inp p = Inr (v, q) \<Longrightarrow> p < q \<and> q \<le> length inp"
  "parse_null inp p = Inr (v, q) \<Longrightarrow> p < q \<and> q \<le> length inp"
  using starts_at_bounds [of "''true''" inp p] starts_at_bounds [of "''false''" inp p] starts_at_bounds [of "''null''" inp p]
  by (auto simp: parse_bool_def parse_null_def split: if_splits)

definition advances :: "string \<Rightarrow> (nat \<Rightarrow> json_result option) \<Rightarrow> bool" where
  "advances inp pv \<longleftrightarrow> (\<forall>p v q. pv p = Some (Inr (v, q)) \<longrightarrow> p < q \<and> q \<le> length inp)"

lemma skip_next:
  assumes "p < q" "q \<le> length inp" "jpeek inp (skip_whitespace inp q) = Some c"
  shows "p < skip_whitespace inp (Suc (skip_whitespace inp q))" "skip_whitespace inp (Suc (skip_whitespace inp q)) \<le> length inp"
    "p < Suc (skip_whitespace inp q)" "Suc (skip_whitespace inp q) \<le> length inp"
  using assms skip_le [of q inp] skip_le [of "Suc (skip_whitespace inp q)" inp] skip_len [of "Suc (skip_whitespace inp q)" inp]
  by (auto simp: jpeek_Some)

lemma array_loop_bounds:
  assumes "advances inp pv"
  shows "array_loop pv n inp p es = Some (Inr (v, q)) \<Longrightarrow> p < q \<and> q \<le> length inp"
proof (induction n arbitrary: p es)
  case (Suc n)
  then obtain x p1 where x: "pv p = Some (Inr (x, p1))" by (auto split: option.splits sum.splits)
  with assms have p1: "p < p1" "p1 \<le> length inp" by (auto simp: advances_def)
  from Suc.prems x skip_next [OF p1] Suc.IH [of "skip_whitespace inp (Suc (skip_whitespace inp p1))" "es @ [x]"]
  show ?case by (auto simp: Let_def split: if_splits)
qed simp

lemma object_loop_bounds:
  assumes "advances inp pv"
  shows "object_loop pv n inp p ps = Some (Inr (v, q)) \<Longrightarrow> p < q \<and> q \<le> length inp"
proof (induction n arbitrary: p ps)
  case (Suc n)
  from Suc.prems obtain key p1 p2 x p3 where k: "parse_string inp p = Inr (key, p1)"
    and p2: "json_expect (CHR '':'') inp (skip_whitespace inp p1) = Inr p2"
    and x: "pv (skip_whitespace inp p2) = Some (Inr (x, p3))"
    by (auto split: option.splits sum.splits)
  have "p < p1" "p1 \<le> length inp" using parse_string_bounds [OF k] by auto
  then have "p < p2" using skip_le [of p1 inp] p2 by (auto simp: json_expect_Inr)
  moreover have "skip_whitespace inp p2 < p3" "p3 \<le> length inp" using x assms by (auto simp: advances_def)
  ultimately have p3: "p < p3" "p3 \<le> length inp" using skip_le [of p2 inp] by auto
  from Suc.prems k p2 x skip_next [OF p3]
    Suc.IH [of "skip_whitespace inp (Suc (skip_whitespace inp p3))" "ps @ [key @ '':'' @ x]"]
  show ?case by (auto simp: Let_def split: if_splits)
qed simp

lemma parse_array_bounds:
  assumes "advances inp pv" "parse_array pv n inp p = Some (Inr (v, q))"
  shows "p < q \<and> q \<le> length inp"
  using assms(2) skip_le [of "Suc p" inp] array_loop_bounds [OF assms(1), of n "skip_whitespace inp (Suc p)" "[]"]
  by (auto simp: parse_array_def json_expect_Inr jpeek_Some Let_def split: sum.splits if_splits)

lemma parse_object_bounds:
  assumes "advances inp pv" "parse_object pv n inp p = Some (Inr (v, q))"
  shows "p < q \<and> q \<le> length inp"
  using assms(2) skip_le [of "Suc p" inp] object_loop_bounds [OF assms(1), of n "skip_whitespace inp (Suc p)" "[]"]
  by (auto simp: parse_object_def json_expect_Inr jpeek_Some Let_def split: sum.splits if_splits)

lemma parse_value_advances: "advances inp (parse_value n inp)"
proof (induction n)
  case (Suc n)
  show ?case
    unfolding advances_def
  proof (intro allI impI)
    fix p0 v q assume v: "parse_value (Suc n) inp p0 = Some (Inr (v, q))"
    define p where "p = skip_whitespace inp p0"
    obtain c where c: "p < length inp" "inp ! p = c"
      using v by (auto simp: p_def [symmetric] jpeek_def Let_def split: if_splits)
    note v = v [unfolded parse_value.simps Let_def p_def [symmetric], unfolded jpeek_def, simplified c, simplified]
    have "p < q \<and> q \<le> length inp"
      using v c parse_string_bounds [of inp p v q] parse_object_bounds [OF Suc, of n p v q] parse_array_bounds [OF Suc, of n p v q]
        parse_word_bounds [of inp p v q] parse_number_bounds [of inp p v q]
      by (auto split: if_splits)
    moreover have "p0 \<le> p" by (simp add: p_def skip_le)
    ultimately show "p0 < q \<and> q \<le> length inp" by simp
  qed
qed (simp add: advances_def)

section \<open>The parser returns\<close>

lemma array_loop_returns:
  assumes adv: "advances inp pv" and ret: "\<And>p'. lo \<le> p' \<Longrightarrow> pv p' \<noteq> None"
  shows "lo \<le> p \<Longrightarrow> length inp - p < n \<Longrightarrow> array_loop pv n inp p es \<noteq> None"
proof (induction n arbitrary: p es)
  case (Suc n)
  show ?case
  proof (cases "\<exists>x p1. pv p = Some (Inr (x, p1))")
    case True
    then obtain x p1 where x: "pv p = Some (Inr (x, p1))" by blast
    with adv have p1: "p < p1" "p1 \<le> length inp" by (auto simp: advances_def)
    from x skip_next [OF p1] Suc.prems Suc.IH [of "skip_whitespace inp (Suc (skip_whitespace inp p1))" "es @ [x]"]
    show ?thesis by (auto simp: Let_def)
  next
    case False
    with ret [OF Suc.prems(1)] show ?thesis by (auto split: sum.splits)
  qed
qed simp

lemma object_loop_returns:
  assumes adv: "advances inp pv" and ret: "\<And>p'. lo \<le> p' \<Longrightarrow> pv p' \<noteq> None"
  shows "lo \<le> p \<Longrightarrow> length inp - p < n \<Longrightarrow> object_loop pv n inp p ps \<noteq> None"
proof (induction n arbitrary: p ps)
  case (Suc n)
  show ?case
  proof (cases "\<exists>key p1 p2. parse_string inp p = Inr (key, p1) \<and> json_expect (CHR '':'') inp (skip_whitespace inp p1) = Inr p2")
    case True
    then obtain key p1 p2 where k: "parse_string inp p = Inr (key, p1)"
      and p2: "json_expect (CHR '':'') inp (skip_whitespace inp p1) = Inr p2" by blast
    have "p < p1" using parse_string_bounds [OF k] by simp
    then have pv: "p < skip_whitespace inp p2"
      using p2 skip_le [of p1 inp] skip_le [of p2 inp] by (auto simp: json_expect_Inr)
    show ?thesis
    proof (cases "\<exists>x p3. pv (skip_whitespace inp p2) = Some (Inr (x, p3))")
      case True
      then obtain x p3 where x: "pv (skip_whitespace inp p2) = Some (Inr (x, p3))" by blast
      with adv pv have p3: "p < p3" "p3 \<le> length inp" by (force simp: advances_def)+
      from k p2 x skip_next [OF p3] Suc.prems
        Suc.IH [of "skip_whitespace inp (Suc (skip_whitespace inp p3))" "ps @ [key @ '':'' @ x]"]
      show ?thesis by (auto simp: Let_def)
    next
      case False
      with k p2 pv ret [of "skip_whitespace inp p2"] Suc.prems(1) show ?thesis by (auto split: sum.splits)
    qed
  next
    case False
    then show ?thesis by (auto split: sum.splits)
  qed
qed simp

lemma parse_value_returns: "length inp - p0 < n \<Longrightarrow> parse_value n inp p0 \<noteq> None"
proof (induction n arbitrary: p0)
  case (Suc n)
  define p where "p = skip_whitespace inp p0"
  have p: "p0 \<le> p" by (simp add: p_def skip_le)
  let ?q = "skip_whitespace inp (Suc p)"
  have nested: "array_loop (parse_value n inp) n inp ?q [] \<noteq> None" "object_loop (parse_value n inp) n inp ?q [] \<noteq> None"
    if "p < length inp"
  proof -
    have ret: "parse_value n inp p' \<noteq> None" if "Suc p \<le> p'" for p'
      using Suc.prems p \<open>p < length inp\<close> that by (intro Suc.IH) linarith
    have q: "Suc p \<le> ?q" "length inp - ?q < n" using skip_le [of "Suc p" inp] Suc.prems p that by auto
    show "array_loop (parse_value n inp) n inp ?q [] \<noteq> None"
      by (rule array_loop_returns [OF parse_value_advances ret q])
    show "object_loop (parse_value n inp) n inp ?q [] \<noteq> None"
      by (rule object_loop_returns [OF parse_value_advances ret q])
  qed
  then show ?case
    by (auto simp: p_def [symmetric] Let_def parse_array_def parse_object_def json_expect_def jpeek_def split: option.splits)
qed simp

text \<open>The fuel is enough for every input.\<close>

lemma json_parse_text_returns: "\<exists>x. json_parse_text inp = Some x"
  using parse_value_returns [of inp 0 "length inp + 1"] by (simp add: json_parse_text_def del: parse_value.simps)


section \<open>Escaping and parsing a string\<close>

lemma escape_byte_cases:
  "escape_byte c = [c] \<and> c \<noteq> CHR 0x22 \<and> c \<noteq> CHR 0x5C \<or>
   (\<exists>e. escape_byte c = [CHR 0x5C, e] \<and> e \<noteq> CHR ''u'' \<and> unescape_byte e = byte_as_char c)"
  by (auto simp: escape_byte_def unescape_byte_def byte_as_char_def)

lemma string_loop_escaped:
  "string_loop (pre @ concat (map escape_byte s) @ CHR 0x22 # post) (length pre) acc =
     Inr (json_quoted (acc @ concat (map byte_as_char s)), length pre + length (concat (map escape_byte s)) + 1)"
proof (induction s arbitrary: pre acc)
  case Nil
  then show ?case by (subst string_loop.simps) simp
next
  case (Cons c s)
  let ?rest = "concat (map escape_byte s) @ CHR 0x22 # post"
  from escape_byte_cases [of c] show ?case
  proof (elim disjE exE conjE)
    assume c: "escape_byte c = [c]" "c \<noteq> CHR 0x22" "c \<noteq> CHR 0x5C"
    then have "string_loop (pre @ c # ?rest) (length pre) acc = string_loop (pre @ c # ?rest) (length pre + 1) (acc @ byte_as_char c)"
      by (subst string_loop.simps) simp
    with Cons [of "pre @ [c]" "acc @ byte_as_char c"] c show ?thesis by simp
  next
    fix e assume e: "escape_byte c = [CHR 0x5C, e]" "e \<noteq> CHR ''u''" "unescape_byte e = byte_as_char c"
    then have "string_loop (pre @ CHR 0x5C # e # ?rest) (length pre) acc =
        string_loop (pre @ CHR 0x5C # e # ?rest) (length pre + 2) (acc @ byte_as_char c)"
      by (subst string_loop.simps) (simp add: nth_append)
    with Cons [of "pre @ [CHR 0x5C, e]" "acc @ byte_as_char c"] e show ?thesis by simp
  qed
qed

lemma parse_escaped:
  "json_parse_text (escape_text s) = Some (Inr (json_quoted (concat (map byte_as_char s)), length (escape_text s)))"
proof -
  have "skip_whitespace (CHR 0x22 # t) 0 = 0" for t
    by (subst skip_whitespace.simps) (simp add: is_ascii_whitespace_def)
  moreover have "string_loop (escape_text s) 1 [] = Inr (json_quoted (concat (map byte_as_char s)), length (escape_text s))"
    using string_loop_escaped [of "[CHR 0x22]" s "[]" "[]"] by (simp add: escape_text_def json_quoted_def)
  ultimately show ?thesis
    by (simp add: json_parse_text_def escape_text_def json_quoted_def jpeek_def parse_string_def json_expect_def Let_def)
qed

lemma byte_as_char_ascii: "\<forall>c \<in> set s. of_char c < (128 :: nat) \<Longrightarrow> concat (map byte_as_char s) = s"
  by (induction s) (simp_all add: byte_as_char_def)

section \<open>Pretty printing\<close>

text \<open>The text without the blanks and line breaks that stand outside quotes.\<close>

fun strip_layout :: "bool \<Rightarrow> string \<Rightarrow> string" where
  "strip_layout in_string [] = []"
| "strip_layout in_string (ch # cs) =
     (if ch = CHR 0x22 then ch # strip_layout (\<not> in_string) cs
      else if \<not> in_string \<and> (ch = CHR 0x20 \<or> ch = CHR 0x0A) then strip_layout in_string cs
      else ch # strip_layout in_string cs)"

lemma strip_indent: "strip_layout False (json_indent n @ t) = strip_layout False t"
proof -
  have "strip_layout False (concat (replicate k ''  '') @ t) = strip_layout False t" for k
    by (induction k) simp_all
  then show ?thesis by (simp add: json_indent_def)
qed

section \<open>Properties\<close>

text \<open>C28: \<open>json.parse\<close> terminates on every text: it either registers a result or throws.\<close>

theorem json_parse_returns:
  "\<exists>x. json_parse_text (get_or_default h rt) = Some x \<and>
     ntsc_json_parse h rt = Some (case x of Inr (result, _) \<Rightarrow> on_registry (put_string result) rt
       | Inl e \<Rightarrow> throw_str (''json.parse: JSON parse error: '' @ e) rt)"
  using json_parse_text_returns [of "get_or_default h rt"]
  by (auto simp: ntsc_json_parse_def split: sum.splits)

text \<open>C29: Escaping a string and parsing the literal gives the quoted text back, without throwing: each
  byte of it read as a code point, hence exactly the text when it is ASCII.\<close>

theorem json_escape_parse:
  assumes inv: "reg_inv (rt_registry rt)" and s: "get_string h (rt_registry rt) = Some s"
    and esc: "ntsc_json_escape_string h rt = (rt1, e)"
  shows "\<exists>rt2 d. ntsc_json_parse e rt1 = Some (rt2, d) \<and> pending_exception rt2 = pending_exception rt \<and>
    get_string d (rt_registry rt2) = Some (json_quoted (concat (map byte_as_char s))) \<and>
    ((\<forall>c \<in> set s. of_char c < (128 :: nat)) \<longrightarrow> get_string d (rt_registry rt2) = Some (json_quoted s))"
proof -
  let ?t = "json_quoted (concat (map byte_as_char s))"
  obtain r1 where r1: "put_string (escape_text s) (rt_registry rt) = (r1, e)" "rt1 = rt\<lparr>rt_registry := r1\<rparr>"
    using esc s by (auto simp: ntsc_json_escape_string_def get_or_default_def on_registry_def split: prod.splits)
  note p1 = put_string_get [OF inv r1(1)]
  obtain r2 d where r2: "put_string ?t r1 = (r2, d)" by fastforce
  have "ntsc_json_parse e rt1 = Some (rt1\<lparr>rt_registry := r2\<rparr>, d)"
    using p1(1) r2 by (simp add: ntsc_json_parse_def get_or_default_def r1(2) parse_escaped on_registry_def)
  with put_string_get(1) [OF p1(2) r2] show ?thesis by (auto simp: r1(2) byte_as_char_ascii)
qed

theorem json_escape_parse_witness:
  "\<exists>rt1 e rt2 d. ntsc_json_escape_string 1
       (\<lparr>rt_registry = fst (insert_handle (HString [CHR ''a'', CHR 0x22, CHR 0x0A]) reg_init), pending_exception = None\<rparr> :: nat runtime) = (rt1, e) \<and>
     ntsc_json_parse e rt1 = Some (rt2, d) \<and>
     get_string d (rt_registry rt2) = Some (json_quoted [CHR ''a'', CHR 0x22, CHR 0x0A])"
proof -
  let ?s = "[CHR ''a'', CHR 0x22, CHR 0x0A]"
  let ?rt = "\<lparr>rt_registry = fst (insert_handle (HString ?s) reg_init), pending_exception = None\<rparr> :: nat runtime"
  obtain rt1 e where esc: "ntsc_json_escape_string 1 ?rt = (rt1, e)" by fastforce
  have inv: "reg_inv (rt_registry ?rt)" by (simp add: insert_handle_inv reg_inv_init)
  have s: "get_string 1 (rt_registry ?rt) = Some ?s"
    by (simp add: get_string_def NULL_def reg_init_def [THEN arg_cong [of _ _ next_id_ctr]])
  show ?thesis using json_escape_parse [OF inv s esc] esc by auto
qed

text \<open>\<open>json.stringify_pretty\<close> changes only the layout: apart from blanks and line breaks outside
  quotes, the output is the input.\<close>

theorem json_pretty_layout: "strip_layout in_string (pretty_loop in_string indent s) = strip_layout in_string s"
  by (induction in_string indent s rule: pretty_loop.induct) (auto simp: strip_indent)

section \<open>Limits of the parser\<close>

lemma json_trailing_text: "json_parse_text ''{} x'' = Some (Inr (''{}'', 2))"
  by (simp add: json_parse_text_def skip_whitespace.simps is_ascii_whitespace_def jpeek_def parse_object_def json_expect_def Let_def)

lemma json_lone_minus: "json_parse_text ''-'' = Some (Inr (''-'', 1))"
  by (simp add: json_parse_text_def skip_whitespace.simps number_loop.simps is_ascii_whitespace_def jpeek_def parse_number_def Let_def)

text \<open>Parsing drops the escapes, so the result of parsing a string with a quote in it is not JSON: a
  second parse stops at the quote.\<close>

lemma json_reparse:
  "json_parse_text (escape_text [CHR ''a'', CHR 0x22, CHR ''b'']) = Some (Inr (json_quoted [CHR ''a'', CHR 0x22, CHR ''b''], 6))"
  "json_parse_text (json_quoted [CHR ''a'', CHR 0x22, CHR ''b'']) = Some (Inr (json_quoted ''a'', 3))"
  using parse_escaped [of "[CHR ''a'', CHR 0x22, CHR ''b'']"]
  by (simp_all add: escape_text_def escape_byte_def json_quoted_def byte_as_char_def json_parse_text_def skip_whitespace.simps
      is_ascii_whitespace_def jpeek_def parse_string_def json_expect_def string_loop.simps Let_def)

text \<open>An escaped quote ends the string for the pretty printer, which then breaks the line at the comma.\<close>

lemma json_pretty_escaped_quote:
  "pretty_loop False 0 (escape_text [CHR 0x22, CHR '','']) =
     [CHR 0x22, CHR 0x5C, CHR 0x22, CHR '','', CHR 0x0A, CHR 0x22]"
  by (simp add: escape_text_def json_quoted_def escape_byte_def json_indent_def)

lemma json_get_nested:
  "json_get_text (''{'' @ json_quoted ''a'' @ '':{'' @ json_quoted ''b'' @ '':1},'' @ json_quoted ''b'' @ '':2}'') ''b'' = Some ''1''"
  by (simp add: json_get_text_def str_find.simps json_quoted_def json_parse_text_def skip_whitespace.simps is_ascii_whitespace_def
      jpeek_def parse_number_def number_loop.simps json_digit_def Let_def)

end
