(* ===== verification/Std_Handles.thy ===== *)
theory Std_Handles
  imports Runtime_Core
begin

text \<open>
  The \<open>arrays\<close>, \<open>slices\<close> and \<open>memory\<close> modules of the standard library
  (\<open>ntsc-runtime/src/modules/arrays.rs\<close>, \<open>slices.rs\<close>, \<open>memory.rs\<close>): the registry operations as a
  program sees them, where an operation that the registry refuses throws. The locale
  \<open>reporting_op\<close> is the contract that generated code relies on after each call.
\<close>

section \<open>Refusals become exceptions\<close>

text \<open>\<open>unwrap_or_else(|| throw_str(msg))\<close>, and the branch of the operations that answer 1 or throw.\<close>

definition or_throw :: "string \<Rightarrow> ('o registry \<Rightarrow> 'o registry \<times> i64 option) \<Rightarrow> 'o runtime \<Rightarrow> 'o runtime \<times> i64" where
  "or_throw msg f rt =
     (let (rt1, x) = on_registry f rt in case x of Some v \<Rightarrow> (rt1, v) | None \<Rightarrow> throw_str msg rt1)"

definition flag_or_throw :: "string \<Rightarrow> ('o registry \<Rightarrow> 'o registry \<times> bool) \<Rightarrow> 'o runtime \<Rightarrow> 'o runtime \<times> i64" where
  "flag_or_throw msg f rt =
     (let (rt1, ok) = on_registry f rt in if ok then (rt1, 1) else throw_str msg rt1)"

section \<open>Slices\<close>

definition ntsc_slices_of :: "i64 \<Rightarrow> i64 \<Rightarrow> i64 \<Rightarrow> 'o runtime \<Rightarrow> 'o runtime \<times> i64" where
  "ntsc_slices_of array start stop = or_throw ''slices.of: range is out of bounds'' (slice_of array start stop)"

definition ntsc_slices_sub :: "i64 \<Rightarrow> i64 \<Rightarrow> i64 \<Rightarrow> 'o runtime \<Rightarrow> 'o runtime \<times> i64" where
  "ntsc_slices_sub hid start stop = or_throw ''slices.sub: range is out of bounds'' (slice_sub hid start stop)"

definition ntsc_slices_length :: "i64 \<Rightarrow> 'o runtime \<Rightarrow> 'o runtime \<times> i64" where
  "ntsc_slices_length hid = or_throw ''slices.length: not a slice'' (\<lambda>r. (r, slice_len hid r))"

definition ntsc_slices_get :: "i64 \<Rightarrow> i64 \<Rightarrow> 'o runtime \<Rightarrow> 'o runtime \<times> i64" where
  "ntsc_slices_get hid index = or_throw ''slices.get: index out of bounds'' (\<lambda>r. (r, slice_get hid index r))"

definition ntsc_slices_set :: "i64 \<Rightarrow> i64 \<Rightarrow> i64 \<Rightarrow> 'o runtime \<Rightarrow> 'o runtime \<times> i64" where
  "ntsc_slices_set hid index val = flag_or_throw ''slices.set: index out of bounds'' (slice_set hid index val)"

definition ntsc_slices_to_array :: "i64 \<Rightarrow> 'o runtime \<Rightarrow> 'o runtime \<times> i64" where
  "ntsc_slices_to_array hid = or_throw ''slices.to_array: not a slice'' (slice_to_array hid)"

definition ntsc_slices_fill :: "i64 \<Rightarrow> i64 \<Rightarrow> 'o runtime \<Rightarrow> 'o runtime \<times> i64" where
  "ntsc_slices_fill hid val = flag_or_throw ''slices.fill: not a slice'' (slice_fill hid val)"

definition ntsc_slices_copy_from :: "i64 \<Rightarrow> i64 \<Rightarrow> 'o runtime \<Rightarrow> 'o runtime \<times> i64" where
  "ntsc_slices_copy_from dst src =
     flag_or_throw ''slices.copy_from: lengths differ or not a slice'' (slice_copy_from dst src)"

definition ntsc_slices_equal :: "i64 \<Rightarrow> i64 \<Rightarrow> 'o runtime \<Rightarrow> 'o runtime \<times> i64" where
  "ntsc_slices_equal a b =
     or_throw ''slices.equal: not a slice'' (\<lambda>r. (r, map_option (\<lambda>e. if e then 1 else 0) (slice_equal a b r)))"

definition ntsc_slices_drop :: "i64 \<Rightarrow> 'o runtime \<Rightarrow> 'o runtime" where
  "ntsc_slices_drop hid rt = rt\<lparr>rt_registry := slice_drop hid (rt_registry rt)\<rparr>"

section \<open>Pointer capabilities\<close>

definition ntsc_memory_alloc :: "i64 \<Rightarrow> 'o runtime \<Rightarrow> 'o runtime \<times> i64" where
  "ntsc_memory_alloc sz rt =
     (if \<not> (0 \<le> sz \<and> sz \<le> 16777216) then throw_str ''memory.alloc: size must be between 0 and 16777216'' rt
      else on_registry (memory_alloc (nat sz)) rt)"

definition ntsc_memory_offset :: "i64 \<Rightarrow> i64 \<Rightarrow> 'o runtime \<Rightarrow> 'o runtime \<times> i64" where
  "ntsc_memory_offset pointer delta =
     or_throw ''memory.offset: out of bounds or invalid pointer'' (memory_offset pointer delta)"

definition ntsc_memory_clone :: "i64 \<Rightarrow> 'o runtime \<Rightarrow> 'o runtime \<times> i64" where
  "ntsc_memory_clone pointer = or_throw ''memory.clone: invalid pointer'' (memory_clone pointer)"

definition ntsc_memory_drop :: "i64 \<Rightarrow> 'o runtime \<Rightarrow> 'o runtime" where
  "ntsc_memory_drop pointer rt = rt\<lparr>rt_registry := memory_drop pointer (rt_registry rt)\<rparr>"

definition ntsc_memory_load8 :: "i64 \<Rightarrow> 'o runtime \<Rightarrow> ('o runtime \<times> i64) outcome" where
  "ntsc_memory_load8 pointer rt =
     (let (rt1, x) = on_registry (memory_load pointer 1) rt
      in case x of
           Panicked \<Rightarrow> Panicked
         | Returned (Some v) \<Rightarrow> Returned (rt1, v AND 255)
         | Returned None \<Rightarrow> Returned (throw_str ''memory.load8: out of bounds or invalid pointer'' rt1))"

definition ntsc_memory_load64 :: "i64 \<Rightarrow> 'o runtime \<Rightarrow> ('o runtime \<times> i64) outcome" where
  "ntsc_memory_load64 pointer rt =
     (let (rt1, x) = on_registry (memory_load pointer 8) rt
      in case x of
           Panicked \<Rightarrow> Panicked
         | Returned (Some v) \<Rightarrow> Returned (rt1, v)
         | Returned None \<Rightarrow> Returned (throw_str ''memory.load64: out of bounds or invalid pointer'' rt1))"

definition ntsc_memory_store8 :: "i64 \<Rightarrow> i64 \<Rightarrow> 'o runtime \<Rightarrow> ('o runtime \<times> i64) outcome" where
  "ntsc_memory_store8 pointer val rt =
     (if \<not> (0 \<le> val \<and> val \<le> 255) then Returned (throw_str ''memory.store8: value must be between 0 and 255'' rt)
      else (let (rt1, x) = on_registry (memory_store pointer 1 val) rt
            in case x of
                 Panicked \<Rightarrow> Panicked
               | Returned True \<Rightarrow> Returned (rt1, 1)
               | Returned False \<Rightarrow> Returned (throw_str ''memory.store8: out of bounds or invalid pointer'' rt1)))"

definition ntsc_memory_store64 :: "i64 \<Rightarrow> i64 \<Rightarrow> 'o runtime \<Rightarrow> ('o runtime \<times> i64) outcome" where
  "ntsc_memory_store64 pointer val rt =
     (let (rt1, x) = on_registry (memory_store pointer 8 val) rt
      in case x of
           Panicked \<Rightarrow> Panicked
         | Returned True \<Rightarrow> Returned (rt1, 1)
         | Returned False \<Rightarrow> Returned (throw_str ''memory.store64: out of bounds or invalid pointer'' rt1))"

section \<open>Arrays\<close>

definition ntsc_arrays_new :: "'o runtime \<Rightarrow> 'o runtime \<times> i64" where
  "ntsc_arrays_new = on_registry (array_new (int PTR_SIZE) 0 1)"

definition ntsc_arrays_push :: "i64 \<Rightarrow> i64 \<Rightarrow> 'o runtime \<Rightarrow> 'o runtime \<times> i64" where
  "ntsc_arrays_push arr val rt =
     (let (rt1, ok) = on_registry (array_push arr val) rt
      in if ok then (rt1, arr) else throw_str ''arrays.push: invalid array or value'' rt1)"

definition ntsc_arrays_at :: "i64 \<Rightarrow> i64 \<Rightarrow> 'o registry \<Rightarrow> i64" where
  "ntsc_arrays_at arr index r =
     (let idx = (if index < 0 then array_len arr r + index else index)
      in case array_get arr idx r of Some v \<Rightarrow> v | None \<Rightarrow> 0)"

definition array_strings :: "i64 \<Rightarrow> 'o registry \<Rightarrow> bool" where
  "array_strings arr r = (case with_array arr string_elements r of Some b \<Rightarrow> b | None \<Rightarrow> False)"

text \<open>The test of one position, shared by \<open>contains\<close> and \<open>index_of\<close>.\<close>

definition element_is :: "i64 \<Rightarrow> i64 \<Rightarrow> 'o registry \<Rightarrow> nat \<Rightarrow> bool" where
  "element_is arr val r i =
     (if array_strings arr r
      then (case array_get arr (int i) r of Some h \<Rightarrow> string_equals h val r | None \<Rightarrow> False)
      else array_get arr (int i) r = Some val)"

definition ntsc_arrays_contains :: "i64 \<Rightarrow> i64 \<Rightarrow> 'o registry \<Rightarrow> int" where
  "ntsc_arrays_contains arr val r =
     (if list_ex (element_is arr val r) [0..<nat (array_len arr r)] then 1 else 0)"

definition ntsc_arrays_index_of :: "i64 \<Rightarrow> i64 \<Rightarrow> 'o registry \<Rightarrow> i64" where
  "ntsc_arrays_index_of arr val r =
     (case find (element_is arr val r) [0..<nat (array_len arr r)] of Some i \<Rightarrow> int i | None \<Rightarrow> - 1)"

definition ntsc_arrays_remove :: "i64 \<Rightarrow> i64 \<Rightarrow> 'o registry \<Rightarrow> 'o registry \<times> i64" where
  "ntsc_arrays_remove arr val r =
     (let idx = ntsc_arrays_index_of arr val r
      in if 0 \<le> idx then array_remove_at arr idx r else array_clone arr 0 r)"

definition ntsc_arrays_every :: "i64 \<Rightarrow> (i64 \<Rightarrow> int) \<Rightarrow> 'o registry \<Rightarrow> int" where
  "ntsc_arrays_every arr pred r = (if list_all (\<lambda>e. pred e \<noteq> 0) (array_to_vec arr r) then 1 else 0)"

definition ntsc_arrays_some :: "i64 \<Rightarrow> (i64 \<Rightarrow> int) \<Rightarrow> 'o registry \<Rightarrow> int" where
  "ntsc_arrays_some arr pred r = (if list_ex (\<lambda>e. pred e \<noteq> 0) (array_to_vec arr r) then 1 else 0)"

section \<open>The contract of an entry point\<close>

text \<open>An operation that can throw one message: it keeps the registry invariant, and it either leaves
  the exception slot alone or ends by throwing that message.\<close>

locale reporting_op =
  fixes msg :: string and op :: "'o runtime \<Rightarrow> 'o runtime \<times> i64"
  assumes outcome: "reg_inv (rt_registry rt) \<Longrightarrow>
    (\<exists>r. reg_inv r \<and> op rt = throw_str msg (rt\<lparr>rt_registry := r\<rparr>)) \<or>
    reg_inv (rt_registry (fst (op rt))) \<and> pending_exception (fst (op rt)) = pending_exception rt"
begin

text \<open>What generated code reads after the call: when the exception is pending, the result is the null
  handle and the message is the one of this operation.\<close>

lemma reported:
  assumes "reg_inv (rt_registry rt)" "ntsc_exception_pending rt = 0" "op rt = (rt1, x)" "ntsc_exception_pending rt1 = 1"
  shows "x = NULL \<and> get_string (ntsc_exception_get_message rt1) (rt_registry rt1) = Some msg"
proof -
  obtain r where r: "reg_inv r" "op rt = throw_str msg (rt\<lparr>rt_registry := r\<rparr>)"
    using outcome [OF assms(1)] assms(2-4) by (auto simp: ntsc_exception_pending_def split: if_splits)
  have "throw_str msg (rt\<lparr>rt_registry := r\<rparr>) = (rt1, x)" using r assms(3) by simp
  from throw_str_effect [OF _ this] r(1) show ?thesis by simp
qed

lemma keeps_registry:
  assumes "reg_inv (rt_registry rt)"
  shows "reg_inv (rt_registry (fst (op rt)))"
  using outcome [OF assms]
proof (elim disjE exE conjE)
  fix r assume "reg_inv r" "op rt = throw_str msg (rt\<lparr>rt_registry := r\<rparr>)"
  then show ?thesis by (simp add: throw_str_inv)
qed

end

lemma or_throw_reporting:
  assumes "\<And>r. reg_inv r \<Longrightarrow> reg_inv (fst (f r))"
  shows "reporting_op msg (or_throw msg f)"
proof
  fix rt :: "'a runtime" assume "reg_inv (rt_registry rt)"
  with assms have "reg_inv (fst (f (rt_registry rt)))" by blast
  then show "(\<exists>r. reg_inv r \<and> or_throw msg f rt = throw_str msg (rt\<lparr>rt_registry := r\<rparr>)) \<or>
      reg_inv (rt_registry (fst (or_throw msg f rt))) \<and> pending_exception (fst (or_throw msg f rt)) = pending_exception rt"
    by (auto simp: or_throw_def on_registry_def split_beta Let_def split: option.splits)
qed

lemma flag_or_throw_reporting:
  assumes "\<And>r. reg_inv r \<Longrightarrow> reg_inv (fst (f r))"
  shows "reporting_op msg (flag_or_throw msg f)"
proof
  fix rt :: "'a runtime" assume "reg_inv (rt_registry rt)"
  with assms have "reg_inv (fst (f (rt_registry rt)))" by blast
  then show "(\<exists>r. reg_inv r \<and> flag_or_throw msg f rt = throw_str msg (rt\<lparr>rt_registry := r\<rparr>)) \<or>
      reg_inv (rt_registry (fst (flag_or_throw msg f rt))) \<and> pending_exception (fst (flag_or_throw msg f rt)) = pending_exception rt"
    by (auto simp: flag_or_throw_def on_registry_def split_beta Let_def)
qed

interpretation slices_of: reporting_op "''slices.of: range is out of bounds''" "ntsc_slices_of array start stop"
  for array start stop
  unfolding ntsc_slices_of_def by (rule or_throw_reporting) (rule slice_of_inv)

interpretation slices_sub: reporting_op "''slices.sub: range is out of bounds''" "ntsc_slices_sub hid start stop"
  for hid start stop
  unfolding ntsc_slices_sub_def by (rule or_throw_reporting) (rule slice_sub_inv)

interpretation slices_get: reporting_op "''slices.get: index out of bounds''" "ntsc_slices_get hid index"
  for hid index
  unfolding ntsc_slices_get_def by (rule or_throw_reporting) simp

interpretation slices_set: reporting_op "''slices.set: index out of bounds''" "ntsc_slices_set hid index val"
  for hid index val
  unfolding ntsc_slices_set_def by (rule flag_or_throw_reporting) (rule slice_updates_inv)

interpretation slices_to_array: reporting_op "''slices.to_array: not a slice''" "ntsc_slices_to_array hid"
  for hid
  unfolding ntsc_slices_to_array_def by (rule or_throw_reporting) (rule slice_updates_inv)

interpretation slices_copy_from: reporting_op "''slices.copy_from: lengths differ or not a slice''" "ntsc_slices_copy_from dst src"
  for dst src
  unfolding ntsc_slices_copy_from_def by (rule flag_or_throw_reporting) (rule slice_updates_inv)

interpretation memory_offset: reporting_op "''memory.offset: out of bounds or invalid pointer''" "ntsc_memory_offset pointer delta"
  for pointer delta
  unfolding ntsc_memory_offset_def by (rule or_throw_reporting) (rule memory_offset_inv)

interpretation memory_clone: reporting_op "''memory.clone: invalid pointer''" "ntsc_memory_clone pointer"
  for pointer
  unfolding ntsc_memory_clone_def by (rule or_throw_reporting) (rule memory_clone_inv)

section \<open>Searching an array\<close>

text \<open>The test of a position, in the view of the array.\<close>

lemma element_is_view:
  assumes inv: "reg_inv r" and arr: "arr \<noteq> NULL" "array_at r arr = Some a" and i: "i < length (elements a)"
    and val: "string_elements a \<Longrightarrow> string_at r val \<noteq> None"
  shows "element_is arr val r i \<longleftrightarrow>
    map (elem_view r (string_elements a)) (elements a) ! i = elem_view r (string_elements a) val"
proof -
  have get: "array_get arr (int i) r = Some (elements a ! i)"
    using arr i by (simp add: array_get_def with_array_def array_data_get_def)
  have strs: "array_strings arr r = string_elements a" using arr by (simp add: array_strings_def with_array_def)
  have "string_equals h val r \<longleftrightarrow> string_at r h = string_at r val" if "string_elements a" for h
    using val [OF that] string_at_null [OF inv] by (auto simp: string_equals_def split: option.splits)
  with get strs i show ?thesis by (simp add: element_is_def elem_view_def)
qed

text \<open>The first position of a value in a list.\<close>

lemma find_append: "find P (xs @ ys) = (case find P xs of None \<Rightarrow> find P ys | Some x \<Rightarrow> Some x)"
  by (induction xs) simp_all

lemma find_first:
  "find (\<lambda>i. xs ! i = x) [0..<length xs] = (if x \<in> set xs then Some (length (takeWhile (\<lambda>y. y \<noteq> x) xs)) else None)"
proof (induction xs rule: rev_induct)
  case (snoc y xs)
  have "find (\<lambda>i. (xs @ [y]) ! i = x) [0..<length xs] = find (\<lambda>i. xs ! i = x) [0..<length xs]"
    by (rule find_cong) (simp_all add: nth_append)
  then show ?case
    using snoc by (auto simp: find_append takeWhile_append)
qed simp

lemma first_index: "x \<in> set xs \<Longrightarrow> length (takeWhile (\<lambda>y. y \<noteq> x) xs) < length xs"
  by (induction xs) auto

lemma remove_first: "x \<in> set xs \<Longrightarrow>
  take (length (takeWhile (\<lambda>y. y \<noteq> x) xs)) xs @ drop (Suc (length (takeWhile (\<lambda>y. y \<noteq> x) xs))) xs = remove1 x xs"
  by (induction xs) auto

section \<open>Properties\<close>

lemma memory_widths_ok:
  assumes "w \<le> 8"
  shows "\<exists>r1 x. memory_load pointer w r = (r1, Returned x)" "\<exists>r1 x. memory_store pointer w val r = (r1, Returned x)"
  using assms by (auto simp: memory_load_def memory_store_def Let_def split: prod.splits option.splits)

lemma throw_str_null: "snd (throw_str msg rt) = NULL"
  by (simp add: throw_str_def ntsc_throw_def split_beta Let_def)

lemma and_byte: "0 \<le> (v :: int) AND 255" "(v :: int) AND 255 \<le> 255"
  by (simp_all add: AND_upper2' AND_lower)

text \<open>The memory module never panics: the widths its loads and stores ask for fit the buffer of the
  registry, so every call returns, with a byte in range for the narrow load.\<close>

theorem memory_module_returns:
  "\<exists>rt1 v rt2 w rt3 x rt4 y. ntsc_memory_load8 pointer rt = Returned (rt1, v) \<and> 0 \<le> v \<and> v \<le> 255 \<and>
     ntsc_memory_load64 pointer rt = Returned (rt2, w) \<and>
     ntsc_memory_store8 pointer val rt = Returned (rt3, x) \<and> (x = 0 \<or> x = 1) \<and>
     ntsc_memory_store64 pointer val rt = Returned (rt4, y) \<and> (y = 0 \<or> y = 1)"
proof -
  let ?r = "rt_registry rt"
  obtain r1 a where l1: "memory_load pointer 1 ?r = (r1, Returned a)" using memory_widths_ok(1) [of 1 pointer ?r] by auto
  obtain r2 b where l8: "memory_load pointer 8 ?r = (r2, Returned b)" using memory_widths_ok(1) [of 8 pointer ?r] by auto
  obtain r3 c where s1: "memory_store pointer 1 val ?r = (r3, Returned c)" using memory_widths_ok(2) [of 1 pointer val ?r] by auto
  obtain r4 d where s8: "memory_store pointer 8 val ?r = (r4, Returned d)" using memory_widths_ok(2) [of 8 pointer val ?r] by auto
  have throw: "\<exists>rt' x. throw_str msg rt0 = (rt', x) \<and> P x" if "P 0" for P msg and rt0 :: "'a runtime"
    using throw_str_null [of msg rt0] that by (cases "throw_str msg rt0") (simp add: NULL_def)
  have "\<exists>rt1 v. ntsc_memory_load8 pointer rt = Returned (rt1, v) \<and> 0 \<le> v \<and> v \<le> 255"
    using and_byte by (cases a) (auto simp: ntsc_memory_load8_def on_registry_def l1 simp del: One_nat_def intro!: throw)
  moreover have "\<exists>rt2 w. ntsc_memory_load64 pointer rt = Returned (rt2, w)"
    using throw [of "\<lambda>_. True"] by (cases b) (auto simp: ntsc_memory_load64_def on_registry_def l8)
  moreover have "\<exists>rt3 x. ntsc_memory_store8 pointer val rt = Returned (rt3, x) \<and> (x = 0 \<or> x = 1)"
    by (cases c) (auto simp: ntsc_memory_store8_def on_registry_def s1 simp del: One_nat_def intro!: throw)
  moreover have "\<exists>rt4 y. ntsc_memory_store64 pointer val rt = Returned (rt4, y) \<and> (y = 0 \<or> y = 1)"
    by (cases d) (auto simp: ntsc_memory_store64_def on_registry_def s8 intro!: throw)
  ultimately show ?thesis by blast
qed




text \<open>\<open>arrays.remove\<close> builds a fresh array without the first occurrence of the value, compared by
  text in an array of strings, and leaves the source alone.\<close>

theorem arrays_remove_first:
  assumes inv: "reg_inv r" and ok: "elements_ok r arr" and a: "array_at r arr = Some a"
    and val: "string_elements a \<Longrightarrow> string_at r val \<noteq> None"
  shows "builds (\<lambda>arr. ntsc_arrays_remove arr val) (remove1 (elem_view r (string_elements a) val)) arr r"
proof -
  let ?vs = "map (elem_view r (string_elements a)) (elements a)" let ?v = "elem_view r (string_elements a) val"
  let ?k = "length (takeWhile (\<lambda>y. y \<noteq> ?v) ?vs)"
  have nn: "arr \<noteq> NULL" using a inv by (rule array_at_not_null [rotated])
  have len: "nat (array_len arr r) = length ?vs" using nn a by (simp add: array_len_def with_array_def)
  have "find (element_is arr val r) [0..<length ?vs] = find (\<lambda>i. ?vs ! i = ?v) [0..<length ?vs]"
    by (rule find_cong) (use element_is_view [OF inv nn a _ val] in auto)
  then have idx: "ntsc_arrays_index_of arr val r = (if ?v \<in> set ?vs then int ?k else - 1)"
    unfolding ntsc_arrays_index_of_def len find_first by simp
  show ?thesis
  proof (cases "?v \<in> set ?vs")
    case True
    then have "?k < length ?vs" by (rule first_index)
    then have "view_remove_at (int ?k) ?vs = remove1 ?v ?vs"
      using remove_first [OF True] by (simp add: view_remove_at_def)
    then show ?thesis
      using remove_at.copies [OF inv ok a, of "int ?k"] True idx a
      by (auto simp: builds_def ntsc_arrays_remove_def array_view_def)
  next
    case False
    then show ?thesis
      using clone.copies [OF inv ok a] idx a
      by (auto simp: builds_def ntsc_arrays_remove_def array_view_def remove1_idem)
  qed
qed


theorem arrays_remove_first_witness:
  "\<exists>r' j. ntsc_arrays_remove 1 3 (fst (insert_handle (HArray \<lparr>elem_size = 8, string_elements = False, elements = [5, 3, 4, 3]\<rparr>)
      (reg_init :: nat registry))) = (r', j) \<and> array_view r' j = Some (8, False, [Raw 5, Raw 4, Raw 3])"
proof -
  define a where "a = \<lparr>elem_size = 8, string_elements = False, elements = [5, 3, 4, 3 :: i64]\<rparr>"
  let ?r = "fst (insert_handle (HArray a) (reg_init :: nat registry))"
  have inv: "reg_inv ?r" by (rule insert_handle_inv [OF reg_inv_init]) simp
  have at: "array_at ?r 1 = Some a" by (simp add: array_at_def reg_init_def)
  then have ok: "elements_ok ?r 1" by (simp add: elements_ok_def a_def)
  have "builds (\<lambda>arr. ntsc_arrays_remove arr 3) (remove1 (Raw 3)) 1 ?r"
    using arrays_remove_first [OF inv ok at, of 3] by (simp add: a_def)
  then show ?thesis unfolding builds_def using at by (auto simp: array_view_def a_def)
qed

end
