(* ===== verification/Linter.thy ===== *)
theory Linter
  imports Ast "HOL-Library.AList" "HOL-Library.Multiset" "HOL-Library.Product_Lexorder"
begin

text \<open>
  The lint pass (\<open>crates/ntsc-typeck/src/warnings.rs\<close>): the walk over the syntax tree that declares
  variables in a stack of scopes, marks those that are mentioned, and reports the others when their
  scope ends. The state is the record \<open>linter\<close>; the innermost scope, the last of the vector, is the
  head of the list. A scope is a hash map: an association list with distinct keys, and the order in
  which the loop of \<open>end_scope\<close> visits it is a parameter \<open>order\<close>, which may depend on the warnings
  reported so far. The one \<open>expect\<close> of the code is \<open>None\<close>.

  The walk is compared with a description that has no scopes: the list of the declarations, mentions
  and scope limits of a program in the order of the text, and for each declaration what becomes of it
  (\<open>fate\<close>).
\<close>

section \<open>Model\<close>

definition LINT_UNUSED_VARIABLE :: string where
  "LINT_UNUSED_VARIABLE = ''unused_variable''"

record lint_warning =
  lw_lint :: string
  lw_message :: string
  lw_span :: span

record lint_decl =
  ld_span :: span
  ld_suppressed :: bool
  ld_used :: bool

type_synonym lint_scope = "(string \<times> lint_decl) list"
type_synonym visit_order = "lint_warning list \<Rightarrow> lint_scope \<Rightarrow> lint_scope"

record linter =
  lint_scopes :: "lint_scope list"
  suppress_unused :: bool
  lint_warnings :: "lint_warning list"

type_synonym lint_step = "linter \<Rightarrow> linter option"

definition linter_new :: linter where
  "linter_new = \<lparr>lint_scopes = [[]], suppress_unused = False, lint_warnings = []\<rparr>"

definition declare_local :: "string \<Rightarrow> span \<Rightarrow> lint_step" where
  "declare_local name sp l =
     (if name = ''_'' then Some l
      else case lint_scopes l of
        [] \<Rightarrow> None
      | sc # outer \<Rightarrow>
          Some (l\<lparr>lint_scopes :=
            AList.update name \<lparr>ld_span = sp, ld_suppressed = suppress_unused l, ld_used = False\<rparr> sc # outer\<rparr>))"

primrec mark_scopes :: "string \<Rightarrow> lint_scope list \<Rightarrow> lint_scope list" where
  "mark_scopes name [] = []"
| "mark_scopes name (sc # outer) =
     (case map_of sc name of
        Some d \<Rightarrow> AList.update name (d\<lparr>ld_used := True\<rparr>) sc # outer
      | None \<Rightarrow> sc # mark_scopes name outer)"

definition mark_used :: "string \<Rightarrow> lint_step" where
  "mark_used name l = Some (l\<lparr>lint_scopes := mark_scopes name (lint_scopes l)\<rparr>)"

definition unused_message :: "string \<Rightarrow> string" where
  "unused_message name = ''unused variable '' @ [CHR 0x60] @ name @ [CHR 0x60]"

definition unused_warning :: "string \<times> lint_decl \<Rightarrow> lint_warning" where
  "unused_warning e =
     \<lparr>lw_lint = LINT_UNUSED_VARIABLE, lw_message = unused_message (fst e), lw_span = ld_span (snd e)\<rparr>"

definition reportable :: "string \<times> lint_decl \<Rightarrow> bool" where
  "reportable e \<longleftrightarrow> \<not> ld_used (snd e) \<and> \<not> ld_suppressed (snd e)"

definition end_lint_scope :: "visit_order \<Rightarrow> lint_step" where
  "end_lint_scope order l =
     (case lint_scopes l of
        [] \<Rightarrow> Some l
      | sc # outer \<Rightarrow>
          Some (l\<lparr>lint_scopes := outer,
            lint_warnings := lint_warnings l @ map unused_warning (filter reportable (order (lint_warnings l) sc))\<rparr>))"

definition push_lint_scope :: lint_step where
  "push_lint_scope l = Some (l\<lparr>lint_scopes := [] # lint_scopes l\<rparr>)"

text \<open>Statements of the walk in sequence; \<open>if let\<close> and \<open>for\<close> over parts of the tree.\<close>

definition and_then :: "lint_step \<Rightarrow> lint_step \<Rightarrow> lint_step" where
  "and_then f g l = Option.bind (f l) g"

primrec each :: "lint_step list \<Rightarrow> lint_step" where
  "each [] l = Some l"
| "each (f # fs) l = Option.bind (f l) (each fs)"

definition if_some :: "lint_step option \<Rightarrow> lint_step" where
  "if_some f = (case f of None \<Rightarrow> Some | Some g \<Rightarrow> g)"

text \<open>Saving, setting and restoring \<open>suppress_unused\<close>; pushing a scope, walking a body, popping it.\<close>

definition suppressing :: "(bool \<Rightarrow> bool) \<Rightarrow> lint_step \<Rightarrow> lint_step" where
  "suppressing b f l =
     (let saved = suppress_unused l
      in map_option (\<lambda>l'. l'\<lparr>suppress_unused := saved\<rparr>) (f (l\<lparr>suppress_unused := b saved\<rparr>)))"

definition scoped :: "visit_order \<Rightarrow> lint_step \<Rightarrow> lint_step" where
  "scoped order f = and_then push_lint_scope (and_then f (end_lint_scope order))"

definition declare_token :: "token \<Rightarrow> lint_step" where
  "declare_token t = declare_local (lexeme t) (tspan t)"

definition catch_scope :: "visit_order \<Rightarrow> token option \<Rightarrow> lint_step \<Rightarrow> lint_step" where
  "catch_scope order catch_var body =
     scoped order (and_then (if_some (map_option declare_token catch_var)) body)"

definition quiet_applies :: "string list \<Rightarrow> bool" where
  "quiet_applies suppressed \<longleftrightarrow> suppressed = [] \<or> LINT_UNUSED_VARIABLE \<in> set suppressed"

text \<open>
  The argument \<open>member\<close> of \<open>lint_stmt\<close> is set for the statements of a class body, where \<open>var\<close> and
  destructuring declare fields and only their initialisers are walked.
\<close>

primrec
      lint_expr :: "visit_order \<Rightarrow> expr \<Rightarrow> lint_step"
  and lint_property :: "visit_order \<Rightarrow> object_property \<Rightarrow> lint_step"
  and lint_stmt :: "visit_order \<Rightarrow> stmt \<Rightarrow> bool \<Rightarrow> lint_step"
  and lint_elif :: "visit_order \<Rightarrow> elif_branch \<Rightarrow> lint_step"
  and lint_case :: "visit_order \<Rightarrow> match_case \<Rightarrow> lint_step"
where
  "lint_expr od (ELiteral val sp) = Some"
| "lint_expr od (EVariable name) = mark_used (lexeme name)"
| "lint_expr od (EBinary left op right) = and_then (lint_expr od left) (lint_expr od right)"
| "lint_expr od (EUnary op right) = lint_expr od right"
| "lint_expr od (EPostfixUnary op left) = lint_expr od left"
| "lint_expr od (EGrouping expression open_span close_span) = lint_expr od expression"
| "lint_expr od (EMember object property) = lint_expr od object"
| "lint_expr od (EOptionalMember object property) = lint_expr od object"
| "lint_expr od (ECall callee paren arguments) =
     and_then (lint_expr od callee) (each (map (lint_expr od) arguments))"
| "lint_expr od (EAssign name val) = and_then (mark_used (lexeme name)) (lint_expr od val)"
| "lint_expr od (EIndexGet object index) = and_then (lint_expr od object) (lint_expr od index)"
| "lint_expr od (EIndexSet object index val) =
     each [lint_expr od object, lint_expr od index, lint_expr od val]"
| "lint_expr od (EMemberSet object property val) = and_then (lint_expr od object) (lint_expr od val)"
| "lint_expr od (EThis keyword) = Some"
| "lint_expr od (ELambda params ret body sp) =
     suppressing (\<lambda>saved. False) (scoped od (each (map (\<lambda>s. lint_stmt od s False) body)))"
| "lint_expr od (ETernary condition then_branch else_branch) =
     each [lint_expr od condition, lint_expr od then_branch, lint_expr od else_branch]"
| "lint_expr od (ESpread val op_span) = lint_expr od val"
| "lint_expr od (EObjectLiteral properties sp) = each (map (lint_property od) properties)"
| "lint_expr od (EArrayLiteral elements sp) = each (map (lint_expr od) elements)"
| "lint_expr od (EAwait callee arguments sp) =
     and_then (lint_expr od callee) (each (map (lint_expr od) arguments))"
| "lint_expr od (EAsyncBlock body ret sp) = scoped od (each (map (\<lambda>s. lint_stmt od s False) body))"
| "lint_expr od (EView target mutable keyword) = lint_expr od target"
| "lint_expr od (ECopy expression keyword) = lint_expr od expression"
| "lint_expr od (EBorrow target mutable keyword) = lint_expr od target"
| "lint_expr od (ERawDeref target star) = lint_expr od target"
| "lint_expr od (ERawDerefSet target val star) = and_then (lint_expr od target) (lint_expr od val)"
| "lint_expr od (EStructLiteral class_name flds update sp) =
     each [mark_used (lexeme class_name), each (map (lint_property od) flds),
       if_some (map_option (lint_expr od) update)]"
| "lint_expr od (EPropagate val question_span) = lint_expr od val"
| "lint_expr od (ETupleLiteral elements sp) = each (map (lint_expr od) elements)"
| "lint_expr od (ETupleIndex object index dot_span) = lint_expr od object"
| "lint_expr od (EChanSend channel val op_span) = and_then (lint_expr od channel) (lint_expr od val)"
| "lint_expr od (EChanRecv receiver channel op_span) =
     and_then (declare_token receiver) (lint_expr od channel)"
| "lint_expr od (EClose channel keyword) = lint_expr od channel"
| "lint_property od (ObjectProperty key val key_span) = lint_expr od val"
| "lint_stmt od (SExpression expression) member = lint_expr od expression"
| "lint_stmt od (SSay expression keyword_span) member = lint_expr od expression"
| "lint_stmt od (SVar name ta init is_static is_const view) member =
     and_then (if_some (map_option (lint_expr od) init)) (if member then Some else declare_token name)"
| "lint_stmt od (SBlock stmts open_span close_span) member =
     scoped od (each (map (\<lambda>s. lint_stmt od s False) stmts))"
| "lint_stmt od (SIf condition then_branch elifs else_branch) member =
     each [lint_expr od condition, lint_stmt od then_branch False, each (map (lint_elif od) elifs),
       if_some (map_option (\<lambda>s. lint_stmt od s False) else_branch)]"
| "lint_stmt od (SWhile condition body) member = and_then (lint_expr od condition) (lint_stmt od body False)"
| "lint_stmt od (SDoWhile body condition) member = and_then (lint_stmt od body False) (lint_expr od condition)"
| "lint_stmt od (SFor init condition update body) member =
     scoped od (each [if_some (map_option (\<lambda>s. lint_stmt od s False) init),
       if_some (map_option (lint_expr od) condition), if_some (map_option (lint_expr od) update),
       lint_stmt od body False])"
| "lint_stmt od (SForIn variable iterable body) member =
     and_then (lint_expr od iterable) (scoped od (and_then (declare_token variable) (lint_stmt od body False)))"
| "lint_stmt od (SForAwait variable producer body) member =
     and_then (lint_expr od producer) (scoped od (and_then (declare_token variable) (lint_stmt od body False)))"
| "lint_stmt od (SChanRecvFor variable channel body) member =
     and_then (lint_expr od channel) (scoped od (and_then (declare_token variable) (lint_stmt od body False)))"
| "lint_stmt od (SGo call block keyword_span) member =
     and_then (lint_expr od call)
       (if_some (map_option (\<lambda>fs. scoped od (each fs)) (map_option (map (\<lambda>s. lint_stmt od s False)) block)))"
| "lint_stmt od (SFunction name generics params ret body) member =
     suppressing (\<lambda>saved. False) (scoped od (each (map (\<lambda>s. lint_stmt od s False) body)))"
| "lint_stmt od (SAsyncFunction name params ret body) member =
     suppressing (\<lambda>saved. False) (scoped od (each (map (\<lambda>s. lint_stmt od s False) body)))"
| "lint_stmt od (SReturn val) member = if_some (map_option (lint_expr od) val)"
| "lint_stmt od (SClass name generics parent body) member =
     suppressing (\<lambda>saved. False) (scoped od (each (map (\<lambda>s. lint_stmt od s True) body)))"
| "lint_stmt od (SBreak sp) member = Some"
| "lint_stmt od (SContinue sp) member = Some"
| "lint_stmt od (SMatch expression cases default_case) member =
     each [lint_expr od expression, each (map (lint_case od) cases),
       if_some (map_option (\<lambda>s. lint_stmt od s False) default_case)]"
| "lint_stmt od (STry try_block catch_var catch_block finally_block) member =
     each [lint_stmt od try_block False,
       if_some (map_option (catch_scope od catch_var) (map_option (\<lambda>s. lint_stmt od s False) catch_block)),
       if_some (map_option (\<lambda>s. lint_stmt od s False) finally_block)]"
| "lint_stmt od (SThrow val) member = lint_expr od val"
| "lint_stmt od (SRetry cnt body catch_var catch_block) member =
     each [lint_expr od cnt, lint_stmt od body False,
       if_some (map_option (catch_scope od catch_var) (map_option (\<lambda>s. lint_stmt od s False) catch_block))]"
| "lint_stmt od (SUnsafe body) member = lint_stmt od body False"
| "lint_stmt od (SQuiet suppressed body) member =
     suppressing (\<lambda>saved. quiet_applies suppressed \<or> saved) (lint_stmt od body False)"
| "lint_stmt od (SDestructure is_array is_tuple names keys init) member =
     and_then (lint_expr od init) (if member then Some else each (map declare_token names))"
| "lint_stmt od (SUse library is_file_path imported_symbols nickname) member = Some"
| "lint_stmt od (SEnum name generics members) member = Some"
| "lint_stmt od (STypeAlias name generics target) member = Some"
| "lint_stmt od (STrait name generics supers methods) member = Some"
| "lint_stmt od (SImpl trait_name type_name methods) member = Some"
| "lint_stmt od (STest name body) member =
     suppressing (\<lambda>saved. False) (scoped od (each (map (\<lambda>s. lint_stmt od s False) body)))"
| "lint_elif od (ElifBranch condition body sp) = and_then (lint_expr od condition) (lint_stmt od body False)"
| "lint_case od (MatchCase val pat guard body sp) =
     each [lint_expr od val, if_some (map_option (lint_expr od) guard), lint_stmt od body False]"

definition warning_position :: "lint_warning \<Rightarrow> usize \<times> usize" where
  "warning_position w = (span_start (lw_span w), span_stop (lw_span w))"

definition lint_check_program :: "visit_order \<Rightarrow> program \<Rightarrow> lint_step" where
  "lint_check_program od p l =
     map_option (\<lambda>l'. l'\<lparr>lint_warnings := sort_key warning_position (lint_warnings l')\<rparr>)
       (and_then (each (map (\<lambda>s. lint_stmt od s False) (statements p))) (end_lint_scope od) l)"

definition lint_program :: "visit_order \<Rightarrow> program \<Rightarrow> lint_warning list option" where
  "lint_program od p = map_option lint_warnings (lint_check_program od p linter_new)"

section \<open>What the walk does, without scopes\<close>

text \<open>
  The calls that the walk makes, in order: a declaration, with its name, its span and whether a
  \<open>quiet\<close> is in force, a mention of a name, and the limits of a scope.
\<close>

datatype lint_call = CDeclare string span bool | CUse string | CPush | CPop

type_synonym call_walk = "bool \<Rightarrow> lint_call list"

definition c_none :: call_walk where "c_none q = []"
definition c_use :: "string \<Rightarrow> call_walk" where "c_use n q = [CUse n]"
definition c_declare :: "token \<Rightarrow> call_walk" where "c_declare t q = [CDeclare (lexeme t) (tspan t) q]"
definition c_then :: "call_walk \<Rightarrow> call_walk \<Rightarrow> call_walk" where "c_then a b q = a q @ b q"
definition c_each :: "call_walk list \<Rightarrow> call_walk" where "c_each ws q = concat (map (\<lambda>w. w q) ws)"
definition c_if_some :: "call_walk option \<Rightarrow> call_walk" where
  "c_if_some w = (case w of None \<Rightarrow> c_none | Some a \<Rightarrow> a)"
definition c_suppressing :: "(bool \<Rightarrow> bool) \<Rightarrow> call_walk \<Rightarrow> call_walk" where "c_suppressing b a q = a (b q)"
definition c_scoped :: "call_walk \<Rightarrow> call_walk" where "c_scoped a q = CPush # a q @ [CPop]"
definition c_catch :: "token option \<Rightarrow> call_walk \<Rightarrow> call_walk" where
  "c_catch v a = c_scoped (c_then (c_if_some (map_option c_declare v)) a)"

primrec
      expr_calls :: "expr \<Rightarrow> call_walk"
  and property_calls :: "object_property \<Rightarrow> call_walk"
  and stmt_calls :: "stmt \<Rightarrow> bool \<Rightarrow> call_walk"
  and elif_calls :: "elif_branch \<Rightarrow> call_walk"
  and case_calls :: "match_case \<Rightarrow> call_walk"
where
  "expr_calls (ELiteral val sp) = c_none"
| "expr_calls (EVariable name) = c_use (lexeme name)"
| "expr_calls (EBinary left op right) = c_then (expr_calls left) (expr_calls right)"
| "expr_calls (EUnary op right) = expr_calls right"
| "expr_calls (EPostfixUnary op left) = expr_calls left"
| "expr_calls (EGrouping expression open_span close_span) = expr_calls expression"
| "expr_calls (EMember object property) = expr_calls object"
| "expr_calls (EOptionalMember object property) = expr_calls object"
| "expr_calls (ECall callee paren arguments) =
     c_then (expr_calls callee) (c_each (map expr_calls arguments))"
| "expr_calls (EAssign name val) = c_then (c_use (lexeme name)) (expr_calls val)"
| "expr_calls (EIndexGet object index) = c_then (expr_calls object) (expr_calls index)"
| "expr_calls (EIndexSet object index val) =
     c_each [expr_calls object, expr_calls index, expr_calls val]"
| "expr_calls (EMemberSet object property val) = c_then (expr_calls object) (expr_calls val)"
| "expr_calls (EThis keyword) = c_none"
| "expr_calls (ELambda params ret body sp) =
     c_suppressing (\<lambda>q. False) (c_scoped (c_each (map (\<lambda>s. stmt_calls s False) body)))"
| "expr_calls (ETernary condition then_branch else_branch) =
     c_each [expr_calls condition, expr_calls then_branch, expr_calls else_branch]"
| "expr_calls (ESpread val op_span) = expr_calls val"
| "expr_calls (EObjectLiteral properties sp) = c_each (map property_calls properties)"
| "expr_calls (EArrayLiteral elements sp) = c_each (map expr_calls elements)"
| "expr_calls (EAwait callee arguments sp) =
     c_then (expr_calls callee) (c_each (map expr_calls arguments))"
| "expr_calls (EAsyncBlock body ret sp) = c_scoped (c_each (map (\<lambda>s. stmt_calls s False) body))"
| "expr_calls (EView target mutable keyword) = expr_calls target"
| "expr_calls (ECopy expression keyword) = expr_calls expression"
| "expr_calls (EBorrow target mutable keyword) = expr_calls target"
| "expr_calls (ERawDeref target star) = expr_calls target"
| "expr_calls (ERawDerefSet target val star) = c_then (expr_calls target) (expr_calls val)"
| "expr_calls (EStructLiteral class_name flds update sp) =
     c_each [c_use (lexeme class_name), c_each (map property_calls flds),
       c_if_some (map_option expr_calls update)]"
| "expr_calls (EPropagate val question_span) = expr_calls val"
| "expr_calls (ETupleLiteral elements sp) = c_each (map expr_calls elements)"
| "expr_calls (ETupleIndex object index dot_span) = expr_calls object"
| "expr_calls (EChanSend channel val op_span) = c_then (expr_calls channel) (expr_calls val)"
| "expr_calls (EChanRecv receiver channel op_span) =
     c_then (c_declare receiver) (expr_calls channel)"
| "expr_calls (EClose channel keyword) = expr_calls channel"
| "property_calls (ObjectProperty key val key_span) = expr_calls val"
| "stmt_calls (SExpression expression) member = expr_calls expression"
| "stmt_calls (SSay expression keyword_span) member = expr_calls expression"
| "stmt_calls (SVar name ta init is_static is_const view) member =
     c_then (c_if_some (map_option expr_calls init)) (if member then c_none else c_declare name)"
| "stmt_calls (SBlock stmts open_span close_span) member =
     c_scoped (c_each (map (\<lambda>s. stmt_calls s False) stmts))"
| "stmt_calls (SIf condition then_branch elifs else_branch) member =
     c_each [expr_calls condition, stmt_calls then_branch False, c_each (map elif_calls elifs),
       c_if_some (map_option (\<lambda>s. stmt_calls s False) else_branch)]"
| "stmt_calls (SWhile condition body) member = c_then (expr_calls condition) (stmt_calls body False)"
| "stmt_calls (SDoWhile body condition) member = c_then (stmt_calls body False) (expr_calls condition)"
| "stmt_calls (SFor init condition update body) member =
     c_scoped (c_each [c_if_some (map_option (\<lambda>s. stmt_calls s False) init),
       c_if_some (map_option expr_calls condition), c_if_some (map_option expr_calls update),
       stmt_calls body False])"
| "stmt_calls (SForIn variable iterable body) member =
     c_then (expr_calls iterable) (c_scoped (c_then (c_declare variable) (stmt_calls body False)))"
| "stmt_calls (SForAwait variable producer body) member =
     c_then (expr_calls producer) (c_scoped (c_then (c_declare variable) (stmt_calls body False)))"
| "stmt_calls (SChanRecvFor variable channel body) member =
     c_then (expr_calls channel) (c_scoped (c_then (c_declare variable) (stmt_calls body False)))"
| "stmt_calls (SGo call block keyword_span) member =
     c_then (expr_calls call)
       (c_if_some (map_option (\<lambda>fs. c_scoped (c_each fs)) (map_option (map (\<lambda>s. stmt_calls s False)) block)))"
| "stmt_calls (SFunction name generics params ret body) member =
     c_suppressing (\<lambda>q. False) (c_scoped (c_each (map (\<lambda>s. stmt_calls s False) body)))"
| "stmt_calls (SAsyncFunction name params ret body) member =
     c_suppressing (\<lambda>q. False) (c_scoped (c_each (map (\<lambda>s. stmt_calls s False) body)))"
| "stmt_calls (SReturn val) member = c_if_some (map_option expr_calls val)"
| "stmt_calls (SClass name generics parent body) member =
     c_suppressing (\<lambda>q. False) (c_scoped (c_each (map (\<lambda>s. stmt_calls s True) body)))"
| "stmt_calls (SBreak sp) member = c_none"
| "stmt_calls (SContinue sp) member = c_none"
| "stmt_calls (SMatch expression cases default_case) member =
     c_each [expr_calls expression, c_each (map case_calls cases),
       c_if_some (map_option (\<lambda>s. stmt_calls s False) default_case)]"
| "stmt_calls (STry try_block catch_var catch_block finally_block) member =
     c_each [stmt_calls try_block False,
       c_if_some (map_option (c_catch catch_var) (map_option (\<lambda>s. stmt_calls s False) catch_block)),
       c_if_some (map_option (\<lambda>s. stmt_calls s False) finally_block)]"
| "stmt_calls (SThrow val) member = expr_calls val"
| "stmt_calls (SRetry cnt body catch_var catch_block) member =
     c_each [expr_calls cnt, stmt_calls body False,
       c_if_some (map_option (c_catch catch_var) (map_option (\<lambda>s. stmt_calls s False) catch_block))]"
| "stmt_calls (SUnsafe body) member = stmt_calls body False"
| "stmt_calls (SQuiet suppressed body) member =
     c_suppressing (\<lambda>q. quiet_applies suppressed \<or> q) (stmt_calls body False)"
| "stmt_calls (SDestructure is_array is_tuple names keys init) member =
     c_then (expr_calls init) (if member then c_none else c_each (map c_declare names))"
| "stmt_calls (SUse library is_file_path imported_symbols nickname) member = c_none"
| "stmt_calls (SEnum name generics members) member = c_none"
| "stmt_calls (STypeAlias name generics target) member = c_none"
| "stmt_calls (STrait name generics supers methods) member = c_none"
| "stmt_calls (SImpl trait_name type_name methods) member = c_none"
| "stmt_calls (STest name body) member =
     c_suppressing (\<lambda>q. False) (c_scoped (c_each (map (\<lambda>s. stmt_calls s False) body)))"
| "elif_calls (ElifBranch condition body sp) = c_then (expr_calls condition) (stmt_calls body False)"
| "case_calls (MatchCase val pat guard body sp) =
     c_each [expr_calls val, c_if_some (map_option expr_calls guard), stmt_calls body False]"

definition program_calls :: "program \<Rightarrow> lint_call list" where
  "program_calls p = c_each (map (\<lambda>s. stmt_calls s False) (statements p)) False @ [CPop]"

text \<open>
  What becomes of a declaration of \<open>n\<close>, from the calls that follow it. The list \<open>sh\<close> has an entry for
  each scope opened since and still open, the innermost first: whether \<open>n\<close> is declared in it.
\<close>

datatype decl_fate = Mentioned | Redeclared | Unused | StillOpen

fun fate :: "string \<Rightarrow> bool list \<Rightarrow> lint_call list \<Rightarrow> decl_fate" where
  "fate n sh [] = StillOpen"
| "fate n sh (CUse m # cs) = (if m = n \<and> True \<notin> set sh then Mentioned else fate n sh cs)"
| "fate n sh (CDeclare m sp q # cs) =
     (if m = n then case sh of [] \<Rightarrow> Redeclared | b # bs \<Rightarrow> fate n (True # bs) cs else fate n sh cs)"
| "fate n sh (CPush # cs) = fate n (False # sh) cs"
| "fate n sh (CPop # cs) = (case sh of [] \<Rightarrow> Unused | b # bs \<Rightarrow> fate n bs cs)"

fun unused_declarations :: "lint_call list \<Rightarrow> (string \<times> span) list" where
  "unused_declarations [] = []"
| "unused_declarations (CDeclare n sp q # cs) =
     (if n \<noteq> ''_'' \<and> \<not> q \<and> fate n [] cs = Unused then [(n, sp)] else []) @ unused_declarations cs"
| "unused_declarations (c # cs) = unused_declarations cs"

definition warning_for :: "string \<times> span \<Rightarrow> lint_warning" where
  "warning_for d = \<lparr>lw_lint = LINT_UNUSED_VARIABLE, lw_message = unused_message (fst d), lw_span = snd d\<rparr>"

section \<open>The walk makes these calls\<close>

primrec run_call :: "visit_order \<Rightarrow> lint_call \<Rightarrow> lint_step" where
  "run_call od (CDeclare n sp q) = suppressing (\<lambda>saved. q) (declare_local n sp)"
| "run_call od (CUse n) = mark_used n"
| "run_call od CPush = push_lint_scope"
| "run_call od CPop = end_lint_scope od"

abbreviation run_calls :: "visit_order \<Rightarrow> lint_call list \<Rightarrow> lint_step" where
  "run_calls od cs \<equiv> each (map (run_call od) cs)"

lemma each_nil [simp]: "each [] = Some"
  by (rule ext) simp

lemma each_single [simp]: "each [f] = f"
  by (rule ext) simp

lemma each_append: "each (fs @ gs) l = Option.bind (each fs l) (each gs)"
  by (induction fs arbitrary: l) (auto simp: Option.bind_assoc split: Option.bind_split)

lemmas lint_ops = declare_local_def mark_used_def push_lint_scope_def end_lint_scope_def suppressing_def Let_def

lemma run_call_suppress:
  "run_call od c (l\<lparr>suppress_unused := b\<rparr>) = map_option (\<lambda>l'. l'\<lparr>suppress_unused := b\<rparr>) (run_call od c l)"
  by (cases c) (auto simp: lint_ops split: list.splits)

lemma run_calls_suppress:
  "run_calls od cs (l\<lparr>suppress_unused := b\<rparr>) = map_option (\<lambda>l'. l'\<lparr>suppress_unused := b\<rparr>) (run_calls od cs l)"
  by (induction cs arbitrary: l)
    (auto simp: run_call_suppress option.map_comp comp_def bind_map_option split: Option.bind_split)

lemma run_calls_keeps_suppress: "run_calls od cs l = Some l' \<Longrightarrow> suppress_unused l' = suppress_unused l"
proof (induction cs arbitrary: l)
  case (Cons c cs)
  then obtain m where "run_call od c l = Some m" "run_calls od cs m = Some l'" by (auto simp: bind_eq_Some_conv)
  then show ?case using Cons.IH [of m] by (cases c) (auto simp: lint_ops split: list.splits if_splits)
qed simp

definition makes :: "visit_order \<Rightarrow> lint_step \<Rightarrow> call_walk \<Rightarrow> bool" where
  "makes od f a \<longleftrightarrow> (\<forall>l. f l = run_calls od (a (suppress_unused l)) l)"

lemma makes_basic:
  "makes od Some c_none" "makes od (mark_used n) (c_use n)" "makes od (declare_token t) (c_declare t)"
  by (simp_all add: makes_def c_none_def c_use_def c_declare_def declare_token_def suppressing_def Let_def
      option.map_ident)
    (auto simp: declare_local_def split: list.splits)

lemma makes_then: "makes od f a \<Longrightarrow> makes od g b \<Longrightarrow> makes od (and_then f g) (c_then a b)"
  by (auto simp: makes_def c_then_def and_then_def each_append run_calls_keeps_suppress split: Option.bind_split)

lemma makes_each:
  "(\<And>x. x \<in> set xs \<Longrightarrow> makes od (f x) (w x)) \<Longrightarrow> makes od (each (map f xs)) (c_each (map w xs))"
proof (induction xs)
  case (Cons x xs)
  then have "makes od (and_then (f x) (each (map f xs))) (c_then (w x) (c_each (map w xs)))" by (simp add: makes_then)
  then show ?case by (simp add: makes_def and_then_def c_then_def c_each_def)
qed (simp add: makes_def c_each_def)

lemma makes_list:
  "makes od (each []) (c_each [])"
  "makes od f a \<Longrightarrow> makes od (each fs) (c_each as) \<Longrightarrow> makes od (each (f # fs)) (c_each (a # as))"
  using makes_then [of od f a "each fs" "c_each as"]
  by (auto simp: makes_def and_then_def c_then_def c_each_def)

lemma makes_if_some:
  "(\<And>y. x = Some y \<Longrightarrow> makes od (f y) (w y)) \<Longrightarrow> makes od (if_some (map_option f x)) (c_if_some (map_option w x))"
  by (cases x) (auto simp: if_some_def c_if_some_def makes_basic)

lemma makes_suppressing:
  "makes od f a \<Longrightarrow> makes od (suppressing b f) (c_suppressing b a)"
  by (auto simp: makes_def suppressing_def c_suppressing_def Let_def run_calls_suppress option.map_comp comp_def
      run_calls_keeps_suppress intro!: option.map_ident_strong)

lemma makes_scoped: "makes od f a \<Longrightarrow> makes od (scoped od f) (c_scoped a)"
  by (auto simp: makes_def scoped_def c_scoped_def and_then_def each_append push_lint_scope_def)

lemma makes_catch: "makes od f a \<Longrightarrow> makes od (catch_scope od v f) (c_catch v a)"
  unfolding catch_scope_def c_catch_def by (intro makes_scoped makes_then makes_if_some makes_basic)

lemmas makes_intros = makes_basic makes_then makes_each makes_list makes_if_some makes_suppressing makes_scoped
  makes_catch

lemma walk_makes_calls:
  "makes od (lint_expr od e) (expr_calls e)"
  "makes od (lint_property od p) (property_calls p)"
  "\<forall>member. makes od (lint_stmt od s member) (stmt_calls s member)"
  "makes od (lint_elif od eb) (elif_calls eb)"
  "makes od (lint_case od mc) (case_calls mc)"
  "em = (em :: enum_member)"
  by (induction e and p and s and eb and mc and em)
    (simp_all add: option.map_comp comp_def makes_basic del: each_nil each_single each.simps,
      (intro allI conjI impI makes_intros; simp add: makes_basic makes_each)+)

section \<open>What is reported\<close>

text \<open>
  The reports that the declarations in the open scopes have still to come, given the calls ahead: a
  declaration waits behind the scopes inside its own, of which \<open>sh n\<close> says whether they declare \<open>n\<close>.
\<close>

definition scope_reports :: "(string \<Rightarrow> bool list) \<Rightarrow> lint_scope \<Rightarrow> lint_call list \<Rightarrow> lint_warning multiset" where
  "scope_reports sh sc cs =
     image_mset unused_warning {#e \<in># mset sc. reportable e \<and> fate (fst e) (sh (fst e)) cs = Unused#}"

primrec pending_reports :: "(string \<Rightarrow> bool list) \<Rightarrow> lint_scope list \<Rightarrow> lint_call list \<Rightarrow> lint_warning multiset" where
  "pending_reports sh [] cs = {#}"
| "pending_reports sh (sc # outer) cs =
     scope_reports sh sc cs + pending_reports (\<lambda>n. sh n @ [n \<in> fst ` set sc]) outer cs"

definition scopes_wf :: "lint_scope list \<Rightarrow> bool" where
  "scopes_wf scs \<longleftrightarrow> (\<forall>sc \<in> set scs. distinct (map fst sc) \<and> ''_'' \<notin> fst ` set sc)"

definition permutes_scopes :: "visit_order \<Rightarrow> bool" where
  "permutes_scopes od \<longleftrightarrow> (\<forall>ws sc. mset (od ws sc) = mset sc)"

lemma filter_absent: "n \<notin> fst ` set sc \<Longrightarrow> {#e \<in># mset sc. fst e \<noteq> n#} = mset sc"
  by (force simp: filter_mset_eq_conv)

lemma mset_update:
  "distinct (map fst sc) \<Longrightarrow> mset (AList.update n d sc) = add_mset (n, d) {#e \<in># mset sc. fst e \<noteq> n#}"
  by (induction sc) (auto simp: filter_absent)

lemma mset_lookup:
  "distinct (map fst sc) \<Longrightarrow> map_of sc n = Some d \<Longrightarrow> mset sc = add_mset (n, d) {#e \<in># mset sc. fst e \<noteq> n#}"
  by (induction sc) (auto simp: filter_absent split: if_splits)

lemma update_keys: "fst ` set (AList.update n d sc) = insert n (fst ` set sc)"
  by (induction sc) auto

lemma map_of_keys: "map_of sc n = Some d \<Longrightarrow> n \<in> fst ` set sc"
  by (force dest: map_of_SomeD)

lemma scopes_wf_Cons:
  "scopes_wf (sc # outer) \<longleftrightarrow> distinct (map fst sc) \<and> ''_'' \<notin> fst ` set sc \<and> scopes_wf outer"
  by (auto simp: scopes_wf_def)

lemma scopes_wf_update: "scopes_wf (sc # outer) \<Longrightarrow> n \<noteq> ''_'' \<Longrightarrow> scopes_wf (AList.update n d sc # outer)"
  by (simp add: scopes_wf_Cons distinct_update update_keys)

lemma scopes_wf_mark: "scopes_wf scs \<Longrightarrow> scopes_wf (mark_scopes n scs)"
proof (induction scs)
  case (Cons sc outer)
  show ?case
  proof (cases "map_of sc n")
    case (Some d)
    then have "n \<noteq> ''_''" using Cons.prems map_of_keys [OF Some] unfolding scopes_wf_Cons by metis
    then show ?thesis using Some Cons.prems by (simp add: scopes_wf_update)
  qed (use Cons in \<open>simp add: scopes_wf_Cons\<close>)
qed simp

lemma scope_reports_cong:
  "(\<And>n. n \<in> fst ` set sc \<Longrightarrow> (fate n (sh n) cs = Unused) = (fate n (sh' n) cs' = Unused)) \<Longrightarrow>
    scope_reports sh sc cs = scope_reports sh' sc cs'"
  unfolding scope_reports_def by (rule arg_cong [where f = "image_mset unused_warning"]) (rule filter_mset_cong, auto simp: image_iff)

text \<open>A mention: it concerns the innermost declaration of the name only.\<close>

lemma reports_use_shadowed:
  "True \<in> set (sh n) \<Longrightarrow> pending_reports sh scs (CUse n # cs) = pending_reports sh scs cs"
  by (induction scs arbitrary: sh) (auto intro!: scope_reports_cong split: if_splits)

lemma reports_use:
  "scopes_wf scs \<Longrightarrow> True \<notin> set (sh n) \<Longrightarrow>
    pending_reports sh scs (CUse n # cs) = pending_reports sh (mark_scopes n scs) cs"
proof (induction scs arbitrary: sh)
  case (Cons sc outer)
  have wf: "distinct (map fst sc)" "scopes_wf outer" using Cons.prems by (auto simp: scopes_wf_def)
  show ?case
  proof (cases "map_of sc n")
    case None
    then have "n \<notin> fst ` set sc" by (simp add: map_of_eq_None_iff)
    then have "scope_reports sh sc (CUse n # cs) = scope_reports sh sc cs"
      by (intro scope_reports_cong) auto
    with \<open>n \<notin> fst ` set sc\<close> show ?thesis using None Cons.IH [OF wf(2)] Cons.prems by simp
  next
    case (Some d)
    define rest where "rest = {#e \<in># mset sc. fst e \<noteq> n#}"
    have m: "mset sc = add_mset (n, d) rest" "mset (AList.update n (d\<lparr>ld_used := True\<rparr>) sc) = add_mset (n, d\<lparr>ld_used := True\<rparr>) rest"
      using mset_lookup [OF wf(1) Some] mset_update [OF wf(1)] by (simp_all add: rest_def)
    have "{#e \<in># rest. reportable e \<and> fate (fst e) (sh (fst e)) (CUse n # cs) = Unused#} =
      {#e \<in># rest. reportable e \<and> fate (fst e) (sh (fst e)) cs = Unused#}"
      by (auto simp: rest_def intro!: filter_mset_cong)
    then have "scope_reports sh sc (CUse n # cs) = scope_reports sh (AList.update n (d\<lparr>ld_used := True\<rparr>) sc) cs"
      using Cons.prems(2) by (simp add: scope_reports_def m reportable_def)
    moreover have "fst ` set (AList.update n (d\<lparr>ld_used := True\<rparr>) sc) = fst ` set sc" "n \<in> fst ` set sc"
      using Some by (auto simp: update_keys map_of_keys)
    ultimately show ?thesis using Some reports_use_shadowed [of "\<lambda>m. sh m @ [m \<in> fst ` set sc]" n outer cs] by simp
  qed
qed simp

text \<open>A declaration: it replaces the one in its scope and hides those outside.\<close>

lemma reports_declare_outer:
  "n \<noteq> ''_'' \<Longrightarrow> sh n \<noteq> [] \<Longrightarrow>
    pending_reports sh scs (CDeclare n sp q # cs) = pending_reports (sh(n := True # tl (sh n))) scs cs"
proof (induction scs arbitrary: sh)
  case (Cons sc outer)
  let ?sh = "\<lambda>m. sh m @ [m \<in> fst ` set sc]"
  have "scope_reports sh sc (CDeclare n sp q # cs) = scope_reports (sh(n := True # tl (sh n))) sc cs"
    using Cons.prems by (auto intro!: scope_reports_cong split: list.splits)
  moreover have "?sh(n := True # tl (?sh n)) = (\<lambda>m. (sh(n := True # tl (sh n))) m @ [m \<in> fst ` set sc])"
    using Cons.prems by auto
  ultimately show ?case using Cons.prems Cons.IH [of ?sh] by (simp add: fun_upd_def)
qed simp

lemma reports_declare:
  assumes "scopes_wf (sc # outer)" "n \<noteq> ''_''" and d_def: "d = \<lparr>ld_span = sp, ld_suppressed = q, ld_used = False\<rparr>"
  shows "pending_reports (\<lambda>_. []) (AList.update n d sc # outer) cs =
    pending_reports (\<lambda>_. []) (sc # outer) (CDeclare n sp q # cs) +
    mset (map warning_for (if \<not> q \<and> fate n [] cs = Unused then [(n, sp)] else []))"
proof -
  let ?sh = "\<lambda>m. [m \<in> fst ` set sc]"
  define rest where "rest = {#e \<in># mset sc. fst e \<noteq> n#}"
  have d: "reportable (n, d) \<longleftrightarrow> \<not> q" "unused_warning (n, d) = warning_for (n, sp)"
    by (simp_all add: d_def reportable_def unused_warning_def warning_for_def)
  have m: "mset (AList.update n d sc) = add_mset (n, d) rest"
    using mset_update [of sc n d] assms(1) by (simp add: rest_def scopes_wf_def)
  have "{#e \<in># mset sc. reportable e \<and> fate (fst e) [] (CDeclare n sp q # cs) = Unused#} =
      {#e \<in># rest. reportable e \<and> fate (fst e) [] cs = Unused#}"
    using assms(2) by (auto simp: rest_def filter_filter_mset intro!: filter_mset_cong split: if_splits)
  then have "scope_reports (\<lambda>_. []) (AList.update n d sc) cs =
    scope_reports (\<lambda>_. []) sc (CDeclare n sp q # cs) +
    mset (map warning_for (if \<not> q \<and> fate n [] cs = Unused then [(n, sp)] else []))"
    using d by (simp add: scope_reports_def m)
  moreover have "(\<lambda>m. [m \<in> fst ` set (AList.update n d sc)]) = ?sh(n := True # tl (?sh n))"
    by (auto simp: update_keys fun_eq_iff)
  ultimately show ?thesis using reports_declare_outer [of n ?sh outer sp q cs] assms(2) by simp
qed

lemma reports_declare_ignored:
  "scopes_wf scs \<Longrightarrow> pending_reports sh scs (CDeclare ''_'' sp q # cs) = pending_reports sh scs cs"
proof (induction scs arbitrary: sh)
  case (Cons sc outer)
  have "n \<noteq> ''_''" if "n \<in> fst ` set sc" for n using that Cons.prems unfolding scopes_wf_Cons by metis
  then have "scope_reports sh sc (CDeclare ''_'' sp q # cs) = scope_reports sh sc cs"
    by (intro scope_reports_cong) auto
  then show ?case using Cons by (simp add: scopes_wf_Cons)
qed simp

lemma reports_push: "pending_reports sh scs (CPush # cs) = pending_reports (\<lambda>n. False # sh n) scs cs"
  by (induction scs arbitrary: sh) (auto intro!: scope_reports_cong)

lemma reports_pop_outer:
  "(\<And>m. sh m \<noteq> []) \<Longrightarrow> pending_reports sh scs (CPop # cs) = pending_reports (\<lambda>n. tl (sh n)) scs cs"
proof (induction scs arbitrary: sh)
  case (Cons sc outer)
  have "scope_reports sh sc (CPop # cs) = scope_reports (\<lambda>n. tl (sh n)) sc cs"
    using Cons.prems by (intro scope_reports_cong) (metis fate.simps(5) list.exhaust_sel list.simps(5))
  then show ?case using Cons.prems Cons.IH [of "\<lambda>n. sh n @ [n \<in> fst ` set sc]"] by simp
qed simp

lemma reports_pop:
  "pending_reports (\<lambda>_. []) (sc # outer) (CPop # cs) =
    image_mset unused_warning {#e \<in># mset sc. reportable e#} + pending_reports (\<lambda>_. []) outer cs"
  by (simp add: scope_reports_def reports_pop_outer)

theorem run_calls_reports:
  "permutes_scopes od \<Longrightarrow> scopes_wf (lint_scopes l) \<Longrightarrow> run_calls od cs l = Some l' \<Longrightarrow>
    mset (lint_warnings l') = mset (lint_warnings l) + pending_reports (\<lambda>_. []) (lint_scopes l) cs +
      mset (map warning_for (unused_declarations cs))"
proof (induction cs arbitrary: l)
  case Nil
  have "pending_reports sh scs [] = {#}" for sh scs by (induction scs arbitrary: sh) (simp_all add: scope_reports_def)
  then show ?case using Nil by simp
next
  case (Cons c cs)
  obtain m where m: "run_call od c l = Some m" "run_calls od cs m = Some l'"
    using Cons.prems by (auto simp: bind_eq_Some_conv)
  note IH = Cons.IH [OF Cons.prems(1) _ m(2)]
  show ?case
  proof (cases c)
    case (CDeclare n sp q)
    show ?thesis
    proof (cases "n = ''_''")
      case True
      then show ?thesis using IH m Cons.prems(2) CDeclare
        by (auto simp: suppressing_def declare_local_def reports_declare_ignored)
    next
      case False
      then obtain sc outer where sc: "lint_scopes l = sc # outer"
        using m CDeclare by (auto simp: suppressing_def declare_local_def split: list.splits)
      then show ?thesis using IH m Cons.prems(2) CDeclare False
        by (auto simp: suppressing_def declare_local_def scopes_wf_update reports_declare [OF _ _ refl]
            simp del: pending_reports.simps)
    qed
  next
    case (CUse n)
    then show ?thesis using IH m Cons.prems(2) scopes_wf_mark [OF Cons.prems(2)]
      by (auto simp: mark_used_def reports_use)
  next
    case CPush
    have "pending_reports (\<lambda>_. [False]) scs cs = pending_reports (\<lambda>_. []) scs (CPush # cs)" for scs
      by (simp add: reports_push)
    with CPush show ?thesis using IH m Cons.prems(2)
      by (auto simp: push_lint_scope_def scopes_wf_def scope_reports_def)
  next
    case CPop
    show ?thesis
    proof (cases "lint_scopes l")
      case (Cons sc outer)
      have "mset (od ws sc) = mset sc" for ws using \<open>permutes_scopes od\<close> by (simp add: permutes_scopes_def)
      then show ?thesis using IH m Cons.prems(2) CPop Cons
        by (auto simp: end_lint_scope_def scopes_wf_Cons reports_pop simp del: pending_reports.simps)
    qed (use IH m CPop in \<open>auto simp: end_lint_scope_def scopes_wf_def\<close>)
  qed
qed

section \<open>The walk never fails\<close>

text \<open>Every part of the walk leaves as many scopes as it found, so that there is one to declare in.\<close>

definition stays :: "lint_step \<Rightarrow> bool" where
  "stays f \<longleftrightarrow> (\<forall>l. lint_scopes l \<noteq> [] \<longrightarrow> (\<exists>l'. f l = Some l' \<and> length (lint_scopes l') = length (lint_scopes l)))"

lemma length_mark_scopes [simp]: "length (mark_scopes n scs) = length scs"
  by (induction scs) (auto split: option.splits)

lemma stays_basic: "stays Some" "stays (mark_used n)" "stays (declare_token t)"
  by (auto simp: stays_def mark_used_def declare_token_def declare_local_def split: list.splits)

lemma stays_then: "stays f \<Longrightarrow> stays g \<Longrightarrow> stays (and_then f g)"
  unfolding stays_def and_then_def by (metis Option.bind.bind_lunit length_0_conv)

lemma stays_each: "(\<And>x. x \<in> set xs \<Longrightarrow> stays (f x)) \<Longrightarrow> stays (each (map f xs))"
proof (induction xs)
  case (Cons x xs)
  then have "stays (and_then (f x) (each (map f xs)))" by (simp add: stays_then)
  then show ?case by (simp add: stays_def and_then_def)
qed (simp add: stays_basic)

lemma stays_list: "stays (each [])" "stays f \<Longrightarrow> stays (each fs) \<Longrightarrow> stays (each (f # fs))"
  using stays_then [of f "each fs"] by (simp_all add: stays_def and_then_def)

lemma stays_if_some: "(\<And>y. x = Some y \<Longrightarrow> stays (f y)) \<Longrightarrow> stays (if_some (map_option f x))"
  by (cases x) (simp_all add: if_some_def stays_basic)

lemma stays_at: "stays f \<Longrightarrow> lint_scopes l \<noteq> [] \<Longrightarrow> \<exists>l'. f l = Some l' \<and> length (lint_scopes l') = length (lint_scopes l)"
  by (simp add: stays_def)

lemma stays_suppressing: "stays f \<Longrightarrow> stays (suppressing b f)"
  using stays_at [of f "_\<lparr>suppress_unused := _\<rparr>"]
  by (fastforce simp: stays_def [of "suppressing b f"] suppressing_def Let_def)

lemma stays_scoped:
  assumes "stays f" shows "stays (scoped od f)"
proof (unfold stays_def, intro allI impI)
  fix l :: linter
  have "\<exists>l'. f (l\<lparr>lint_scopes := [] # lint_scopes l\<rparr>) = Some l' \<and> length (lint_scopes l') = Suc (length (lint_scopes l))"
    using stays_at [OF assms, of "l\<lparr>lint_scopes := [] # lint_scopes l\<rparr>"] by simp
  then show "\<exists>l'. scoped od f l = Some l' \<and> length (lint_scopes l') = length (lint_scopes l)"
    by (auto simp: scoped_def and_then_def push_lint_scope_def end_lint_scope_def split: list.splits)
qed

lemma stays_catch: "stays f \<Longrightarrow> stays (catch_scope od v f)"
  unfolding catch_scope_def by (intro stays_scoped stays_then stays_if_some stays_basic)

lemmas stays_intros = stays_basic stays_then stays_each stays_list stays_if_some stays_suppressing stays_scoped
  stays_catch

lemma walk_stays:
  "stays (lint_expr od e)" "stays (lint_property od p)" "\<forall>member. stays (lint_stmt od s member)"
  "stays (lint_elif od eb)" "stays (lint_case od mc)" "em = (em :: enum_member)"
  by (induction e and p and s and eb and mc and em)
    (simp_all add: option.map_comp comp_def stays_basic del: each_nil each_single each.simps,
      (intro allI conjI impI stays_intros; simp add: stays_basic stays_each)+)

section \<open>Correctness\<close>

lemma lint_program_calls:
  "lint_program od p =
     map_option (\<lambda>l. sort_key warning_position (lint_warnings l)) (run_calls od (program_calls p) linter_new)"
proof -
  have "makes od (each (map (\<lambda>s. lint_stmt od s False) (statements p)))
    (c_each (map (\<lambda>s. stmt_calls s False) (statements p)))"
    by (intro makes_each) (simp add: walk_makes_calls)
  then show ?thesis
    by (simp add: lint_program_def lint_check_program_def makes_def program_calls_def each_append and_then_def
        linter_new_def option.map_comp comp_def)
qed

lemma lint_program_returns: "\<exists>ws. lint_program od p = Some ws"
proof -
  have "stays (each (map (\<lambda>s. lint_stmt od s False) (statements p)))" by (intro stays_each) (simp add: walk_stays)
  then obtain l where "each (map (\<lambda>s. lint_stmt od s False) (statements p)) linter_new = Some l"
    using stays_at [of _ linter_new] by (fastforce simp: linter_new_def)
  then show ?thesis by (auto simp: lint_program_def lint_check_program_def and_then_def end_lint_scope_def split: list.splits)
qed

lemma lint_program_mset:
  assumes "permutes_scopes od" "lint_program od p = Some ws"
  shows "mset ws = mset (map warning_for (unused_declarations (program_calls p)))"
proof -
  obtain l where l: "run_calls od (program_calls p) linter_new = Some l" "ws = sort_key warning_position (lint_warnings l)"
    using assms(2) by (auto simp: lint_program_calls)
  then show ?thesis using run_calls_reports [OF assms(1) _ l(1)]
    by (simp add: linter_new_def scopes_wf_def scope_reports_def)
qed


text \<open>
  The randomness of the hash maps cannot be seen: when the declarations reported stand at different
  positions, any two orders of visit give the same list of warnings.
\<close>

theorem lint_deterministic:
  assumes "permutes_scopes od" "permutes_scopes od'"
    and "distinct (map (warning_position \<circ> warning_for) (unused_declarations (program_calls p)))"
  shows "lint_program od p = lint_program od' p"
proof -
  obtain ws ws' where ws: "lint_program od p = Some ws" "lint_program od' p = Some ws'"
    using lint_program_returns by metis
  let ?us = "map warning_for (unused_declarations (program_calls p))"
  have m: "mset ws = mset ?us" "mset ws' = mset ?us"
    using lint_program_mset [OF assms(1) ws(1)] lint_program_mset [OF assms(2) ws(2)] by simp_all
  have "sorted (map warning_position ws)" "sorted (map warning_position ws')"
    using ws by (auto simp: lint_program_calls)
  moreover have "distinct (map warning_position ?us)" using assms(3) by simp
  ultimately have "map warning_position ws = map warning_position ws'"
    using m by (metis mset_map properties_for_sort)
  moreover have "inj_on warning_position (set ws \<union> set ws')"
    using m \<open>distinct (map warning_position ?us)\<close> by (metis distinct_map set_mset_mset sup.idem)
  ultimately have "ws = ws'" by (rule map_inj_on)
  then show ?thesis using ws by simp
qed

text \<open>
  A program: a variable that the inner block mentions, one there that nothing mentions, one that a
  \<open>quiet\<close> covers, and an inner variable that hides an outer one of the same name.
\<close>

definition id_token :: "string \<Rightarrow> usize \<Rightarrow> token" where
  "id_token s at = token_new (TkIdentifier s) (span_new at (at + 1) 1 1)"

definition var_stmt :: "string \<Rightarrow> usize \<Rightarrow> expr option \<Rightarrow> stmt" where
  "var_stmt s at init = SVar (id_token s at) None init False False None"

definition say_stmt :: "string \<Rightarrow> usize \<Rightarrow> stmt" where
  "say_stmt s at = SSay (EVariable (id_token s at)) span_dummy"

definition lint_example :: program where
  "lint_example = \<lparr>statements =
     [var_stmt ''a'' 4 None, var_stmt ''b'' 10 None,
      SBlock [var_stmt ''c'' 18 (Some (EVariable (id_token ''a'' 22))), var_stmt ''b'' 28 None, say_stmt ''b'' 34]
        span_dummy span_dummy,
      SQuiet [] (var_stmt ''d'' 48 None)]\<rparr>"

lemmas lint_example_simps = id_token_def var_stmt_def say_stmt_def lexeme_def c_none_def c_use_def c_declare_def
  c_then_def c_each_def c_if_some_def c_suppressing_def c_scoped_def quiet_applies_def program_calls_def

lemma lint_example_unused:
  "unused_declarations (program_calls lint_example) = [(''b'', span_new 10 11 1 1), (''c'', span_new 18 19 1 1)]"
  by (simp add: lint_example_def lint_example_simps)


section \<open>Where the warnings are wrong\<close>

text \<open>
  The bodies of \<open>impl\<close> blocks are not walked: a variable that only a method mentions is reported. The
  parameters of a function are not declared: the mention of a parameter counts for a variable
  outside that has its name, and the unused variable is not reported.
\<close>

lemma impl_use_not_seen:
  "lint_program (\<lambda>_ sc. sc)
     \<lparr>statements = [var_stmt ''x'' 4 None,
       SImpl (id_token ''T'' 20) (id_token ''C'' 30)
         [SFunction (id_token ''m'' 40) [] [] None [say_stmt ''x'' 50]]]\<rparr> =
   Some [warning_for (''x'', span_new 4 5 1 1)]"
  by (simp add: lint_program_calls lint_example_simps lint_ops linter_new_def reportable_def unused_warning_def warning_for_def)

lemma parameter_use_counts_outside:
  "lint_program (\<lambda>_ sc. sc)
     \<lparr>statements = [var_stmt ''x'' 4 None,
       SFunction (id_token ''f'' 12) [] [\<lparr>fp_name = id_token ''x'' 14, fp_type = None\<rparr>] None [say_stmt ''x'' 24]]\<rparr> =
   Some []"
  by (simp add: lint_program_calls lint_example_simps lint_ops linter_new_def reportable_def)

text \<open>A \<open>quiet\<close> does not reach into a function: the walk is that of the function alone.\<close>

lemma quiet_stops_at_functions:
  "lint_stmt od (SQuiet ns (SFunction name generics params ret body)) member =
   lint_stmt od (SFunction name generics params ret body) member"
  by (rule ext) (simp add: suppressing_def option.map_comp comp_def Let_def)

end
