(* ===== verification/Spec2Isabelle.thy ===== *)
theory Spec2Isabelle
  imports Run_Queue Registry_System Id_Map Symbol_Table Const_Eval Scheduler_Mirrors Span_Shift Diagnostics_Spec
    Parser_Strings Module_Loader Build_Config Async_Context Std_Sort Std_Json Std_Handles
    Linter
begin

text \<open>
  NTSC is an ahead-of-time compiler for the Neutron language, with the runtime that compiled
  programs are linked to. All paths below are under \<open>src/crates\<close>.

  \<^bold>\<open>The program.\<close> The compiler is a pipeline. \<open>ntsc-lexer\<close> turns a source text into tokens with
  spans (\<open>ntsc-ast\<close> holds tokens, spans and syntax trees), \<open>ntsc-parser\<close> builds the trees,
  \<open>ntsc-build\<close> merges the modules of a package, \<open>ntsc-typeck\<close> resolves names and types, checks
  ownership and evaluates constants, and \<open>ntsc-codegen\<close> emits LLVM code. The emitted code calls the
  C functions of \<open>ntsc-runtime\<close>. There every value that is not a machine word is a handle: an \<open>i64\<close>
  that names an entry of a global registry. Asynchronous functions are polled by a scheduler of
  worker threads; goroutines wait for channels, timers, descriptors, offloaded jobs and each other.
  The scheduler keeps its state under one mutex and gives every worker a lock-free run queue; it
  names goroutines and channels by core ids, and the registry maps handles to core ids.

  \<^bold>\<open>The theories.\<close>
  \<^item> \<open>Ntsc_Prelude\<close>: the integer types of Rust with wrapping and saturating arithmetic, UTF-8
    characters, and shared lemmas.
  \<^item> \<open>Run_Queue\<close> (\<open>ntsc-runtime/src/ntask/runqueue.rs\<close>): the ring with its wrapping \<open>u32\<close> indices and
    its slot for the next goroutine. The locale \<open>bounded_queue\<close> is what its clients rely on.
  \<^item> \<open>Registry_Table\<close>, \<open>Registry_Strings\<close>, \<open>Registry_Arrays\<close>, \<open>Registry_Slices\<close>, \<open>Registry_Memory\<close>,
    \<open>Registry_Boxes\<close> (\<open>registry.rs\<close>): the sharded table with its counters, and one theory for each
    group of handle kinds. \<open>Registry_Array_Spec\<close> relates the array operations to functions on lists
    of values, with the handles abstracted away. \<open>Registry_System\<close> composes all operations into one
    step relation and has the properties of every reachable registry.
  \<^item> \<open>Id_Map\<close> (\<open>idmap.rs\<close>): the hasher of the runtime's tables.
  \<^item> \<open>Task_Core\<close> (\<open>ntask/core.rs\<close>): the scheduler state under its mutex and the operations on it.
  \<^item> \<open>Channels\<close> (\<open>ntask/scheduler.rs\<close>: \<open>chan_send\<close>, \<open>chan_recv\<close>, \<open>chan_close\<close>): the operations, an
    abstract queue of values that they refine, and the history of a channel. The locale
    \<open>closable_queue\<close> is the contract.
  \<^item> \<open>Scheduler\<close> (\<open>ntask/scheduler.rs\<close>, \<open>ntask/reactor.rs\<close>): workers, spawning, picking, the two halves
    of \<open>drive\<close> around a poll, parking, joining, timers and descriptors. \<open>Scheduler_Once\<close> composes
    them with those of \<open>Task_Core\<close> and \<open>Channels\<close> into the step relation \<open>sched_step\<close> and proves
    that a goroutine is in one place at a time; \<open>Scheduler_Mirrors\<close> proves the counters outside the
    lock exact.
  \<^item> \<open>Async_Context\<close> (\<open>lib.rs\<close>): the stacks of asynchronous tasks of a thread, the legacy driver, and
    \<open>wait_any\<close> and \<open>wait_all\<close>.
  \<^item> \<open>Runtime_Core\<close> (\<open>lib.rs\<close>, \<open>ntsc-codegen/src/emit/literal.rs\<close>): the exception slot, the array accesses
    that throw, and string constants from the words the compiler emits to the registered text, with
    UTF-8. On it stand the library modules \<open>Std_Sort\<close>, \<open>Std_Encoding\<close>, \<open>Std_Json\<close> and \<open>Std_Handles\<close>
    (\<open>modules/sort.rs\<close>, \<open>encoding.rs\<close>, \<open>json.rs\<close>; \<open>arrays.rs\<close>, \<open>slices.rs\<close> and \<open>memory.rs\<close>). The locale
    \<open>reporting_op\<close> is what emitted code relies on after a call that may throw.
  \<^item> \<open>Ast_Token\<close>, \<open>Ast\<close> (\<open>ntsc-ast/src\<close>): spans, tokens and syntax trees.
  \<^item> \<open>Raw_Lexer\<close>, \<open>Lexer\<close> (\<open>ntsc-lexer/src\<close>): the token rules, the longest-match scanner that they
    describe, and the lexer with its positions and string interpolation.
  \<^item> \<open>Parser_Core\<close>, \<open>Parser_Types\<close>, \<open>Parser_Decl\<close>, \<open>Parser_Expr\<close>, \<open>Parser_Stmt\<close>, \<open>Parser\<close>
    (\<open>ntsc-parser/src/lib.rs\<close>): the cursor and error recovery, then the parsers of types, declarations, expressions and
    statements, and the loop over a program. \<open>Parser_Progress\<close> has a small program logic for
    parsers, with the locale \<open>type_subparser\<close>; \<open>Parser_Total\<close> proves in the locales \<open>subparsers\<close> and
    \<open>statement_subparsers\<close> that every parser moves forward when those it calls do, and
    \<open>Parser_Returns\<close> interprets them on the parsers themselves. \<open>Parser_Grammar\<close> is the grammar of
    expressions as an inductive relation, \<open>Parser_Pratt\<close> relates the parser to it, and
    \<open>Parser_Strings\<close> treats interpolated strings and line ends.
  \<^item> \<open>Front_End\<close> (\<open>ntsc-codegen/src/lib.rs\<close>: \<open>parse_and_check\<close>, \<open>ntsc-parser/src/diag.rs\<close>): lexer and
    parser together, and parse errors as diagnostics.
  \<^item> \<open>Module_Graph\<close>, \<open>Module_Order\<close> (\<open>ntsc-build/src/modules.rs\<close>): the search for imported files, and the
    invariant of its traversal. \<open>Module_Alias\<close> (\<open>aliases.rs\<close>): the rewriter that puts a module under
    a namespace. \<open>Module_Range\<close>: the byte ranges of statements. \<open>Module_Loader\<close>: parsing, merging and
    the way back from a span to its file. \<open>Build_Config\<close> (\<open>lib.rs\<close>): the project file.
  \<^item> \<open>Type_Relation\<close>, \<open>Symbol_Table\<close>, \<open>Const_Eval\<close> (\<open>ntsc-typeck/src\<close>: \<open>ty.rs\<close>, \<open>scope.rs\<close>,
    \<open>const_eval.rs\<close>): types and assignability, the stack of scopes, and the evaluator of constants.
    \<open>Linter\<close> (\<open>warnings.rs\<close>): the walk that reports unused variables, compared with a description
    of what becomes of each declaration.
  \<^item> \<open>Span_Shift\<close> (\<open>ntsc-ast/src/spans.rs\<close>): the traversal that moves the spans of a module when modules
    are merged, and the bases that \<open>merge\<close> gives them.
  \<^item> \<open>Source_Buffer\<close>, \<open>Diagnostics\<close> (\<open>ntsc-diag/src\<close>): line lookup in source texts, diagnostics and
    their output as JSON and as text. \<open>Diagnostics_Spec\<close> has a reader for JSON and the properties of
    the output. The binary search of the standard library is the locale \<open>searcher\<close>.

  \<^bold>\<open>What is shown.\<close> For the registry: ids are never reused, every operation keeps the table and its
  counters consistent, drops check the kind of a handle, the cache of memory regions is never
  stale, loads see stores, copies of arrays are deep and sorted or shuffled arrays are permutations,
  slices stay in their window, and reference counts release a box exactly once. For tasks: run
  queues and channels are first in, first out, whatever the interleaving of the operations; no
  goroutine is ever queued twice or polled by two workers; no fast path misses work. \<open>wait_any\<close> and
  \<open>wait_all\<close> return once a branch, or both, have completed, if no branch suspends on a child; but they lose
  the tasks of their caller, and take the completion of a child for that of a branch. For the
  library: a throw is caught with its message and leaves nothing behind, sorting by a comparator is
  stable, binary search after sorting finds exactly what is there, the JSON parser returns on every
  text, and escaped or hexadecimal text reads back. For the compiler: a string constant arrives in
  the running program unchanged; the lexer returns on every valid source, and without interpolated strings its spans lie in
  order in the source, with exact lines and columns; interpolated strings split without loss; the parser returns on every list of tokens without a
  panic, and parses expressions as their grammar says; the files of a program are found, imports first, exactly
  when there is no import cycle, and loading them returns; a merged span is given back to its file;
  a module is namespaced by renaming its references and nothing else, when no binding shadows one; blocks restore the
  bindings they shadow; the lint pass reports exactly the declarations that are neither mentioned nor redeclared before
  their scope ends; assignability is reflexive up to trait objects, makes no second owner of a shared value and no
  mutable view of an immutable one; the constant evaluator returns, computes what the operators mean, and gives values only to expressions that
  the checker accepts; merged modules have disjoint spans; line lookup agrees with the lexer, the
  JSON of diagnostics reads back as the diagnostics, and colours change nothing but colours. Where the code does something other than its comments say or than its use
  needs, there is a theorem that says what it does.

  \<^bold>\<open>How the code is read.\<close>
  \<^item> \<open>i64\<close> values are integers, wrapped where the code wraps (release builds); \<open>u8\<close>, \<open>u32\<close> and \<open>u64\<close> are
    words; \<open>usize\<close> lengths are natural numbers. The counters \<open>NEXT_ID\<close> and \<open>REGISTRY_GEN\<close> do not wrap.
    The core-id counter saturates as in the code; in \<open>sched_step\<close> new ids are taken only while a
    whole batch of them is left.
  \<^item> Capacities of vectors are not observable and not modelled, nor is running out of memory.
  \<^item> A function that holds a lock from its first to its last access is one step. Operations of a run
    queue are one step each: the retry loops of the lock-free code are not interleaved.
  \<^item> A poll runs emitted code. It is whatever steps happen between \<open>drive_begin\<close> and \<open>drive_finish\<close>.
    Polls and cleanups are code addresses; an operation that calls one returns the call.
  \<^item> Parameters of the definitions: the order in which a hash map is visited, floating-point arithmetic and number formatting, the random bytes
    of a shuffle, the clock, the escaping of debug strings, the contents of opaque values, the file
    system (one snapshot of it), the TOML parser and the triple of the host; poll functions and
    comparators, which are emitted code; the base64 crate; the byte orders of the compiling and the
    executing machine.
  \<^item> Recursion that Rust leaves to the stack takes fuel in \<open>Const_Eval\<close> and \<open>Lexer\<close>; the properties
    \<open>eval_returns\<close> and \<open>tokenize_returns\<close> show that enough of it always gives a result. The parser has fuel
    for twice the number of tokens, and its loops one round more than there are tokens; \<open>parse_returns\<close> shows that neither runs
    out. The search for modules needs one level more than there are readable files (\<open>load_returns\<close>), and
    the JSON parser one more than there are bytes (\<open>json_parse_returns\<close>). The drivers of \<open>Async_Context\<close>
    may run for ever; that they return is shown for polls that make progress.

  \<^bold>\<open>Not modelled.\<close>
  \<^item> In \<open>ntsc-typeck\<close> name resolution, ownership and generics: passes over whole programs with
    several hundred cases each. \<open>exhaustiveness.rs\<close> and \<open>reachability.rs\<close> are not part of the crate (no
    module declaration names them).
  \<^item> \<open>ntsc-codegen\<close>, but for string constants, emits LLVM through the inkwell library; \<open>ntsc-cli\<close> works on files and processes.
  \<^item> In the runtime: \<open>async_op_poll\<close>, the C entry points of \<open>lib.rs\<close> that only pass their arguments on or
    print, the other modules of the standard library (most wrap the operating system or third-party
    crates), and of the scheduler starting and stopping threads, waking sleepers and the offload pool. Waking
    has no effect on the modelled state.
\<close>

end
